(* ===== verification/Guac_Prelude.thy ===== *)
theory Guac_Prelude
  imports Main "HOL-Library.Word"
begin

text \<open>
  Shared vocabulary of the development: the machine types of the C code, C strings, the
  result type of code that may fail to return, and generic lemmas on lists that several
  components use.

  \<^item> A C \<open>char\<close> is HOL's \<open>char\<close> (one byte); \<open>unsigned char\<close> and raw memory bytes are
    \<open>8 word\<close>; \<open>byte_of\<close> and \<open>char_of_byte\<close> are the casts between the two.
  \<^item> A C \<open>int\<close> is HOL's \<open>int\<close>, with \<open>wrap32\<close> written out wherever the value comes from the
    outside and can exceed 32 bits.
  \<^item> An operation that may not return (an endless loop) or that may run into undefined
    behaviour (a write past the end of an array) yields an \<open>option\<close>; \<open>None\<close> stands for
    "the code does not return normally".
\<close>

unbundle bit_operations_syntax

type_synonym u8 = "8 word"
type_synonym u16 = "16 word"
type_synonym u32 = "32 word"
type_synonym u64 = "64 word"

named_theorems wire_simps \<open>facts that evaluate what a send function writes\<close>
named_theorems pool_simps \<open>field equations of the integer pool operations\<close>

subsection \<open>Characters and bytes\<close>

definition byte_of :: "char \<Rightarrow> u8" where
  "byte_of c = of_char c"

definition char_of_byte :: "u8 \<Rightarrow> char" where
  "char_of_byte b = char_of (unat b)"

lemma unat_byte_of: "unat (byte_of c) = of_char c"
proof -
  have "of_char c < (2 ^ 8 :: nat)" by simp
  then have "unat (of_nat (of_char c) :: u8) = of_char c"
    by (simp add: unsigned_of_nat take_bit_nat_eq_self)
  then show ?thesis by (simp add: byte_of_def of_nat_of_char)
qed

lemma char_of_byte_of [simp]: "char_of_byte (byte_of c) = c"
  by (simp add: char_of_byte_def unat_byte_of)

lemma byte_of_char_of_byte [simp]: "byte_of (char_of_byte b) = b"
proof -
  have "unat b < 256" using unsigned_less [of b] by simp
  then have "unat (byte_of (char_of_byte b)) = unat b"
    by (simp only: unat_byte_of) (simp add: char_of_byte_def of_char_of)
  then show ?thesis by (simp only: word_unat_eq_iff)
qed

lemma byte_of_inject [simp]: "byte_of a = byte_of b \<longleftrightarrow> a = b"
  by (metis char_of_byte_of)

lemma of_char_int_bounds [simp]: "(0 :: int) \<le> of_char c" "of_char c < (256 :: int)"
proof -
  have "int (of_char c) = of_char c" "(of_char c :: nat) < 256" by (simp_all add: of_nat_of_char)
  then show "(0 :: int) \<le> of_char c" "of_char c < (256 :: int)" by linarith+
qed

text \<open>The terminating \<open>\0\<close> of a C string.\<close>

abbreviation NUL :: char where
  "NUL \<equiv> CHR 0x00"

text \<open>The C string that starts at a memory position: everything before the first \<open>\0\<close>.\<close>

definition c_string :: "char list \<Rightarrow> char list" where
  "c_string mem = takeWhile (\<lambda>c. c \<noteq> NUL) mem"

lemma c_string_append_NUL [simp]: "NUL \<notin> set s \<Longrightarrow> c_string (s @ NUL # rest) = s"
  unfolding c_string_def by (subst takeWhile_append2) auto

lemma c_string_no_NUL: "NUL \<notin> set (c_string mem)"
  unfolding c_string_def by (auto dest: set_takeWhileD)

text \<open>\<open>strncpy\<close> into an array: at most \<open>n\<close> characters, padded with terminators up to \<open>n\<close>.\<close>

definition strncpy :: "char list \<Rightarrow> char list \<Rightarrow> nat \<Rightarrow> char list" where
  "strncpy dest src n = take n (src @ replicate n NUL) @ drop n dest"

subsection \<open>32-bit signed arithmetic\<close>

definition wrap32 :: "int \<Rightarrow> int" where
  "wrap32 x = (x + 2 ^ 31) mod 2 ^ 32 - 2 ^ 31"

lemma wrap32_range: "- (2 ^ 31) \<le> wrap32 x \<and> wrap32 x < 2 ^ 31"
  by (simp add: wrap32_def)

lemma wrap32_id [simp]: "- (2 ^ 31) \<le> x \<Longrightarrow> x < 2 ^ 31 \<Longrightarrow> wrap32 x = x"
  by (simp add: wrap32_def)

text \<open>A value that fits in an \<open>int\<close>; where one does not, the overflow is undefined.\<close>

definition in_int :: "int \<Rightarrow> bool" where
  "in_int x \<longleftrightarrow> - (2 ^ 31) \<le> x \<and> x < 2 ^ 31"

subsection \<open>Lists\<close>

lemma take_drop_split: "n \<le> length xs \<Longrightarrow> xs = take n xs @ drop n xs"
  by simp

lemma concat_snoc: "concat (xss @ [xs]) = concat xss @ xs"
  by simp

lemma drop_nth_Cons: "i < length xs \<Longrightarrow> drop i xs = xs ! i # drop (Suc i) xs"
  by (rule Cons_nth_drop_Suc [symmetric])

end
