(* ===== verification/Pool.thy ===== *)
theory Pool
  imports Guac_Prelude
begin

text \<open>
  The integer pool of \<open>libguac/src/pool.c\<close>: it hands out layer, buffer, stream, object and
  file indices and takes them back. The C structure is a singly linked queue of released
  integers, with a head and a tail pointer, beside the counters. The model keeps that
  structure: nodes live in a store from addresses to nodes, \<open>malloc\<close> takes the next unused
  address (and never fails, as the code assumes) and \<open>free\<close> removes the node.

  The locale \<open>int_pool\<close> is the interface the clients of a pool rely on; its laws are about
  the set of integers a pool has handed out and not taken back. The interpretation \<open>gp\<close> at
  the end proves them for the code's model.
\<close>

section \<open>The structure and its operations\<close>

record guac_pool_int =
  pi_value :: int
  pi_next :: "nat option"

record guac_pool =
  p_min_size :: int
  p_active :: int
  p_next_value :: int
  p_head :: "nat option"
  p_tail :: "nat option"
  cells :: "nat \<Rightarrow> guac_pool_int option"
  brk :: nat

definition guac_pool_alloc :: "int \<Rightarrow> guac_pool" where
  "guac_pool_alloc sz =
     \<lparr>p_min_size = sz, p_active = 0, p_next_value = 0, p_head = None, p_tail = None,
      cells = Map.empty, brk = 0\<rparr>"

text \<open>
  \<open>guac_pool_next_int\<close>: count the allocation, then either mint a new integer or unlink the
  head of the queue. Dereferencing a dangling pointer is undefined behaviour: \<open>None\<close>.
\<close>

definition guac_pool_next_int :: "guac_pool \<Rightarrow> (int \<times> guac_pool) option" where
  "guac_pool_next_int pool =
     (let pool = pool\<lparr>p_active := p_active pool + 1\<rparr> in
      case p_head pool of
        None \<Rightarrow> Some (p_next_value pool, pool\<lparr>p_next_value := p_next_value pool + 1\<rparr>)
      | Some h \<Rightarrow>
          if p_next_value pool < p_min_size pool
          then Some (p_next_value pool, pool\<lparr>p_next_value := p_next_value pool + 1\<rparr>)
          else (case cells pool h of
              None \<Rightarrow> None
            | Some node \<Rightarrow>
                if p_tail pool = Some h
                then Some (pi_value node,
                       pool\<lparr>p_head := None, p_tail := None, cells := (cells pool)(h := None)\<rparr>)
                else Some (pi_value node,
                       pool\<lparr>p_head := pi_next node, cells := (cells pool)(h := None)\<rparr>)))"

definition guac_pool_free_int :: "guac_pool \<Rightarrow> int \<Rightarrow> guac_pool option" where
  "guac_pool_free_int pool value =
     (let a = brk pool;
          pool = pool\<lparr>cells := (cells pool)(a \<mapsto> \<lparr>pi_value = value, pi_next = None\<rparr>),
                      brk := Suc a, p_active := p_active pool - 1\<rparr> in
      case p_tail pool of
        None \<Rightarrow> Some (pool\<lparr>p_head := Some a, p_tail := Some a\<rparr>)
      | Some t \<Rightarrow>
          (case cells pool t of
             None \<Rightarrow> None
           | Some node \<Rightarrow>
               Some (pool\<lparr>cells := (cells pool)(t \<mapsto> node\<lparr>pi_next := Some a\<rparr>), p_tail := Some a\<rparr>)))"

text \<open>
  \<open>guac_pool_free\<close> walks the queue and frees every node, then the pool itself. What is left
  of the store is the memory the pool leaks; the fuel bounds the walk.
\<close>

fun free_cells :: "nat \<Rightarrow> (nat \<Rightarrow> guac_pool_int option) \<Rightarrow> nat option \<Rightarrow>
    (nat \<Rightarrow> guac_pool_int option) option" where
  "free_cells fuel m None = Some m"
| "free_cells 0 m (Some a) = None"
| "free_cells (Suc fuel) m (Some a) =
     (case m a of None \<Rightarrow> None | Some node \<Rightarrow> free_cells fuel (m(a := None)) (pi_next node))"

definition guac_pool_free :: "guac_pool \<Rightarrow> (nat \<Rightarrow> guac_pool_int option) option" where
  "guac_pool_free pool = free_cells (brk pool) (cells pool) (p_head pool)"

section \<open>The queue a pool holds\<close>

text \<open>
  \<open>queue_at m p as vs\<close>: following \<open>next\<close> from \<open>p\<close> visits the addresses \<open>as\<close>, whose nodes
  hold the values \<open>vs\<close>, and ends in the null pointer.
\<close>

fun queue_at :: "(nat \<Rightarrow> guac_pool_int option) \<Rightarrow> nat option \<Rightarrow> nat list \<Rightarrow> int list \<Rightarrow> bool" where
  "queue_at m p [] [] \<longleftrightarrow> p = None"
| "queue_at m p (a # as) (v # vs) \<longleftrightarrow>
     p = Some a \<and> (\<exists>n. m a = Some \<lparr>pi_value = v, pi_next = n\<rparr> \<and> queue_at m n as vs)"
| "queue_at m p _ _ \<longleftrightarrow> False"

lemma queue_at_length: "queue_at m p as vs \<Longrightarrow> length as = length vs"
  by (induction m p as vs rule: queue_at.induct) auto

lemma queue_at_upd: "a \<notin> set as \<Longrightarrow> queue_at (m(a := x)) p as vs = queue_at m p as vs"
  by (induction m p as vs rule: queue_at.induct) auto

lemma queue_at_mapped: "queue_at m p as vs \<Longrightarrow> a \<in> set as \<Longrightarrow> m a \<noteq> None"
  by (induction m p as vs rule: queue_at.induct) auto

lemma queue_at_None: "queue_at m None as vs \<longleftrightarrow> as = [] \<and> vs = []"
  by (cases as; cases vs) auto

lemma queue_at_Some:
  "queue_at m (Some a) as vs \<longleftrightarrow>
     (\<exists>as' v vs' n. as = a # as' \<and> vs = v # vs' \<and> m a = Some \<lparr>pi_value = v, pi_next = n\<rparr>
        \<and> queue_at m n as' vs')"
  by (cases as; cases vs) auto

lemma queue_at_snoc:
  assumes "queue_at m p (as @ [t]) vs" and "distinct (as @ [t])" and "a \<notin> set (as @ [t])"
    and "m a = Some \<lparr>pi_value = v, pi_next = None\<rparr>" and "m t = Some node"
  shows "queue_at (m(t \<mapsto> node\<lparr>pi_next := Some a\<rparr>)) p ((as @ [t]) @ [a]) (vs @ [v])"
  using assms
proof (induction as arbitrary: p vs)
  case Nil
  then obtain w where "vs = [w]" "p = Some t" "m t = Some \<lparr>pi_value = w, pi_next = None\<rparr>"
    by (cases vs) (auto simp: queue_at_None elim: queue_at.elims)
  with Nil show ?case by auto
next
  case (Cons b as)
  then obtain w ws n where vs: "vs = w # ws" "p = Some b"
      "m b = Some \<lparr>pi_value = w, pi_next = n\<rparr>" "queue_at m n (as @ [t]) ws"
    by (cases vs) auto
  from Cons.IH [OF vs(4)] Cons.prems vs show ?case by auto
qed

text \<open>
  The shape of a pool: the cells reachable from the head, ending in the tail, are distinct and
  below the break; nothing else is allocated. \<open>pool_queue pool vs\<close> says that the queue, as a
  list of integers, is \<open>vs\<close>.
\<close>

definition pool_queue :: "guac_pool \<Rightarrow> int list \<Rightarrow> bool" where
  "pool_queue pool vs \<longleftrightarrow>
     (\<exists>as. queue_at (cells pool) (p_head pool) as vs \<and> distinct as
        \<and> dom (cells pool) = set as \<and> (\<forall>a \<in> set as. a < brk pool)
        \<and> p_tail pool = (if as = [] then None else Some (last as)))"


lemma pool_queueI:
  "queue_at (cells pool) (p_head pool) as vs \<Longrightarrow> distinct as \<Longrightarrow> dom (cells pool) = set as \<Longrightarrow>
   (\<forall>a \<in> set as. a < brk pool) \<Longrightarrow> p_tail pool = (if as = [] then None else Some (last as)) \<Longrightarrow>
   pool_queue pool vs"
  unfolding pool_queue_def by blast

lemma pool_queue_alloc: "pool_queue (guac_pool_alloc n) []"
  by (rule pool_queueI [where as = "[]"]) (simp_all add: guac_pool_alloc_def)

text \<open>Minting: the queue is empty, or fewer than \<open>min_size\<close> integers exist.\<close>

lemma next_int_mint:
  assumes q: "pool_queue pool vs" and mint: "vs = [] \<or> p_next_value pool < p_min_size pool"
  shows "\<exists>pool'. guac_pool_next_int pool = Some (p_next_value pool, pool') \<and> pool_queue pool' vs
     \<and> p_next_value pool' = p_next_value pool + 1 \<and> p_active pool' = p_active pool + 1
     \<and> p_min_size pool' = p_min_size pool"
proof -
  from q obtain as where as: "queue_at (cells pool) (p_head pool) as vs" "distinct as"
      "dom (cells pool) = set as" "\<forall>a \<in> set as. a < brk pool"
      "p_tail pool = (if as = [] then None else Some (last as))"
    unfolding pool_queue_def by blast
  define pool' where
    "pool' = pool\<lparr>p_active := p_active pool + 1, p_next_value := p_next_value pool + 1\<rparr>"
  have "guac_pool_next_int pool = Some (p_next_value pool, pool')"
  proof (cases "p_head pool")
    case None
    then show ?thesis by (simp add: guac_pool_next_int_def pool'_def)
  next
    case (Some h)
    with as(1) have "vs \<noteq> []" by (auto simp: queue_at_Some)
    with mint Some show ?thesis by (simp add: guac_pool_next_int_def pool'_def)
  qed
  moreover have "pool_queue pool' vs"
    by (rule pool_queueI [where as = as]) (simp_all add: pool'_def as)
  ultimately show ?thesis by (simp add: pool'_def)
qed

text \<open>Recycling: the oldest released integer leaves the queue.\<close>

lemma next_int_recycle:
  assumes q: "pool_queue pool (v # vs)" and "\<not> p_next_value pool < p_min_size pool"
  shows "\<exists>pool'. guac_pool_next_int pool = Some (v, pool') \<and> pool_queue pool' vs
     \<and> p_next_value pool' = p_next_value pool \<and> p_active pool' = p_active pool + 1
     \<and> p_min_size pool' = p_min_size pool"
proof -
  from q obtain as0 where as0: "queue_at (cells pool) (p_head pool) as0 (v # vs)" "distinct as0"
      "dom (cells pool) = set as0" "\<forall>a \<in> set as0. a < brk pool"
      "p_tail pool = (if as0 = [] then None else Some (last as0))"
    unfolding pool_queue_def by blast
  then obtain h as n where h: "as0 = h # as" "p_head pool = Some h"
      "cells pool h = Some \<lparr>pi_value = v, pi_next = n\<rparr>" "queue_at (cells pool) n as vs"
    by (cases as0) auto
  define pool' where "pool' =
     (if as = [] then pool\<lparr>p_active := p_active pool + 1, p_head := None, p_tail := None,
                           cells := (cells pool)(h := None)\<rparr>
      else pool\<lparr>p_active := p_active pool + 1, p_head := n, cells := (cells pool)(h := None)\<rparr>)"
  have tail: "p_tail pool = Some h \<longleftrightarrow> as = []"
    using as0 h by (cases as rule: rev_cases) auto
  have "guac_pool_next_int pool = Some (v, pool')"
    using assms(2) h tail by (simp add: guac_pool_next_int_def pool'_def)
  moreover have "pool_queue pool' vs"
  proof (rule pool_queueI [where as = as])
    show "queue_at (cells pool') (p_head pool') as vs"
      using h as0(2) queue_at_length [OF h(4)]
      by (cases "as = []") (auto simp: pool'_def queue_at_upd queue_at_None)
    show "dom (cells pool') = set as"
      using h(1) as0(2,3) by (auto simp: pool'_def)
    show "p_tail pool' = (if as = [] then None else Some (last as))"
      using h(1) as0(5) by (auto simp: pool'_def)
  qed (use h(1) as0(2,4) in \<open>auto simp: pool'_def\<close>)
  ultimately show ?thesis by (auto simp: pool'_def)
qed

lemma free_int_queue:
  assumes q: "pool_queue pool vs"
  shows "\<exists>pool'. guac_pool_free_int pool v = Some pool' \<and> pool_queue pool' (vs @ [v])
     \<and> p_next_value pool' = p_next_value pool \<and> p_active pool' = p_active pool - 1
     \<and> p_min_size pool' = p_min_size pool"
proof -
  from q obtain as where as: "queue_at (cells pool) (p_head pool) as vs" "distinct as"
      "dom (cells pool) = set as" "\<forall>a \<in> set as. a < brk pool"
      "p_tail pool = (if as = [] then None else Some (last as))"
    unfolding pool_queue_def by blast
  define a where "a = brk pool"
  define m where "m = (cells pool)(a \<mapsto> \<lparr>pi_value = v, pi_next = None\<rparr>)"
  have fresh: "a \<notin> set as" using as(4) by (auto simp: a_def)
  have m: "queue_at m (p_head pool) as vs" "m a = Some \<lparr>pi_value = v, pi_next = None\<rparr>"
    using as(1) fresh by (simp_all add: m_def queue_at_upd)
  show ?thesis
  proof (cases as rule: rev_cases)
    case Nil
    let ?p = "pool\<lparr>cells := m, brk := Suc a, p_active := p_active pool - 1,
                   p_head := Some a, p_tail := Some a\<rparr>"
    have "guac_pool_free_int pool v = Some ?p"
      using Nil as(5) by (simp add: guac_pool_free_int_def Let_def a_def m_def)
    moreover have "pool_queue ?p (vs @ [v])"
      using Nil as queue_at_length [OF as(1)] m(2)
      by (intro pool_queueI [where as = "[a]"]) (auto simp: m_def)
    ultimately show ?thesis by auto
  next
    case (snoc bs t)
    have "cells pool t \<noteq> None"
      using as(1) snoc by (intro queue_at_mapped [where as = as]) auto
    then obtain node where node: "cells pool t = Some node" "m t = Some node"
      using fresh snoc by (auto simp: m_def)
    let ?p = "pool\<lparr>brk := Suc a, p_active := p_active pool - 1,
                   cells := m(t \<mapsto> node\<lparr>pi_next := Some a\<rparr>), p_tail := Some a\<rparr>"
    have "guac_pool_free_int pool v = Some ?p"
      using snoc as(5) node fresh
      by (simp add: guac_pool_free_int_def Let_def a_def m_def)
    moreover have "pool_queue ?p (vs @ [v])"
    proof (rule pool_queueI [where as = "(bs @ [t]) @ [a]"])
      have "queue_at (m(t \<mapsto> node\<lparr>pi_next := Some a\<rparr>)) (p_head pool) ((bs @ [t]) @ [a]) (vs @ [v])"
        by (rule queue_at_snoc) (use m as(2) fresh snoc node in auto)
      then show "queue_at (cells ?p) (p_head ?p) ((bs @ [t]) @ [a]) (vs @ [v])"
        by simp
      show "dom (cells ?p) = set ((bs @ [t]) @ [a])"
        using as(3) snoc by (auto simp: m_def)
    qed (use as(2,4) fresh snoc in \<open>auto simp: a_def less_Suc_eq\<close>)
    ultimately show ?thesis by auto
  qed
qed


text \<open>Freeing the pool releases every node: nothing is left in its store.\<close>

lemma free_cells_all:
  "queue_at m p as vs \<Longrightarrow> distinct as \<Longrightarrow> length as \<le> fuel \<Longrightarrow>
     \<exists>m'. free_cells fuel m p = Some m' \<and> dom m' = dom m - set as"
proof (induction as arbitrary: m p vs fuel)
  case Nil
  then show ?case by (cases vs) auto
next
  case (Cons a as)
  then obtain v vs' n where v: "p = Some a" "m a = Some \<lparr>pi_value = v, pi_next = n\<rparr>"
      "queue_at m n as vs'"
    by (cases vs) auto
  from Cons.prems obtain fuel' where fuel: "fuel = Suc fuel'" "length as \<le> fuel'"
    by (cases fuel) auto
  have "queue_at (m(a := None)) n as vs'"
    using v(3) Cons.prems(2) by (simp add: queue_at_upd)
  then obtain m' where "free_cells fuel' (m(a := None)) n = Some m'"
      "dom m' = dom (m(a := None)) - set as"
    using Cons.IH Cons.prems(2) fuel(2) by (metis distinct.simps(2))
  then show ?case using v fuel by auto
qed

lemma pool_free_releases_all:
  assumes "pool_queue pool vs"
  shows "guac_pool_free pool = Some Map.empty"
proof -
  from assms obtain as where as: "queue_at (cells pool) (p_head pool) as vs" "distinct as"
      "dom (cells pool) = set as" "\<forall>a \<in> set as. a < brk pool"
    unfolding pool_queue_def by blast
  have "card (set as) \<le> card {..<brk pool}"
    using as(4) by (intro card_mono) auto
  then have "length as \<le> brk pool"
    using as(2) by (simp add: distinct_card)
  then obtain m' where "guac_pool_free pool = Some m'" "dom m' = {}"
    using free_cells_all [OF as(1,2)] as(3) unfolding guac_pool_free_def by auto
  then show ?thesis by simp
qed

section \<open>The pool as an abstract FIFO\<close>

text \<open>
  The specification: a pool is its counters and the queue of released integers, the oldest
  first. \<open>pool_rel\<close> relates a pool of the code to it.
\<close>

record fifo_pool =
  f_min :: int
  f_active :: int
  f_next :: int
  f_queue :: "int list"

datatype pool_op = Next_Int | Free_Int int

definition fifo_alloc :: "int \<Rightarrow> fifo_pool" where
  "fifo_alloc n = \<lparr>f_min = n, f_active = 0, f_next = 0, f_queue = []\<rparr>"

fun fifo_step :: "fifo_pool \<Rightarrow> pool_op \<Rightarrow> int list \<times> fifo_pool" where
  "fifo_step f (Free_Int v) = ([], f\<lparr>f_active := f_active f - 1, f_queue := f_queue f @ [v]\<rparr>)"
| "fifo_step f Next_Int =
     (let f = f\<lparr>f_active := f_active f + 1\<rparr> in
      if f_queue f = [] \<or> f_next f < f_min f
      then ([f_next f], f\<lparr>f_next := f_next f + 1\<rparr>)
      else ([hd (f_queue f)], f\<lparr>f_queue := tl (f_queue f)\<rparr>))"

fun fifo_run :: "fifo_pool \<Rightarrow> pool_op list \<Rightarrow> int list \<times> fifo_pool" where
  "fifo_run f [] = ([], f)"
| "fifo_run f (x # xs) =
     (let (out, f') = fifo_step f x; (outs, f'') = fifo_run f' xs in (out @ outs, f''))"

fun pool_run :: "guac_pool \<Rightarrow> pool_op list \<Rightarrow> (int list \<times> guac_pool) option" where
  "pool_run p [] = Some ([], p)"
| "pool_run p (Free_Int v # xs) =
     (case guac_pool_free_int p v of None \<Rightarrow> None | Some p' \<Rightarrow> pool_run p' xs)"
| "pool_run p (Next_Int # xs) =
     (case guac_pool_next_int p of None \<Rightarrow> None
      | Some (v, p') \<Rightarrow>
          (case pool_run p' xs of None \<Rightarrow> None | Some (vs, p'') \<Rightarrow> Some (v # vs, p'')))"

definition pool_rel :: "guac_pool \<Rightarrow> fifo_pool \<Rightarrow> bool" where
  "pool_rel p f \<longleftrightarrow> pool_queue p (f_queue f) \<and> p_min_size p = f_min f
     \<and> p_active p = f_active f \<and> p_next_value p = f_next f"

lemma pool_rel_alloc: "pool_rel (guac_pool_alloc n) (fifo_alloc n)"
  using pool_queue_alloc [of n] by (simp add: pool_rel_def fifo_alloc_def guac_pool_alloc_def)

lemma pool_rel_next:
  assumes "pool_rel p f"
  shows "\<exists>v p'. guac_pool_next_int p = Some (v, p') \<and> fst (fifo_step f Next_Int) = [v]
     \<and> pool_rel p' (snd (fifo_step f Next_Int))"
proof (cases "f_queue f = [] \<or> f_next f < f_min f")
  case True
  with assms next_int_mint [of p "f_queue f"] show ?thesis
    by (auto simp: pool_rel_def Let_def)
next
  case False
  then obtain v vs where "f_queue f = v # vs" by (cases "f_queue f") auto
  with False assms next_int_recycle [of p v vs] show ?thesis
    by (auto simp: pool_rel_def Let_def)
qed

lemma pool_rel_free:
  assumes "pool_rel p f"
  shows "\<exists>p'. guac_pool_free_int p v = Some p' \<and> pool_rel p' (snd (fifo_step f (Free_Int v)))"
  using free_int_queue [of p "f_queue f" v] assms by (auto simp: pool_rel_def)

lemma pool_run_rel:
  "pool_rel p f \<Longrightarrow>
     \<exists>p'. pool_run p xs = Some (fst (fifo_run f xs), p') \<and> pool_rel p' (snd (fifo_run f xs))"
proof (induction xs arbitrary: p f)
  case Nil
  then show ?case by simp
next
  case (Cons x xs)
  show ?case
  proof (cases x)
    case Next_Int
    from pool_rel_next [OF Cons.prems] obtain v p' where
      "guac_pool_next_int p = Some (v, p')" "fst (fifo_step f Next_Int) = [v]"
      "pool_rel p' (snd (fifo_step f Next_Int))" by blast
    with Cons.IH [of p' "snd (fifo_step f Next_Int)"] Next_Int show ?thesis
      by (auto simp: Let_def split: prod.splits if_splits)
  next
    case (Free_Int v)
    from pool_rel_free [OF Cons.prems, of v] obtain p' where
      "guac_pool_free_int p v = Some p'" "pool_rel p' (snd (fifo_step f (Free_Int v)))" by blast
    with Cons.IH [of p' "snd (fifo_step f (Free_Int v))"] Free_Int show ?thesis
      by (auto split: prod.splits)
  qed
qed


section \<open>The interface of a pool and its interpretation\<close>

text \<open>
  What a client relies on. \<open>live p L\<close> says that \<open>p\<close> is a sane pool and \<open>L\<close> the set of
  integers it has handed out and not taken back; \<open>count\<close> is the number the code keeps.
\<close>

locale int_pool =
  fixes next_int :: "'p \<Rightarrow> (int \<times> 'p) option"
    and free_int :: "'p \<Rightarrow> int \<Rightarrow> 'p option"
    and live :: "'p \<Rightarrow> int set \<Rightarrow> bool"
    and count :: "'p \<Rightarrow> int"
  assumes next_returns: "live p L \<Longrightarrow> \<exists>v p'. next_int p = Some (v, p')"
    and next_live: "live p L \<Longrightarrow> next_int p = Some (v, p') \<Longrightarrow>
                      0 \<le> v \<and> v \<notin> L \<and> live p' (insert v L)"
    and free_live: "live p L \<Longrightarrow> v \<in> L \<Longrightarrow> \<exists>p'. free_int p v = Some p' \<and> live p' (L - {v})"
    and count_live: "live p L \<Longrightarrow> finite L \<and> count p = int (card L)"
begin

lemma count_next:
  assumes "live p L" and "next_int p = Some (v, p')"
  shows "count p' = count p + 1"
proof -
  from assms have n: "v \<notin> L" "live p' (insert v L)" using next_live by blast+
  have "finite L" "count p = int (card L)" using count_live [OF assms(1)] by simp_all
  then show ?thesis using count_live [OF n(2)] n(1) by simp
qed

lemma free_returns: "live p L \<Longrightarrow> v \<in> L \<Longrightarrow> free_int p v \<noteq> None"
  using free_live [of p L v] by auto

lemma free_liveD: "live p L \<Longrightarrow> v \<in> L \<Longrightarrow> free_int p v = Some p' \<Longrightarrow> live p' (L - {v})"
  using free_live [of p L v] by auto

lemma two_next_distinct:
  "live p L \<Longrightarrow> next_int p = Some (v, p') \<Longrightarrow> next_int p' = Some (w, p'') \<Longrightarrow> v \<noteq> w"
  using next_live [of p L v p'] next_live [of p' "insert v L" w p''] by auto

lemma free_count: "live p L \<Longrightarrow> v \<in> L \<Longrightarrow> free_int p v = Some p' \<Longrightarrow> count p' = count p - 1"
proof -
  assume a: "live p L" "v \<in> L" "free_int p v = Some p'"
  then have "live p' (L - {v})" by (rule free_liveD)
  then have "count p' = int (card (L - {v}))" using count_live by simp
  moreover have "finite L" "count p = int (card L)" using count_live [OF a(1)] by simp_all
  moreover have "card L = Suc (card (L - {v}))"
    using card_Suc_Diff1 [OF \<open>finite L\<close> a(2)] by simp
  ultimately show ?thesis by simp
qed

end

text \<open>
  A client with a table of \<open>M\<close> slots checks the count before it asks for an integer and uses
  the integer as an index. What it relies on is the high-water mark of a pool with no minimum
  size: a new integer is minted only when every earlier one is in use.
\<close>

locale bounded_pool = int_pool +
  fixes mark :: "'p \<Rightarrow> int"
  assumes live_below: "live p L \<Longrightarrow> L \<subseteq> {0..<mark p}"
    and mark_next: "live p L \<Longrightarrow> next_int p = Some (v, p') \<Longrightarrow> mark p' \<le> max (mark p) (count p + 1)"
    and mark_free: "live p L \<Longrightarrow> v \<in> L \<Longrightarrow> free_int p v = Some p' \<Longrightarrow> mark p' = mark p"
begin

lemma guarded_next:
  assumes "live p L" and "mark p \<le> M" and "count p \<noteq> M" and "next_int p = Some (v, p')"
    and "0 \<le> M"
  shows "0 \<le> v \<and> v < M \<and> v \<notin> L \<and> live p' (insert v L) \<and> mark p' \<le> M"
proof -
  have "L \<subseteq> {0..<M}" using live_below assms(1,2) by fastforce
  then have "card L \<le> card {0..<M}" by (intro card_mono) auto
  then have "count p < M" using count_live [OF assms(1)] assms(3,5) by simp
  moreover have n: "0 \<le> v \<and> v \<notin> L \<and> live p' (insert v L)"
    using next_live assms(1,4) by blast
  moreover have "mark p' \<le> max (mark p) (count p + 1)" using mark_next assms(1,4) by blast
  moreover have "v < mark p'" using live_below n by fastforce
  ultimately show ?thesis using assms(2) by (auto simp: max_def split: if_splits)
qed

end


text \<open>
  The model's own pools satisfy the interface: every minted integer is either in use or in the
  queue, exactly once, and \<open>active\<close> counts those in use.
\<close>

definition pool_live :: "guac_pool \<Rightarrow> int set \<Rightarrow> bool" where
  "pool_live p L \<longleftrightarrow>
     (\<exists>vs. pool_queue p vs \<and> distinct vs \<and> set vs \<inter> L = {} \<and> set vs \<union> L = {0..<p_next_value p}
        \<and> 0 \<le> p_next_value p \<and> p_active p = int (card L))"

definition bounded_live :: "guac_pool \<Rightarrow> int set \<Rightarrow> bool" where
  "bounded_live p L \<longleftrightarrow> pool_live p L \<and> p_min_size p \<le> 0"

lemma pool_live_alloc: "pool_live (guac_pool_alloc n) {}"
  unfolding pool_live_def
  by (rule exI [of _ "[]"]) (simp add: pool_queue_alloc, simp add: guac_pool_alloc_def)

lemma bounded_live_alloc: "bounded_live (guac_pool_alloc 0) {}"
  by (simp add: bounded_live_def pool_live_alloc) (simp add: guac_pool_alloc_def)

lemma pool_live_finite: "pool_live p L \<Longrightarrow> finite L"
  unfolding pool_live_def by (metis finite_Un finite_atLeastLessThan_int)

lemma pool_live_next:
  assumes "pool_live p L"
  shows "\<exists>v p'. guac_pool_next_int p = Some (v, p') \<and> 0 \<le> v \<and> v \<notin> L \<and> pool_live p' (insert v L)
     \<and> p_min_size p' = p_min_size p
     \<and> (p_min_size p \<le> 0 \<longrightarrow> p_next_value p' \<le> max (p_next_value p) (p_active p + 1))"
proof -
  from assms obtain vs where vs: "pool_queue p vs" "distinct vs" "set vs \<inter> L = {}"
      "set vs \<union> L = {0..<p_next_value p}" "0 \<le> p_next_value p" "p_active p = int (card L)"
    unfolding pool_live_def by blast
  have fin: "finite L" using assms by (rule pool_live_finite)
  show ?thesis
  proof (cases "vs = [] \<or> p_next_value p < p_min_size p")
    case True
    with next_int_mint [OF vs(1)] obtain p' where p':
      "guac_pool_next_int p = Some (p_next_value p, p')" "pool_queue p' vs"
      "p_next_value p' = p_next_value p + 1" "p_active p' = p_active p + 1"
      "p_min_size p' = p_min_size p" by blast
    have new: "p_next_value p \<notin> set vs \<union> L" using vs(4) by simp
    have grow: "{0..<p_next_value p'} = insert (p_next_value p) {0..<p_next_value p}"
      using p'(3) vs(5) by auto
    have "pool_live p' (insert (p_next_value p) L)"
      unfolding pool_live_def
    proof (intro exI [of _ vs] conjI)
      show "set vs \<union> insert (p_next_value p) L = {0..<p_next_value p'}"
        using vs(4) grow by simp
      show "set vs \<inter> insert (p_next_value p) L = {}" using vs(3) new by simp
      show "p_active p' = int (card (insert (p_next_value p) L))" using p'(4) vs(6) new fin by simp
    qed (use p' vs in simp_all)
    moreover have "p_min_size p \<le> 0 \<Longrightarrow> p_next_value p = p_active p"
      using True vs(4,5,6) by auto
    ultimately show ?thesis using p' new vs(5) by auto
  next
    case False
    then obtain v ws where v: "vs = v # ws" by (cases vs) auto
    with False next_int_recycle [of p v ws] vs(1) obtain p' where p':
      "guac_pool_next_int p = Some (v, p')" "pool_queue p' ws"
      "p_next_value p' = p_next_value p" "p_active p' = p_active p + 1"
      "p_min_size p' = p_min_size p" by auto
    have vin: "v \<in> {0..<p_next_value p}" using vs(4) v by auto
    have "pool_live p' (insert v L)"
      unfolding pool_live_def
    proof (intro exI [of _ ws] conjI)
      show "p_active p' = int (card (insert v L))" using p'(4) vs(3,6) v fin by simp
      show "set ws \<union> insert v L = {0..<p_next_value p'}" using p'(3) vs(4) v by auto
    qed (use p' vs v in auto)
    then show ?thesis using p' vin vs(3) v by auto
  qed
qed

lemma pool_live_free:
  assumes "pool_live p L" and "v \<in> L"
  shows "\<exists>p'. guac_pool_free_int p v = Some p' \<and> pool_live p' (L - {v})
     \<and> p_min_size p' = p_min_size p \<and> p_next_value p' = p_next_value p"
proof -
  from assms obtain vs where vs: "pool_queue p vs" "distinct vs" "set vs \<inter> L = {}"
      "set vs \<union> L = {0..<p_next_value p}" "0 \<le> p_next_value p" "p_active p = int (card L)"
    unfolding pool_live_def by blast
  have card: "card L = Suc (card (L - {v}))"
    using assms pool_live_finite by (metis card_Suc_Diff1)
  from free_int_queue [OF vs(1), of v] obtain p' where p':
    "guac_pool_free_int p v = Some p'" "pool_queue p' (vs @ [v])"
    "p_next_value p' = p_next_value p" "p_active p' = p_active p - 1"
    "p_min_size p' = p_min_size p" by blast
  have "pool_live p' (L - {v})"
    unfolding pool_live_def
  proof (intro exI [of _ "vs @ [v]"] conjI)
    show "p_active p' = int (card (L - {v}))" using p'(4) vs(6) card by simp
    show "set (vs @ [v]) \<union> (L - {v}) = {0..<p_next_value p'}" using p'(3) vs(4) assms(2) by auto
  qed (use p' vs assms(2) in auto)
  then show ?thesis using p' by blast
qed

interpretation gp: int_pool guac_pool_next_int guac_pool_free_int pool_live p_active
proof (unfold_locales, goal_cases)
  case (1 p L) then show ?case using pool_live_next by blast
next
  case (2 p L v p') then show ?case using pool_live_next by fastforce
next
  case (3 p L v) then show ?case using pool_live_free by blast
next
  case (4 p L) then show ?case using pool_live_finite by (auto simp: pool_live_def)
qed

interpretation gb: bounded_pool guac_pool_next_int guac_pool_free_int bounded_live p_active
  p_next_value
proof (unfold_locales, goal_cases)
  case (1 p L) then show ?case using pool_live_next by (force simp: bounded_live_def)
next
  case (2 p L v p') then show ?case using pool_live_next by (fastforce simp: bounded_live_def)
next
  case (3 p L v) then show ?case using pool_live_free by (fastforce simp: bounded_live_def)
next
  case (4 p L) then show ?case using gp.count_live by (auto simp: bounded_live_def)
next
  case (5 p L) then show ?case by (auto simp: bounded_live_def pool_live_def)
next
  case (6 p L v p') then show ?case using pool_live_next by (fastforce simp: bounded_live_def)
next
  case (7 p L v p') then show ?case using pool_live_free by (fastforce simp: bounded_live_def)
qed

section \<open>Reachable pools\<close>

text \<open>
  The pools a program can reach that takes integers and gives back integers it holds:
  \<open>pool_reach n p L m\<close> says that \<open>p\<close> is reachable from \<open>guac_pool_alloc n\<close>, that \<open>L\<close> is the
  set of integers held, and that at most \<open>m\<close> were ever held at once.
\<close>

inductive pool_reach :: "int \<Rightarrow> guac_pool \<Rightarrow> int set \<Rightarrow> int \<Rightarrow> bool" for n where
  reach_alloc: "pool_reach n (guac_pool_alloc n) {} 0"
| reach_next: "pool_reach n p L m \<Longrightarrow> guac_pool_next_int p = Some (v, p') \<Longrightarrow>
     pool_reach n p' (insert v L) (max m (p_active p + 1))"
| reach_free: "pool_reach n p L m \<Longrightarrow> v \<in> L \<Longrightarrow> guac_pool_free_int p v = Some p' \<Longrightarrow>
     pool_reach n p' (L - {v}) m"

lemma pool_reach_live:
  "pool_reach n p L m \<Longrightarrow> pool_live p L \<and> p_min_size p = n \<and> 0 \<le> m
     \<and> (n \<le> 0 \<longrightarrow> p_next_value p \<le> m)"
proof (induction rule: pool_reach.induct)
  case reach_alloc
  then show ?case using pool_live_alloc [of n] by (simp add: guac_pool_alloc_def)
next
  case (reach_next p L m v p')
  then show ?case using pool_live_next [of p L] by fastforce
next
  case (reach_free p L m v p')
  then show ?case using pool_live_free [of p L v] by fastforce
qed

section \<open>Properties\<close>

text \<open>
  C5. The linked queue with head and tail pointers implements the FIFO specification: on every
  sequence of requests and releases a fresh pool returns exactly the integers of the abstract
  FIFO, never follows a dangling pointer, and \<open>guac_pool_free\<close> then releases every node it
  allocated.
\<close>

theorem pool_refines_fifo:
  "\<exists>p'. pool_run (guac_pool_alloc n) xs = Some (fst (fifo_run (fifo_alloc n) xs), p')
     \<and> pool_rel p' (snd (fifo_run (fifo_alloc n) xs))
     \<and> guac_pool_free p' = Some Map.empty"
  using pool_run_rel [OF pool_rel_alloc, of n xs] pool_free_releases_all
  by (auto simp: pool_rel_def)

text \<open>
  No integer is handed out twice: in every pool a program can reach by taking integers and
  giving back integers it holds, \<open>guac_pool_next_int\<close> returns, its result is not among the
  integers held, \<open>active\<close> is their number, and a pool without a minimum size never goes beyond
  the largest number of integers ever held at once.
\<close>

theorem pool_next_fresh:
  assumes "pool_reach n p L m"
  shows "\<exists>v p'. guac_pool_next_int p = Some (v, p') \<and> 0 \<le> v \<and> v \<notin> L
     \<and> p_active p = int (card L) \<and> p_active p' = int (card (insert v L))
     \<and> (n \<le> 0 \<longrightarrow> v < max m (int (card L) + 1))"
proof -
  from pool_reach_live [OF assms] have L: "pool_live p L" "p_min_size p = n"
    "n \<le> 0 \<longrightarrow> p_next_value p \<le> m" by auto
  obtain v p' where v: "guac_pool_next_int p = Some (v, p')" "0 \<le> v" "v \<notin> L"
      "pool_live p' (insert v L)" using pool_live_next [OF L(1)] by blast
  have "n \<le> 0 \<longrightarrow> p_next_value p' \<le> max m (p_active p + 1)"
    using pool_reach_live [OF reach_next [OF assms v(1)]] by simp
  moreover have "v < p_next_value p'" using v(4) by (auto simp: pool_live_def)
  ultimately show ?thesis using v gp.count_live [OF L(1)] gp.count_live [OF v(4)] by auto
qed

lemma pool_reach_two: "\<exists>p. pool_reach 0 p {1} 2"
proof -
  obtain p1 where 1: "guac_pool_next_int (guac_pool_alloc 0) = Some (0, p1)" "p_active p1 = 1"
    by (simp add: guac_pool_next_int_def guac_pool_alloc_def)
  obtain p2 where 2: "guac_pool_next_int p1 = Some (1, p2)"
    using 1 by (auto simp: guac_pool_next_int_def guac_pool_alloc_def)
  have r: "pool_reach 0 p2 {1, 0} 2"
    using reach_next [OF reach_next [OF reach_alloc 1(1)] 2] 1 by (simp add: guac_pool_alloc_def)
  then obtain p3 where "guac_pool_free_int p2 0 = Some p3"
    using pool_reach_live [OF r] pool_live_free [of p2 "{1, 0}" 0] by auto
  from reach_free [OF r _ this] have "pool_reach 0 p3 ({1, 0} - {0}) 2" by simp
  moreover have "{1, 0} - {0} = {1 :: int}" by auto
  ultimately show ?thesis by auto
qed

theorem pool_next_fresh_witness:
  "\<exists>p v p'. pool_reach 0 p {1} 2 \<and> guac_pool_next_int p = Some (v, p') \<and> v = 0"
proof -
  obtain p where p: "pool_reach 0 p {1} 2" using pool_reach_two by blast
  from pool_next_fresh [OF p] p show ?thesis by fastforce
qed

end
