(* ===== verification/Unicode.thy ===== *)
theory Unicode
  imports Guac_Prelude
begin

text \<open>
  The UTF-8 routines of \<open>libguac/src/unicode.c\<close>. A C string or buffer is the list of its
  bytes; where the C function takes a buffer and its length, the length is that of the list.
  The bit tests are the code's, on the \<open>int\<close> that an \<open>unsigned char\<close> promotes to.
\<close>

section \<open>The code\<close>

definition guac_utf8_charsize :: "char \<Rightarrow> nat" where
  "guac_utf8_charsize ch =
     (let c = (of_char ch :: int) in
      if c OR 0x7F = 0x7F then 1
      else if c OR 0x1F = 0xDF then 2
      else if c OR 0x0F = 0xEF then 3
      else if c OR 0x07 = 0xF7 then 4
      else 1)"

text \<open>The loop of \<open>guac_utf8_strlen\<close>, with its counters \<open>skip\<close> and \<open>length\<close>.\<close>

fun utf8_strlen_loop :: "char list \<Rightarrow> nat \<Rightarrow> nat \<Rightarrow> nat" where
  "utf8_strlen_loop [] skip len = len"
| "utf8_strlen_loop (c # str) skip len =
     (if c = NUL then len
      else if 0 < skip then utf8_strlen_loop str (skip - 1) len
      else utf8_strlen_loop str (guac_utf8_charsize c - 1) (len + 1))"

definition guac_utf8_strlen :: "char list \<Rightarrow> nat" where
  "guac_utf8_strlen str = utf8_strlen_loop str 0 0"

text \<open>
  The trailing bytes are written from the last to the first while the code point is shifted
  right; what remains of the code point goes into the initial byte.
\<close>

fun utf8_write_trail :: "nat \<Rightarrow> int \<Rightarrow> char list \<Rightarrow> int \<times> char list" where
  "utf8_write_trail 0 codepoint acc = (codepoint, acc)"
| "utf8_write_trail (Suc i) codepoint acc =
     utf8_write_trail i (drop_bit 6 codepoint) (char_of (0x80 OR (codepoint AND 0x3F)) # acc)"

text \<open>
  \<open>guac_utf8_write codepoint room\<close> is the bytes stored at the output position; their number is
  the return value.
\<close>

definition utf8_write_size :: "int \<Rightarrow> (int \<times> nat) option" where
  "utf8_write_size codepoint =
     (if codepoint \<le> 0x7F then Some (0x00, 1)
      else if codepoint \<le> 0x7FF then Some (0xC0, 2)
      else if codepoint \<le> 0xFFFF then Some (0xE0, 3)
      else if codepoint \<le> 0x1FFFFF then Some (0xF0, 4)
      else None)"

definition guac_utf8_write :: "int \<Rightarrow> int \<Rightarrow> char list" where
  "guac_utf8_write codepoint room =
     (if room \<le> 0 then []
      else case utf8_write_size codepoint of
        None \<Rightarrow> ''?''
      | Some (lead, bytes) \<Rightarrow>
          if int bytes > room then []
          else let (rest, trail) = utf8_write_trail (bytes - 1) codepoint []
               in char_of (lead OR rest) # trail)"

text \<open>
  \<open>guac_utf8_read utf8\<close> is the return value and what is stored through \<open>codepoint\<close>, if
  anything is.
\<close>

definition utf8_read_trail :: "char list \<Rightarrow> int \<Rightarrow> int" where
  "utf8_read_trail = fold (\<lambda>c result. push_bit 6 result OR (of_char c AND 0x3F))"

definition guac_utf8_read :: "char list \<Rightarrow> nat \<times> int option" where
  "guac_utf8_read utf8 =
     (case utf8 of
        [] \<Rightarrow> (0, None)
      | ch # rest \<Rightarrow>
          let initial = (of_char ch :: int);
              finish = (\<lambda>result bytes.
                 if length utf8 < bytes then (0, None)
                 else (bytes, Some (utf8_read_trail (take (bytes - 1) rest) result)))
          in if initial OR 0x7F = 0x7F then finish initial 1
             else if initial OR 0x1F = 0xDF then finish (initial AND 0x1F) 2
             else if initial OR 0x0F = 0xEF then finish (initial AND 0x0F) 3
             else if initial OR 0x07 = 0xF7 then finish (initial AND 0x07) 4
             else (1, Some 0xFFFD))"

section \<open>The bit tests as ranges\<close>

lemma or_add:
  fixes x y :: int
  assumes "y mod 2 ^ n = 0" and "0 \<le> x" and "x < 2 ^ n"
  shows "y OR x = y + x"
proof (rule disjunctive_add_eq_or [symmetric])
  show "y AND x = 0"
  proof (rule bit_eqI)
    fix k
    have "take_bit n y = 0" using assms(1) by (simp add: take_bit_eq_mod)
    moreover have "take_bit n x = x" using assms(2,3) by (simp add: take_bit_int_eq_self)
    ultimately show "bit (y AND x) k = bit (0 :: int) k"
      by (metis bit_0_eq bit_and_iff bit_take_bit_iff bot_apply bot_bool_def)
  qed
qed

lemma or_low_mask: "(x :: int) OR mask n = x div 2 ^ n * 2 ^ n + (2 ^ n - 1)"
proof -
  have "x OR mask n = push_bit n (drop_bit n x) OR mask n"
    by (rule bit_eqI) (auto simp: bit_or_iff bit_mask_iff bit_push_bit_iff bit_drop_bit_eq)
  also have "\<dots> = push_bit n (drop_bit n x) + mask n"
    by (rule or_add [where n = n]) (simp_all add: push_bit_eq_mult mask_eq_exp_minus_1)
  finally show ?thesis
    by (simp add: push_bit_eq_mult drop_bit_eq_div mask_eq_exp_minus_1)
qed

lemma or_masks:
  "(x :: int) OR 0x7F = x div 128 * 128 + 127" "(x :: int) OR 0x1F = x div 32 * 32 + 31"
  "(x :: int) OR 0x0F = x div 16 * 16 + 15" "(x :: int) OR 0x07 = x div 8 * 8 + 7"
  using or_low_mask [of x 7] or_low_mask [of x 5] or_low_mask [of x 4] or_low_mask [of x 3]
  by (simp_all add: mask_eq_exp_minus_1)

lemma byte_tests:
  "(of_char c :: int) OR 0x7F = 0x7F \<longleftrightarrow> of_char c < (128 :: int)"
  "(of_char c :: int) OR 0x1F = 0xDF \<longleftrightarrow> (192 :: int) \<le> of_char c \<and> of_char c < (224 :: int)"
  "(of_char c :: int) OR 0x0F = 0xEF \<longleftrightarrow> (224 :: int) \<le> of_char c \<and> of_char c < (240 :: int)"
  "(of_char c :: int) OR 0x07 = 0xF7 \<longleftrightarrow> (240 :: int) \<le> of_char c \<and> of_char c < (248 :: int)"
proof -
  have r: "(0 :: int) \<le> of_char c" by simp
  show "(of_char c :: int) OR 0x7F = 0x7F \<longleftrightarrow> of_char c < (128 :: int)"
    unfolding or_masks using r by presburger
  show "(of_char c :: int) OR 0x1F = 0xDF \<longleftrightarrow> (192 :: int) \<le> of_char c \<and> of_char c < (224 :: int)"
    unfolding or_masks by presburger
  show "(of_char c :: int) OR 0x0F = 0xEF \<longleftrightarrow> (224 :: int) \<le> of_char c \<and> of_char c < (240 :: int)"
    unfolding or_masks by presburger
  show "(of_char c :: int) OR 0x07 = 0xF7 \<longleftrightarrow> (240 :: int) \<le> of_char c \<and> of_char c < (248 :: int)"
    unfolding or_masks by presburger
qed

lemma charsize_ranges:
  "guac_utf8_charsize c =
     (if of_char c < (128 :: int) then 1
      else if of_char c < (192 :: int) then 1
      else if of_char c < (224 :: int) then 2
      else if of_char c < (240 :: int) then 3
      else if of_char c < (248 :: int) then 4 else 1)"
  using byte_tests [of c] by (auto simp: guac_utf8_charsize_def Let_def)

lemma charsize_pos [simp]: "0 < guac_utf8_charsize c"
  and charsize_le_4 [simp]: "guac_utf8_charsize c \<le> 4"
  by (simp_all add: charsize_ranges)

text \<open>Low six bits, and what reading does with one trailing byte.\<close>

lemma and_low: "(x :: int) AND 0x3F = x mod 64"
  and and_5: "(x :: int) AND 0x1F = x mod 32"
  and and_4: "(x :: int) AND 0x0F = x mod 16"
  and and_3: "(x :: int) AND 0x07 = x mod 8"
proof -
  have m: "(0x3F :: int) = mask 6" "(0x1F :: int) = mask 5" "(0x0F :: int) = mask 4"
    "(0x07 :: int) = mask 3" by (simp_all add: mask_eq_exp_minus_1)
  show "x AND 0x3F = x mod 64" "x AND 0x1F = x mod 32" "x AND 0x0F = x mod 16"
    "x AND 0x07 = x mod 8"
    by (simp_all only: m take_bit_eq_mask [symmetric] take_bit_eq_mod) simp_all
qed


lemma trail_byte: "0x80 OR ((x :: int) AND 0x3F) = 128 + x mod 64"
  by (simp only: and_low) (rule or_add [where n = 6], simp_all)

lemma lead_bytes:
  "0 \<le> (y :: int) \<Longrightarrow> y < 32 \<Longrightarrow> 0xC0 OR y = 192 + y"
  "0 \<le> (y :: int) \<Longrightarrow> y < 16 \<Longrightarrow> 0xE0 OR y = 224 + y"
  "0 \<le> (y :: int) \<Longrightarrow> y < 8 \<Longrightarrow> 0xF0 OR y = 240 + y"
  by (rule or_add [where n = 5], simp_all) (rule or_add [where n = 4], simp_all,
      rule or_add [where n = 3], simp_all)

lemma read_step: "push_bit 6 (r :: int) OR (b AND 0x3F) = 64 * r + b mod 64"
proof -
  have "push_bit 6 r OR (b AND 0x3F) = push_bit 6 r + (b AND 0x3F)"
    unfolding and_low by (rule or_add [where n = 6]) (simp_all add: push_bit_eq_mult)
  then show ?thesis by (simp add: and_low push_bit_eq_mult)
qed

section \<open>What the routines compute\<close>

text \<open>The encoding, written with arithmetic.\<close>

definition utf8_encode :: "int \<Rightarrow> char list" where
  "utf8_encode cp =
     (if cp < 0x80 then [char_of cp]
      else if cp < 0x800 then [char_of (192 + cp div 64), char_of (128 + cp mod 64)]
      else if cp < 0x10000
        then [char_of (224 + cp div 64 div 64), char_of (128 + cp div 64 mod 64),
              char_of (128 + cp mod 64)]
      else [char_of (240 + cp div 64 div 64 div 64), char_of (128 + cp div 64 div 64 mod 64),
            char_of (128 + cp div 64 mod 64), char_of (128 + cp mod 64)])"

definition utf8_size :: "int \<Rightarrow> nat" where
  "utf8_size cp = (if cp < 0x80 then 1 else if cp < 0x800 then 2 else if cp < 0x10000 then 3 else 4)"

lemma length_utf8_encode: "length (utf8_encode cp) = utf8_size cp"
  by (simp add: utf8_encode_def utf8_size_def)

lemma drop_6: "drop_bit 6 (x :: int) = x div 64"
  by (simp add: drop_bit_eq_div)

lemma write_trails:
  "utf8_write_trail (Suc 0) cp [] = (cp div 64, [char_of (128 + cp mod 64)])"
  "utf8_write_trail 2 cp [] =
     (cp div 64 div 64, [char_of (128 + cp div 64 mod 64), char_of (128 + cp mod 64)])"
  "utf8_write_trail 3 cp [] =
     (cp div 64 div 64 div 64, [char_of (128 + cp div 64 div 64 mod 64),
      char_of (128 + cp div 64 mod 64), char_of (128 + cp mod 64)])"
  by (simp_all add: numeral_2_eq_2 numeral_3_eq_3 trail_byte drop_6)

lemma write_encode:
  assumes "0 \<le> cp" and "cp \<le> 0x1FFFFF" and "int (utf8_size cp) \<le> room"
  shows "guac_utf8_write cp room = utf8_encode cp"
proof -
  have room: "\<not> room \<le> 0" using assms(3) by (auto simp: utf8_size_def split: if_splits)
  consider "cp < 0x80" | "0x80 \<le> cp" "cp < 0x800" | "0x800 \<le> cp" "cp < 0x10000"
    | "0x10000 \<le> cp" by linarith
  then show ?thesis
  proof cases
    case 1
    with assms room show ?thesis
      by (simp add: guac_utf8_write_def utf8_write_size_def utf8_encode_def)
  next
    case 2
    then have "0 \<le> cp div 64" "cp div 64 < 32" by simp_all
    with 2 assms room show ?thesis
      by (simp add: guac_utf8_write_def utf8_write_size_def utf8_encode_def utf8_size_def
          write_trails lead_bytes trail_byte drop_6)
  next
    case 3
    then have "0 \<le> cp div 64 div 64" "cp div 64 div 64 < 16" by simp_all
    with 3 assms room show ?thesis
      by (simp add: guac_utf8_write_def utf8_write_size_def utf8_encode_def utf8_size_def
          write_trails lead_bytes trail_byte drop_6)
  next
    case 4
    with assms(2) have "0 \<le> cp div 64 div 64 div 64" "cp div 64 div 64 div 64 < 8" by simp_all
    with 4 assms room show ?thesis
      by (simp add: guac_utf8_write_def utf8_write_size_def utf8_encode_def utf8_size_def
          write_trails lead_bytes trail_byte drop_6)
  qed
qed

lemma write_no_room:
  "0 \<le> cp \<Longrightarrow> cp \<le> 0x1FFFFF \<Longrightarrow> room < int (utf8_size cp) \<Longrightarrow> guac_utf8_write cp room = []"
  by (auto simp: guac_utf8_write_def utf8_write_size_def utf8_size_def split: if_splits)

lemma write_fits: "int (length (guac_utf8_write cp room)) \<le> max 0 room"
proof -
  have trail: "length (snd (utf8_write_trail n c acc)) = n + length acc" for n c acc
    by (induction n arbitrary: c acc) auto
  then show ?thesis
    using trail [of "Suc 0" cp "[]"]
    by (auto simp: guac_utf8_write_def utf8_write_size_def write_trails split: prod.splits)
qed


text \<open>Reading, with the tests as ranges and the masks as remainders.\<close>

definition read_trail_arith :: "char list \<Rightarrow> int \<Rightarrow> int" where
  "read_trail_arith = fold (\<lambda>c r. 64 * r + of_char c mod 64)"

lemma read_trail_eq: "utf8_read_trail = read_trail_arith"
  by (simp add: utf8_read_trail_def read_trail_arith_def read_step)

lemma read_ranges:
  "guac_utf8_read (ch # rest) =
     (let b = (of_char ch :: int);
          finish = (\<lambda>result bytes.
             if Suc (length rest) < bytes then (0, None)
             else (bytes, Some (read_trail_arith (take (bytes - 1) rest) result)))
      in if b < 128 then finish b 1
         else if b < 192 then (1, Some 0xFFFD)
         else if b < 224 then finish (b mod 32) 2
         else if b < 240 then finish (b mod 16) 3
         else if b < 248 then finish (b mod 8) 4
         else (1, Some 0xFFFD))"
  by (simp add: guac_utf8_read_def byte_tests read_trail_eq and_5 and_4 and_3 Let_def)

text \<open>Reading back one lead byte and up to three trailing bytes, by their digits.\<close>

lemma digit_bytes:
  "0 \<le> (y :: int) \<Longrightarrow> y < 32 \<Longrightarrow> (192 + y) mod 256 = 192 + y \<and> (192 + y) mod 32 = y"
  "0 \<le> (y :: int) \<Longrightarrow> y < 16 \<Longrightarrow> (224 + y) mod 256 = 224 + y \<and> (224 + y) mod 16 = y"
  "0 \<le> (y :: int) \<Longrightarrow> y < 8 \<Longrightarrow> (240 + y) mod 256 = 240 + y \<and> (240 + y) mod 8 = y"
  "0 \<le> (y :: int) \<Longrightarrow> y < 64 \<Longrightarrow> (128 + y) mod 256 = 128 + y \<and> (128 + y) mod 64 = y"
  using mod_mult_self1 [of y 6 32] mod_mult_self1 [of y 14 16] mod_mult_self1 [of y 30 8]
    mod_mult_self1 [of y 2 64]
  by (simp_all add: add.commute)

lemma read_2:
  assumes "0 \<le> a" "a < 32" "0 \<le> b" "b < 64"
  shows "guac_utf8_read (char_of (192 + a) # char_of (128 + b) # rest) = (2, Some (64 * a + b))"
  using assms by (simp add: read_ranges read_trail_arith_def digit_bytes)

lemma read_3:
  assumes "0 \<le> a" "a < 16" "0 \<le> b" "b < 64" "0 \<le> c" "c < 64"
  shows "guac_utf8_read (char_of (224 + a) # char_of (128 + b) # char_of (128 + c) # rest)
     = (3, Some (64 * (64 * a + b) + c))"
  using assms by (simp add: read_ranges read_trail_arith_def digit_bytes)

lemma read_4:
  assumes "0 \<le> a" "a < 8" "0 \<le> b" "b < 64" "0 \<le> c" "c < 64" "0 \<le> d" "d < 64"
  shows "guac_utf8_read (char_of (240 + a) # char_of (128 + b) # char_of (128 + c)
            # char_of (128 + d) # rest)
     = (4, Some (64 * (64 * (64 * a + b) + c) + d))"
  using assms by (simp add: read_ranges read_trail_arith_def digit_bytes)

lemma read_encode:
  assumes "0 \<le> cp" and "cp \<le> 0x1FFFFF"
  shows "guac_utf8_read (utf8_encode cp @ rest) = (utf8_size cp, Some cp)"
proof -
  consider "cp < 0x80" | "0x80 \<le> cp" "cp < 0x800" | "0x800 \<le> cp" "cp < 0x10000"
    | "0x10000 \<le> cp" by linarith
  then show ?thesis
  proof cases
    case 1
    with assms show ?thesis
      by (simp add: read_ranges utf8_encode_def utf8_size_def read_trail_arith_def)
  next
    case 2
    then have "0 \<le> cp div 64" "cp div 64 < 32" by simp_all
    then have "guac_utf8_read (char_of (192 + cp div 64) # char_of (128 + cp mod 64) # rest)
        = (2, Some (64 * (cp div 64) + cp mod 64))" by (rule read_2) simp_all
    with 2 show ?thesis by (simp add: utf8_encode_def utf8_size_def)
  next
    case 3
    then have "0 \<le> cp div 64 div 64" "cp div 64 div 64 < 16" by simp_all
    then have "guac_utf8_read (char_of (224 + cp div 64 div 64) # char_of (128 + cp div 64 mod 64)
           # char_of (128 + cp mod 64) # rest)
        = (3, Some (64 * (64 * (cp div 64 div 64) + cp div 64 mod 64) + cp mod 64))"
      by (rule read_3) simp_all
    with 3 show ?thesis by (simp only: mult_div_mod_eq) (simp add: utf8_encode_def utf8_size_def)
  next
    case 4
    with assms(2) have "0 \<le> cp div 64 div 64 div 64" "cp div 64 div 64 div 64 < 8" by simp_all
    then have "guac_utf8_read (char_of (240 + cp div 64 div 64 div 64)
           # char_of (128 + cp div 64 div 64 mod 64) # char_of (128 + cp div 64 mod 64)
           # char_of (128 + cp mod 64) # rest)
        = (4, Some (64 * (64 * (64 * (cp div 64 div 64 div 64) + cp div 64 div 64 mod 64)
                          + cp div 64 mod 64) + cp mod 64))"
      by (rule read_4) simp_all
    with 4 show ?thesis by (simp only: mult_div_mod_eq) (simp add: utf8_encode_def utf8_size_def)
  qed
qed

lemma read_bounds: "fst (guac_utf8_read s) \<le> min 4 (length s)"
  by (cases s) (simp add: guac_utf8_read_def, auto simp: read_ranges Let_def Suc_le_eq)

text \<open>
  A byte string is well formed for the scanner when the size its lead bytes announce never
  runs past its end, and it contains no \<open>\0\<close>. \<open>utf8_chars\<close> splits such a string into the
  scanner's characters.
\<close>

function (sequential) utf8_wf :: "char list \<Rightarrow> bool" where
  "utf8_wf [] = True"
| "utf8_wf (c # cs) =
     (guac_utf8_charsize c - 1 \<le> length cs \<and> utf8_wf (drop (guac_utf8_charsize c - 1) cs))"
  by pat_completeness auto
termination
  by (relation "measure length") auto

function (sequential) utf8_count :: "char list \<Rightarrow> nat" where
  "utf8_count [] = 0"
| "utf8_count (c # cs) = Suc (utf8_count (drop (guac_utf8_charsize c - 1) cs))"
  by pat_completeness auto
termination
  by (relation "measure length") auto

lemma strlen_loop_skip:
  "NUL \<notin> set cs \<Longrightarrow> utf8_strlen_loop cs n len = utf8_strlen_loop (drop n cs) 0 len"
proof (induction cs arbitrary: n)
  case (Cons c cs)
  then show ?case by (cases n) auto
qed simp

lemma strlen_loop_count:
  "NUL \<notin> set cs \<Longrightarrow> utf8_strlen_loop cs 0 len = len + utf8_count cs"
proof (induction cs arbitrary: len rule: utf8_count.induct)
  case (2 c cs)
  have "NUL \<notin> set (drop (guac_utf8_charsize c - 1) cs)"
    using "2.prems" by (auto dest: in_set_dropD)
  with 2 show ?case by (auto simp: strlen_loop_skip [of cs])
qed simp

lemma strlen_count: "NUL \<notin> set s \<Longrightarrow> guac_utf8_strlen s = utf8_count s"
  by (simp add: guac_utf8_strlen_def strlen_loop_count)

lemma count_append: "utf8_wf s \<Longrightarrow> utf8_count (s @ t) = utf8_count s + utf8_count t"
  by (induction s rule: utf8_wf.induct) auto

lemma wf_append: "utf8_wf s \<Longrightarrow> utf8_wf (s @ t) = utf8_wf t"
  by (induction s rule: utf8_wf.induct) auto

lemma count_le_length: "utf8_count s \<le> length s"
  by (induction s rule: utf8_count.induct) auto

lemma wf_concat: "(\<forall>s \<in> set ss. utf8_wf s) \<Longrightarrow> utf8_wf (concat ss)"
  by (induction ss) (auto simp: wf_append)

lemma ascii_wf: "\<forall>c \<in> set s. of_char c < (128 :: int) \<Longrightarrow> utf8_wf s \<and> utf8_count s = length s"
  by (induction s) (auto simp: charsize_ranges)


lemma encode_wf:
  assumes "1 \<le> cp" and "cp \<le> 0x1FFFFF"
  shows "utf8_wf (utf8_encode cp) \<and> utf8_count (utf8_encode cp) = 1 \<and> NUL \<notin> set (utf8_encode cp)"
proof -
  have nul: "char_of x \<noteq> NUL" if "0 < x" "x < 256" for x :: int
  proof
    assume "char_of x = NUL"
    then have "(of_char (char_of x) :: int) = of_char NUL" by simp
    with that show False by simp
  qed
  consider "cp < 0x80" | "0x80 \<le> cp" "cp < 0x800" | "0x800 \<le> cp" "cp < 0x10000"
    | "0x10000 \<le> cp" by linarith
  then show ?thesis
  proof cases
    case 1
    with assms nul [of cp] show ?thesis
      by (simp add: utf8_encode_def charsize_ranges)
  next
    case 2
    then have y: "0 \<le> cp div 64" "cp div 64 < 32" by simp_all
    define a where "a = cp div 64"
    define b where "b = cp mod 64"
    have "utf8_encode cp = [char_of (192 + a), char_of (128 + b)]"
      using 2 by (simp add: utf8_encode_def a_def b_def)
    moreover have "0 \<le> a" "a < 32" "0 \<le> b" "b < 64" using y by (simp_all add: a_def b_def)
    ultimately show ?thesis
      using nul [of "192 + a"] nul [of "128 + b"] by (simp add: charsize_ranges digit_bytes)
  next
    case 3
    then have y: "0 \<le> cp div 64 div 64" "cp div 64 div 64 < 16" by simp_all
    define a b c where "a = cp div 64 div 64" and "b = cp div 64 mod 64" and "c = cp mod 64"
    have "utf8_encode cp = [char_of (224 + a), char_of (128 + b), char_of (128 + c)]"
      using 3 by (simp add: utf8_encode_def a_def b_def c_def)
    moreover have "0 \<le> a" "a < 16" "0 \<le> b" "b < 64" "0 \<le> c" "c < 64"
      using y by (simp_all add: a_def b_def c_def)
    ultimately show ?thesis
      using nul [of "224 + a"] nul [of "128 + b"] nul [of "128 + c"]
      by (simp add: charsize_ranges digit_bytes)
  next
    case 4
    with assms(2) have y: "0 \<le> cp div 64 div 64 div 64" "cp div 64 div 64 div 64 < 8" by simp_all
    define a b c d where "a = cp div 64 div 64 div 64" and "b = cp div 64 div 64 mod 64"
      and "c = cp div 64 mod 64" and "d = cp mod 64"
    have "utf8_encode cp =
        [char_of (240 + a), char_of (128 + b), char_of (128 + c), char_of (128 + d)]"
      using 4 by (simp add: utf8_encode_def a_def b_def c_def d_def)
    moreover have "0 \<le> a" "a < 8" "0 \<le> b" "b < 64" "0 \<le> c" "c < 64" "0 \<le> d" "d < 64"
      using y by (simp_all add: a_def b_def c_def d_def)
    ultimately show ?thesis
      using nul [of "240 + a"] nul [of "128 + b"] nul [of "128 + c"] nul [of "128 + d"]
      by (simp add: charsize_ranges digit_bytes)
  qed
qed

section \<open>Properties\<close>

text \<open>
  UTF-8 round trip: for every code point up to \<open>0x1FFFFF\<close> and enough room, reading what
  \<open>guac_utf8_write\<close> stored (whatever follows it in the buffer) consumes exactly the bytes that
  were written and yields the code point.
\<close>

theorem utf8_write_read:
  assumes "0 \<le> cp" and "cp \<le> 0x1FFFFF" and "4 \<le> room"
  shows "guac_utf8_read (guac_utf8_write cp room @ rest)
           = (length (guac_utf8_write cp room), Some cp)"
  using assms
  by (simp add: write_encode read_encode length_utf8_encode utf8_size_def split: if_splits)

theorem utf8_write_read_witness:
  "guac_utf8_read (guac_utf8_write 0x20AC 4 @ ''!'') = (3, Some 0x20AC)"
proof -
  have "length (guac_utf8_write 0x20AC 4) = 3"
    by (simp add: write_encode utf8_size_def length_utf8_encode)
  then show ?thesis using utf8_write_read [of "0x20AC" 4 "''!''"] by simp
qed

text \<open>
  \<open>guac_utf8_strlen\<close> counts characters: the length of the text written for a list of
  (non-zero) code points is the number of code points, however many bytes each one took.
\<close>

theorem utf8_strlen_counts:
  assumes "\<forall>cp \<in> set cps. 1 \<le> cp \<and> cp \<le> 0x1FFFFF"
  shows "guac_utf8_strlen (concat (map (\<lambda>cp. guac_utf8_write cp 4) cps)) = length cps"
proof -
  have w: "guac_utf8_write cp 4 = utf8_encode cp" if "cp \<in> set cps" for cp
    using assms that by (intro write_encode) (auto simp: utf8_size_def)
  have "NUL \<notin> set (concat (map utf8_encode cps))"
    using assms encode_wf by fastforce
  moreover have "utf8_count (concat (map utf8_encode cps)) = length cps"
    using assms by (induction cps) (auto simp: count_append encode_wf)
  moreover have "map (\<lambda>cp. guac_utf8_write cp 4) cps = map utf8_encode cps"
    using w by simp
  ultimately show ?thesis using strlen_count by metis
qed

theorem utf8_strlen_counts_witness:
  "guac_utf8_strlen (concat (map (\<lambda>cp. guac_utf8_write cp 4) [0x41, 0x20AC, 0x1F600])) = 3"
  using utf8_strlen_counts [of "[0x41, 0x20AC, 0x1F600]"] by simp

end
