(* ===== verification/Socket.thy ===== *)
theory Socket
  imports Unicode
begin

text \<open>
  \<open>libguac/src/socket.c\<close>: the socket structure with its optional handlers, the write loop,
  integers and strings as text, and the base64 writer with its three-entry staging buffer.

  \<^item> A handler is a function on the socket's own data (the \<open>void* data\<close> of the code, of any
    type \<open>'s\<close>); a null handler pointer is \<open>None\<close>. A handler may itself fail to return, so its
    result is an \<open>option\<close>.
  \<^item> \<open>guac_timestamp_current\<close> reads the clock of the environment: call number \<open>n\<close> returns
    \<open>sk_clock n\<close>.
  \<^item> The write loop is a \<open>partial_function\<close>: \<open>None\<close> is "does not return" (a handler that keeps
    accepting nothing) or a step the C standard leaves undefined (a negative or too large count
    from the handler, a write past \<open>__ready_buf\<close>).

  The locale \<open>byte_sink\<close> is what the code expects of a transport.
\<close>

section \<open>The structure\<close>

datatype guac_socket_state = GUAC_SOCKET_OPEN | GUAC_SOCKET_CLOSED

record 's guac_socket =
  sk_data :: 's
  read_handler :: "('s \<Rightarrow> nat \<Rightarrow> (int \<times> char list \<times> 's) option) option"
  write_handler :: "('s \<Rightarrow> char list \<Rightarrow> (int \<times> 's) option) option"
  flush_handler :: "('s \<Rightarrow> (int \<times> 's) option) option"
  lock_handler :: "('s \<Rightarrow> 's option) option"
  unlock_handler :: "('s \<Rightarrow> 's) option"
  select_handler :: "('s \<Rightarrow> int \<Rightarrow> (int \<times> 's) option) option"
  free_handler :: "('s \<Rightarrow> 's option) option"
  sk_state :: guac_socket_state
  last_write_timestamp :: int
  ready :: nat
  ready_buf :: "int list"
  keep_alive_enabled :: bool
  sk_clock :: "nat \<Rightarrow> int"
  sk_tick :: nat

definition socket_timestamp_current :: "'s guac_socket \<Rightarrow> int \<times> 's guac_socket" where
  "socket_timestamp_current s = (sk_clock s (sk_tick s), s\<lparr>sk_tick := Suc (sk_tick s)\<rparr>)"

text \<open>\<open>guac_socket_alloc\<close>, for a given initial data value; \<open>malloc\<close> succeeds.\<close>

definition guac_socket_alloc :: "'s \<Rightarrow> (nat \<Rightarrow> int) \<Rightarrow> 's guac_socket" where
  "guac_socket_alloc d clk =
     \<lparr>sk_data = d, read_handler = None, write_handler = None, flush_handler = None,
      lock_handler = None, unlock_handler = None, select_handler = None, free_handler = None,
      sk_state = GUAC_SOCKET_OPEN, last_write_timestamp = clk 0, ready = 0,
      ready_buf = [0, 0, 0], keep_alive_enabled = False, sk_clock = clk, sk_tick = 1\<rparr>"

section \<open>Reading, writing, locking\<close>

definition socket_write_once :: "'s guac_socket \<Rightarrow> char list \<Rightarrow> (int \<times> 's guac_socket) option" where
  "socket_write_once s buf =
     (let (now, s) = socket_timestamp_current s; s = s\<lparr>last_write_timestamp := now\<rparr> in
      case write_handler s of
        Some h \<Rightarrow>
          (case h (sk_data s) buf of None \<Rightarrow> None | Some (n, d) \<Rightarrow> Some (n, s\<lparr>sk_data := d\<rparr>))
      | None \<Rightarrow> Some (int (length buf), s))"

partial_function (option) guac_socket_write ::
  "'s guac_socket \<Rightarrow> char list \<Rightarrow> (int \<times> 's guac_socket) option" where
  "guac_socket_write s buf =
     (if buf = [] then Some (0, s)
      else case socket_write_once s buf of
        None \<Rightarrow> None
      | Some (written, s') \<Rightarrow>
          if written = -1 then Some (1, s')
          else if written < 0 \<or> int (length buf) < written then None
          else guac_socket_write s' (drop (nat written) buf))"

definition guac_socket_read ::
  "'s guac_socket \<Rightarrow> nat \<Rightarrow> (int \<times> char list \<times> 's guac_socket) option" where
  "guac_socket_read s count =
     (case read_handler s of
        Some h \<Rightarrow>
          (case h (sk_data s) count of None \<Rightarrow> None
           | Some (n, bs, d) \<Rightarrow> Some (n, bs, s\<lparr>sk_data := d\<rparr>))
      | None \<Rightarrow> Some (0, [], s))"

definition guac_socket_select :: "'s guac_socket \<Rightarrow> int \<Rightarrow> (int \<times> 's guac_socket) option" where
  "guac_socket_select s usec_timeout =
     (case select_handler s of
        Some h \<Rightarrow>
          (case h (sk_data s) usec_timeout of None \<Rightarrow> None
           | Some (r, d) \<Rightarrow> Some (r, s\<lparr>sk_data := d\<rparr>))
      | None \<Rightarrow> Some (1, s))"

text \<open>Taking a lock that is held blocks for ever: the lock handler yields an \<open>option\<close>.\<close>

definition guac_socket_instruction_begin :: "'s guac_socket \<Rightarrow> 's guac_socket option" where
  "guac_socket_instruction_begin s =
     (case lock_handler s of
        Some h \<Rightarrow> (case h (sk_data s) of None \<Rightarrow> None | Some d \<Rightarrow> Some (s\<lparr>sk_data := d\<rparr>))
      | None \<Rightarrow> Some s)"

definition guac_socket_instruction_end :: "'s guac_socket \<Rightarrow> 's guac_socket" where
  "guac_socket_instruction_end s =
     (case unlock_handler s of Some h \<Rightarrow> s\<lparr>sk_data := h (sk_data s)\<rparr> | None \<Rightarrow> s)"

definition guac_socket_flush :: "'s guac_socket \<Rightarrow> (int \<times> 's guac_socket) option" where
  "guac_socket_flush s =
     (case flush_handler s of
        Some h \<Rightarrow>
          (case h (sk_data s) of None \<Rightarrow> None | Some (r, d) \<Rightarrow> Some (r, s\<lparr>sk_data := d\<rparr>))
      | None \<Rightarrow> Some (0, s))"

text \<open>
  \<open>guac_socket_free\<close> flushes, runs the free handler and marks the socket closed; the result is
  the state the handlers leave (the structure itself is then released).
\<close>

definition guac_socket_free :: "'s guac_socket \<Rightarrow> 's guac_socket option" where
  "guac_socket_free s =
     (case guac_socket_flush s of
        None \<Rightarrow> None
      | Some (_, s) \<Rightarrow>
          (case free_handler s of
             None \<Rightarrow> Some (s\<lparr>sk_state := GUAC_SOCKET_CLOSED\<rparr>)
           | Some h \<Rightarrow>
               (case h (sk_data s) of None \<Rightarrow> None
                | Some d \<Rightarrow> Some (s\<lparr>sk_data := d, sk_state := GUAC_SOCKET_CLOSED\<rparr>))))"

section \<open>Integers and strings\<close>

text \<open>Decimal text, as \<open>snprintf\<close> with \<open>%lli\<close> produces it.\<close>

fun digits_of_nat :: "nat \<Rightarrow> char list" where
  "digits_of_nat n =
     (if n < 10 then [char_of (48 + n)] else digits_of_nat (n div 10) @ [char_of (48 + n mod 10)])"

declare digits_of_nat.simps [simp del]

definition format_int :: "int \<Rightarrow> char list" where
  "format_int i = (if i < 0 then CHR ''-'' # digits_of_nat (nat (- i)) else digits_of_nat (nat i))"

definition guac_socket_write_int :: "'s guac_socket \<Rightarrow> int \<Rightarrow> (int \<times> 's guac_socket) option" where
  "guac_socket_write_int s i = guac_socket_write s (format_int i)"

definition guac_socket_write_string ::
  "'s guac_socket \<Rightarrow> char list \<Rightarrow> (int \<times> 's guac_socket) option" where
  "guac_socket_write_string s str =
     (case guac_socket_write s str of
        None \<Rightarrow> None
      | Some (r, s') \<Rightarrow> Some (if r \<noteq> 0 then 1 else 0, s'))"

section \<open>Base64\<close>

definition BASE64_CHARACTERS :: "char list" where
  "BASE64_CHARACTERS = ''ABCDEFGHIJKLMNOPQRSTUVWXYZabcdefghijklmnopqrstuvwxyz0123456789+/''"

definition base64_char :: "int \<Rightarrow> char" where
  "base64_char i = BASE64_CHARACTERS ! nat i"

definition base64_output :: "int \<Rightarrow> int \<Rightarrow> int \<Rightarrow> char list" where
  "base64_output a b c =
     base64_char (drop_bit 2 (a AND 0xFC)) #
     (if 0 \<le> b then
        base64_char (push_bit 4 (a AND 0x03) OR drop_bit 4 (b AND 0xF0)) #
        (if 0 \<le> c
         then [base64_char (push_bit 2 (b AND 0x0F) OR drop_bit 6 (c AND 0xC0)),
               base64_char (c AND 0x3F)]
         else [base64_char (push_bit 2 (b AND 0x0F)), CHR ''=''])
      else [base64_char (push_bit 4 (a AND 0x03)), CHR ''='', CHR ''=''])"

definition write_base64_triplet ::
  "'s guac_socket \<Rightarrow> int \<Rightarrow> int \<Rightarrow> int \<Rightarrow> (int \<times> 's guac_socket) option" where
  "write_base64_triplet s a b c =
     (case guac_socket_write s (base64_output a b c) of
        None \<Rightarrow> None
      | Some (r, s') \<Rightarrow>
          Some (if r \<noteq> 0 then -1 else if b < 0 then 1 else if c < 0 then 2 else 3, s'))"

text \<open>
  One byte (or \<open>-1\<close>, the padding of a flush) is staged. When the triplet cannot be written the
  function returns before it resets \<open>__ready\<close>; staging a fourth entry is out of bounds.
\<close>

definition write_base64_byte :: "'s guac_socket \<Rightarrow> int \<Rightarrow> (int \<times> 's guac_socket) option" where
  "write_base64_byte s buf =
     (if length (ready_buf s) \<le> ready s then None
      else
        let s = s\<lparr>ready_buf := (ready_buf s)[ready s := buf], ready := Suc (ready s)\<rparr> in
        if ready s = 3
        then (case write_base64_triplet s (ready_buf s ! 0) (ready_buf s ! 1) (ready_buf s ! 2) of
                None \<Rightarrow> None
              | Some (r, s') \<Rightarrow> if r < 0 then Some (r, s') else Some (1, s'\<lparr>ready := 0\<rparr>))
        else Some (1, s))"

fun guac_socket_write_base64 :: "'s guac_socket \<Rightarrow> u8 list \<Rightarrow> (int \<times> 's guac_socket) option" where
  "guac_socket_write_base64 s [] = Some (0, s)"
| "guac_socket_write_base64 s (x # xs) =
     (case write_base64_byte s (uint x) of
        None \<Rightarrow> None
      | Some (r, s') \<Rightarrow> if r < 0 then Some (r, s') else guac_socket_write_base64 s' xs)"

partial_function (option) guac_socket_flush_base64 ::
  "'s guac_socket \<Rightarrow> (int \<times> 's guac_socket) option" where
  "guac_socket_flush_base64 s =
     (if ready s = 0 then Some (0, s)
      else case write_base64_byte s (-1) of
        None \<Rightarrow> None
      | Some (r, s') \<Rightarrow> if r < 0 then Some (r, s') else guac_socket_flush_base64 s')"


section \<open>What a transport promises\<close>

text \<open>
  A transport is healthy (\<open>ok\<close>) when a write accepts at least one byte, at most all, appends
  what it accepted to the bytes sent (\<open>got\<close>) and stays healthy. \<open>held\<close> says whether its lock is
  held; a free lock can be taken and a held one given back, and neither changes the bytes sent.
\<close>

locale byte_sink =
  fixes put :: "'s \<Rightarrow> char list \<Rightarrow> (int \<times> 's) option"
    and lock :: "'s \<Rightarrow> 's option"
    and unlock :: "'s \<Rightarrow> 's"
    and got :: "'s \<Rightarrow> char list"
    and ok :: "'s \<Rightarrow> bool"
    and held :: "'s \<Rightarrow> bool"
  assumes put_ok: "ok d \<Longrightarrow> buf \<noteq> [] \<Longrightarrow>
      \<exists>n d'. put d buf = Some (n, d') \<and> 0 < n \<and> n \<le> int (length buf)
         \<and> ok d' \<and> held d' = held d \<and> got d' = got d @ take (nat n) buf"
    and lock_ok: "ok d \<Longrightarrow> \<not> held d \<Longrightarrow> \<exists>d'. lock d = Some d' \<and> ok d' \<and> held d' \<and> got d' = got d"
    and unlock_ok: "ok d \<Longrightarrow> held d \<Longrightarrow>
      ok (unlock d) \<and> \<not> held (unlock d) \<and> got (unlock d) = got d"

text \<open>A socket whose handlers are a transport's, with its staging buffer in shape.\<close>

definition wired ::
  "('s \<Rightarrow> char list \<Rightarrow> (int \<times> 's) option) \<Rightarrow> ('s \<Rightarrow> 's option) \<Rightarrow> ('s \<Rightarrow> 's) \<Rightarrow>
   's guac_socket \<Rightarrow> bool" where
  "wired put lock unlock s \<longleftrightarrow> write_handler s = Some put \<and> lock_handler s = Some lock
     \<and> unlock_handler s = Some unlock \<and> length (ready_buf s) = 3"

text \<open>
  \<open>emits \<dots> bs f\<close>: run from any wired and healthy socket with nothing staged, the writer \<open>f\<close>
  returns zero and leaves such a socket, with \<open>bs\<close> appended to the bytes sent and the lock as it
  was. \<open>sends \<dots> bs f\<close> says the same of a function that takes the lock itself: it starts with the
  lock free and gives it back.
\<close>

definition emits ::
  "('s \<Rightarrow> char list \<Rightarrow> (int \<times> 's) option) \<Rightarrow> ('s \<Rightarrow> 's option) \<Rightarrow> ('s \<Rightarrow> 's) \<Rightarrow>
   ('s \<Rightarrow> char list) \<Rightarrow> ('s \<Rightarrow> bool) \<Rightarrow> ('s \<Rightarrow> bool) \<Rightarrow> char list \<Rightarrow>
   ('s guac_socket \<Rightarrow> (int \<times> 's guac_socket) option) \<Rightarrow> bool" where
  "emits put lock unlock got ok held bs f \<longleftrightarrow>
     (\<forall>s. wired put lock unlock s \<and> ok (sk_data s) \<and> ready s = 0 \<longrightarrow>
        (\<exists>s'. f s = Some (0, s') \<and> wired put lock unlock s' \<and> ok (sk_data s') \<and> ready s' = 0
            \<and> held (sk_data s') = held (sk_data s)
            \<and> got (sk_data s') = got (sk_data s) @ bs))"

definition sends ::
  "('s \<Rightarrow> char list \<Rightarrow> (int \<times> 's) option) \<Rightarrow> ('s \<Rightarrow> 's option) \<Rightarrow> ('s \<Rightarrow> 's) \<Rightarrow>
   ('s \<Rightarrow> char list) \<Rightarrow> ('s \<Rightarrow> bool) \<Rightarrow> ('s \<Rightarrow> bool) \<Rightarrow> char list \<Rightarrow>
   ('s guac_socket \<Rightarrow> (int \<times> 's guac_socket) option) \<Rightarrow> bool" where
  "sends put lock unlock got ok held bs f \<longleftrightarrow>
     (\<forall>s. wired put lock unlock s \<and> ok (sk_data s) \<and> ready s = 0 \<and> \<not> held (sk_data s) \<longrightarrow>
        (\<exists>s'. f s = Some (0, s') \<and> wired put lock unlock s' \<and> ok (sk_data s') \<and> ready s' = 0
            \<and> \<not> held (sk_data s')
            \<and> got (sk_data s') = got (sk_data s) @ bs))"

text \<open>The base64 text of a byte sequence, three bytes at a time.\<close>

fun base64_encode :: "u8 list \<Rightarrow> char list" where
  "base64_encode [] = []"
| "base64_encode [x] = base64_output (uint x) (-1) (-1)"
| "base64_encode [x, y] = base64_output (uint x) (uint y) (-1)"
| "base64_encode (x # y # z # xs) = base64_output (uint x) (uint y) (uint z) @ base64_encode xs"

lemma list3E:
  assumes "length xs = 3"
  obtains a b c where "xs = [a, b, c]"
  using assms by (auto simp: numeral_3_eq_3 length_Suc_conv)

context byte_sink
begin

abbreviation is_wired :: "'s guac_socket \<Rightarrow> bool" where
  "is_wired \<equiv> wired put lock unlock"

abbreviation writes :: "char list \<Rightarrow> ('s guac_socket \<Rightarrow> (int \<times> 's guac_socket) option) \<Rightarrow> bool" where
  "writes \<equiv> emits put lock unlock got ok held"

lemma emitsD:
  "writes bs f \<Longrightarrow> is_wired s \<Longrightarrow> ok (sk_data s) \<Longrightarrow> ready s = 0 \<Longrightarrow>
     \<exists>s'. f s = Some (0, s') \<and> is_wired s' \<and> ok (sk_data s') \<and> ready s' = 0
        \<and> held (sk_data s') = held (sk_data s) \<and> got (sk_data s') = got (sk_data s) @ bs"
  by (simp add: emits_def)

lemma write_once_ok:
  assumes "is_wired s" and "ok (sk_data s)" and "buf \<noteq> []"
  shows "\<exists>n s'. socket_write_once s buf = Some (n, s') \<and> 0 < n \<and> n \<le> int (length buf)
     \<and> is_wired s' \<and> ok (sk_data s') \<and> ready s' = ready s
     \<and> ready_buf s' = ready_buf s \<and> held (sk_data s') = held (sk_data s)
     \<and> got (sk_data s') = got (sk_data s) @ take (nat n) buf"
proof -
  from put_ok [OF assms(2,3)] obtain n d' where "put (sk_data s) buf = Some (n, d')" "0 < n"
    "n \<le> int (length buf)" "ok d'" "held d' = held (sk_data s)"
    "got d' = got (sk_data s) @ take (nat n) buf" by blast
  with assms(1) show ?thesis
    by (auto simp: socket_write_once_def socket_timestamp_current_def wired_def Let_def)
qed

lemma write_ok:
  assumes "is_wired s" and "ok (sk_data s)"
  shows "\<exists>s'. guac_socket_write s buf = Some (0, s') \<and> is_wired s' \<and> ok (sk_data s')
     \<and> ready s' = ready s \<and> ready_buf s' = ready_buf s \<and> held (sk_data s') = held (sk_data s)
     \<and> got (sk_data s') = got (sk_data s) @ buf"
  using assms
proof (induction buf arbitrary: s rule: length_induct)
  case (1 buf)
  show ?case
  proof (cases "buf = []")
    case True
    with "1.prems" show ?thesis by (simp add: guac_socket_write.simps)
  next
    case False
    from write_once_ok [OF "1.prems" False] obtain n s1 where
      s1: "socket_write_once s buf = Some (n, s1)" "0 < n" "n \<le> int (length buf)"
        "is_wired s1" "ok (sk_data s1)" "ready s1 = ready s"
        "ready_buf s1 = ready_buf s" "held (sk_data s1) = held (sk_data s)"
        "got (sk_data s1) = got (sk_data s) @ take (nat n) buf" by blast
    have "length (drop (nat n) buf) < length buf" using s1(2) False by simp
    with "1.IH" s1(4,5) obtain s' where
      "guac_socket_write s1 (drop (nat n) buf) = Some (0, s')" "is_wired s'"
      "ok (sk_data s')" "ready s' = ready s1" "ready_buf s' = ready_buf s1"
      "held (sk_data s') = held (sk_data s1)"
      "got (sk_data s') = got (sk_data s1) @ drop (nat n) buf" by blast
    with s1 False show ?thesis
      by (subst guac_socket_write.simps) simp
  qed
qed

lemma emits_string: "writes bs (\<lambda>s. guac_socket_write_string s bs)"
  unfolding emits_def
proof (intro allI impI, elim conjE)
  fix s
  assume "is_wired s" "ok (sk_data s)" "ready s = 0"
  then show "\<exists>s'. guac_socket_write_string s bs = Some (0, s') \<and> is_wired s'
      \<and> ok (sk_data s') \<and> ready s' = 0 \<and> held (sk_data s') = held (sk_data s)
      \<and> got (sk_data s') = got (sk_data s) @ bs"
    using write_ok [of s bs] by (auto simp: guac_socket_write_string_def)
qed

lemma emits_int: "writes (format_int i) (\<lambda>s. guac_socket_write_int s i)"
  unfolding emits_def
proof (intro allI impI, elim conjE)
  fix s
  assume "is_wired s" "ok (sk_data s)" "ready s = 0"
  then show "\<exists>s'. guac_socket_write_int s i = Some (0, s') \<and> is_wired s'
      \<and> ok (sk_data s') \<and> ready s' = 0 \<and> held (sk_data s') = held (sk_data s)
      \<and> got (sk_data s') = got (sk_data s) @ format_int i"
    using write_ok [of s "format_int i"] by (auto simp: guac_socket_write_int_def)
qed

lemma triplet_ok:
  assumes "is_wired s" and "ok (sk_data s)"
  shows "\<exists>r s'. write_base64_triplet s a b c = Some (r, s') \<and> 0 < r \<and> is_wired s'
     \<and> ok (sk_data s') \<and> held (sk_data s') = held (sk_data s)
     \<and> got (sk_data s') = got (sk_data s) @ base64_output a b c"
  using write_ok [OF assms, of "base64_output a b c"] by (auto simp: write_base64_triplet_def)

text \<open>One staged byte, by the number of bytes already staged.\<close>

lemma byte_staged:
  assumes "is_wired s" and "ok (sk_data s)" and "ready s < 2"
  shows "write_base64_byte s v =
     Some (1, s\<lparr>ready_buf := (ready_buf s)[ready s := v], ready := Suc (ready s)\<rparr>)"
  using assms by (simp add: write_base64_byte_def wired_def Let_def)

lemma byte_third:
  assumes "is_wired s" and "ok (sk_data s)" and "ready s = 2"
    and "ready_buf s ! 0 = a" and "ready_buf s ! 1 = b"
  shows "\<exists>s'. write_base64_byte s v = Some (1, s') \<and> is_wired s' \<and> ok (sk_data s')
     \<and> ready s' = 0 \<and> held (sk_data s') = held (sk_data s)
     \<and> got (sk_data s') = got (sk_data s) @ base64_output a b v"
proof -
  let ?s = "s\<lparr>ready_buf := (ready_buf s)[2 := v], ready := 3\<rparr>"
  have w: "is_wired ?s" "ok (sk_data ?s)" using assms(1,2) by (simp_all add: wired_def)
  from triplet_ok [OF w, of a b v] obtain r s' where
    "write_base64_triplet ?s a b v = Some (r, s')" "0 < r" "is_wired s'"
    "ok (sk_data s')" "held (sk_data s') = held (sk_data s)"
    "got (sk_data s') = got (sk_data s) @ base64_output a b v" by auto
  moreover have "ready_buf ?s ! 0 = a" "ready_buf ?s ! 1 = b" "ready_buf ?s ! 2 = v"
    using assms by (auto simp: wired_def)
  ultimately show ?thesis
    using assms(1,3) by (auto simp: write_base64_byte_def wired_def Let_def)
qed

end

context byte_sink
begin

lemma flush_base64_pads:
  assumes "is_wired s" and "ok (sk_data s)" and "ready s \<le> 2"
    and "pend = take (ready s) (ready_buf s)"
  shows "\<exists>s'. guac_socket_flush_base64 s = Some (0, s') \<and> is_wired s' \<and> ok (sk_data s')
     \<and> ready s' = 0 \<and> held (sk_data s') = held (sk_data s)
     \<and> got (sk_data s') = got (sk_data s) @
         (case pend of [] \<Rightarrow> [] | [a] \<Rightarrow> base64_output a (-1) (-1)
          | a # b # _ \<Rightarrow> base64_output a b (-1))"
proof -
  have nil: "guac_socket_flush_base64 u = Some (0, u)" if "ready u = 0" for u :: "'s guac_socket"
    using that by (simp add: guac_socket_flush_base64.simps)
  obtain x y z where buf: "ready_buf s = [x, y, z]"
    using assms(1) by (auto simp: wired_def elim: list3E)
  have two: "\<exists>u'. guac_socket_flush_base64 u = Some (0, u') \<and> is_wired u' \<and> ok (sk_data u')
     \<and> ready u' = 0 \<and> held (sk_data u') = held (sk_data u)
     \<and> got (sk_data u') = got (sk_data u) @ base64_output a b (-1)"
    if u: "is_wired u" "ok (sk_data u)" "ready u = 2" "ready_buf u ! 0 = a" "ready_buf u ! 1 = b"
    for u :: "'s guac_socket" and a b
  proof -
    from byte_third [OF u, of "-1"] obtain u' where
      "write_base64_byte u (-1) = Some (1, u')" "is_wired u'" "ok (sk_data u')" "ready u' = 0"
      "held (sk_data u') = held (sk_data u)"
      "got (sk_data u') = got (sk_data u) @ base64_output a b (-1)" by blast
    then show ?thesis
      using nil [of u'] u(3) by (subst guac_socket_flush_base64.simps) simp
  qed
  consider "ready s = 0" | "ready s = 1" | "ready s = 2" using assms(3) by linarith
  then show ?thesis
  proof cases
    case 1
    then show ?thesis using nil [of s] assms by simp
  next
    case 2
    let ?u = "s\<lparr>ready_buf := (ready_buf s)[1 := -1], ready := 2\<rparr>"
    have "write_base64_byte s (-1) = Some (1, ?u)"
      using byte_staged [OF assms(1,2), of "-1"] 2 by (simp add: numeral_2_eq_2)
    then have "guac_socket_flush_base64 s = guac_socket_flush_base64 ?u"
      using 2 by (subst guac_socket_flush_base64.simps) simp
    moreover have "is_wired ?u" using assms(1) by (simp add: wired_def)
    ultimately show ?thesis
      using two [of ?u x "-1"] assms 2 buf by (simp add: base64_output_def)
  next
    case 3
    then show ?thesis using two [of s x y] assms buf by (simp add: numeral_2_eq_2)
  qed
qed

end

context byte_sink
begin

text \<open>One byte staged in an empty buffer, and a second beside it.\<close>

lemma stage_one:
  assumes "is_wired s" and "ok (sk_data s)" and "ready s = 0"
  shows "\<exists>s'. write_base64_byte s a = Some (1, s') \<and> is_wired s' \<and> sk_data s' = sk_data s
     \<and> ready s' = 1 \<and> ready_buf s' ! 0 = a"
  using byte_staged [OF assms(1,2), of a] assms by (auto simp: wired_def)

lemma stage_two:
  assumes "is_wired s" and "ok (sk_data s)" and "ready s = 1" and "ready_buf s ! 0 = a"
  shows "\<exists>s'. write_base64_byte s b = Some (1, s') \<and> is_wired s' \<and> sk_data s' = sk_data s
     \<and> ready s' = 2 \<and> ready_buf s' ! 0 = a \<and> ready_buf s' ! 1 = b"
  using byte_staged [OF assms(1,2), of b] assms by (auto simp: wired_def numeral_2_eq_2)

lemma wired_take:
  "is_wired s \<Longrightarrow> take 1 (ready_buf s) = [ready_buf s ! 0]"
  "is_wired s \<Longrightarrow> take 2 (ready_buf s) = [ready_buf s ! 0, ready_buf s ! 1]"
  by (auto simp: wired_def numeral_2_eq_2 elim: list3E)

lemma base64_ok:
  assumes "is_wired s" and "ok (sk_data s)" and "ready s = 0"
  shows "\<exists>s1 s2. guac_socket_write_base64 s bs = Some (0, s1)
     \<and> guac_socket_flush_base64 s1 = Some (0, s2)
     \<and> is_wired s2 \<and> ok (sk_data s2) \<and> ready s2 = 0 \<and> held (sk_data s2) = held (sk_data s)
     \<and> got (sk_data s2) = got (sk_data s) @ base64_encode bs"
  using assms
proof (induction bs arbitrary: s rule: base64_encode.induct)
  case 1
  then show ?case by (simp add: guac_socket_flush_base64.simps)
next
  case (2 x)
  from stage_one [OF 2, of "uint x"] obtain s1 where s1:
    "write_base64_byte s (uint x) = Some (1, s1)" "is_wired s1" "sk_data s1 = sk_data s"
    "ready s1 = 1" "ready_buf s1 ! 0 = uint x" by blast
  with flush_base64_pads [of s1 "[uint x]"] 2 wired_take(1) [OF s1(2)] show ?case by fastforce
next
  case (3 x y)
  from stage_one [OF 3, of "uint x"] obtain s1 where s1:
    "write_base64_byte s (uint x) = Some (1, s1)" "is_wired s1" "sk_data s1 = sk_data s"
    "ready s1 = 1" "ready_buf s1 ! 0 = uint x" by blast
  from stage_two [OF s1(2) _ s1(4,5), of "uint y"] 3 s1(3) obtain s2 where s2:
    "write_base64_byte s1 (uint y) = Some (1, s2)" "is_wired s2" "sk_data s2 = sk_data s1"
    "ready s2 = 2" "ready_buf s2 ! 0 = uint x" "ready_buf s2 ! 1 = uint y" by auto
  with flush_base64_pads [of s2 "[uint x, uint y]"] 3 s1 wired_take(2) [OF s2(2)]
  show ?case by fastforce
next
  case (4 x y z xs)
  from stage_one [OF "4.prems", of "uint x"] obtain s1 where s1:
    "write_base64_byte s (uint x) = Some (1, s1)" "is_wired s1" "sk_data s1 = sk_data s"
    "ready s1 = 1" "ready_buf s1 ! 0 = uint x" by blast
  from stage_two [OF s1(2) _ s1(4,5), of "uint y"] "4.prems" s1(3) obtain s2 where s2:
    "write_base64_byte s1 (uint y) = Some (1, s2)" "is_wired s2" "sk_data s2 = sk_data s1"
    "ready s2 = 2" "ready_buf s2 ! 0 = uint x" "ready_buf s2 ! 1 = uint y" by auto
  from byte_third [OF s2(2) _ s2(4,5,6), of "uint z"] "4.prems" s1(3) s2(3) obtain s3 where s3:
    "write_base64_byte s2 (uint z) = Some (1, s3)" "is_wired s3" "ok (sk_data s3)"
    "ready s3 = 0" "held (sk_data s3) = held (sk_data s2)"
    "got (sk_data s3) = got (sk_data s2) @ base64_output (uint x) (uint y) (uint z)" by auto
  from "4.IH" [OF s3(2,3,4)] s1 s2 s3 show ?case by auto
qed

lemma emits_base64:
  "writes (base64_encode bs)
     (\<lambda>s. case guac_socket_write_base64 s bs of None \<Rightarrow> None
        | Some (r, s') \<Rightarrow> if r \<noteq> 0 then Some (1, s') else guac_socket_flush_base64 s')"
  unfolding emits_def
proof (intro allI impI, elim conjE)
  fix s assume s: "is_wired s" "ok (sk_data s)" "ready s = 0"
  from base64_ok [OF s, of bs]
  show "\<exists>s'. (case guac_socket_write_base64 s bs of None \<Rightarrow> None
        | Some (r, s') \<Rightarrow> if r \<noteq> 0 then Some (1, s') else guac_socket_flush_base64 s') = Some (0, s')
      \<and> is_wired s' \<and> ok (sk_data s') \<and> ready s' = 0 \<and> held (sk_data s') = held (sk_data s)
      \<and> got (sk_data s') = got (sk_data s) @ base64_encode bs" by auto
qed

end

section \<open>What a transport delivers\<close>

text \<open>
  A source is ready (\<open>live\<close>) when it has bytes to come (\<open>pending\<close>): waiting reports data, and a
  read returns a non-empty part of them, in order.
\<close>

locale byte_source =
  fixes get :: "'s \<Rightarrow> nat \<Rightarrow> (int \<times> char list \<times> 's) option"
    and sel :: "'s \<Rightarrow> int \<Rightarrow> (int \<times> 's) option"
    and pending :: "'s \<Rightarrow> char list"
    and live :: "'s \<Rightarrow> bool"
  assumes get_ok: "live d \<Longrightarrow> pending d \<noteq> [] \<Longrightarrow> 0 < count \<Longrightarrow>
      \<exists>bs d'. get d count = Some (int (length bs), bs, d') \<and> bs \<noteq> [] \<and> length bs \<le> count
         \<and> pending d = bs @ pending d' \<and> live d'"
    and sel_ok: "live d \<Longrightarrow> pending d \<noteq> [] \<Longrightarrow>
      \<exists>r d'. sel d t = Some (r, d') \<and> 0 < r \<and> live d' \<and> pending d' = pending d"

definition readable ::
  "('s \<Rightarrow> nat \<Rightarrow> (int \<times> char list \<times> 's) option) \<Rightarrow> ('s \<Rightarrow> int \<Rightarrow> (int \<times> 's) option) \<Rightarrow>
   's guac_socket \<Rightarrow> bool" where
  "readable get sel s \<longleftrightarrow> read_handler s = Some get \<and> select_handler s = Some sel"

context byte_source
begin

abbreviation is_readable :: "'s guac_socket \<Rightarrow> bool" where
  "is_readable \<equiv> readable get sel"

lemma read_ok:
  assumes "is_readable s" and "live (sk_data s)" and "pending (sk_data s) \<noteq> []" and "0 < count"
  shows "\<exists>bs s'. guac_socket_read s count = Some (int (length bs), bs, s') \<and> bs \<noteq> []
     \<and> length bs \<le> count \<and> pending (sk_data s) = bs @ pending (sk_data s')
     \<and> live (sk_data s') \<and> is_readable s'"
  using get_ok [OF assms(2-4)] assms(1) by (auto simp: guac_socket_read_def readable_def)

lemma select_ok:
  assumes "is_readable s" and "live (sk_data s)" and "pending (sk_data s) \<noteq> []"
  shows "\<exists>r s'. guac_socket_select s t = Some (r, s') \<and> 0 < r
     \<and> pending (sk_data s') = pending (sk_data s) \<and> live (sk_data s') \<and> is_readable s'"
  using sel_ok [OF assms(2,3), of t] assms(1)
  by (auto simp: guac_socket_select_def readable_def)

end

end
