(* ===== verification/Transports.thy ===== *)
theory Transports
  imports Socket
begin

text \<open>
  The transports a socket is built on: \<open>libguac/src/socket-boost-tcp.c\<close> (a TCP or TLS stream of
  boost::asio with two mutexes) and \<open>libguac/src/socket-tee.c\<close> (everything written goes to two
  sockets).

  boost::asio and the network are outside the program. A stream of it is the record
  \<open>asio_stream\<close>: the bytes it has accepted, the segments that are still to arrive, and the
  network's behaviour as a function of the number of calls made so far. The documented behaviour
  of \<open>boost::asio::write\<close> is that it sends the whole buffer unless an error stops it, and returns
  the number of bytes transferred; of \<open>read_some\<close>, that it returns at least one and at most
  \<open>count\<close> of the bytes that have arrived, or an error at the end of the stream.

  The interpretations \<open>tcp\<close>, \<open>tee_first\<close> and \<open>tee_second\<close> show that both are byte sinks.
\<close>

section \<open>The asio stream\<close>

record asio_stream =
  sent :: "char list"
  arriving :: "char list list"
  calls :: nat
  fault :: "nat \<Rightarrow> nat option"

definition asio_write :: "asio_stream \<Rightarrow> char list \<Rightarrow> bool \<times> nat \<times> asio_stream" where
  "asio_write c buf =
     (case fault c (calls c) of
        None \<Rightarrow> (False, length buf, c\<lparr>sent := sent c @ buf, calls := Suc (calls c)\<rparr>)
      | Some k \<Rightarrow> (True, min k (length buf),
                   c\<lparr>sent := sent c @ take k buf, calls := Suc (calls c)\<rparr>))"

definition asio_read_some :: "asio_stream \<Rightarrow> nat \<Rightarrow> bool \<times> char list \<times> asio_stream" where
  "asio_read_some c count =
     (case arriving c of
        [] \<Rightarrow> (True, [], c)
      | seg # segs \<Rightarrow>
          (False, take count seg,
           c\<lparr>arriving := (if length seg \<le> count then segs else drop count seg # segs)\<rparr>))"

text \<open>What waiting for data ends with: nothing in time, data, or an error.\<close>

datatype asio_wait = Wait_Timeout | Wait_Ready | Wait_Error

section \<open>The TCP socket\<close>

record guac_socket_boost_tcp_data =
  tcp_socket :: asio_stream
  tcp_ssl_socket :: asio_stream
  socket_mutex :: bool
  tcp_is_ssl :: bool
  tcp_wait :: "nat \<Rightarrow> asio_wait"
  tcp_waits :: nat

definition tcp_stream :: "guac_socket_boost_tcp_data \<Rightarrow> asio_stream" where
  "tcp_stream d = (if tcp_is_ssl d then tcp_ssl_socket d else tcp_socket d)"

definition tcp_put_stream ::
  "guac_socket_boost_tcp_data \<Rightarrow> asio_stream \<Rightarrow> guac_socket_boost_tcp_data" where
  "tcp_put_stream d c = (if tcp_is_ssl d then d\<lparr>tcp_ssl_socket := c\<rparr> else d\<lparr>tcp_socket := c\<rparr>)"

definition tcp_read_handler ::
  "guac_socket_boost_tcp_data \<Rightarrow> nat \<Rightarrow> (int \<times> char list \<times> guac_socket_boost_tcp_data) option" where
  "tcp_read_handler d count =
     (let (err, bs, c) = asio_read_some (tcp_stream d) count
      in Some (int (length bs), bs, tcp_put_stream d c))"

definition tcp_write_handler ::
  "guac_socket_boost_tcp_data \<Rightarrow> char list \<Rightarrow> (int \<times> guac_socket_boost_tcp_data) option" where
  "tcp_write_handler d buf =
     (let (err, n, c) = asio_write (tcp_stream d) buf in Some (int n, tcp_put_stream d c))"

definition tcp_lock_handler ::
  "guac_socket_boost_tcp_data \<Rightarrow> guac_socket_boost_tcp_data option" where
  "tcp_lock_handler d = (if socket_mutex d then None else Some (d\<lparr>socket_mutex := True\<rparr>))"

definition tcp_unlock_handler :: "guac_socket_boost_tcp_data \<Rightarrow> guac_socket_boost_tcp_data" where
  "tcp_unlock_handler d = d\<lparr>socket_mutex := False\<rparr>"

definition tcp_flush_handler ::
  "guac_socket_boost_tcp_data \<Rightarrow> (int \<times> guac_socket_boost_tcp_data) option" where
  "tcp_flush_handler d = Some (0, d)"

definition tcp_select_handler ::
  "guac_socket_boost_tcp_data \<Rightarrow> int \<Rightarrow> (int \<times> guac_socket_boost_tcp_data) option" where
  "tcp_select_handler d usec_timeout =
     (let w = tcp_wait d (tcp_waits d); d = d\<lparr>tcp_waits := Suc (tcp_waits d)\<rparr> in
      case w of Wait_Timeout \<Rightarrow> Some (0, d) | Wait_Error \<Rightarrow> Some (-1, d) | Wait_Ready \<Rightarrow> Some (1, d))"

text \<open>The constructors, for a plain and for a TLS stream; the other stream stays unused.\<close>

definition guac_socket_boost_tcp_socket ::
  "asio_stream \<Rightarrow> bool \<Rightarrow> (nat \<Rightarrow> asio_wait) \<Rightarrow> (nat \<Rightarrow> int) \<Rightarrow>
   guac_socket_boost_tcp_data guac_socket" where
  "guac_socket_boost_tcp_socket c ssl waits clk =
     (guac_socket_alloc
        \<lparr>tcp_socket = c, tcp_ssl_socket = c, socket_mutex = False, tcp_is_ssl = ssl,
         tcp_wait = waits, tcp_waits = 0\<rparr> clk)
       \<lparr>read_handler := Some tcp_read_handler, write_handler := Some tcp_write_handler,
        select_handler := Some tcp_select_handler, flush_handler := Some tcp_flush_handler,
        lock_handler := Some tcp_lock_handler, unlock_handler := Some tcp_unlock_handler,
        free_handler := Some Some\<rparr>"

text \<open>A TCP transport is healthy while the network raises no further fault.\<close>

definition tcp_sent :: "guac_socket_boost_tcp_data \<Rightarrow> char list" where
  "tcp_sent d = sent (tcp_stream d)"

definition tcp_up :: "guac_socket_boost_tcp_data \<Rightarrow> bool" where
  "tcp_up d \<longleftrightarrow> (\<forall>n \<ge> calls (tcp_stream d). fault (tcp_stream d) n = None)"

lemma tcp_put_stream_simps [simp]:
  "tcp_stream (tcp_put_stream d c) = c" "socket_mutex (tcp_put_stream d c) = socket_mutex d"
  "tcp_stream (d\<lparr>socket_mutex := b\<rparr>) = tcp_stream d"
  "tcp_is_ssl (tcp_put_stream d c) = tcp_is_ssl d"
  by (simp_all add: tcp_stream_def tcp_put_stream_def)

interpretation tcp: byte_sink tcp_write_handler tcp_lock_handler tcp_unlock_handler tcp_sent tcp_up
  socket_mutex
proof (unfold_locales, goal_cases)
  case (1 d buf)
  then show ?case by (auto simp: tcp_write_handler_def asio_write_def tcp_up_def tcp_sent_def)
next
  case (2 d)
  then show ?case by (auto simp: tcp_lock_handler_def tcp_up_def tcp_sent_def)
next
  case (3 d)
  then show ?case by (auto simp: tcp_unlock_handler_def tcp_up_def tcp_sent_def)
qed

lemma tcp_socket_wired:
  "tcp.is_wired (guac_socket_boost_tcp_socket c ssl waits clk)"
  "ready (guac_socket_boost_tcp_socket c ssl waits clk) = 0"
  "\<not> socket_mutex (sk_data (guac_socket_boost_tcp_socket c ssl waits clk))"
  "tcp_stream (sk_data (guac_socket_boost_tcp_socket c ssl waits clk)) = c"
  by (simp_all add: guac_socket_boost_tcp_socket_def wired_def guac_socket_alloc_def tcp_stream_def)

text \<open>
  What a TCP socket delivers: the segments that are still to arrive. It is ready when none of
  them is empty and the waits report data.
\<close>

definition tcp_pending :: "guac_socket_boost_tcp_data \<Rightarrow> char list" where
  "tcp_pending d = concat (arriving (tcp_stream d))"

definition tcp_live :: "guac_socket_boost_tcp_data \<Rightarrow> bool" where
  "tcp_live d \<longleftrightarrow> [] \<notin> set (arriving (tcp_stream d))
     \<and> (\<forall>n \<ge> tcp_waits d. tcp_wait d n = Wait_Ready)"

lemma tcp_put_stream_waits [simp]:
  "tcp_waits (tcp_put_stream d c) = tcp_waits d" "tcp_wait (tcp_put_stream d c) = tcp_wait d"
  "tcp_stream (d\<lparr>tcp_waits := n\<rparr>) = tcp_stream d"
  by (simp_all add: tcp_stream_def tcp_put_stream_def)

interpretation tcp_in: byte_source tcp_read_handler tcp_select_handler tcp_pending tcp_live
proof (unfold_locales, goal_cases)
  case (1 d count)
  then obtain seg segs where a: "arriving (tcp_stream d) = seg # segs" "seg \<noteq> []" "[] \<notin> set segs"
    by (cases "arriving (tcp_stream d)") (auto simp: tcp_pending_def tcp_live_def)
  with 1 show ?case
    by (cases "length seg \<le> count")
      (auto simp: tcp_read_handler_def asio_read_some_def tcp_pending_def tcp_live_def)
next
  case (2 d t)
  then show ?case by (auto simp: tcp_select_handler_def tcp_pending_def tcp_live_def Let_def)
qed

lemma tcp_socket_readable:
  "tcp_in.is_readable (guac_socket_boost_tcp_socket c ssl waits clk)"
  "sk_data (guac_socket_boost_tcp_socket c ssl waits clk) =
     \<lparr>tcp_socket = c, tcp_ssl_socket = c, socket_mutex = False, tcp_is_ssl = ssl,
      tcp_wait = waits, tcp_waits = 0\<rparr>"
  by (simp_all add: guac_socket_boost_tcp_socket_def readable_def guac_socket_alloc_def)

section \<open>The tee socket\<close>

type_synonym ('a, 'b) guac_socket_tee_data = "'a guac_socket \<times> 'b guac_socket"

definition tee_read_handler ::
  "('a, 'b) guac_socket_tee_data \<Rightarrow> nat \<Rightarrow>
   (int \<times> char list \<times> ('a, 'b) guac_socket_tee_data) option" where
  "tee_read_handler d count =
     (case guac_socket_read (fst d) count of None \<Rightarrow> None
      | Some (n, bs, p) \<Rightarrow> Some (n, bs, (p, snd d)))"

definition tee_write_handler ::
  "('a, 'b) guac_socket_tee_data \<Rightarrow> char list \<Rightarrow> (int \<times> ('a, 'b) guac_socket_tee_data) option" where
  "tee_write_handler d buf =
     (case guac_socket_write (snd d) buf of None \<Rightarrow> None
      | Some (_, q) \<Rightarrow>
          (case guac_socket_write (fst d) buf of None \<Rightarrow> None
           | Some (r, p) \<Rightarrow> Some (if r \<noteq> 0 then -1 else int (length buf), (p, q))))"

definition tee_flush_handler ::
  "('a, 'b) guac_socket_tee_data \<Rightarrow> (int \<times> ('a, 'b) guac_socket_tee_data) option" where
  "tee_flush_handler d =
     (case guac_socket_flush (snd d) of None \<Rightarrow> None
      | Some (_, q) \<Rightarrow>
          (case guac_socket_flush (fst d) of None \<Rightarrow> None | Some (r, p) \<Rightarrow> Some (r, (p, q))))"

definition tee_lock_handler ::
  "('a, 'b) guac_socket_tee_data \<Rightarrow> ('a, 'b) guac_socket_tee_data option" where
  "tee_lock_handler d =
     (case guac_socket_instruction_begin (fst d) of None \<Rightarrow> None | Some p \<Rightarrow> Some (p, snd d))"

definition tee_unlock_handler ::
  "('a, 'b) guac_socket_tee_data \<Rightarrow> ('a, 'b) guac_socket_tee_data" where
  "tee_unlock_handler d = (guac_socket_instruction_end (fst d), snd d)"

definition tee_select_handler ::
  "('a, 'b) guac_socket_tee_data \<Rightarrow> int \<Rightarrow> (int \<times> ('a, 'b) guac_socket_tee_data) option" where
  "tee_select_handler d usec_timeout =
     (case guac_socket_select (fst d) usec_timeout of None \<Rightarrow> None
      | Some (r, p) \<Rightarrow> Some (r, (p, snd d)))"

definition tee_free_handler ::
  "('a, 'b) guac_socket_tee_data \<Rightarrow> ('a, 'b) guac_socket_tee_data option" where
  "tee_free_handler d =
     (case guac_socket_free (fst d) of None \<Rightarrow> None
      | Some p \<Rightarrow> (case guac_socket_free (snd d) of None \<Rightarrow> None | Some q \<Rightarrow> Some (p, q)))"

definition guac_socket_tee ::
  "'a guac_socket \<Rightarrow> 'b guac_socket \<Rightarrow> (nat \<Rightarrow> int) \<Rightarrow> ('a, 'b) guac_socket_tee_data guac_socket"
where
  "guac_socket_tee primary secondary clk =
     (guac_socket_alloc (primary, secondary) clk)
       \<lparr>read_handler := Some tee_read_handler, write_handler := Some tee_write_handler,
        select_handler := Some tee_select_handler, flush_handler := Some tee_flush_handler,
        lock_handler := Some tee_lock_handler, unlock_handler := Some tee_unlock_handler,
        free_handler := Some tee_free_handler\<rparr>"

text \<open>
  A tee is healthy when both of its sockets are. It is a byte sink in two ways: seen from its
  first socket and seen from its second.
\<close>

definition tee_ok ::
  "('a guac_socket \<Rightarrow> bool) \<Rightarrow> ('a \<Rightarrow> bool) \<Rightarrow> ('b guac_socket \<Rightarrow> bool) \<Rightarrow> ('b \<Rightarrow> bool) \<Rightarrow>
   ('a, 'b) guac_socket_tee_data \<Rightarrow> bool" where
  "tee_ok w1 ok1 w2 ok2 d \<longleftrightarrow>
     w1 (fst d) \<and> ok1 (sk_data (fst d)) \<and> w2 (snd d) \<and> ok2 (sk_data (snd d))"

locale tee_pair =
  one: byte_sink put1 lock1 unlock1 got1 ok1 held1 +
  two: byte_sink put2 lock2 unlock2 got2 ok2 held2
  for put1 :: "'a \<Rightarrow> char list \<Rightarrow> (int \<times> 'a) option" and lock1 unlock1 got1 ok1 held1
  and put2 :: "'b \<Rightarrow> char list \<Rightarrow> (int \<times> 'b) option" and lock2 unlock2 got2 ok2 held2
begin

abbreviation fine :: "('a, 'b) guac_socket_tee_data \<Rightarrow> bool" where
  "fine \<equiv> tee_ok one.is_wired ok1 two.is_wired ok2"

lemma tee_put:
  assumes "fine d"
  shows "\<exists>d'. tee_write_handler d buf = Some (int (length buf), d') \<and> fine d'
     \<and> held1 (sk_data (fst d')) = held1 (sk_data (fst d))
     \<and> got1 (sk_data (fst d')) = got1 (sk_data (fst d)) @ buf
     \<and> got2 (sk_data (snd d')) = got2 (sk_data (snd d)) @ buf"
proof -
  have w: "one.is_wired (fst d)" "ok1 (sk_data (fst d))" "two.is_wired (snd d)"
    "ok2 (sk_data (snd d))" using assms by (auto simp: tee_ok_def)
  from one.write_ok [OF w(1,2), of buf] obtain p where
    "guac_socket_write (fst d) buf = Some (0, p)" "one.is_wired p" "ok1 (sk_data p)"
    "held1 (sk_data p) = held1 (sk_data (fst d))"
    "got1 (sk_data p) = got1 (sk_data (fst d)) @ buf" by blast
  moreover from two.write_ok [OF w(3,4), of buf] obtain q where
    "guac_socket_write (snd d) buf = Some (0, q)" "two.is_wired q" "ok2 (sk_data q)"
    "got2 (sk_data q) = got2 (sk_data (snd d)) @ buf" by blast
  ultimately show ?thesis by (simp add: tee_write_handler_def tee_ok_def)
qed

lemma tee_lock:
  assumes "fine d" and "\<not> held1 (sk_data (fst d))"
  shows "\<exists>d'. tee_lock_handler d = Some d' \<and> fine d' \<and> held1 (sk_data (fst d'))
     \<and> got1 (sk_data (fst d')) = got1 (sk_data (fst d)) \<and> snd d' = snd d"
  using assms one.lock_ok [of "sk_data (fst d)"]
  by (auto simp: tee_lock_handler_def tee_ok_def guac_socket_instruction_begin_def wired_def)

lemma tee_unlock:
  assumes "fine d" and "held1 (sk_data (fst d))"
  shows "fine (tee_unlock_handler d) \<and> \<not> held1 (sk_data (fst (tee_unlock_handler d)))
     \<and> got1 (sk_data (fst (tee_unlock_handler d))) = got1 (sk_data (fst d))
     \<and> snd (tee_unlock_handler d) = snd d"
  using assms one.unlock_ok [of "sk_data (fst d)"]
  by (auto simp: tee_unlock_handler_def tee_ok_def guac_socket_instruction_end_def wired_def)

end

sublocale tee_pair \<subseteq> tee_first: byte_sink tee_write_handler tee_lock_handler tee_unlock_handler
  "\<lambda>d. got1 (sk_data (fst d))" fine "\<lambda>d. held1 (sk_data (fst d))"
proof (unfold_locales, goal_cases)
  case (1 d buf) then show ?case using tee_put [of d buf] by fastforce
next
  case (2 d) then show ?case using tee_lock [of d] by blast
next
  case (3 d) then show ?case using tee_unlock [of d] by blast
qed

sublocale tee_pair \<subseteq> tee_second: byte_sink tee_write_handler tee_lock_handler
  tee_unlock_handler "\<lambda>d. got2 (sk_data (snd d))" fine "\<lambda>d. held1 (sk_data (fst d))"
proof (unfold_locales, goal_cases)
  case (1 d buf) then show ?case using tee_put [of d buf] by fastforce
next
  case (2 d) then show ?case using tee_lock [of d] by fastforce
next
  case (3 d) then show ?case using tee_unlock [of d] by fastforce
qed

text \<open>A tee over two TCP sockets, as the server builds it to record a session.\<close>

interpretation tcp_tee: tee_pair tcp_write_handler tcp_lock_handler tcp_unlock_handler tcp_sent
  tcp_up socket_mutex tcp_write_handler tcp_lock_handler tcp_unlock_handler tcp_sent
  tcp_up socket_mutex
  by unfold_locales

section \<open>Properties\<close>

text \<open>
  \<open>guac_socket_write_base64\<close> followed by \<open>guac_socket_flush_base64\<close> on a TCP socket
  that works returns zero from both, sends exactly the base64 text of the data and leaves nothing
  staged, for data of every length.
\<close>

theorem tcp_base64_sent:
  assumes "\<forall>n \<ge> calls c. fault c n = None"
  shows "\<exists>s1 s2. guac_socket_write_base64 (guac_socket_boost_tcp_socket c ssl waits clk) bs
       = Some (0, s1)
     \<and> guac_socket_flush_base64 s1 = Some (0, s2) \<and> ready s2 = 0
     \<and> tcp_sent (sk_data s2) = sent c @ base64_encode bs"
  using tcp.base64_ok [OF tcp_socket_wired(1) _ tcp_socket_wired(2), of c ssl waits clk bs]
    assms tcp_socket_wired(4) [of c ssl waits clk]
  by (auto simp: tcp_up_def tcp_sent_def)

definition idle_stream :: asio_stream where
  "idle_stream = \<lparr>sent = [], arriving = [], calls = 0, fault = (\<lambda>_. None)\<rparr>"

theorem tcp_base64_sent_witness:
  "\<exists>s1 s2. guac_socket_write_base64
       (guac_socket_boost_tcp_socket idle_stream False (\<lambda>_. Wait_Ready) (\<lambda>_. 0))
       [77, 97, 110, 33] = Some (0, s1)
     \<and> guac_socket_flush_base64 s1 = Some (0, s2) \<and> ready s2 = 0
     \<and> tcp_sent (sk_data s2) = ''TWFuIQ==''"
proof -
  have "base64_encode [77, 97, 110, 33] = ''TWFuIQ==''" by code_simp
  then show ?thesis
    using tcp_base64_sent [of idle_stream False "\<lambda>_. Wait_Ready" "\<lambda>_. 0" "[77, 97, 110, 33]"]
    by (simp add: idle_stream_def)
qed

text \<open>
  Duplication by a tee: whatever is written to a tee over two TCP sockets that work reaches
  both of them, whole and in order, and the write reports success.
\<close>

theorem tee_duplicates:
  assumes "\<forall>n \<ge> calls c1. fault c1 n = None" and "\<forall>n \<ge> calls c2. fault c2 n = None"
  shows "\<exists>s'. guac_socket_write
       (guac_socket_tee (guac_socket_boost_tcp_socket c1 ssl1 w1 clk)
          (guac_socket_boost_tcp_socket c2 ssl2 w2 clk) clk) buf = Some (0, s')
     \<and> tcp_sent (sk_data (fst (sk_data s'))) = sent c1 @ buf
     \<and> tcp_sent (sk_data (snd (sk_data s'))) = sent c2 @ buf"
proof -
  let ?s = "guac_socket_tee (guac_socket_boost_tcp_socket c1 ssl1 w1 clk)
          (guac_socket_boost_tcp_socket c2 ssl2 w2 clk) clk"
  have w: "wired tee_write_handler tee_lock_handler tee_unlock_handler ?s"
    by (simp add: wired_def guac_socket_tee_def guac_socket_alloc_def)
  have d: "sk_data ?s = (guac_socket_boost_tcp_socket c1 ssl1 w1 clk,
     guac_socket_boost_tcp_socket c2 ssl2 w2 clk)"
    by (simp add: guac_socket_tee_def guac_socket_alloc_def)
  have f: "tcp_tee.fine (sk_data ?s)"
    using assms by (simp add: d tee_ok_def tcp_socket_wired tcp_up_def)
  from tcp_tee.tee_first.write_ok [OF w f, of buf] tcp_tee.tee_second.write_ok [OF w f, of buf]
  show ?thesis by (auto simp: d tcp_sent_def tcp_socket_wired)
qed

theorem tee_duplicates_witness:
  "\<exists>s'. guac_socket_write
       (guac_socket_tee
          (guac_socket_boost_tcp_socket idle_stream False (\<lambda>_. Wait_Ready) (\<lambda>_. 0))
          (guac_socket_boost_tcp_socket idle_stream True (\<lambda>_. Wait_Ready) (\<lambda>_. 0)) (\<lambda>_. 0))
       ''4.sync;'' = Some (0, s')
     \<and> tcp_sent (sk_data (fst (sk_data s'))) = ''4.sync;''
     \<and> tcp_sent (sk_data (snd (sk_data s'))) = ''4.sync;''"
  using tee_duplicates [of idle_stream idle_stream False "\<lambda>_. Wait_Ready" "\<lambda>_. 0" True
      "\<lambda>_. Wait_Ready" "''4.sync;''"]
  by (simp add: idle_stream_def)

lemma tcp_write_stuck:
  assumes "guac_socket_write s buf = Some r"
  shows "write_handler s = Some tcp_write_handler \<longrightarrow>
     (\<forall>n \<ge> calls (tcp_stream (sk_data s)). fault (tcp_stream (sk_data s)) n = Some 0) \<longrightarrow> buf = []"
proof (rule guac_socket_write.raw_induct [OF _ assms])
  fix f and s :: "guac_socket_boost_tcp_data guac_socket" and buf r
  assume IH: "\<And>s buf r. f s buf = Some r \<Longrightarrow> write_handler s = Some tcp_write_handler \<longrightarrow>
     (\<forall>n \<ge> calls (tcp_stream (sk_data s)). fault (tcp_stream (sk_data s)) n = Some 0) \<longrightarrow> buf = []"
    and body: "(if buf = [] then Some (0, s)
      else case socket_write_once s buf of
        None \<Rightarrow> None
      | Some (written, s') \<Rightarrow>
          if written = -1 then Some (1, s')
          else if written < 0 \<or> int (length buf) < written then None
          else f s' (drop (nat written) buf)) = Some r"
  show "write_handler s = Some tcp_write_handler \<longrightarrow>
     (\<forall>n \<ge> calls (tcp_stream (sk_data s)). fault (tcp_stream (sk_data s)) n = Some 0) \<longrightarrow> buf = []"
  proof (intro impI, rule ccontr)
    assume w: "write_handler s = Some tcp_write_handler"
      and z: "\<forall>n \<ge> calls (tcp_stream (sk_data s)). fault (tcp_stream (sk_data s)) n = Some 0"
      and ne: "buf \<noteq> []"
    obtain s' where s': "socket_write_once s buf = Some (0, s')"
      "write_handler s' = Some tcp_write_handler"
      "\<forall>n \<ge> calls (tcp_stream (sk_data s')). fault (tcp_stream (sk_data s')) n = Some 0"
      using w z by (auto simp: socket_write_once_def socket_timestamp_current_def Let_def
          tcp_write_handler_def asio_write_def)
    then have "f s' buf = Some r" using body ne by simp
    with IH s'(2,3) ne show False by blast
  qed
qed

text \<open>
  C6. A broken connection: when the network accepts nothing more (every \<open>boost::asio::write\<close>
  ends with an error and zero bytes), the handler reports 0 instead of -1 and
  \<open>guac_socket_write\<close> of any non-empty data never returns.
\<close>

theorem tcp_broken_never_returns:
  assumes "\<forall>n \<ge> calls c. fault c n = Some 0" and "buf \<noteq> []"
  shows "guac_socket_write (guac_socket_boost_tcp_socket c ssl waits clk) buf = None"
proof (rule ccontr)
  assume "guac_socket_write (guac_socket_boost_tcp_socket c ssl waits clk) buf \<noteq> None"
  then obtain r where
    "guac_socket_write (guac_socket_boost_tcp_socket c ssl waits clk) buf = Some r" by blast
  from tcp_write_stuck [OF this] show False
    using assms tcp_socket_wired [of c ssl waits clk] by (simp add: wired_def)
qed

theorem tcp_broken_never_returns_witness:
  "guac_socket_write (guac_socket_boost_tcp_socket (idle_stream\<lparr>fault := (\<lambda>_. Some 0)\<rparr>)
      False (\<lambda>_. Wait_Ready) (\<lambda>_. 0)) ''3.nop;'' = None"
  by (rule tcp_broken_never_returns) simp_all

end
