(* ===== verification/Protocol.thy ===== *)
theory Protocol
  imports Transports
begin

text \<open>
  \<open>libguac/src/protocol.c\<close>: the functions that write Guacamole instructions to a socket, and the
  base64 decoder.

  \<^item> An argument that is a stream, layer or object is its \<open>index\<close>, the one field these functions
    read; enumeration values are their integers; a null-terminated array of strings is a list.
  \<^item> A \<open>double\<close> is a value of any type \<open>'d\<close>, and \<open>fmt\<close> is what \<open>snprintf\<close> makes of it with
    \<open>%.16g\<close>.
  \<^item> A chain of writes joined by \<open>||\<close> is \<open>run_writes\<close>: it stops at the first write that fails.

  \<open>encode_instruction\<close> is the wire format, stated on its own; the lemmas show that each function
  writes exactly the instruction with its opcode and arguments, and gives the lock back.
\<close>

section \<open>Writing one instruction\<close>

fun run_writes ::
  "('s guac_socket \<Rightarrow> (int \<times> 's guac_socket) option) list \<Rightarrow> 's guac_socket \<Rightarrow>
    (int \<times> 's guac_socket) option" where
  "run_writes [] s = Some (0, s)"
| "run_writes (w # ws) s =
     (case w s of None \<Rightarrow> None
      | Some (r, s') \<Rightarrow> if r \<noteq> 0 then Some (1, s') else run_writes ws s')"

text \<open>The frame of every function: take the lock, run the writes, give the lock back.\<close>

definition locked_write ::
  "('s guac_socket \<Rightarrow> (int \<times> 's guac_socket) option) \<Rightarrow> 's guac_socket \<Rightarrow>
    (int \<times> 's guac_socket) option" where
  "locked_write f s =
     (case guac_socket_instruction_begin s of None \<Rightarrow> None
      | Some s1 \<Rightarrow>
          (case f s1 of None \<Rightarrow> None
           | Some (ret_val, s2) \<Rightarrow> Some (ret_val, guac_socket_instruction_end s2)))"

abbreviation instruction ::
  "('s guac_socket \<Rightarrow> (int \<times> 's guac_socket) option) list \<Rightarrow> 's guac_socket \<Rightarrow>
    (int \<times> 's guac_socket) option" where
  "instruction ws \<equiv> locked_write (run_writes ws)"

abbreviation wr :: "char list \<Rightarrow> 's guac_socket \<Rightarrow> (int \<times> 's guac_socket) option" where
  "wr str \<equiv> \<lambda>s. guac_socket_write_string s str"

definition write_length_string :: "'s guac_socket \<Rightarrow> char list \<Rightarrow> (int \<times> 's guac_socket) option" where
  "write_length_string s str =
     run_writes [\<lambda>s. guac_socket_write_int s (int (guac_utf8_strlen str)), wr ''.'', wr str] s"

definition write_length_int :: "'s guac_socket \<Rightarrow> int \<Rightarrow> (int \<times> 's guac_socket) option" where
  "write_length_int s i = write_length_string s (format_int i)"

definition write_length_double ::
  "('d \<Rightarrow> char list) \<Rightarrow> 's guac_socket \<Rightarrow> 'd \<Rightarrow> (int \<times> 's guac_socket) option" where
  "write_length_double fmt s d = write_length_string s (fmt d)"

abbreviation wr_str :: "char list \<Rightarrow> 's guac_socket \<Rightarrow> (int \<times> 's guac_socket) option" where
  "wr_str str \<equiv> \<lambda>s. write_length_string s str"

abbreviation wr_int :: "int \<Rightarrow> 's guac_socket \<Rightarrow> (int \<times> 's guac_socket) option" where
  "wr_int i \<equiv> \<lambda>s. write_length_int s i"

abbreviation wr_dbl ::
  "('d \<Rightarrow> char list) \<Rightarrow> 'd \<Rightarrow> 's guac_socket \<Rightarrow> (int \<times> 's guac_socket) option" where
  "wr_dbl fmt d \<equiv> \<lambda>s. write_length_double fmt s d"

section \<open>The instructions\<close>

text \<open>\<open>args\<close> and \<open>connect\<close> write a list of strings; they fail with -1.\<close>

fun write_arg_list :: "'s guac_socket \<Rightarrow> char list list \<Rightarrow> (int \<times> 's guac_socket) option" where
  "write_arg_list s [] = guac_socket_write_string s '';''"
| "write_arg_list s (arg # args) =
     (case guac_socket_write_string s '','' of None \<Rightarrow> None
      | Some (r, s1) \<Rightarrow>
          if r \<noteq> 0 then Some (-1, s1)
          else (case write_length_string s1 arg of None \<Rightarrow> None
             | Some (r, s2) \<Rightarrow> if r \<noteq> 0 then Some (-1, s2) else write_arg_list s2 args))"

definition send_args_unlocked :: "'s guac_socket \<Rightarrow> char list list \<Rightarrow> (int \<times> 's guac_socket) option" where
  "send_args_unlocked s args =
     (case guac_socket_write_string s ''4.args'' of None \<Rightarrow> None
      | Some (r, s1) \<Rightarrow> if r \<noteq> 0 then Some (-1, s1) else write_arg_list s1 args)"

definition guac_protocol_send_args ::
  "'s guac_socket \<Rightarrow> char list list \<Rightarrow> (int \<times> 's guac_socket) option" where
  "guac_protocol_send_args s args = locked_write (\<lambda>s. send_args_unlocked s args) s"

definition send_connect_unlocked ::
  "'s guac_socket \<Rightarrow> char list list \<Rightarrow> (int \<times> 's guac_socket) option" where
  "send_connect_unlocked s args =
     (case guac_socket_write_string s ''7.connect'' of None \<Rightarrow> None
      | Some (r, s1) \<Rightarrow> if r \<noteq> 0 then Some (-1, s1) else write_arg_list s1 args)"

definition guac_protocol_send_connect ::
  "'s guac_socket \<Rightarrow> char list list \<Rightarrow> (int \<times> 's guac_socket) option" where
  "guac_protocol_send_connect s args = locked_write (\<lambda>s. send_connect_unlocked s args) s"

definition guac_protocol_send_blob ::
  "'s guac_socket \<Rightarrow> int \<Rightarrow> u8 list \<Rightarrow> (int \<times> 's guac_socket) option" where
  "guac_protocol_send_blob s stream data =
     (let base64_length = (int (length data) + 2) div 3 * 4 in
      instruction
        [wr ''4.blob,'', wr_int stream, wr '','', \<lambda>s. guac_socket_write_int s base64_length,
         wr ''.'', \<lambda>s. guac_socket_write_base64 s data, \<lambda>s. guac_socket_flush_base64 s,
         wr '';''] s)"

text \<open>
  \<open>vguac_protocol_send_log\<close>: \<open>formatted\<close> is the text \<open>vsnprintf\<close> produces; the buffer of 4096
  bytes keeps its first 4095.
\<close>

definition vguac_protocol_send_log ::
  "'s guac_socket \<Rightarrow> char list \<Rightarrow> (int \<times> 's guac_socket) option" where
  "vguac_protocol_send_log s formatted =
     (let message = take 4095 formatted in
      instruction [wr ''3.log,'', wr_str message, wr '';''] s)"

definition guac_protocol_send_log ::
  "'s guac_socket \<Rightarrow> char list \<Rightarrow> (int \<times> 's guac_socket) option" where
  "guac_protocol_send_log s formatted = vguac_protocol_send_log s formatted"

definition guac_protocol_send_ack ::
  "'s guac_socket \<Rightarrow> int \<Rightarrow> char list \<Rightarrow> int \<Rightarrow>
    (int \<times> 's guac_socket) option" where
  "guac_protocol_send_ack s stream err_text status =
     instruction
        [wr ''3.ack,'', wr_int stream, wr '','', wr_str err_text, wr '','',
         wr_int status, wr '';''] s"

definition guac_protocol_send_arc ::
  "('d \<Rightarrow> char list) \<Rightarrow> 's guac_socket \<Rightarrow> int \<Rightarrow> int \<Rightarrow> int \<Rightarrow> int \<Rightarrow> 'd \<Rightarrow> 'd \<Rightarrow> bool \<Rightarrow>
    (int \<times> 's guac_socket) option" where
  "guac_protocol_send_arc fmt s layer x y radius startAngle endAngle negative =
     instruction
        [wr ''3.arc,'', wr_int layer, wr '','', wr_int x, wr '','', wr_int y, wr '','',
         wr_int radius, wr '','', wr_dbl fmt startAngle, wr '','', wr_dbl fmt endAngle,
         wr '','', wr (if negative then ''1.1'' else ''1.0''), wr '';''] s"

definition guac_protocol_send_audio ::
  "'s guac_socket \<Rightarrow> int \<Rightarrow> char list \<Rightarrow>
    (int \<times> 's guac_socket) option" where
  "guac_protocol_send_audio s stream mimetype =
     instruction
        [wr ''5.audio,'', wr_int stream, wr '','', wr_str mimetype, wr '';''] s"

definition guac_protocol_send_body ::
  "'s guac_socket \<Rightarrow> int \<Rightarrow> int \<Rightarrow> char list \<Rightarrow> char list \<Rightarrow>
    (int \<times> 's guac_socket) option" where
  "guac_protocol_send_body s object stream mimetype name =
     instruction
        [wr ''4.body,'', wr_int object, wr '','', wr_int stream, wr '','',
         wr_str mimetype, wr '','', wr_str name, wr '';''] s"

definition guac_protocol_send_cfill ::
  "'s guac_socket \<Rightarrow> int \<Rightarrow> int \<Rightarrow> int \<Rightarrow> int \<Rightarrow> int \<Rightarrow> int \<Rightarrow>
    (int \<times> 's guac_socket) option" where
  "guac_protocol_send_cfill s mode layer r g b a =
     instruction
        [wr ''5.cfill,'', wr_int mode, wr '','', wr_int layer, wr '','', wr_int r,
         wr '','', wr_int g, wr '','', wr_int b, wr '','', wr_int a, wr '';''] s"

definition guac_protocol_send_close ::
  "'s guac_socket \<Rightarrow> int \<Rightarrow>
    (int \<times> 's guac_socket) option" where
  "guac_protocol_send_close s layer =
     instruction
        [wr ''5.close,'', wr_int layer, wr '';''] s"

definition guac_protocol_send_clip ::
  "'s guac_socket \<Rightarrow> int \<Rightarrow>
    (int \<times> 's guac_socket) option" where
  "guac_protocol_send_clip s layer =
     instruction
        [wr ''4.clip,'', wr_int layer, wr '';''] s"

definition guac_protocol_send_clipboard ::
  "'s guac_socket \<Rightarrow> int \<Rightarrow> char list \<Rightarrow>
    (int \<times> 's guac_socket) option" where
  "guac_protocol_send_clipboard s stream mimetype =
     instruction
        [wr ''9.clipboard,'', wr_int stream, wr '','', wr_str mimetype, wr '';''] s"

definition guac_protocol_send_copy ::
  "'s guac_socket \<Rightarrow> int \<Rightarrow> int \<Rightarrow> int \<Rightarrow> int \<Rightarrow> int \<Rightarrow> int \<Rightarrow> int \<Rightarrow> int \<Rightarrow> int \<Rightarrow>
    (int \<times> 's guac_socket) option" where
  "guac_protocol_send_copy s srcl srcx srcy w h mode dstl dstx dsty =
     instruction
        [wr ''4.copy,'', wr_int srcl, wr '','', wr_int srcx, wr '','', wr_int srcy,
         wr '','', wr_int w, wr '','', wr_int h, wr '','', wr_int mode, wr '','',
         wr_int dstl, wr '','', wr_int dstx, wr '','', wr_int dsty, wr '';''] s"

definition guac_protocol_send_cstroke ::
  "'s guac_socket \<Rightarrow> int \<Rightarrow> int \<Rightarrow> int \<Rightarrow> int \<Rightarrow> int \<Rightarrow> int \<Rightarrow> int \<Rightarrow> int \<Rightarrow> int \<Rightarrow>
    (int \<times> 's guac_socket) option" where
  "guac_protocol_send_cstroke s mode layer cap join thickness r g b a =
     instruction
        [wr ''7.cstroke,'', wr_int mode, wr '','', wr_int layer, wr '','', wr_int cap,
         wr '','', wr_int join, wr '','', wr_int thickness, wr '','', wr_int r,
         wr '','', wr_int g, wr '','', wr_int b, wr '','', wr_int a, wr '';''] s"

definition guac_protocol_send_cursor ::
  "'s guac_socket \<Rightarrow> int \<Rightarrow> int \<Rightarrow> int \<Rightarrow> int \<Rightarrow> int \<Rightarrow> int \<Rightarrow> int \<Rightarrow>
    (int \<times> 's guac_socket) option" where
  "guac_protocol_send_cursor s x y srcl srcx srcy w h =
     instruction
        [wr ''6.cursor,'', wr_int x, wr '','', wr_int y, wr '','', wr_int srcl,
         wr '','', wr_int srcx, wr '','', wr_int srcy, wr '','', wr_int w, wr '','',
         wr_int h, wr '';''] s"

definition guac_protocol_send_curve ::
  "'s guac_socket \<Rightarrow> int \<Rightarrow> int \<Rightarrow> int \<Rightarrow> int \<Rightarrow> int \<Rightarrow> int \<Rightarrow> int \<Rightarrow>
    (int \<times> 's guac_socket) option" where
  "guac_protocol_send_curve s layer cp1x cp1y cp2x cp2y x y =
     instruction
        [wr ''5.curve,'', wr_int layer, wr '','', wr_int cp1x, wr '','', wr_int cp1y,
         wr '','', wr_int cp2x, wr '','', wr_int cp2y, wr '','', wr_int x, wr '','',
         wr_int y, wr '';''] s"

definition guac_protocol_send_disconnect ::
  "'s guac_socket \<Rightarrow>
    (int \<times> 's guac_socket) option" where
  "guac_protocol_send_disconnect s =
     instruction
        [wr ''10.disconnect;''] s"

definition guac_protocol_send_dispose ::
  "'s guac_socket \<Rightarrow> int \<Rightarrow>
    (int \<times> 's guac_socket) option" where
  "guac_protocol_send_dispose s layer =
     instruction
        [wr ''7.dispose,'', wr_int layer, wr '';''] s"

definition guac_protocol_send_distort ::
  "('d \<Rightarrow> char list) \<Rightarrow> 's guac_socket \<Rightarrow> int \<Rightarrow> 'd \<Rightarrow> 'd \<Rightarrow> 'd \<Rightarrow> 'd \<Rightarrow> 'd \<Rightarrow> 'd \<Rightarrow>
    (int \<times> 's guac_socket) option" where
  "guac_protocol_send_distort fmt s layer a b c d e f =
     instruction
        [wr ''7.distort,'', wr_int layer, wr '','', wr_dbl fmt a, wr '','',
         wr_dbl fmt b, wr '','', wr_dbl fmt c, wr '','', wr_dbl fmt d, wr '','',
         wr_dbl fmt e, wr '','', wr_dbl fmt f, wr '';''] s"

definition guac_protocol_send_end ::
  "'s guac_socket \<Rightarrow> int \<Rightarrow>
    (int \<times> 's guac_socket) option" where
  "guac_protocol_send_end s stream =
     instruction
        [wr ''3.end,'', wr_int stream, wr '';''] s"

definition guac_protocol_send_error ::
  "'s guac_socket \<Rightarrow> char list \<Rightarrow> int \<Rightarrow>
    (int \<times> 's guac_socket) option" where
  "guac_protocol_send_error s err_text status =
     instruction
        [wr ''5.error,'', wr_str err_text, wr '','', wr_int status, wr '';''] s"

definition guac_protocol_send_file ::
  "'s guac_socket \<Rightarrow> int \<Rightarrow> char list \<Rightarrow> char list \<Rightarrow>
    (int \<times> 's guac_socket) option" where
  "guac_protocol_send_file s stream mimetype name =
     instruction
        [wr ''4.file,'', wr_int stream, wr '','', wr_str mimetype, wr '','',
         wr_str name, wr '';''] s"

definition guac_protocol_send_filesystem ::
  "'s guac_socket \<Rightarrow> int \<Rightarrow> char list \<Rightarrow>
    (int \<times> 's guac_socket) option" where
  "guac_protocol_send_filesystem s object name =
     instruction
        [wr ''10.filesystem,'', wr_int object, wr '','', wr_str name, wr '';''] s"

definition guac_protocol_send_identity ::
  "'s guac_socket \<Rightarrow> int \<Rightarrow>
    (int \<times> 's guac_socket) option" where
  "guac_protocol_send_identity s layer =
     instruction
        [wr ''8.identity,'', wr_int layer, wr '';''] s"

definition guac_protocol_send_lfill ::
  "'s guac_socket \<Rightarrow> int \<Rightarrow> int \<Rightarrow> int \<Rightarrow>
    (int \<times> 's guac_socket) option" where
  "guac_protocol_send_lfill s mode layer srcl =
     instruction
        [wr ''5.lfill,'', wr_int mode, wr '','', wr_int layer, wr '','', wr_int srcl,
         wr '';''] s"

definition guac_protocol_send_line ::
  "'s guac_socket \<Rightarrow> int \<Rightarrow> int \<Rightarrow> int \<Rightarrow>
    (int \<times> 's guac_socket) option" where
  "guac_protocol_send_line s layer x y =
     instruction
        [wr ''4.line,'', wr_int layer, wr '','', wr_int x, wr '','', wr_int y, wr '';''] s"

definition guac_protocol_send_lstroke ::
  "'s guac_socket \<Rightarrow> int \<Rightarrow> int \<Rightarrow> int \<Rightarrow> int \<Rightarrow> int \<Rightarrow> int \<Rightarrow>
    (int \<times> 's guac_socket) option" where
  "guac_protocol_send_lstroke s mode layer cap join thickness srcl =
     instruction
        [wr ''7.lstroke,'', wr_int mode, wr '','', wr_int layer, wr '','', wr_int cap,
         wr '','', wr_int join, wr '','', wr_int thickness, wr '','', wr_int srcl,
         wr '';''] s"

definition guac_protocol_send_mouse ::
  "'s guac_socket \<Rightarrow> int \<Rightarrow> int \<Rightarrow>
    (int \<times> 's guac_socket) option" where
  "guac_protocol_send_mouse s x y =
     instruction
        [wr ''5.mouse,'', wr_int x, wr '','', wr_int y, wr '';''] s"

definition guac_protocol_send_move ::
  "'s guac_socket \<Rightarrow> int \<Rightarrow> int \<Rightarrow> int \<Rightarrow> int \<Rightarrow> int \<Rightarrow>
    (int \<times> 's guac_socket) option" where
  "guac_protocol_send_move s layer parent x y z =
     instruction
        [wr ''4.move,'', wr_int layer, wr '','', wr_int parent, wr '','', wr_int x,
         wr '','', wr_int y, wr '','', wr_int z, wr '';''] s"

definition guac_protocol_send_name ::
  "'s guac_socket \<Rightarrow> char list \<Rightarrow>
    (int \<times> 's guac_socket) option" where
  "guac_protocol_send_name s name =
     instruction
        [wr ''4.name,'', wr_str name, wr '';''] s"

definition guac_protocol_send_nest ::
  "'s guac_socket \<Rightarrow> int \<Rightarrow> char list \<Rightarrow>
    (int \<times> 's guac_socket) option" where
  "guac_protocol_send_nest s index data =
     instruction
        [wr ''4.nest,'', wr_int index, wr '','', wr_str data, wr '';''] s"

definition guac_protocol_send_nop ::
  "'s guac_socket \<Rightarrow>
    (int \<times> 's guac_socket) option" where
  "guac_protocol_send_nop s =
     instruction
        [wr ''3.nop;''] s"

definition guac_protocol_send_pipe ::
  "'s guac_socket \<Rightarrow> int \<Rightarrow> char list \<Rightarrow> char list \<Rightarrow>
    (int \<times> 's guac_socket) option" where
  "guac_protocol_send_pipe s stream mimetype name =
     instruction
        [wr ''4.pipe,'', wr_int stream, wr '','', wr_str mimetype, wr '','',
         wr_str name, wr '';''] s"

definition guac_protocol_send_img ::
  "'s guac_socket \<Rightarrow> int \<Rightarrow> int \<Rightarrow> int \<Rightarrow> char list \<Rightarrow> int \<Rightarrow> int \<Rightarrow>
    (int \<times> 's guac_socket) option" where
  "guac_protocol_send_img s stream mode layer mimetype x y =
     instruction
        [wr ''3.img,'', wr_int stream, wr '','', wr_int mode, wr '','', wr_int layer,
         wr '','', wr_str mimetype, wr '','', wr_int x, wr '','', wr_int y, wr '';''] s"

definition guac_protocol_send_pop ::
  "'s guac_socket \<Rightarrow> int \<Rightarrow>
    (int \<times> 's guac_socket) option" where
  "guac_protocol_send_pop s layer =
     instruction
        [wr ''3.pop,'', wr_int layer, wr '';''] s"

definition guac_protocol_send_push ::
  "'s guac_socket \<Rightarrow> int \<Rightarrow>
    (int \<times> 's guac_socket) option" where
  "guac_protocol_send_push s layer =
     instruction
        [wr ''4.push,'', wr_int layer, wr '';''] s"

definition guac_protocol_send_ready ::
  "'s guac_socket \<Rightarrow> char list \<Rightarrow>
    (int \<times> 's guac_socket) option" where
  "guac_protocol_send_ready s ident =
     instruction
        [wr ''5.ready,'', wr_str ident, wr '';''] s"

definition guac_protocol_send_rect ::
  "'s guac_socket \<Rightarrow> int \<Rightarrow> int \<Rightarrow> int \<Rightarrow> int \<Rightarrow> int \<Rightarrow>
    (int \<times> 's guac_socket) option" where
  "guac_protocol_send_rect s layer x y width height =
     instruction
        [wr ''4.rect,'', wr_int layer, wr '','', wr_int x, wr '','', wr_int y, wr '','',
         wr_int width, wr '','', wr_int height, wr '';''] s"

definition guac_protocol_send_reset ::
  "'s guac_socket \<Rightarrow> int \<Rightarrow>
    (int \<times> 's guac_socket) option" where
  "guac_protocol_send_reset s layer =
     instruction
        [wr ''5.reset,'', wr_int layer, wr '';''] s"

definition guac_protocol_send_set ::
  "'s guac_socket \<Rightarrow> int \<Rightarrow> char list \<Rightarrow> char list \<Rightarrow>
    (int \<times> 's guac_socket) option" where
  "guac_protocol_send_set s layer name value =
     instruction
        [wr ''3.set,'', wr_int layer, wr '','', wr_str name, wr '','', wr_str value,
         wr '';''] s"

definition guac_protocol_send_select ::
  "'s guac_socket \<Rightarrow> char list \<Rightarrow>
    (int \<times> 's guac_socket) option" where
  "guac_protocol_send_select s protocol =
     instruction
        [wr ''6.select,'', wr_str protocol, wr '';''] s"

definition guac_protocol_send_shade ::
  "'s guac_socket \<Rightarrow> int \<Rightarrow> int \<Rightarrow>
    (int \<times> 's guac_socket) option" where
  "guac_protocol_send_shade s layer a =
     instruction
        [wr ''5.shade,'', wr_int layer, wr '','', wr_int a, wr '';''] s"

definition guac_protocol_send_size ::
  "'s guac_socket \<Rightarrow> int \<Rightarrow> int \<Rightarrow> int \<Rightarrow>
    (int \<times> 's guac_socket) option" where
  "guac_protocol_send_size s layer w h =
     instruction
        [wr ''4.size,'', wr_int layer, wr '','', wr_int w, wr '','', wr_int h, wr '';''] s"

definition guac_protocol_send_start ::
  "'s guac_socket \<Rightarrow> int \<Rightarrow> int \<Rightarrow> int \<Rightarrow>
    (int \<times> 's guac_socket) option" where
  "guac_protocol_send_start s layer x y =
     instruction
        [wr ''5.start,'', wr_int layer, wr '','', wr_int x, wr '','', wr_int y, wr '';''] s"

definition guac_protocol_send_sync ::
  "'s guac_socket \<Rightarrow> int \<Rightarrow>
    (int \<times> 's guac_socket) option" where
  "guac_protocol_send_sync s timestamp =
     instruction
        [wr ''4.sync,'', wr_int timestamp, wr '';''] s"

definition guac_protocol_send_transfer ::
  "'s guac_socket \<Rightarrow> int \<Rightarrow> int \<Rightarrow> int \<Rightarrow> int \<Rightarrow> int \<Rightarrow> int \<Rightarrow> int \<Rightarrow> int \<Rightarrow> int \<Rightarrow>
    (int \<times> 's guac_socket) option" where
  "guac_protocol_send_transfer s srcl srcx srcy w h func dstl dstx dsty =
     instruction
        [wr ''8.transfer,'', wr_int srcl, wr '','', wr_int srcx, wr '','', wr_int srcy,
         wr '','', wr_int w, wr '','', wr_int h, wr '','', wr_int func, wr '','',
         wr_int dstl, wr '','', wr_int dstx, wr '','', wr_int dsty, wr '';''] s"

definition guac_protocol_send_transform ::
  "('d \<Rightarrow> char list) \<Rightarrow> 's guac_socket \<Rightarrow> int \<Rightarrow> 'd \<Rightarrow> 'd \<Rightarrow> 'd \<Rightarrow> 'd \<Rightarrow> 'd \<Rightarrow> 'd \<Rightarrow>
    (int \<times> 's guac_socket) option" where
  "guac_protocol_send_transform fmt s layer a b c d e f =
     instruction
        [wr ''9.transform,'', wr_int layer, wr '','', wr_dbl fmt a, wr '','',
         wr_dbl fmt b, wr '','', wr_dbl fmt c, wr '','', wr_dbl fmt d, wr '','',
         wr_dbl fmt e, wr '','', wr_dbl fmt f, wr '';''] s"

definition guac_protocol_send_undefine ::
  "'s guac_socket \<Rightarrow> int \<Rightarrow>
    (int \<times> 's guac_socket) option" where
  "guac_protocol_send_undefine s object =
     instruction
        [wr ''8.undefine,'', wr_int object, wr '';''] s"

definition guac_protocol_send_video ::
  "'s guac_socket \<Rightarrow> int \<Rightarrow> int \<Rightarrow> char list \<Rightarrow>
    (int \<times> 's guac_socket) option" where
  "guac_protocol_send_video s stream layer mimetype =
     instruction
        [wr ''5.video,'', wr_int stream, wr '','', wr_int layer, wr '','',
         wr_str mimetype, wr '';''] s"

section \<open>All instructions as one type\<close>

text \<open>One constructor per function above, with its arguments, in five groups.\<close>

datatype 'd path_message =
    Send_arc int int int int 'd 'd bool
  | Send_close int
  | Send_clip int
  | Send_curve int int int int int int int
  | Send_line int int int
  | Send_rect int int int int int
  | Send_start int int int
  | Send_identity int
  | Send_transform int 'd 'd 'd 'd 'd 'd
  | Send_push int
  | Send_pop int
  | Send_reset int

primrec send_path :: "('d \<Rightarrow> char list) \<Rightarrow> 's guac_socket \<Rightarrow> 'd path_message \<Rightarrow>
    (int \<times> 's guac_socket) option" where
  "send_path fmt s (Send_arc layer x y radius startAngle endAngle negative) =
     guac_protocol_send_arc fmt s layer x y radius startAngle endAngle negative"
| "send_path fmt s (Send_close layer) =
     guac_protocol_send_close s layer"
| "send_path fmt s (Send_clip layer) =
     guac_protocol_send_clip s layer"
| "send_path fmt s (Send_curve layer cp1x cp1y cp2x cp2y x y) =
     guac_protocol_send_curve s layer cp1x cp1y cp2x cp2y x y"
| "send_path fmt s (Send_line layer x y) =
     guac_protocol_send_line s layer x y"
| "send_path fmt s (Send_rect layer x y width height) =
     guac_protocol_send_rect s layer x y width height"
| "send_path fmt s (Send_start layer x y) =
     guac_protocol_send_start s layer x y"
| "send_path fmt s (Send_identity layer) =
     guac_protocol_send_identity s layer"
| "send_path fmt s (Send_transform layer a b c d e f) =
     guac_protocol_send_transform fmt s layer a b c d e f"
| "send_path fmt s (Send_push layer) =
     guac_protocol_send_push s layer"
| "send_path fmt s (Send_pop layer) =
     guac_protocol_send_pop s layer"
| "send_path fmt s (Send_reset layer) =
     guac_protocol_send_reset s layer"

primrec path_elements :: "('d \<Rightarrow> char list) \<Rightarrow> 'd path_message \<Rightarrow> char list list" where
  "path_elements fmt (Send_arc layer x y radius startAngle endAngle negative) =
     [''arc'', format_int layer, format_int x, format_int y, format_int radius,
      fmt startAngle, fmt endAngle, (if negative then ''1'' else ''0'')]"
| "path_elements fmt (Send_close layer) =
     [''close'', format_int layer]"
| "path_elements fmt (Send_clip layer) =
     [''clip'', format_int layer]"
| "path_elements fmt (Send_curve layer cp1x cp1y cp2x cp2y x y) =
     [''curve'', format_int layer, format_int cp1x, format_int cp1y, format_int cp2x,
      format_int cp2y, format_int x, format_int y]"
| "path_elements fmt (Send_line layer x y) =
     [''line'', format_int layer, format_int x, format_int y]"
| "path_elements fmt (Send_rect layer x y width height) =
     [''rect'', format_int layer, format_int x, format_int y, format_int width,
      format_int height]"
| "path_elements fmt (Send_start layer x y) =
     [''start'', format_int layer, format_int x, format_int y]"
| "path_elements fmt (Send_identity layer) =
     [''identity'', format_int layer]"
| "path_elements fmt (Send_transform layer a b c d e f) =
     [''transform'', format_int layer, fmt a, fmt b, fmt c, fmt d, fmt e, fmt f]"
| "path_elements fmt (Send_push layer) =
     [''push'', format_int layer]"
| "path_elements fmt (Send_pop layer) =
     [''pop'', format_int layer]"
| "path_elements fmt (Send_reset layer) =
     [''reset'', format_int layer]"

datatype paint_message =
    Send_cfill int int int int int int
  | Send_copy int int int int int int int int int
  | Send_cstroke int int int int int int int int int
  | Send_cursor int int int int int int int
  | Send_lfill int int int
  | Send_lstroke int int int int int int
  | Send_transfer int int int int int int int int int

primrec send_paint :: "'s guac_socket \<Rightarrow> paint_message \<Rightarrow>
    (int \<times> 's guac_socket) option" where
  "send_paint s (Send_cfill mode layer r g b a) =
     guac_protocol_send_cfill s mode layer r g b a"
| "send_paint s (Send_copy srcl srcx srcy w h mode dstl dstx dsty) =
     guac_protocol_send_copy s srcl srcx srcy w h mode dstl dstx dsty"
| "send_paint s (Send_cstroke mode layer cap join thickness r g b a) =
     guac_protocol_send_cstroke s mode layer cap join thickness r g b a"
| "send_paint s (Send_cursor x y srcl srcx srcy w h) =
     guac_protocol_send_cursor s x y srcl srcx srcy w h"
| "send_paint s (Send_lfill mode layer srcl) =
     guac_protocol_send_lfill s mode layer srcl"
| "send_paint s (Send_lstroke mode layer cap join thickness srcl) =
     guac_protocol_send_lstroke s mode layer cap join thickness srcl"
| "send_paint s (Send_transfer srcl srcx srcy w h func dstl dstx dsty) =
     guac_protocol_send_transfer s srcl srcx srcy w h func dstl dstx dsty"

primrec paint_elements :: "paint_message \<Rightarrow> char list list" where
  "paint_elements (Send_cfill mode layer r g b a) =
     [''cfill'', format_int mode, format_int layer, format_int r, format_int g,
      format_int b, format_int a]"
| "paint_elements (Send_copy srcl srcx srcy w h mode dstl dstx dsty) =
     [''copy'', format_int srcl, format_int srcx, format_int srcy, format_int w,
      format_int h, format_int mode, format_int dstl, format_int dstx, format_int dsty]"
| "paint_elements (Send_cstroke mode layer cap join thickness r g b a) =
     [''cstroke'', format_int mode, format_int layer, format_int cap, format_int join,
      format_int thickness, format_int r, format_int g, format_int b, format_int a]"
| "paint_elements (Send_cursor x y srcl srcx srcy w h) =
     [''cursor'', format_int x, format_int y, format_int srcl, format_int srcx,
      format_int srcy, format_int w, format_int h]"
| "paint_elements (Send_lfill mode layer srcl) =
     [''lfill'', format_int mode, format_int layer, format_int srcl]"
| "paint_elements (Send_lstroke mode layer cap join thickness srcl) =
     [''lstroke'', format_int mode, format_int layer, format_int cap, format_int join,
      format_int thickness, format_int srcl]"
| "paint_elements (Send_transfer srcl srcx srcy w h func dstl dstx dsty) =
     [''transfer'', format_int srcl, format_int srcx, format_int srcy, format_int w,
      format_int h, format_int func, format_int dstl, format_int dstx, format_int dsty]"

datatype 'd layer_message =
    Send_dispose int
  | Send_distort int 'd 'd 'd 'd 'd 'd
  | Send_move int int int int int
  | Send_shade int int
  | Send_size int int int
  | Send_set int "char list" "char list"

primrec send_layer :: "('d \<Rightarrow> char list) \<Rightarrow> 's guac_socket \<Rightarrow> 'd layer_message \<Rightarrow>
    (int \<times> 's guac_socket) option" where
  "send_layer fmt s (Send_dispose layer) =
     guac_protocol_send_dispose s layer"
| "send_layer fmt s (Send_distort layer a b c d e f) =
     guac_protocol_send_distort fmt s layer a b c d e f"
| "send_layer fmt s (Send_move layer parent x y z) =
     guac_protocol_send_move s layer parent x y z"
| "send_layer fmt s (Send_shade layer a) =
     guac_protocol_send_shade s layer a"
| "send_layer fmt s (Send_size layer w h) =
     guac_protocol_send_size s layer w h"
| "send_layer fmt s (Send_set layer name value) =
     guac_protocol_send_set s layer name value"

primrec layer_elements :: "('d \<Rightarrow> char list) \<Rightarrow> 'd layer_message \<Rightarrow> char list list" where
  "layer_elements fmt (Send_dispose layer) =
     [''dispose'', format_int layer]"
| "layer_elements fmt (Send_distort layer a b c d e f) =
     [''distort'', format_int layer, fmt a, fmt b, fmt c, fmt d, fmt e, fmt f]"
| "layer_elements fmt (Send_move layer parent x y z) =
     [''move'', format_int layer, format_int parent, format_int x, format_int y,
      format_int z]"
| "layer_elements fmt (Send_shade layer a) =
     [''shade'', format_int layer, format_int a]"
| "layer_elements fmt (Send_size layer w h) =
     [''size'', format_int layer, format_int w, format_int h]"
| "layer_elements fmt (Send_set layer name value) =
     [''set'', format_int layer, name, value]"

datatype stream_message =
    Send_ack int "char list" int
  | Send_audio int "char list"
  | Send_blob int "u8 list"
  | Send_body int int "char list" "char list"
  | Send_clipboard int "char list"
  | Send_end int
  | Send_file int "char list" "char list"
  | Send_filesystem int "char list"
  | Send_img int int int "char list" int int
  | Send_pipe int "char list" "char list"
  | Send_undefine int
  | Send_video int int "char list"
  | Send_nest int "char list"

primrec send_stream :: "'s guac_socket \<Rightarrow> stream_message \<Rightarrow>
    (int \<times> 's guac_socket) option" where
  "send_stream s (Send_ack stream err_text status) =
     guac_protocol_send_ack s stream err_text status"
| "send_stream s (Send_audio stream mimetype) =
     guac_protocol_send_audio s stream mimetype"
| "send_stream s (Send_blob stream data) =
     guac_protocol_send_blob s stream data"
| "send_stream s (Send_body object stream mimetype name) =
     guac_protocol_send_body s object stream mimetype name"
| "send_stream s (Send_clipboard stream mimetype) =
     guac_protocol_send_clipboard s stream mimetype"
| "send_stream s (Send_end stream) =
     guac_protocol_send_end s stream"
| "send_stream s (Send_file stream mimetype name) =
     guac_protocol_send_file s stream mimetype name"
| "send_stream s (Send_filesystem object name) =
     guac_protocol_send_filesystem s object name"
| "send_stream s (Send_img stream mode layer mimetype x y) =
     guac_protocol_send_img s stream mode layer mimetype x y"
| "send_stream s (Send_pipe stream mimetype name) =
     guac_protocol_send_pipe s stream mimetype name"
| "send_stream s (Send_undefine object) =
     guac_protocol_send_undefine s object"
| "send_stream s (Send_video stream layer mimetype) =
     guac_protocol_send_video s stream layer mimetype"
| "send_stream s (Send_nest index data) =
     guac_protocol_send_nest s index data"

primrec stream_elements :: "stream_message \<Rightarrow> char list list" where
  "stream_elements (Send_ack stream err_text status) =
     [''ack'', format_int stream, err_text, format_int status]"
| "stream_elements (Send_audio stream mimetype) =
     [''audio'', format_int stream, mimetype]"
| "stream_elements (Send_blob stream data) =
     [''blob'', format_int stream, base64_encode data]"
| "stream_elements (Send_body object stream mimetype name) =
     [''body'', format_int object, format_int stream, mimetype, name]"
| "stream_elements (Send_clipboard stream mimetype) =
     [''clipboard'', format_int stream, mimetype]"
| "stream_elements (Send_end stream) =
     [''end'', format_int stream]"
| "stream_elements (Send_file stream mimetype name) =
     [''file'', format_int stream, mimetype, name]"
| "stream_elements (Send_filesystem object name) =
     [''filesystem'', format_int object, name]"
| "stream_elements (Send_img stream mode layer mimetype x y) =
     [''img'', format_int stream, format_int mode, format_int layer, mimetype,
      format_int x, format_int y]"
| "stream_elements (Send_pipe stream mimetype name) =
     [''pipe'', format_int stream, mimetype, name]"
| "stream_elements (Send_undefine object) =
     [''undefine'', format_int object]"
| "stream_elements (Send_video stream layer mimetype) =
     [''video'', format_int stream, format_int layer, mimetype]"
| "stream_elements (Send_nest index data) =
     [''nest'', format_int index, data]"

datatype control_message =
    Send_args "char list list"
  | Send_connect "char list list"
  | Send_disconnect
  | Send_error "char list" int
  | Send_log "char list"
  | Send_mouse int int
  | Send_name "char list"
  | Send_nop
  | Send_ready "char list"
  | Send_select "char list"
  | Send_sync int

primrec send_control :: "'s guac_socket \<Rightarrow> control_message \<Rightarrow>
    (int \<times> 's guac_socket) option" where
  "send_control s (Send_args args) =
     guac_protocol_send_args s args"
| "send_control s (Send_connect args) =
     guac_protocol_send_connect s args"
| "send_control s Send_disconnect =
     guac_protocol_send_disconnect s"
| "send_control s (Send_error err_text status) =
     guac_protocol_send_error s err_text status"
| "send_control s (Send_log formatted) =
     guac_protocol_send_log s formatted"
| "send_control s (Send_mouse x y) =
     guac_protocol_send_mouse s x y"
| "send_control s (Send_name name) =
     guac_protocol_send_name s name"
| "send_control s Send_nop =
     guac_protocol_send_nop s"
| "send_control s (Send_ready ident) =
     guac_protocol_send_ready s ident"
| "send_control s (Send_select protocol) =
     guac_protocol_send_select s protocol"
| "send_control s (Send_sync timestamp) =
     guac_protocol_send_sync s timestamp"

primrec control_elements :: "control_message \<Rightarrow> char list list" where
  "control_elements (Send_args args) =
     ''args'' # args"
| "control_elements (Send_connect args) =
     ''connect'' # args"
| "control_elements Send_disconnect =
     [''disconnect'']"
| "control_elements (Send_error err_text status) =
     [''error'', err_text, format_int status]"
| "control_elements (Send_log formatted) =
     [''log'', take 4095 formatted]"
| "control_elements (Send_mouse x y) =
     [''mouse'', format_int x, format_int y]"
| "control_elements (Send_name name) =
     [''name'', name]"
| "control_elements Send_nop =
     [''nop'']"
| "control_elements (Send_ready ident) =
     [''ready'', ident]"
| "control_elements (Send_select protocol) =
     [''select'', protocol]"
| "control_elements (Send_sync timestamp) =
     [''sync'', format_int timestamp]"

datatype 'd guac_message =
    Path_Message "'d path_message"
  | Paint_Message paint_message
  | Layer_Message "'d layer_message"
  | Stream_Message stream_message
  | Control_Message control_message

primrec send_message ::
  "('d \<Rightarrow> char list) \<Rightarrow> 's guac_socket \<Rightarrow> 'd guac_message \<Rightarrow> (int \<times> 's guac_socket) option" where
  "send_message fmt s (Path_Message m) = send_path fmt s m"
| "send_message fmt s (Paint_Message m) = send_paint s m"
| "send_message fmt s (Layer_Message m) = send_layer fmt s m"
| "send_message fmt s (Stream_Message m) = send_stream s m"
| "send_message fmt s (Control_Message m) = send_control s m"

text \<open>The elements of each instruction: its opcode and the text of its arguments.\<close>

primrec message_elements :: "('d \<Rightarrow> char list) \<Rightarrow> 'd guac_message \<Rightarrow> char list list" where
  "message_elements fmt (Path_Message m) = path_elements fmt m"
| "message_elements fmt (Paint_Message m) = paint_elements m"
| "message_elements fmt (Layer_Message m) = layer_elements fmt m"
| "message_elements fmt (Stream_Message m) = stream_elements m"
| "message_elements fmt (Control_Message m) = control_elements m"

section \<open>The wire format\<close>

text \<open>
  An element is the number of its characters, a period and its text; an instruction is its
  elements separated by commas and ended by a semicolon. \<open>encode_tail\<close> is what follows an element.
\<close>

definition encode_element :: "char list \<Rightarrow> char list" where
  "encode_element e = digits_of_nat (guac_utf8_strlen e) @ CHR ''.'' # e"

fun encode_tail :: "char list list \<Rightarrow> char list" where
  "encode_tail [] = '';''"
| "encode_tail (e # es) = CHR '','' # encode_element e @ encode_tail es"

fun encode_instruction :: "char list list \<Rightarrow> char list" where
  "encode_instruction [] = '';''"
| "encode_instruction (e # es) = encode_element e @ encode_tail es"

text \<open>Plain text: ASCII without the terminator.\<close>

definition plain :: "char list \<Rightarrow> bool" where
  "plain e \<longleftrightarrow> (\<forall>c \<in> set e. of_char c < (128 :: int) \<and> c \<noteq> NUL)"

lemma plain_Nil [simp]: "plain []" by (simp add: plain_def)

lemma plain_Cons [simp]: "plain (c # e) \<longleftrightarrow> of_char c < (128 :: int) \<and> c \<noteq> NUL \<and> plain e"
  by (auto simp: plain_def)

lemma plain_append [simp]: "plain (a @ b) \<longleftrightarrow> plain a \<and> plain b" by (auto simp: plain_def)

lemma plain_count: "plain e \<Longrightarrow> utf8_wf e \<and> guac_utf8_strlen e = length e \<and> NUL \<notin> set e"
  using ascii_wf [of e] strlen_count [of e] by (auto simp: plain_def)

lemma digit_char: "n < 10 \<Longrightarrow> of_char (char_of (48 + n) :: char) = (48 + n :: nat)"
  by (simp add: of_char_of)

lemma digit_chars:
  "char_of (48 :: nat) = CHR ''0''" "char_of (49 :: nat) = CHR ''1''"
  "char_of (50 :: nat) = CHR ''2''" "char_of (51 :: nat) = CHR ''3''"
  "char_of (52 :: nat) = CHR ''4''" "char_of (53 :: nat) = CHR ''5''"
  "char_of (54 :: nat) = CHR ''6''" "char_of (55 :: nat) = CHR ''7''"
  "char_of (56 :: nat) = CHR ''8''" "char_of (57 :: nat) = CHR ''9''"
  by (simp_all add: char_of_eq_iff take_bit_eq_mod)

lemma digit_plain:
  assumes "k < (10 :: nat)"
  shows "plain [char_of (48 + k)]"
proof -
  have "of_char (char_of (48 + k) :: char) = 48 + k" using assms by (rule digit_char)
  then have "of_char (char_of (48 + k) :: char) = (48 + int k)"
    by (metis of_nat_of_char of_nat_add of_nat_numeral)
  moreover have "char_of (48 + k) \<noteq> NUL"
  proof
    assume "char_of (48 + k) = NUL"
    then have "of_char NUL = 48 + k" using digit_char [OF assms] by simp
    then show False by simp
  qed
  ultimately show ?thesis using assms by simp
qed

lemma digits_plain: "plain (digits_of_nat n)"
proof (induction n rule: digits_of_nat.induct)
  case (1 n)
  then show ?case
    using digit_plain [of n] digit_plain [of "n mod 10"] by (subst digits_of_nat.simps) auto
qed

lemma format_int_plain: "plain (format_int i)"
  using digits_plain by (simp add: format_int_def)

lemma opcode: "encode_element op = digits_of_nat (length op) @ CHR ''.'' # op" if "plain op"
  using plain_count [OF that] by (simp add: encode_element_def)

lemma opcode_elements [wire_simps]:
  "encode_element ''ack'' = ''3.ack''"
  "encode_element ''arc'' = ''3.arc''"
  "encode_element ''audio'' = ''5.audio''"
  "encode_element ''body'' = ''4.body''"
  "encode_element ''cfill'' = ''5.cfill''"
  "encode_element ''close'' = ''5.close''"
  "encode_element ''clip'' = ''4.clip''"
  "encode_element ''clipboard'' = ''9.clipboard''"
  "encode_element ''copy'' = ''4.copy''"
  "encode_element ''cstroke'' = ''7.cstroke''"
  "encode_element ''cursor'' = ''6.cursor''"
  "encode_element ''curve'' = ''5.curve''"
  "encode_element ''disconnect'' = ''10.disconnect''"
  "encode_element ''dispose'' = ''7.dispose''"
  "encode_element ''distort'' = ''7.distort''"
  "encode_element ''end'' = ''3.end''"
  "encode_element ''error'' = ''5.error''"
  "encode_element ''file'' = ''4.file''"
  "encode_element ''filesystem'' = ''10.filesystem''"
  "encode_element ''identity'' = ''8.identity''"
  "encode_element ''lfill'' = ''5.lfill''"
  "encode_element ''line'' = ''4.line''"
  "encode_element ''lstroke'' = ''7.lstroke''"
  "encode_element ''mouse'' = ''5.mouse''"
  "encode_element ''move'' = ''4.move''"
  "encode_element ''name'' = ''4.name''"
  "encode_element ''nest'' = ''4.nest''"
  "encode_element ''nop'' = ''3.nop''"
  "encode_element ''pipe'' = ''4.pipe''"
  "encode_element ''img'' = ''3.img''"
  "encode_element ''pop'' = ''3.pop''"
  "encode_element ''push'' = ''4.push''"
  "encode_element ''ready'' = ''5.ready''"
  "encode_element ''rect'' = ''4.rect''"
  "encode_element ''reset'' = ''5.reset''"
  "encode_element ''set'' = ''3.set''"
  "encode_element ''select'' = ''6.select''"
  "encode_element ''shade'' = ''5.shade''"
  "encode_element ''size'' = ''4.size''"
  "encode_element ''start'' = ''5.start''"
  "encode_element ''sync'' = ''4.sync''"
  "encode_element ''transfer'' = ''8.transfer''"
  "encode_element ''transform'' = ''9.transform''"
  "encode_element ''undefine'' = ''8.undefine''"
  "encode_element ''video'' = ''5.video''"
  "encode_element ''args'' = ''4.args''"
  "encode_element ''connect'' = ''7.connect''"
  "encode_element ''blob'' = ''4.blob''"
  "encode_element ''log'' = ''3.log''"
  "encode_element ''1'' = ''1.1''"
  "encode_element ''0'' = ''1.0''"
  by (simp_all add: opcode digits_of_nat.simps digit_chars)

text \<open>The base64 text of \<open>n\<close> bytes is plain and has \<open>(n + 2) div 3 * 4\<close> characters.\<close>

lemma base64_char_plain: "0 \<le> i \<Longrightarrow> i < 64 \<Longrightarrow> plain [base64_char i]"
proof -
  assume "0 \<le> i" "i < 64"
  then have "base64_char i \<in> set BASE64_CHARACTERS"
    unfolding base64_char_def by (intro nth_mem) (simp add: BASE64_CHARACTERS_def)
  moreover have "plain BASE64_CHARACTERS" by (simp add: BASE64_CHARACTERS_def)
  ultimately show ?thesis by (auto simp: plain_def)
qed

lemma base64_index_bounds:
  fixes a b :: int
  shows "0 \<le> drop_bit 2 (a AND 0xFC) \<and> drop_bit 2 (a AND 0xFC) < 64"
    "0 \<le> push_bit 4 (a AND 0x03) OR drop_bit 4 (b AND 0xF0)
       \<and> push_bit 4 (a AND 0x03) OR drop_bit 4 (b AND 0xF0) < 64"
    "0 \<le> push_bit 2 (a AND 0x0F) OR drop_bit 6 (b AND 0xC0)
       \<and> push_bit 2 (a AND 0x0F) OR drop_bit 6 (b AND 0xC0) < 64"
    "0 \<le> push_bit 4 (a AND 0x03) \<and> push_bit 4 (a AND 0x03) < 64"
    "0 \<le> push_bit 2 (a AND 0x0F) \<and> push_bit 2 (a AND 0x0F) < 64"
    "0 \<le> a AND 0x3F \<and> a AND 0x3F < 64"
proof -
  have n: "0 \<le> x AND m \<and> x AND m \<le> m" if "0 \<le> m" for x m :: int
    using that AND_upper2 [of m x] by simp
  have o: "0 \<le> x OR y \<and> x OR y < 64" if "0 \<le> x" "x < 64" "0 \<le> y" "y < 64" for x y :: int
    using OR_upper [of x 6 y] that by simp
  have f: "0 \<le> drop_bit 2 (a AND 0xFC) \<and> drop_bit 2 (a AND 0xFC) < 64"
    "0 \<le> push_bit 4 (a AND 0x03) \<and> push_bit 4 (a AND 0x03) < 64"
    "0 \<le> push_bit 2 (a AND 0x0F) \<and> push_bit 2 (a AND 0x0F) < 64"
    "0 \<le> drop_bit 4 (b AND 0xF0) \<and> drop_bit 4 (b AND 0xF0) < 64"
    "0 \<le> drop_bit 6 (b AND 0xC0) \<and> drop_bit 6 (b AND 0xC0) < 64"
    using n [of "0xFC" a] n [of 3 a] n [of 15 a] n [of "0xF0" b] n [of "0xC0" b]
    unfolding drop_bit_eq_div push_bit_eq_mult by (simp; linarith)+
  from f show "0 \<le> drop_bit 2 (a AND 0xFC) \<and> drop_bit 2 (a AND 0xFC) < 64"
    "0 \<le> push_bit 4 (a AND 0x03) \<and> push_bit 4 (a AND 0x03) < 64"
    "0 \<le> push_bit 2 (a AND 0x0F) \<and> push_bit 2 (a AND 0x0F) < 64"
    "0 \<le> push_bit 4 (a AND 0x03) OR drop_bit 4 (b AND 0xF0)
       \<and> push_bit 4 (a AND 0x03) OR drop_bit 4 (b AND 0xF0) < 64"
    "0 \<le> push_bit 2 (a AND 0x0F) OR drop_bit 6 (b AND 0xC0)
       \<and> push_bit 2 (a AND 0x0F) OR drop_bit 6 (b AND 0xC0) < 64"
    using o by blast+
  show "0 \<le> a AND 0x3F \<and> a AND 0x3F < 64" using n [of "0x3F" a] by simp
qed

lemma base64_output_plain: "plain (base64_output a b c) \<and> length (base64_output a b c) = 4"
  using base64_char_plain [OF base64_index_bounds(1) [THEN conjunct1] base64_index_bounds(1) [THEN conjunct2]]
    base64_char_plain [OF base64_index_bounds(2) [THEN conjunct1] base64_index_bounds(2) [THEN conjunct2]]
    base64_char_plain [OF base64_index_bounds(3) [THEN conjunct1] base64_index_bounds(3) [THEN conjunct2]]
    base64_char_plain [OF base64_index_bounds(4) [THEN conjunct1] base64_index_bounds(4) [THEN conjunct2]]
    base64_char_plain [OF base64_index_bounds(5) [THEN conjunct1] base64_index_bounds(5) [THEN conjunct2]]
    base64_char_plain [OF base64_index_bounds(6) [THEN conjunct1] base64_index_bounds(6) [THEN conjunct2]]
  by (simp add: base64_output_def)

lemma base64_encode_plain:
  "plain (base64_encode bs) \<and> length (base64_encode bs) = (length bs + 2) div 3 * 4"
proof (induction bs rule: base64_encode.induct)
  case (4 x y z xs)
  have "(Suc (Suc (Suc (length xs))) + 2) div 3 = Suc ((length xs + 2) div 3)" by presburger
  with 4 base64_output_plain show ?case by simp
qed (use base64_output_plain in auto)

lemma base64_element:
  "encode_element (base64_encode bs) =
     format_int ((int (length bs) + 2) div 3 * 4) @ CHR ''.'' # base64_encode bs"
proof -
  have "(int (length bs) + 2) div 3 * 4 = int ((length bs + 2) div 3 * 4)" by (simp add: zdiv_int)
  moreover have "guac_utf8_strlen (base64_encode bs) = (length bs + 2) div 3 * 4"
    using base64_encode_plain [of bs] plain_count [of "base64_encode bs"] by simp
  ultimately show ?thesis
    unfolding encode_element_def format_int_def by (simp only: nat_int of_nat_less_0_iff if_False)
qed

section \<open>What the functions write\<close>

context byte_sink
begin

abbreviation writes_locked ::
  "char list \<Rightarrow> ('s guac_socket \<Rightarrow> (int \<times> 's guac_socket) option) \<Rightarrow> bool" where
  "writes_locked \<equiv> sends put lock unlock got ok held"

lemma emits_Nil: "writes [] (run_writes [])"
  by (simp add: emits_def)

lemma emits_Cons:
  assumes "writes b w" and "writes bs (run_writes ws)"
  shows "writes (b @ bs) (run_writes (w # ws))"
  unfolding emits_def
proof (intro allI impI, elim conjE)
  fix s assume s: "is_wired s" "ok (sk_data s)" "ready s = 0"
  from emitsD [OF assms(1) s] obtain s1 where s1: "w s = Some (0, s1)" "is_wired s1"
    "ok (sk_data s1)" "ready s1 = 0" "held (sk_data s1) = held (sk_data s)"
    "got (sk_data s1) = got (sk_data s) @ b" by blast
  from emitsD [OF assms(2) s1(2-4)] s1
  show "\<exists>s'. run_writes (w # ws) s = Some (0, s') \<and> is_wired s' \<and> ok (sk_data s')
      \<and> ready s' = 0 \<and> held (sk_data s') = held (sk_data s)
      \<and> got (sk_data s') = got (sk_data s) @ b @ bs" by auto
qed

lemma emits_length_string: "writes (encode_element str) (wr_str str)"
proof -
  have "writes (format_int (int (guac_utf8_strlen str)) @ ''.'' @ str @ []) (wr_str str)"
    unfolding write_length_string_def
    by (intro emits_Cons emits_Nil emits_string emits_int)
  then show ?thesis by (simp add: encode_element_def format_int_def)
qed

lemma emits_length_int: "writes (encode_element (format_int i)) (wr_int i)"
  unfolding write_length_int_def by (rule emits_length_string)

lemma emits_length_double: "writes (encode_element (fmt d)) (wr_dbl fmt d)"
  unfolding write_length_double_def by (rule emits_length_string)

lemmas emits_intros =
  emits_Cons emits_Nil emits_string emits_length_string emits_length_int emits_length_double

lemma sends_lockedI:
  assumes "writes bs f" and "bs = bs'"
  shows "writes_locked bs' (locked_write f)"
  unfolding sends_def
proof (intro allI impI, elim conjE)
  fix s assume s: "is_wired s" "ok (sk_data s)" "ready s = 0" "\<not> held (sk_data s)"
  from lock_ok [OF s(2,4)] obtain d where "lock (sk_data s) = Some d" "ok d" "held d"
    "got d = got (sk_data s)" by blast
  then obtain s1 where s1: "guac_socket_instruction_begin s = Some s1" "is_wired s1"
    "ok (sk_data s1)" "ready s1 = 0" "held (sk_data s1)" "got (sk_data s1) = got (sk_data s)"
    using s by (auto simp: guac_socket_instruction_begin_def wired_def)
  from emitsD [OF assms(1) s1(2-4)] obtain s2 where s2: "f s1 = Some (0, s2)" "is_wired s2"
    "ok (sk_data s2)" "ready s2 = 0" "held (sk_data s2)"
    "got (sk_data s2) = got (sk_data s) @ bs" using s1 by auto
  moreover have "is_wired (guac_socket_instruction_end s2)"
    "ok (sk_data (guac_socket_instruction_end s2))" "ready (guac_socket_instruction_end s2) = 0"
    "\<not> held (sk_data (guac_socket_instruction_end s2))"
    "got (sk_data (guac_socket_instruction_end s2)) = got (sk_data s2)"
    using unlock_ok [OF s2(3,5)] s2 by (auto simp: guac_socket_instruction_end_def wired_def)
  ultimately show "\<exists>s'. locked_write f s = Some (0, s') \<and> is_wired s' \<and> ok (sk_data s')
      \<and> ready s' = 0 \<and> \<not> held (sk_data s') \<and> got (sk_data s') = got (sk_data s) @ bs'"
    using s1(1) assms(2) by (simp add: locked_write_def)
qed


lemma emits_args: "writes (encode_tail args) (\<lambda>s. write_arg_list s args)"
proof (induction args)
  case Nil
  then show ?case using emits_string [of "'';''"] by simp
next
  case (Cons arg args)
  show ?case
    unfolding emits_def
  proof (intro allI impI, elim conjE)
    fix s assume s: "is_wired s" "ok (sk_data s)" "ready s = 0"
    from emitsD [OF emits_string [of "'',''"] s] obtain s1 where s1:
      "guac_socket_write_string s '','' = Some (0, s1)" "is_wired s1" "ok (sk_data s1)"
      "ready s1 = 0" "held (sk_data s1) = held (sk_data s)"
      "got (sk_data s1) = got (sk_data s) @ '',''" by blast
    from emitsD [OF emits_length_string [of arg] s1(2-4)] obtain s2 where s2:
      "write_length_string s1 arg = Some (0, s2)" "is_wired s2" "ok (sk_data s2)"
      "ready s2 = 0" "held (sk_data s2) = held (sk_data s1)"
      "got (sk_data s2) = got (sk_data s1) @ encode_element arg" by blast
    from emitsD [OF Cons.IH s2(2-4)] s1 s2
    show "\<exists>s'. write_arg_list s (arg # args) = Some (0, s') \<and> is_wired s' \<and> ok (sk_data s')
        \<and> ready s' = 0 \<and> held (sk_data s') = held (sk_data s)
        \<and> got (sk_data s') = got (sk_data s) @ encode_tail (arg # args)" by auto
  qed
qed

text \<open>An opcode written by a plain test, and then the list.\<close>

lemma emits_opcode_args:
  "writes (op @ encode_tail args)
     (\<lambda>s. case guac_socket_write_string s op of None \<Rightarrow> None
        | Some (r, s1) \<Rightarrow> if r \<noteq> 0 then Some (-1, s1) else write_arg_list s1 args)"
  unfolding emits_def
proof (intro allI impI, elim conjE)
  fix s assume s: "is_wired s" "ok (sk_data s)" "ready s = 0"
  from emitsD [OF emits_string [of op] s] obtain s1 where s1:
    "guac_socket_write_string s op = Some (0, s1)" "is_wired s1" "ok (sk_data s1)"
    "ready s1 = 0" "held (sk_data s1) = held (sk_data s)"
    "got (sk_data s1) = got (sk_data s) @ op" by blast
  from emitsD [OF emits_args [of args] s1(2-4)] s1
  show "\<exists>s'. (case guac_socket_write_string s op of None \<Rightarrow> None
        | Some (r, s1) \<Rightarrow> if r \<noteq> 0 then Some (-1, s1) else write_arg_list s1 args) = Some (0, s')
      \<and> is_wired s' \<and> ok (sk_data s')
      \<and> ready s' = 0 \<and> held (sk_data s') = held (sk_data s)
      \<and> got (sk_data s') = got (sk_data s) @ op @ encode_tail args" by auto
qed

lemma emits_base64_Cons:
  assumes "writes bs (run_writes ws)"
  shows "writes (base64_encode data @ bs)
     (run_writes ((\<lambda>s. guac_socket_write_base64 s data) # (\<lambda>s. guac_socket_flush_base64 s) # ws))"
  unfolding emits_def
proof (intro allI impI, elim conjE)
  fix s assume s: "is_wired s" "ok (sk_data s)" "ready s = 0"
  from base64_ok [OF s, of data] obtain s1 s2 where s2:
    "guac_socket_write_base64 s data = Some (0, s1)" "guac_socket_flush_base64 s1 = Some (0, s2)"
    "is_wired s2" "ok (sk_data s2)" "ready s2 = 0" "held (sk_data s2) = held (sk_data s)"
    "got (sk_data s2) = got (sk_data s) @ base64_encode data" by blast
  from emitsD [OF assms s2(3-5)] s2
  show "\<exists>s'. run_writes ((\<lambda>s. guac_socket_write_base64 s data) #
        (\<lambda>s. guac_socket_flush_base64 s) # ws) s = Some (0, s') \<and> is_wired s' \<and> ok (sk_data s')
      \<and> ready s' = 0 \<and> held (sk_data s') = held (sk_data s)
      \<and> got (sk_data s') = got (sk_data s) @ base64_encode data @ bs" by auto
qed

lemma send_args_ok:
  "writes_locked (encode_instruction (''args'' # args)) (\<lambda>s. guac_protocol_send_args s args)"
  unfolding guac_protocol_send_args_def send_args_unlocked_def
  by (rule sends_lockedI, rule emits_opcode_args) (simp add: wire_simps)

lemma send_connect_ok:
  "writes_locked (encode_instruction (''connect'' # args)) (\<lambda>s. guac_protocol_send_connect s args)"
  unfolding guac_protocol_send_connect_def send_connect_unlocked_def
  by (rule sends_lockedI, rule emits_opcode_args) (simp add: wire_simps)

lemma send_blob_ok:
  "writes_locked (encode_instruction [''blob'', format_int st, base64_encode data])
     (\<lambda>s. guac_protocol_send_blob s st data)"
  unfolding guac_protocol_send_blob_def Let_def
  by (rule sends_lockedI, (rule emits_base64_Cons emits_int emits_intros)+)
    (simp add: wire_simps base64_element)

lemma send_log_ok:
  "writes_locked (encode_instruction [''log'', take 4095 formatted])
     (\<lambda>s. guac_protocol_send_log s formatted)"
  unfolding guac_protocol_send_log_def vguac_protocol_send_log_def Let_def
  by (rule sends_lockedI, (rule emits_intros)+) (simp add: wire_simps)

lemma send_path_ok:
  "writes_locked (encode_instruction (path_elements fmt m)) (\<lambda>s. send_path fmt s m)"
  by (cases m; simp only: send_path.simps path_elements.simps
      guac_protocol_send_arc_def guac_protocol_send_close_def guac_protocol_send_clip_def
      guac_protocol_send_curve_def guac_protocol_send_line_def guac_protocol_send_rect_def
      guac_protocol_send_start_def guac_protocol_send_identity_def
      guac_protocol_send_transform_def guac_protocol_send_push_def guac_protocol_send_pop_def
      guac_protocol_send_reset_def;
      (rule send_args_ok send_connect_ok send_blob_ok send_log_ok)?;
      rule sends_lockedI, (rule emits_intros)+, simp add: wire_simps)

lemma send_paint_ok:
  "writes_locked (encode_instruction (paint_elements m)) (\<lambda>s. send_paint s m)"
  by (cases m; simp only: send_paint.simps paint_elements.simps
      guac_protocol_send_cfill_def guac_protocol_send_copy_def guac_protocol_send_cstroke_def
      guac_protocol_send_cursor_def guac_protocol_send_lfill_def guac_protocol_send_lstroke_def
      guac_protocol_send_transfer_def;
      (rule send_args_ok send_connect_ok send_blob_ok send_log_ok)?;
      rule sends_lockedI, (rule emits_intros)+, simp add: wire_simps)

lemma send_layer_ok:
  "writes_locked (encode_instruction (layer_elements fmt m)) (\<lambda>s. send_layer fmt s m)"
  by (cases m; simp only: send_layer.simps layer_elements.simps
      guac_protocol_send_dispose_def guac_protocol_send_distort_def guac_protocol_send_move_def
      guac_protocol_send_shade_def guac_protocol_send_size_def guac_protocol_send_set_def;
      (rule send_args_ok send_connect_ok send_blob_ok send_log_ok)?;
      rule sends_lockedI, (rule emits_intros)+, simp add: wire_simps)

lemma send_stream_ok:
  "writes_locked (encode_instruction (stream_elements m)) (\<lambda>s. send_stream s m)"
  by (cases m; simp only: send_stream.simps stream_elements.simps
      guac_protocol_send_ack_def guac_protocol_send_audio_def guac_protocol_send_body_def
      guac_protocol_send_clipboard_def guac_protocol_send_end_def guac_protocol_send_file_def
      guac_protocol_send_filesystem_def guac_protocol_send_img_def guac_protocol_send_pipe_def
      guac_protocol_send_undefine_def guac_protocol_send_video_def guac_protocol_send_nest_def;
      (rule send_args_ok send_connect_ok send_blob_ok send_log_ok)?;
      rule sends_lockedI, (rule emits_intros)+, simp add: wire_simps)

lemma send_control_ok:
  "writes_locked (encode_instruction (control_elements m)) (\<lambda>s. send_control s m)"
  by (cases m; simp only: send_control.simps control_elements.simps
      guac_protocol_send_disconnect_def guac_protocol_send_error_def guac_protocol_send_mouse_def
      guac_protocol_send_name_def guac_protocol_send_nop_def guac_protocol_send_ready_def
      guac_protocol_send_select_def guac_protocol_send_sync_def;
      (rule send_args_ok send_connect_ok send_blob_ok send_log_ok)?;
      rule sends_lockedI, (rule emits_intros)+, simp add: wire_simps)

lemma send_message_ok:
  "writes_locked (encode_instruction (message_elements fmt m)) (\<lambda>s. send_message fmt s m)"
  by (cases m)
    (simp_all add: send_path_ok send_paint_ok send_layer_ok send_stream_ok send_control_ok)

end


section \<open>Decoding base64\<close>

definition base64_value :: "char \<Rightarrow> int" where
  "base64_value c =
     (let n = of_char c in
      if of_char CHR ''A'' \<le> n \<and> n \<le> of_char CHR ''Z'' then n - of_char CHR ''A''
      else if of_char CHR ''a'' \<le> n \<and> n \<le> of_char CHR ''z'' then n - of_char CHR ''a'' + 26
      else if of_char CHR ''0'' \<le> n \<and> n \<le> of_char CHR ''9'' then n - of_char CHR ''0'' + 52
      else if c = CHR ''+'' then 62
      else if c = CHR ''/'' then 63
      else 0)"

text \<open>
  The decoder works in place: \<open>mem\<close> is the memory from the start of the string, \<open>i\<close> the index of
  the next character and \<open>len\<close> that of the next byte to be stored. \<open>None\<close> is a read past the end
  of the memory (a string without terminator).
\<close>

function decode_base64_loop ::
  "char list \<Rightarrow> nat \<Rightarrow> nat \<Rightarrow> int \<Rightarrow> nat \<Rightarrow> (nat \<times> char list) option" where
  "decode_base64_loop mem i len val bits_read =
     (if length mem \<le> i then None
      else if mem ! i = NUL \<or> mem ! i = CHR ''='' then Some (len, mem)
      else
        let val = wrap32 (push_bit 6 val OR base64_value (mem ! i)); bits_read = bits_read + 6 in
        if 8 \<le> bits_read
        then decode_base64_loop
               (mem[len := char_of (drop_bit (bits_read mod 8) val AND 0xFF)]) (Suc i) (Suc len)
               val (bits_read - 8)
        else decode_base64_loop mem (Suc i) len val bits_read)"
  by auto
termination
  by (relation "measure (\<lambda>(mem, i, _). length mem - i)") auto

declare decode_base64_loop.simps [simp del]

definition guac_protocol_decode_base64 :: "char list \<Rightarrow> (nat \<times> char list) option" where
  "guac_protocol_decode_base64 mem = decode_base64_loop mem 0 0 0 0"

text \<open>One step of the loop at a character that is not the end.\<close>

lemma decode_step:
  assumes "mem = pre @ c # post" and "length pre = i" and "c \<noteq> NUL" and "c \<noteq> CHR ''=''"
  shows "decode_base64_loop mem i len v b =
     (let v' = wrap32 (push_bit 6 v OR base64_value c) in
      if 2 \<le> b
      then decode_base64_loop (mem[len := char_of (drop_bit ((b + 6) mod 8) v' AND 0xFF)]) (Suc i)
             (Suc len) v' (b - 2)
      else decode_base64_loop mem (Suc i) len v' (b + 6))"
  using assms by (subst decode_base64_loop.simps) (auto simp: Let_def nth_append)

lemma wrap32_mod: "wrap32 x mod 4096 = x mod 4096"
proof -
  have "(x + 2 ^ 31) mod 2 ^ 32 mod 4096 = (x + 2 ^ 31) mod (4096 :: int)"
    by (rule mod_mod_cancel) simp
  then have "(wrap32 x + 2 ^ 31) mod 4096 = (x + 2 ^ 31) mod 4096" by (simp add: wrap32_def)
  moreover have "(2 ^ 31 :: int) = 4096 * 524288" by simp
  ultimately show ?thesis by (metis mod_mult_self2)
qed

lemma sextet_push:
  assumes "0 \<le> c" and "c < 64"
  shows "wrap32 (push_bit 6 v OR c) mod 4096 = 64 * (v mod 64) + c"
proof -
  have "c AND 0x3F = c mod 64" by (rule and_low)
  then have "push_bit 6 v OR c = 64 * v + c" using read_step [of v c] assms by simp
  then have "wrap32 (push_bit 6 v OR c) mod 4096 = (64 * v + c) mod 4096" using wrap32_mod by simp
  also have "64 * v + c = (64 * (v mod 64) + c) + 4096 * (v div 64)"
    using mult_div_mod_eq [of 64 v] by linarith
  also have "((64 * (v mod 64) + c) + 4096 * (v div 64)) mod 4096 = (64 * (v mod 64) + c) mod 4096"
    by (rule mod_mult_self2)
  also have "\<dots> = 64 * (v mod 64) + c"
    using assms pos_mod_bound [of 64 v] pos_mod_sign [of 64 v] by (intro mod_pos_pos_trivial) auto
  finally show ?thesis .
qed

lemma base64_value_char:
  assumes "0 \<le> i" and "i < 64"
  shows "base64_value (base64_char i) = i" "base64_char i \<noteq> NUL" "base64_char i \<noteq> CHR ''=''"
proof -
  have all: "map base64_value BASE64_CHARACTERS = map int [0..<64]"
    "NUL \<notin> set BASE64_CHARACTERS" "CHR ''='' \<notin> set BASE64_CHARACTERS"
    by code_simp+
  have i: "nat i < length BASE64_CHARACTERS" using assms by (simp add: BASE64_CHARACTERS_def)
  have "base64_value (BASE64_CHARACTERS ! nat i) = map int [0..<64] ! nat i"
    using i by (simp flip: all(1))
  then show "base64_value (base64_char i) = i" using assms by (simp add: base64_char_def)
  have "base64_char i \<in> set BASE64_CHARACTERS" unfolding base64_char_def using i by (rule nth_mem)
  then show "base64_char i \<noteq> NUL" "base64_char i \<noteq> CHR ''=''" using all by auto
qed

text \<open>Two, three and four sextets give one, two and three bytes.\<close>

lemma or_sextet:
  fixes x y :: int
  shows "push_bit 4 (x AND 0x03) OR drop_bit 4 (y AND 0xF0) = 16 * (x mod 4) + y div 16 mod 16"
    "push_bit 2 (x AND 0x0F) OR drop_bit 6 (y AND 0xC0) = 4 * (x mod 16) + y div 64 mod 4"
    "push_bit 4 (x AND 0x03) = 16 * (x mod 4)"  "push_bit 2 (x AND 0x0F) = 4 * (x mod 16)"
    "drop_bit 2 (x AND 0xFC) = x div 4 mod 64"
proof -
  have m: "z AND 0x03 = z mod 4" for z :: int
    using take_bit_eq_mask [of 2 z] by (simp add: take_bit_eq_mod mask_eq_exp_minus_1)
  have e: "drop_bit 4 (y AND 0xF0) = drop_bit 4 y AND 0x0F"
    "drop_bit 6 (y AND 0xC0) = drop_bit 6 y AND 0x03"
    "drop_bit 2 (x AND 0xFC) = drop_bit 2 x AND 0x3F"
    by (simp_all add: drop_bit_and)
  have d: "drop_bit 4 (y AND 0xF0) = y div 16 mod 16" "drop_bit 6 (y AND 0xC0) = y div 64 mod 4"
    "drop_bit 2 (x AND 0xFC) = x div 4 mod 64"
    unfolding e and_4 and_low m by (simp_all add: drop_bit_eq_div)
  show "push_bit 4 (x AND 0x03) = 16 * (x mod 4)" "push_bit 2 (x AND 0x0F) = 4 * (x mod 16)"
    by (simp_all add: m and_4 push_bit_eq_mult)
  show "drop_bit 2 (x AND 0xFC) = x div 4 mod 64" by (rule d(3))
  show "push_bit 4 (x AND 0x03) OR drop_bit 4 (y AND 0xF0) = 16 * (x mod 4) + y div 16 mod 16"
    unfolding d m by (subst or_add [where n = 4]) (simp_all add: push_bit_eq_mult)
  show "push_bit 2 (x AND 0x0F) OR drop_bit 6 (y AND 0xC0) = 4 * (x mod 16) + y div 64 mod 4"
    unfolding d and_4 by (subst or_add [where n = 2]) (simp_all add: push_bit_eq_mult)
qed

lemma sextets_of_bytes:
  fixes x y z :: int
  assumes "0 \<le> x" "x < 256" "0 \<le> y" "y < 256" "0 \<le> z" "z < 256"
  shows "base64_output x y z = map base64_char
           [x div 4, 16 * (x mod 4) + y div 16, 4 * (y mod 16) + z div 64, z mod 64]"
    "base64_output x y (-1) = map base64_char [x div 4, 16 * (x mod 4) + y div 16, 4 * (y mod 16)]
       @ ''=''"
    "base64_output x (-1) (-1) = map base64_char [x div 4, 16 * (x mod 4)] @ ''==''"
  unfolding base64_output_def or_sextet(1,2,5) and_low unfolding or_sextet(3,4) using assms by simp_all

text \<open>The value after each sextet, as far as the bytes depend on it.\<close>

lemma byte_of_sextets:
  fixes v a b :: int
  assumes "v mod 4096 = 64 * a + b" and "0 \<le> a" "a < 64" "0 \<le> b" "b < 64"
  shows "drop_bit 4 v AND 0xFF = 4 * a + b div 16"
    "drop_bit 2 v AND 0xFF = 16 * (a mod 16) + b div 4"
    "drop_bit 0 v AND 0xFF = 64 * (a mod 4) + b"
proof -
  have m: "z AND 0xFF = z mod 256" for z :: int
    using take_bit_eq_mask [of 8 z] by (simp add: take_bit_eq_mod mask_eq_exp_minus_1)
  obtain q where v: "v = 4096 * q + (64 * a + b)"
    using assms(1) mult_div_mod_eq [of 4096 v] by metis
  have w: "(256 * p + t) mod 256 = t" if "0 \<le> t" "t < 256" for p t :: int
    using that by simp
  have "v div 16 = 256 * q + (4 * a + b div 16)" unfolding v by linarith
  then have 1: "v div 16 mod 256 = 4 * a + b div 16"
    using assms(2-5) by (simp only:) (rule w; linarith)
  obtain A r where A: "a = 16 * A + r" "0 \<le> r" "r < 16"
    by (metis mult_div_mod_eq pos_mod_bound pos_mod_sign zero_less_numeral)
  have "v = b + 4 * (1024 * q + 256 * A + 16 * r)" unfolding v A by simp
  then have "v div 4 = (1024 * q + 256 * A + 16 * r) + b div 4" by (simp only: div_mult_self2)
  then have "v div 4 = 256 * (4 * q + A) + (16 * r + b div 4)" by simp
  then have "v div 4 mod 256 = 16 * r + b div 4"
    using A assms(4,5) by (simp only:) (rule w; linarith)
  then have 2: "v div 4 mod 256 = 16 * (a mod 16) + b div 4" using A by simp
  obtain B s where B: "a = 4 * B + s" "0 \<le> s" "s < 4"
    by (metis mult_div_mod_eq pos_mod_bound pos_mod_sign zero_less_numeral)
  have "v = 256 * (16 * q + B) + (64 * s + b)" unfolding v B by simp
  then have "v mod 256 = 64 * s + b" using B assms(4,5) by (simp only:) (rule w; linarith)
  then have 3: "v mod 256 = 64 * (a mod 4) + b" using B by simp
  have p: "(2 :: int) ^ 4 = 16" "(2 :: int) ^ 2 = 4" "(2 :: int) ^ 0 = 1" by simp_all
  show "drop_bit 4 v AND 0xFF = 4 * a + b div 16"
    unfolding m drop_bit_eq_div p by (rule 1)
  show "drop_bit 2 v AND 0xFF = 16 * (a mod 16) + b div 4"
    unfolding m drop_bit_eq_div p by (rule 2)
  show "drop_bit 0 v AND 0xFF = 64 * (a mod 4) + b"
    unfolding m drop_bit_eq_div p div_by_1 by (rule 3)
qed


lemma char_of_uint: "char_of (uint x) = char_of_byte x"
proof -
  have "take_bit 8 (uint x) = uint x" using unsigned_less [of x, where ?'a = int] by (simp add: take_bit_int_eq_self)
  moreover have "(of_char (char_of_byte x) :: int) = uint x"
  proof -
    have "(of_char (char_of_byte x) :: nat) = unat x"
      unfolding char_of_byte_def using unsigned_less [of x, where ?'a = nat] by (simp add: of_char_of)
    then show ?thesis by (metis of_nat_of_char uint_nat)
  qed
  ultimately show ?thesis by (simp add: char_of_eq_iff)
qed

lemma decode_keep:
  assumes "0 \<le> k" "k < 64"
  shows "decode_base64_loop (pre @ base64_char k # post) (length pre) len v 0 =
     decode_base64_loop ((pre @ [base64_char k]) @ post) (Suc (length pre)) len
       (wrap32 (push_bit 6 v OR k)) 6"
  using decode_step [of _ pre "base64_char k" post, OF refl refl] base64_value_char [OF assms]
  by (simp add: Let_def)

lemma decode_store:
  assumes "0 \<le> k" "k < 64" and "2 \<le> b" and "len \<le> length pre"
  shows "decode_base64_loop (pre @ base64_char k # post) (length pre) len v b =
     decode_base64_loop
       ((pre @ [base64_char k])
          [len := char_of (drop_bit ((b + 6) mod 8) (wrap32 (push_bit 6 v OR k)) AND 0xFF)] @ post)
       (Suc (length pre)) (Suc len) (wrap32 (push_bit 6 v OR k)) (b - 2)"
proof -
  have "(pre @ base64_char k # post)[len := y] = (pre @ [base64_char k])[len := y] @ post" for y
    using assms(4) list_update_append1 [of len "pre @ [base64_char k]" post y] by simp
  then show ?thesis
    using decode_step [of _ pre "base64_char k" post, OF refl refl] base64_value_char [OF assms(1,2)]
      assms(3) by (simp add: Let_def)
qed

lemma wrap_sextets:
  assumes "0 \<le> j" "j < 64" "0 \<le> k" "k < 64"
  shows "wrap32 (push_bit 6 (wrap32 (push_bit 6 v OR j)) OR k) mod 4096 = 64 * j + k"
proof -
  have "wrap32 (push_bit 6 v OR j) mod 64 = wrap32 (push_bit 6 v OR j) mod 4096 mod 64"
    by (rule mod_mod_cancel [symmetric]) simp
  also have "\<dots> = j" using sextet_push [OF assms(1,2), of v] assms(1,2) by simp
  finally show ?thesis using sextet_push [OF assms(3,4)] by simp
qed

text \<open>Two characters give a byte, a third gives a second byte, a fourth a third.\<close>

lemma decode_two:
  assumes "0 \<le> j" "j < 64" "0 \<le> k" "k < 64" and "len \<le> length pre"
  shows "\<exists>pre' v'. decode_base64_loop (pre @ base64_char j # base64_char k # post) (length pre) len v 0
       = decode_base64_loop (pre' @ post) (length pre') (Suc len) (wrap32 (push_bit 6 v' OR k)) 4
     \<and> wrap32 (push_bit 6 v' OR k) mod 4096 = 64 * j + k
     \<and> length pre' = length pre + 2
     \<and> take (Suc len) pre' = take len pre @ [char_of (4 * j + k div 16)]"
proof -
  let ?v = "wrap32 (push_bit 6 v OR j)"
  let ?p = "(pre @ [base64_char j, base64_char k])[len := char_of (4 * j + k div 16)]"
  have m: "wrap32 (push_bit 6 ?v OR k) mod 4096 = 64 * j + k" by (rule wrap_sextets [OF assms(1-4)])
  have "decode_base64_loop (pre @ base64_char j # base64_char k # post) (length pre) len v 0
      = decode_base64_loop (?p @ post) (length ?p) (Suc len) (wrap32 (push_bit 6 ?v OR k)) 4"
    using decode_keep [OF assms(1,2), of pre "base64_char k # post" len v]
      decode_store [OF assms(3,4), of 6 len "pre @ [base64_char j]" post ?v] assms(5)
      byte_of_sextets(1) [OF m assms(1-4)] by simp
  moreover have "take (Suc len) ?p = take len pre @ [char_of (4 * j + k div 16)]"
    using assms(5) by (simp add: take_Suc_conv_app_nth nth_append)
  ultimately show ?thesis using m by (intro exI [of _ ?p] exI [of _ ?v]) simp
qed

lemma decode_third:
  assumes "0 \<le> j" "j < 64" "0 \<le> k" "k < 64" and "len \<le> length pre" and "w mod 4096 = 64 * i + j"
  shows "\<exists>pre' v'. decode_base64_loop (pre @ base64_char k # post) (length pre) len w 4
       = decode_base64_loop (pre' @ post) (length pre') (Suc len) v' 2
     \<and> v' mod 4096 = 64 * j + k \<and> length pre' = length pre + 1
     \<and> take (Suc len) pre' = take len pre @ [char_of (16 * (j mod 16) + k div 4)]"
proof -
  let ?v = "wrap32 (push_bit 6 w OR k)"
  let ?p = "(pre @ [base64_char k])[len := char_of (16 * (j mod 16) + k div 4)]"
  have "w mod 64 = w mod 4096 mod 64" by (rule mod_mod_cancel [symmetric]) simp
  then have m: "?v mod 4096 = 64 * j + k" using sextet_push [OF assms(3,4), of w] assms by simp
  have "decode_base64_loop (pre @ base64_char k # post) (length pre) len w 4
      = decode_base64_loop (?p @ post) (length ?p) (Suc len) ?v 2"
    using decode_store [OF assms(3,4), of 4 len pre post w] assms(5)
      byte_of_sextets(2) [OF m assms(1-4)] by simp
  moreover have "take (Suc len) ?p = take len pre @ [char_of (16 * (j mod 16) + k div 4)]"
    using assms(5) by (simp add: take_Suc_conv_app_nth nth_append)
  ultimately show ?thesis using m by (intro exI [of _ ?p] exI [of _ ?v]) simp
qed

lemma decode_fourth:
  assumes "0 \<le> j" "j < 64" "0 \<le> k" "k < 64" and "len \<le> length pre" and "w mod 4096 = 64 * i + j"
  shows "\<exists>pre' v'. decode_base64_loop (pre @ base64_char k # post) (length pre) len w 2
       = decode_base64_loop (pre' @ post) (length pre') (Suc len) v' 0
     \<and> length pre' = length pre + 1
     \<and> take (Suc len) pre' = take len pre @ [char_of (64 * (j mod 4) + k)]"
proof -
  let ?v = "wrap32 (push_bit 6 w OR k)"
  let ?p = "(pre @ [base64_char k])[len := char_of (64 * (j mod 4) + k)]"
  have "w mod 64 = w mod 4096 mod 64" by (rule mod_mod_cancel [symmetric]) simp
  then have m: "?v mod 4096 = 64 * j + k" using sextet_push [OF assms(3,4), of w] assms by simp
  have "decode_base64_loop (pre @ base64_char k # post) (length pre) len w 2
      = decode_base64_loop (?p @ post) (length ?p) (Suc len) ?v 0"
    using decode_store [OF assms(3,4), of 2 len pre post w] assms(5)
      byte_of_sextets(3) [OF m assms(1-4)] by simp
  moreover have "take (Suc len) ?p = take len pre @ [char_of (64 * (j mod 4) + k)]"
    using assms(5) by (simp add: take_Suc_conv_app_nth nth_append)
  ultimately show ?thesis by (intro exI [of _ ?p] exI [of _ ?v]) simp
qed


lemma decode_stop:
  assumes "c = NUL \<or> c = CHR ''=''"
  shows "decode_base64_loop (pre @ c # post) (length pre) len v b = Some (len, pre @ c # post)"
  using assms by (subst decode_base64_loop.simps) auto

text \<open>The sextets of bytes are in range and carry the bytes.\<close>

lemma sextet_ranges:
  fixes x y z :: int
  assumes "0 \<le> x" "x < 256" "0 \<le> y" "y < 256" "0 \<le> z" "z < 256"
  shows "0 \<le> x div 4" "x div 4 < 64" "0 \<le> 16 * (x mod 4) + y div 16"
    "16 * (x mod 4) + y div 16 < 64" "0 \<le> 4 * (y mod 16) + z div 64"
    "4 * (y mod 16) + z div 64 < 64" "0 \<le> 16 * (x mod 4)" "16 * (x mod 4) < 64"
    "0 \<le> 4 * (y mod 16)" "4 * (y mod 16) < 64" "0 \<le> z mod 64" "z mod 64 < 64"
proof -
  have "x div 4 < 64" "y div 16 < 16" "z div 64 < 4" using assms by linarith+
  moreover have "0 \<le> x div 4" "0 \<le> y div 16" "0 \<le> z div 64"
    using assms by (simp_all add: pos_imp_zdiv_nonneg_iff)
  moreover have "x mod 4 < 4" "0 \<le> x mod 4" "y mod 16 < 16" "0 \<le> y mod 16" by simp_all
  ultimately show "0 \<le> x div 4" "x div 4 < 64" "0 \<le> 16 * (x mod 4) + y div 16"
    "16 * (x mod 4) + y div 16 < 64" "0 \<le> 4 * (y mod 16) + z div 64"
    "4 * (y mod 16) + z div 64 < 64" "0 \<le> 16 * (x mod 4)" "16 * (x mod 4) < 64"
    "0 \<le> 4 * (y mod 16)" "4 * (y mod 16) < 64" by linarith+
qed simp_all

lemma sextet_bytes:
  fixes x y z :: int
  assumes "0 \<le> x" "x < 256" "0 \<le> y" "y < 256" "0 \<le> z" "z < 256"
  shows "4 * (x div 4) + 16 * (x mod 4) div 16 = x"
    "4 * (x div 4) + (16 * (x mod 4) + y div 16) div 16 = x"
    "16 * ((16 * (x mod 4) + y div 16) mod 16) + 4 * (y mod 16) div 4 = y"
    "16 * ((16 * (x mod 4) + y div 16) mod 16) + (4 * (y mod 16) + z div 64) div 4 = y"
    "64 * ((4 * (y mod 16) + z div 64) mod 4) + z mod 64 = z"
proof -
  have "y div 16 < 16" "z div 64 < 4" using assms by linarith+
  moreover have "0 \<le> y div 16" "0 \<le> z div 64"
    using assms by (simp_all add: pos_imp_zdiv_nonneg_iff)
  ultimately show "4 * (x div 4) + 16 * (x mod 4) div 16 = x"
    "4 * (x div 4) + (16 * (x mod 4) + y div 16) div 16 = x"
    "16 * ((16 * (x mod 4) + y div 16) mod 16) + 4 * (y mod 16) div 4 = y"
    "16 * ((16 * (x mod 4) + y div 16) mod 16) + (4 * (y mod 16) + z div 64) div 4 = y"
    "64 * ((4 * (y mod 16) + z div 64) mod 4) + z mod 64 = z" by simp_all
qed

text \<open>Decoding what was encoded, whatever stands before and after it in the memory.\<close>

lemma decode_encode:
  assumes "len \<le> length pre"
  shows "\<exists>mem'. decode_base64_loop (pre @ base64_encode bs @ NUL # rest) (length pre) len v 0
       = Some (len + length bs, mem')
     \<and> take (len + length bs) mem' = take len pre @ map char_of_byte bs"
  using assms
proof (induction bs arbitrary: pre len v rule: base64_encode.induct)
  case 1
  then show ?case using decode_stop [of NUL pre rest len v 0] by simp
next
  case (2 x)
  let ?x = "uint x"
  have x: "0 \<le> ?x" "?x < 256" using unsigned_less [of x, where ?'a = int] by simp_all
  have e: "base64_encode [x] = base64_char (?x div 4) # base64_char (16 * (?x mod 4)) # ''==''"
    using sextets_of_bytes(3) [OF x x x] by simp
  have r: "0 \<le> ?x div 4" "?x div 4 < 64" "0 \<le> 16 * (?x mod 4)" "16 * (?x mod 4) < 64"
    by (rule sextet_ranges [OF x x x])+
  from decode_two [OF r 2, of "''=='' @ NUL # rest" v] obtain pre' v' where p:
    "decode_base64_loop (pre @ base64_encode [x] @ NUL # rest) (length pre) len v 0
       = decode_base64_loop (pre' @ ''=='' @ NUL # rest) (length pre') (Suc len) v' 4"
    "length pre' = length pre + 2"
    "take (Suc len) pre' = take len pre @ [char_of (4 * (?x div 4) + 16 * (?x mod 4) div 16)]"
    unfolding e by auto
  have "4 * (?x div 4) + 16 * (?x mod 4) div 16 = ?x" by (rule sextet_bytes [OF x x x])
  with p(3) have "take (Suc len) pre' = take len pre @ [char_of_byte x]"
    by (simp only: char_of_uint)
  moreover have "Suc len \<le> length pre'" using 2 p(2) by simp
  ultimately show ?case
    using p(1) decode_stop [of "CHR ''=''" pre' "CHR ''='' # NUL # rest" "Suc len" v' 4] by simp
next
  case (3 x y)
  let ?x = "uint x" and ?y = "uint y"
  have x: "0 \<le> ?x" "?x < 256" "0 \<le> ?y" "?y < 256"
    using unsigned_less [of x, where ?'a = int] unsigned_less [of y, where ?'a = int] by simp_all
  have e: "base64_encode [x, y] = base64_char (?x div 4) # base64_char (16 * (?x mod 4) + ?y div 16)
      # base64_char (4 * (?y mod 16)) # ''=''"
    using sextets_of_bytes(2) [OF x x(1,2)] by simp
  have r: "0 \<le> ?x div 4" "?x div 4 < 64" "0 \<le> 16 * (?x mod 4) + ?y div 16"
    "16 * (?x mod 4) + ?y div 16 < 64" "0 \<le> 4 * (?y mod 16)" "4 * (?y mod 16) < 64"
    by (rule sextet_ranges [OF x x(1,2)])+
  from decode_two [OF r(1-4) 3, of "base64_char (4 * (?y mod 16)) # ''='' @ NUL # rest" v]
  obtain p1 v1 where p1:
    "decode_base64_loop (pre @ base64_encode [x, y] @ NUL # rest) (length pre) len v 0
       = decode_base64_loop (p1 @ base64_char (4 * (?y mod 16)) # ''='' @ NUL # rest) (length p1)
           (Suc len) v1 4"
    "v1 mod 4096 = 64 * (?x div 4) + (16 * (?x mod 4) + ?y div 16)" "length p1 = length pre + 2"
    "take (Suc len) p1 = take len pre @
       [char_of (4 * (?x div 4) + (16 * (?x mod 4) + ?y div 16) div 16)]"
    unfolding e by auto
  have l1: "Suc len \<le> length p1" using 3 p1(3) by simp
  from decode_third [OF r(3-6) l1 p1(2), of "''='' @ NUL # rest"] obtain p2 v2 where p2:
    "decode_base64_loop (p1 @ base64_char (4 * (?y mod 16)) # ''='' @ NUL # rest) (length p1)
           (Suc len) v1 4
     = decode_base64_loop (p2 @ ''='' @ NUL # rest) (length p2) (Suc (Suc len)) v2 2"
    "length p2 = length p1 + 1"
    "take (Suc (Suc len)) p2 = take (Suc len) p1 @
       [char_of (16 * ((16 * (?x mod 4) + ?y div 16) mod 16) + 4 * (?y mod 16) div 4)]"
    by blast
  have "4 * (?x div 4) + (16 * (?x mod 4) + ?y div 16) div 16 = ?x"
    "16 * ((16 * (?x mod 4) + ?y div 16) mod 16) + 4 * (?y mod 16) div 4 = ?y"
    by (rule sextet_bytes [OF x x(1,2)])+
  with p1(4) p2(3) have "take (Suc (Suc len)) p2 = take len pre @ [char_of_byte x, char_of_byte y]"
    by (simp only: char_of_uint append_assoc append.simps)
  moreover have "Suc (Suc len) \<le> length p2" using l1 p2(2) by simp
  ultimately show ?case
    using p1(1) p2(1) decode_stop [of "CHR ''=''" p2 "NUL # rest" "Suc (Suc len)" v2 2] by simp
next
  case (4 x y z bs)
  let ?x = "uint x" and ?y = "uint y" and ?z = "uint z"
  have x: "0 \<le> ?x" "?x < 256" "0 \<le> ?y" "?y < 256" "0 \<le> ?z" "?z < 256"
    using unsigned_less [of x, where ?'a = int] unsigned_less [of y, where ?'a = int]
      unsigned_less [of z, where ?'a = int] by simp_all
  let ?b = "16 * (?x mod 4) + ?y div 16" and ?c = "4 * (?y mod 16) + ?z div 64"
  have e: "base64_encode (x # y # z # bs) = base64_char (?x div 4) # base64_char ?b
      # base64_char ?c # base64_char (?z mod 64) # base64_encode bs"
    using sextets_of_bytes(1) [OF x] by simp
  have r: "0 \<le> ?x div 4" "?x div 4 < 64" "0 \<le> ?b" "?b < 64" "0 \<le> ?c" "?c < 64" "0 \<le> ?z mod 64"
    "?z mod 64 < 64"
    by (rule sextet_ranges [OF x])+
  let ?post = "base64_encode bs @ NUL # rest"
  from decode_two [OF r(1-4) "4.prems", of "base64_char ?c # base64_char (?z mod 64) # ?post" v]
  obtain p1 v1 where p1:
    "decode_base64_loop (pre @ base64_encode (x # y # z # bs) @ NUL # rest) (length pre) len v 0
       = decode_base64_loop (p1 @ base64_char ?c # base64_char (?z mod 64) # ?post) (length p1)
           (Suc len) v1 4"
    "v1 mod 4096 = 64 * (?x div 4) + ?b" "length p1 = length pre + 2"
    "take (Suc len) p1 = take len pre @ [char_of (4 * (?x div 4) + ?b div 16)]"
    unfolding e by auto
  have l1: "Suc len \<le> length p1" using "4.prems" p1(3) by simp
  from decode_third [OF r(3-6) l1 p1(2), of "base64_char (?z mod 64) # ?post"] obtain p2 v2 where p2:
    "decode_base64_loop (p1 @ base64_char ?c # base64_char (?z mod 64) # ?post) (length p1)
           (Suc len) v1 4
     = decode_base64_loop (p2 @ base64_char (?z mod 64) # ?post) (length p2) (Suc (Suc len)) v2 2"
    "v2 mod 4096 = 64 * ?b + ?c" "length p2 = length p1 + 1"
    "take (Suc (Suc len)) p2 = take (Suc len) p1 @ [char_of (16 * (?b mod 16) + ?c div 4)]"
    by blast
  have l2: "Suc (Suc len) \<le> length p2" using l1 p2(3) by simp
  from decode_fourth [OF r(5-8) l2 p2(2), of ?post] obtain p3 v3 where p3:
    "decode_base64_loop (p2 @ base64_char (?z mod 64) # ?post) (length p2) (Suc (Suc len)) v2 2
     = decode_base64_loop (p3 @ ?post) (length p3) (Suc (Suc (Suc len))) v3 0"
    "length p3 = length p2 + 1"
    "take (Suc (Suc (Suc len))) p3 = take (Suc (Suc len)) p2 @ [char_of (64 * (?c mod 4) + ?z mod 64)]"
    by blast
  have q: "4 * (?x div 4) + ?b div 16 = ?x" "16 * (?b mod 16) + ?c div 4 = ?y"
    "64 * (?c mod 4) + ?z mod 64 = ?z"
    by (rule sextet_bytes [OF x])+
  have t: "take (Suc (Suc (Suc len))) p3 = take len pre @ map char_of_byte [x, y, z]"
    unfolding p3(3) p2(4) p1(4) q char_of_uint by simp
  have "Suc (Suc (Suc len)) \<le> length p3" using l2 p3(2) by simp
  from "4.IH" [OF this, of v3] obtain mem' where
    "decode_base64_loop (p3 @ ?post) (length p3) (Suc (Suc (Suc len))) v3 0
       = Some (Suc (Suc (Suc len)) + length bs, mem')"
    "take (Suc (Suc (Suc len)) + length bs) mem' =
       take (Suc (Suc (Suc len))) p3 @ map char_of_byte bs" by blast
  then show ?case using p1(1) p2(1) p3(1) t by simp
qed

section \<open>Properties\<close>

text \<open>
  Every send function of the protocol writes exactly the instruction of its opcode and
  arguments (each element prefixed with its length in characters), returns zero and gives the
  socket's lock back, on any TCP socket that works.
\<close>

theorem tcp_send_message:
  assumes "\<forall>n \<ge> calls c. fault c n = None"
  shows "\<exists>s'. send_message fmt (guac_socket_boost_tcp_socket c ssl waits clk) m = Some (0, s')
     \<and> tcp_sent (sk_data s') = sent c @ encode_instruction (message_elements fmt m)
     \<and> \<not> socket_mutex (sk_data s') \<and> ready s' = 0"
  using tcp.send_message_ok [of fmt m] assms tcp_socket_wired [of c ssl waits clk]
  unfolding sends_def by (fastforce simp: tcp_up_def tcp_sent_def)

theorem tcp_send_message_witness:
  "\<exists>s'. send_message (\<lambda>d :: unit. [])
       (guac_socket_boost_tcp_socket idle_stream False (\<lambda>_. Wait_Ready) (\<lambda>_. 0))
       (Control_Message (Send_error ''no'' 519)) = Some (0, s')
     \<and> tcp_sent (sk_data s') = ''5.error,2.no,3.519;''"
proof -
  have "encode_instruction [''error'', ''no'', format_int 519] = ''5.error,2.no,3.519;''"
    by (simp add: opcode digits_of_nat.simps digit_chars format_int_def)
  moreover have "sent idle_stream = []" "\<forall>n \<ge> calls idle_stream. fault idle_stream n = None"
    by (simp_all add: idle_stream_def)
  ultimately show ?thesis
    using tcp_send_message [of idle_stream "\<lambda>d :: unit. []" False "\<lambda>_. Wait_Ready" "\<lambda>_. 0"
        "Control_Message (Send_error ''no'' 519)"] by auto
qed

text \<open>
  C4. \<open>guac_protocol_decode_base64\<close> inverts \<open>guac_socket_write_base64\<close>: decoding in place the
  base64 text of any bytes yields their number and leaves the bytes at the start of the memory.
\<close>

theorem base64_decode_inverts_encode:
  "\<exists>mem'. guac_protocol_decode_base64 (base64_encode bs @ NUL # rest) = Some (length bs, mem')
     \<and> take (length bs) mem' = map char_of_byte bs"
  using decode_encode [of 0 "[]" bs rest 0] by (simp add: guac_protocol_decode_base64_def)

end
