(* ===== verification/Parser.thy ===== *)
theory Parser
  imports Protocol
begin

text \<open>
  \<open>libguac/src/parser.c\<close>: the incremental parser of instructions and its buffer.

  \<^item> Pointers into the instruction buffer are offsets into \<open>instructionbuf\<close>; \<open>elementv\<close> is the
    array of 64 of them, \<open>argv\<close> starts at its second entry.
  \<^item> \<open>guac_parser_append\<close> gets the address of its input and the bytes there; it returns those
    bytes as it leaves them (element terminators become \<open>\0\<close>).
  \<^item> A length prefix is accumulated in a 32-bit \<open>int\<close>: \<open>wrap32\<close>.
  \<^item> \<open>None\<close> is a write past the end of \<open>elementv\<close>, or a handler that does not return.

  \<open>awaits\<close> relates a parser to the text it still needs to finish an instruction; the lemmas about
  it show that whatever is cut into whatever pieces is put together again.
\<close>

section \<open>The structure\<close>

definition GUAC_INSTRUCTION_MAX_LENGTH :: int where "GUAC_INSTRUCTION_MAX_LENGTH = 8192"

definition GUAC_INSTRUCTION_MAX_ELEMENTS :: nat where "GUAC_INSTRUCTION_MAX_ELEMENTS = 64"

datatype guac_parse_state =
  GUAC_PARSE_LENGTH | GUAC_PARSE_CONTENT | GUAC_PARSE_COMPLETE | GUAC_PARSE_ERROR

record guac_parser =
  opcode_at :: "nat option"
  argc :: int
  parse_state :: guac_parse_state
  element_length :: int
  elementc :: nat
  elementv :: "nat list"
  unparsed_start :: nat
  unparsed_end :: nat
  instructionbuf :: "char list"

definition guac_parser_reset :: "guac_parser \<Rightarrow> guac_parser" where
  "guac_parser_reset p =
     p\<lparr>opcode_at := None, argc := 0, parse_state := GUAC_PARSE_LENGTH, elementc := 0,
       element_length := 0\<rparr>"

text \<open>The memory \<open>malloc\<close> returns holds arbitrary bytes \<open>junk\<close> and offsets \<open>ptrs\<close>.\<close>

definition guac_parser_alloc :: "char list \<Rightarrow> nat list \<Rightarrow> guac_parser" where
  "guac_parser_alloc junk ptrs =
     guac_parser_reset
       \<lparr>opcode_at = None, argc = 0, parse_state = GUAC_PARSE_LENGTH, element_length = 0,
        elementc = 0, elementv = ptrs, unparsed_start = 0, unparsed_end = 0,
        instructionbuf = junk\<rparr>"

section \<open>Appending data\<close>

text \<open>
  The length prefix: digits are accumulated until the period. The result is the length and the
  number of bytes consumed; \<open>Length_Period\<close> when the period was seen.
\<close>

datatype length_result = Length_More int nat | Length_Period int nat | Length_Bad

fun parse_length :: "char list \<Rightarrow> int \<Rightarrow> nat \<Rightarrow> length_result" where
  "parse_length [] parsed_length k = Length_More parsed_length k"
| "parse_length (c # cs) parsed_length k =
     (if (of_char CHR ''0'' :: int) \<le> of_char c \<and> (of_char c :: int) \<le> of_char CHR ''9''
      then parse_length cs (wrap32 (parsed_length * 10 + of_char c - of_char CHR ''0'')) (Suc k)
      else if c = CHR ''.'' then Length_Period parsed_length (Suc k)
      else Length_Bad)"

text \<open>
  The content: \<open>cs\<close> are the bytes from \<open>char_buffer\<close> to the end of the input. The result is the
  new state, the characters still missing, the number of bytes parsed (0 on error) and the
  bytes with the terminator overwritten.
\<close>

function parse_content ::
  "char list \<Rightarrow> int \<Rightarrow> nat \<Rightarrow> guac_parse_state \<times> int \<times> nat \<times> char list" where
  "parse_content [] len k = (GUAC_PARSE_CONTENT, len, k, [])"
| "parse_content (c # cs) len k =
     (if len < 0 then (GUAC_PARSE_CONTENT, len, k, c # cs)
      else
        let char_length = guac_utf8_charsize c in
        if length (c # cs) < char_length then (GUAC_PARSE_CONTENT, len, k, c # cs)
        else if len = 0 then
          (if c = CHR '';'' then (GUAC_PARSE_COMPLETE, len, k + char_length, NUL # cs)
           else if c = CHR '','' then (GUAC_PARSE_LENGTH, len, k + char_length, NUL # cs)
           else (GUAC_PARSE_ERROR, len, 0, NUL # cs))
        else
          (case parse_content (drop char_length (c # cs)) (len - 1) (k + char_length) of
             (st, len', k', rest) \<Rightarrow> (st, len', k', take char_length (c # cs) @ rest)))"
  by pat_completeness auto
termination
proof (relation "measure (\<lambda>(cs, _, _). length cs)", goal_cases)
  case 1
  show ?case by simp
next
  case (2 c cs len k n)
  then show ?case using charsize_pos [of c] by simp
qed

text \<open>The second half of \<open>guac_parser_append\<close>, from \<open>done\<close> bytes on.\<close>

definition append_content ::
  "guac_parser \<Rightarrow> char list \<Rightarrow> char list \<Rightarrow> guac_parser \<times> char list \<times> nat" where
  "append_content p before cs =
     (case parse_content cs (element_length p) (length before) of
        (st, len, k, cs') \<Rightarrow>
          let p = p\<lparr>parse_state := st, element_length := len\<rparr> in
          (if st = GUAC_PARSE_COMPLETE
           then p\<lparr>opcode_at := Some (elementv p ! 0), argc := int (elementc p) - 1\<rparr> else p,
           before @ cs', k))"

definition guac_parser_append ::
  "guac_parser \<Rightarrow> nat \<Rightarrow> char list \<Rightarrow> (guac_parser \<times> char list \<times> nat) option" where
  "guac_parser_append p addr buffer =
     (if elementc p = GUAC_INSTRUCTION_MAX_ELEMENTS \<and> parse_state p \<noteq> GUAC_PARSE_COMPLETE
      then Some (p\<lparr>parse_state := GUAC_PARSE_ERROR\<rparr>, buffer, 0)
      else if parse_state p = GUAC_PARSE_LENGTH then
        (case parse_length buffer (element_length p) 0 of
           Length_Bad \<Rightarrow> Some (p\<lparr>parse_state := GUAC_PARSE_ERROR\<rparr>, buffer, 0)
         | Length_More parsed_length k \<Rightarrow>
             if GUAC_INSTRUCTION_MAX_LENGTH < parsed_length
             then Some (p\<lparr>parse_state := GUAC_PARSE_ERROR\<rparr>, buffer, 0)
             else Some (p\<lparr>element_length := parsed_length\<rparr>, buffer, k)
         | Length_Period parsed_length k \<Rightarrow>
             if length (elementv p) \<le> elementc p then None
             else
               let p = p\<lparr>parse_state := GUAC_PARSE_CONTENT,
                         elementc := Suc (elementc p),
                         elementv := (elementv p)[elementc p := addr + k]\<rparr> in
               if GUAC_INSTRUCTION_MAX_LENGTH < parsed_length
               then Some (p\<lparr>parse_state := GUAC_PARSE_ERROR\<rparr>, buffer, 0)
               else Some (append_content (p\<lparr>element_length := parsed_length\<rparr>)
                            (take k buffer) (drop k buffer)))
      else if parse_state p = GUAC_PARSE_CONTENT then Some (append_content p [] buffer)
      else Some (p, buffer, 0))"

section \<open>Reading from a socket\<close>

text \<open>The values of \<open>guac_error\<close> these functions set; success leaves it alone and returns 0.\<close>

datatype guac_status =
    GUAC_STATUS_SUCCESS
  | GUAC_STATUS_NO_MEMORY
  | GUAC_STATUS_CLOSED
  | GUAC_STATUS_TIMEOUT
  | GUAC_STATUS_SEE_ERRNO
  | GUAC_STATUS_PROTOCOL_ERROR

text \<open>Up to \<open>tries\<close> (100) waits, each of them \<open>usec_timeout\<close> long; the last result counts.\<close>

fun parser_select :: "nat \<Rightarrow> 's guac_socket \<Rightarrow> int \<Rightarrow> (int \<times> 's guac_socket) option" where
  "parser_select 0 s usec_timeout = Some (0, s)"
| "parser_select (Suc tries) s usec_timeout =
     (case guac_socket_select s usec_timeout of None \<Rightarrow> None
      | Some (retval, s') \<Rightarrow>
          if retval \<le> 0 \<and> tries \<noteq> 0 then parser_select tries s' usec_timeout
          else Some (retval, s'))"

text \<open>
  \<open>make_room\<close>: with the buffer full, move the unfinished instruction to its start and every
  recorded element with it; \<open>None\<close> when it already is there.
\<close>

definition make_room ::
  "guac_parser \<Rightarrow> nat \<Rightarrow> nat \<Rightarrow> nat \<Rightarrow> (guac_parser \<times> nat \<times> nat \<times> nat) option" where
  "make_room p us ue instr =
     (if ue \<noteq> length (instructionbuf p) then Some (p, us, ue, instr)
      else if instr \<noteq> 0 then
        let buf = instructionbuf p; n = ue - instr in
        Some (p\<lparr>elementv := map (\<lambda>a. a - instr) (take (elementc p) (elementv p))
                              @ drop (elementc p) (elementv p),
                instructionbuf := take n (drop instr buf) @ drop n buf\<rparr>,
              us - instr, n, 0)
      else None)"

text \<open>
  \<open>fill_buffer\<close>: wait for data and read as much as fits behind \<open>ue\<close>. The result is the status,
  the parser and the new end.
\<close>

definition fill_buffer ::
  "guac_parser \<Rightarrow> nat \<Rightarrow> 's guac_socket \<Rightarrow> int \<Rightarrow>
   (guac_status \<times> guac_parser \<times> nat \<times> 's guac_socket) option" where
  "fill_buffer p ue s usec_timeout =
     (case parser_select 100 s usec_timeout of None \<Rightarrow> None
      | Some (found, s1) \<Rightarrow>
          if found \<le> 0 then Some (GUAC_STATUS_TIMEOUT, p, ue, s1)
          else
            (case guac_socket_read s1 (length (instructionbuf p) - ue) of None \<Rightarrow> None
             | Some (retval, bs, s2) \<Rightarrow>
                 if retval < 0 then Some (GUAC_STATUS_SEE_ERRNO, p, ue, s2)
                 else if retval = 0 then Some (GUAC_STATUS_CLOSED, p, ue, s2)
                 else if retval \<noteq> int (length bs) \<or> length (instructionbuf p) < ue + length bs
                 then None
                 else Some (GUAC_STATUS_SUCCESS,
                        p\<lparr>instructionbuf :=
                            take ue (instructionbuf p) @ bs
                              @ drop (ue + length bs) (instructionbuf p)\<rparr>,
                        ue + length bs, s2)))"

partial_function (option) parser_read_loop ::
  "guac_parser \<Rightarrow> nat \<Rightarrow> nat \<Rightarrow> nat \<Rightarrow> 's guac_socket \<Rightarrow> int \<Rightarrow>
   (guac_status \<times> guac_parser \<times> 's guac_socket) option" where
  "parser_read_loop p us ue instr s usec_timeout =
     (if parse_state p = GUAC_PARSE_COMPLETE
      then Some (GUAC_STATUS_SUCCESS, p\<lparr>unparsed_start := us, unparsed_end := ue\<rparr>, s)
      else if parse_state p = GUAC_PARSE_ERROR then Some (GUAC_STATUS_PROTOCOL_ERROR, p, s)
      else
        case guac_parser_append p us (take (ue - us) (drop us (instructionbuf p))) of None \<Rightarrow> None
        | Some (p1, cs, parsed) \<Rightarrow>
            let p2 = p1\<lparr>instructionbuf :=
                          take us (instructionbuf p) @ cs @ drop ue (instructionbuf p)\<rparr> in
            if parsed = 0 \<and> parse_state p2 \<noteq> GUAC_PARSE_ERROR then
              (case make_room p2 us ue instr of
                 None \<Rightarrow> Some (GUAC_STATUS_NO_MEMORY, p2, s)
               | Some (p3, us3, ue3, instr3) \<Rightarrow>
                   (case fill_buffer p3 ue3 s usec_timeout of None \<Rightarrow> None
                    | Some (status, p4, ue4, s4) \<Rightarrow>
                        if status \<noteq> GUAC_STATUS_SUCCESS then Some (status, p4, s4)
                        else parser_read_loop p4 us3 ue4 instr3 s4 usec_timeout))
            else parser_read_loop p2 (us + parsed) ue instr s usec_timeout)"

definition guac_parser_read ::
  "guac_parser \<Rightarrow> 's guac_socket \<Rightarrow> int \<Rightarrow>
   (guac_status \<times> guac_parser \<times> 's guac_socket) option" where
  "guac_parser_read p s usec_timeout =
     (let q = (if parse_state p = GUAC_PARSE_COMPLETE then guac_parser_reset p else p) in
      parser_read_loop q (unparsed_start p) (unparsed_end p) (unparsed_start p) s usec_timeout)"

text \<open>The string a pointer into the buffer stands for; the opcode and the arguments.\<close>

definition parser_string :: "guac_parser \<Rightarrow> nat \<Rightarrow> char list" where
  "parser_string p a = c_string (drop a (instructionbuf p))"

definition parser_opcode :: "guac_parser \<Rightarrow> char list option" where
  "parser_opcode p = map_option (parser_string p) (opcode_at p)"

definition parser_argv :: "guac_parser \<Rightarrow> char list list" where
  "parser_argv p = map (parser_string p) (take (nat (argc p)) (drop 1 (elementv p)))"

definition guac_parser_expect ::
  "guac_parser \<Rightarrow> 's guac_socket \<Rightarrow> int \<Rightarrow> char list \<Rightarrow>
   (guac_status \<times> guac_parser \<times> 's guac_socket) option" where
  "guac_parser_expect p s usec_timeout opcode =
     (case guac_parser_read p s usec_timeout of None \<Rightarrow> None
      | Some (status, p', s') \<Rightarrow>
          if status \<noteq> GUAC_STATUS_SUCCESS then Some (status, p', s')
          else if parser_opcode p' \<noteq> Some opcode
          then Some (GUAC_STATUS_PROTOCOL_ERROR, p', s')
          else Some (GUAC_STATUS_SUCCESS, p', s'))"

section \<open>Unparsed data\<close>

definition guac_parser_length :: "guac_parser \<Rightarrow> nat" where
  "guac_parser_length p = unparsed_end p - unparsed_start p"

text \<open>\<open>guac_parser_shift\<close> returns the bytes it copies and the parser without them.\<close>

definition guac_parser_shift :: "guac_parser \<Rightarrow> nat \<Rightarrow> char list \<times> guac_parser" where
  "guac_parser_shift p len =
     (let copy_start = unparsed_start p;
          copy_end = (if len < unparsed_end p - copy_start then copy_start + len
                      else unparsed_end p) in
      (take (copy_end - copy_start) (drop copy_start (instructionbuf p)),
       p\<lparr>unparsed_start := copy_end\<rparr>))"

section \<open>Digits and content, by pieces\<close>

definition is_digit :: "char \<Rightarrow> bool" where
  "is_digit c \<longleftrightarrow> (48 :: int) \<le> of_char c \<and> (of_char c :: int) \<le> 57"

definition digits_value :: "int \<Rightarrow> char list \<Rightarrow> int" where
  "digits_value = foldl (\<lambda>a c. a * 10 + of_char c - 48)"

lemma digits_value_simps [simp]:
  "digits_value a [] = a" "digits_value a (c # cs) = digits_value (a * 10 + of_char c - 48) cs"
  "digits_value a (cs @ ds) = digits_value (digits_value a cs) ds"
  by (simp_all add: digits_value_def)

lemma digits_value_mono:
  "\<forall>c \<in> set cs. is_digit c \<Longrightarrow> 0 \<le> a \<Longrightarrow> a \<le> digits_value a cs"
proof (induction cs arbitrary: a)
  case (Cons c cs)
  then have "48 \<le> (of_char c :: int)" by (simp add: is_digit_def)
  with Cons.prems(2) have "0 \<le> a * 10 + of_char c - 48" "a \<le> a * 10 + of_char c - 48" by linarith+
  with Cons.IH [of "a * 10 + of_char c - 48"] Cons.prems(1) show ?case by auto
qed simp

lemma digits_of_nat_digits:
  "(\<forall>c \<in> set (digits_of_nat n). is_digit c) \<and> digits_value 0 (digits_of_nat n) = int n"
proof (induction n rule: digits_of_nat.induct)
  case (1 n)
  have d: "is_digit (char_of (48 + k)) \<and> (of_char (char_of (48 + k) :: char) :: int) = 48 + int k"
    if "k < 10" for k :: nat
  proof -
    have "of_char (char_of (48 + k) :: char) = 48 + k" using that by (rule digit_char)
    then have "(of_char (char_of (48 + k) :: char) :: int) = 48 + int k"
      by (metis of_nat_of_char of_nat_add of_nat_numeral)
    then show ?thesis using that by (simp add: is_digit_def)
  qed
  show ?case
    using 1 d [of n] d [of "n mod 10"]
    by (subst (1 2) digits_of_nat.simps) (auto simp: zdiv_int zmod_int)
qed

lemma parse_length_more:
  assumes "\<forall>c \<in> set cs. is_digit c" and "0 \<le> a" and "digits_value a cs \<le> 8192"
  shows "parse_length cs a k = Length_More (digits_value a cs) (k + length cs)"
  using assms
proof (induction cs arbitrary: a k)
  case (Cons c cs)
  let ?a = "a * 10 + of_char c - 48"
  have c: "is_digit c" and a: "0 \<le> ?a" using Cons.prems by (auto simp: is_digit_def)
  have "?a \<le> 8192" using digits_value_mono [of cs ?a] Cons.prems a by simp
  with Cons.IH [of ?a] Cons.prems a c show ?case by (simp add: is_digit_def)
qed simp

lemma parse_length_period:
  assumes "\<forall>c \<in> set cs. is_digit c" and "0 \<le> a" and "digits_value a cs \<le> 8192"
  shows "parse_length (cs @ CHR ''.'' # rest) a k
       = Length_Period (digits_value a cs) (k + length cs + 1)"
  using assms
proof (induction cs arbitrary: a k)
  case (Cons c cs)
  let ?a = "a * 10 + of_char c - 48"
  have c: "is_digit c" and a: "0 \<le> ?a" using Cons.prems by (auto simp: is_digit_def)
  have "?a \<le> 8192" using digits_value_mono [of cs ?a] Cons.prems a by simp
  with Cons.IH [of ?a] Cons.prems a c show ?case by (simp add: is_digit_def)
qed simp

declare parse_content.simps(2) [simp del]

text \<open>Content and terminator all there: the element ends.\<close>

lemma parse_content_all:
  assumes "utf8_wf e" and "t = CHR '';'' \<or> t = CHR '',''"
  shows "parse_content (e @ t # rest) (int (utf8_count e)) k
       = (if t = CHR '';'' then GUAC_PARSE_COMPLETE else GUAC_PARSE_LENGTH, 0,
          k + length e + 1, e @ NUL # rest)"
  using assms
proof (induction e arbitrary: k rule: utf8_wf.induct)
  case 1
  then show ?case by (auto simp: parse_content.simps charsize_ranges)
next
  case (2 c cs)
  let ?n = "guac_utf8_charsize c"
  obtain m where m: "?n = Suc m" using charsize_pos [of c] by (cases ?n) auto
  with "2.prems" have l: "m \<le> length cs" "utf8_wf (drop m cs)" by auto
  have "parse_content (c # cs @ t # rest) (int (utf8_count (c # cs))) k
     = (case parse_content (drop m cs @ t # rest) (int (utf8_count (drop m cs))) (k + ?n) of
          (st, len', k', r) \<Rightarrow> (st, len', k', c # take m cs @ r))"
    using m l by (subst parse_content.simps(2)) (simp add: Let_def)
  with "2.IH" [of "k + ?n"] "2.prems" m l show ?case by simp
qed

text \<open>Only a part there: parsing stops at the last whole character.\<close>

lemma parse_content_part:
  assumes "utf8_wf e" and "R @ F = e @ t # ts" and "length R \<le> length e"
  shows "\<exists>a b. e = a @ b \<and> utf8_wf b \<and> length a \<le> length R \<and> take (length a) R = a
     \<and> parse_content R (int (utf8_count e)) k
         = (GUAC_PARSE_CONTENT, int (utf8_count b), k + length a, R)"
  using assms
proof (induction e arbitrary: k R rule: utf8_wf.induct)
  case 1
  then show ?case by auto
next
  case (2 c cs)
  let ?n = "guac_utf8_charsize c"
  obtain m where m: "?n = Suc m" using charsize_pos [of c] by (cases ?n) auto
  with "2.prems" have l: "m \<le> length cs" "utf8_wf (drop m cs)" by auto
  show ?case
  proof (cases "length R < ?n")
    case True
    then have "parse_content R (int (utf8_count (c # cs))) k
        = (GUAC_PARSE_CONTENT, int (utf8_count (c # cs)), k, R)"
      using "2.prems"(2) by (cases R) (auto simp: parse_content.simps Let_def)
    with "2.prems" show ?thesis by (intro exI [of _ "[]"] exI [of _ "c # cs"]) simp
  next
    case False
    then obtain R' where R: "R = c # R'" "m \<le> length R'" using m "2.prems"(2) by (cases R) auto
    have RF: "R' @ F = cs @ t # ts" using "2.prems"(2) R by simp
    have eq: "take m R' = take m cs"
      using arg_cong [OF RF, of "take m"] R(2) l(1) by simp
    have "drop m R' @ F = drop m cs @ t # ts"
      using arg_cong [OF RF, of "drop m"] R(2) l(1) by simp
    moreover have "length (drop m R') \<le> length (drop m cs)" using "2.prems"(3) R by simp
    ultimately obtain a b where ab: "drop m cs = a @ b" "utf8_wf b" "length a \<le> length (drop m R')"
      "take (length a) (drop m R') = a"
      "parse_content (drop m R') (int (utf8_count (drop m cs))) (k + ?n)
         = (GUAC_PARSE_CONTENT, int (utf8_count b), k + ?n + length a, drop m R')"
      using "2.IH" [of "drop m R'" "k + ?n"] l m by auto
    have "parse_content R (int (utf8_count (c # cs))) k
       = (case parse_content (drop m R') (int (utf8_count (drop m cs))) (k + ?n) of
          (st, len', k', r) \<Rightarrow> (st, len', k', c # take m R' @ r))"
      using m R False by (subst R(1), subst parse_content.simps(2)) (simp add: Let_def)
    also have "\<dots> = (GUAC_PARSE_CONTENT, int (utf8_count b), k + ?n + length a, R)"
      using ab(5) R(1) by simp
    finally have p: "parse_content R (int (utf8_count (c # cs))) k
       = (GUAC_PARSE_CONTENT, int (utf8_count b), k + length (c # take m cs @ a), R)"
      using m l by (simp add: algebra_simps)
    have "c # cs = (c # take m cs @ a) @ b"
      using ab(1) append_take_drop_id [of m cs] by simp
    moreover have "take (length (c # take m cs @ a)) R = c # take m cs @ a"
      using R eq ab(4) l by (simp add: take_add)
    moreover have "length (c # take m cs @ a) \<le> length R" using ab(3) R l by simp
    ultimately show ?thesis using p ab(2) by blast
  qed
qed

section \<open>What a parser still waits for\<close>

text \<open>
  \<open>pre\<close> is the part of the buffer before the next unparsed byte. \<open>stored pre a e\<close>: at offset \<open>a\<close>
  of it stands the finished element \<open>e\<close> with its terminator.
\<close>

definition stored :: "char list \<Rightarrow> nat \<Rightarrow> char list \<Rightarrow> bool" where
  "stored pre a e \<longleftrightarrow> take (Suc (length e)) (drop a pre) = e @ [NUL]"

lemma stored_length: "stored pre a e \<Longrightarrow> a + length e < length pre"
  unfolding stored_def by (drule arg_cong [of _ _ length]) auto

lemma stored_extend: "stored pre a e \<Longrightarrow> stored (pre @ x) a e"
  using stored_length [of pre a e] by (simp add: stored_def)

lemma stored_shift: "stored pre a e \<Longrightarrow> d \<le> a \<Longrightarrow> stored (drop d pre) (a - d) e"
  by (simp add: stored_def)

lemma stored_last: "drop a pre = e1 \<Longrightarrow> a \<le> length pre \<Longrightarrow> stored (pre @ e2 @ [NUL]) a (e1 @ e2)"
  by (simp add: stored_def)

definition all_stored :: "guac_parser \<Rightarrow> char list \<Rightarrow> char list list \<Rightarrow> bool" where
  "all_stored p pre ds \<longleftrightarrow> length (elementv p) = 64 \<and> length ds \<le> elementc p
     \<and> (\<forall>i < length ds. stored pre (elementv p ! i) (ds ! i))"

text \<open>Waiting for the rest of a length prefix, or for the rest of an element's content.\<close>

definition awaits_length ::
  "guac_parser \<Rightarrow> char list \<Rightarrow> char list list \<Rightarrow> char list \<Rightarrow> char list \<Rightarrow> bool" where
  "awaits_length p pre ds digs e \<longleftrightarrow> parse_state p = GUAC_PARSE_LENGTH \<and> all_stored p pre ds
     \<and> elementc p = length ds \<and> (\<forall>c \<in> set digs. is_digit c) \<and> 0 \<le> element_length p
     \<and> digits_value (element_length p) digs = int (utf8_count e)"

definition awaits_content ::
  "guac_parser \<Rightarrow> char list \<Rightarrow> char list list \<Rightarrow> char list \<Rightarrow> char list \<Rightarrow> bool" where
  "awaits_content p pre ds e1 e2 \<longleftrightarrow> parse_state p = GUAC_PARSE_CONTENT \<and> all_stored p pre ds
     \<and> elementc p = Suc (length ds) \<and> elementv p ! length ds \<le> length pre
     \<and> drop (elementv p ! length ds) pre = e1 \<and> utf8_wf e2
     \<and> element_length p = int (utf8_count e2)"

text \<open>
  \<open>awaits p pre text es\<close>: once \<open>text\<close> has arrived, the parser will have read the instruction with
  elements \<open>es\<close>. \<open>finished p pre es\<close>: it has.
\<close>

definition awaits :: "guac_parser \<Rightarrow> char list \<Rightarrow> char list \<Rightarrow> char list list \<Rightarrow> bool" where
  "awaits p pre text es \<longleftrightarrow>
     (\<exists>ds digs e fs. awaits_length p pre ds digs e \<and> es = ds @ e # fs
        \<and> text = digs @ CHR ''.'' # e @ encode_tail fs)
   \<or> (\<exists>ds e1 e2 fs. awaits_content p pre ds e1 e2 \<and> es = ds @ (e1 @ e2) # fs
        \<and> text = e2 @ encode_tail fs)"

definition finished :: "guac_parser \<Rightarrow> char list \<Rightarrow> char list list \<Rightarrow> bool" where
  "finished p pre es \<longleftrightarrow> parse_state p = GUAC_PARSE_COMPLETE \<and> all_stored p pre es
     \<and> elementc p = length es \<and> opcode_at p = Some (elementv p ! 0)
     \<and> argc p = int (length es) - 1"

text \<open>The elements the parser accepts however they are cut into pieces.\<close>

definition sendable :: "char list list \<Rightarrow> bool" where
  "sendable es \<longleftrightarrow> es \<noteq> [] \<and> length es < 64
     \<and> (\<forall>e \<in> set es. utf8_wf e \<and> NUL \<notin> set e \<and> utf8_count e \<le> 8192)"

text \<open>The recorded elements lie at or behind \<open>instr\<close>.\<close>

definition behind :: "guac_parser \<Rightarrow> nat \<Rightarrow> bool" where
  "behind p instr \<longleftrightarrow> (\<forall>i < elementc p. instr \<le> elementv p ! i)"

lemma encode_tail_head:
  "\<exists>t ts. encode_tail fs = t # ts \<and> (t = CHR '';'' \<or> t = CHR '','')
     \<and> (fs = [] \<longrightarrow> t = CHR '';'' \<and> ts = [])
     \<and> (\<forall>f gs. fs = f # gs \<longrightarrow> t = CHR '',''
          \<and> ts = digits_of_nat (guac_utf8_strlen f) @ CHR ''.'' # f @ encode_tail gs)"
  by (cases fs) (auto simp: encode_element_def)

lemma all_stored_extend: "all_stored p pre ds \<Longrightarrow> all_stored p (pre @ x) ds"
  by (auto simp: all_stored_def intro: stored_extend)

text \<open>The step that both halves of an append share: content, from a parser that awaits it.\<close>

lemma append_content_step:
  assumes aw: "awaits_content p (pre @ before) ds e1 e2" and good: "sendable (ds @ (e1 @ e2) # fs)"
    and R: "R @ F = e2 @ encode_tail fs @ xs"
  shows "\<exists>p' R' k. append_content p before R = (p', before @ R', length before + k)
     \<and> k \<le> length R \<and> length R' = length R \<and> drop k R' = drop k R
     \<and> elementv p' = elementv p \<and> elementc p' = elementc p
     \<and> ((\<exists>text'. e2 @ encode_tail fs = take k R @ text' \<and> parse_state p' \<noteq> GUAC_PARSE_COMPLETE
           \<and> awaits p' (pre @ before @ take k R') text' (ds @ (e1 @ e2) # fs)
           \<and> (k = 0 \<longrightarrow> length R < length (e2 @ encode_tail fs)))
      \<or> (take k R = e2 @ encode_tail fs
           \<and> finished p' (pre @ before @ take k R') (ds @ (e1 @ e2) # fs)))"
proof -
  from aw have st: "all_stored p (pre @ before) ds" "elementc p = Suc (length ds)"
    "elementv p ! length ds \<le> length (pre @ before)"
    "drop (elementv p ! length ds) (pre @ before) = e1" "utf8_wf e2"
    "element_length p = int (utf8_count e2)"
    by (auto simp: awaits_content_def)
  obtain t ts where t: "encode_tail fs = t # ts" "t = CHR '';'' \<or> t = CHR '',''"
    "fs = [] \<longrightarrow> t = CHR '';'' \<and> ts = []"
    "\<forall>f gs. fs = f # gs \<longrightarrow> t = CHR '',''
       \<and> ts = digits_of_nat (guac_utf8_strlen f) @ CHR ''.'' # f @ encode_tail gs"
    using encode_tail_head [of fs] by blast
  show ?thesis
  proof (cases "length R \<le> length e2")
    case True
    from parse_content_part [OF st(5) _ True, of F t "ts @ xs" "length before"] R t(1)
    obtain a b where ab: "e2 = a @ b" "utf8_wf b" "length a \<le> length R" "take (length a) R = a"
      "parse_content R (int (utf8_count e2)) (length before)
         = (GUAC_PARSE_CONTENT, int (utf8_count b), length before + length a, R)" by auto
    let ?p = "p\<lparr>parse_state := GUAC_PARSE_CONTENT, element_length := int (utf8_count b)\<rparr>"
    have "append_content p before R = (?p, before @ R, length before + length a)"
      using ab(5) st(6) by (simp add: append_content_def Let_def)
    moreover have "awaits_content ?p (pre @ before @ take (length a) R) ds (e1 @ a) b"
      using st ab(2,4) all_stored_extend [OF st(1), of a]
      by (auto simp: awaits_content_def all_stored_def)
    then have "awaits ?p (pre @ before @ take (length a) R) (b @ encode_tail fs)
        (ds @ (e1 @ e2) # fs)"
      unfolding awaits_def ab(1) by (intro disjI2 exI conjI) (assumption, simp_all)
    ultimately show ?thesis
      using ab True t(1) by (intro exI [of _ ?p] exI [of _ R] exI [of _ "length a"]) auto
  next
    case False
    have "take (Suc (length e2)) R = e2 @ [t]"
      using arg_cong [OF R, of "take (Suc (length e2))"] False t(1) by simp
    then have Rt: "R = e2 @ t # drop (Suc (length e2)) R"
      by (metis append_take_drop_id append.assoc append_Cons append_Nil)
    let ?rest = "drop (Suc (length e2)) R"
    let ?k = "Suc (length e2)" and ?R' = "e2 @ NUL # ?rest"
    let ?st = "if t = CHR '';'' then GUAC_PARSE_COMPLETE else GUAC_PARSE_LENGTH"
    let ?q = "p\<lparr>parse_state := ?st, element_length := 0\<rparr>"
    have pc: "parse_content R (element_length p) (length before)
        = (?st, 0, length before + length e2 + 1, ?R')"
      using parse_content_all [OF st(5) t(2), of ?rest "length before"] Rt st(6) by simp
    have len: "length ?R' = length R" using False by simp
    have dr: "drop ?k ?R' = drop ?k R" by simp
    have tk: "take ?k ?R' = e2 @ [NUL]" by simp
    have new: "stored (pre @ before @ e2 @ [NUL]) (elementv p ! length ds) (e1 @ e2)"
      using stored_last [OF st(4,3), of e2] by simp
    have old: "all_stored p (pre @ before @ e2 @ [NUL]) ds"
      using all_stored_extend [OF st(1), of "e2 @ [NUL]"] by simp
    have both: "\<forall>i < length (ds @ [e1 @ e2]).
        stored (pre @ before @ e2 @ [NUL]) (elementv p ! i) ((ds @ [e1 @ e2]) ! i)"
      using old new by (auto simp: all_stored_def nth_append less_Suc_eq)
    show ?thesis
    proof (cases fs)
      case Nil
      let ?p = "?q\<lparr>opcode_at := Some (elementv p ! 0), argc := int (elementc p) - 1\<rparr>"
      have "append_content p before R = (?p, before @ ?R', length before + ?k)"
        using pc t(3) Nil by (simp add: append_content_def Let_def)
      moreover have "finished ?p (pre @ before @ take ?k ?R') (ds @ (e1 @ e2) # fs)"
        unfolding tk using old both st(2) t(3) Nil by (simp add: finished_def all_stored_def)
      moreover have "take ?k R = e2 @ encode_tail fs" using Rt t(1,3) Nil
        by (metis \<open>take (Suc (length e2)) R = e2 @ [t]\<close>)
      ultimately show ?thesis
        using len dr False
        by (intro exI [of _ ?p] exI [of _ ?R'] exI [of _ ?k]) (simp del: take_Suc)
    next
      case (Cons f gs)
      then have tc: "t = CHR '',''"
        "ts = digits_of_nat (guac_utf8_strlen f) @ CHR ''.'' # f @ encode_tail gs" using t(4) by auto
      have f: "guac_utf8_strlen f = utf8_count f" "utf8_count f \<le> 8192"
        using good Cons strlen_count by (auto simp: sendable_def)
      have "append_content p before R = (?q, before @ ?R', length before + ?k)"
        using pc tc(1) by (simp add: append_content_def Let_def)
      moreover have "awaits_length ?q (pre @ before @ take ?k ?R') (ds @ [e1 @ e2])
          (digits_of_nat (utf8_count f)) f"
        unfolding tk using old both st(2) tc(1) digits_of_nat_digits [of "utf8_count f"]
        by (simp add: awaits_length_def all_stored_def)
      then have "awaits ?q (pre @ before @ take ?k ?R') ts (ds @ (e1 @ e2) # fs)"
        unfolding awaits_def tc(2) Cons f(1)
        by (intro disjI1 exI conjI) (assumption, simp_all)
      moreover have "e2 @ encode_tail fs = take ?k R @ ts"
        using \<open>take (Suc (length e2)) R = e2 @ [t]\<close> t(1) by simp
      ultimately show ?thesis
        using len dr False tc(1)
        by (intro exI [of _ ?q] exI [of _ ?R'] exI [of _ ?k]) (simp del: take_Suc, blast?)
    qed
  qed
qed

lemma append_from_content:
  assumes "awaits_content p pre ds e1 e2" and "sendable (ds @ (e1 @ e2) # fs)"
  shows "guac_parser_append p addr R = Some (append_content p [] R)"
  using assms by (auto simp: guac_parser_append_def awaits_content_def sendable_def
      GUAC_INSTRUCTION_MAX_ELEMENTS_def)

lemma append_ok:
  assumes aw: "awaits p pre text es" and good: "sendable es" and R: "R @ F = text @ xs"
  shows "\<exists>p' R' k. guac_parser_append p (length pre) R = Some (p', R', k)
     \<and> k \<le> length R \<and> length R' = length R \<and> drop k R' = drop k R
     \<and> (\<forall>instr \<le> length pre. behind p instr \<longrightarrow> behind p' instr)
     \<and> ((\<exists>text'. text = take k R @ text' \<and> parse_state p' \<noteq> GUAC_PARSE_COMPLETE
           \<and> awaits p' (pre @ take k R') text' es \<and> (k = 0 \<longrightarrow> length R < length text))
      \<or> (take k R = text \<and> finished p' (pre @ take k R') es))"
  using aw [unfolded awaits_def]
proof (elim disjE exE conjE)
  fix ds e1 e2 fs
  assume c: "awaits_content p pre ds e1 e2" "es = ds @ (e1 @ e2) # fs" "text = e2 @ encode_tail fs"
  from append_content_step [of p pre "[]" ds e1 e2 fs R F xs] c good R
  obtain p' R' k where "append_content p [] R = (p', R', k)" "k \<le> length R" "length R' = length R"
    "drop k R' = drop k R" "elementv p' = elementv p" "elementc p' = elementc p"
    "(\<exists>text'. e2 @ encode_tail fs = take k R @ text' \<and> parse_state p' \<noteq> GUAC_PARSE_COMPLETE
           \<and> awaits p' (pre @ take k R') text' (ds @ (e1 @ e2) # fs)
           \<and> (k = 0 \<longrightarrow> length R < length (e2 @ encode_tail fs)))
      \<or> (take k R = e2 @ encode_tail fs
           \<and> finished p' (pre @ take k R') (ds @ (e1 @ e2) # fs))" by auto
  then show ?thesis
    using append_from_content [of p pre ds e1 e2 fs "length pre" R] c good
    by (intro exI [of _ p'] exI [of _ R'] exI [of _ k]) (simp add: behind_def)
next
  fix ds digs e fs
  assume l: "awaits_length p pre ds digs e" "es = ds @ e # fs"
    "text = digs @ CHR ''.'' # e @ encode_tail fs"
  then have st: "parse_state p = GUAC_PARSE_LENGTH" "all_stored p pre ds" "elementc p = length ds"
    "\<forall>c \<in> set digs. is_digit c" "0 \<le> element_length p"
    "digits_value (element_length p) digs = int (utf8_count e)"
    by (auto simp: awaits_length_def)
  have e: "length ds < 64" "utf8_wf e" "utf8_count e \<le> 8192" "length (elementv p) = 64"
    using good l(2) st(2) by (auto simp: sendable_def all_stored_def)
  have bound: "digits_value (element_length p) digs \<le> 8192" using e(3) st(6) by simp
  show ?thesis
  proof (cases "length R \<le> length digs")
    case True
    have "R = take (length R) (digs @ CHR ''.'' # e @ encode_tail fs @ xs)"
      using arg_cong [OF R, of "take (length R)"] l(3) by simp
    then have d: "R = take (length R) digs" using True by simp
    define digs' where "digs' = drop (length R) digs"
    have dd: "digs = R @ digs'" using d unfolding digs'_def by (metis append_take_drop_id)
    have dR: "\<forall>c \<in> set R. is_digit c" "\<forall>c \<in> set digs'. is_digit c" using st(4) dd by auto
    have v: "0 \<le> digits_value (element_length p) R" using digits_value_mono [OF dR(1) st(5)] st(5) by simp
    have "digits_value (element_length p) R \<le> 8192"
      using digits_value_mono [OF dR(2) v] bound dd by simp
    then have pl: "parse_length R (element_length p) 0
        = Length_More (digits_value (element_length p) R) (length R)"
      using parse_length_more [OF dR(1) st(5)] by simp
    let ?p = "p\<lparr>element_length := digits_value (element_length p) R\<rparr>"
    have "guac_parser_append p (length pre) R = Some (?p, R, length R)"
      using pl st(1,3) e(1) \<open>digits_value (element_length p) R \<le> 8192\<close>
      by (simp add: guac_parser_append_def GUAC_INSTRUCTION_MAX_ELEMENTS_def
          GUAC_INSTRUCTION_MAX_LENGTH_def)
    moreover have "awaits_length ?p (pre @ R) ds digs' e"
      using st v dR(2) dd all_stored_extend [OF st(2), of R]
      by (auto simp: awaits_length_def all_stored_def)
    then have "awaits ?p (pre @ take (length R) R) (digs' @ CHR ''.'' # e @ encode_tail fs) es"
      unfolding awaits_def l(2) by (intro disjI1 exI conjI) (simp_all, assumption?)
    ultimately show ?thesis
      using l(3) dd st(1)
      by (intro exI [of _ ?p] exI [of _ R] exI [of _ "length R"]) (auto simp: behind_def)
  next
    case False
    let ?n = "Suc (length digs)"
    have "take ?n R = digs @ [CHR ''.'']"
      using arg_cong [OF R, of "take ?n"] False l(3) by simp
    then have Rd: "R = digs @ CHR ''.'' # drop ?n R"
      by (metis append_take_drop_id append.assoc append_Cons append_Nil)
    have pl: "parse_length R (element_length p) 0
        = Length_Period (digits_value (element_length p) digs) ?n"
      using parse_length_period [OF st(4,5) bound, of "drop ?n R" 0] Rd by simp
    have RF: "drop ?n R @ F = e @ encode_tail fs @ xs"
      using arg_cong [OF R, of "drop ?n"] False l(3) by simp
    let ?before = "digs @ ''.''"
    let ?p = "p\<lparr>parse_state := GUAC_PARSE_CONTENT, elementc := Suc (elementc p),
        elementv := (elementv p)[elementc p := length pre + ?n],
        element_length := digits_value (element_length p) digs\<rparr>"
    have ap: "guac_parser_append p (length pre) R = Some (append_content ?p ?before (drop ?n R))"
      using pl st(1,3) e(1,4) bound \<open>take ?n R = digs @ [CHR ''.'']\<close>
      by (simp add: guac_parser_append_def GUAC_INSTRUCTION_MAX_ELEMENTS_def
          GUAC_INSTRUCTION_MAX_LENGTH_def Let_def)
    have "awaits_content ?p (pre @ ?before) ds [] e"
      using st e all_stored_extend [OF st(2), of ?before]
      by (auto simp: awaits_content_def all_stored_def nth_list_update)
    from append_content_step [OF this, of fs "drop ?n R" F xs] good l(2) RF
    obtain p' R' k where p': "append_content ?p ?before (drop ?n R) = (p', ?before @ R', ?n + k)"
      "k \<le> length (drop ?n R)" "length R' = length (drop ?n R)"
      "drop k R' = drop k (drop ?n R)" "elementv p' = elementv ?p" "elementc p' = elementc ?p"
      "(\<exists>text'. e @ encode_tail fs = take k (drop ?n R) @ text' \<and> parse_state p' \<noteq> GUAC_PARSE_COMPLETE
           \<and> awaits p' (pre @ ?before @ take k R') text' es
           \<and> (k = 0 \<longrightarrow> length (drop ?n R) < length (e @ encode_tail fs)))
      \<or> (take k (drop ?n R) = e @ encode_tail fs
           \<and> finished p' (pre @ ?before @ take k R') es)" by auto
    have tk: "take (?n + k) R = ?before @ take k (drop ?n R)"
      by (simp only: take_add \<open>take ?n R = digs @ [CHR ''.'']\<close>)
    have tk': "take (?n + k) (?before @ R') = ?before @ take k R'" by simp
    have b: "\<forall>instr \<le> length pre. behind p instr \<longrightarrow> behind p' instr"
      using p'(5,6) st(3) e by (auto simp: behind_def nth_list_update less_Suc_eq)
    have k: "?n + k \<le> length R" "length (?before @ R') = length R"
      "drop (?n + k) (?before @ R') = drop (?n + k) R"
      using p'(2,3,4) False by (simp_all add: add.commute)
    show ?thesis
      using ap p'(1,7) b k tk tk' l(3)
      by (intro exI [of _ p'] exI [of _ "?before @ R'"] exI [of _ "?n + k"]) auto
  qed
qed

lemma awaits_fields [simp]:
  "awaits (p\<lparr>instructionbuf := b\<rparr>) pre tx es = awaits p pre tx es"
  "finished (p\<lparr>instructionbuf := b\<rparr>) pre es = finished p pre es"
  "finished (p\<lparr>unparsed_start := u, unparsed_end := v\<rparr>) pre es = finished p pre es"
  "finished (p\<lparr>instructionbuf := b, unparsed_start := u, unparsed_end := v\<rparr>) pre es
     = finished p pre es"
  "behind (p\<lparr>instructionbuf := b\<rparr>) instr = behind p instr"
  by (simp_all add: awaits_def finished_def behind_def awaits_length_def awaits_content_def
      all_stored_def)

lemma awaits_state:
  "awaits p pre text es \<Longrightarrow> parse_state p = GUAC_PARSE_LENGTH \<or> parse_state p = GUAC_PARSE_CONTENT"
  by (auto simp: awaits_def awaits_length_def awaits_content_def)

lemma encode_tail_not_Nil [simp]: "encode_tail fs \<noteq> []"
  by (cases fs) simp_all

lemma awaits_nonempty: "awaits p pre text es \<Longrightarrow> text \<noteq> []"
  by (auto simp: awaits_def)

text \<open>Moving the instruction to the start of the buffer.\<close>

definition shift_elements :: "nat \<Rightarrow> guac_parser \<Rightarrow> guac_parser" where
  "shift_elements d p =
     p\<lparr>elementv := map (\<lambda>a. a - d) (take (elementc p) (elementv p)) @ drop (elementc p) (elementv p)\<rparr>"

lemma all_stored_shift:
  assumes "all_stored p pre ds" and "behind p d" and "elementc p \<le> 64"
  shows "all_stored (shift_elements d p) (drop d pre) ds"
  using assms by (auto simp: all_stored_def shift_elements_def behind_def nth_append
      intro: stored_shift)

lemma awaits_shift:
  assumes aw: "awaits p pre text es" and b: "behind p d" and c: "elementc p \<le> 64"
  shows "awaits (shift_elements d p) (drop d pre) text es"
proof -
  have f: "parse_state (shift_elements d p) = parse_state p"
    "elementc (shift_elements d p) = elementc p"
    "element_length (shift_elements d p) = element_length p"
    by (simp_all add: shift_elements_def)
  have l: "awaits_length (shift_elements d p) (drop d pre) ds digs e"
    if "awaits_length p pre ds digs e" for ds digs e
    using that all_stored_shift [OF _ b c] by (simp add: awaits_length_def f)
  have m: "awaits_content (shift_elements d p) (drop d pre) ds e1 e2"
    if "awaits_content p pre ds e1 e2" for ds e1 e2
  proof -
    have st: "all_stored p pre ds" "elementc p = Suc (length ds)" using that
      by (auto simp: awaits_content_def)
    then have "elementv (shift_elements d p) ! length ds = elementv p ! length ds - d"
      using c by (simp add: shift_elements_def nth_append all_stored_def)
    moreover have "d \<le> elementv p ! length ds" using b st(2) by (simp add: behind_def)
    ultimately show ?thesis
      using that all_stored_shift [OF st(1) b c] by (auto simp: awaits_content_def f)
  qed
  show ?thesis using aw l m unfolding awaits_def by blast
qed

lemma awaits_count: "awaits p pre text es \<Longrightarrow> sendable es \<Longrightarrow> elementc p \<le> 64"
  by (auto simp: awaits_def awaits_length_def awaits_content_def sendable_def)

lemma make_room_ok:
  assumes aw: "awaits p (take us (instructionbuf p)) text es" and "sendable es"
    and "us \<le> ue" "ue \<le> length (instructionbuf p)" "instr \<le> us" and b: "behind p instr"
    and cap: "us - instr + length text \<le> length (instructionbuf p)" and "ue - us < length text"
  shows "\<exists>p' us' ue' instr'. make_room p us ue instr = Some (p', us', ue', instr')
     \<and> awaits p' (take us' (instructionbuf p')) text es
     \<and> us' \<le> ue' \<and> ue' < length (instructionbuf p') \<and> instr' \<le> us' \<and> behind p' instr'
     \<and> us' - instr' = us - instr \<and> ue' - us' = ue - us
     \<and> length (instructionbuf p') = length (instructionbuf p)
     \<and> take (ue' - us') (drop us' (instructionbuf p')) = take (ue - us) (drop us (instructionbuf p))"
proof (cases "ue = length (instructionbuf p)")
  case False
  then show ?thesis using assms by (simp add: make_room_def)
next
  case True
  with assms(3,5,7,8) have i: "0 < instr" by linarith
  let ?buf = "instructionbuf p"
  let ?q = "(shift_elements instr p)\<lparr>instructionbuf :=
     take (ue - instr) (drop instr ?buf) @ drop (ue - instr) ?buf\<rparr>"
  have mr: "make_room p us ue instr = Some (?q, us - instr, ue - instr, 0)"
    using True i by (simp add: make_room_def shift_elements_def Let_def)
  have buf: "instructionbuf ?q = drop instr ?buf @ drop (ue - instr) ?buf" using True by simp
  have tk: "take (us - instr) (instructionbuf ?q) = drop instr (take us ?buf)"
    unfolding buf using assms(3,5) True by (simp add: drop_take)
  have "awaits ?q (take (us - instr) (instructionbuf ?q)) text es"
    unfolding tk using awaits_shift [OF aw b awaits_count [OF aw assms(2)]] by simp
  moreover have "take (ue - us) (drop (us - instr) (instructionbuf ?q)) = take (ue - us) (drop us ?buf)"
    unfolding buf using assms(3,5) True by simp
  moreover have "length (instructionbuf ?q) = length ?buf"
    unfolding buf using assms(3,5) True by simp
  ultimately show ?thesis
    using mr assms(3,5) True i unfolding buf
    by (intro exI [of _ ?q] exI [of _ "us - instr"] exI [of _ "ue - instr"] exI [of _ 0])
      (auto simp: behind_def)
qed

lemma window_fill:
  "us \<le> ue \<Longrightarrow> ue + length bs \<le> length b \<Longrightarrow>
     take (ue + length bs - us) (drop us (take ue b @ bs @ drop (ue + length bs) b))
       = take (ue - us) (drop us b) @ bs"
  by (simp add: drop_take)

context byte_source
begin

lemma parser_select_ok:
  assumes "is_readable s" and "live (sk_data s)" and "pending (sk_data s) \<noteq> []"
  shows "\<exists>r s'. parser_select 100 s t = Some (r, s') \<and> 0 < r
     \<and> pending (sk_data s') = pending (sk_data s) \<and> live (sk_data s') \<and> is_readable s'"
proof -
  from select_ok [OF assms, of t] obtain r s' where "guac_socket_select s t = Some (r, s')" "0 < r"
    "pending (sk_data s') = pending (sk_data s)" "live (sk_data s')" "is_readable s'" by blast
  then show ?thesis using parser_select.simps(2) [of 99 s t] by simp
qed

lemma fill_buffer_ok:
  assumes "is_readable s" and "live (sk_data s)" and "pending (sk_data s) \<noteq> []"
    and "ue < length (instructionbuf p)"
  shows "\<exists>bs s'. fill_buffer p ue s t = Some (GUAC_STATUS_SUCCESS,
        p\<lparr>instructionbuf := take ue (instructionbuf p) @ bs
              @ drop (ue + length bs) (instructionbuf p)\<rparr>, ue + length bs, s')
     \<and> bs \<noteq> [] \<and> ue + length bs \<le> length (instructionbuf p)
     \<and> pending (sk_data s) = bs @ pending (sk_data s') \<and> live (sk_data s') \<and> is_readable s'"
proof -
  from parser_select_ok [OF assms(1-3), of t] obtain r s1 where
    s1: "parser_select 100 s t = Some (r, s1)" "0 < r" "pending (sk_data s1) = pending (sk_data s)"
      "live (sk_data s1)" "is_readable s1" by blast
  from read_ok [OF s1(5,4), of "length (instructionbuf p) - ue"] s1(3) assms(3,4)
  obtain bs s2 where "guac_socket_read s1 (length (instructionbuf p) - ue)
      = Some (int (length bs), bs, s2)" "bs \<noteq> []" "length bs \<le> length (instructionbuf p) - ue"
    "pending (sk_data s) = bs @ pending (sk_data s2)" "live (sk_data s2)" "is_readable s2" by auto
  then show ?thesis using s1(1,2) assms(4) by (auto simp: fill_buffer_def)
qed

lemma read_loop_ok:
  assumes "awaits p (take us (instructionbuf p)) text es" and "sendable es"
    and "us \<le> ue" "ue \<le> length (instructionbuf p)" "instr \<le> us" "behind p instr"
    and "us - instr + length text \<le> length (instructionbuf p)"
    and "is_readable s" "live (sk_data s)"
    and "take (ue - us) (drop us (instructionbuf p)) @ pending (sk_data s) = text @ xs"
  shows "\<exists>p' s'. parser_read_loop p us ue instr s t = Some (GUAC_STATUS_SUCCESS, p', s')
     \<and> finished p' (take (unparsed_start p') (instructionbuf p')) es
     \<and> unparsed_start p' \<le> unparsed_end p' \<and> unparsed_end p' \<le> length (instructionbuf p')
     \<and> length (instructionbuf p') = length (instructionbuf p)
     \<and> take (unparsed_end p' - unparsed_start p') (drop (unparsed_start p') (instructionbuf p'))
         @ pending (sk_data s') = xs
     \<and> live (sk_data s') \<and> is_readable s'"
  using assms
proof (induction "length text + (length text - (ue - us))" arbitrary: p us ue instr s "text"
    rule: less_induct)
  case less
  let ?buf = "instructionbuf p" and ?R = "take (ue - us) (drop us (instructionbuf p))"
  have lR: "length ?R = ue - us" using less.prems(3,4) by simp
  have pre: "length (take us ?buf) = us" using less.prems(3,4) by simp
  from append_ok [OF less.prems(1,2,10), unfolded pre] obtain p1 R' k where
    ap: "guac_parser_append p us ?R = Some (p1, R', k)"
      "k \<le> length ?R" "length R' = length ?R" "drop k R' = drop k ?R"
      "\<forall>instr \<le> us. behind p instr \<longrightarrow> behind p1 instr"
      "(\<exists>text'. text = take k ?R @ text' \<and> parse_state p1 \<noteq> GUAC_PARSE_COMPLETE
           \<and> awaits p1 (take us ?buf @ take k R') text' es \<and> (k = 0 \<longrightarrow> length ?R < length text))
       \<or> (take k ?R = text \<and> finished p1 (take us ?buf @ take k R') es)"
    by (elim exE conjE) (rule that; assumption)
  let ?b = "take us ?buf @ R' @ drop ue ?buf"
  let ?p2 = "p1\<lparr>instructionbuf := ?b\<rparr>"
  have lb: "length ?b = length ?buf" using ap(3) lR less.prems(3,4) by simp
  have tb: "take (us + k) ?b = take us ?buf @ take k R'"
    using ap(2,3) pre by simp
  have db: "take (ue - (us + k)) (drop (us + k) ?b) = drop k ?R"
    using ap(2,3,4) pre lR by simp
  have st: "parse_state p = GUAC_PARSE_LENGTH \<or> parse_state p = GUAC_PARSE_CONTENT"
    using awaits_state less.prems(1) by blast
  have unfold: "parser_read_loop p us ue instr s t =
     (if k = 0 \<and> parse_state p1 \<noteq> GUAC_PARSE_ERROR then
        (case make_room ?p2 us ue instr of
           None \<Rightarrow> Some (GUAC_STATUS_NO_MEMORY, ?p2, s)
         | Some (p3, us3, ue3, instr3) \<Rightarrow>
             (case fill_buffer p3 ue3 s t of None \<Rightarrow> None
              | Some (status, p4, ue4, s4) \<Rightarrow>
                  if status \<noteq> GUAC_STATUS_SUCCESS then Some (status, p4, s4)
                  else parser_read_loop p4 us3 ue4 instr3 s4 t))
      else parser_read_loop ?p2 (us + k) ue instr s t)"
  proof -
    have st': "parse_state p \<noteq> GUAC_PARSE_COMPLETE" "parse_state p \<noteq> GUAC_PARSE_ERROR"
      using st by auto
    show ?thesis
      by (rule trans [OF parser_read_loop.simps])
        (simp only: st' ap(1) if_False option.case prod.case Let_def simp_thms, simp)
  qed
  have nonempty: "text \<noteq> []" using awaits_nonempty less.prems(1) by blast
  from ap(6) show ?case
  proof (elim disjE exE conjE)
    assume fin: "take k ?R = text" "finished p1 (take us ?buf @ take k R') es"
    then have k: "k \<noteq> 0" "parse_state p1 = GUAC_PARSE_COMPLETE"
      using nonempty by (auto simp: finished_def)
    then have "parser_read_loop p us ue instr s t = Some (GUAC_STATUS_SUCCESS,
        ?p2\<lparr>unparsed_start := us + k, unparsed_end := ue\<rparr>, s)"
      using unfold by (simp add: parser_read_loop.simps [of ?p2])
    moreover have "drop k ?R @ pending (sk_data s) = xs"
      using less.prems(10) fin(1) by (metis append.assoc append_same_eq append_take_drop_id same_append_eq)
    ultimately show ?thesis
      using fin(2) tb db lb less.prems ap(2) lR by simp
  next
    fix text'
    assume go: "text = take k ?R @ text'" "parse_state p1 \<noteq> GUAC_PARSE_COMPLETE"
      "awaits p1 (take us ?buf @ take k R') text' es" "k = 0 \<longrightarrow> length ?R < length text"
    have ne: "parse_state p1 \<noteq> GUAC_PARSE_ERROR" using awaits_state [OF go(3)] by auto
    have rest: "drop k ?R @ pending (sk_data s) = text' @ xs"
      using less.prems(10) go(1) by (metis append.assoc append_take_drop_id same_append_eq)
    have lt: "length text = k + length text'" using go(1) ap(2) by simp
    have b1: "behind p1 instr" using ap(5) less.prems(5,6) by blast
    show ?thesis
    proof (cases "k = 0")
      case False
      have "\<exists>p' s'. parser_read_loop ?p2 (us + k) ue instr s t = Some (GUAC_STATUS_SUCCESS, p', s')
         \<and> finished p' (take (unparsed_start p') (instructionbuf p')) es
         \<and> unparsed_start p' \<le> unparsed_end p' \<and> unparsed_end p' \<le> length (instructionbuf p')
         \<and> length (instructionbuf p') = length (instructionbuf ?p2)
         \<and> take (unparsed_end p' - unparsed_start p') (drop (unparsed_start p') (instructionbuf p'))
             @ pending (sk_data s') = xs
         \<and> live (sk_data s') \<and> is_readable s'"
      proof (rule less.hyps [of text' ue "us + k"])
        show "length text' + (length text' - (ue - (us + k))) < length text + (length text - (ue - us))"
          using False lt ap(2) lR by linarith
        show "awaits ?p2 (take (us + k) (instructionbuf ?p2)) text' es" using go(3) tb by simp
        show "take (ue - (us + k)) (drop (us + k) (instructionbuf ?p2)) @ pending (sk_data s)
            = text' @ xs" using rest db by simp
        show "us + k - instr + length text' \<le> length (instructionbuf ?p2)"
          using less.prems(5,7) lt lb by simp
      qed (use less.prems(2,3,4,5,8,9) b1 ap(2) lR lb in simp_all)
      then show ?thesis using unfold False lb by simp
    next
      case True
      then have go0: "text' = text" "length ?R < length text" using go(1,4) by simp_all
      have pend: "pending (sk_data s) \<noteq> []"
      proof
        assume "pending (sk_data s) = []"
        then have "?R = text @ xs" using less.prems(10) by simp
        then show False using go0(2) by simp
      qed
      have "take us (instructionbuf ?p2) = take us ?buf" using pre by simp
      moreover have "awaits p1 (take us ?buf) text es" using go(3) go0(1) True by simp
      ultimately have aw2: "awaits ?p2 (take us (instructionbuf ?p2)) text es"
        by (simp only: awaits_fields)
      have dr: "take (ue - us) (drop us (instructionbuf ?p2)) = ?R" using db True by simp
      have h: "ue \<le> length (instructionbuf ?p2)" "behind ?p2 instr"
        "us - instr + length text \<le> length (instructionbuf ?p2)" "ue - us < length text"
        using less.prems(4,7) lb b1 go0(2) lR by simp_all
      from make_room_ok [OF aw2 less.prems(2,3) h(1) less.prems(5) h(2-4), unfolded dr]
      obtain p3 us3 ue3 instr3 where mr: "make_room ?p2 us ue instr = Some (p3, us3, ue3, instr3)"
        "awaits p3 (take us3 (instructionbuf p3)) text es" "us3 \<le> ue3"
        "ue3 < length (instructionbuf p3)" "instr3 \<le> us3" "behind p3 instr3"
        "us3 - instr3 = us - instr" "ue3 - us3 = ue - us"
        "length (instructionbuf p3) = length (instructionbuf ?p2)"
        "take (ue3 - us3) (drop us3 (instructionbuf p3)) = ?R"
        by (elim exE conjE) (rule that; assumption)
      have mr9: "length (instructionbuf p3) = length ?buf" using mr(9) lb by simp
      from fill_buffer_ok [OF less.prems(8,9) pend mr(4), of t] obtain bs s4 where
        fb: "fill_buffer p3 ue3 s t = Some (GUAC_STATUS_SUCCESS,
            p3\<lparr>instructionbuf := take ue3 (instructionbuf p3) @ bs
              @ drop (ue3 + length bs) (instructionbuf p3)\<rparr>, ue3 + length bs, s4)"
          "bs \<noteq> []" "ue3 + length bs \<le> length (instructionbuf p3)"
          "pending (sk_data s) = bs @ pending (sk_data s4)" "live (sk_data s4)" "is_readable s4"
        by blast
      let ?b4 = "take ue3 (instructionbuf p3) @ bs @ drop (ue3 + length bs) (instructionbuf p3)"
      let ?p4 = "p3\<lparr>instructionbuf := ?b4\<rparr>"
      have lb4: "length ?b4 = length ?buf" using fb(3) mr9 by simp
      have t4: "take us3 ?b4 = take us3 (instructionbuf p3)" using mr(3,4) by simp
      have d4: "take (ue3 + length bs - us3) (drop us3 ?b4) = ?R @ bs"
        using window_fill [OF mr(3) fb(3)] mr(10) by simp
      have "\<exists>p' s'. parser_read_loop ?p4 us3 (ue3 + length bs) instr3 s4 t
            = Some (GUAC_STATUS_SUCCESS, p', s')
         \<and> finished p' (take (unparsed_start p') (instructionbuf p')) es
         \<and> unparsed_start p' \<le> unparsed_end p' \<and> unparsed_end p' \<le> length (instructionbuf p')
         \<and> length (instructionbuf p') = length (instructionbuf ?p4)
         \<and> take (unparsed_end p' - unparsed_start p') (drop (unparsed_start p') (instructionbuf p'))
             @ pending (sk_data s') = xs
         \<and> live (sk_data s') \<and> is_readable s'"
      proof (rule less.hyps [of "text" "ue3 + length bs" us3])
        have "0 < length bs" using fb(2) by simp
        then show "length text + (length text - (ue3 + length bs - us3))
            < length text + (length text - (ue - us))"
          using go0(2) lR mr(3,8) by linarith
        show "awaits ?p4 (take us3 (instructionbuf ?p4)) text es" using mr(2) t4 by simp
        show "take (ue3 + length bs - us3) (drop us3 (instructionbuf ?p4)) @ pending (sk_data s4)
            = text @ xs" using less.prems(10) d4 fb(4) by simp
        show "us3 - instr3 + length text \<le> length (instructionbuf ?p4)"
          using less.prems(7) mr(7) lb4 by simp
        show "ue3 + length bs \<le> length (instructionbuf ?p4)" using fb(3) lb4 mr9 by simp
      qed (use less.prems(2) mr(3,5,6) fb(5,6) in simp_all)
      then show ?thesis using unfold True ne mr(1) fb(1) lb4 by simp
    qed
  qed
qed

end

section \<open>Whole instructions\<close>

text \<open>Between instructions, and the bytes that have been read but not parsed.\<close>

definition parser_idle :: "guac_parser \<Rightarrow> bool" where
  "parser_idle p \<longleftrightarrow>
     (parse_state p = GUAC_PARSE_COMPLETE
      \<or> parse_state p = GUAC_PARSE_LENGTH \<and> elementc p = 0 \<and> element_length p = 0)
     \<and> length (elementv p) = 64 \<and> length (instructionbuf p) = 32768
     \<and> unparsed_start p \<le> unparsed_end p \<and> unparsed_end p \<le> length (instructionbuf p)"

definition unread :: "guac_parser \<Rightarrow> char list" where
  "unread p = take (unparsed_end p - unparsed_start p) (drop (unparsed_start p) (instructionbuf p))"

definition fits :: "char list list \<Rightarrow> bool" where
  "fits es \<longleftrightarrow> sendable es \<and> length (encode_instruction es) \<le> 32768"

lemma parser_alloc_idle:
  "length junk = 32768 \<Longrightarrow> length ptrs = 64 \<Longrightarrow>
     parser_idle (guac_parser_alloc junk ptrs) \<and> unread (guac_parser_alloc junk ptrs) = []"
  by (simp add: parser_idle_def unread_def guac_parser_alloc_def guac_parser_reset_def)

lemma stored_string:
  assumes "stored (take n buf) a e" and "NUL \<notin> set e"
  shows "c_string (drop a buf) = e"
proof -
  have l: "a + length e < length (take n buf)" by (rule stored_length [OF assms(1)])
  have "take (Suc (length e)) (drop a (take n buf)) = take (Suc (length e)) (drop a buf)"
  proof -
    have "Suc (length e) \<le> n - a" using l by auto
    then show ?thesis by (simp add: drop_take min_absorb1)
  qed
  then have "take (Suc (length e)) (drop a buf) = e @ [NUL]"
    using assms(1) by (simp add: stored_def)
  then have "drop a buf = e @ NUL # drop (Suc (length e)) (drop a buf)"
    by (metis append_take_drop_id append.assoc append_Cons append_Nil)
  then show ?thesis using c_string_append_NUL [OF assms(2)] by metis
qed

lemma finished_strings:
  assumes "finished p (take n (instructionbuf p)) es" and "sendable es"
  shows "parser_opcode p = Some (hd es) \<and> parser_argv p = tl es"
proof -
  from assms have st: "\<forall>i < length es. parser_string p (elementv p ! i) = es ! i"
    "opcode_at p = Some (elementv p ! 0)" "argc p = int (length es) - 1" "length (elementv p) = 64"
    "es \<noteq> []" "length es < 64"
    using stored_string by (auto simp: finished_def all_stored_def sendable_def parser_string_def)
  have "map (parser_string p) (take (length es) (elementv p)) = es"
    using st by (intro nth_equalityI) auto
  then have m: "map (parser_string p) (take (length es - 1) (drop 1 (elementv p))) = tl es"
    by (metis drop_Suc drop_take map_tl One_nat_def tl_drop drop0 take_tl)
  have "nat (argc p) = length es - 1" using st(3) by simp
  then have "parser_argv p = tl es" using m by (simp add: parser_argv_def)
  then show ?thesis using st by (simp add: parser_opcode_def hd_conv_nth)
qed

lemma idle_awaits:
  assumes "parser_idle p" and "sendable es"
  defines "q \<equiv> (if parse_state p = GUAC_PARSE_COMPLETE then guac_parser_reset p else p)"
  shows "awaits q (take (unparsed_start p) (instructionbuf q)) (encode_instruction es) es
     \<and> behind q (unparsed_start p) \<and> instructionbuf q = instructionbuf p"
proof -
  obtain e fs where es: "es = e # fs" using assms(2) by (cases es) (auto simp: sendable_def)
  have c: "guac_utf8_strlen e = utf8_count e"
    using assms(2) strlen_count es by (auto simp: sendable_def)
  have q: "parse_state q = GUAC_PARSE_LENGTH" "elementc q = 0" "element_length q = 0"
    "length (elementv q) = 64" "instructionbuf q = instructionbuf p"
    using assms(1) by (auto simp: q_def parser_idle_def guac_parser_reset_def)
  then have "awaits_length q (take (unparsed_start p) (instructionbuf q)) []
      (digits_of_nat (utf8_count e)) e"
    using digits_of_nat_digits [of "utf8_count e"] by (simp add: awaits_length_def all_stored_def)
  then show ?thesis
    using q c es unfolding awaits_def
    by (intro conjI disjI1 exI) (assumption, auto simp: encode_element_def behind_def)
qed

context byte_source
begin

lemma parser_read_ok:
  assumes "parser_idle p" and "fits es" and "is_readable s" and "live (sk_data s)"
    and "unread p @ pending (sk_data s) = encode_instruction es @ xs"
  shows "\<exists>p' s'. guac_parser_read p s t = Some (GUAC_STATUS_SUCCESS, p', s')
     \<and> parser_opcode p' = Some (hd es) \<and> parser_argv p' = tl es
     \<and> parser_idle p' \<and> is_readable s' \<and> live (sk_data s')
     \<and> unread p' @ pending (sk_data s') = xs"
proof -
  let ?q = "if parse_state p = GUAC_PARSE_COMPLETE then guac_parser_reset p else p"
  have f: "sendable es" "length (encode_instruction es) \<le> 32768" using assms(2)
    by (auto simp: fits_def)
  from idle_awaits [OF assms(1) f(1)] have q:
    "awaits ?q (take (unparsed_start p) (instructionbuf ?q)) (encode_instruction es) es"
    "behind ?q (unparsed_start p)" "instructionbuf ?q = instructionbuf p" by blast+
  have i: "unparsed_start p \<le> unparsed_end p" "unparsed_end p \<le> length (instructionbuf ?q)"
    "unparsed_start p - unparsed_start p + length (encode_instruction es) \<le> length (instructionbuf ?q)"
    using assms(1) f(2) q(3) by (auto simp: parser_idle_def)
  from read_loop_ok [OF q(1) f(1) i(1,2) order_refl q(2) i(3) assms(3,4), of xs t]
    assms(5) q(3)
  obtain p' s' where r: "parser_read_loop ?q (unparsed_start p) (unparsed_end p) (unparsed_start p) s t
      = Some (GUAC_STATUS_SUCCESS, p', s')"
    "finished p' (take (unparsed_start p') (instructionbuf p')) es"
    "unparsed_start p' \<le> unparsed_end p'" "unparsed_end p' \<le> length (instructionbuf p')"
    "length (instructionbuf p') = length (instructionbuf ?q)"
    "unread p' @ pending (sk_data s') = xs" "live (sk_data s')" "is_readable s'"
    unfolding unread_def q(3) by blast
  have "guac_parser_read p s t = Some (GUAC_STATUS_SUCCESS, p', s')"
    using r(1) by (simp add: guac_parser_read_def Let_def)
  moreover have "parser_idle p'"
    using r(2-5) q(3) assms(1) by (auto simp: parser_idle_def finished_def all_stored_def)
  ultimately show ?thesis using finished_strings [OF r(2) f(1)] r(6-8) by blast
qed

end

text \<open>Reading several instructions in a row: the opcode and arguments of each.\<close>

fun parser_read_many ::
  "nat \<Rightarrow> guac_parser \<Rightarrow> 's guac_socket \<Rightarrow> int \<Rightarrow> (char list \<times> char list list) list option" where
  "parser_read_many 0 p s t = Some []"
| "parser_read_many (Suc n) p s t =
     (case guac_parser_read p s t of None \<Rightarrow> None
      | Some (status, p', s') \<Rightarrow>
          (case parser_opcode p' of None \<Rightarrow> None
           | Some op \<Rightarrow>
               if status \<noteq> GUAC_STATUS_SUCCESS then None
               else map_option (Cons (op, parser_argv p')) (parser_read_many n p' s' t)))"

context byte_source
begin

lemma read_many_ok:
  assumes "parser_idle p" and "\<forall>es \<in> set ess. fits es" and "is_readable s" and "live (sk_data s)"
    and "unread p @ pending (sk_data s) = concat (map encode_instruction ess)"
  shows "parser_read_many (length ess) p s t = Some (map (\<lambda>es. (hd es, tl es)) ess)"
  using assms
proof (induction ess arbitrary: p s)
  case (Cons es ess)
  from parser_read_ok [of p es s "concat (map encode_instruction ess)" t] Cons.prems
  obtain p' s' where "guac_parser_read p s t = Some (GUAC_STATUS_SUCCESS, p', s')"
     "parser_opcode p' = Some (hd es)" "parser_argv p' = tl es"
     "parser_idle p'" "is_readable s'" "live (sk_data s')"
     "unread p' @ pending (sk_data s') = concat (map encode_instruction ess)" by auto
  with Cons.IH [of p' s'] Cons.prems(2) show ?case by simp
qed simp

end

section \<open>Arbitrary input\<close>

text \<open>
  The shape of a parser that keeps every access in bounds; it holds of a fresh parser and is
  kept whatever the input is.
\<close>

definition parser_shape :: "guac_parser \<Rightarrow> bool" where
  "parser_shape p \<longleftrightarrow> length (elementv p) = 64 \<and> elementc p \<le> 64
     \<and> unparsed_start p \<le> unparsed_end p \<and> unparsed_end p \<le> length (instructionbuf p)"

lemma parse_length_bound:
  "parse_length cs a k = Length_More a' k' \<Longrightarrow> k' \<le> k + length cs"
  "parse_length cs a k = Length_Period a' k' \<Longrightarrow> k' \<le> k + length cs"
  by (induction cs a k rule: parse_length.induct) (auto split: if_splits)

lemma parse_content_bound:
  "parse_content cs len k = (st, len', k', cs') \<Longrightarrow> length cs' = length cs \<and> k' \<le> k + length cs"
proof (induction cs len k arbitrary: st len' k' cs' rule: parse_content.induct)
  case (2 c cs len k)
  let ?n = "guac_utf8_charsize c"
  have pos: "0 < ?n" by simp
  show ?case
  proof (cases "\<not> len < 0 \<and> \<not> length (c # cs) < ?n \<and> len \<noteq> 0")
    case True
    obtain s l j r where r: "parse_content (drop ?n (c # cs)) (len - 1) (k + ?n) = (s, l, j, r)"
      by (cases "parse_content (drop ?n (c # cs)) (len - 1) (k + ?n)") auto
    have ih: "length r = length (drop ?n (c # cs)) \<and> j \<le> k + ?n + length (drop ?n (c # cs))"
      using "2.IH" [of ?n s l j r] True r by auto
    have "st = s \<and> len' = l \<and> k' = j \<and> cs' = take ?n (c # cs) @ r"
      using "2.prems" True r by (simp add: parse_content.simps(2) Let_def)
    then show ?thesis using ih True by auto
  next
    case False
    then show ?thesis using "2.prems" pos
      by (auto simp: parse_content.simps(2) Let_def split: if_splits)
  qed
qed simp

lemma append_shape:
  assumes "length (elementv p) = 64" and "elementc p \<le> 64"
  shows "\<exists>p' R' k. guac_parser_append p addr R = Some (p', R', k) \<and> length R' = length R
     \<and> k \<le> length R \<and> length (elementv p') = 64 \<and> elementc p' \<le> 64
     \<and> unparsed_start p' = unparsed_start p \<and> unparsed_end p' = unparsed_end p"
proof -
  have c: "\<exists>p' R' k. append_content q before cs = (p', R', k)
      \<and> length R' = length before + length cs \<and> k \<le> length before + length cs
      \<and> elementv p' = elementv q \<and> elementc p' = elementc q
      \<and> unparsed_start p' = unparsed_start q \<and> unparsed_end p' = unparsed_end q" for q before cs
  proof -
    obtain st len k cs' where r: "parse_content cs (element_length q) (length before) = (st, len, k, cs')"
      by (cases "parse_content cs (element_length q) (length before)") auto
    from parse_content_bound [OF r] r show ?thesis by (simp add: append_content_def Let_def)
  qed
  show ?thesis
  proof (cases "elementc p = 64 \<and> parse_state p \<noteq> GUAC_PARSE_COMPLETE")
    case True
    then show ?thesis using assms
      by (simp add: guac_parser_append_def GUAC_INSTRUCTION_MAX_ELEMENTS_def)
  next
    case False
    show ?thesis
    proof (cases "parse_state p = GUAC_PARSE_LENGTH")
      case True
      with False assms have lt: "elementc p < 64" by auto
      show ?thesis
      proof (cases "parse_length R (element_length p) 0")
        case (Length_More a k)
        with True lt assms parse_length_bound(1) [OF Length_More] show ?thesis
          by (simp add: guac_parser_append_def GUAC_INSTRUCTION_MAX_ELEMENTS_def)
      next
        case (Length_Period a k)
        have k: "k \<le> length R" using parse_length_bound(2) [OF Length_Period] by simp
        let ?q = "p\<lparr>parse_state := GUAC_PARSE_CONTENT, elementc := Suc (elementc p),
           elementv := (elementv p)[elementc p := addr + k], element_length := a\<rparr>"
        from c [of ?q "take k R" "drop k R"] Length_Period True lt assms k show ?thesis
          by (auto simp: guac_parser_append_def GUAC_INSTRUCTION_MAX_ELEMENTS_def Let_def)
      next
        case Length_Bad
        with True lt assms show ?thesis
          by (simp add: guac_parser_append_def GUAC_INSTRUCTION_MAX_ELEMENTS_def)
      qed
    next
      case no_length: False
      from c [of p "[]" R] False no_length assms show ?thesis
        by (cases "parse_state p")
          (auto simp: guac_parser_append_def GUAC_INSTRUCTION_MAX_ELEMENTS_def)
    qed
  qed
qed

text \<open>A TCP socket's handlers always return, and a read delivers what it takes from the network.\<close>

lemma tcp_select_total:
  assumes "tcp_in.is_readable s"
  shows "\<exists>r s'. guac_socket_select s t = Some (r, s') \<and> tcp_in.is_readable s'
     \<and> tcp_pending (sk_data s') = tcp_pending (sk_data s)"
  using assms by (auto simp: guac_socket_select_def readable_def tcp_select_handler_def Let_def
      tcp_pending_def split: asio_wait.splits)

lemma tcp_parser_select_total:
  "tcp_in.is_readable s \<Longrightarrow> \<exists>r s'. parser_select n s t = Some (r, s') \<and> tcp_in.is_readable s'
     \<and> tcp_pending (sk_data s') = tcp_pending (sk_data s)"
proof (induction n arbitrary: s)
  case (Suc n)
  from tcp_select_total [OF Suc.prems, of t] obtain r s' where
    s': "guac_socket_select s t = Some (r, s')" "tcp_in.is_readable s'"
      "tcp_pending (sk_data s') = tcp_pending (sk_data s)" by blast
  with Suc.IH [OF s'(2)] show ?case by auto
qed simp

lemma tcp_read_total:
  assumes "tcp_in.is_readable s"
  shows "\<exists>bs s'. guac_socket_read s count = Some (int (length bs), bs, s')
     \<and> tcp_in.is_readable s' \<and> length bs \<le> count
     \<and> (bs \<noteq> [] \<longrightarrow> length (tcp_pending (sk_data s')) < length (tcp_pending (sk_data s)))"
proof (cases "arriving (tcp_stream (sk_data s))")
  case Nil
  with assms show ?thesis by (auto simp: guac_socket_read_def readable_def tcp_read_handler_def
        asio_read_some_def)
next
  case (Cons seg segs)
  with assms show ?thesis
    by (auto simp: guac_socket_read_def readable_def tcp_read_handler_def asio_read_some_def
        tcp_pending_def)
qed

lemma tcp_fill_total:
  assumes "tcp_in.is_readable s" and "ue < length (instructionbuf p)"
  shows "\<exists>st p' ue' s'. fill_buffer p ue s t = Some (st, p', ue', s') \<and> tcp_in.is_readable s'
     \<and> (st = GUAC_STATUS_SUCCESS \<longrightarrow>
          length (tcp_pending (sk_data s')) < length (tcp_pending (sk_data s)))
     \<and> ue \<le> ue' \<and> ue' \<le> length (instructionbuf p)
     \<and> length (instructionbuf p') = length (instructionbuf p)
     \<and> elementv p' = elementv p \<and> elementc p' = elementc p
     \<and> unparsed_start p' = unparsed_start p \<and> unparsed_end p' = unparsed_end p"
proof -
  from tcp_parser_select_total [OF assms(1), of 100 t] obtain r s1 where
    s1: "parser_select 100 s t = Some (r, s1)" "tcp_in.is_readable s1"
      "tcp_pending (sk_data s1) = tcp_pending (sk_data s)" by blast
  from tcp_read_total [OF s1(2), of "length (instructionbuf p) - ue"] obtain bs s2 where
    s2: "guac_socket_read s1 (length (instructionbuf p) - ue) = Some (int (length bs), bs, s2)"
      "tcp_in.is_readable s2" "length bs \<le> length (instructionbuf p) - ue"
      "bs \<noteq> [] \<longrightarrow> length (tcp_pending (sk_data s2)) < length (tcp_pending (sk_data s1))" by blast
  consider "r \<le> 0" | "0 < r" "bs = []" | "0 < r" "bs \<noteq> []" by fastforce
  then show ?thesis
  proof cases
    case 1
    then show ?thesis using s1 assms(2) by (simp add: fill_buffer_def)
  next
    case 2
    then show ?thesis using s1 s2 assms(2) by (simp add: fill_buffer_def)
  next
    case 3
    then have "\<not> length (instructionbuf p) < ue + length bs" using s2(3) assms(2) by linarith
    then show ?thesis using 3 s1 s2 assms(2) by (simp add: fill_buffer_def)
  qed
qed

lemma make_room_shape:
  assumes "length (elementv p) = 64" "elementc p \<le> 64" "us \<le> ue" "ue \<le> length (instructionbuf p)"
    "instr \<le> us" and "make_room p us ue instr = Some (p', us', ue', instr')"
  shows "length (elementv p') = 64 \<and> elementc p' \<le> 64 \<and> us' \<le> ue'
     \<and> ue' < length (instructionbuf p') \<and> instr' \<le> us'
     \<and> length (instructionbuf p') = length (instructionbuf p)
     \<and> unparsed_start p' = unparsed_start p \<and> unparsed_end p' = unparsed_end p"
  using assms by (auto simp: make_room_def Let_def split: if_splits)

lemma lex_measure: "a' < a \<Longrightarrow> b' \<le> B \<Longrightarrow> a' * Suc B + b' < a * Suc B + (b :: nat)"
proof -
  assume "a' < a" "b' \<le> B"
  then have "a' * Suc B + b' < Suc a' * Suc B" by simp
  also have "\<dots> \<le> a * Suc B" using \<open>a' < a\<close> by (intro mult_le_mono1) simp
  finally show ?thesis by simp
qed

lemma tcp_read_loop_total:
  assumes "length (elementv p) = 64" "elementc p \<le> 64" "us \<le> ue"
    "ue \<le> length (instructionbuf p)" "instr \<le> us" "tcp_in.is_readable s"
    "unparsed_start p \<le> unparsed_end p" "unparsed_end p \<le> length (instructionbuf p)"
    and "length (instructionbuf p) = B"
  shows "\<exists>st p' s'. parser_read_loop p us ue instr s t = Some (st, p', s')
     \<and> parser_shape p' \<and> length (instructionbuf p') = B \<and> tcp_in.is_readable s'"
  using assms
proof (induction "length (tcp_pending (sk_data s)) * Suc B + (ue - us)"
    arbitrary: p us ue instr s rule: less_induct)
  case less
  let ?buf = "instructionbuf p" and ?R = "take (ue - us) (drop us (instructionbuf p))"
  have lR: "length ?R = ue - us" using less.prems(3,4) by simp
  from append_shape [OF less.prems(1,2), of us ?R] obtain p1 R' k where
    ap: "guac_parser_append p us ?R = Some (p1, R', k)" "length R' = length ?R" "k \<le> length ?R"
      "length (elementv p1) = 64" "elementc p1 \<le> 64"
      "unparsed_start p1 = unparsed_start p" "unparsed_end p1 = unparsed_end p" by blast
  let ?b = "take us ?buf @ R' @ drop ue ?buf"
  let ?p2 = "p1\<lparr>instructionbuf := ?b\<rparr>"
  have lb: "length ?b = B" using ap(2) lR less.prems(3,4,9) by simp
  have sh: "parser_shape (?p2\<lparr>unparsed_start := u, unparsed_end := v\<rparr>)" "parser_shape ?p2"
    if "u \<le> v" "v \<le> B" for u v
    using that ap lb less.prems by (auto simp: parser_shape_def)
  show ?case
  proof (cases "parse_state p = GUAC_PARSE_COMPLETE \<or> parse_state p = GUAC_PARSE_ERROR")
    case True
    then show ?thesis using less.prems
      by (subst parser_read_loop.simps) (auto simp: parser_shape_def)
  next
    case False
    then have st: "parse_state p \<noteq> GUAC_PARSE_COMPLETE" "parse_state p \<noteq> GUAC_PARSE_ERROR" by auto
    have unfold: "parser_read_loop p us ue instr s t =
     (if k = 0 \<and> parse_state p1 \<noteq> GUAC_PARSE_ERROR then
        (case make_room ?p2 us ue instr of
           None \<Rightarrow> Some (GUAC_STATUS_NO_MEMORY, ?p2, s)
         | Some (p3, us3, ue3, instr3) \<Rightarrow>
             (case fill_buffer p3 ue3 s t of None \<Rightarrow> None
              | Some (status, p4, ue4, s4) \<Rightarrow>
                  if status \<noteq> GUAC_STATUS_SUCCESS then Some (status, p4, s4)
                  else parser_read_loop p4 us3 ue4 instr3 s4 t))
      else parser_read_loop ?p2 (us + k) ue instr s t)"
      by (rule trans [OF parser_read_loop.simps])
        (simp only: st ap(1) if_False option.case prod.case Let_def simp_thms, simp)
    consider "k = 0" "parse_state p1 = GUAC_PARSE_ERROR" | "0 < k"
      | "k = 0" "parse_state p1 \<noteq> GUAC_PARSE_ERROR" by blast
    then show ?thesis
    proof cases
      case 1
      then have "parser_read_loop p us ue instr s t = Some (GUAC_STATUS_PROTOCOL_ERROR, ?p2, s)"
        using unfold by (simp add: parser_read_loop.simps [of ?p2])
      then show ?thesis using sh(2) [OF le0 le0] lb less.prems(6) by simp
    next
      case 2
      have "\<exists>st p' s'. parser_read_loop ?p2 (us + k) ue instr s t = Some (st, p', s')
         \<and> parser_shape p' \<and> length (instructionbuf p') = B \<and> tcp_in.is_readable s'"
        by (rule less.hyps) (use 2 ap lR lb less.prems in simp_all)
      then show ?thesis using unfold 2 by simp
    next
      case 3
      show ?thesis
      proof (cases "make_room ?p2 us ue instr")
        case None
        then show ?thesis using unfold 3 sh(2) [OF le0 le0] lb less.prems(6) by simp
      next
        case (Some r)
        obtain p3 us3 ue3 instr3 where r: "make_room ?p2 us ue instr = Some (p3, us3, ue3, instr3)"
          using Some by (cases r) auto
        have bb: "ue \<le> length (instructionbuf ?p2)" using lb less.prems(4,9) by simp
        have p3: "length (elementv p3) = 64" "elementc p3 \<le> 64" "us3 \<le> ue3"
          "ue3 < length (instructionbuf p3)" "instr3 \<le> us3" "length (instructionbuf p3) = B"
          "unparsed_start p3 = unparsed_start p" "unparsed_end p3 = unparsed_end p"
          using make_room_shape [OF _ _ less.prems(3) bb less.prems(5) r] ap lb by simp_all
        from tcp_fill_total [OF less.prems(6) p3(4), of t] obtain st4 p4 ue4 s4 where
          f: "fill_buffer p3 ue3 s t = Some (st4, p4, ue4, s4)" "tcp_in.is_readable s4"
            "st4 = GUAC_STATUS_SUCCESS \<longrightarrow>
               length (tcp_pending (sk_data s4)) < length (tcp_pending (sk_data s))"
            "ue3 \<le> ue4" "ue4 \<le> length (instructionbuf p3)"
            "length (instructionbuf p4) = length (instructionbuf p3)"
            "elementv p4 = elementv p3" "elementc p4 = elementc p3"
            "unparsed_start p4 = unparsed_start p3" "unparsed_end p4 = unparsed_end p3" by blast
        show ?thesis
        proof (cases "st4 = GUAC_STATUS_SUCCESS")
          case False
          have "parser_shape p4" using f p3 less.prems by (simp add: parser_shape_def)
          then show ?thesis using unfold 3 r f p3 False by simp
        next
          case True
          have "ue4 - us3 \<le> B" using f(5) p3(6) by simp
          then have "length (tcp_pending (sk_data s4)) * Suc B + (ue4 - us3)
              < length (tcp_pending (sk_data s)) * Suc B + (ue - us)"
            using f(3) True by (intro lex_measure) simp
          then have "\<exists>st p' s'. parser_read_loop p4 us3 ue4 instr3 s4 t = Some (st, p', s')
             \<and> parser_shape p' \<and> length (instructionbuf p') = B \<and> tcp_in.is_readable s'"
            by (rule less.hyps) (use f p3 less.prems in simp_all)
          then show ?thesis using unfold 3 r f(1) True by simp
        qed
      qed
    qed
  qed
qed

lemma tcp_parser_read_total:
  assumes "parser_shape p" and "tcp_in.is_readable s"
  shows "\<exists>st p' s'. guac_parser_read p s t = Some (st, p', s')
     \<and> parser_shape p' \<and> length (instructionbuf p') = length (instructionbuf p)
     \<and> tcp_in.is_readable s'"
proof -
  let ?q = "if parse_state p = GUAC_PARSE_COMPLETE then guac_parser_reset p else p"
  have q: "length (elementv ?q) = 64" "elementc ?q \<le> 64"
    "length (instructionbuf ?q) = length (instructionbuf p)"
    "unparsed_start ?q = unparsed_start p" "unparsed_end ?q = unparsed_end p"
    using assms(1) by (simp_all add: parser_shape_def guac_parser_reset_def)
  from tcp_read_loop_total [OF q(1,2), of "unparsed_start p" "unparsed_end p" "unparsed_start p" s
      "length (instructionbuf p)" t] assms q
  show ?thesis by (simp add: guac_parser_read_def Let_def parser_shape_def)
qed

lemma plain_fits:
  assumes "es \<noteq> []" and "length es < 64" and "\<forall>e \<in> set es. plain e \<and> length e \<le> 8192"
    and "length (encode_instruction es) \<le> 32768"
  shows "fits es"
proof -
  have "utf8_wf e \<and> NUL \<notin> set e \<and> utf8_count e \<le> 8192" if "e \<in> set es" for e
    using plain_count [of e] strlen_count [of e] that assms(3) by auto
  then show ?thesis using assms by (simp add: fits_def sendable_def)
qed

section \<open>Properties\<close>

text \<open>
  C2. The parser puts instructions together however the network cuts them: when the segments that
  arrive on a TCP socket are, together, the text of instructions that fit (at most 63 elements of
  well-formed UTF-8 of at most 8192 characters each, 32768 bytes in all), a fresh parser reads
  exactly their opcodes and arguments, in order.
\<close>

theorem parser_reassembles:
  assumes "length junk = 32768" and "length ptrs = 64" and "\<forall>es \<in> set ess. fits es"
    and "[] \<notin> set (arriving c)" and "concat (arriving c) = concat (map encode_instruction ess)"
  shows "parser_read_many (length ess) (guac_parser_alloc junk ptrs)
           (guac_socket_boost_tcp_socket c ssl (\<lambda>_. Wait_Ready) clk) usec_timeout
       = Some (map (\<lambda>es. (hd es, tl es)) ess)"
proof -
  let ?s = "guac_socket_boost_tcp_socket c ssl (\<lambda>_. Wait_Ready) clk"
  have "tcp_live (sk_data ?s)" "tcp_pending (sk_data ?s) = concat (arriving c)"
    using assms(4) by (simp_all add: tcp_live_def tcp_pending_def tcp_socket_readable(2) tcp_stream_def)
  then show ?thesis
    using tcp_in.read_many_ok [of "guac_parser_alloc junk ptrs" ess ?s usec_timeout]
      parser_alloc_idle [OF assms(1,2)] tcp_socket_readable(1) assms(3,5) by simp
qed

theorem parser_reassembles_witness:
  "parser_read_many 2 (guac_parser_alloc (replicate 32768 NUL) (replicate 64 0))
     (guac_socket_boost_tcp_socket
        (idle_stream\<lparr>arriving := [''4.sy'', ''nc,2.1'', ''7;3.no'', ''p;'']\<rparr>)
        False (\<lambda>_. Wait_Ready) (\<lambda>_. 0)) 0
   = Some [(''sync'', [''17'']), (''nop'', [])]"
proof -
  have e: "encode_element ''17'' = ''2.17''" by (simp add: opcode digits_of_nat.simps digit_chars)
  have "fits [''sync'', ''17'']" "fits [''nop'']"
    by (rule plain_fits; simp add: e wire_simps)+
  then show ?thesis
    using parser_reassembles [of "replicate 32768 NUL" "replicate 64 0" "[[''sync'', ''17''], [''nop'']]"
        "idle_stream\<lparr>arriving := [''4.sy'', ''nc,2.1'', ''7;3.no'', ''p;'']\<rparr>" False "\<lambda>_. 0" 0]
    by (simp add: e wire_simps numeral_2_eq_2)
qed



end
