(* ===== verification/Rect.thy ===== *)
theory Rect
  imports Guac_Prelude "HOL-Library.Signed_Division"
begin

text \<open>
  \<open>common/src/rect.c\<close>: the rectangles of dirty and clipping regions. Coordinates are screen
  coordinates, well inside 32 bits, so the \<open>int\<close> of the code is HOL's; \<open>/\<close> and \<open>%\<close> are the
  truncating operators of C (\<open>sdiv\<close>, \<open>smod\<close>). A function that updates its rectangle returns the
  new one; \<open>guac_common_rect_clip_and_split\<close> also returns the rectangle it split off.

  The meaning of a rectangle is the set of its pixels.
\<close>

section \<open>The operations\<close>

record guac_common_rect =
  rc_x :: int
  rc_y :: int
  rc_width :: int
  rc_height :: int

definition guac_common_rect_init :: "int \<Rightarrow> int \<Rightarrow> int \<Rightarrow> int \<Rightarrow> guac_common_rect" where
  "guac_common_rect_init x y width height =
     \<lparr>rc_x = x, rc_y = y, rc_width = width, rc_height = height\<rparr>"

definition guac_common_rect_extend :: "guac_common_rect \<Rightarrow> guac_common_rect \<Rightarrow> guac_common_rect" where
  "guac_common_rect_extend rect mn =
     (let left = rc_x rect; top = rc_y rect; right = left + rc_width rect;
          bottom = top + rc_height rect;
          min_left = rc_x mn; min_top = rc_y mn; min_right = min_left + rc_width mn;
          min_bottom = min_top + rc_height mn;
          left = (if min_left < left then min_left else left);
          top = (if min_top < top then min_top else top);
          right = (if min_right > right then min_right else right);
          bottom = (if min_bottom > bottom then min_bottom else bottom)
      in guac_common_rect_init left top (right - left) (bottom - top))"

definition guac_common_rect_constrain :: "guac_common_rect \<Rightarrow> guac_common_rect \<Rightarrow> guac_common_rect"
where
  "guac_common_rect_constrain rect mx =
     (let left = rc_x rect; top = rc_y rect; right = left + rc_width rect;
          bottom = top + rc_height rect;
          max_left = rc_x mx; max_top = rc_y mx; max_right = max_left + rc_width mx;
          max_bottom = max_top + rc_height mx;
          left = (if max_left > left then max_left else left);
          top = (if max_top > top then max_top else top);
          right = (if max_right < right then max_right else right);
          bottom = (if max_bottom < bottom then max_bottom else bottom)
      in guac_common_rect_init left top (right - left) (bottom - top))"

text \<open>
  One axis of \<open>guac_common_rect_expand_to_grid\<close>: shift the extent back under the maximum, or up to
  the minimum, and clamp the other side.
\<close>

definition grid_adjust :: "int \<Rightarrow> int \<Rightarrow> int \<Rightarrow> int \<Rightarrow> int \<times> int" where
  "grid_adjust low high max_low max_high =
     (if high > max_high then
        let d = high - max_high; high = high - d; low = low - d in
        (if low < max_low then max_low else low, high)
      else if low < max_low then
        let d = max_low - low; low = low + d; high = high + d in
        (low, if high > max_high then max_high else high)
      else (low, high))"

definition guac_common_rect_expand_to_grid ::
  "int \<Rightarrow> guac_common_rect \<Rightarrow> guac_common_rect \<Rightarrow> int \<times> guac_common_rect" where
  "guac_common_rect_expand_to_grid cell_size rect max_rect =
     (if cell_size \<le> 0 then (-1, rect)
      else if cell_size = 1 then (0, rect)
      else
        let dw = cell_size - rc_width rect smod cell_size;
            dh = cell_size - rc_height rect smod cell_size;
            dx = dw sdiv 2; dy = dh sdiv 2;
            top = rc_y rect - dy; left = rc_x rect - dx;
            bottom = top + rc_height rect + dh; right = left + rc_width rect + dw;
            max_left = rc_x max_rect; max_top = rc_y max_rect;
            max_right = max_left + rc_width max_rect;
            max_bottom = max_top + rc_height max_rect;
            (left, right) = grid_adjust left right max_left max_right;
            (top, bottom) = grid_adjust top bottom max_top max_bottom
        in (0, guac_common_rect_init left top (right - left) (bottom - top)))"

definition guac_common_rect_intersects :: "guac_common_rect \<Rightarrow> guac_common_rect \<Rightarrow> int" where
  "guac_common_rect_intersects rect other =
     (if rc_x other + rc_width other < rc_x rect \<or> rc_x rect + rc_width rect < rc_x other
         \<or> rc_y other + rc_height other < rc_y rect \<or> rc_y rect + rc_height rect < rc_y other
      then 0
      else if rc_x other \<le> rc_x rect \<and> rc_x other + rc_width other \<ge> rc_x rect + rc_width rect
         \<and> rc_y other \<le> rc_y rect \<and> rc_y other + rc_height other \<ge> rc_y rect + rc_height rect
      then 2
      else 1)"

text \<open>The result is the return value, the new \<open>rect\<close> and what \<open>split_rect\<close> is set to.\<close>

definition guac_common_rect_clip_and_split ::
  "guac_common_rect \<Rightarrow> guac_common_rect \<Rightarrow> guac_common_rect \<Rightarrow>
   int \<times> guac_common_rect \<times> guac_common_rect" where
  "guac_common_rect_clip_and_split rect hole split_rect =
     (let x = rc_x rect; y = rc_y rect; r = x + rc_width rect; b = y + rc_height rect;
          hx = rc_x hole; hy = rc_y hole; hr = hx + rc_width hole; hb = hy + rc_height hole in
      if guac_common_rect_intersects rect hole = 0 then (0, rect, split_rect)
      else if y < hy then
        (1, guac_common_rect_init x hy (r - x) (b - hy), guac_common_rect_init x y (r - x) (hy - y))
      else if x < hx then
        (1, guac_common_rect_init hx y (r - hx) (b - y), guac_common_rect_init x y (hx - x) (b - y))
      else if b > hb then
        (1, guac_common_rect_init x y (r - x) (hb - y), guac_common_rect_init x hb (r - x) (b - hb))
      else if r > hr then
        (1, guac_common_rect_init x y (hr - x) (b - y), guac_common_rect_init hr y (r - hr) (b - y))
      else (0, rect, split_rect))"

section \<open>Pixels\<close>

definition pixels :: "guac_common_rect \<Rightarrow> (int \<times> int) set" where
  "pixels r = {(px, py). rc_x r \<le> px \<and> px < rc_x r + rc_width r
                       \<and> rc_y r \<le> py \<and> py < rc_y r + rc_height r}"

lemma pixels_init [simp]:
  "pixels (guac_common_rect_init x y w h) = {(px, py). x \<le> px \<and> px < x + w \<and> y \<le> py \<and> py < y + h}"
  by (simp add: pixels_def guac_common_rect_init_def)

text \<open>\<open>within a b\<close>: the extents of \<open>a\<close> lie inside those of \<open>b\<close>.\<close>

definition within :: "guac_common_rect \<Rightarrow> guac_common_rect \<Rightarrow> bool" where
  "within a b \<longleftrightarrow> rc_x b \<le> rc_x a \<and> rc_y b \<le> rc_y a
     \<and> rc_x a + rc_width a \<le> rc_x b + rc_width b \<and> rc_y a + rc_height a \<le> rc_y b + rc_height b"

lemma extend_within:
  "within rect (guac_common_rect_extend rect mn)" "within mn (guac_common_rect_extend rect mn)"
  by (auto simp: within_def guac_common_rect_extend_def guac_common_rect_init_def Let_def)

lemma extend_least: "within rect r \<Longrightarrow> within mn r \<Longrightarrow> within (guac_common_rect_extend rect mn) r"
  by (auto simp: within_def guac_common_rect_extend_def guac_common_rect_init_def Let_def)

lemma constrain_pixels: "pixels (guac_common_rect_constrain rect mx) = pixels rect \<inter> pixels mx"
  by (auto simp: guac_common_rect_constrain_def Let_def) (auto simp: pixels_def)

text \<open>A step of clip-and-split, by the four sides of the hole.\<close>

lemma clip_and_split_step:
  assumes "guac_common_rect_clip_and_split rect hole sp = (1, rect', sp')"
    and "0 \<le> rc_width rect" "0 \<le> rc_height rect" "0 \<le> rc_width hole" "0 \<le> rc_height hole"
  shows "pixels rect = pixels rect' \<union> pixels sp'" "pixels rect' \<inter> pixels sp' = {}"
    "pixels sp' \<inter> pixels hole = {}" "0 \<le> rc_width rect'" "0 \<le> rc_height rect'"
    "guac_common_rect_intersects rect' hole \<noteq> 0"
  using assms
  by (auto simp: guac_common_rect_clip_and_split_def guac_common_rect_intersects_def Let_def
      guac_common_rect_init_def pixels_def split: if_splits)

text \<open>The sides of the hole a rectangle still crosses; every step removes one.\<close>

definition crossings :: "guac_common_rect \<Rightarrow> guac_common_rect \<Rightarrow> nat" where
  "crossings rect hole =
     of_bool (rc_y rect < rc_y hole) + of_bool (rc_x rect < rc_x hole)
     + of_bool (rc_y hole + rc_height hole < rc_y rect + rc_height rect)
     + of_bool (rc_x hole + rc_width hole < rc_x rect + rc_width rect)"

lemma clip_and_split_decreases:
  assumes "guac_common_rect_clip_and_split rect hole sp = (1, rect', sp')"
  shows "crossings rect' hole < crossings rect hole"
  using assms
  by (auto simp: guac_common_rect_clip_and_split_def crossings_def Let_def
      guac_common_rect_init_def split: if_splits)

lemma clip_and_split_value:
  "guac_common_rect_clip_and_split rect hole sp = (r, rect', sp') \<Longrightarrow> r = 0 \<or> r = 1"
  by (auto simp: guac_common_rect_clip_and_split_def Let_def split: if_splits)

lemma clip_and_split_end:
  assumes "guac_common_rect_clip_and_split rect hole sp = (0, rect', sp')"
    and "guac_common_rect_intersects rect hole \<noteq> 0"
  shows "rect' = rect" "pixels rect \<subseteq> pixels hole"
  using assms
  by (auto simp: guac_common_rect_clip_and_split_def Let_def pixels_def split: if_splits)

text \<open>The loop a caller runs: collect the pieces until the function returns zero.\<close>

fun split_all :: "nat \<Rightarrow> guac_common_rect \<Rightarrow> guac_common_rect \<Rightarrow> guac_common_rect list option" where
  "split_all 0 rect hole = None"
| "split_all (Suc fuel) rect hole =
     (case guac_common_rect_clip_and_split rect hole rect of
        (r, rect', piece) \<Rightarrow>
          if r = 0 then Some [] else map_option (Cons piece) (split_all fuel rect' hole))"

lemma split_all_ok:
  assumes "crossings rect hole < fuel" "guac_common_rect_intersects rect hole \<noteq> 0"
    "0 \<le> rc_width rect" "0 \<le> rc_height rect" "0 \<le> rc_width hole" "0 \<le> rc_height hole"
  shows "\<exists>ps. split_all fuel rect hole = Some ps \<and> length ps \<le> crossings rect hole
     \<and> (\<Union>p \<in> set ps. pixels p) = pixels rect - pixels hole
     \<and> (\<forall>i < length ps. \<forall>j < i. pixels (ps ! i) \<inter> pixels (ps ! j) = {})"
  using assms
proof (induction fuel arbitrary: rect)
  case (Suc fuel)
  obtain r rect' piece where c: "guac_common_rect_clip_and_split rect hole rect = (r, rect', piece)"
    by (cases "guac_common_rect_clip_and_split rect hole rect") auto
  show ?case
  proof (cases "r = 0")
    case True
    with clip_and_split_end [of rect hole rect rect' piece] c Suc.prems(2) show ?thesis by auto
  next
    case False
    then have r: "r = 1" using clip_and_split_value [OF c] by simp
    note step = clip_and_split_step [OF c [unfolded r] Suc.prems(3-6)]
    have "crossings rect' hole < crossings rect hole"
      by (rule clip_and_split_decreases [OF c [unfolded r]])
    then obtain ps where ps: "split_all fuel rect' hole = Some ps" "length ps \<le> crossings rect' hole"
      "(\<Union>p \<in> set ps. pixels p) = pixels rect' - pixels hole"
      "\<forall>i < length ps. \<forall>j < i. pixels (ps ! i) \<inter> pixels (ps ! j) = {}"
      using Suc.IH [OF _ step(6,4,5) Suc.prems(5,6)] Suc.prems(1) by auto
    have "split_all (Suc fuel) rect hole = Some (piece # ps)" using c r ps(1) by simp
    moreover have "(\<Union>p \<in> set (piece # ps). pixels p) = pixels rect - pixels hole"
      using ps(3) step(1,3) by auto
    moreover have "\<forall>i < length (piece # ps). \<forall>j < i.
        pixels ((piece # ps) ! i) \<inter> pixels ((piece # ps) ! j) = {}"
    proof (intro allI impI)
      fix i j assume ij: "i < length (piece # ps)" "j < i"
      then obtain i' where i': "i = Suc i'" by (cases i) auto
      then have "pixels (ps ! i') \<subseteq> pixels rect'" using ps(3) ij by auto
      then show "pixels ((piece # ps) ! i) \<inter> pixels ((piece # ps) ! j) = {}"
        using step(2) ps(4) ij i' by (cases j) auto
    qed
    ultimately show ?thesis
      using ps(2) \<open>crossings rect' hole < crossings rect hole\<close> by auto
  qed
qed simp

text \<open>One axis of the grid adjustment stays inside the maximum and covers the original.\<close>

lemma grid_adjust_ok:
  assumes "low \<le> x" "x + w \<le> high" "max_low \<le> x" "x + w \<le> max_high" "0 \<le> w"
    and "grid_adjust low high max_low max_high = (low', high')"
  shows "max_low \<le> low' \<and> low' \<le> x \<and> x + w \<le> high' \<and> high' \<le> max_high
     \<and> (high' - low' = high - low \<or> low' = max_low \<and> high' = max_high)"
  using assms by (auto simp: grid_adjust_def Let_def split: if_splits)

lemma cell_round:
  fixes w c :: int
  assumes "0 \<le> w" "1 < c"
  shows "0 < c - w smod c" "c - w smod c \<le> c" "0 \<le> (c - w smod c) sdiv 2"
    "(c - w smod c) sdiv 2 \<le> c - w smod c" "c dvd (w + (c - w smod c))"
proof -
  have m: "w smod c = w mod c" using assms by (cases "w = 0") (simp_all add: signed_modulo_int_def)
  show "0 < c - w smod c" "c - w smod c \<le> c" using assms m by auto
  then show "0 \<le> (c - w smod c) sdiv 2" "(c - w smod c) sdiv 2 \<le> c - w smod c"
    by (auto simp: signed_divide_int_def)
  have e: "w + (c - w mod c) = c * (w div c + 1)"
    using mult_div_mod_eq [of c w] by (simp add: algebra_simps)
  show "c dvd (w + (c - w smod c))" unfolding m e by simp
qed


text \<open>
  Clipping: \<open>guac_common_rect_constrain\<close> leaves exactly the pixels the rectangle shares with the
  bounds, and \<open>guac_common_rect_extend\<close> gives the smallest extents around both rectangles.
\<close>

theorem rect_constrain_extend:
  "pixels (guac_common_rect_constrain rect mx) = pixels rect \<inter> pixels mx
     \<and> within rect (guac_common_rect_extend rect mx) \<and> within mx (guac_common_rect_extend rect mx)
     \<and> (within rect r \<and> within mx r \<longrightarrow> within (guac_common_rect_extend rect mx) r)"
  using constrain_pixels extend_within extend_least by blast

theorem rect_constrain_extend_witness:
  "within (guac_common_rect_extend (guac_common_rect_init 0 0 2 2) (guac_common_rect_init 5 1 2 4))
     (guac_common_rect_init 0 0 7 5)"
  using rect_constrain_extend [of "guac_common_rect_init 0 0 2 2" "guac_common_rect_init 5 1 2 4"
      "guac_common_rect_init 0 0 7 5"]
  by (simp add: within_def guac_common_rect_init_def)

text \<open>
  Cutting a hole: calling \<open>guac_common_rect_clip_and_split\<close> until it returns zero takes at most
  four pieces off the rectangle; the pieces do not overlap each other and are together exactly the
  pixels of the rectangle outside the hole.
\<close>

theorem rect_split_partitions:
  assumes "guac_common_rect_intersects rect hole \<noteq> 0"
    and "0 \<le> rc_width rect" "0 \<le> rc_height rect" "0 \<le> rc_width hole" "0 \<le> rc_height hole"
  shows "\<exists>ps. split_all 5 rect hole = Some ps \<and> length ps \<le> 4
     \<and> (\<Union>p \<in> set ps. pixels p) = pixels rect - pixels hole
     \<and> (\<forall>i < length ps. \<forall>j < i. pixels (ps ! i) \<inter> pixels (ps ! j) = {})"
proof -
  have c: "crossings rect hole < 5" by (simp add: crossings_def)
  from split_all_ok [OF c assms] c show ?thesis by force
qed

theorem rect_split_partitions_witness:
  "\<exists>ps. split_all 5 (guac_common_rect_init 0 0 9 9) (guac_common_rect_init 3 3 3 3) = Some ps
     \<and> length ps \<le> 4
     \<and> (\<Union>p \<in> set ps. pixels p)
         = pixels (guac_common_rect_init 0 0 9 9) - pixels (guac_common_rect_init 3 3 3 3)"
  using rect_split_partitions [of "guac_common_rect_init 0 0 9 9" "guac_common_rect_init 3 3 3 3"]
  by (simp add: guac_common_rect_intersects_def guac_common_rect_init_def) blast

lemma expand_to_grid_covers:
  assumes "1 < cell_size" and "within rect mx" and "0 \<le> rc_width rect" "0 \<le> rc_height rect"
  shows "\<exists>r. guac_common_rect_expand_to_grid cell_size rect mx = (0, r) \<and> within rect r \<and> within r mx
     \<and> (cell_size dvd rc_width r \<or> rc_width r = rc_width mx)
     \<and> (cell_size dvd rc_height r \<or> rc_height r = rc_height mx)"
proof -
  let ?dw = "cell_size - rc_width rect smod cell_size"
    and ?dh = "cell_size - rc_height rect smod cell_size"
  let ?l = "rc_x rect - ?dw sdiv 2" and ?t = "rc_y rect - ?dh sdiv 2"
  let ?r = "?l + rc_width rect + ?dw" and ?b = "?t + rc_height rect + ?dh"
  obtain l r where x: "grid_adjust ?l ?r (rc_x mx) (rc_x mx + rc_width mx) = (l, r)" by fastforce
  obtain t b where y: "grid_adjust ?t ?b (rc_y mx) (rc_y mx + rc_height mx) = (t, b)" by fastforce
  note cw = cell_round [OF assms(3,1)] and ch = cell_round [OF assms(4,1)]
  have gx: "rc_x mx \<le> l \<and> l \<le> rc_x rect \<and> rc_x rect + rc_width rect \<le> r \<and> r \<le> rc_x mx + rc_width mx
      \<and> (r - l = ?r - ?l \<or> l = rc_x mx \<and> r = rc_x mx + rc_width mx)"
    using cw assms(2) by (intro grid_adjust_ok [OF _ _ _ _ assms(3) x]) (auto simp: within_def)
  have gy: "rc_y mx \<le> t \<and> t \<le> rc_y rect \<and> rc_y rect + rc_height rect \<le> b \<and> b \<le> rc_y mx + rc_height mx
      \<and> (b - t = ?b - ?t \<or> t = rc_y mx \<and> b = rc_y mx + rc_height mx)"
    using ch assms(2) by (intro grid_adjust_ok [OF _ _ _ _ assms(4) y]) (auto simp: within_def)
  have e: "guac_common_rect_expand_to_grid cell_size rect mx
      = (0, guac_common_rect_init l t (r - l) (b - t))"
    using assms(1) x y by (simp add: guac_common_rect_expand_to_grid_def Let_def)
  have "cell_size dvd r - l \<or> r - l = rc_width mx" "cell_size dvd b - t \<or> b - t = rc_height mx"
    using gx gy cw(5) ch(5) by auto
  then show ?thesis unfolding e using gx gy by (auto simp: within_def guac_common_rect_init_def)
qed

text \<open>
  \<open>guac_common_rect_expand_to_grid\<close> of a rectangle inside the maximum yields a rectangle that
  still covers it, lies inside the maximum, and is on each axis a multiple of the cell size or
  the whole extent of the maximum.
\<close>

theorem rect_expand_to_grid:
  assumes "1 < cell_size" and "within rect mx" and "0 \<le> rc_width rect" "0 \<le> rc_height rect"
  shows "\<exists>r. guac_common_rect_expand_to_grid cell_size rect mx = (0, r) \<and> within rect r \<and> within r mx
     \<and> (cell_size dvd rc_width r \<or> rc_width r = rc_width mx)
     \<and> (cell_size dvd rc_height r \<or> rc_height r = rc_height mx)"
  using assms by (rule expand_to_grid_covers)

theorem rect_expand_to_grid_witness:
  "\<exists>r. guac_common_rect_expand_to_grid 16 (guac_common_rect_init 10 5 20 16)
         (guac_common_rect_init 0 0 640 480) = (0, r)
     \<and> within (guac_common_rect_init 10 5 20 16) r \<and> within r (guac_common_rect_init 0 0 640 480)"
  using rect_expand_to_grid [of 16 "guac_common_rect_init 10 5 20 16"
      "guac_common_rect_init 0 0 640 480"]
  by (simp add: within_def guac_common_rect_init_def) blast

end
