(* ===== verification/Common_List.thy ===== *)
theory Common_List
  imports Guac_Prelude
begin

text \<open>
  \<open>common/src/list.c\<close>: a linked list whose elements can be removed in constant time. Every element
  keeps \<open>_ptr\<close>, the address of the pointer that points at it: the list's \<open>head\<close> or the \<open>next\<close> of
  its predecessor. Elements live in a store; \<open>malloc\<close> takes the next unused address. Following a
  pointer to memory that is not allocated is undefined: \<open>None\<close>.
\<close>

section \<open>The structure and its operations\<close>

datatype pointer_slot = Head_Slot | Next_Slot nat

record 'a guac_common_list_element =
  le_data :: 'a
  le_next :: "nat option"
  le_ptr :: pointer_slot

record 'a guac_common_list =
  l_head :: "nat option"
  l_cells :: "nat \<Rightarrow> 'a guac_common_list_element option"
  l_brk :: nat

definition guac_common_list_alloc :: "'a guac_common_list" where
  "guac_common_list_alloc = \<lparr>l_head = None, l_cells = Map.empty, l_brk = 0\<rparr>"

definition guac_common_list_add :: "'a guac_common_list \<Rightarrow> 'a \<Rightarrow> (nat \<times> 'a guac_common_list) option"
where
  "guac_common_list_add l data =
     (let a = l_brk l;
          element = \<lparr>le_data = data, le_next = l_head l, le_ptr = Head_Slot\<rparr>;
          m = (l_cells l)(a \<mapsto> element) in
      case l_head l of
        None \<Rightarrow> Some (a, l\<lparr>l_head := Some a, l_cells := m, l_brk := Suc a\<rparr>)
      | Some h \<Rightarrow>
          (case m h of None \<Rightarrow> None
           | Some old \<Rightarrow>
               Some (a, l\<lparr>l_head := Some a, l_cells := m(h \<mapsto> old\<lparr>le_ptr := Next_Slot a\<rparr>),
                          l_brk := Suc a\<rparr>)))"

text \<open>Storing through \<open>_ptr\<close>.\<close>

definition write_slot :: "'a guac_common_list \<Rightarrow> pointer_slot \<Rightarrow> nat option \<Rightarrow> 'a guac_common_list option"
where
  "write_slot l slot p =
     (case slot of
        Head_Slot \<Rightarrow> Some (l\<lparr>l_head := p\<rparr>)
      | Next_Slot a \<Rightarrow>
          (case l_cells l a of None \<Rightarrow> None
           | Some e \<Rightarrow> Some (l\<lparr>l_cells := (l_cells l)(a \<mapsto> e\<lparr>le_next := p\<rparr>)\<rparr>)))"

definition guac_common_list_remove :: "'a guac_common_list \<Rightarrow> nat \<Rightarrow> 'a guac_common_list option" where
  "guac_common_list_remove l a =
     (case l_cells l a of None \<Rightarrow> None
      | Some element \<Rightarrow>
          (case write_slot l (le_ptr element) (le_next element) of None \<Rightarrow> None
           | Some l1 \<Rightarrow>
               (case le_next element of
                  None \<Rightarrow> Some (l1\<lparr>l_cells := (l_cells l1)(a := None)\<rparr>)
                | Some n \<Rightarrow>
                    (case l_cells l1 n of None \<Rightarrow> None
                     | Some e \<Rightarrow>
                         Some (l1\<lparr>l_cells := (l_cells l1)(n \<mapsto> e\<lparr>le_ptr := le_ptr element\<rparr>,
                                                          a := None)\<rparr>)))))"

text \<open>A walk along \<open>next\<close> from the head, as the users of the list do it.\<close>

fun walk_from :: "nat \<Rightarrow> (nat \<Rightarrow> 'a guac_common_list_element option) \<Rightarrow> nat option \<Rightarrow>
    (nat \<times> 'a) list option" where
  "walk_from fuel m None = Some []"
| "walk_from 0 m (Some a) = None"
| "walk_from (Suc fuel) m (Some a) =
     (case m a of None \<Rightarrow> None
      | Some e \<Rightarrow> map_option (Cons (a, le_data e)) (walk_from fuel m (le_next e)))"

definition list_walk :: "'a guac_common_list \<Rightarrow> (nat \<times> 'a) list option" where
  "list_walk l = walk_from (l_brk l) (l_cells l) (l_head l)"

section \<open>The shape of a list\<close>

text \<open>
  \<open>segment m p slot xs q\<close>: from \<open>p\<close>, which is stored in \<open>slot\<close>, the elements \<open>xs\<close> lead to \<open>q\<close>.
  \<open>end_slot\<close> is where \<open>q\<close> is stored.
\<close>

fun segment :: "(nat \<Rightarrow> 'a guac_common_list_element option) \<Rightarrow> nat option \<Rightarrow> pointer_slot \<Rightarrow>
    (nat \<times> 'a) list \<Rightarrow> nat option \<Rightarrow> bool" where
  "segment m p slot [] q \<longleftrightarrow> p = q"
| "segment m p slot ((a, d) # xs) q \<longleftrightarrow> p = Some a
     \<and> (\<exists>n. m a = Some \<lparr>le_data = d, le_next = n, le_ptr = slot\<rparr> \<and> segment m n (Next_Slot a) xs q)"

definition end_slot :: "pointer_slot \<Rightarrow> (nat \<times> 'a) list \<Rightarrow> pointer_slot" where
  "end_slot slot xs = (if xs = [] then slot else Next_Slot (fst (last xs)))"

lemma end_slot_Cons [simp]: "end_slot slot ((a, d) # xs) = end_slot (Next_Slot a) xs"
  by (auto simp: end_slot_def)

lemma end_slot_Nil [simp]: "end_slot slot [] = slot"
  by (simp add: end_slot_def)

lemma segment_append:
  "segment m p slot (xs @ ys) q \<longleftrightarrow>
     (\<exists>r. segment m p slot xs r \<and> segment m r (end_slot slot xs) ys q)"
  by (induction m p slot xs q rule: segment.induct) auto

definition list_shape :: "'a guac_common_list \<Rightarrow> (nat \<times> 'a) list \<Rightarrow> bool" where
  "list_shape l xs \<longleftrightarrow> segment (l_cells l) (l_head l) Head_Slot xs None \<and> distinct (map fst xs)
     \<and> dom (l_cells l) = fst ` set xs \<and> (\<forall>a \<in> fst ` set xs. a < l_brk l)"

lemma segment_upd: "a \<notin> fst ` set xs \<Longrightarrow> segment (m(a := x)) p s xs q = segment m p s xs q"
  by (induction m p s xs q rule: segment.induct) auto

lemma segment_walk: "segment m p s xs None \<Longrightarrow> length xs \<le> fuel \<Longrightarrow> walk_from fuel m p = Some xs"
proof (induction xs arbitrary: fuel p s)
  case (Cons x xs)
  then show ?case by (cases fuel; cases x) auto
qed simp

lemma shape_walk:
  assumes "list_shape l xs"
  shows "list_walk l = Some xs"
proof -
  have "card (fst ` set xs) \<le> card {..<l_brk l}"
    using assms by (intro card_mono) (auto simp: list_shape_def)
  moreover have "card (fst ` set xs) = length xs"
    using assms distinct_card [of "map fst xs"] by (simp add: list_shape_def)
  ultimately show ?thesis
    using assms segment_walk unfolding list_walk_def list_shape_def by force
qed

lemma add_shape:
  assumes "list_shape l xs"
  shows "\<exists>a l'. guac_common_list_add l d = Some (a, l') \<and> a \<notin> fst ` set xs
     \<and> list_shape l' ((a, d) # xs)"
proof -
  let ?a = "l_brk l"
  have new: "?a \<notin> fst ` set xs" using assms by (auto simp: list_shape_def)
  show ?thesis
  proof (cases xs)
    case Nil
    then show ?thesis using assms
      by (auto simp: list_shape_def guac_common_list_add_def Let_def)
  next
    case (Cons y ys)
    obtain h e where y: "y = (h, e)" by (cases y)
    with Cons assms obtain n where h: "l_head l = Some h"
      "l_cells l h = Some \<lparr>le_data = e, le_next = n, le_ptr = Head_Slot\<rparr>"
      "segment (l_cells l) n (Next_Slot h) ys None" by (auto simp: list_shape_def)
    have ne: "h \<noteq> ?a" "?a \<notin> fst ` set ys" "h \<notin> fst ` set ys"
      using new Cons y assms by (auto simp: list_shape_def)
    show ?thesis
      using assms Cons y h ne new
      by (auto simp: list_shape_def guac_common_list_add_def Let_def segment_upd)
  qed
qed

text \<open>The elements behind a removed one, hung into another slot.\<close>

definition rehang ::
  "(nat \<Rightarrow> 'a guac_common_list_element option) \<Rightarrow> nat option \<Rightarrow> pointer_slot \<Rightarrow>
   nat \<Rightarrow> 'a guac_common_list_element option" where
  "rehang m n slot =
     (case n of None \<Rightarrow> m | Some b \<Rightarrow> m(b := map_option (\<lambda>e. e\<lparr>le_ptr := slot\<rparr>) (m b)))"

lemma segment_rehang:
  assumes "segment m n s ys None" and "distinct (map fst ys)"
  shows "segment (rehang m n s') n s' ys None"
proof (cases ys)
  case Nil
  then show ?thesis using assms by (simp add: rehang_def)
next
  case (Cons y ys')
  obtain b e where "y = (b, e)" by (cases y)
  then show ?thesis using Cons assms by (auto simp: rehang_def segment_upd)
qed

lemma rehang_upd:
  "(case n of None \<Rightarrow> True | Some b \<Rightarrow> b \<notin> fst ` set us) \<Longrightarrow>
     segment (rehang m n s') p s us q = segment m p s us q"
  by (auto simp: rehang_def segment_upd split: option.splits)

lemma segment_first: "segment m n s ys None \<Longrightarrow> n = None \<and> ys = [] \<or> (\<exists>b. n = Some b \<and> b \<in> fst ` set ys \<and> m b \<noteq> None)"
  by (cases ys) (auto simp: image_iff)

lemma dom_rehang [simp]: "dom (rehang m n s) = dom m"
  by (auto simp: rehang_def dom_def split: option.splits)

lemma remove_value:
  assumes "l_cells l a = Some \<lparr>le_data = d, le_next = n, le_ptr = slot\<rparr>"
    and "write_slot l slot n = Some l1" and "\<And>b. n = Some b \<Longrightarrow> l_cells l1 b \<noteq> None"
  shows "guac_common_list_remove l a = Some (l1\<lparr>l_cells := (rehang (l_cells l1) n slot)(a := None)\<rparr>)"
  using assms by (auto simp: guac_common_list_remove_def rehang_def split: option.splits)

lemma remove_shape:
  assumes "list_shape l (xs @ (a, d) # ys)"
  shows "\<exists>l'. guac_common_list_remove l a = Some l' \<and> list_shape l' (xs @ ys)"
proof -
  let ?m = "l_cells l"
  from assms have sh: "segment ?m (l_head l) Head_Slot (xs @ (a, d) # ys) None"
    "distinct (map fst (xs @ (a, d) # ys))" "dom ?m = fst ` set (xs @ (a, d) # ys)"
    "\<forall>b \<in> fst ` set (xs @ (a, d) # ys). b < l_brk l" by (auto simp: list_shape_def)
  obtain n where tail: "segment ?m (l_head l) Head_Slot xs (Some a)"
    "?m a = Some \<lparr>le_data = d, le_next = n, le_ptr = end_slot Head_Slot xs\<rparr>"
    "segment ?m n (Next_Slot a) ys None"
    using sh(1) by (auto simp: segment_append)
  have first: "n = None \<and> ys = [] \<or> (\<exists>b. n = Some b \<and> b \<in> fst ` set ys \<and> ?m b \<noteq> None)"
    by (rule segment_first [OF tail(3)])
  have dy: "distinct (map fst ys)" "a \<notin> fst ` set ys" "a \<notin> fst ` set xs"
    "fst ` set xs \<inter> fst ` set ys = {}" using sh(2) by auto
  show ?thesis
  proof (cases xs rule: rev_cases)
    case Nil
    let ?l1 = "l\<lparr>l_head := n\<rparr>"
    let ?m' = "(rehang ?m n Head_Slot)(a := None)"
    have r: "guac_common_list_remove l a = Some (?l1\<lparr>l_cells := ?m'\<rparr>)"
      using remove_value [of l a d n Head_Slot ?l1] tail(2) Nil first by (auto simp: write_slot_def)
    have "segment ?m' n Head_Slot ys None"
      using segment_rehang [OF tail(3) dy(1)] dy(2) by (simp add: segment_upd)
    then have "list_shape (?l1\<lparr>l_cells := ?m'\<rparr>) (xs @ ys)"
      using sh Nil dy by (auto simp: list_shape_def)
    with r show ?thesis by blast
  next
    case (snoc us y)
    obtain b e where y: "y = (b, e)" by (cases y)
    have us: "segment ?m (l_head l) Head_Slot us (Some b)"
      "?m b = Some \<lparr>le_data = e, le_next = Some a, le_ptr = end_slot Head_Slot us\<rparr>"
      using tail(1) snoc y by (auto simp: segment_append)
    have slot: "end_slot Head_Slot xs = Next_Slot b" using snoc y by (simp add: end_slot_def)
    let ?mb = "?m(b \<mapsto> \<lparr>le_data = e, le_next = n, le_ptr = end_slot Head_Slot us\<rparr>)"
    let ?l1 = "l\<lparr>l_cells := ?mb\<rparr>"
    let ?m' = "(rehang ?mb n (Next_Slot b))(a := None)"
    have d: "b \<noteq> a" "b \<notin> fst ` set ys" "b \<notin> fst ` set us" "a \<notin> fst ` set us"
      "fst ` set us \<inter> fst ` set ys = {}"
      using sh(2) snoc y by auto
    have nf: "n = None \<or> (\<exists>c. n = Some c \<and> c \<in> fst ` set ys \<and> c \<noteq> b \<and> c \<notin> fst ` set us \<and> c \<noteq> a)"
      using first d(2,5) dy(2) by blast
    have r: "guac_common_list_remove l a = Some (?l1\<lparr>l_cells := ?m'\<rparr>)"
      using remove_value [of l a d n "Next_Slot b" ?l1] tail(2) slot us(2) first d
      by (auto simp: write_slot_def)
    have "segment ?mb n (Next_Slot a) ys None" using tail(3) d(2) by (simp add: segment_upd)
    then have s1: "segment ?m' n (Next_Slot b) ys None"
      using segment_rehang [of ?mb n "Next_Slot a" ys "Next_Slot b"] dy by (simp add: segment_upd)
    have s2: "segment ?m' (l_head l) Head_Slot us (Some b)"
    proof -
      have "segment ?mb (l_head l) Head_Slot us (Some b)" using us(1) d(3) by (simp add: segment_upd)
      then have "segment (rehang ?mb n (Next_Slot b)) (l_head l) Head_Slot us (Some b)"
        using nf by (subst rehang_upd) auto
      then show ?thesis using d(4) by (simp add: segment_upd)
    qed
    have s3: "?m' b = Some \<lparr>le_data = e, le_next = n, le_ptr = end_slot Head_Slot us\<rparr>"
      using nf d(1) by (auto simp: rehang_def)
    have "segment ?m' (l_head l) Head_Slot (us @ (b, e) # ys) None"
      unfolding segment_append using s1 s2 s3 by auto
    moreover have "dom ?m' = fst ` set (us @ (b, e) # ys)"
      using sh(3) snoc y d dy by auto
    ultimately have "list_shape (?l1\<lparr>l_cells := ?m'\<rparr>) (xs @ ys)"
      using sh snoc y d dy by (auto simp: list_shape_def)
    with r show ?thesis by blast
  qed
qed

section \<open>Properties\<close>

text \<open>
  The lists a program can reach by adding elements and removing elements that are in the list,
  with their contents: the addresses and data of the elements, the newest first.
\<close>

inductive list_reach :: "'a guac_common_list \<Rightarrow> (nat \<times> 'a) list \<Rightarrow> bool" where
  reach_empty: "list_reach guac_common_list_alloc []"
| reach_add: "list_reach l xs \<Longrightarrow> guac_common_list_add l d = Some (a, l') \<Longrightarrow>
     list_reach l' ((a, d) # xs)"
| reach_remove: "list_reach l (xs @ (a, d) # ys) \<Longrightarrow> guac_common_list_remove l a = Some l' \<Longrightarrow>
     list_reach l' (xs @ ys)"

lemma list_reach_shape: "list_reach l xs \<Longrightarrow> list_shape l xs"
proof (induction rule: list_reach.induct)
  case reach_empty
  then show ?case by (simp add: list_shape_def guac_common_list_alloc_def)
next
  case (reach_add l xs d a l')
  then show ?case using add_shape [of l xs d] by auto
next
  case (reach_remove l xs a d ys l')
  then show ?case using remove_shape [of l xs a d ys] by auto
qed

text \<open>
  The list with its back pointers implements a sequence: in every reachable list a walk from the
  head visits exactly the elements that were added and not removed, the newest first; adding
  returns a new element at the front; removing an element, wherever it is, never follows a
  dangling pointer and leaves the others in order.
\<close>

theorem common_list_refines:
  assumes "list_reach l xs"
  shows "list_walk l = Some xs \<and> distinct (map fst xs)
     \<and> (\<exists>a l'. guac_common_list_add l d = Some (a, l') \<and> list_walk l' = Some ((a, d) # xs))
     \<and> (\<forall>us a e vs. xs = us @ (a, e) # vs \<longrightarrow>
          (\<exists>l'. guac_common_list_remove l a = Some l' \<and> list_walk l' = Some (us @ vs)))"
proof -
  have sh: "list_shape l xs" by (rule list_reach_shape [OF assms])
  have "\<exists>l'. guac_common_list_remove l a = Some l' \<and> list_walk l' = Some (us @ vs)"
    if "xs = us @ (a, e) # vs" for us a e vs
    using remove_shape [of l us a e vs] sh that shape_walk by blast
  moreover have "\<exists>a l'. guac_common_list_add l d = Some (a, l') \<and> list_walk l' = Some ((a, d) # xs)"
    using add_shape [OF sh, of d] shape_walk by blast
  ultimately show ?thesis using shape_walk [OF sh] sh by (simp add: list_shape_def)
qed

theorem common_list_refines_witness:
  "\<exists>l l'. list_reach l [(1, ''b''), (0, ''a'')] \<and> guac_common_list_remove l 0 = Some l'
     \<and> list_walk l' = Some [(1, ''b'')]"
proof -
  obtain l1 where 1: "guac_common_list_add guac_common_list_alloc ''a'' = Some (0, l1)" "l_brk l1 = 1"
    "l_head l1 = Some 0" "l_cells l1 0 \<noteq> None"
    by (simp add: guac_common_list_add_def guac_common_list_alloc_def Let_def)
  obtain l2 where 2: "guac_common_list_add l1 ''b'' = Some (1, l2)"
    using 1(2-) by (auto simp: guac_common_list_add_def Let_def)
  have r: "list_reach l2 [(1, ''b''), (0, ''a'')]"
    by (rule reach_add [OF reach_add [OF reach_empty 1(1)] 2])
  from common_list_refines [OF r] have "\<exists>l'. guac_common_list_remove l2 0 = Some l'
      \<and> list_walk l' = Some ([(1, ''b'')] @ [])" by (metis append_Cons append_Nil)
  with r show ?thesis by auto
qed

end
