(* ===== verification/Str.thy ===== *)
theory Str
  imports Guac_Prelude
begin

text \<open>
  \<open>common/src/string.c\<close>: counting a character and splitting a string. A C string is the list of
  its characters before the terminator. \<open>guac_split\<close> counts the delimiters to size the array of
  tokens, then walks the string; the result is the array up to its null entry.
\<close>

fun guac_count_occurrences :: "char list \<Rightarrow> char \<Rightarrow> nat" where
  "guac_count_occurrences [] c = 0"
| "guac_count_occurrences (s # string) c =
     (if s = c then Suc (guac_count_occurrences string c) else guac_count_occurrences string c)"

text \<open>
  The \<open>do\<close> loop: \<open>i\<close> tokens have been stored; \<open>None\<close> is a store past the \<open>token_count + 1\<close> entries
  of the array (the last one is for the null pointer).
\<close>

function split_tokens :: "nat \<Rightarrow> char list \<Rightarrow> char \<Rightarrow> nat \<Rightarrow> char list list option" where
  "split_tokens i string delim token_count =
     (let token = takeWhile (\<lambda>c. c \<noteq> delim) string;
          rest = dropWhile (\<lambda>c. c \<noteq> delim) string in
      if token_count \<le> i then None
      else if rest = [] then Some [token]
      else if Suc i < token_count
      then map_option (Cons token) (split_tokens (Suc i) (tl rest) delim token_count)
      else Some [token])"
  by auto
termination
proof (relation "measure (\<lambda>(_, s, _). length s)", goal_cases)
  case 1
  show ?case by simp
next
  case (2 i string delim token_count token rest)
  then have "length rest \<le> length string" "0 < length rest" by (simp_all add: length_dropWhile_le)
  then have "length (tl rest) < length string" by (simp only: length_tl)
  then show ?case using 2 by simp
qed

declare split_tokens.simps [simp del]

definition guac_split :: "char list \<Rightarrow> char \<Rightarrow> char list list option" where
  "guac_split string delim =
     split_tokens 0 string delim (guac_count_occurrences string delim + 1)"

text \<open>The text the tokens came from.\<close>

fun join_tokens :: "char \<Rightarrow> char list list \<Rightarrow> char list" where
  "join_tokens d [] = []"
| "join_tokens d [t] = t"
| "join_tokens d (t # u # ts) = t @ d # join_tokens d (u # ts)"

lemma count_zero: "guac_count_occurrences s c = 0 \<longleftrightarrow> c \<notin> set s"
  by (induction s) auto

lemma count_split:
  "dropWhile (\<lambda>x. x \<noteq> c) s = c # rest \<Longrightarrow>
     guac_count_occurrences s c = Suc (guac_count_occurrences rest c)"
  by (induction s) (auto split: if_splits)

lemma split_tokens_ok:
  "i + guac_count_occurrences s d + 1 = n \<Longrightarrow>
     \<exists>ts. split_tokens i s d n = Some ts \<and> ts \<noteq> [] \<and> join_tokens d ts = s
        \<and> length ts = guac_count_occurrences s d + 1 \<and> (\<forall>t \<in> set ts. d \<notin> set t)"
proof (induction "length s" arbitrary: i s rule: less_induct)
  case less
  let ?token = "takeWhile (\<lambda>c. c \<noteq> d) s" and ?rest = "dropWhile (\<lambda>c. c \<noteq> d) s"
  have t: "d \<notin> set ?token" by (auto dest: set_takeWhileD)
  show ?case
  proof (cases ?rest)
    case Nil
    then have "d \<notin> set s" "?token = s" by (auto simp: dropWhile_eq_Nil_conv takeWhile_eq_all_conv)
    then show ?thesis using less.prems Nil count_zero [of s d] t
      by (simp add: split_tokens.simps [of i s])
  next
    case (Cons c rest)
    then have c: "c = d" using hd_dropWhile [of "\<lambda>c. c \<noteq> d" s] by simp
    have n: "guac_count_occurrences s d = Suc (guac_count_occurrences rest d)"
      using count_split Cons c by simp
    have "length ?rest \<le> length s" by (rule length_dropWhile_le)
    then have "length rest < length s" using Cons by simp
    with less.hyps [of rest "Suc i"] less.prems n obtain ts where ts:
      "split_tokens (Suc i) rest d n = Some ts" "ts \<noteq> []" "join_tokens d ts = rest"
      "length ts = guac_count_occurrences rest d + 1" "\<forall>t \<in> set ts. d \<notin> set t" by auto
    have "split_tokens i s d n = Some (?token # ts)"
      using Cons less.prems n ts(1) by (simp add: split_tokens.simps [of i s])
    moreover have "join_tokens d (?token # ts) = s"
    proof -
      have "join_tokens d (?token # ts) = ?token @ d # join_tokens d ts"
        using ts(2) by (cases ts) auto
      then show ?thesis using ts(3) Cons c by (metis takeWhile_dropWhile_id)
    qed
    ultimately show ?thesis using ts n t by auto
  qed
qed

text \<open>
  \<open>guac_split\<close> is the inverse of joining: the tokens contain no delimiter, there is one more of
  them than delimiters (so no store leaves the array), and joined by the delimiter they are the
  string.
\<close>

theorem split_join:
  "\<exists>ts. guac_split string delim = Some ts \<and> join_tokens delim ts = string
     \<and> length ts = guac_count_occurrences string delim + 1 \<and> list_all (\<lambda>t. delim \<notin> set t) ts"
  using split_tokens_ok [of 0 string delim "guac_count_occurrences string delim + 1"]
  by (auto simp: guac_split_def list_all_iff)

end
