(* ===== verification/Json.thy ===== *)
theory Json
  imports Protocol
begin

text \<open>
  \<open>common/src/json.c\<close>: writing a JSON object of string properties over a stream, in blobs.

  The functions ignore what \<open>guac_protocol_send_blob\<close> returns, so each returns, beside its own
  result, the messages it sends (\<open>send_all\<close> of the root theory puts them on a socket). \<open>None\<close> is a
  \<open>memcpy\<close> past the end of the buffer.
\<close>

section \<open>The writer\<close>

record guac_common_json_state =
  js_buffer :: "char list"
  js_size :: nat
  js_properties_written :: int

type_synonym json_out = "unit guac_message list"

definition JSON_BUFFER_SIZE :: nat where
  "JSON_BUFFER_SIZE = 4096"

definition json_blob :: "int \<Rightarrow> char list \<Rightarrow> unit guac_message" where
  "json_blob stream text = Stream_Message (Send_blob stream (map byte_of text))"

definition guac_common_json_flush ::
  "int \<Rightarrow> guac_common_json_state \<Rightarrow> guac_common_json_state \<times> json_out" where
  "guac_common_json_flush stream js =
     (if 0 < js_size js
      then (js\<lparr>js_size := 0\<rparr>, [json_blob stream (take (js_size js) (js_buffer js))])
      else (js, []))"

definition json_append :: "guac_common_json_state \<Rightarrow> char list \<Rightarrow> guac_common_json_state option" where
  "json_append js xs =
     (if JSON_BUFFER_SIZE < js_size js + length xs then None
      else Some (js\<lparr>js_buffer := take (js_size js) (js_buffer js) @ xs
                       @ drop (js_size js + length xs) (js_buffer js),
                    js_size := js_size js + length xs\<rparr>))"

function guac_common_json_write ::
  "int \<Rightarrow> guac_common_json_state \<Rightarrow> char list \<Rightarrow> (int \<times> guac_common_json_state \<times> json_out) option" where
  "guac_common_json_write stream js buffer =
     (if buffer = [] then Some (0, js, [])
      else
        let blob_length = min (length buffer) JSON_BUFFER_SIZE;
            full = JSON_BUFFER_SIZE < js_size js + blob_length;
            (js, out) = (if full then guac_common_json_flush stream js else (js, [])) in
        case json_append js (take blob_length buffer) of None \<Rightarrow> None
        | Some js \<Rightarrow>
            (case guac_common_json_write stream js (drop blob_length buffer) of None \<Rightarrow> None
             | Some (blob_written, js, out') \<Rightarrow>
                 Some (if full then 1 else blob_written, js, out @ out')))"
  by pat_completeness auto
termination
  by (relation "measure (\<lambda>(_, _, b). length b)") (auto simp: JSON_BUFFER_SIZE_def)

declare guac_common_json_write.simps [simp del]

text \<open>\<open>blob_written |= \<dots>\<close> over a sequence of writes.\<close>

fun json_writes ::
  "int \<Rightarrow> guac_common_json_state \<Rightarrow> char list list \<Rightarrow>
   (int \<times> guac_common_json_state \<times> json_out) option" where
  "json_writes stream js [] = Some (0, js, [])"
| "json_writes stream js (t # ts) =
     (case guac_common_json_write stream js t of None \<Rightarrow> None
      | Some (b, js, out) \<Rightarrow>
          (case json_writes stream js ts of None \<Rightarrow> None
           | Some (b', js, out') \<Rightarrow> Some (b OR b', js, out @ out')))"

text \<open>
  The pieces \<open>guac_common_json_write_string\<close> writes between its quotes: \<open>pending\<close> is the text from
  \<open>str\<close> to \<open>current\<close>. At a quote the pending text is written, then a backslash; the quote itself is
  the start of the new pending text.
\<close>

fun escape_pieces :: "char list \<Rightarrow> char list \<Rightarrow> char list list" where
  "escape_pieces pending [] = (if pending \<noteq> [] then [pending] else [])"
| "escape_pieces pending (c # current) =
     (if c = CHR 0x22
      then (if pending \<noteq> [] then [pending] else []) @ [[CHR 0x5C]] @ escape_pieces [c] current
      else escape_pieces (pending @ [c]) current)"

definition guac_common_json_write_string ::
  "int \<Rightarrow> guac_common_json_state \<Rightarrow> char list \<Rightarrow> (int \<times> guac_common_json_state \<times> json_out) option" where
  "guac_common_json_write_string stream js str =
     json_writes stream js ([[CHR 0x22]] @ escape_pieces [] str @ [[CHR 0x22]])"

definition guac_common_json_write_property ::
  "int \<Rightarrow> guac_common_json_state \<Rightarrow> char list \<Rightarrow> char list \<Rightarrow>
   (int \<times> guac_common_json_state \<times> json_out) option" where
  "guac_common_json_write_property stream js name value =
     (case (if js_properties_written js \<noteq> 0 then guac_common_json_write stream js '',''
            else Some (0, js, [])) of None \<Rightarrow> None
      | Some (b1, js, out1) \<Rightarrow>
     (case guac_common_json_write_string stream js name of None \<Rightarrow> None
      | Some (b2, js, out2) \<Rightarrow>
     (case guac_common_json_write stream js '':'' of None \<Rightarrow> None
      | Some (b3, js, out3) \<Rightarrow>
     (case guac_common_json_write_string stream js value of None \<Rightarrow> None
      | Some (b4, js, out4) \<Rightarrow>
          Some (b1 OR b2 OR b3 OR b4,
                js\<lparr>js_properties_written := js_properties_written js + 1\<rparr>,
                out1 @ out2 @ out3 @ out4)))))"

text \<open>
  The leading brace is written inside an \<open>assert\<close>, so not at all when the program is compiled with
  \<open>NDEBUG\<close>. A failing assertion aborts: \<open>None\<close>.
\<close>

definition guac_common_json_begin_object ::
  "bool \<Rightarrow> int \<Rightarrow> guac_common_json_state \<Rightarrow> (guac_common_json_state \<times> json_out) option" where
  "guac_common_json_begin_object NDEBUG stream js =
     (let js = js\<lparr>js_size := 0, js_properties_written := 0\<rparr> in
      if NDEBUG then Some (js, [])
      else case guac_common_json_write stream js ''{'' of None \<Rightarrow> None
        | Some (blob_written, js, out) \<Rightarrow> if blob_written \<noteq> 0 then None else Some (js, out))"

definition guac_common_json_end_object ::
  "int \<Rightarrow> guac_common_json_state \<Rightarrow> (int \<times> guac_common_json_state \<times> json_out) option" where
  "guac_common_json_end_object stream js = guac_common_json_write stream js ''}''"

section \<open>What is delivered\<close>

text \<open>The text of the blobs of one stream, and the blobs a stream may carry.\<close>

fun blob_text :: "int \<Rightarrow> unit guac_message \<Rightarrow> char list option" where
  "blob_text stream (Stream_Message (Send_blob st data)) =
     (if st = stream \<and> data \<noteq> [] \<and> length data \<le> JSON_BUFFER_SIZE
      then Some (map char_of_byte data) else None)"
| "blob_text stream _ = None"

definition blobs_text :: "int \<Rightarrow> json_out \<Rightarrow> char list option" where
  "blobs_text stream out =
     (if list_all (\<lambda>m. blob_text stream m \<noteq> None) out
      then Some (concat (List.map_filter (blob_text stream) out)) else None)"

lemma blobs_text_Nil [simp]: "blobs_text stream [] = Some []"
  by (simp add: blobs_text_def List.map_filter_def)

lemma blobs_text_append [simp]:
  "blobs_text stream a = Some x \<Longrightarrow> blobs_text stream b = Some y \<Longrightarrow>
     blobs_text stream (a @ b) = Some (x @ y)"
  by (auto simp: blobs_text_def List.map_filter_def split: if_splits)

lemma blobs_text_single [simp]:
  "t \<noteq> [] \<Longrightarrow> length t \<le> JSON_BUFFER_SIZE \<Longrightarrow> blobs_text stream [json_blob stream t] = Some t"
  by (simp add: blobs_text_def List.map_filter_def json_blob_def comp_def)

definition json_ok :: "guac_common_json_state \<Rightarrow> bool" where
  "json_ok js \<longleftrightarrow> length (js_buffer js) = JSON_BUFFER_SIZE \<and> js_size js \<le> JSON_BUFFER_SIZE"

definition json_pending :: "guac_common_json_state \<Rightarrow> char list" where
  "json_pending js = take (js_size js) (js_buffer js)"

text \<open>
  \<open>adds stream js t r\<close>: the writer stayed inside its buffer, what it sent and what it still holds
  is what it held and \<open>t\<close>, and its result tells whether it sent anything.
\<close>

definition adds :: "int \<Rightarrow> guac_common_json_state \<Rightarrow> char list \<Rightarrow>
    (int \<times> guac_common_json_state \<times> json_out) option \<Rightarrow> bool" where
  "adds stream js t r \<longleftrightarrow>
     (\<exists>b js' out sent. r = Some (b, js', out) \<and> json_ok js' \<and> blobs_text stream out = Some sent
        \<and> sent @ json_pending js' = json_pending js @ t \<and> (b \<noteq> 0 \<longleftrightarrow> out \<noteq> [])
        \<and> js_properties_written js' = js_properties_written js)"

lemma addsE:
  assumes "adds stream js t r"
  obtains b js' out sent where "r = Some (b, js', out)" "json_ok js'"
    "blobs_text stream out = Some sent" "sent @ json_pending js' = json_pending js @ t"
    "b \<noteq> 0 \<longleftrightarrow> out \<noteq> []" "js_properties_written js' = js_properties_written js"
  using assms unfolding adds_def by blast

lemma adds_Some:
  "adds stream js t (Some (b, js', out)) \<longleftrightarrow>
     (\<exists>sent. json_ok js' \<and> blobs_text stream out = Some sent
        \<and> sent @ json_pending js' = json_pending js @ t \<and> (b \<noteq> 0 \<longleftrightarrow> out \<noteq> [])
        \<and> js_properties_written js' = js_properties_written js)"
  by (auto simp: adds_def)

lemma json_append_ok:
  assumes "json_ok js" and "js_size js + length xs \<le> JSON_BUFFER_SIZE"
  obtains js' where "json_append js xs = Some js'" "json_ok js'"
    "json_pending js' = json_pending js @ xs" "js_properties_written js' = js_properties_written js"
    "js_size js' = js_size js + length xs"
  using assms by (auto simp: json_append_def json_ok_def json_pending_def)

lemma json_write_adds: "json_ok js \<Longrightarrow> adds stream js t (guac_common_json_write stream js t)"
proof (induction t arbitrary: js rule: length_induct)
  case (1 t)
  show ?case
  proof (cases "t = []")
    case True
    then show ?thesis using "1.prems" by (simp add: adds_def guac_common_json_write.simps)
  next
    case False
    let ?n = "min (length t) JSON_BUFFER_SIZE"
    let ?full = "JSON_BUFFER_SIZE < js_size js + ?n"
    obtain js1 out1 where f: "(if ?full then guac_common_json_flush stream js else (js, [])) = (js1, out1)"
      by fastforce
    have n: "?n \<le> JSON_BUFFER_SIZE" "0 < ?n" using False by (auto simp: JSON_BUFFER_SIZE_def)
    have js1: "json_ok js1 \<and> js_size js1 + ?n \<le> JSON_BUFFER_SIZE \<and> (?full \<longleftrightarrow> out1 \<noteq> [])
        \<and> js_properties_written js1 = js_properties_written js
        \<and> (\<exists>s. blobs_text stream out1 = Some s \<and> s @ json_pending js1 = json_pending js)"
    proof (cases ?full)
      case True
      then have s: "0 < js_size js" using n by linarith
      with f True have "js1 = js\<lparr>js_size := 0\<rparr>" "out1 = [json_blob stream (json_pending js)]"
        by (auto simp: guac_common_json_flush_def json_pending_def)
      moreover have "json_pending js \<noteq> []" "length (json_pending js) \<le> JSON_BUFFER_SIZE"
        using "1.prems" s by (auto simp: json_ok_def json_pending_def)
      ultimately show ?thesis using "1.prems" n True by (simp add: json_ok_def json_pending_def)
    qed (use f "1.prems" in auto)
    then obtain s where s: "blobs_text stream out1 = Some s" "s @ json_pending js1 = json_pending js"
      by blast
    have "length (take ?n t) = ?n" by simp
    with json_append_ok [of js1 "take ?n t"] js1 obtain js2 where js2:
      "json_append js1 (take ?n t) = Some js2" "json_ok js2"
      "json_pending js2 = json_pending js1 @ take ?n t"
      "js_properties_written js2 = js_properties_written js1" by metis
    have "length (drop ?n t) < length t" using n False by simp
    with "1.IH" js2(2) have "adds stream js2 (drop ?n t) (guac_common_json_write stream js2 (drop ?n t))"
      by blast
    then obtain b js' out' s' where r:
      "guac_common_json_write stream js2 (drop ?n t) = Some (b, js', out')" "json_ok js'"
      "blobs_text stream out' = Some s'" "s' @ json_pending js' = json_pending js2 @ drop ?n t"
      "b \<noteq> 0 \<longleftrightarrow> out' \<noteq> []" "js_properties_written js' = js_properties_written js2"
      by (rule addsE)
    have "guac_common_json_write stream js t = Some (if ?full then 1 else b, js', out1 @ out')"
      using False by (subst guac_common_json_write.simps) (simp add: f js2(1) r(1) Let_def)
    moreover have "(s @ s') @ json_pending js' = json_pending js @ t"
      using s(2) r(4) js2(3) by (metis append.assoc append_take_drop_id)
    ultimately show ?thesis
      using r js1 js2(4) s(1) unfolding adds_def by fastforce
  qed
qed

lemma adds_seq:
  assumes "adds stream js t r" and "\<And>js'. json_ok js' \<Longrightarrow> adds stream js' u (f js')"
  shows "adds stream js (t @ u) (case r of None \<Rightarrow> None
      | Some (b, js, out) \<Rightarrow>
          (case f js of None \<Rightarrow> None | Some (b', js, out') \<Rightarrow> Some (b OR b', js, out @ out')))"
proof -
  from assms(1) obtain b js1 out s where 1: "r = Some (b, js1, out)" "json_ok js1"
    "blobs_text stream out = Some s" "s @ json_pending js1 = json_pending js @ t"
    "b \<noteq> 0 \<longleftrightarrow> out \<noteq> []" "js_properties_written js1 = js_properties_written js" by (rule addsE)
  from assms(2) [OF 1(2)] obtain b' js2 out' s' where 2: "f js1 = Some (b', js2, out')" "json_ok js2"
    "blobs_text stream out' = Some s'" "s' @ json_pending js2 = json_pending js1 @ u"
    "b' \<noteq> 0 \<longleftrightarrow> out' \<noteq> []" "js_properties_written js2 = js_properties_written js1" by (rule addsE)
  have "(s @ s') @ json_pending js2 = json_pending js @ t @ u"
    using 1(4) 2(4) by (metis append.assoc)
  moreover have "b OR b' \<noteq> 0 \<longleftrightarrow> out @ out' \<noteq> []" using 1(5) 2(5) by (auto simp: or_eq_0_iff)
  ultimately show ?thesis using 1 2 unfolding adds_def by auto
qed

lemma json_writes_add: "json_ok js \<Longrightarrow> adds stream js (concat ts) (json_writes stream js ts)"
proof (induction ts arbitrary: js)
  case Nil
  then show ?case by (simp add: adds_def)
next
  case (Cons t ts)
  from adds_seq [OF json_write_adds [OF Cons.prems, of stream t] Cons.IH]
  show ?case by simp
qed

text \<open>The text of a string, of a property list and of an object.\<close>

definition json_escape :: "char list \<Rightarrow> char list" where
  "json_escape s = concat (map (\<lambda>c. if c = CHR 0x22 then [CHR 0x5C, c] else [c]) s)"

definition json_string :: "char list \<Rightarrow> char list" where
  "json_string s = CHR 0x22 # json_escape s @ [CHR 0x22]"

fun json_members :: "(char list \<times> char list) list \<Rightarrow> char list" where
  "json_members [] = []"
| "json_members [(n, v)] = json_string n @ '':'' @ json_string v"
| "json_members ((n, v) # p # ps) = json_string n @ '':'' @ json_string v @ '','' @ json_members (p # ps)"

lemma escape_pieces_text: "concat (escape_pieces pending s) = pending @ json_escape s"
  by (induction pending s rule: escape_pieces.induct) (auto simp: json_escape_def)

lemma json_write_string_adds:
  "json_ok js \<Longrightarrow> adds stream js (json_string s) (guac_common_json_write_string stream js s)"
  using json_writes_add [of js stream "[[CHR 0x22]] @ escape_pieces [] s @ [[CHR 0x22]]"]
  by (simp add: guac_common_json_write_string_def escape_pieces_text json_string_def)

lemma adds_seq4:
  assumes "adds stream js t1 r1" and "\<And>js. json_ok js \<Longrightarrow> adds stream js t2 (f2 js)"
    and "\<And>js. json_ok js \<Longrightarrow> adds stream js t3 (f3 js)"
    and "\<And>js. json_ok js \<Longrightarrow> adds stream js t4 (f4 js)"
  obtains b1 b2 b3 b4 js1 js2 js3 js4 o1 o2 o3 o4 where "r1 = Some (b1, js1, o1)"
    "f2 js1 = Some (b2, js2, o2)" "f3 js2 = Some (b3, js3, o3)" "f4 js3 = Some (b4, js4, o4)"
    "adds stream js (t1 @ t2 @ t3 @ t4) (Some (b1 OR b2 OR b3 OR b4, js4, o1 @ o2 @ o3 @ o4))"
proof -
  obtain b1 js1 o1 where 1: "r1 = Some (b1, js1, o1)" "json_ok js1"
    using assms(1) by (blast elim: addsE)
  obtain b2 js2 o2 where 2: "f2 js1 = Some (b2, js2, o2)" "json_ok js2"
    using assms(2) [OF 1(2)] by (blast elim: addsE)
  obtain b3 js3 o3 where 3: "f3 js2 = Some (b3, js3, o3)" "json_ok js3"
    using assms(3) [OF 2(2)] by (blast elim: addsE)
  obtain b4 js4 o4 where 4: "f4 js3 = Some (b4, js4, o4)"
    using assms(4) [OF 3(2)] by (blast elim: addsE)
  have "adds stream js (((t1 @ t2) @ t3) @ t4)
      (case (case (case r1 of None \<Rightarrow> None
        | Some (b, js, out) \<Rightarrow>
          (case f2 js of None \<Rightarrow> None | Some (b', js, out') \<Rightarrow> Some (b OR b', js, out @ out'))) of None \<Rightarrow> None
        | Some (b, js, out) \<Rightarrow>
          (case f3 js of None \<Rightarrow> None | Some (b', js, out') \<Rightarrow> Some (b OR b', js, out @ out'))) of None \<Rightarrow> None
        | Some (b, js, out) \<Rightarrow>
          (case f4 js of None \<Rightarrow> None | Some (b', js, out') \<Rightarrow> Some (b OR b', js, out @ out')))"
    by (intro adds_seq assms)
  then show ?thesis using that [OF 1(1) 2(1) 3(1) 4] 1 2 3 4 by (simp add: or.assoc)
qed

lemma json_write_property_ok:
  assumes "json_ok js"
  obtains b js' out sent where "guac_common_json_write_property stream js n v = Some (b, js', out)"
    "json_ok js'" "blobs_text stream out = Some sent" "b \<noteq> 0 \<longleftrightarrow> out \<noteq> []"
    "sent @ json_pending js' = json_pending js @ (if js_properties_written js \<noteq> 0 then '','' else [])
       @ json_string n @ '':'' @ json_string v"
    "js_properties_written js' = js_properties_written js + 1"
proof -
  have 1: "adds stream js (if js_properties_written js \<noteq> 0 then '','' else [])
      (if js_properties_written js \<noteq> 0 then guac_common_json_write stream js '','' else Some (0, js, []))"
    using json_write_adds [OF assms] assms by (simp add: adds_def)
  obtain b1 b2 b3 b4 js1 js2 js3 js4 o1 o2 o3 o4 where r:
    "(if js_properties_written js \<noteq> 0 then guac_common_json_write stream js '','' else Some (0, js, []))
       = Some (b1, js1, o1)"
    "guac_common_json_write_string stream js1 n = Some (b2, js2, o2)"
    "guac_common_json_write stream js2 '':'' = Some (b3, js3, o3)"
    "guac_common_json_write_string stream js3 v = Some (b4, js4, o4)"
    "adds stream js ((if js_properties_written js \<noteq> 0 then '','' else []) @ json_string n @ '':''
       @ json_string v) (Some (b1 OR b2 OR b3 OR b4, js4, o1 @ o2 @ o3 @ o4))"
    by (rule adds_seq4 [OF 1, of "json_string n" "\<lambda>js. guac_common_json_write_string stream js n" "'':''"
          "\<lambda>js. guac_common_json_write stream js '':''" "json_string v"
          "\<lambda>js. guac_common_json_write_string stream js v"])
      (intro json_write_string_adds json_write_adds | assumption)+
  from r(5) obtain sent where "json_ok js4" "blobs_text stream (o1 @ o2 @ o3 @ o4) = Some sent"
    "sent @ json_pending js4 = json_pending js @ (if js_properties_written js \<noteq> 0 then '','' else [])
       @ json_string n @ '':'' @ json_string v"
    "b1 OR b2 OR b3 OR b4 \<noteq> 0 \<longleftrightarrow> o1 @ o2 @ o3 @ o4 \<noteq> []"
    "js_properties_written js4 = js_properties_written js" unfolding adds_Some by blast
  moreover have "guac_common_json_write_property stream js n v =
      Some (b1 OR b2 OR b3 OR b4, js4\<lparr>js_properties_written := js_properties_written js4 + 1\<rparr>,
            o1 @ o2 @ o3 @ o4)"
    unfolding guac_common_json_write_property_def by (simp only: r(1-4) option.case prod.case)
  moreover have "json_ok (js4\<lparr>js_properties_written := k\<rparr>)" if "json_ok js4" for k
    using that by (simp add: json_ok_def)
  moreover have "json_pending (js4\<lparr>js_properties_written := k\<rparr>) = json_pending js4" for k
    by (simp add: json_pending_def)
  ultimately show ?thesis
    by (intro that [where b = "b1 OR b2 OR b3 OR b4" and out = "o1 @ o2 @ o3 @ o4"
          and js' = "js4\<lparr>js_properties_written := js_properties_written js4 + 1\<rparr>" and sent = sent]) simp_all
qed

section \<open>Whole objects\<close>

text \<open>
  An object written by the code that uses this interface: begin, the properties, end, and the final
  flush.
\<close>

fun json_properties ::
  "int \<Rightarrow> guac_common_json_state \<Rightarrow> (char list \<times> char list) list \<Rightarrow>
   (guac_common_json_state \<times> json_out) option" where
  "json_properties stream js [] = Some (js, [])"
| "json_properties stream js ((n, v) # ps) =
     (case guac_common_json_write_property stream js n v of None \<Rightarrow> None
      | Some (_, js, out) \<Rightarrow>
          (case json_properties stream js ps of None \<Rightarrow> None
           | Some (js, out') \<Rightarrow> Some (js, out @ out')))"

definition json_object ::
  "bool \<Rightarrow> int \<Rightarrow> guac_common_json_state \<Rightarrow> (char list \<times> char list) list \<Rightarrow> json_out option" where
  "json_object NDEBUG stream js ps =
     (case guac_common_json_begin_object NDEBUG stream js of None \<Rightarrow> None
      | Some (js, out1) \<Rightarrow>
     (case json_properties stream js ps of None \<Rightarrow> None
      | Some (js, out2) \<Rightarrow>
     (case guac_common_json_end_object stream js of None \<Rightarrow> None
      | Some (_, js, out3) \<Rightarrow>
          Some (out1 @ out2 @ out3 @ snd (guac_common_json_flush stream js)))))"

lemma json_properties_ok:
  "json_ok js \<Longrightarrow> 0 \<le> js_properties_written js \<Longrightarrow>
     \<exists>js' out sent. json_properties stream js ps = Some (js', out) \<and> json_ok js'
       \<and> blobs_text stream out = Some sent
       \<and> sent @ json_pending js' = json_pending js
            @ (if ps \<noteq> [] \<and> js_properties_written js \<noteq> 0 then '','' else []) @ json_members ps"
proof (induction ps arbitrary: js)
  case (Cons p ps)
  obtain n v where p: "p = (n, v)" by fastforce
  obtain b js1 out sent where 1: "guac_common_json_write_property stream js n v = Some (b, js1, out)"
    "json_ok js1" "blobs_text stream out = Some sent"
    "sent @ json_pending js1 = json_pending js @ (if js_properties_written js \<noteq> 0 then '','' else [])
       @ json_string n @ '':'' @ json_string v"
    "js_properties_written js1 = js_properties_written js + 1"
    by (rule json_write_property_ok [OF Cons.prems(1)])
  from Cons.IH [of js1] 1 Cons.prems obtain js' out' sent' where 2:
    "json_properties stream js1 ps = Some (js', out')" "json_ok js'"
    "blobs_text stream out' = Some sent'"
    "sent' @ json_pending js' = json_pending js1 @ (if ps \<noteq> [] then '','' else []) @ json_members ps"
    by auto
  have "(sent @ sent') @ json_pending js' = json_pending js
      @ (if js_properties_written js \<noteq> 0 then '','' else []) @ json_members (p # ps)"
    using 1(4) 2(4) by (cases ps) (simp_all add: p)
  then show ?case using 1 2 by (simp add: p)
qed simp

text \<open>A reader of JSON objects whose members are strings (the escapes are those of one character).\<close>

fun read_json_string :: "char list \<Rightarrow> (char list \<times> char list) option" where
  "read_json_string [] = None"
| "read_json_string (c # cs) =
     (if c = CHR 0x22 then Some ([], cs)
      else if c = CHR 0x5C
      then (case cs of [] \<Rightarrow> None
            | d # ds \<Rightarrow>
                if d = CHR 0x22 \<or> d = CHR 0x5C \<or> d = CHR ''/''
                then map_option (apfst (Cons d)) (read_json_string ds) else None)
      else map_option (apfst (Cons c)) (read_json_string cs))"

fun read_json_members :: "nat \<Rightarrow> char list \<Rightarrow> (char list \<times> char list) list option" where
  "read_json_members 0 cs = None"
| "read_json_members (Suc fuel) cs =
     (if take 1 cs \<noteq> [CHR 0x22] then None else
      case read_json_string (drop 1 cs) of None \<Rightarrow> None
      | Some (n, cs) \<Rightarrow>
          (if take 2 cs \<noteq> [CHR '':'', CHR 0x22] then None else
           case read_json_string (drop 2 cs) of None \<Rightarrow> None
           | Some (v, cs) \<Rightarrow>
               (if cs = ''}'' then Some [(n, v)]
                else if take 1 cs = '','' then map_option (Cons (n, v)) (read_json_members fuel (drop 1 cs))
                else None)))"

definition read_json_object :: "char list \<Rightarrow> (char list \<times> char list) list option" where
  "read_json_object cs =
     (if cs = ''{}'' then Some []
      else if take 1 cs = ''{'' then read_json_members (length cs) (drop 1 cs) else None)"

lemma read_json_string_escape:
  "CHR 0x5C \<notin> set s \<Longrightarrow> read_json_string (json_escape s @ CHR 0x22 # rest) = Some (s, rest)"
  by (induction s) (auto simp: json_escape_def)

lemma read_json_members_ok:
  "ps \<noteq> [] \<Longrightarrow> length ps \<le> fuel \<Longrightarrow> \<forall>(n, v) \<in> set ps. CHR 0x5C \<notin> set n \<and> CHR 0x5C \<notin> set v \<Longrightarrow>
     read_json_members fuel (json_members ps @ ''}'') = Some ps"
proof (induction ps arbitrary: fuel rule: json_members.induct)
  case (2 n v)
  then show ?case by (cases fuel) (simp_all add: json_string_def read_json_string_escape)
next
  case (3 n v p ps)
  then obtain f where f: "fuel = Suc f" by (cases fuel) auto
  with 3 have "read_json_members f (json_members (p # ps) @ ''}'') = Some (p # ps)" by simp
  then show ?case using 3(3-4) f by (simp add: json_string_def read_json_string_escape)
qed simp

lemma begin_object_ok:
  assumes "length (js_buffer js) = 4096"
  obtains js1 where "guac_common_json_begin_object False stream js = Some (js1, [])" "json_ok js1"
    "json_pending js1 = ''{''" "js_properties_written js1 = 0"
proof -
  let ?js = "js\<lparr>js_size := 0, js_properties_written := 0\<rparr>"
  have "guac_common_json_write stream ?js ''{'' = Some (0, ?js\<lparr>js_buffer := ''{'' @ drop 1 (js_buffer js),
      js_size := 1\<rparr>, [])"
    by (simp add: guac_common_json_write.simps json_append_def JSON_BUFFER_SIZE_def)
  then show ?thesis using assms
    by (intro that) (auto simp: guac_common_json_begin_object_def json_ok_def json_pending_def
        JSON_BUFFER_SIZE_def)
qed

lemma json_flush_text:
  assumes "json_ok js"
  shows "blobs_text stream (snd (guac_common_json_flush stream js)) = Some (json_pending js)"
proof (cases "js_size js = 0")
  case False
  then have "json_pending js \<noteq> []" "length (json_pending js) \<le> JSON_BUFFER_SIZE"
    using assms by (auto simp: json_ok_def json_pending_def JSON_BUFFER_SIZE_def)
  then show ?thesis using blobs_text_single False
    by (simp only: guac_common_json_flush_def json_pending_def) simp
qed (simp add: guac_common_json_flush_def json_pending_def)

lemma read_json_object_ok:
  assumes "\<forall>(n, v) \<in> set ps. CHR 0x5C \<notin> set n \<and> CHR 0x5C \<notin> set v"
  shows "read_json_object (''{'' @ json_members ps @ ''}'') = Some ps"
proof (cases ps)
  case (Cons p qs)
  then have ne: "ps \<noteq> []" by simp
  have "length xs \<le> length (json_members xs)" for xs
    by (induction xs rule: json_members.induct) (auto simp: json_string_def)
  from this [of ps] have "read_json_members (length (''{'' @ json_members ps @ ''}''))
      (json_members ps @ ''}'') = Some ps"
    by (intro read_json_members_ok ne assms) simp
  moreover have "json_members ps \<noteq> []"
    using \<open>length ps \<le> length (json_members ps)\<close> ne by auto
  ultimately show ?thesis by (simp add: read_json_object_def)
qed (simp add: read_json_object_def)



text \<open>
  With \<open>NDEBUG\<close> (a release build) the assertion that holds the write of the leading brace is not
  compiled: the text of the empty object is a lone closing brace.
\<close>

theorem json_ndebug_loses_brace:
  "json_object True stream \<lparr>js_buffer = replicate 4096 NUL, js_size = 0, js_properties_written = 0\<rparr> []
     = Some [json_blob stream ''}'']"
  by (simp add: json_object_def guac_common_json_begin_object_def guac_common_json_end_object_def
      guac_common_json_write.simps json_append_def JSON_BUFFER_SIZE_def guac_common_json_flush_def)

end
