(* ===== verification/Slots.thy ===== *)
theory Slots
  imports Pool
begin

text \<open>
  Tables of a fixed number of slots whose free positions come from an integer pool: the output
  streams and the objects of a user, the output streams of a client, the open files of a shared
  drive. A slot holds an index: \<open>-1\<close> when it is closed, the label of its position when it is open.
  The locale states what such a table relies on once; each user of it is an interpretation.
\<close>

definition used_slots :: "int list \<Rightarrow> int set" where
  "used_slots ixs = {int i | i. i < length ixs \<and> ixs ! i \<noteq> -1}"

lemma used_slots_iff: "int i \<in> used_slots ixs \<longleftrightarrow> i < length ixs \<and> ixs ! i \<noteq> -1"
  by (simp add: used_slots_def)

lemma used_slots_open: "i < length ixs \<Longrightarrow> x \<noteq> -1 \<Longrightarrow> used_slots (ixs[i := x]) = insert (int i) (used_slots ixs)"
  by (auto simp: used_slots_def nth_list_update)

lemma used_slots_close: "used_slots (ixs[i := -1]) = used_slots ixs - {int i}"
proof (cases "i < length ixs")
  case True
  then show ?thesis by (auto simp: used_slots_def nth_list_update split: if_splits)
qed (auto simp: used_slots_def)

lemma used_slots_replicate [simp]: "used_slots (replicate n (-1)) = {}"
  by (auto simp: used_slots_def)

lemma card_used_slots:
  "card (used_slots ixs) = length ixs \<longleftrightarrow> (\<forall>i < length ixs. ixs ! i \<noteq> -1)"
  "card (used_slots ixs) \<le> length ixs"
proof -
  let ?A = "{i. i < length ixs \<and> ixs ! i \<noteq> -1}"
  have i: "used_slots ixs = int ` ?A" by (auto simp: used_slots_def)
  have c: "card (used_slots ixs) = card ?A" unfolding i by (rule card_image) simp
  have s: "?A \<subseteq> {..<length ixs}" by auto
  show "card (used_slots ixs) \<le> length ixs" using c card_mono [OF _ s] by simp
  show "card (used_slots ixs) = length ixs \<longleftrightarrow> (\<forall>i < length ixs. ixs ! i \<noteq> -1)"
  proof
    assume "card (used_slots ixs) = length ixs"
    then have "?A = {..<length ixs}" using c by (intro card_subset_eq s) simp_all
    then show "\<forall>i < length ixs. ixs ! i \<noteq> -1" by auto
  next
    assume "\<forall>i < length ixs. ixs ! i \<noteq> -1"
    then have "?A = {..<length ixs}" by auto
    then show "card (used_slots ixs) = length ixs" using c by simp
  qed
qed

locale slot_table = bounded_pool next_int free_int live count mark
  for next_int :: "'p \<Rightarrow> (int \<times> 'p) option"
    and free_int :: "'p \<Rightarrow> int \<Rightarrow> 'p option"
    and live :: "'p \<Rightarrow> int set \<Rightarrow> bool"
    and count :: "'p \<Rightarrow> int"
    and mark :: "'p \<Rightarrow> int" +
  fixes slot_label :: "int \<Rightarrow> int"
    and slots :: nat
  assumes label_open: "0 \<le> i \<Longrightarrow> slot_label i \<noteq> -1"

text \<open>The state of a table: its pool and the indices in its slots.\<close>

definition table_ok ::
  "('p \<Rightarrow> int set \<Rightarrow> bool) \<Rightarrow> ('p \<Rightarrow> int) \<Rightarrow> (int \<Rightarrow> int) \<Rightarrow> nat \<Rightarrow> 'p \<Rightarrow> int list \<Rightarrow> bool" where
  "table_ok live mark slot_label slots p ixs \<longleftrightarrow>
     length ixs = slots \<and> live p (used_slots ixs) \<and> mark p \<le> int slots
     \<and> (\<forall>i < slots. ixs ! i = -1 \<or> ixs ! i = slot_label (int i))"

context slot_table
begin

abbreviation table :: "'p \<Rightarrow> int list \<Rightarrow> bool" where
  "table \<equiv> table_ok live mark slot_label slots"

lemma table_fresh: "live p {} \<Longrightarrow> mark p \<le> int slots \<Longrightarrow> table p (replicate slots (-1))"
  by (simp add: table_ok_def)

lemma table_full:
  assumes "table p ixs"
  shows "count p = int slots \<longleftrightarrow> (\<forall>i < slots. ixs ! i \<noteq> -1)" "count p \<le> int slots"
  using assms count_live [of p "used_slots ixs"] card_used_slots [of ixs]
  by (auto simp: table_ok_def)

lemma table_alloc:
  assumes "table p ixs" and "count p \<noteq> int slots"
  obtains v p' where "next_int p = Some (int v, p')" "v < slots" "ixs ! v = -1"
    "table p' (ixs[v := slot_label (int v)])"
proof -
  have l: "live p (used_slots ixs)" "length ixs = slots" "mark p \<le> int slots"
    using assms(1) by (simp_all add: table_ok_def)
  obtain w p' where w: "next_int p = Some (w, p')" using next_returns l(1) by blast
  from guarded_next [OF l(1,3) assms(2) w] have g: "0 \<le> w" "w < int slots" "w \<notin> used_slots ixs"
    "live p' (insert w (used_slots ixs))" "mark p' \<le> int slots" by auto
  define v where "v = nat w"
  have v: "w = int v" "v < slots" using g(1,2) by (simp_all add: v_def)
  have e: "ixs ! v = -1" using g(3) v l(2) by (auto simp: used_slots_iff)
  have u: "used_slots (ixs[v := slot_label (int v)]) = insert w (used_slots ixs)"
    using used_slots_open [of v ixs "slot_label (int v)"] label_open [of "int v"] v l(2) by simp
  have "table p' (ixs[v := slot_label (int v)])"
    using assms(1) g u v by (auto simp: table_ok_def nth_list_update)
  with that w v e show ?thesis by simp
qed

lemma table_free:
  assumes "table p ixs" and "i < slots" and "ixs ! i \<noteq> -1"
  obtains p' where "free_int p (int i) = Some p'" "table p' (ixs[i := -1])"
proof -
  have l: "live p (used_slots ixs)" "length ixs = slots" "mark p \<le> int slots"
    using assms(1) by (simp_all add: table_ok_def)
  have m: "int i \<in> used_slots ixs" using assms(2,3) l(2) by (simp add: used_slots_iff)
  from free_live [OF l(1) m] obtain p' where p': "free_int p (int i) = Some p'"
    "live p' (used_slots ixs - {int i})" by blast
  have "mark p' = mark p" using mark_free [OF l(1) m p'(1)] .
  then have "table p' (ixs[i := -1])"
    using assms(1,2) p'(2) l
    by (simp add: table_ok_def used_slots_close) (auto simp: nth_list_update split: if_splits)
  with that p'(1) show ?thesis by blast
qed

lemma table_index: "table p ixs \<Longrightarrow> i < slots \<Longrightarrow> ixs ! i \<noteq> -1 \<Longrightarrow> ixs ! i = slot_label (int i)"
  by (auto simp: table_ok_def)

end

end
