(* ===== verification/User.thy ===== *)
theory User
  imports Slots Parser "HOL-Library.Signed_Division"
begin

text \<open>
  \<open>libguac/src/user.c\<close>: a connected user, its table of output streams and of objects (allocated
  through the pool interface \<open>bounded_pool\<close>), the image streams, the argument parsers.

  \<^item> A handler (a function pointer) is a value of a type \<open>'h\<close> of handler names; what calling one does
    is the parameter \<open>env_call\<close> of the instruction handlers.
  \<^item> A pointer to a stream or an object of a table is its position in the table; \<open>None\<close> as a result of
    an allocation is the null pointer. \<open>void*\<close> data is an address.
  \<^item> The messages sent to the user are appended to \<open>u_sent\<close>: the code ignores the results of the send
    functions here. Log lines are left out.
  \<^item> The outer \<open>option\<close> is as everywhere: \<open>None\<close> is undefined behaviour (a null or dangling pointer,
    an index outside a table).
\<close>

section \<open>The structures\<close>

definition GUAC_USER_MAX_STREAMS :: int where "GUAC_USER_MAX_STREAMS = 64"
definition GUAC_USER_CLOSED_STREAM_INDEX :: int where "GUAC_USER_CLOSED_STREAM_INDEX = -1"
definition GUAC_USER_MAX_OBJECTS :: int where "GUAC_USER_MAX_OBJECTS = 64"
definition GUAC_USER_UNDEFINED_OBJECT_INDEX :: int where "GUAC_USER_UNDEFINED_OBJECT_INDEX = -1"

lemmas user_constants =
  GUAC_USER_MAX_STREAMS_def GUAC_USER_CLOSED_STREAM_INDEX_def
  GUAC_USER_MAX_OBJECTS_def GUAC_USER_UNDEFINED_OBJECT_INDEX_def

record 'h guac_stream =
  st_index :: int
  st_data :: "nat option"
  st_ack_handler :: "'h option"
  st_blob_handler :: "'h option"
  st_end_handler :: "'h option"

record 'h guac_object =
  ob_index :: int
  ob_data :: "nat option"
  ob_get_handler :: "'h option"
  ob_put_handler :: "'h option"

record guac_user_info =
  optimal_width :: int
  optimal_height :: int
  audio_mimetypes :: "char list list"
  video_mimetypes :: "char list list"
  image_mimetypes :: "char list list"
  optimal_resolution :: int

type_synonym message = "unit guac_message"

record 'h guac_user =
  user_id :: "char list"
  owner :: bool
  active :: bool
  last_received_timestamp :: int
  last_frame_duration :: int
  processing_lag :: int
  u_info :: guac_user_info
  u_stream_pool :: guac_pool
  u_output_streams :: "'h guac_stream list"
  u_input_streams :: "'h guac_stream list"
  u_object_pool :: guac_pool
  u_objects :: "'h guac_object list"
  u_data :: "nat option"
  mouse_handler :: "'h option"
  key_handler :: "'h option"
  clipboard_handler :: "'h option"
  size_handler :: "'h option"
  file_handler :: "'h option"
  pipe_handler :: "'h option"
  ack_handler :: "'h option"
  blob_handler :: "'h option"
  end_handler :: "'h option"
  sync_handler :: "'h option"
  leave_handler :: "'h option"
  get_handler :: "'h option"
  put_handler :: "'h option"
  audio_handler :: "'h option"
  u_sent :: "message list"

definition send_to_user :: "'h guac_user \<Rightarrow> message \<Rightarrow> 'h guac_user" where
  "send_to_user u m = u\<lparr>u_sent := u_sent u @ [m]\<rparr>"

section \<open>Allocation\<close>

text \<open>
  \<open>guac_user_alloc\<close>: \<open>ident\<close> is the generated id, \<open>now\<close> the clock; \<open>ins\<close>, \<open>outs\<close> and \<open>obs\<close> are the
  uninitialised memory of the tables, of which only the indices are set.
\<close>

definition guac_user_alloc ::
  "char list \<Rightarrow> int \<Rightarrow> 'h guac_stream list \<Rightarrow> 'h guac_stream list \<Rightarrow> 'h guac_object list \<Rightarrow> 'h guac_user" where
  "guac_user_alloc ident now ins outs obs =
     \<lparr>user_id = ident, owner = False, active = True, last_received_timestamp = now,
      last_frame_duration = 0, processing_lag = 0,
      u_info = \<lparr>optimal_width = 0, optimal_height = 0, audio_mimetypes = [], video_mimetypes = [],
                image_mimetypes = [], optimal_resolution = 0\<rparr>,
      u_stream_pool = guac_pool_alloc 0,
      u_output_streams = map (\<lambda>s. s\<lparr>st_index := GUAC_USER_CLOSED_STREAM_INDEX\<rparr>) outs,
      u_input_streams = map (\<lambda>s. s\<lparr>st_index := GUAC_USER_CLOSED_STREAM_INDEX\<rparr>) ins,
      u_object_pool = guac_pool_alloc 0,
      u_objects = map (\<lambda>s. s\<lparr>ob_index := GUAC_USER_UNDEFINED_OBJECT_INDEX\<rparr>) obs,
      u_data = None, mouse_handler = None, key_handler = None, clipboard_handler = None,
      size_handler = None, file_handler = None, pipe_handler = None, ack_handler = None,
      blob_handler = None, end_handler = None, sync_handler = None, leave_handler = None,
      get_handler = None, put_handler = None, audio_handler = None, u_sent = []\<rparr>"

text \<open>What \<open>guac_user_free\<close> leaves in the stores of its two pools.\<close>

definition guac_user_free ::
  "'h guac_user \<Rightarrow> ((nat \<Rightarrow> guac_pool_int option) \<times> (nat \<Rightarrow> guac_pool_int option)) option" where
  "guac_user_free u =
     (case guac_pool_free (u_stream_pool u) of None \<Rightarrow> None
      | Some m \<Rightarrow>
          (case guac_pool_free (u_object_pool u) of None \<Rightarrow> None | Some m' \<Rightarrow> Some (m, m')))"

definition guac_user_alloc_stream :: "'h guac_user \<Rightarrow> (nat option \<times> 'h guac_user) option" where
  "guac_user_alloc_stream u =
     (if p_active (u_stream_pool u) = GUAC_USER_MAX_STREAMS then Some (None, u)
      else case guac_pool_next_int (u_stream_pool u) of None \<Rightarrow> None
        | Some (stream_index, pool) \<Rightarrow>
            if stream_index < 0 \<or> int (length (u_output_streams u)) \<le> stream_index then None
            else Some (Some (nat stream_index),
                   u\<lparr>u_stream_pool := pool,
                     u_output_streams := (u_output_streams u)[nat stream_index :=
                       \<lparr>st_index = stream_index * 2, st_data = None, st_ack_handler = None,
                        st_blob_handler = None, st_end_handler = None\<rparr>]\<rparr>))"

definition guac_user_free_stream :: "'h guac_user \<Rightarrow> nat \<Rightarrow> 'h guac_user option" where
  "guac_user_free_stream u stream =
     (if length (u_output_streams u) \<le> stream then None
      else case guac_pool_free_int (u_stream_pool u) (st_index (u_output_streams u ! stream) sdiv 2) of
          None \<Rightarrow> None
        | Some pool \<Rightarrow>
            Some (u\<lparr>u_stream_pool := pool,
                    u_output_streams := (u_output_streams u)[stream :=
                      (u_output_streams u ! stream)\<lparr>st_index := GUAC_USER_CLOSED_STREAM_INDEX\<rparr>]\<rparr>))"

definition guac_user_alloc_object :: "'h guac_user \<Rightarrow> (nat option \<times> 'h guac_user) option" where
  "guac_user_alloc_object u =
     (if p_active (u_object_pool u) = GUAC_USER_MAX_OBJECTS then Some (None, u)
      else case guac_pool_next_int (u_object_pool u) of None \<Rightarrow> None
        | Some (object_index, pool) \<Rightarrow>
            if object_index < 0 \<or> int (length (u_objects u)) \<le> object_index then None
            else Some (Some (nat object_index),
                   u\<lparr>u_object_pool := pool,
                     u_objects := (u_objects u)[nat object_index :=
                       \<lparr>ob_index = object_index, ob_data = None, ob_get_handler = None,
                        ob_put_handler = None\<rparr>]\<rparr>))"

definition guac_user_free_object :: "'h guac_user \<Rightarrow> nat \<Rightarrow> 'h guac_user option" where
  "guac_user_free_object u obj =
     (if length (u_objects u) \<le> obj then None
      else case guac_pool_free_int (u_object_pool u) (ob_index (u_objects u ! obj)) of None \<Rightarrow> None
        | Some pool \<Rightarrow>
            Some (u\<lparr>u_object_pool := pool,
                    u_objects := (u_objects u)[obj :=
                      (u_objects u ! obj)\<lparr>ob_index := GUAC_USER_UNDEFINED_OBJECT_INDEX\<rparr>]\<rparr>))"

section \<open>Stopping and image streams\<close>

definition guac_user_stop :: "'h guac_user \<Rightarrow> 'h guac_user" where
  "guac_user_stop u = u\<lparr>active := False\<rparr>"

definition vguac_user_abort :: "'h guac_user \<Rightarrow> int \<Rightarrow> 'h guac_user" where
  "vguac_user_abort u status =
     (if active u
      then guac_user_stop
             (send_to_user u (Control_Message (Send_error ''Aborted. See logs.'' status)))
      else u)"

definition guac_user_abort :: "'h guac_user \<Rightarrow> int \<Rightarrow> 'h guac_user" where
  "guac_user_abort u status = vguac_user_abort u status"

text \<open>
  The three image streamers differ in the mimetype and the encoder. An encoder is given the index
  of the stream and yields the messages it sends (blobs of that stream). The result is what is
  sent over the socket argument. A null stream is dereferenced by the first send.
\<close>

definition stream_image ::
  "'h guac_user \<Rightarrow> int \<Rightarrow> int \<Rightarrow> char list \<Rightarrow> int \<Rightarrow> int \<Rightarrow> (int \<Rightarrow> message list) \<Rightarrow>
   (message list \<times> 'h guac_user) option" where
  "stream_image u mode layer mimetype x y encode =
     (case guac_user_alloc_stream u of None \<Rightarrow> None
      | Some (None, _) \<Rightarrow> None
      | Some (Some stream, u) \<Rightarrow>
          let index = st_index (u_output_streams u ! stream);
              img = Stream_Message (Send_img index mode layer mimetype x y);
              body = encode index;
              finish = Stream_Message (Send_end index) in
          map_option (\<lambda>u. (img # body @ [finish], u)) (guac_user_free_stream u stream))"

definition guac_user_stream_png ::
  "(int \<Rightarrow> 'surface \<Rightarrow> message list) \<Rightarrow> 'h guac_user \<Rightarrow> int \<Rightarrow> int \<Rightarrow> int \<Rightarrow> int \<Rightarrow> 'surface \<Rightarrow>
   (message list \<times> 'h guac_user) option" where
  "guac_user_stream_png png_write u mode layer x y surface =
     stream_image u mode layer ''image/png'' x y (\<lambda>st. png_write st surface)"

definition guac_user_stream_jpeg ::
  "(int \<Rightarrow> 'surface \<Rightarrow> int \<Rightarrow> message list) \<Rightarrow> 'h guac_user \<Rightarrow> int \<Rightarrow> int \<Rightarrow> int \<Rightarrow> int \<Rightarrow> 'surface \<Rightarrow> int \<Rightarrow>
   (message list \<times> 'h guac_user) option" where
  "guac_user_stream_jpeg jpeg_write u mode layer x y surface quality =
     stream_image u mode layer ''image/jpeg'' x y (\<lambda>st. jpeg_write st surface quality)"

definition guac_user_stream_webp ::
  "(int \<Rightarrow> 'surface \<Rightarrow> int \<Rightarrow> int \<Rightarrow> message list) \<Rightarrow> 'h guac_user \<Rightarrow> int \<Rightarrow> int \<Rightarrow> int \<Rightarrow> int \<Rightarrow> 'surface \<Rightarrow>
   int \<Rightarrow> int \<Rightarrow> (message list \<times> 'h guac_user) option" where
  "guac_user_stream_webp webp_write u mode layer x y surface quality lossless =
     stream_image u mode layer ''image/webp'' x y (\<lambda>st. webp_write st surface quality lossless)"

definition guac_user_supports_webp :: "'h guac_user \<Rightarrow> bool" where
  "guac_user_supports_webp u = list_ex (\<lambda>m. m = ''image/webp'') (image_mimetypes (u_info u))"

section \<open>Arguments\<close>

text \<open>
  \<open>strtol\<close> in base 10 with a \<open>long\<close> of \<open>bits\<close> bits: skip white space, an optional sign, the digits.
  The result is the value, clamped to the range of a \<open>long\<close>, the rest of the string (all of it when
  there are no digits) and whether \<open>errno\<close> is set to \<open>ERANGE\<close>. \<open>atoi\<close> is its value for 32 bits.
\<close>

definition is_space :: "char \<Rightarrow> bool" where
  "is_space c \<longleftrightarrow> c \<in> {CHR '' '', CHR 0x09, CHR 0x0A, CHR 0x0B, CHR 0x0C, CHR 0x0D}"

definition strtol :: "nat \<Rightarrow> char list \<Rightarrow> int \<times> char list \<times> bool" where
  "strtol bits s =
     (let t = dropWhile is_space s;
          negative = (take 1 t = ''-'');
          t = (if take 1 t = ''-'' \<or> take 1 t = ''+'' then drop 1 t else t);
          ds = takeWhile is_digit t;
          n = (if negative then - digits_value 0 ds else digits_value 0 ds);
          lo = - (2 ^ (bits - 1)); hi = 2 ^ (bits - 1) - 1 in
      if ds = [] then (0, s, False)
      else (max lo (min hi n), dropWhile is_digit t, n < lo \<or> hi < n))"

definition atoi :: "char list \<Rightarrow> int" where
  "atoi s = fst (strtol 32 s)"

text \<open>An element of \<open>argv\<close>; beyond \<open>argc\<close> the array holds stale pointers.\<close>

definition arg :: "char list list \<Rightarrow> nat \<Rightarrow> char list option" where
  "arg argv i = (if i < length argv then Some (argv ! i) else None)"

definition guac_user_parse_args_string ::
  "char list list \<Rightarrow> nat \<Rightarrow> char list option \<Rightarrow> char list option option" where
  "guac_user_parse_args_string argv index default_value =
     (case arg argv index of None \<Rightarrow> None
      | Some val \<Rightarrow> Some (if val = [] then default_value else Some val))"

definition guac_user_parse_args_int :: "nat \<Rightarrow> char list list \<Rightarrow> nat \<Rightarrow> int \<Rightarrow> int option" where
  "guac_user_parse_args_int long_bits argv index default_value =
     (case arg argv index of None \<Rightarrow> None
      | Some val \<Rightarrow>
          Some (if val = [] then default_value
                else
                  let (parsed_value, parse_end, erange) = strtol long_bits val;
                      erange = (erange \<or> parsed_value < - (2 ^ 31) \<or> parsed_value > 2 ^ 31 - 1) in
                  if erange \<or> parse_end \<noteq> [] then default_value else parsed_value))"

definition guac_user_parse_args_boolean :: "char list list \<Rightarrow> nat \<Rightarrow> int \<Rightarrow> int option" where
  "guac_user_parse_args_boolean argv index default_value =
     (case arg argv index of None \<Rightarrow> None
      | Some val \<Rightarrow>
          Some (if val = [] then default_value
                else if val = ''true'' then 1
                else if val = ''false'' then 0
                else default_value))"

section \<open>The tables\<close>

interpretation ut: slot_table guac_pool_next_int guac_pool_free_int bounded_live p_active p_next_value
  "\<lambda>i. i * 2" 64
  by unfold_locales auto

interpretation ot: slot_table guac_pool_next_int guac_pool_free_int bounded_live p_active p_next_value
  "\<lambda>i. i" 64
  by unfold_locales auto

definition output_indices :: "'h guac_user \<Rightarrow> int list" where
  "output_indices u = map st_index (u_output_streams u)"

definition input_indices :: "'h guac_user \<Rightarrow> int list" where
  "input_indices u = map st_index (u_input_streams u)"

definition object_indices :: "'h guac_user \<Rightarrow> int list" where
  "object_indices u = map ob_index (u_objects u)"

text \<open>
  The invariant of a user: the two tables agree with their pools, an open output stream \<open>k\<close> has
  index \<open>2k\<close>, an object its position, an open input stream its position.
\<close>

definition user_ok :: "'h guac_user \<Rightarrow> bool" where
  "user_ok u \<longleftrightarrow> ut.table (u_stream_pool u) (output_indices u)
     \<and> ot.table (u_object_pool u) (object_indices u)
     \<and> length (u_input_streams u) = 64
     \<and> (\<forall>i < 64. input_indices u ! i = -1 \<or> input_indices u ! i = int i)"

lemma user_okD:
  assumes "user_ok u"
  shows "length (u_output_streams u) = 64" "length (u_objects u) = 64" "length (u_input_streams u) = 64"
    "ut.table (u_stream_pool u) (output_indices u)" "ot.table (u_object_pool u) (object_indices u)"
  using assms by (auto simp: user_ok_def table_ok_def output_indices_def object_indices_def)

lemma user_ok_fields:
  assumes "u_stream_pool u' = u_stream_pool u" "u_output_streams u' = u_output_streams u"
    "u_input_streams u' = u_input_streams u" "u_object_pool u' = u_object_pool u"
    "u_objects u' = u_objects u"
  shows "user_ok u' = user_ok u" "output_indices u' = output_indices u"
  using assms by (simp_all add: user_ok_def input_indices_def output_indices_def object_indices_def)

lemma alloc_user_ok:
  assumes "length ins = 64" and "length outs = 64" and "length obs = 64"
  shows "user_ok (guac_user_alloc ident now ins outs obs)"
proof -
  have m: "map f xs = replicate 64 (-1)" if "length xs = 64" "\<And>x. f x = (-1 :: int)"
    for f :: "'b \<Rightarrow> int" and xs
    using that by (simp add: list_eq_iff_nth_eq)
  have "p_next_value (guac_pool_alloc 0) \<le> int 64" by (simp add: guac_pool_alloc_def)
  then show ?thesis
    using assms ut.table_fresh [OF bounded_live_alloc] ot.table_fresh [OF bounded_live_alloc]
    by (simp add: user_ok_def output_indices_def object_indices_def input_indices_def
        guac_user_alloc_def user_constants comp_def m [of outs] m [of obs])
qed

lemma alloc_stream_full:
  assumes "user_ok u" and "\<forall>i < 64. output_indices u ! i \<noteq> -1"
  shows "guac_user_alloc_stream u = Some (None, u)"
  using ut.table_full(1) [OF user_okD(4) [OF assms(1)]] assms(2)
  by (simp add: guac_user_alloc_stream_def user_constants)

lemma alloc_stream_ok:
  assumes "user_ok u" and "\<not> (\<forall>i < 64. output_indices u ! i \<noteq> -1)"
  obtains k u' where "guac_user_alloc_stream u = Some (Some k, u')" "k < 64"
    "output_indices u ! k = -1" "output_indices u' = (output_indices u)[k := int k * 2]"
    "user_ok u'" "object_indices u' = object_indices u" "input_indices u' = input_indices u"
    "u_sent u' = u_sent u" "u_output_streams u' ! k =
       \<lparr>st_index = int k * 2, st_data = None, st_ack_handler = None, st_blob_handler = None,
        st_end_handler = None\<rparr>"
proof -
  note ok = user_okD [OF assms(1)]
  have n: "p_active (u_stream_pool u) \<noteq> int 64" using ut.table_full(1) [OF ok(4)] assms(2) by simp
  from ut.table_alloc [OF ok(4) n] obtain k p' where k:
    "guac_pool_next_int (u_stream_pool u) = Some (int k, p')" "k < 64" "output_indices u ! k = -1"
    "ut.table p' ((output_indices u)[k := int k * 2])" .
  define s :: "'a guac_stream" where "s = \<lparr>st_index = int k * 2, st_data = None,
    st_ack_handler = None, st_blob_handler = None, st_end_handler = None\<rparr>"
  define u' where "u' = u\<lparr>u_stream_pool := p', u_output_streams := (u_output_streams u)[k := s]\<rparr>"
  have a: "guac_user_alloc_stream u = Some (Some k, u')"
    using n k(1,2) ok(1) by (simp add: guac_user_alloc_stream_def user_constants u'_def s_def)
  have o: "output_indices u' = (output_indices u)[k := int k * 2]"
    by (simp add: output_indices_def u'_def s_def map_update)
  have r: "object_indices u' = object_indices u" "input_indices u' = input_indices u"
    by (simp_all add: object_indices_def input_indices_def u'_def)
  have "user_ok u'" using assms(1) k(4) o r by (simp add: user_ok_def u'_def)
  with that a o r k show ?thesis using ok(1) by (simp add: u'_def s_def)
qed

lemma even_half: "int k * 2 sdiv 2 = int k"
  by (cases "k = 0") (simp_all add: signed_divide_int_def sgn_mult abs_mult)

lemma free_stream_ok:
  assumes "user_ok u" and "k < 64" and "output_indices u ! k \<noteq> -1"
  obtains u' where "guac_user_free_stream u k = Some u'" "user_ok u'"
    "output_indices u' = (output_indices u)[k := -1]" "object_indices u' = object_indices u"
    "input_indices u' = input_indices u" "u_sent u' = u_sent u"
proof -
  note ok = user_okD [OF assms(1)]
  have x: "st_index (u_output_streams u ! k) = int k * 2"
    using ut.table_index [OF ok(4) assms(2,3)] ok(1) assms(2) by (simp add: output_indices_def)
  from ut.table_free [OF ok(4) assms(2,3)] obtain p' where p':
    "guac_pool_free_int (u_stream_pool u) (int k) = Some p'"
    "ut.table p' ((output_indices u)[k := -1])" .
  define u' where "u' = u\<lparr>u_stream_pool := p', u_output_streams :=
    (u_output_streams u)[k := (u_output_streams u ! k)\<lparr>st_index := -1\<rparr>]\<rparr>"
  have "guac_user_free_stream u k = Some u'"
    using p'(1) x assms(2) ok(1) even_half [of k]
    by (simp add: guac_user_free_stream_def user_constants u'_def)
  moreover have o: "output_indices u' = (output_indices u)[k := -1]"
    by (simp add: output_indices_def u'_def map_update)
  moreover have r: "object_indices u' = object_indices u" "input_indices u' = input_indices u"
    by (simp_all add: object_indices_def input_indices_def u'_def)
  moreover have "user_ok u'" using assms(1) p'(2) o r by (simp add: user_ok_def u'_def)
  ultimately show ?thesis using that by (simp add: u'_def)
qed

lemma alloc_object_ok:
  assumes "user_ok u"
  shows "\<exists>r u'. guac_user_alloc_object u = Some (r, u') \<and> user_ok u'
     \<and> (case r of None \<Rightarrow> u' = u \<and> (\<forall>i < 64. object_indices u ! i \<noteq> -1)
        | Some k \<Rightarrow> k < 64 \<and> object_indices u ! k = -1
            \<and> object_indices u' = (object_indices u)[k := int k]
            \<and> output_indices u' = output_indices u)"
proof (cases "p_active (u_object_pool u) = int 64")
  case True
  then show ?thesis using assms ot.table_full(1) [OF user_okD(5) [OF assms]]
    by (simp add: guac_user_alloc_object_def user_constants)
next
  case False
  note ok = user_okD [OF assms]
  from ot.table_alloc [OF ok(5) False] obtain k p' where k:
    "guac_pool_next_int (u_object_pool u) = Some (int k, p')" "k < 64" "object_indices u ! k = -1"
    "ot.table p' ((object_indices u)[k := int k])" .
  define u' where "u' = u\<lparr>u_object_pool := p', u_objects := (u_objects u)[k :=
     \<lparr>ob_index = int k, ob_data = None, ob_get_handler = None, ob_put_handler = None\<rparr>]\<rparr>"
  have "guac_user_alloc_object u = Some (Some k, u')"
    using False k(1,2) ok(2) by (simp add: guac_user_alloc_object_def user_constants u'_def)
  moreover have o: "object_indices u' = (object_indices u)[k := int k]"
    by (simp add: object_indices_def u'_def map_update)
  moreover have r: "output_indices u' = output_indices u" "input_indices u' = input_indices u"
    by (simp_all add: output_indices_def input_indices_def u'_def)
  moreover have "user_ok u'" using assms k(4) o r by (simp add: user_ok_def u'_def)
  ultimately show ?thesis using k by auto
qed

lemma free_object_ok:
  assumes "user_ok u" and "k < 64" and "object_indices u ! k \<noteq> -1"
  shows "\<exists>u'. guac_user_free_object u k = Some u' \<and> user_ok u'
     \<and> object_indices u' = (object_indices u)[k := -1] \<and> output_indices u' = output_indices u"
proof -
  note ok = user_okD [OF assms(1)]
  have x: "ob_index (u_objects u ! k) = int k"
    using ot.table_index [OF ok(5) assms(2,3)] ok(2) assms(2) by (simp add: object_indices_def)
  from ot.table_free [OF ok(5) assms(2,3)] obtain p' where p':
    "guac_pool_free_int (u_object_pool u) (int k) = Some p'"
    "ot.table p' ((object_indices u)[k := -1])" .
  define u' where "u' = u\<lparr>u_object_pool := p', u_objects :=
    (u_objects u)[k := (u_objects u ! k)\<lparr>ob_index := -1\<rparr>]\<rparr>"
  have "guac_user_free_object u k = Some u'"
    using p'(1) x assms(2) ok(2) by (simp add: guac_user_free_object_def user_constants u'_def)
  moreover have o: "object_indices u' = (object_indices u)[k := -1]"
    by (simp add: object_indices_def u'_def map_update)
  moreover have r: "output_indices u' = output_indices u" "input_indices u' = input_indices u"
    by (simp_all add: output_indices_def input_indices_def u'_def)
  moreover have "user_ok u'" using assms(1) p'(2) o r by (simp add: user_ok_def u'_def)
  ultimately show ?thesis by auto
qed

text \<open>
  The users a program reaches from \<open>guac_user_alloc\<close> by allocating streams and objects and giving
  back open ones.
\<close>

inductive user_reach :: "'h guac_user \<Rightarrow> bool" where
  reach_user: "length ins = 64 \<Longrightarrow> length outs = 64 \<Longrightarrow> length obs = 64 \<Longrightarrow>
     user_reach (guac_user_alloc ident now ins outs obs)"
| reach_alloc_stream: "user_reach u \<Longrightarrow> guac_user_alloc_stream u = Some (r, u') \<Longrightarrow> user_reach u'"
| reach_free_stream: "user_reach u \<Longrightarrow> k < 64 \<Longrightarrow> output_indices u ! k \<noteq> -1 \<Longrightarrow>
     guac_user_free_stream u k = Some u' \<Longrightarrow> user_reach u'"
| reach_alloc_object: "user_reach u \<Longrightarrow> guac_user_alloc_object u = Some (r, u') \<Longrightarrow> user_reach u'"
| reach_free_object: "user_reach u \<Longrightarrow> k < 64 \<Longrightarrow> object_indices u ! k \<noteq> -1 \<Longrightarrow>
     guac_user_free_object u k = Some u' \<Longrightarrow> user_reach u'"

lemma user_reach_ok: "user_reach u \<Longrightarrow> user_ok u"
proof (induction rule: user_reach.induct)
  case (reach_user ins outs obs ident now)
  then show ?case by (rule alloc_user_ok)
next
  case (reach_alloc_stream u r u')
  then show ?case
    using alloc_stream_full [of u] alloc_stream_ok [of u] by (metis option.inject prod.inject)
next
  case (reach_free_stream u k u')
  then show ?case using free_stream_ok [of u k] by (metis option.inject)
next
  case (reach_alloc_object u r u')
  then show ?case using alloc_object_ok [of u] by auto
next
  case (reach_free_object u k u')
  then show ?case using free_object_ok [of u k] by auto
qed

text \<open>
  Streams of a user: in every reachable user \<open>guac_user_alloc_stream\<close> returns the null pointer
  exactly when all 64 streams are open, and otherwise opens one that was closed, with an even
  index below 128 that no other open stream has; it never leaves the table.
\<close>

theorem user_streams_distinct:
  assumes "user_reach u"
  shows "\<exists>r u'. guac_user_alloc_stream u = Some (r, u')
     \<and> (r = None \<longleftrightarrow> (\<forall>i < 64. output_indices u ! i \<noteq> -1))
     \<and> (\<forall>k. r = Some k \<longrightarrow> k < 64 \<and> output_indices u ! k = -1
          \<and> output_indices u' = (output_indices u)[k := 2 * int k]
          \<and> (\<forall>i < 64. i \<noteq> k \<longrightarrow> output_indices u' ! i \<noteq> output_indices u' ! k))"
proof (cases "\<forall>i < 64. output_indices u ! i \<noteq> -1")
  case True
  then show ?thesis using alloc_stream_full [OF user_reach_ok [OF assms]] by simp
next
  case False
  note ok = user_reach_ok [OF assms]
  from alloc_stream_ok [OF ok False] obtain k u' where k:
    "guac_user_alloc_stream u = Some (Some k, u')" "k < 64" "output_indices u ! k = -1"
    "output_indices u' = (output_indices u)[k := int k * 2]" by metis
  have l: "length (output_indices u) = 64" using user_okD(1) [OF ok] by (simp add: output_indices_def)
  have "output_indices u ! i = -1 \<or> output_indices u ! i = int i * 2" if "i < 64" for i
    using ut.table_index [OF user_okD(4) [OF ok]] that by blast
  then have "\<forall>i < 64. i \<noteq> k \<longrightarrow> output_indices u' ! i \<noteq> output_indices u' ! k"
    using k(2,4) l by fastforce
  then show ?thesis using k False l by (auto simp: mult.commute)
qed

text \<open>A user for examples, without handlers.\<close>

definition fresh_user :: "'h guac_user" where
  "fresh_user = guac_user_alloc ''@a'' 0
     (replicate 64 \<lparr>st_index = 7, st_data = None, st_ack_handler = None, st_blob_handler = None,
                    st_end_handler = None\<rparr>)
     (replicate 64 \<lparr>st_index = 7, st_data = None, st_ack_handler = None, st_blob_handler = None,
                    st_end_handler = None\<rparr>)
     (replicate 64 \<lparr>ob_index = 7, ob_data = None, ob_get_handler = None, ob_put_handler = None\<rparr>)"

lemma fresh_user_reach: "user_reach fresh_user"
  unfolding fresh_user_def by (rule reach_user) simp_all

lemma fresh_user_closed: "output_indices fresh_user = replicate 64 (-1)"
  by (simp add: fresh_user_def guac_user_alloc_def output_indices_def user_constants)

theorem user_streams_distinct_witness:
  "\<exists>r u'. guac_user_alloc_stream (fresh_user :: unit guac_user) = Some (r, u') \<and> r \<noteq> None"
proof -
  have "\<not> (\<forall>i < 64. output_indices (fresh_user :: unit guac_user) ! i \<noteq> -1)"
    unfolding fresh_user_closed by (auto intro: exI [of _ 0])
  with user_streams_distinct [OF fresh_user_reach [where 'a = unit]] show ?thesis by blast
qed

text \<open>
  An image is streamed to a user in one stream: the image header, what the encoder produces for
  that stream, the end. The stream is closed again. When all 64 streams are open the null pointer
  is dereferenced.
\<close>

theorem stream_png_ok:
  assumes "user_reach u"
  shows "if \<forall>i < 64. output_indices u ! i \<noteq> -1
     then guac_user_stream_png png_write u mode layer x y surface = None
     else \<exists>k u'. guac_user_stream_png png_write u mode layer x y surface =
         Some ([Stream_Message (Send_img (2 * int k) mode layer ''image/png'' x y)]
               @ png_write (2 * int k) surface @ [Stream_Message (Send_end (2 * int k))], u')
       \<and> output_indices u' = output_indices u \<and> user_ok u'"
proof (cases "\<forall>i < 64. output_indices u ! i \<noteq> -1")
  case True
  then show ?thesis using alloc_stream_full [OF user_reach_ok [OF assms]]
    by (simp add: guac_user_stream_png_def stream_image_def)
next
  case False
  note ok = user_reach_ok [OF assms]
  from alloc_stream_ok [OF ok False] obtain k u1 where k:
    "guac_user_alloc_stream u = Some (Some k, u1)" "k < 64" "output_indices u ! k = -1"
    "output_indices u1 = (output_indices u)[k := int k * 2]" "user_ok u1"
    "st_index (u_output_streams u1 ! k) = int k * 2" by (metis guac_stream.select_convs(1))
  have l: "length (output_indices u) = 64" using user_okD(1) [OF ok] by (simp add: output_indices_def)
  then have "output_indices u1 ! k \<noteq> -1" using k(2,4) by simp
  from free_stream_ok [OF k(5,2) this] obtain u' where u': "guac_user_free_stream u1 k = Some u'"
    "user_ok u'" "output_indices u' = (output_indices u1)[k := -1]" by metis
  have "output_indices u' = output_indices u" using u'(3) k(2-4) l by (metis list_update_id list_update_overwrite)
  then show ?thesis using k u' False
    by (auto simp: guac_user_stream_png_def stream_image_def Let_def mult.commute)
qed

theorem stream_png_ok_witness:
  "\<exists>k u'. guac_user_stream_png (\<lambda>st img. [Stream_Message (Send_blob st (map byte_of img))]) (fresh_user :: unit guac_user) 14 0 5 6 ''img'' =
         Some ([Stream_Message (Send_img (2 * int k) 14 0 ''image/png'' 5 6)]
               @ [Stream_Message (Send_blob (2 * int k) (map byte_of ''img''))] @ [Stream_Message (Send_end (2 * int k))], u')
       \<and> output_indices u' = output_indices (fresh_user :: unit guac_user) \<and> user_ok u'"
proof -
  have "\<not> (\<forall>i < 64. output_indices (fresh_user :: unit guac_user) ! i \<noteq> -1)"
    unfolding fresh_user_closed by (auto intro: exI [of _ 0])
  with stream_png_ok [OF fresh_user_reach [where 'a = unit], of "\<lambda>st img. [Stream_Message (Send_blob st (map byte_of img))]" 14 0 5 6 "''img''"]
  show ?thesis by (simp only: if_False)
qed

section \<open>Reading arguments\<close>

lemma digit_not_blank: "is_digit c \<Longrightarrow> \<not> is_space c \<and> c \<noteq> CHR ''-'' \<and> c \<noteq> CHR ''+''"
  by (auto simp: is_digit_def is_space_def)

lemma digits_of_nat_ne: "digits_of_nat n \<noteq> []"
  by (subst digits_of_nat.simps) simp

lemma strtol_format_int:
  "strtol bits (format_int n) =
     (max (- (2 ^ (bits - 1))) (min (2 ^ (bits - 1) - 1) n), [],
      n < - (2 ^ (bits - 1)) \<or> 2 ^ (bits - 1) - 1 < n)"
proof -
  define ds where "ds = digits_of_nat (nat \<bar>n\<bar>)"
  have d: "\<forall>c \<in> set ds. is_digit c" "digits_value 0 ds = \<bar>n\<bar>"
    using digits_of_nat_digits [of "nat \<bar>n\<bar>"] by (simp_all add: ds_def)
  obtain c cs where cs: "ds = c # cs" using digits_of_nat_ne unfolding ds_def by (meson neq_Nil_conv)
  have c: "\<not> is_space c" "c \<noteq> CHR ''-''" "c \<noteq> CHR ''+''" "\<not> is_space CHR ''-''"
    using d(1) cs digit_not_blank [of c] by (auto simp: is_space_def)
  have t: "takeWhile is_digit ds = ds" "dropWhile is_digit ds = []" "ds \<noteq> []"
    using d(1) cs by (simp_all add: takeWhile_eq_all_conv dropWhile_eq_Nil_conv)
  show ?thesis
  proof (cases "n < 0")
    case True
    then have f: "format_int n = CHR ''-'' # ds" by (simp add: format_int_def ds_def)
    show ?thesis unfolding strtol_def f using True by (simp add: Let_def c t d(2))
  next
    case False
    then have f: "format_int n = ds" by (simp add: format_int_def ds_def)
    have u: "dropWhile is_space ds = ds" "take 1 ds \<noteq> ''-''" "take 1 ds \<noteq> ''+''"
      using cs c by simp_all
    show ?thesis unfolding strtol_def f using False u by (simp add: Let_def t d(2))
  qed
qed

lemma atoi_format_int:
  "- (2 ^ 31) \<le> n \<Longrightarrow> n < 2 ^ 31 \<Longrightarrow> atoi (format_int n) = n"
  by (simp add: atoi_def strtol_format_int)

text \<open>
  \<open>guac_user_parse_args_int\<close>, whatever the width of \<open>long\<close>: a decimal number in the range of \<open>int\<close>
  is read exactly; a blank value, a number out of range and a value with no digit at all give the
  default; and every result is in the range of \<open>int\<close> or the default.
\<close>

theorem parse_args_int_total:
  assumes "i < length argv" and "32 \<le> long_bits"
  shows "\<exists>r. guac_user_parse_args_int long_bits argv i d = Some r
     \<and> (- (2 ^ 31) \<le> r \<and> r < 2 ^ 31 \<or> r = d)
     \<and> (\<forall>n. argv ! i = format_int n \<longrightarrow> r = (if - (2 ^ 31) \<le> n \<and> n < 2 ^ 31 then n else d))
     \<and> (list_all (\<lambda>c. \<not> is_digit c) (argv ! i) \<longrightarrow> r = d)"
proof -
  obtain v e er where s: "strtol long_bits (argv ! i) = (v, e, er)" by (metis prod.exhaust)
  define r where "r = (if argv ! i = [] then d
    else if (er \<or> v < - (2 ^ 31) \<or> v > 2 ^ 31 - 1) \<or> e \<noteq> [] then d else v)"
  have "guac_user_parse_args_int long_bits argv i d = Some r"
    using assms(1) by (simp add: guac_user_parse_args_int_def arg_def s r_def)
  moreover have "- (2 ^ 31) \<le> r \<and> r < 2 ^ 31 \<or> r = d" by (auto simp: r_def)
  moreover have "r = (if - (2 ^ 31) \<le> n \<and> n < 2 ^ 31 then n else d)" if f: "argv ! i = format_int n" for n
  proof -
    obtain b :: int where b: "b = 2 ^ (long_bits - 1)" by blast
    have b31: "2 ^ 31 \<le> b" unfolding b
      by (rule power_increasing) (use assms(2) in linarith, simp)
    have v: "v = max (- b) (min (b - 1) n)" "e = []" "er \<longleftrightarrow> n < - b \<or> b - 1 < n"
      using s strtol_format_int [of long_bits n] unfolding f b by simp_all
    have ne: "format_int n \<noteq> []" using digits_of_nat_ne by (simp add: format_int_def)
    show ?thesis
    proof (cases "- (2 ^ 31) \<le> n \<and> n < 2 ^ 31")
      case True
      then have "v = n" "\<not> er" using v b31 by simp_all
      then show ?thesis using True ne v(2) by (simp add: r_def f)
    next
      case False
      then have "er \<or> v < - (2 ^ 31) \<or> v > 2 ^ 31 - 1" using v b31 by (auto simp: max_def min_def)
      then show ?thesis unfolding r_def if_not_P [OF False] by simp
    qed
  qed
  moreover have "r = d" if n: "list_all (\<lambda>c. \<not> is_digit c) (argv ! i)"
  proof -
    have sub: "set (dropWhile P xs) \<subseteq> set xs" for P :: "char \<Rightarrow> bool" and xs
      by (auto dest: set_dropWhileD)
    have "takeWhile is_digit t = []" if "set t \<subseteq> set (argv ! i)" for t
      using that n by (cases t) (auto simp: list_all_iff)
    moreover have "set (drop 1 (dropWhile is_space (argv ! i))) \<subseteq> set (argv ! i)"
      using sub [of is_space "argv ! i"] set_drop_subset by (meson order_trans)
    ultimately have "strtol long_bits (argv ! i) = (0, argv ! i, False)"
      using sub [of is_space "argv ! i"] by (simp add: strtol_def Let_def)
    then show ?thesis using s by (auto simp: r_def)
  qed
  ultimately show ?thesis by blast
qed

theorem parse_args_int_total_witness:
  "guac_user_parse_args_int 32 [format_int (- 42)] 0 7 = Some (- 42)
   \<and> guac_user_parse_args_int 32 [''none''] 0 7 = Some 7"
  using parse_args_int_total [of 0 "[format_int (- 42)]" 32 7]
    parse_args_int_total [of 0 "[''none'']" 32 7]
  by (auto simp: is_digit_def)

end
