(* ===== verification/User_Handlers.thy ===== *)
theory User_Handlers
  imports User
begin

text \<open>
  \<open>libguac/src/user-handlers.c\<close> and \<open>guac_user_handle_instruction\<close>: what a user does with the
  instructions it receives.

  \<^item> \<open>env_call\<close> is what calling a handler does: its argument list is a \<open>handler_call\<close>, it returns the
    handler's result and the user it leaves. \<open>env_now\<close> is the clock, \<open>env_last_sent\<close> the client's
    \<open>last_sent_timestamp\<close>.
  \<^item> The handlers read \<open>argv[0]\<close>, \<open>argv[1]\<close>, \dots without looking at \<open>argc\<close>. Beyond \<open>argc\<close> the array
    holds pointers of earlier instructions: such a read is \<open>None\<close>.
\<close>

section \<open>Calling the handlers of a user\<close>

datatype handler_call =
    Sync_Call int
  | Mouse_Call int int int
  | Key_Call int int
  | Size_Call int int
  | Audio_Call nat "char list"
  | Clipboard_Call nat "char list"
  | File_Call nat "char list" "char list"
  | Pipe_Call nat "char list" "char list"
  | Ack_Call nat "char list" int
  | Blob_Call nat "char list"
  | End_Call nat
  | Get_Call nat "char list"
  | Put_Call nat nat "char list" "char list"

record 'h instruction_env =
  env_call :: "'h \<Rightarrow> handler_call \<Rightarrow> 'h guac_user \<Rightarrow> (int \<times> 'h guac_user) option"
  env_now :: int
  env_last_sent :: int

type_synonym 'h instruction_handler =
  "'h instruction_env \<Rightarrow> 'h guac_user \<Rightarrow> char list list \<Rightarrow> (int \<times> 'h guac_user) option"

definition GUAC_PROTOCOL_STATUS_UNSUPPORTED :: int where
  "GUAC_PROTOCOL_STATUS_UNSUPPORTED = 0x100"

definition GUAC_PROTOCOL_STATUS_CLIENT_BAD_REQUEST :: int where
  "GUAC_PROTOCOL_STATUS_CLIENT_BAD_REQUEST = 0x300"

text \<open>Reading several arguments, then going on.\<close>

definition with_arg :: "char list list \<Rightarrow> nat \<Rightarrow> (char list \<Rightarrow> 'a option) \<Rightarrow> 'a option" where
  "with_arg argv i f = (case arg argv i of None \<Rightarrow> None | Some a \<Rightarrow> f a)"

section \<open>Numbers\<close>

text \<open>
  \<open>__guac_parse_int\<close> takes every character that is not a minus sign as a digit; \<open>char\<close> is signed and
  the 64-bit arithmetic wraps around.
\<close>

definition wrap64 :: "int \<Rightarrow> int" where
  "wrap64 x = (x + 2 ^ 63) mod 2 ^ 64 - 2 ^ 63"

definition signed_char :: "char \<Rightarrow> int" where
  "signed_char c = (let n = of_char c in if 128 \<le> n then n - 256 else n)"

fun parse_int_loop :: "int \<Rightarrow> int \<Rightarrow> char list \<Rightarrow> int" where
  "parse_int_loop sign num [] = wrap64 (num * sign)"
| "parse_int_loop sign num (c # str) =
     (if c = CHR ''-'' then parse_int_loop (- sign) num str
      else parse_int_loop sign (wrap64 (num * 10 + (signed_char c - signed_char CHR ''0''))) str)"

definition guac_parse_int :: "char list \<Rightarrow> int" where
  "guac_parse_int str = parse_int_loop 1 0 str"

section \<open>Input events\<close>

text \<open>The lag statistics, updated when the timestamp is not older than the last one.\<close>

definition sync_statistics :: "int \<Rightarrow> int \<Rightarrow> 'h guac_user \<Rightarrow> 'h guac_user" where
  "sync_statistics current timestamp u =
     (if timestamp \<ge> last_received_timestamp u then
        let u = u\<lparr>last_received_timestamp := timestamp\<rparr>;
            frame_duration = wrap32 (current - timestamp);
            u = (if last_frame_duration u \<noteq> 0
                 then u\<lparr>processing_lag := max 0 (frame_duration - last_frame_duration u)\<rparr>
                 else u)
        in u\<lparr>last_frame_duration := frame_duration - processing_lag u\<rparr>
      else u)"

definition guac_handle_sync :: "'h instruction_handler" where
  "guac_handle_sync env u argv =
     with_arg argv 0 (\<lambda>a.
       let timestamp = guac_parse_int a in
       if timestamp > env_last_sent env then Some (-1, u)
       else
         let u = sync_statistics (env_now env) timestamp u in
         case sync_handler u of Some h \<Rightarrow> env_call env h (Sync_Call timestamp) u
         | None \<Rightarrow> Some (0, u))"

definition guac_handle_mouse :: "'h instruction_handler" where
  "guac_handle_mouse env u argv =
     (case mouse_handler u of None \<Rightarrow> Some (0, u)
      | Some h \<Rightarrow>
          with_arg argv 0 (\<lambda>x. with_arg argv 1 (\<lambda>y. with_arg argv 2 (\<lambda>mask.
            env_call env h (Mouse_Call (atoi x) (atoi y) (atoi mask)) u))))"

definition guac_handle_key :: "'h instruction_handler" where
  "guac_handle_key env u argv =
     (case key_handler u of None \<Rightarrow> Some (0, u)
      | Some h \<Rightarrow>
          with_arg argv 0 (\<lambda>keysym. with_arg argv 1 (\<lambda>pressed.
            env_call env h (Key_Call (atoi keysym) (atoi pressed)) u)))"

definition guac_handle_size :: "'h instruction_handler" where
  "guac_handle_size env u argv =
     (case size_handler u of None \<Rightarrow> Some (0, u)
      | Some h \<Rightarrow>
          with_arg argv 0 (\<lambda>w. with_arg argv 1 (\<lambda>ht.
            env_call env h (Size_Call (atoi w) (atoi ht)) u)))"

definition guac_handle_disconnect :: "'h instruction_handler" where
  "guac_handle_disconnect env u argv = Some (0, guac_user_stop u)"

section \<open>Input streams\<close>

definition send_bad_index :: "'h guac_user \<Rightarrow> int \<Rightarrow> 'h guac_user" where
  "send_bad_index u stream_index =
     send_to_user u (Stream_Message (Send_ack stream_index ''Invalid stream index''
       GUAC_PROTOCOL_STATUS_CLIENT_BAD_REQUEST))"

definition get_input_stream :: "'h guac_user \<Rightarrow> int \<Rightarrow> nat option \<times> 'h guac_user" where
  "get_input_stream u stream_index =
     (if stream_index < 0 \<or> stream_index \<ge> GUAC_USER_MAX_STREAMS
      then (None, send_bad_index u stream_index)
      else (Some (nat stream_index), u))"

definition get_open_input_stream :: "'h guac_user \<Rightarrow> int \<Rightarrow> (nat option \<times> 'h guac_user) option" where
  "get_open_input_stream u stream_index =
     (case get_input_stream u stream_index of (None, u) \<Rightarrow> Some (None, u)
      | (Some k, u) \<Rightarrow>
          if length (u_input_streams u) \<le> k then None
          else if st_index (u_input_streams u ! k) = GUAC_USER_CLOSED_STREAM_INDEX
          then Some (None, send_bad_index u stream_index)
          else Some (Some k, u))"

text \<open>The end handler of a stream: its own, or else the user's.\<close>

definition end_stream :: "'h instruction_env \<Rightarrow> 'h guac_user \<Rightarrow> nat \<Rightarrow> (int \<times> 'h guac_user) option" where
  "end_stream env u k =
     (case st_end_handler (u_input_streams u ! k) of
        Some h \<Rightarrow> env_call env h (End_Call k) u
      | None \<Rightarrow>
          (case end_handler u of Some h \<Rightarrow> env_call env h (End_Call k) u
           | None \<Rightarrow> Some (0, u)))"

definition init_input_stream ::
  "'h instruction_env \<Rightarrow> 'h guac_user \<Rightarrow> int \<Rightarrow> (nat option \<times> 'h guac_user) option" where
  "init_input_stream env u stream_index =
     (case get_input_stream u stream_index of (None, u) \<Rightarrow> Some (None, u)
      | (Some k, u) \<Rightarrow>
          if length (u_input_streams u) \<le> k then None
          else
            case (if st_index (u_input_streams u ! k) \<noteq> GUAC_USER_CLOSED_STREAM_INDEX
                  then end_stream env u k else Some (0, u)) of None \<Rightarrow> None
            | Some (_, u) \<Rightarrow>
                if length (u_input_streams u) \<le> k then None
                else Some (Some k, u\<lparr>u_input_streams := (u_input_streams u)[k :=
                       \<lparr>st_index = stream_index, st_data = None, st_ack_handler = None,
                        st_blob_handler = None, st_end_handler = None\<rparr>]\<rparr>))"

text \<open>
  The four instructions that open an input stream: on an invalid index nothing more happens;
  otherwise the stream is initialised and the handler called, or the stream refused.
\<close>

definition open_input_stream ::
  "'h instruction_env \<Rightarrow> 'h guac_user \<Rightarrow> char list list \<Rightarrow> ('h guac_user \<Rightarrow> 'h option) \<Rightarrow>
   (nat \<Rightarrow> handler_call option) \<Rightarrow> char list \<Rightarrow> (int \<times> 'h guac_user) option" where
  "open_input_stream env u argv handler call refusal =
     with_arg argv 0 (\<lambda>a.
       case init_input_stream env u (atoi a) of None \<Rightarrow> None
       | Some (None, u) \<Rightarrow> Some (0, u)
       | Some (Some k, u) \<Rightarrow>
           (case handler u of
              Some h \<Rightarrow> (case call k of None \<Rightarrow> None | Some c \<Rightarrow> env_call env h c u)
            | None \<Rightarrow>
                Some (0, send_to_user u (Stream_Message
                  (Send_ack (st_index (u_input_streams u ! k)) refusal GUAC_PROTOCOL_STATUS_UNSUPPORTED)))))"

definition guac_handle_audio :: "'h instruction_handler" where
  "guac_handle_audio env u argv =
     open_input_stream env u argv audio_handler
       (\<lambda>k. with_arg argv 1 (\<lambda>m. Some (Audio_Call k m))) ''Audio input unsupported''"

definition guac_handle_clipboard :: "'h instruction_handler" where
  "guac_handle_clipboard env u argv =
     open_input_stream env u argv clipboard_handler
       (\<lambda>k. with_arg argv 1 (\<lambda>m. Some (Clipboard_Call k m))) ''Clipboard unsupported''"

definition guac_handle_file :: "'h instruction_handler" where
  "guac_handle_file env u argv =
     open_input_stream env u argv file_handler
       (\<lambda>k. with_arg argv 1 (\<lambda>m. with_arg argv 2 (\<lambda>n. Some (File_Call k m n))))
       ''File transfer unsupported''"

definition guac_handle_pipe :: "'h instruction_handler" where
  "guac_handle_pipe env u argv =
     open_input_stream env u argv pipe_handler
       (\<lambda>k. with_arg argv 1 (\<lambda>m. with_arg argv 2 (\<lambda>n. Some (Pipe_Call k m n))))
       ''Named pipes unsupported''"

text \<open>An acknowledgement concerns an output stream.\<close>

definition guac_handle_ack :: "'h instruction_handler" where
  "guac_handle_ack env u argv =
     with_arg argv 0 (\<lambda>a.
       let stream_index = atoi a in
       if stream_index smod 2 \<noteq> 0 then Some (0, u)
       else
         let stream_index = stream_index sdiv 2 in
         if stream_index < 0 \<or> stream_index \<ge> GUAC_USER_MAX_STREAMS then Some (0, u)
         else
           let k = nat stream_index in
           if length (u_output_streams u) \<le> k then None
           else if st_index (u_output_streams u ! k) = GUAC_USER_CLOSED_STREAM_INDEX then Some (0, u)
           else
             let call = (\<lambda>h. with_arg argv 1 (\<lambda>msg. with_arg argv 2 (\<lambda>status.
                           env_call env h (Ack_Call k msg (atoi status)) u))) in
             (case st_ack_handler (u_output_streams u ! k) of Some h \<Rightarrow> call h
              | None \<Rightarrow> (case ack_handler u of Some h \<Rightarrow> call h | None \<Rightarrow> Some (0, u))))"

text \<open>The data of a blob is decoded in place; the handler gets the bytes.\<close>

definition decoded_blob :: "char list \<Rightarrow> char list option" where
  "decoded_blob a =
     (case guac_protocol_decode_base64 (a @ [NUL]) of None \<Rightarrow> None
      | Some (len, mem) \<Rightarrow> Some (take len mem))"

definition guac_handle_blob :: "'h instruction_handler" where
  "guac_handle_blob env u argv =
     with_arg argv 0 (\<lambda>a.
       case get_open_input_stream u (atoi a) of None \<Rightarrow> None
       | Some (None, u) \<Rightarrow> Some (0, u)
       | Some (Some k, u) \<Rightarrow>
           let call = (\<lambda>h. with_arg argv 1 (\<lambda>b.
                         case decoded_blob b of None \<Rightarrow> None
                         | Some bytes \<Rightarrow> env_call env h (Blob_Call k bytes) u)) in
           (case st_blob_handler (u_input_streams u ! k) of Some h \<Rightarrow> call h
            | None \<Rightarrow>
                (case blob_handler u of Some h \<Rightarrow> call h
                 | None \<Rightarrow>
                     Some (0, send_to_user u (Stream_Message
                       (Send_ack (st_index (u_input_streams u ! k)) ''File transfer unsupported''
                         GUAC_PROTOCOL_STATUS_UNSUPPORTED))))))"

definition guac_handle_end :: "'h instruction_handler" where
  "guac_handle_end env u argv =
     with_arg argv 0 (\<lambda>a.
       case get_open_input_stream u (atoi a) of None \<Rightarrow> None
       | Some (None, u) \<Rightarrow> Some (0, u)
       | Some (Some k, u) \<Rightarrow>
           (case end_stream env u k of None \<Rightarrow> None
            | Some (r, u) \<Rightarrow>
                if length (u_input_streams u) \<le> k then None
                else Some (r, u\<lparr>u_input_streams := (u_input_streams u)[k :=
                       (u_input_streams u ! k)\<lparr>st_index := GUAC_USER_CLOSED_STREAM_INDEX\<rparr>]\<rparr>)))"

section \<open>Objects\<close>

text \<open>The object of an index, when the index is valid and the object defined.\<close>

definition defined_object :: "'h guac_user \<Rightarrow> int \<Rightarrow> nat option option" where
  "defined_object u object_index =
     (if object_index < 0 \<or> object_index \<ge> GUAC_USER_MAX_OBJECTS then Some None
      else if int (length (u_objects u)) \<le> object_index then None
      else if ob_index (u_objects u ! nat object_index) = GUAC_USER_UNDEFINED_OBJECT_INDEX then Some None
      else Some (Some (nat object_index)))"

definition guac_handle_get :: "'h instruction_handler" where
  "guac_handle_get env u argv =
     with_arg argv 0 (\<lambda>a.
       case defined_object u (atoi a) of None \<Rightarrow> None
       | Some None \<Rightarrow> Some (0, u)
       | Some (Some k) \<Rightarrow>
           let call = (\<lambda>h. with_arg argv 1 (\<lambda>n. env_call env h (Get_Call k n) u)) in
           (case ob_get_handler (u_objects u ! k) of Some h \<Rightarrow> call h
            | None \<Rightarrow> (case get_handler u of Some h \<Rightarrow> call h | None \<Rightarrow> Some (0, u))))"

definition guac_handle_put :: "'h instruction_handler" where
  "guac_handle_put env u argv =
     with_arg argv 0 (\<lambda>a.
       case defined_object u (atoi a) of None \<Rightarrow> None
       | Some None \<Rightarrow> Some (0, u)
       | Some (Some k) \<Rightarrow>
           with_arg argv 1 (\<lambda>b.
             case init_input_stream env u (atoi b) of None \<Rightarrow> None
             | Some (None, u) \<Rightarrow> Some (0, u)
             | Some (Some stream, u) \<Rightarrow>
                 let call = (\<lambda>h. with_arg argv 2 (\<lambda>m. with_arg argv 3 (\<lambda>n.
                               env_call env h (Put_Call k stream m n) u))) in
                 (case ob_put_handler (u_objects u ! k) of Some h \<Rightarrow> call h
                  | None \<Rightarrow>
                      (case put_handler u of Some h \<Rightarrow> call h
                       | None \<Rightarrow>
                           Some (0, send_to_user u (Stream_Message
                             (Send_ack (st_index (u_input_streams u ! stream))
                               ''Object write unsupported'' GUAC_PROTOCOL_STATUS_UNSUPPORTED)))))))"

section \<open>Dispatch\<close>

definition guac_instruction_handler_map :: "(char list \<times> 'h instruction_handler) list" where
  "guac_instruction_handler_map =
     [(''sync'', guac_handle_sync), (''mouse'', guac_handle_mouse), (''key'', guac_handle_key),
      (''clipboard'', guac_handle_clipboard), (''disconnect'', guac_handle_disconnect),
      (''size'', guac_handle_size), (''file'', guac_handle_file), (''pipe'', guac_handle_pipe),
      (''ack'', guac_handle_ack), (''blob'', guac_handle_blob), (''end'', guac_handle_end),
      (''get'', guac_handle_get), (''put'', guac_handle_put), (''audio'', guac_handle_audio)]"

definition guac_user_handle_instruction ::
  "'h instruction_env \<Rightarrow> 'h guac_user \<Rightarrow> char list \<Rightarrow> char list list \<Rightarrow> (int \<times> 'h guac_user) option" where
  "guac_user_handle_instruction env u opcode argv =
     (case map_of guac_instruction_handler_map opcode of
        Some handler \<Rightarrow> handler env u argv
      | None \<Rightarrow> Some (0, u))"

section \<open>Lemmas\<close>

lemma wrap64_id [simp]: "- (2 ^ 63) \<le> x \<Longrightarrow> x < 2 ^ 63 \<Longrightarrow> wrap64 x = x"
  by (simp add: wrap64_def)

lemma parse_int_digits:
  "\<forall>c \<in> set cs. is_digit c \<Longrightarrow> 0 \<le> num \<Longrightarrow> digits_value num cs < 2 ^ 63 \<Longrightarrow>
     parse_int_loop sign num cs = wrap64 (digits_value num cs * sign)"
proof (induction cs arbitrary: num)
  case (Cons c cs)
  let ?n = "num * 10 + of_char c - 48"
  have c: "48 \<le> (of_char c :: int)" "(of_char c :: int) \<le> 57" "c \<noteq> CHR ''-''"
    using Cons.prems(1) digit_not_blank [of c] by (auto simp: is_digit_def)
  have s: "signed_char c - signed_char CHR ''0'' = of_char c - 48"
    using c by (simp add: signed_char_def)
  have n: "0 \<le> ?n" using c Cons.prems(2) by linarith
  moreover have "?n \<le> digits_value ?n cs" using Cons.prems(1) n by (intro digits_value_mono) auto
  ultimately have w: "wrap64 ?n = ?n" using Cons.prems(3) by simp
  have "parse_int_loop sign num (c # cs) = parse_int_loop sign ?n cs"
    using c(3) s w by (simp add: add_diff_eq)
  then show ?case using Cons.IH [OF _ n] Cons.prems(1,3) by simp
qed simp

lemma parse_int_format:
  assumes "\<bar>n\<bar> < 2 ^ 63"
  shows "guac_parse_int (format_int n) = n"
proof -
  let ?ds = "digits_of_nat (nat \<bar>n\<bar>)"
  have d: "\<forall>c \<in> set ?ds. is_digit c" "digits_value 0 ?ds = \<bar>n\<bar>"
    using digits_of_nat_digits [of "nat \<bar>n\<bar>"] by simp_all
  have p: "parse_int_loop sign 0 ?ds = wrap64 (\<bar>n\<bar> * sign)" for sign
    using parse_int_digits [of ?ds 0 sign] d assms by simp
  show ?thesis
  proof (cases "n < 0")
    case True
    then have "format_int n = CHR ''-'' # ?ds" by (simp add: format_int_def)
    then show ?thesis using p [of "-1"] True assms by (simp add: guac_parse_int_def)
  next
    case False
    then have "format_int n = ?ds" by (simp add: format_int_def)
    then show ?thesis using p [of 1] False assms by (simp add: guac_parse_int_def)
  qed
qed

text \<open>Decoding returns for every text: the terminator is never overwritten before it is read.\<close>

lemma decode_returns:
  "i \<le> k \<Longrightarrow> k < length mem \<Longrightarrow> mem ! k = NUL \<Longrightarrow> len \<le> i \<Longrightarrow>
     decode_base64_loop mem i len v b \<noteq> None"
proof (induction "k - i" arbitrary: mem i len v b)
  case 0
  then have "i = k" by simp
  then show ?case using 0 by (subst decode_base64_loop.simps) simp
next
  case (Suc d)
  show ?case
  proof (cases "mem ! i = NUL \<or> mem ! i = CHR ''=''")
    case True
    then show ?thesis using Suc.prems by (subst decode_base64_loop.simps) auto
  next
    case False
    then have "i < k" using Suc.prems by (metis le_neq_implies_less)
    then have "decode_base64_loop (mem[len := x]) (Suc i) (Suc len) v' b' \<noteq> None"
      "decode_base64_loop mem (Suc i) len v' b' \<noteq> None" for x v' b'
      using Suc.hyps(1) [of "Suc i" "mem[len := x]" "Suc len" v' b']
        Suc.hyps(1) [of "Suc i" mem len v' b'] Suc.hyps(2) Suc.prems by auto
    then show ?thesis using False Suc.prems
      by (subst decode_base64_loop.simps) (simp add: Let_def)
  qed
qed

lemma decoded_blob_returns: "decoded_blob a \<noteq> None"
  using decode_returns [of 0 "length a" "a @ [NUL]" 0 0 0]
  by (auto simp: decoded_blob_def guac_protocol_decode_base64_def)

lemma decoded_blob_encode: "decoded_blob (base64_encode bs) = Some (map char_of_byte bs)"
  using decode_encode [of 0 "[]" bs "[]" 0]
  by (auto simp: decoded_blob_def guac_protocol_decode_base64_def)

lemma with_arg_ok [simp]: "i < length argv \<Longrightarrow> with_arg argv i f = f (argv ! i)"
  by (simp add: with_arg_def arg_def)

lemma argv_nonempty [simp]:
  "1 \<le> length argv \<Longrightarrow> argv \<noteq> []" "2 \<le> length argv \<Longrightarrow> argv \<noteq> []"
  "3 \<le> length argv \<Longrightarrow> argv \<noteq> []" "4 \<le> length argv \<Longrightarrow> argv \<noteq> []"
  by auto

lemma with_arg_short [simp]: "length argv \<le> i \<Longrightarrow> with_arg argv i f = None"
  by (simp add: with_arg_def arg_def)

section \<open>The input streams of a user\<close>

text \<open>What is asked of the handlers: they return, keep the user in shape and open or close no input stream.\<close>

definition calls_ok :: "'h instruction_env \<Rightarrow> bool" where
  "calls_ok env \<longleftrightarrow>
     (\<forall>h c u. user_ok u \<longrightarrow>
        (\<exists>r u'. env_call env h c u = Some (r, u') \<and> user_ok u' \<and> input_indices u' = input_indices u))"

definition open_inputs :: "'h guac_user \<Rightarrow> nat set" where
  "open_inputs u = {i. i < 64 \<and> input_indices u ! i \<noteq> -1}"

definition defined_objects :: "'h guac_user \<Rightarrow> nat set" where
  "defined_objects u = {i. i < 64 \<and> object_indices u ! i \<noteq> -1}"

text \<open>The number of arguments each handler reads.\<close>

definition required_args :: "char list \<Rightarrow> nat" where
  "required_args opcode =
     (case map_of [(''sync'', 1), (''mouse'', 3), (''key'', 2), (''clipboard'', 2), (''size'', 2),
        (''file'', 3), (''pipe'', 3), (''ack'', 3), (''blob'', 2), (''end'', 1), (''get'', 2),
        (''put'', 4), (''audio'', 2)] opcode of Some n \<Rightarrow> n | None \<Rightarrow> 0)"

text \<open>
  The abstract machine: the set of open input streams. An index out of range changes nothing.
\<close>

definition valid_index :: "char list \<Rightarrow> nat set" where
  "valid_index a = (if 0 \<le> atoi a \<and> atoi a < 64 then {nat (atoi a)} else {})"

definition inputs_after :: "nat set \<Rightarrow> char list \<Rightarrow> char list list \<Rightarrow> nat set \<Rightarrow> nat set" where
  "inputs_after objs opcode argv S =
     (if opcode \<in> {''audio'', ''clipboard'', ''file'', ''pipe''} then S \<union> valid_index (argv ! 0)
      else if opcode = ''put'' \<and> valid_index (argv ! 0) \<inter> objs \<noteq> {} then S \<union> valid_index (argv ! 1)
      else if opcode = ''end'' then S - valid_index (argv ! 0)
      else S)"

definition handled :: "nat set \<Rightarrow> (int \<times> 'h guac_user) option \<Rightarrow> bool" where
  "handled S res \<longleftrightarrow> (\<exists>r u'. res = Some (r, u') \<and> user_ok u' \<and> open_inputs u' = S)"

lemma handledI: "res = Some (r, u') \<Longrightarrow> user_ok u' \<Longrightarrow> open_inputs u' = S \<Longrightarrow> handled S res"
  by (auto simp: handled_def)

lemma user_ok_cong:
  assumes "u_stream_pool u' = u_stream_pool u" "u_output_streams u' = u_output_streams u"
    "u_input_streams u' = u_input_streams u" "u_object_pool u' = u_object_pool u"
    "u_objects u' = u_objects u"
  shows "user_ok u' = user_ok u" "open_inputs u' = open_inputs u"
  using user_ok_fields(1) [OF assms] assms by (simp_all add: open_inputs_def input_indices_def)

lemma user_ok_keep:
  "user_ok (send_to_user u m) = user_ok u" "open_inputs (send_to_user u m) = open_inputs u"
  "user_ok (guac_user_stop u) = user_ok u" "open_inputs (guac_user_stop u) = open_inputs u"
  "user_ok (u\<lparr>last_received_timestamp := x\<rparr>) = user_ok u"
  "open_inputs (u\<lparr>last_received_timestamp := x\<rparr>) = open_inputs u"
  "user_ok (u\<lparr>processing_lag := x\<rparr>) = user_ok u" "open_inputs (u\<lparr>processing_lag := x\<rparr>) = open_inputs u"
  "user_ok (u\<lparr>last_frame_duration := x\<rparr>) = user_ok u"
  "open_inputs (u\<lparr>last_frame_duration := x\<rparr>) = open_inputs u"
  by (rule user_ok_cong; simp add: send_to_user_def guac_user_stop_def)+

lemma call_handled: "calls_ok env \<Longrightarrow> user_ok u \<Longrightarrow> handled (open_inputs u) (env_call env h c u)"
proof -
  assume "calls_ok env" "user_ok u"
  then obtain r u' where "env_call env h c u = Some (r, u')" "user_ok u'"
    "input_indices u' = input_indices u" unfolding calls_ok_def by blast
  then show ?thesis by (simp add: handled_def open_inputs_def)
qed

lemma zero_handled: "user_ok u \<Longrightarrow> handled (open_inputs u) (Some (r, u))"
  by (auto simp: handled_def)

lemma input_update:
  assumes "user_ok u" and "k < 64" and "x = -1 \<or> x = int k" and "st_index s = x"
  shows "user_ok (u\<lparr>u_input_streams := (u_input_streams u)[k := s]\<rparr>)"
    "open_inputs (u\<lparr>u_input_streams := (u_input_streams u)[k := s]\<rparr>)
       = (if x = -1 then open_inputs u - {k} else insert k (open_inputs u))"
proof -
  let ?u = "u\<lparr>u_input_streams := (u_input_streams u)[k := s]\<rparr>"
  have l: "length (u_input_streams u) = 64" using user_okD(3) [OF assms(1)] .
  have i: "input_indices ?u = (input_indices u)[k := x]"
    using assms(4) by (simp add: input_indices_def map_update)
  have o: "output_indices ?u = output_indices u" "object_indices ?u = object_indices u"
    by (simp_all add: output_indices_def object_indices_def)
  have n: "length (input_indices u) = 64" using l by (simp add: input_indices_def)
  show "user_ok ?u" using assms(1,2,3) l n unfolding user_ok_def i o
    by (auto simp: nth_list_update)
  show "open_inputs ?u = (if x = -1 then open_inputs u - {k} else insert k (open_inputs u))"
    using assms(2,3) n unfolding open_inputs_def i by (auto simp: nth_list_update split: if_splits)
qed

lemma end_stream_handled:
  "calls_ok env \<Longrightarrow> user_ok u \<Longrightarrow> handled (open_inputs u) (end_stream env u k)"
  by (auto simp: end_stream_def call_handled zero_handled split: option.split)

lemma get_input_cases:
  assumes "user_ok u"
  shows "valid_index a = {} \<and> get_input_stream u (atoi a) = (None, send_bad_index u (atoi a))
     \<or> (\<exists>k. k < 64 \<and> atoi a = int k \<and> valid_index a = {k} \<and> get_input_stream u (atoi a) = (Some k, u))"
proof (cases "0 \<le> atoi a \<and> atoi a < 64")
  case True
  then obtain k where "k < 64" "atoi a = int k" by (metis nat_eq_iff2 nat_less_iff zero_le_imp_eq_int nat_int of_nat_less_iff of_nat_numeral)
  then show ?thesis using True
    by (intro disjI2 exI [of _ k]) (simp add: valid_index_def get_input_stream_def user_constants)
next
  case False
  then show ?thesis by (auto simp: valid_index_def get_input_stream_def user_constants)
qed

lemma init_input_stream_ok:
  assumes "calls_ok env" and "user_ok u"
  shows "valid_index a = {} \<and> init_input_stream env u (atoi a) = Some (None, send_bad_index u (atoi a))
     \<or> (\<exists>k u'. k < 64 \<and> valid_index a = {k} \<and> init_input_stream env u (atoi a) = Some (Some k, u')
          \<and> user_ok u' \<and> open_inputs u' = insert k (open_inputs u)
          \<and> st_index (u_input_streams u' ! k) = int k)"
proof -
  note l = user_okD(3)
  show ?thesis using get_input_cases [OF assms(2), of a]
  proof (elim disjE exE conjE)
    assume "valid_index a = {}" "get_input_stream u (atoi a) = (None, send_bad_index u (atoi a))"
    then show ?thesis by (simp add: init_input_stream_def)
  next
    fix k
    assume k: "k < 64" "atoi a = int k" "valid_index a = {k}" "get_input_stream u (atoi a) = (Some k, u)"
    have "handled (open_inputs u)
        (if st_index (u_input_streams u ! k) \<noteq> GUAC_USER_CLOSED_STREAM_INDEX
         then end_stream env u k else Some (0, u))"
      by (simp add: end_stream_handled zero_handled assms)
    then obtain r u1 where u1: "(if st_index (u_input_streams u ! k) \<noteq> GUAC_USER_CLOSED_STREAM_INDEX
         then end_stream env u k else Some (0, u)) = Some (r, u1)" "user_ok u1"
         "open_inputs u1 = open_inputs u" unfolding handled_def by blast
    let ?s = "\<lparr>st_index = int k, st_data = None, st_ack_handler = None, st_blob_handler = None,
      st_end_handler = None\<rparr>"
    have "init_input_stream env u (atoi a)
        = Some (Some k, u1\<lparr>u_input_streams := (u_input_streams u1)[k := ?s]\<rparr>)"
      using k u1 l [OF assms(2)] l [OF u1(2)] unfolding init_input_stream_def by simp
    moreover note input_update [OF u1(2) k(1), of "int k" ?s]
    ultimately show ?thesis using k u1(3) l [OF u1(2)] by auto
  qed
qed

lemma open_input_stream_handled:
  assumes "calls_ok env" and "user_ok u" and "argv \<noteq> []" and "\<And>k. call k \<noteq> None"
  shows "handled (open_inputs u \<union> valid_index (argv ! 0)) (open_input_stream env u argv handler call refusal)"
  using init_input_stream_ok [OF assms(1,2), of "argv ! 0"]
proof (elim disjE exE conjE)
  assume a: "valid_index (argv ! 0) = {}"
    "init_input_stream env u (atoi (argv ! 0)) = Some (None, send_bad_index u (atoi (argv ! 0)))"
  then show ?thesis using assms(2,3)
    by (auto simp: open_input_stream_def send_bad_index_def user_ok_keep intro: handledI)
next
  fix k u1
  assume k: "k < 64" "valid_index (argv ! 0) = {k}"
    "init_input_stream env u (atoi (argv ! 0)) = Some (Some k, u1)" "user_ok u1"
    "open_inputs u1 = insert k (open_inputs u)"
  obtain c where c: "call k = Some c" using assms(4) by auto
  show ?thesis
  proof (cases "handler u1")
    case None
    then show ?thesis using k assms(3)
      by (simp add: open_input_stream_def handled_def user_ok_keep)
  next
    case (Some h)
    then show ?thesis using k assms(3) c call_handled [OF assms(1) k(4), of h c]
      by (simp add: open_input_stream_def)
  qed
qed

lemma get_open_input_stream_ok:
  assumes "user_ok u"
  shows "valid_index a \<inter> open_inputs u = {}
       \<and> get_open_input_stream u (atoi a) = Some (None, send_bad_index u (atoi a))
     \<or> (\<exists>k. k < 64 \<and> k \<in> open_inputs u \<and> valid_index a = {k}
          \<and> get_open_input_stream u (atoi a) = Some (Some k, u))"
  using get_input_cases [OF assms, of a] user_okD(3) [OF assms]
  by (auto simp: get_open_input_stream_def open_inputs_def input_indices_def user_constants
      split: if_splits)

lemma defined_object_ok:
  assumes "user_ok u"
  shows "valid_index a \<inter> defined_objects u = {} \<and> defined_object u (atoi a) = Some None
     \<or> (\<exists>k. k < 64 \<and> valid_index a \<inter> defined_objects u \<noteq> {}
          \<and> defined_object u (atoi a) = Some (Some k))"
  using get_input_cases [OF assms, of a] user_okD(2) [OF assms]
  by (auto simp: defined_object_def get_input_stream_def defined_objects_def object_indices_def
      valid_index_def user_constants split: if_splits)

lemma sync_statistics_keep:
  "user_ok (sync_statistics now t u) = user_ok u"
  "open_inputs (sync_statistics now t u) = open_inputs u"
  by (rule user_ok_cong; simp add: sync_statistics_def Let_def)+

lemma sync_handled:
  assumes "calls_ok env" and "user_ok u" and "argv \<noteq> []"
  shows "handled (open_inputs u) (guac_handle_sync env u argv)"
proof -
  let ?u = "sync_statistics (env_now env) (guac_parse_int (argv ! 0)) u"
  have u: "user_ok ?u" "open_inputs ?u = open_inputs u" using assms(2) by (simp_all add: sync_statistics_keep)
  show ?thesis
    using zero_handled [OF assms(2), of "-1"] zero_handled [OF u(1), of 0] call_handled [OF assms(1) u(1)]
      assms(3)
    by (simp add: guac_handle_sync_def Let_def u(2) split: option.split)
qed

lemma event_handled:
  assumes "calls_ok env" and "user_ok u"
  shows "3 \<le> length argv \<Longrightarrow> handled (open_inputs u) (guac_handle_mouse env u argv)"
    "2 \<le> length argv \<Longrightarrow> handled (open_inputs u) (guac_handle_key env u argv)"
    "2 \<le> length argv \<Longrightarrow> handled (open_inputs u) (guac_handle_size env u argv)"
    "handled (open_inputs u) (guac_handle_disconnect env u argv)"
  using assms
  by (simp_all add: guac_handle_mouse_def guac_handle_key_def guac_handle_size_def
      guac_handle_disconnect_def zero_handled call_handled handled_def [of _ "Some _"] user_ok_keep
      split: option.split)

lemma stream_handled:
  assumes "calls_ok env" and "user_ok u"
  shows "2 \<le> length argv \<Longrightarrow>
      handled (open_inputs u \<union> valid_index (argv ! 0)) (guac_handle_audio env u argv)"
    "2 \<le> length argv \<Longrightarrow>
      handled (open_inputs u \<union> valid_index (argv ! 0)) (guac_handle_clipboard env u argv)"
    "3 \<le> length argv \<Longrightarrow>
      handled (open_inputs u \<union> valid_index (argv ! 0)) (guac_handle_file env u argv)"
    "3 \<le> length argv \<Longrightarrow>
      handled (open_inputs u \<union> valid_index (argv ! 0)) (guac_handle_pipe env u argv)"
  unfolding guac_handle_audio_def guac_handle_clipboard_def guac_handle_file_def guac_handle_pipe_def
  by (rule open_input_stream_handled [OF assms]; force)+

lemma ack_handled:
  assumes "calls_ok env" and "user_ok u" and "3 \<le> length argv"
  shows "handled (open_inputs u) (guac_handle_ack env u argv)"
proof -
  have l: "\<not> length (u_output_streams u) \<le> nat i" if "\<not> (i < 0 \<or> GUAC_USER_MAX_STREAMS \<le> i)" for i
    using that user_okD(1) [OF assms(2)] nat_less_iff [of i 64] by (simp add: user_constants)
  have a: "0 < length argv" "1 < length argv" "2 < length argv" using assms(3) by simp_all
  show ?thesis
    unfolding guac_handle_ack_def Let_def with_arg_ok [OF a(1)] with_arg_ok [OF a(2)] with_arg_ok [OF a(3)]
    using assms(1,2) by (auto simp: zero_handled call_handled l split: option.split)
qed

lemma blob_handled:
  assumes "calls_ok env" and "user_ok u" and "2 \<le> length argv"
  shows "handled (open_inputs u) (guac_handle_blob env u argv)"
  using get_open_input_stream_ok [OF assms(2), of "argv ! 0"]
proof (elim disjE exE conjE)
  assume "get_open_input_stream u (atoi (argv ! 0)) = Some (None, send_bad_index u (atoi (argv ! 0)))"
  then show ?thesis using assms(2,3)
    by (simp add: guac_handle_blob_def handled_def send_bad_index_def user_ok_keep)
next
  fix k
  assume k: "get_open_input_stream u (atoi (argv ! 0)) = Some (Some k, u)"
  obtain bytes where b: "decoded_blob (argv ! 1) = Some bytes" using decoded_blob_returns by blast
  have z: "handled (open_inputs u) (Some (0, send_to_user u m))" for m
    using assms(2) by (simp add: handled_def user_ok_keep)
  show ?thesis using k assms(3) b z call_handled [OF assms(1,2)]
    by (simp add: guac_handle_blob_def Let_def split: option.split)
qed

lemma end_handled:
  assumes "calls_ok env" and "user_ok u" and "1 \<le> length argv"
  shows "handled (open_inputs u - valid_index (argv ! 0)) (guac_handle_end env u argv)"
  using get_open_input_stream_ok [OF assms(2), of "argv ! 0"]
proof (elim disjE exE conjE)
  assume a: "get_open_input_stream u (atoi (argv ! 0)) = Some (None, send_bad_index u (atoi (argv ! 0)))"
    "valid_index (argv ! 0) \<inter> open_inputs u = {}"
  then have "open_inputs u - valid_index (argv ! 0) = open_inputs u" by auto
  then show ?thesis using a(1) assms(2,3)
    by (simp add: guac_handle_end_def handled_def send_bad_index_def user_ok_keep)
next
  fix k
  assume k: "k < 64" "valid_index (argv ! 0) = {k}"
    "get_open_input_stream u (atoi (argv ! 0)) = Some (Some k, u)"
  from end_stream_handled [OF assms(1,2), of k] obtain r u1 where u1:
    "end_stream env u k = Some (r, u1)" "user_ok u1" "open_inputs u1 = open_inputs u"
    unfolding handled_def by blast
  let ?s = "(u_input_streams u1 ! k)\<lparr>st_index := GUAC_USER_CLOSED_STREAM_INDEX\<rparr>"
  have "guac_handle_end env u argv
      = Some (r, u1\<lparr>u_input_streams := (u_input_streams u1)[k := ?s]\<rparr>)"
    using k u1 user_okD(3) [OF u1(2)] assms(3) by (simp add: guac_handle_end_def)
  with input_update [OF u1(2) k(1), of "-1" ?s] k(2) u1(3) show ?thesis
    by (auto simp: user_constants intro: handledI)
qed

lemma get_handled:
  assumes "calls_ok env" and "user_ok u" and "2 \<le> length argv"
  shows "handled (open_inputs u) (guac_handle_get env u argv)"
  using defined_object_ok [OF assms(2), of "argv ! 0"] assms zero_handled [OF assms(2)]
    call_handled [OF assms(1,2)]
  by (auto simp: guac_handle_get_def Let_def split: option.split)

lemma put_handled:
  assumes "calls_ok env" and "user_ok u" and "4 \<le> length argv"
  shows "handled (if valid_index (argv ! 0) \<inter> defined_objects u \<noteq> {}
      then open_inputs u \<union> valid_index (argv ! 1) else open_inputs u) (guac_handle_put env u argv)"
  using defined_object_ok [OF assms(2), of "argv ! 0"]
proof (elim disjE exE conjE)
  assume "valid_index (argv ! 0) \<inter> defined_objects u = {}" "defined_object u (atoi (argv ! 0)) = Some None"
  then show ?thesis using zero_handled [OF assms(2)] assms(3) by (simp add: guac_handle_put_def)
next
  fix k
  assume k: "valid_index (argv ! 0) \<inter> defined_objects u \<noteq> {}"
    "defined_object u (atoi (argv ! 0)) = Some (Some k)"
  show ?thesis using init_input_stream_ok [OF assms(1,2), of "argv ! 1"]
  proof (elim disjE exE conjE)
    assume "valid_index (argv ! 1) = {}"
      "init_input_stream env u (atoi (argv ! 1)) = Some (None, send_bad_index u (atoi (argv ! 1)))"
    then show ?thesis using k assms(2,3)
      by (simp add: guac_handle_put_def handled_def send_bad_index_def user_ok_keep)
  next
    fix s u1
    assume s: "valid_index (argv ! 1) = {s}"
      "init_input_stream env u (atoi (argv ! 1)) = Some (Some s, u1)" "user_ok u1"
      "open_inputs u1 = insert s (open_inputs u)"
    have z: "handled (open_inputs u1) (Some (0, send_to_user u1 m))" for m
      using s(3) by (simp add: handled_def user_ok_keep)
    show ?thesis using k s assms(3) z call_handled [OF assms(1) s(3)]
      by (simp add: guac_handle_put_def Let_def split: option.split)
  qed
qed

section \<open>Properties\<close>


text \<open>An environment for examples: every handler returns zero and changes nothing.\<close>

definition idle_env :: "unit instruction_env" where
  "idle_env = \<lparr>env_call = (\<lambda>h c u. Some (0, u)), env_now = 100, env_last_sent = 90\<rparr>"

lemma idle_env_ok: "calls_ok idle_env"
  by (simp add: calls_ok_def idle_env_def)

lemma fresh_user_ok: "user_ok fresh_user"
  by (rule user_reach_ok [OF fresh_user_reach])

lemma fresh_user_inputs: "open_inputs fresh_user = {}"
  by (simp add: open_inputs_def fresh_user_def guac_user_alloc_def input_indices_def user_constants)

lemma atoi_5: "atoi ''5'' = 5"
  using atoi_format_int [of 5] by (simp add: format_int_def digits_of_nat.simps digit_chars)


text \<open>
  C9. Blobs. On an open input stream with a blob handler, its own or the user's, the blob
  instruction that \<open>guac_protocol_send_blob\<close> writes for some bytes calls the handler with
  exactly these bytes. On a closed stream no handler is called: the user is sent an
  acknowledgement that refuses the index.
\<close>

theorem blob_delivered:
  assumes "user_ok u" and "k < 64"
    and "case st_blob_handler (u_input_streams u ! k) of Some g \<Rightarrow> g = h | None \<Rightarrow> blob_handler u = Some h"
  shows "guac_user_handle_instruction env u ''blob'' [format_int (int k), base64_encode bytes]
     = (if k \<in> open_inputs u then env_call env h (Blob_Call k (map char_of_byte bytes)) u
        else Some (0, send_to_user u (Stream_Message (Send_ack (int k) ''Invalid stream index'' 0x300))))"
proof -
  have a: "atoi (format_int (int k)) = int k" using assms(2) by (intro atoi_format_int) simp_all
  have l: "length (u_input_streams u) = 64" by (rule user_okD(3) [OF assms(1)])
  have g: "get_open_input_stream u (int k)
      = (if k \<in> open_inputs u then Some (Some k, u) else Some (None, send_bad_index u (int k)))"
    using assms(2) l by (simp add: get_open_input_stream_def get_input_stream_def open_inputs_def
        input_indices_def user_constants)
  show ?thesis
  proof (cases "k \<in> open_inputs u")
    case True
    then show ?thesis using assms(3)
      by (auto simp: guac_user_handle_instruction_def guac_instruction_handler_map_def
          guac_handle_blob_def a g decoded_blob_encode split: option.splits)
  next
    case False
    then show ?thesis
      by (simp add: guac_user_handle_instruction_def guac_instruction_handler_map_def
          guac_handle_blob_def a g send_bad_index_def GUAC_PROTOCOL_STATUS_CLIENT_BAD_REQUEST_def)
  qed
qed

theorem blob_delivered_witness:
  "guac_user_handle_instruction idle_env (fresh_user\<lparr>blob_handler := Some ()\<rparr>) ''blob''
     [format_int (int 3), base64_encode [1, 2]]
   = Some (0, send_to_user (fresh_user\<lparr>blob_handler := Some ()\<rparr>)
       (Stream_Message (Send_ack (int 3) ''Invalid stream index'' 0x300)))"
proof -
  let ?u = "fresh_user\<lparr>blob_handler := Some ()\<rparr>"
  have "user_ok ?u" "open_inputs ?u = {}"
    using user_ok_cong [of ?u fresh_user] fresh_user_ok fresh_user_inputs by simp_all
  moreover have "st_blob_handler (u_input_streams ?u ! 3) = None"
    by (simp add: fresh_user_def guac_user_alloc_def)
  ultimately show ?thesis using blob_delivered [of ?u 3 "()" idle_env "[1, 2]"] by simp
qed

text \<open>
  Lag. A sync instruction with a timestamp in the future is an error and changes nothing; one
  older than the last is passed to the handler without touching the statistics; otherwise the
  timestamp is recorded, the processing lag is the growth of the frame duration over the last
  baseline, never negative, and baseline and lag add up to the duration of the frame.
\<close>

theorem sync_updates_lag:
  assumes "\<bar>ts\<bar> < 2 ^ 63" and "0 \<le> env_now env - ts" and "env_now env - ts < 2 ^ 31"
    and "sync_handler u = None"
  shows "\<exists>r u'. guac_user_handle_instruction env u ''sync'' [format_int ts] = Some (r, u')
     \<and> (if ts > env_last_sent env then r = -1 \<and> u' = u
        else if ts < last_received_timestamp u then r = 0 \<and> u' = u
        else r = 0 \<and> last_received_timestamp u' = ts
          \<and> processing_lag u' + last_frame_duration u' = env_now env - ts
          \<and> processing_lag u' =
              (if last_frame_duration u = 0 then processing_lag u
               else max 0 (env_now env - ts - last_frame_duration u)))"
proof -
  have w: "wrap32 (env_now env - ts) = env_now env - ts" using assms(2,3) by simp
  have p: "guac_parse_int (format_int ts) = ts" by (rule parse_int_format [OF assms(1)])
  have s: "sync_handler (sync_statistics (env_now env) ts u) = None"
    using assms(4) by (simp add: sync_statistics_def Let_def)
  have d: "guac_user_handle_instruction env u ''sync'' [format_int ts]
      = (if ts > env_last_sent env then Some (-1, u) else Some (0, sync_statistics (env_now env) ts u))"
    by (simp add: guac_user_handle_instruction_def guac_instruction_handler_map_def
        guac_handle_sync_def p s Let_def)
  show ?thesis unfolding d by (simp add: sync_statistics_def Let_def w)
qed

theorem sync_updates_lag_witness:
  "\<exists>u'. guac_user_handle_instruction idle_env (fresh_user\<lparr>last_frame_duration := 4\<rparr>) ''sync'' [format_int 80]
       = Some (0, u') \<and> processing_lag u' = 16 \<and> last_frame_duration u' = 4"
proof -
  let ?u = "fresh_user\<lparr>last_frame_duration := 4\<rparr>"
  have u: "sync_handler ?u = None" "last_received_timestamp ?u = 0" "last_frame_duration ?u = 4"
    by (simp_all add: fresh_user_def guac_user_alloc_def)
  have e: "env_now idle_env = 100" "env_last_sent idle_env = 90" by (simp_all add: idle_env_def)
  have "\<bar>80 :: int\<bar> < 2 ^ 63" "0 \<le> env_now idle_env - 80" "env_now idle_env - 80 < 2 ^ 31"
    by (simp_all add: e)
  from sync_updates_lag [OF this u(1)] show ?thesis unfolding u e by auto
qed

text \<open>
  The handlers do not look at \<open>argc\<close>: a mouse instruction with fewer than three arguments reads
  pointers the instruction did not set.
\<close>

theorem mouse_reads_past_argc:
  assumes "mouse_handler u = Some h" and "length argv < 3"
  shows "guac_user_handle_instruction env u ''mouse'' argv = None"
proof -
  consider "argv = []" | a where "argv = [a]" | a b where "argv = [a, b]"
    using assms(2) by (cases argv rule: remdups_adj.cases) auto
  then show ?thesis using assms(1)
    by cases (simp_all add: guac_user_handle_instruction_def guac_instruction_handler_map_def
        guac_handle_mouse_def)
qed

theorem mouse_reads_past_argc_witness:
  "guac_user_handle_instruction idle_env (fresh_user\<lparr>mouse_handler := Some ()\<rparr>) ''mouse'' [''1'', ''2''] = None"
  by (rule mouse_reads_past_argc [where h = "()"]) simp_all

end
