(* ===== verification/Client.thy ===== *)
theory Client
  imports User
begin

text \<open>
  \<open>libguac/src/client.c\<close>: layers and buffers, the output streams of a client, its list of users.

  \<^item> The user structures live in a store by address, with the list pointers \<open>__prev\<close> and \<open>__next\<close>
    beside the user; \<open>__users\<close> and \<open>__owner\<close> are addresses or null. A step through a dangling pointer
    is \<open>None\<close>.
  \<^item> What is sent over the client's own socket, the broadcast socket, is appended to \<open>c_sent\<close>. A layer
    is its index. The locks make every operation atomic.
  \<^item> The join and leave handlers are parameters: what they return and do to the user. The plugin's
    \<open>free_handler\<close>, logging and \<open>guac_client_load_plugin\<close> are left out.
\<close>

section \<open>The structure\<close>

definition GUAC_CLIENT_MAX_STREAMS :: int where "GUAC_CLIENT_MAX_STREAMS = 64"
definition GUAC_CLIENT_CLOSED_STREAM_INDEX :: int where "GUAC_CLIENT_CLOSED_STREAM_INDEX = -1"
definition GUAC_BUFFER_POOL_INITIAL_SIZE :: int where "GUAC_BUFFER_POOL_INITIAL_SIZE = 1024"

lemmas client_constants = GUAC_CLIENT_MAX_STREAMS_def GUAC_CLIENT_CLOSED_STREAM_INDEX_def
  GUAC_BUFFER_POOL_INITIAL_SIZE_def

datatype guac_client_state = GUAC_CLIENT_RUNNING | GUAC_CLIENT_STOPPING

record 'h user_node =
  nd_user :: "'h guac_user"
  nd_prev :: "nat option"
  nd_next :: "nat option"

record 'h guac_client =
  c_state :: guac_client_state
  c_last_sent_timestamp :: int
  c_buffer_pool :: guac_pool
  c_layer_pool :: guac_pool
  c_stream_pool :: guac_pool
  c_output_streams :: "'h guac_stream list"
  c_nodes :: "nat \<Rightarrow> 'h user_node option"
  c_users :: "nat option"
  c_owner :: "nat option"
  c_connected_users :: int
  c_sent :: "message list"

text \<open>\<open>guac_client_alloc\<close>: the clock, the uninitialised memory of the streams, the user structures.\<close>

definition guac_client_alloc ::
  "int \<Rightarrow> 'h guac_stream list \<Rightarrow> (nat \<Rightarrow> 'h user_node option) \<Rightarrow> 'h guac_client" where
  "guac_client_alloc now streams nodes =
     \<lparr>c_state = GUAC_CLIENT_RUNNING, c_last_sent_timestamp = now,
      c_buffer_pool = guac_pool_alloc GUAC_BUFFER_POOL_INITIAL_SIZE,
      c_layer_pool = guac_pool_alloc GUAC_BUFFER_POOL_INITIAL_SIZE,
      c_stream_pool = guac_pool_alloc 0,
      c_output_streams = map (\<lambda>s. s\<lparr>st_index := GUAC_CLIENT_CLOSED_STREAM_INDEX\<rparr>) streams,
      c_nodes = nodes, c_users = None, c_owner = None, c_connected_users = 0, c_sent = []\<rparr>"

section \<open>Layers, buffers, streams\<close>

definition guac_client_alloc_layer :: "'h guac_client \<Rightarrow> (int \<times> 'h guac_client) option" where
  "guac_client_alloc_layer c =
     map_option (\<lambda>(v, p). (v + 1, c\<lparr>c_layer_pool := p\<rparr>)) (guac_pool_next_int (c_layer_pool c))"

definition guac_client_alloc_buffer :: "'h guac_client \<Rightarrow> (int \<times> 'h guac_client) option" where
  "guac_client_alloc_buffer c =
     map_option (\<lambda>(v, p). (- v - 1, c\<lparr>c_buffer_pool := p\<rparr>)) (guac_pool_next_int (c_buffer_pool c))"

definition guac_client_free_buffer :: "'h guac_client \<Rightarrow> int \<Rightarrow> 'h guac_client option" where
  "guac_client_free_buffer c layer =
     map_option (\<lambda>p. c\<lparr>c_buffer_pool := p\<rparr>) (guac_pool_free_int (c_buffer_pool c) (- layer - 1))"

definition guac_client_free_layer :: "'h guac_client \<Rightarrow> int \<Rightarrow> 'h guac_client option" where
  "guac_client_free_layer c layer =
     map_option (\<lambda>p. c\<lparr>c_layer_pool := p\<rparr>) (guac_pool_free_int (c_layer_pool c) layer)"

definition guac_client_alloc_stream :: "'h guac_client \<Rightarrow> (nat option \<times> 'h guac_client) option" where
  "guac_client_alloc_stream c =
     (if p_active (c_stream_pool c) = GUAC_CLIENT_MAX_STREAMS then Some (None, c)
      else case guac_pool_next_int (c_stream_pool c) of None \<Rightarrow> None
        | Some (stream_index, pool) \<Rightarrow>
            if stream_index < 0 \<or> int (length (c_output_streams c)) \<le> stream_index then None
            else Some (Some (nat stream_index),
                   c\<lparr>c_stream_pool := pool,
                     c_output_streams := (c_output_streams c)[nat stream_index :=
                       \<lparr>st_index = stream_index * 2 + 1, st_data = None, st_ack_handler = None,
                        st_blob_handler = None, st_end_handler = None\<rparr>]\<rparr>))"

definition guac_client_free_stream :: "'h guac_client \<Rightarrow> nat \<Rightarrow> 'h guac_client option" where
  "guac_client_free_stream c stream =
     (if length (c_output_streams c) \<le> stream then None
      else case guac_pool_free_int (c_stream_pool c)
                  ((st_index (c_output_streams c ! stream) - 1) sdiv 2) of
          None \<Rightarrow> None
        | Some pool \<Rightarrow>
            Some (c\<lparr>c_stream_pool := pool,
                    c_output_streams := (c_output_streams c)[stream :=
                      (c_output_streams c ! stream)\<lparr>st_index := GUAC_CLIENT_CLOSED_STREAM_INDEX\<rparr>]\<rparr>))"

text \<open>The image streamers, as those of a user; the result is what is sent over the socket argument.\<close>

definition client_stream_image ::
  "'h guac_client \<Rightarrow> int \<Rightarrow> int \<Rightarrow> char list \<Rightarrow> int \<Rightarrow> int \<Rightarrow> (int \<Rightarrow> message list) \<Rightarrow>
   (message list \<times> 'h guac_client) option" where
  "client_stream_image c mode layer mimetype x y encode =
     (case guac_client_alloc_stream c of None \<Rightarrow> None
      | Some (None, _) \<Rightarrow> None
      | Some (Some stream, c) \<Rightarrow>
          let index = st_index (c_output_streams c ! stream);
              img = Stream_Message (Send_img index mode layer mimetype x y);
              body = encode index;
              finish = Stream_Message (Send_end index) in
          map_option (\<lambda>c. (img # body @ [finish], c)) (guac_client_free_stream c stream))"

definition guac_client_stream_png ::
  "(int \<Rightarrow> 'surface \<Rightarrow> message list) \<Rightarrow> 'h guac_client \<Rightarrow> int \<Rightarrow> int \<Rightarrow> int \<Rightarrow> int \<Rightarrow> 'surface \<Rightarrow>
   (message list \<times> 'h guac_client) option" where
  "guac_client_stream_png png_write c mode layer x y surface =
     client_stream_image c mode layer ''image/png'' x y (\<lambda>st. png_write st surface)"

definition guac_client_stream_jpeg ::
  "(int \<Rightarrow> 'surface \<Rightarrow> int \<Rightarrow> message list) \<Rightarrow> 'h guac_client \<Rightarrow> int \<Rightarrow> int \<Rightarrow> int \<Rightarrow> int \<Rightarrow> 'surface \<Rightarrow> int \<Rightarrow>
   (message list \<times> 'h guac_client) option" where
  "guac_client_stream_jpeg jpeg_write c mode layer x y surface quality =
     client_stream_image c mode layer ''image/jpeg'' x y (\<lambda>st. jpeg_write st surface quality)"

definition guac_client_stream_webp ::
  "(int \<Rightarrow> 'surface \<Rightarrow> int \<Rightarrow> int \<Rightarrow> message list) \<Rightarrow> 'h guac_client \<Rightarrow> int \<Rightarrow> int \<Rightarrow> int \<Rightarrow> int \<Rightarrow> 'surface \<Rightarrow>
   int \<Rightarrow> int \<Rightarrow> (message list \<times> 'h guac_client) option" where
  "guac_client_stream_webp webp_write c mode layer x y surface quality lossless =
     client_stream_image c mode layer ''image/webp'' x y (\<lambda>st. webp_write st surface quality lossless)"

section \<open>Life cycle\<close>

definition guac_client_stop :: "'h guac_client \<Rightarrow> 'h guac_client" where
  "guac_client_stop c = c\<lparr>c_state := GUAC_CLIENT_STOPPING\<rparr>"

definition vguac_client_abort :: "'h guac_client \<Rightarrow> int \<Rightarrow> 'h guac_client" where
  "vguac_client_abort c status =
     (if c_state c = GUAC_CLIENT_RUNNING
      then guac_client_stop
             (c\<lparr>c_sent := c_sent c @ [Control_Message (Send_error ''Aborted. See logs.'' status)]\<rparr>)
      else c)"

definition guac_client_abort :: "'h guac_client \<Rightarrow> int \<Rightarrow> 'h guac_client" where
  "guac_client_abort c status = vguac_client_abort c status"

definition guac_client_end_frame :: "int \<Rightarrow> 'h guac_client \<Rightarrow> 'h guac_client" where
  "guac_client_end_frame now c =
     c\<lparr>c_last_sent_timestamp := now, c_sent := c_sent c @ [Control_Message (Send_sync now)]\<rparr>"

section \<open>The users\<close>

text \<open>Following a pointer: the node, or undefined.\<close>

definition update_node ::
  "('h user_node \<Rightarrow> 'h user_node) \<Rightarrow> nat \<Rightarrow> 'h guac_client \<Rightarrow> 'h guac_client option" where
  "update_node f a c =
     (case c_nodes c a of None \<Rightarrow> None
      | Some n \<Rightarrow> Some (c\<lparr>c_nodes := (c_nodes c)(a \<mapsto> f n)\<rparr>))"

definition guac_client_add_user ::
  "('h guac_user \<Rightarrow> int \<times> 'h guac_user) option \<Rightarrow> 'h guac_client \<Rightarrow> nat \<Rightarrow> (int \<times> 'h guac_client) option"
where
  "guac_client_add_user join_handler c user =
     (case c_nodes c user of None \<Rightarrow> None
      | Some n \<Rightarrow>
          let (retval, u) = (case join_handler of Some h \<Rightarrow> h (nd_user n) | None \<Rightarrow> (0, nd_user n));
              c = c\<lparr>c_nodes := (c_nodes c)(user \<mapsto> n\<lparr>nd_user := u\<rparr>)\<rparr> in
          if retval = 0 then
            case update_node (\<lambda>n. n\<lparr>nd_prev := None, nd_next := c_users c\<rparr>) user c of None \<Rightarrow> None
            | Some c \<Rightarrow>
                (case (case c_users c of None \<Rightarrow> Some c
                       | Some h \<Rightarrow> update_node (\<lambda>n. n\<lparr>nd_prev := Some user\<rparr>) h c) of None \<Rightarrow> None
                 | Some c \<Rightarrow>
                     Some (retval, c\<lparr>c_users := Some user, c_connected_users := c_connected_users c + 1,
                             c_owner := (if owner u then Some user else c_owner c)\<rparr>))
          else Some (retval, c))"

text \<open>\<open>call\<close> is what a leave handler does to the user, \<open>client_leave\<close> the handler of the client.\<close>

definition guac_client_remove_user ::
  "('h \<Rightarrow> 'h guac_user \<Rightarrow> 'h guac_user) \<Rightarrow> 'h option \<Rightarrow> 'h guac_client \<Rightarrow> nat \<Rightarrow> 'h guac_client option" where
  "guac_client_remove_user call client_leave c user =
     (case c_nodes c user of None \<Rightarrow> None
      | Some n \<Rightarrow>
          case (case nd_prev n of
                  Some p \<Rightarrow> update_node (\<lambda>m. m\<lparr>nd_next := nd_next n\<rparr>) p c
                | None \<Rightarrow> Some (c\<lparr>c_users := nd_next n\<rparr>)) of None \<Rightarrow> None
          | Some c \<Rightarrow>
              (case (case nd_next n of
                       Some s \<Rightarrow> update_node (\<lambda>m. m\<lparr>nd_prev := nd_prev n\<rparr>) s c
                     | None \<Rightarrow> Some c) of None \<Rightarrow> None
               | Some c \<Rightarrow>
                   let c = c\<lparr>c_connected_users := c_connected_users c - 1,
                             c_owner := (if owner (nd_user n) then None else c_owner c)\<rparr> in
                   case (case leave_handler (nd_user n) of Some h \<Rightarrow> Some h | None \<Rightarrow> client_leave) of
                     None \<Rightarrow> Some c
                   | Some h \<Rightarrow> update_node (\<lambda>m. m\<lparr>nd_user := call h (nd_user m)\<rparr>) user c))"

text \<open>
  \<open>guac_client_foreach_user\<close>: the callback is a function on the user, its address and its contents, and on what the data
  pointer points at. The walk ends only with the list.
\<close>

partial_function (option) foreach_from ::
  "(nat \<Rightarrow> 'h guac_user \<Rightarrow> 'a \<Rightarrow> 'h guac_user \<times> 'a) \<Rightarrow> nat option \<Rightarrow> 'h guac_client \<Rightarrow> 'a \<Rightarrow>
   ('h guac_client \<times> 'a) option" where
  "foreach_from callback current c data =
     (case current of None \<Rightarrow> Some (c, data)
      | Some a \<Rightarrow>
          (case c_nodes c a of None \<Rightarrow> None
           | Some n \<Rightarrow>
               (case callback a (nd_user n) data of (u, data') \<Rightarrow>
                  foreach_from callback (nd_next n)
                    (c\<lparr>c_nodes := (c_nodes c)(a \<mapsto> n\<lparr>nd_user := u\<rparr>)\<rparr>) data')))"

definition guac_client_foreach_user ::
  "'h guac_client \<Rightarrow> (nat \<Rightarrow> 'h guac_user \<Rightarrow> 'a \<Rightarrow> 'h guac_user \<times> 'a) \<Rightarrow> 'a \<Rightarrow> ('h guac_client \<times> 'a) option" where
  "guac_client_foreach_user c callback data = foreach_from callback (c_users c) c data"

text \<open>The search of \<open>guac_client_for_user\<close>; the callback gets the user or the null pointer.\<close>

partial_function (option) find_user_from :: "nat option \<Rightarrow> 'h guac_client \<Rightarrow> nat \<Rightarrow> bool option" where
  "find_user_from current c user =
     (case current of None \<Rightarrow> Some False
      | Some a \<Rightarrow>
          if a = user then Some True
          else (case c_nodes c a of None \<Rightarrow> None | Some n \<Rightarrow> find_user_from (nd_next n) c user))"

definition guac_client_for_user ::
  "'h guac_client \<Rightarrow> nat \<Rightarrow> (nat option \<Rightarrow> 'h guac_client \<Rightarrow> 'a option) \<Rightarrow> 'a option" where
  "guac_client_for_user c user callback =
     (case find_user_from (c_users c) c user of None \<Rightarrow> None
      | Some user_valid \<Rightarrow> callback (if user_valid then Some user else None) c)"

definition guac_client_for_owner ::
  "'h guac_client \<Rightarrow> (nat option \<Rightarrow> 'h guac_client \<Rightarrow> 'a option) \<Rightarrow> 'a option" where
  "guac_client_for_owner c callback = callback (c_owner c) c"

definition calculate_lag :: "'h guac_user \<Rightarrow> int \<Rightarrow> 'h guac_user \<times> int" where
  "calculate_lag user lag = (user, if processing_lag user > lag then processing_lag user else lag)"

definition guac_client_get_processing_lag :: "'h guac_client \<Rightarrow> int option" where
  "guac_client_get_processing_lag c =
     map_option snd (guac_client_foreach_user c (\<lambda>_. calculate_lag) 0)"

definition webp_support_callback :: "'h guac_user \<Rightarrow> bool \<Rightarrow> 'h guac_user \<times> bool" where
  "webp_support_callback user supported = (user, if supported then guac_user_supports_webp user else supported)"

definition guac_client_supports_webp :: "'h guac_client \<Rightarrow> bool option" where
  "guac_client_supports_webp c =
     map_option snd (guac_client_foreach_user c (\<lambda>_. webp_support_callback) True)"

text \<open>\<open>guac_client_free\<close>: every user is removed; then the pools are freed.\<close>

partial_function (option) remove_all ::
  "('h \<Rightarrow> 'h guac_user \<Rightarrow> 'h guac_user) \<Rightarrow> 'h option \<Rightarrow> 'h guac_client \<Rightarrow> 'h guac_client option" where
  "remove_all call client_leave c =
     (case c_users c of None \<Rightarrow> Some c
      | Some a \<Rightarrow>
          (case guac_client_remove_user call client_leave c a of None \<Rightarrow> None
           | Some c \<Rightarrow> remove_all call client_leave c))"

definition guac_client_free ::
  "('h \<Rightarrow> 'h guac_user \<Rightarrow> 'h guac_user) \<Rightarrow> 'h option \<Rightarrow> 'h guac_client \<Rightarrow>
   ('h guac_client \<times> (nat \<Rightarrow> guac_pool_int option) list) option" where
  "guac_client_free call client_leave c =
     (case remove_all call client_leave c of None \<Rightarrow> None
      | Some c \<Rightarrow>
     (case guac_pool_free (c_buffer_pool c) of None \<Rightarrow> None
      | Some m1 \<Rightarrow>
     (case guac_pool_free (c_layer_pool c) of None \<Rightarrow> None
      | Some m2 \<Rightarrow>
     (case guac_pool_free (c_stream_pool c) of None \<Rightarrow> None
      | Some m3 \<Rightarrow> Some (c, [m1, m2, m3])))))"

section \<open>The list of users\<close>

text \<open>
  \<open>users_at m prev p as\<close>: from \<open>p\<close> the \<open>__next\<close> pointers lead through the addresses \<open>as\<close>, and every
  node points back to its predecessor, the first one to \<open>prev\<close>.
\<close>

fun users_at :: "(nat \<Rightarrow> 'h user_node option) \<Rightarrow> nat option \<Rightarrow> nat option \<Rightarrow> nat list \<Rightarrow> bool" where
  "users_at m prev p [] \<longleftrightarrow> p = None"
| "users_at m prev p (a # as) \<longleftrightarrow>
     p = Some a \<and> (\<exists>n. m a = Some n \<and> nd_prev n = prev \<and> users_at m (Some a) (nd_next n) as)"

definition user_at :: "'h guac_client \<Rightarrow> nat \<Rightarrow> 'h guac_user" where
  "user_at c a = nd_user (the (c_nodes c a))"

text \<open>The users of a client are \<open>as\<close>, the newest first; at most one of them is the owner.\<close>

definition client_users :: "'h guac_client \<Rightarrow> nat list \<Rightarrow> bool" where
  "client_users c as \<longleftrightarrow> users_at (c_nodes c) None (c_users c) as \<and> distinct as
     \<and> c_connected_users c = int (length as)
     \<and> (\<forall>a \<in> set as. owner (user_at c a) \<longleftrightarrow> c_owner c = Some a)
     \<and> (\<forall>a. c_owner c = Some a \<longrightarrow> a \<in> set as)"

lemma users_at_upd: "a \<notin> set as \<Longrightarrow> users_at (m(a \<mapsto> n)) prev p as = users_at m prev p as"
  by (induction as arbitrary: prev p) auto

lemma users_at_same:
  "m a = Some n \<Longrightarrow> nd_prev n' = nd_prev n \<Longrightarrow> nd_next n' = nd_next n \<Longrightarrow> distinct as \<Longrightarrow>
     users_at (m(a \<mapsto> n')) prev p as = users_at m prev p as"
proof (induction as arbitrary: prev p)
  case (Cons b bs)
  then show ?case using users_at_upd [of b bs] by (cases "a = b") auto
qed simp

lemma users_at_mapped: "users_at m prev p as \<Longrightarrow> a \<in> set as \<Longrightarrow> m a \<noteq> None"
  by (induction as arbitrary: prev p) auto

text \<open>What a walk computes: the callback applied to the users one after the other.\<close>

fun fold_users :: "(nat \<Rightarrow> 'u \<Rightarrow> 'a \<Rightarrow> 'u \<times> 'a) \<Rightarrow> (nat \<times> 'u) list \<Rightarrow> 'a \<Rightarrow> 'u list \<times> 'a" where
  "fold_users f [] d = ([], d)"
| "fold_users f ((a, u) # us) d =
     (case f a u d of (u, d) \<Rightarrow> (case fold_users f us d of (us, d) \<Rightarrow> (u # us, d)))"

definition users_of :: "'h guac_client \<Rightarrow> nat list \<Rightarrow> (nat \<times> 'h guac_user) list" where
  "users_of c as = map (\<lambda>a. (a, user_at c a)) as"

lemma users_of_simps [simp]: "users_of c [] = []" "users_of c (a # as) = (a, user_at c a) # users_of c as"
  by (simp_all add: users_of_def)

lemma foreach_from_ok:
  "users_at (c_nodes c) prev p as \<Longrightarrow> distinct as \<Longrightarrow>
     \<exists>m. foreach_from f p c d = Some (c\<lparr>c_nodes := m\<rparr>, snd (fold_users f (users_of c as) d))
       \<and> map (\<lambda>a. nd_user (the (m a))) as = fst (fold_users f (users_of c as) d)
       \<and> users_at m prev p as \<and> (\<forall>a. a \<notin> set as \<longrightarrow> m a = c_nodes c a)"
proof (induction as arbitrary: c prev p d)
  case Nil
  then show ?case by (subst foreach_from.simps) (auto intro: exI [of _ "c_nodes c"])
next
  case (Cons a as)
  then obtain n where n: "p = Some a" "c_nodes c a = Some n" "nd_prev n = prev"
    "users_at (c_nodes c) (Some a) (nd_next n) as" by auto
  obtain u d1 where f: "f a (nd_user n) d = (u, d1)" by fastforce
  let ?c = "c\<lparr>c_nodes := (c_nodes c)(a \<mapsto> n\<lparr>nd_user := u\<rparr>)\<rparr>"
  have "users_at (c_nodes ?c) (Some a) (nd_next n) as"
    using n(4) Cons.prems(2) by (simp add: users_at_upd)
  from Cons.IH [OF this, of d1] Cons.prems(2) obtain m where m:
    "foreach_from f (nd_next n) ?c d1
       = Some (?c\<lparr>c_nodes := m\<rparr>, snd (fold_users f (users_of ?c as) d1))"
    "map (\<lambda>a. nd_user (the (m a))) as = fst (fold_users f (users_of ?c as) d1)"
    "users_at m (Some a) (nd_next n) as" "\<forall>b. b \<notin> set as \<longrightarrow> m b = c_nodes ?c b" by auto
  have e: "users_of ?c as = users_of c as"
    using Cons.prems(2) by (auto simp: user_at_def users_of_def)
  have ma: "m a = Some (n\<lparr>nd_user := u\<rparr>)" using m(4) Cons.prems(2) by simp
  have "foreach_from f p c d = foreach_from f (nd_next n) ?c d1"
    by (subst foreach_from.simps) (simp add: n(1,2) f)
  moreover have "user_at c a = nd_user n" using n(2) by (simp add: user_at_def)
  ultimately show ?case
    using m ma n(3) f unfolding e n(1)
    by (intro exI [of _ m]) (auto split: prod.splits)
qed

lemma find_user_ok:
  "users_at (c_nodes c) prev p as \<Longrightarrow> find_user_from p c a = Some (a \<in> set as)"
proof (induction as arbitrary: prev p)
  case Nil
  then show ?case by (subst find_user_from.simps) simp
next
  case (Cons b as)
  then obtain n where "p = Some b" "c_nodes c b = Some n" "find_user_from (nd_next n) c a = Some (a \<in> set as)"
    by auto
  then show ?case by (subst find_user_from.simps) auto
qed

text \<open>Giving the node \<open>p\<close> a new predecessor, and unlinking a node.\<close>

definition relink ::
  "(nat \<Rightarrow> 'h user_node option) \<Rightarrow> nat option \<Rightarrow> nat option \<Rightarrow> (nat \<Rightarrow> 'h user_node option)" where
  "relink m p q =
     (case p of None \<Rightarrow> m | Some s \<Rightarrow> m(s := map_option (\<lambda>n. n\<lparr>nd_prev := q\<rparr>) (m s)))"

lemma relink_head:
  "users_at m q p ys \<Longrightarrow> distinct ys \<Longrightarrow> users_at (relink m p q') q' p ys"
  by (cases ys) (auto simp: relink_def users_at_upd)

lemma relink_other: "users_at m q p ys \<Longrightarrow> b \<notin> set ys \<Longrightarrow> relink m p q' b = m b"
  by (cases ys) (auto simp: relink_def)

lemma unlink_inner:
  "xs \<noteq> [] \<Longrightarrow> users_at m prev p (xs @ a # ys) \<Longrightarrow> distinct (xs @ a # ys) \<Longrightarrow> m a = Some n \<Longrightarrow>
     \<exists>l nl. nd_prev n = Some l \<and> l \<in> set xs \<and> m l = Some nl
       \<and> users_at (relink (m(l \<mapsto> nl\<lparr>nd_next := nd_next n\<rparr>)) (nd_next n) (Some l)) prev p (xs @ ys)
       \<and> users_at m (Some a) (nd_next n) ys"
proof (induction xs arbitrary: prev p rule: list_nonempty_induct)
  case (single b)
  then obtain nb where nb: "p = Some b" "m b = Some nb" "nd_prev nb = prev" "nd_next nb = Some a"
    "nd_prev n = Some b" "users_at m (Some a) (nd_next n) ys" by auto
  let ?m = "m(b \<mapsto> nb\<lparr>nd_next := nd_next n\<rparr>)"
  have d: "b \<notin> set ys" "distinct ys" using single(2) by auto
  have u: "users_at ?m (Some a) (nd_next n) ys" using nb(6) d by (simp add: users_at_upd)
  have "relink ?m (nd_next n) (Some b) b = Some (nb\<lparr>nd_next := nd_next n\<rparr>)"
    using relink_other [OF u d(1)] by simp
  then have "users_at (relink ?m (nd_next n) (Some b)) prev p ([b] @ ys)"
    using relink_head [OF u d(2), of "Some b"] nb(1,3) by simp
  moreover have "b \<in> set [b]" by simp
  ultimately show ?case using nb(2,5,6) by blast
next
  case (cons b xs)
  then obtain nb where nb: "p = Some b" "m b = Some nb" "nd_prev nb = prev"
    "users_at m (Some b) (nd_next nb) (xs @ a # ys)" by auto
  have "distinct (xs @ a # ys)" using cons(4) by simp
  from cons(2) [OF nb(4) this cons(5)] obtain l nl where l: "nd_prev n = Some l" "l \<in> set xs"
    "m l = Some nl" "users_at m (Some a) (nd_next n) ys"
    "users_at (relink (m(l \<mapsto> nl\<lparr>nd_next := nd_next n\<rparr>)) (nd_next n) (Some l)) (Some b) (nd_next nb) (xs @ ys)"
    by blast
  let ?m = "m(l \<mapsto> nl\<lparr>nd_next := nd_next n\<rparr>)"
  have d: "b \<noteq> l" "b \<notin> set ys" "l \<notin> set ys" using cons(4) l(2) by auto
  have "users_at ?m (Some a) (nd_next n) ys" using l(4) d(3) by (simp add: users_at_upd)
  from relink_other [OF this d(2)] have "relink ?m (nd_next n) (Some l) b = Some nb"
    using d(1) nb(2) by simp
  then have "users_at (relink ?m (nd_next n) (Some l)) prev p ((b # xs) @ ys)" using l(5) nb(1,3) by simp
  moreover have "l \<in> set (b # xs)" using l(2) by simp
  ultimately show ?case using l(1,3,4) by blast
qed

lemma relink_user: "map_option nd_user (relink m p q b) = map_option nd_user (m b)"
  by (auto simp: relink_def option.map_comp comp_def split: option.split)

lemma remove_user_ok:
  assumes "client_users c (xs @ a # ys)"
  shows "\<exists>c'. guac_client_remove_user call client_leave c a = Some c' \<and> client_users c' (xs @ ys)
     \<and> (\<forall>b. b \<noteq> a \<longrightarrow> map_option nd_user (c_nodes c' b) = map_option nd_user (c_nodes c b))"
proof -
  let ?m = "c_nodes c"
  have u: "users_at ?m None (c_users c) (xs @ a # ys)" and d: "distinct (xs @ a # ys)"
    and cn: "c_connected_users c = int (length (xs @ a # ys))"
    and ow: "\<forall>b \<in> set (xs @ a # ys). owner (user_at c b) \<longleftrightarrow> c_owner c = Some b"
      "\<forall>b. c_owner c = Some b \<longrightarrow> b \<in> set (xs @ a # ys)"
    using assms by (simp_all add: client_users_def)
  obtain n where n: "?m a = Some n" using users_at_mapped [OF u, of a] by auto
  have own: "owner (nd_user n) \<longleftrightarrow> c_owner c = Some a" using ow(1) n by (simp add: user_at_def)
  define c1 where "c1 = (case nd_prev n of Some p \<Rightarrow> update_node (\<lambda>m. m\<lparr>nd_next := nd_next n\<rparr>) p c
    | None \<Rightarrow> Some (c\<lparr>c_users := nd_next n\<rparr>))"
  obtain m1 h where 1: "c1 = Some (c\<lparr>c_nodes := m1, c_users := h\<rparr>)"
    "users_at (relink m1 (nd_next n) (nd_prev n)) None h (xs @ ys)"
    "\<forall>b. map_option nd_user (m1 b) = map_option nd_user (?m b)"
    "\<forall>s. nd_next n = Some s \<longrightarrow> m1 s \<noteq> None"
  proof (cases "xs = []")
    case True
    then have y: "users_at ?m (Some a) (nd_next n) ys" "nd_prev n = None" using u n by auto
    have "users_at (relink ?m (nd_next n) (nd_prev n)) None (nd_next n) (xs @ ys)"
      using relink_head [OF y(1), of None] y(2) d True by simp
    moreover have "?m s \<noteq> None" if "nd_next n = Some s" for s using y(1) that by (cases ys) auto
    moreover have "c1 = Some (c\<lparr>c_nodes := ?m, c_users := nd_next n\<rparr>)" by (simp add: c1_def y(2))
    ultimately show ?thesis using that by blast
  next
    case False
    from unlink_inner [OF False u d n] obtain l nl where l: "nd_prev n = Some l" "?m l = Some nl"
      "users_at (relink (?m(l \<mapsto> nl\<lparr>nd_next := nd_next n\<rparr>)) (nd_next n) (Some l)) None (c_users c) (xs @ ys)"
      "users_at ?m (Some a) (nd_next n) ys" by blast
    let ?m1 = "?m(l \<mapsto> nl\<lparr>nd_next := nd_next n\<rparr>)"
    have "?m s \<noteq> None" if "nd_next n = Some s" for s using l(4) that by (cases ys) auto
    then have "\<forall>s. nd_next n = Some s \<longrightarrow> ?m1 s \<noteq> None" by simp
    moreover have "c1 = Some (c\<lparr>c_nodes := ?m1, c_users := c_users c\<rparr>)"
      by (simp add: c1_def l(1,2) update_node_def)
    moreover have "\<forall>b. map_option nd_user (?m1 b) = map_option nd_user (?m b)" using l(2) by simp
    ultimately show ?thesis using l(3) that unfolding l(1) by blast
  qed
  define m2 where "m2 = relink m1 (nd_next n) (nd_prev n)"
  have m2: "\<forall>b. map_option nd_user (m2 b) = map_option nd_user (?m b)"
    using 1(3) by (simp add: m2_def relink_user)
  have 2: "(case nd_next n of
        Some s \<Rightarrow> update_node (\<lambda>m. m\<lparr>nd_prev := nd_prev n\<rparr>) s (c\<lparr>c_nodes := m1, c_users := h\<rparr>)
      | None \<Rightarrow> Some (c\<lparr>c_nodes := m1, c_users := h\<rparr>)) = Some (c\<lparr>c_nodes := m2, c_users := h\<rparr>)"
    using 1(4) by (auto simp: m2_def relink_def update_node_def split: option.split)
  let ?c = "\<lambda>m. c\<lparr>c_nodes := m, c_users := h, c_connected_users := c_connected_users c - 1,
    c_owner := (if owner (nd_user n) then None else c_owner c)\<rparr>"
  obtain n2 where n2: "m2 a = Some n2" "nd_user n2 = nd_user n" using m2 n by (metis map_option_eq_Some)
  obtain m3 where 3: "guac_client_remove_user call client_leave c a = Some (?c m3)"
    "users_at m3 None h (xs @ ys)" "\<forall>b. b \<noteq> a \<longrightarrow> m3 b = m2 b"
  proof (cases "case leave_handler (nd_user n) of Some h \<Rightarrow> Some h | None \<Rightarrow> client_leave")
    case None
    then have "guac_client_remove_user call client_leave c a = Some (?c m2)"
      unfolding guac_client_remove_user_def n option.case c1_def [symmetric] 1(1) 2 by (simp add: Let_def)
    then show ?thesis using that 1(2) m2_def by blast
  next
    case (Some g)
    let ?n = "n2\<lparr>nd_user := call g (nd_user n2)\<rparr>"
    have "guac_client_remove_user call client_leave c a = Some (?c (m2(a \<mapsto> ?n)))"
      unfolding guac_client_remove_user_def n option.case c1_def [symmetric] 1(1) 2 Let_def Some
      by (simp add: update_node_def n2(1))
    moreover have "users_at (m2(a \<mapsto> ?n)) None h (xs @ ys)"
      using 1(2) d unfolding m2_def by (subst users_at_upd) auto
    ultimately show ?thesis using that by simp
  qed
  have us: "user_at (?c m3) b = user_at c b" if "b \<in> set (xs @ ys)" for b
  proof -
    have "b \<noteq> a" using that d by auto
    then have "map_option nd_user (m3 b) = map_option nd_user (?m b)" using 3(3) m2 by simp
    moreover have "?m b \<noteq> None" using users_at_mapped [OF u, of b] that by auto
    ultimately show ?thesis by (auto simp: user_at_def)
  qed
  have "client_users (?c m3) (xs @ ys)"
    unfolding client_users_def
  proof (intro conjI ballI allI impI)
    show "distinct (xs @ ys)" using d by simp
    show "c_connected_users (?c m3) = int (length (xs @ ys))" using cn by simp
    show "owner (user_at (?c m3) b) \<longleftrightarrow> c_owner (?c m3) = Some b" if "b \<in> set (xs @ ys)" for b
      using us [OF that] ow(1) own that d by auto
    show "b \<in> set (xs @ ys)" if "c_owner (?c m3) = Some b" for b
      using ow(2) own that by (auto split: if_splits)
  qed (use 3(2) in simp)
  then show ?thesis using 3 m2 by auto
qed

lemma add_user_ok:
  assumes "client_users c as" and "c_nodes c a = Some n" and "a \<notin> set as"
    and "(case join_handler of Some h \<Rightarrow> h (nd_user n) | None \<Rightarrow> (0, nd_user n)) = (r, u)"
    and "owner u \<longrightarrow> c_owner c = None"
  shows "\<exists>c'. guac_client_add_user join_handler c a = Some (r, c')
     \<and> client_users c' (if r = 0 then a # as else as)
     \<and> user_at c' a = u \<and> (\<forall>b. b \<noteq> a \<longrightarrow> map_option nd_user (c_nodes c' b) = map_option nd_user (c_nodes c b))"
proof -
  have us: "users_at (c_nodes c) None (c_users c) as" and d: "distinct as"
    and cn: "c_connected_users c = int (length as)"
    and ow: "\<forall>b \<in> set as. owner (user_at c b) \<longleftrightarrow> c_owner c = Some b"
      "\<forall>b. c_owner c = Some b \<longrightarrow> b \<in> set as"
    using assms(1) by (simp_all add: client_users_def)
  show ?thesis
  proof (cases "r = 0")
    case False
    let ?c = "c\<lparr>c_nodes := (c_nodes c)(a \<mapsto> n\<lparr>nd_user := u\<rparr>)\<rparr>"
    have "guac_client_add_user join_handler c a = Some (r, ?c)"
      using False by (simp add: guac_client_add_user_def assms(2,4))
    moreover have "user_at ?c b = user_at c b" if "b \<in> set as" for b
      using that assms(3) by (auto simp: user_at_def)
    ultimately show ?thesis using us d cn ow assms(3) False
      by (intro exI [of _ ?c]) (simp add: client_users_def users_at_upd user_at_def)
  next
    case True
    define m where "m = relink ((c_nodes c)(a \<mapsto> n\<lparr>nd_user := u, nd_prev := None, nd_next := c_users c\<rparr>))
      (c_users c) (Some a)"
    let ?c = "c\<lparr>c_nodes := m, c_users := Some a, c_connected_users := c_connected_users c + 1,
      c_owner := (if owner u then Some a else c_owner c)\<rparr>"
    have h: "h \<noteq> a \<and> c_nodes c h \<noteq> None" if "c_users c = Some h" for h
      using us that assms(3) by (cases as) auto
    have u1: "users_at ((c_nodes c)(a \<mapsto> n\<lparr>nd_user := u, nd_prev := None, nd_next := c_users c\<rparr>))
        None (c_users c) as" using us assms(3) by (simp add: users_at_upd)
    have ma: "m a = Some (n\<lparr>nd_user := u, nd_prev := None, nd_next := c_users c\<rparr>)"
      using relink_other [OF u1 assms(3)] by (simp add: m_def)
    have mb: "map_option nd_user (m b) = map_option nd_user (c_nodes c b)" if "b \<noteq> a" for b
      using that by (simp add: m_def relink_user)
    have "guac_client_add_user join_handler c a = Some (r, ?c)"
      using True h by (auto simp: guac_client_add_user_def assms(2,4) update_node_def m_def relink_def
          split: option.split)
    moreover have ub: "user_at ?c b = user_at c b" if "b \<in> set as" for b
    proof -
      have "b \<noteq> a" using that assms(3) by auto
      moreover have "c_nodes c b \<noteq> None" using users_at_mapped [OF us that] .
      ultimately show ?thesis using mb [of b] by (auto simp: user_at_def)
    qed
    moreover have "users_at m None (Some a) (a # as)"
      using ma relink_head [OF u1 d, of "Some a"] by (simp add: m_def)
    moreover have "owner (user_at ?c a) \<longleftrightarrow> c_owner ?c = Some a"
      using ma ow(2) assms(3) by (auto simp: user_at_def)
    ultimately have "client_users ?c (a # as)"
      using d cn ow assms(3,5) by (auto simp: client_users_def)
    moreover have "user_at ?c a = u" using ma by (simp add: user_at_def)
    ultimately show ?thesis using mb True \<open>guac_client_add_user join_handler c a = Some (r, ?c)\<close> by auto
  qed
qed

text \<open>
  The clients a program reaches by adding users that are not in the list (with any outcome of the
  join handler; an owner only when there is none) and removing users that are.
\<close>

inductive client_reach :: "'h guac_client \<Rightarrow> nat list \<Rightarrow> bool" where
  reach_client: "client_reach (guac_client_alloc now streams nodes) []"
| reach_add: "client_reach c as \<Longrightarrow> c_nodes c a = Some n \<Longrightarrow> a \<notin> set as \<Longrightarrow>
     (case join_handler of Some h \<Rightarrow> h (nd_user n) | None \<Rightarrow> (0, nd_user n)) = (r, u) \<Longrightarrow>
     (owner u \<longrightarrow> c_owner c = None) \<Longrightarrow> guac_client_add_user join_handler c a = Some (r, c') \<Longrightarrow>
     client_reach c' (if r = 0 then a # as else as)"
| reach_remove: "client_reach c (xs @ a # ys) \<Longrightarrow>
     guac_client_remove_user call client_leave c a = Some c' \<Longrightarrow> client_reach c' (xs @ ys)"

lemma client_reach_users: "client_reach c as \<Longrightarrow> client_users c as"
proof (induction rule: client_reach.induct)
  case (reach_client now streams nodes)
  then show ?case by (simp add: client_users_def guac_client_alloc_def)
next
  case (reach_add c as a n join_handler r u c')
  then show ?case using add_user_ok [of c as a n join_handler r u] by auto
next
  case (reach_remove c xs a ys call client_leave c')
  then show ?case using remove_user_ok [of c xs a ys call client_leave] by auto
qed

lemma fold_lag:
  "fold_users (\<lambda>_. calculate_lag) us d = (map snd us, fold (\<lambda>u m. max m (processing_lag (snd u))) us d)"
  by (induction us arbitrary: d) (auto simp: calculate_lag_def max_def)

lemma fold_max: "fold (\<lambda>u m. max m (f u)) us (d :: int) = Max (insert d (f ` set us))"
proof (induction us arbitrary: d)
  case (Cons u us)
  have "insert (max d (f u)) (f ` set us) \<noteq> {}" "finite (f ` set us)" by simp_all
  then show ?case using Cons.IH [of "max d (f u)"]
    by (cases us) (simp_all add: Max_insert max.assoc)
qed simp

text \<open>A walk whose callback changes each user on its own.\<close>

lemma fold_users_each:
  "\<forall>a \<in> set as. f a (user_at c a) d = (g a, d) \<Longrightarrow> fold_users f (users_of c as) d = (map g as, d)"
  by (induction as) simp_all

lemma foreach_each:
  assumes "client_reach c as" and "\<forall>a \<in> set as. f a (user_at c a) d = (g a, d)"
  obtains c' where "guac_client_foreach_user c f d = Some (c', d)" "\<forall>a \<in> set as. user_at c' a = g a"
    "c' = c\<lparr>c_nodes := c_nodes c'\<rparr>"
proof -
  have "users_at (c_nodes c) None (c_users c) as" "distinct as"
    using client_reach_users [OF assms(1)] by (simp_all add: client_users_def)
  from foreach_from_ok [OF this, of f d] obtain m where
    m: "guac_client_foreach_user c f d = Some (c\<lparr>c_nodes := m\<rparr>, d)" "map (\<lambda>a. nd_user (the (m a))) as = map g as"
    using fold_users_each [where f = f and c = c and d = d and g = g and as = as] assms(2) by (auto simp: guac_client_foreach_user_def)
  have "\<forall>a \<in> set as. user_at (c\<lparr>c_nodes := m\<rparr>) a = g a" using m(2) by (simp add: user_at_def)
  then show ?thesis using m(1) that [of "c\<lparr>c_nodes := m\<rparr>"] by simp
qed

text \<open>
  C10. The doubly linked list of users implements a sequence: in every reachable client it holds
  exactly the users that joined successfully and did not leave, the newest first;
  \<open>connected_users\<close> is their number and \<open>__owner\<close> the one that is the owner; a walk applies the
  callback to each once, in that order; \<open>guac_client_for_user\<close> finds a user exactly when it is in the
  list.
\<close>

theorem client_list_refines:
  assumes "client_reach c as"
  shows "distinct as \<and> c_connected_users c = int (length as)
     \<and> (\<forall>a. c_owner c = Some a \<longleftrightarrow> a \<in> set as \<and> owner (user_at c a))
     \<and> guac_client_for_user c a callback = callback (if a \<in> set as then Some a else None) c
     \<and> map_option snd (guac_client_foreach_user c f d) = Some (snd (fold_users f (users_of c as) d))"
proof -
  have u: "client_users c as" by (rule client_reach_users [OF assms])
  then have l: "users_at (c_nodes c) None (c_users c) as" "distinct as" by (simp_all add: client_users_def)
  from foreach_from_ok [OF l, of f d] have
    "map_option snd (guac_client_foreach_user c f d) = Some (snd (fold_users f (users_of c as) d))"
    by (auto simp: guac_client_foreach_user_def)
  then show ?thesis using u find_user_ok [OF l(1), of a]
    by (auto simp: client_users_def guac_client_for_user_def)
qed

text \<open>
  The processing lag of a client is the largest lag of its users, or zero.
\<close>

theorem client_lag_is_max:
  assumes "client_reach c as"
  shows "guac_client_get_processing_lag c
     = Some (Max (insert 0 ((\<lambda>a. processing_lag (user_at c a)) ` set as)))"
proof -
  have "users_at (c_nodes c) None (c_users c) as" "distinct as"
    using client_reach_users [OF assms] by (simp_all add: client_users_def)
  from foreach_from_ok [OF this, of "\<lambda>_. calculate_lag" 0] show ?thesis
    by (auto simp: guac_client_get_processing_lag_def guac_client_foreach_user_def fold_lag fold_max
        image_image users_of_def)
qed

text \<open>
  Freeing a client ends: the loop removes every user, whatever the leave handlers do to the
  users, and leaves the empty list.
\<close>

theorem client_free_removes_all:
  assumes "client_reach c as"
  shows "\<exists>c'. remove_all call client_leave c = Some c' \<and> c_users c' = None \<and> c_connected_users c' = 0
     \<and> c_owner c' = None"
proof -
  have "client_users c as" by (rule client_reach_users [OF assms])
  then show ?thesis
  proof (induction as arbitrary: c)
    case Nil
    then have "c_users c = None" "c_connected_users c = 0" "c_owner c = None"
      by (auto simp: client_users_def)
    then show ?case by (subst remove_all.simps) simp
  next
    case (Cons a as)
    from remove_user_ok [of c "[]" a as call client_leave] Cons.prems obtain c1 where
      "guac_client_remove_user call client_leave c a = Some c1" "client_users c1 as" by auto
    moreover have "c_users c = Some a" using Cons.prems by (auto simp: client_users_def)
    ultimately show ?case using Cons.IH by (subst remove_all.simps) simp
  qed
qed

text \<open>A client with two users, for the examples: the one at address 1 joined last and is the owner.\<close>

definition two_nodes :: "nat \<Rightarrow> unit user_node option" where
  "two_nodes = [0 \<mapsto> \<lparr>nd_user = fresh_user\<lparr>processing_lag := 7\<rparr>, nd_prev = None, nd_next = None\<rparr>,
                1 \<mapsto> \<lparr>nd_user = fresh_user\<lparr>owner := True\<rparr>, nd_prev = None, nd_next = None\<rparr>]"

lemma two_users:
  "\<exists>c. client_reach (c :: unit guac_client) [1, 0] \<and> processing_lag (user_at c 0) = 7 \<and> processing_lag (user_at c 1) = 0
     \<and> owner (user_at c 1) \<and> user_at c 0 = fresh_user\<lparr>processing_lag := 7\<rparr> \<and> user_at c 1 = fresh_user\<lparr>owner := True\<rparr>"
proof -
  let ?c0 = "guac_client_alloc 0 [] two_nodes"
  have r0: "client_reach ?c0 []" by (rule reach_client)
  have n0: "c_nodes ?c0 0 = Some \<lparr>nd_user = fresh_user\<lparr>processing_lag := 7\<rparr>, nd_prev = None, nd_next = None\<rparr>"
    "c_nodes ?c0 1 = Some \<lparr>nd_user = fresh_user\<lparr>owner := True\<rparr>, nd_prev = None, nd_next = None\<rparr>"
    by (simp_all add: guac_client_alloc_def two_nodes_def)
  have f: "owner (fresh_user :: unit guac_user) = False" "processing_lag (fresh_user :: unit guac_user) = 0"
    by (simp_all add: fresh_user_def guac_user_alloc_def)
  from add_user_ok [OF client_reach_users [OF r0] n0(1), of None 0 "fresh_user\<lparr>processing_lag := 7\<rparr>"] f
  obtain c1 where c1: "guac_client_add_user None ?c0 0 = Some (0, c1)" "client_users c1 [0]"
    "user_at c1 0 = fresh_user\<lparr>processing_lag := 7\<rparr>"
    "map_option nd_user (c_nodes c1 1) = map_option nd_user (c_nodes ?c0 1)" by auto
  have "client_reach c1 (if 0 = (0 :: int) then [0] else [])"
    by (rule reach_add [OF r0 n0(1), where join_handler = None and u = "fresh_user\<lparr>processing_lag := 7\<rparr>"])
      (use c1(1) f in simp_all)
  then have r1: "client_reach c1 [0]" by simp
  obtain n1 where n1: "c_nodes c1 1 = Some n1" "nd_user n1 = fresh_user\<lparr>owner := True\<rparr>"
    using c1(4) n0(2) by auto
  have o1: "c_owner c1 = None"
    using c1(2,3) f by (auto simp: client_users_def) (metis option.exhaust)
  from add_user_ok [OF c1(2) n1(1), of None 0 "fresh_user\<lparr>owner := True\<rparr>"] n1(2) o1
  obtain c2 where c2: "guac_client_add_user None c1 1 = Some (0, c2)"
    "user_at c2 1 = fresh_user\<lparr>owner := True\<rparr>"
    "\<forall>b. b \<noteq> 1 \<longrightarrow> map_option nd_user (c_nodes c2 b) = map_option nd_user (c_nodes c1 b)" by auto
  have "client_reach c2 (if 0 = (0 :: int) then [1, 0] else [0])"
    by (rule reach_add [OF r1 n1(1), where join_handler = None and u = "fresh_user\<lparr>owner := True\<rparr>"])
      (use c2(1) n1(2) o1 in simp_all)
  then have "client_reach c2 [1, 0]" by simp
  moreover have "user_at c2 0 = fresh_user\<lparr>processing_lag := 7\<rparr>"
  proof -
    have "c_nodes c1 0 \<noteq> None" using c1(2) by (auto simp: client_users_def)
    moreover have "map_option nd_user (c_nodes c2 0) = map_option nd_user (c_nodes c1 0)" using c2(3) by simp
    ultimately show ?thesis using c1(3) by (auto simp: user_at_def)
  qed
  ultimately show ?thesis using c2(2) f by (intro exI [of _ c2]) simp
qed

theorem client_list_refines_witness:
  "\<exists>c. client_reach (c :: unit guac_client) [1, 0] \<and> c_connected_users c = 2 \<and> c_owner c = Some 1
     \<and> map_option snd (guac_client_foreach_user c (\<lambda>_ u n. (u, Suc n)) 0) = Some 2"
proof -
  obtain c :: "unit guac_client" where c: "client_reach c [1, 0]" "owner (user_at c 1)"
    using two_users by blast
  from client_list_refines [OF c(1), of 0 "\<lambda>_ _. Some ()" "\<lambda>_ u n. (u, Suc n)" 0] c show ?thesis
    by (intro exI [of _ c]) (simp add: numeral_2_eq_2)
qed

theorem client_lag_is_max_witness:
  "\<exists>c. client_reach (c :: unit guac_client) [1, 0] \<and> guac_client_get_processing_lag c = Some 7"
proof -
  obtain c :: "unit guac_client" where c: "client_reach c [1, 0]" "processing_lag (user_at c 0) = 7"
    "processing_lag (user_at c 1) = 0" using two_users by blast
  from client_lag_is_max [OF c(1)] c show ?thesis by (intro exI [of _ c]) simp
qed

theorem client_free_removes_all_witness:
  "\<exists>c c'. client_reach (c :: unit guac_client) [1, 0] \<and> remove_all (\<lambda>_ u. u) None c = Some c'
     \<and> c_connected_users c' = 0"
proof -
  obtain c :: "unit guac_client" where c: "client_reach c [1, 0]" using two_users by blast
  from client_free_removes_all [OF c, of "\<lambda>_ u. u" None] c show ?thesis by blast
qed

section \<open>Streams, buffers and layers\<close>

interpretation ct: slot_table guac_pool_next_int guac_pool_free_int bounded_live p_active p_next_value
  "\<lambda>i. i * 2 + 1" 64
  by unfold_locales auto

definition client_indices :: "'h guac_client \<Rightarrow> int list" where
  "client_indices c = map st_index (c_output_streams c)"

text \<open>
  The clients reached by taking and giving back streams and buffers; \<open>B\<close> is the set of indices of
  the buffers held.
\<close>

inductive resource_reach :: "'h guac_client \<Rightarrow> int set \<Rightarrow> bool" where
  reach_resource: "length streams = 64 \<Longrightarrow> resource_reach (guac_client_alloc now streams nodes) {}"
| reach_stream: "resource_reach c B \<Longrightarrow> guac_client_alloc_stream c = Some (r, c') \<Longrightarrow> resource_reach c' B"
| reach_end_stream: "resource_reach c B \<Longrightarrow> k < 64 \<Longrightarrow> client_indices c ! k \<noteq> -1 \<Longrightarrow>
     guac_client_free_stream c k = Some c' \<Longrightarrow> resource_reach c' B"
| reach_buffer: "resource_reach c B \<Longrightarrow> guac_client_alloc_buffer c = Some (i, c') \<Longrightarrow>
     resource_reach c' (insert i B)"
| reach_end_buffer: "resource_reach c B \<Longrightarrow> i \<in> B \<Longrightarrow> guac_client_free_buffer c i = Some c' \<Longrightarrow>
     resource_reach c' (B - {i})"

definition resources_ok :: "'h guac_client \<Rightarrow> int set \<Rightarrow> bool" where
  "resources_ok c B \<longleftrightarrow> ct.table (c_stream_pool c) (client_indices c)
     \<and> pool_live (c_buffer_pool c) ((\<lambda>i. - i - 1) ` B)"

lemma client_stream_full:
  assumes "resources_ok c B" and "\<forall>i < 64. client_indices c ! i \<noteq> -1"
  shows "guac_client_alloc_stream c = Some (None, c)"
  using ct.table_full(1) [of "c_stream_pool c" "client_indices c"] assms
  by (simp add: guac_client_alloc_stream_def client_constants resources_ok_def)

lemma client_stream_ok:
  assumes "resources_ok c B" and "\<not> (\<forall>i < 64. client_indices c ! i \<noteq> -1)"
  obtains k c' where "guac_client_alloc_stream c = Some (Some k, c')" "k < 64" "client_indices c ! k = -1"
    "client_indices c' = (client_indices c)[k := int k * 2 + 1]" "resources_ok c' B"
proof -
  have t: "ct.table (c_stream_pool c) (client_indices c)" using assms(1) by (simp add: resources_ok_def)
  then have l: "length (c_output_streams c) = 64" by (simp add: table_ok_def client_indices_def)
  have n: "p_active (c_stream_pool c) \<noteq> int 64" using ct.table_full(1) [OF t] assms(2) by simp
  from ct.table_alloc [OF t n] obtain k p' where k:
    "guac_pool_next_int (c_stream_pool c) = Some (int k, p')" "k < 64" "client_indices c ! k = -1"
    "ct.table p' ((client_indices c)[k := int k * 2 + 1])" .
  define c' where "c' = c\<lparr>c_stream_pool := p', c_output_streams := (c_output_streams c)[k :=
    \<lparr>st_index = int k * 2 + 1, st_data = None, st_ack_handler = None, st_blob_handler = None,
     st_end_handler = None\<rparr>]\<rparr>"
  have a: "guac_client_alloc_stream c = Some (Some k, c')"
    using n k(1,2) l by (simp add: guac_client_alloc_stream_def client_constants c'_def)
  have o: "client_indices c' = (client_indices c)[k := int k * 2 + 1]"
    by (simp add: client_indices_def c'_def map_update)
  have "resources_ok c' B" using assms(1) k(4) o by (simp add: resources_ok_def c'_def)
  with that a o k show ?thesis by simp
qed

lemma client_end_stream_ok:
  assumes "resources_ok c B" and "k < 64" and "client_indices c ! k \<noteq> -1"
  shows "\<exists>c'. guac_client_free_stream c k = Some c' \<and> resources_ok c' B
     \<and> client_indices c' = (client_indices c)[k := -1]"
proof -
  have t: "ct.table (c_stream_pool c) (client_indices c)" using assms(1) by (simp add: resources_ok_def)
  then have l: "length (c_output_streams c) = 64" by (simp add: table_ok_def client_indices_def)
  have x: "st_index (c_output_streams c ! k) = int k * 2 + 1"
    using ct.table_index [OF t assms(2,3)] l assms(2) by (simp add: client_indices_def)
  from ct.table_free [OF t assms(2,3)] obtain p' where p':
    "guac_pool_free_int (c_stream_pool c) (int k) = Some p'" "ct.table p' ((client_indices c)[k := -1])" .
  define c' where "c' = c\<lparr>c_stream_pool := p', c_output_streams :=
    (c_output_streams c)[k := (c_output_streams c ! k)\<lparr>st_index := -1\<rparr>]\<rparr>"
  have "guac_client_free_stream c k = Some c'"
    using p'(1) x assms(2) l even_half [of k] by (simp add: guac_client_free_stream_def client_constants c'_def)
  moreover have o: "client_indices c' = (client_indices c)[k := -1]"
    by (simp add: client_indices_def c'_def map_update)
  moreover have "resources_ok c' B" using assms(1) p'(2) o by (simp add: resources_ok_def c'_def)
  ultimately show ?thesis by blast
qed

lemma buffer_ok:
  assumes "resources_ok c B"
  shows "\<exists>i c'. guac_client_alloc_buffer c = Some (i, c') \<and> i < 0 \<and> i \<notin> B \<and> resources_ok c' (insert i B)"
proof -
  have live: "pool_live (c_buffer_pool c) ((\<lambda>i. - i - 1) ` B)" using assms by (simp add: resources_ok_def)
  obtain v p' where v: "guac_pool_next_int (c_buffer_pool c) = Some (v, p')"
    using gp.next_returns live by blast
  from gp.next_live [OF live v] have n: "0 \<le> v" "v \<notin> (\<lambda>i. - i - 1) ` B"
    "pool_live p' (insert v ((\<lambda>i. - i - 1) ` B))" by auto
  let ?c = "c\<lparr>c_buffer_pool := p'\<rparr>"
  have "guac_client_alloc_buffer c = Some (- v - 1, ?c)" by (simp add: guac_client_alloc_buffer_def v)
  moreover have "- v - 1 \<notin> B"
  proof
    assume "- v - 1 \<in> B"
    then have "- (- v - 1) - 1 \<in> (\<lambda>i. - i - 1) ` B" by (rule imageI)
    then show False using n(2) by simp
  qed
  moreover have "resources_ok ?c (insert (- v - 1) B)"
    using assms n(3) by (simp add: resources_ok_def client_indices_def)
  ultimately show ?thesis using n(1) by fastforce
qed

lemma end_buffer_ok:
  assumes "resources_ok c B" and "i \<in> B"
  shows "\<exists>c'. guac_client_free_buffer c i = Some c' \<and> resources_ok c' (B - {i})"
proof -
  have live: "pool_live (c_buffer_pool c) ((\<lambda>i. - i - 1) ` B)" using assms by (simp add: resources_ok_def)
  have "- i - 1 \<in> (\<lambda>i. - i - 1) ` B" using assms(2) by (rule imageI)
  from gp.free_live [OF live this] obtain p' where
    "guac_pool_free_int (c_buffer_pool c) (- i - 1) = Some p'"
    "pool_live p' ((\<lambda>i. - i - 1) ` B - {- i - 1})" by blast
  moreover have "(\<lambda>i :: int. - i - 1) ` B - {- i - 1} = (\<lambda>i. - i - 1) ` (B - {i})" by auto
  ultimately show ?thesis using assms(1)
    by (simp add: guac_client_free_buffer_def resources_ok_def client_indices_def)
qed

lemma resource_reach_ok: "resource_reach c B \<Longrightarrow> resources_ok c B"
proof (induction rule: resource_reach.induct)
  case (reach_resource streams now nodes)
  have m: "map (st_index \<circ> (\<lambda>s. s\<lparr>st_index := -1\<rparr>)) streams = replicate 64 (-1)"
    using reach_resource by (simp add: list_eq_iff_nth_eq)
  have "p_next_value (guac_pool_alloc 0) \<le> int 64" by (simp add: guac_pool_alloc_def)
  then show ?case using ct.table_fresh [OF bounded_live_alloc] m pool_live_alloc
    by (simp add: resources_ok_def client_indices_def guac_client_alloc_def client_constants)
next
  case (reach_stream c B r c')
  then show ?case
    using client_stream_full [of c B] client_stream_ok [of c B] by (metis option.inject prod.inject)
next
  case (reach_end_stream c B k c')
  then show ?case using client_end_stream_ok [of c B k] by auto
next
  case (reach_buffer c B i c')
  then show ?case using buffer_ok [of c B] by auto
next
  case (reach_end_buffer c B i c')
  then show ?case using end_buffer_ok [of c B i] by auto
qed

text \<open>
  C11. In every reachable client an open output stream has an odd index below 128, so never that
  of a stream of a user, \<open>guac_client_alloc_stream\<close> gives the null pointer exactly when all 64 are
  open, and otherwise opens a closed one; a new buffer has a negative index that no buffer held
  has.
\<close>

theorem client_resources_distinct:
  assumes "resource_reach c B"
  shows "(\<forall>k < 64. client_indices c ! k = -1 \<or> client_indices c ! k = 2 * int k + 1)
     \<and> (\<exists>r c'. guac_client_alloc_stream c = Some (r, c')
          \<and> (r = None \<longleftrightarrow> (\<forall>i < 64. client_indices c ! i \<noteq> -1))
          \<and> (\<forall>k. r = Some k \<longrightarrow> k < 64 \<and> client_indices c ! k = -1
               \<and> client_indices c' = (client_indices c)[k := 2 * int k + 1]))
     \<and> (\<exists>i c'. guac_client_alloc_buffer c = Some (i, c') \<and> i < 0 \<and> i \<notin> B)"
proof -
  note ok = resource_reach_ok [OF assms]
  have t: "ct.table (c_stream_pool c) (client_indices c)" using ok by (simp add: resources_ok_def)
  have "\<forall>k < 64. client_indices c ! k = -1 \<or> client_indices c ! k = 2 * int k + 1"
    using ct.table_index [OF t] by (metis mult.commute)
  moreover have "\<exists>r c'. guac_client_alloc_stream c = Some (r, c')
          \<and> (r = None \<longleftrightarrow> (\<forall>i < 64. client_indices c ! i \<noteq> -1))
          \<and> (\<forall>k. r = Some k \<longrightarrow> k < 64 \<and> client_indices c ! k = -1
               \<and> client_indices c' = (client_indices c)[k := 2 * int k + 1])"
  proof (cases "\<forall>i < 64. client_indices c ! i \<noteq> -1")
    case True
    then show ?thesis using client_stream_full [OF ok] by simp
  next
    case False
    from client_stream_ok [OF ok False] obtain k c' where "guac_client_alloc_stream c = Some (Some k, c')"
      "k < 64" "client_indices c ! k = -1" "client_indices c' = (client_indices c)[k := int k * 2 + 1]" .
    then show ?thesis using False by (intro exI [of _ "Some k"] exI [of _ c']) (auto simp: mult.commute)
  qed
  moreover have "\<exists>i c'. guac_client_alloc_buffer c = Some (i, c') \<and> i < 0 \<and> i \<notin> B"
    using buffer_ok [OF ok] by blast
  ultimately show ?thesis by blast
qed

text \<open>Allocating \<open>n\<close> layers.\<close>

fun alloc_layers :: "nat \<Rightarrow> 'h guac_client \<Rightarrow> (int list \<times> 'h guac_client) option" where
  "alloc_layers 0 c = Some ([], c)"
| "alloc_layers (Suc n) c =
     (case guac_client_alloc_layer c of None \<Rightarrow> None
      | Some (i, c) \<Rightarrow> map_option (apfst (Cons i)) (alloc_layers n c))"

lemma alloc_layers_ok:
  assumes "pool_queue (c_layer_pool c) []"
  shows "\<exists>c'. alloc_layers n c = Some (map (\<lambda>i. p_next_value (c_layer_pool c) + int i + 1) [0..<n], c')
     \<and> pool_queue (c_layer_pool c') [] \<and> p_next_value (c_layer_pool c') = p_next_value (c_layer_pool c) + int n
     \<and> p_min_size (c_layer_pool c') = p_min_size (c_layer_pool c)"
  using assms
proof (induction n arbitrary: c)
  case (Suc n)
  from next_int_mint [OF Suc.prems] obtain p' where p':
    "guac_pool_next_int (c_layer_pool c) = Some (p_next_value (c_layer_pool c), p')" "pool_queue p' []"
    "p_next_value p' = p_next_value (c_layer_pool c) + 1" "p_min_size p' = p_min_size (c_layer_pool c)" by auto
  let ?c = "c\<lparr>c_layer_pool := p'\<rparr>"
  have "pool_queue (c_layer_pool ?c) []" using p'(2) by simp
  from Suc.IH [OF this] p' obtain c' where
    "alloc_layers n ?c = Some (map (\<lambda>i. p_next_value (c_layer_pool c) + 1 + int i + 1) [0..<n], c')"
    "pool_queue (c_layer_pool c') []"
    "p_next_value (c_layer_pool c') = p_next_value (c_layer_pool c) + 1 + int n"
    "p_min_size (c_layer_pool c') = p_min_size (c_layer_pool c)" by auto
  moreover have "[0..<Suc n] = 0 # map Suc [0..<n]" by (simp add: upt_conv_Cons map_Suc_upt)
  ultimately show ?case
    by (auto simp: guac_client_alloc_layer_def p'(1) comp_def simp del: upt_Suc)
qed simp

text \<open>
  C12. \<open>guac_client_free_layer\<close> gives back the index of the layer instead of the integer it came from.
  Once 1024 layers have been allocated (the initial size of the pool), freeing layer 1 makes the
  next allocation return index 2, which is the index of a layer in use.
\<close>

theorem freed_layer_reissues_live_index:
  assumes "1024 \<le> n"
  shows "\<exists>c c' c''. alloc_layers n (guac_client_alloc now streams nodes) = Some (map (\<lambda>i. int i + 1) [0..<n], c)
     \<and> guac_client_free_layer c 1 = Some c' \<and> guac_client_alloc_layer c' = Some (2, c'')
     \<and> 2 \<in> set (map (\<lambda>i. int i + 1) [0..<n])"
proof -
  let ?c = "guac_client_alloc now streams nodes"
  have q: "pool_queue (c_layer_pool ?c) []" "p_next_value (c_layer_pool ?c) = 0"
    "p_min_size (c_layer_pool ?c) = 1024"
    using pool_queue_alloc by (simp_all add: guac_client_alloc_def client_constants)
      (simp_all add: guac_pool_alloc_def)
  from alloc_layers_ok [OF q(1), of n] q(2,3) obtain c where c:
    "alloc_layers n ?c = Some (map (\<lambda>i. int i + 1) [0..<n], c)" "pool_queue (c_layer_pool c) []"
    "p_next_value (c_layer_pool c) = int n" "p_min_size (c_layer_pool c) = 1024" by auto
  from free_int_queue [OF c(2), of 1] obtain p' where p':
    "guac_pool_free_int (c_layer_pool c) 1 = Some p'" "pool_queue p' [1]"
    "p_next_value p' = p_next_value (c_layer_pool c)" "p_min_size p' = p_min_size (c_layer_pool c)" by auto
  have "\<not> p_next_value p' < p_min_size p'" using p'(3,4) c(3,4) assms by simp
  from next_int_recycle [OF p'(2) this] obtain p'' where "guac_pool_next_int p' = Some (1, p'')" by auto
  then have "guac_client_free_layer c 1 = Some (c\<lparr>c_layer_pool := p'\<rparr>)"
    "guac_client_alloc_layer (c\<lparr>c_layer_pool := p'\<rparr>) = Some (2, c\<lparr>c_layer_pool := p''\<rparr>)"
    by (simp_all add: guac_client_free_layer_def guac_client_alloc_layer_def p'(1))
  moreover have "2 \<in> set (map (\<lambda>i. int i + 1) [0..<n])" using assms by (auto simp: image_iff intro!: bexI [of _ 1])
  ultimately show ?thesis using c(1) by blast
qed

theorem freed_layer_reissues_live_index_witness:
  "\<exists>c c' c''. alloc_layers 1024 (guac_client_alloc 0 [] two_nodes) = Some (map (\<lambda>i. int i + 1) [0..<1024], c)
     \<and> guac_client_free_layer c 1 = Some c' \<and> guac_client_alloc_layer c' = Some (2, c'')"
  using freed_layer_reissues_live_index [of 1024 0 "[]" two_nodes] by blast

theorem client_resources_distinct_witness:
  "\<exists>i c'. guac_client_alloc_buffer (guac_client_alloc 0 (replicate 64 \<lparr>st_index = 7, st_data = None,
       st_ack_handler = None, st_blob_handler = None, st_end_handler = None\<rparr>) two_nodes) = Some (i, c') \<and> i < 0"
proof -
  have "resource_reach (guac_client_alloc 0 (replicate 64 \<lparr>st_index = 7, st_data = None,
       st_ack_handler = None, st_blob_handler = None, st_end_handler = None\<rparr>) two_nodes) {}"
    by (rule reach_resource) simp
  from client_resources_distinct [OF this] show ?thesis by blast
qed

end
