(* ===== verification/Clipboard.thy ===== *)
theory Clipboard
  imports User
begin

text \<open>
  \<open>common/src/clipboard.c\<close>: the clipboard buffer and its transmission to a user. The arrays have
  their C length; a string is read up to its terminator, and reading on past the end of its array
  is \<open>None\<close>.
\<close>

section \<open>The clipboard\<close>

definition GUAC_COMMON_CLIPBOARD_BLOCK_SIZE :: nat where
  "GUAC_COMMON_CLIPBOARD_BLOCK_SIZE = 4096"

record guac_common_clipboard =
  cb_mimetype :: "char list"
  cb_buffer :: "char list"
  cb_length :: nat
  cb_available :: nat

text \<open>\<open>malloc\<close> leaves \<open>junk\<close> in the mimetype and \<open>buf\<close> in the buffer.\<close>

definition guac_common_clipboard_alloc :: "char list \<Rightarrow> char list \<Rightarrow> guac_common_clipboard" where
  "guac_common_clipboard_alloc junk buf =
     \<lparr>cb_mimetype = junk[0 := NUL], cb_buffer = buf, cb_length = 0, cb_available = length buf\<rparr>"

definition guac_common_clipboard_reset ::
  "guac_common_clipboard \<Rightarrow> char list \<Rightarrow> guac_common_clipboard" where
  "guac_common_clipboard_reset clip mimetype =
     clip\<lparr>cb_length := 0, cb_mimetype := strncpy (cb_mimetype clip) mimetype 255\<rparr>"

definition guac_common_clipboard_append ::
  "guac_common_clipboard \<Rightarrow> char list \<Rightarrow> guac_common_clipboard" where
  "guac_common_clipboard_append clip data =
     (let remaining = cb_available clip - cb_length clip;
          len = (if remaining < length data then remaining else length data) in
      clip\<lparr>cb_buffer := take (cb_length clip) (cb_buffer clip) @ take len data
              @ drop (cb_length clip + len) (cb_buffer clip),
           cb_length := cb_length clip + len\<rparr>)"

section \<open>Sending it\<close>

function clipboard_blocks :: "char list \<Rightarrow> char list list" where
  "clipboard_blocks current =
     (if current = [] then []
      else take GUAC_COMMON_CLIPBOARD_BLOCK_SIZE current
             # clipboard_blocks (drop GUAC_COMMON_CLIPBOARD_BLOCK_SIZE current))"
  by auto
termination
  by (relation "measure length") (auto simp: GUAC_COMMON_CLIPBOARD_BLOCK_SIZE_def)

declare clipboard_blocks.simps [simp del]

definition send_user_clipboard ::
  "guac_common_clipboard \<Rightarrow> 'h guac_user \<Rightarrow> 'h guac_user option" where
  "send_user_clipboard clip u =
     (case guac_user_alloc_stream u of None \<Rightarrow> None
      | Some (None, _) \<Rightarrow> None
      | Some (Some k, u) \<Rightarrow>
          if NUL \<notin> set (cb_mimetype clip) then None
          else
            let index = st_index (u_output_streams u ! k);
                u = send_to_user u (Stream_Message (Send_clipboard index (c_string (cb_mimetype clip))));
                u = u\<lparr>u_sent := u_sent u @ map (\<lambda>b. Stream_Message (Send_blob index (map byte_of b)))
                        (clipboard_blocks (take (cb_length clip) (cb_buffer clip)))\<rparr>;
                u = send_to_user u (Stream_Message (Send_end index)) in
            guac_user_free_stream u k)"

section \<open>Properties\<close>

lemma clipboard_blocks_ok:
  "concat (clipboard_blocks t) = t"
  "b \<in> set (clipboard_blocks t) \<Longrightarrow> b \<noteq> [] \<and> length b \<le> 4096"
proof -
  have "concat (clipboard_blocks t) = t
      \<and> (\<forall>b \<in> set (clipboard_blocks t). b \<noteq> [] \<and> length b \<le> 4096)"
  proof (induction t rule: clipboard_blocks.induct)
    case (1 t)
    show ?case
    proof (cases "t = []")
      case False
      from 1 [OF this] False show ?thesis
        by (subst (1 2) clipboard_blocks.simps) (simp add: GUAC_COMMON_CLIPBOARD_BLOCK_SIZE_def)
    qed (simp add: clipboard_blocks.simps)
  qed
  then show "concat (clipboard_blocks t) = t" "b \<in> set (clipboard_blocks t) \<Longrightarrow> b \<noteq> [] \<and> length b \<le> 4096"
    by blast+
qed

definition clipboard_ok :: "guac_common_clipboard \<Rightarrow> bool" where
  "clipboard_ok clip \<longleftrightarrow> length (cb_buffer clip) = cb_available clip
     \<and> cb_length clip \<le> cb_available clip \<and> length (cb_mimetype clip) = 256"

lemma clipboard_append_ok:
  assumes "clipboard_ok clip"
  shows "clipboard_ok (guac_common_clipboard_append clip data)"
    "cb_available (guac_common_clipboard_append clip data) = cb_available clip"
    "cb_mimetype (guac_common_clipboard_append clip data) = cb_mimetype clip"
    "take (cb_length (guac_common_clipboard_append clip data)) (cb_buffer (guac_common_clipboard_append clip data))
       = take (cb_available clip) (take (cb_length clip) (cb_buffer clip) @ data)"
  using assms by (auto simp: guac_common_clipboard_append_def clipboard_ok_def Let_def min_def)

lemma clipboard_appends_ok:
  "clipboard_ok clip \<Longrightarrow>
     clipboard_ok (fold (\<lambda>d c. guac_common_clipboard_append c d) ds clip)
     \<and> cb_mimetype (fold (\<lambda>d c. guac_common_clipboard_append c d) ds clip) = cb_mimetype clip
     \<and> (let c' = fold (\<lambda>d c. guac_common_clipboard_append c d) ds clip in
        take (cb_length c') (cb_buffer c')
          = take (cb_available clip) (take (cb_length clip) (cb_buffer clip) @ concat ds))"
proof (induction ds arbitrary: clip)
  case Nil
  then show ?case by (simp add: clipboard_ok_def)
next
  case (Cons d ds)
  note a = clipboard_append_ok [OF Cons.prems, of d]
  let ?c = "guac_common_clipboard_append clip d"
  have t: "take n (take n xs @ ys) = take n (xs @ ys)" for n and xs ys :: "char list"
    by (cases "length xs \<le> n") simp_all
  have "take (cb_available ?c) (take (cb_length ?c) (cb_buffer ?c) @ concat ds)
      = take (cb_available clip) ((take (cb_length clip) (cb_buffer clip) @ d) @ concat ds)"
    unfolding a(2,4) by (rule t)
  with Cons.IH [OF a(1)] a(3) show ?case by (simp add: Let_def)
qed

text \<open>What a user gets: one stream with the mimetype and the text, cut in blobs, which is closed again.\<close>

definition got_clipboard :: "char list \<Rightarrow> char list \<Rightarrow> 'h guac_user \<Rightarrow> 'h guac_user \<Rightarrow> bool" where
  "got_clipboard mimetype text u u' \<longleftrightarrow> (\<exists>k bs. u_sent u' = u_sent u @ [Stream_Message (Send_clipboard (2 * int k) mimetype)]
       @ map (\<lambda>b. Stream_Message (Send_blob (2 * int k) (map byte_of b))) bs @ [Stream_Message (Send_end (2 * int k))]
     \<and> concat bs = text \<and> list_all (\<lambda>b. b \<noteq> [] \<and> length b \<le> 4096) bs \<and> output_indices u' = output_indices u)"

lemma send_user_clipboard_ok:
  assumes "user_ok u" and "\<not> (\<forall>i < 64. output_indices u ! i \<noteq> -1)"
    and "cb_mimetype clip = mimetype @ NUL # rest" and "NUL \<notin> set mimetype"
  shows "\<exists>u'. send_user_clipboard clip u = Some u' \<and> got_clipboard mimetype (take (cb_length clip) (cb_buffer clip)) u u'"
proof -
  note ok = assms(1)
  from alloc_stream_ok [OF ok assms(2)] obtain k u1 where k: "guac_user_alloc_stream u = Some (Some k, u1)"
    "k < 64" "output_indices u ! k = -1" "output_indices u1 = (output_indices u)[k := int k * 2]" "user_ok u1"
    "u_sent u1 = u_sent u" "st_index (u_output_streams u1 ! k) = int k * 2"
    by (metis guac_stream.select_convs(1))
  let ?bs = "clipboard_blocks (take (cb_length clip) (cb_buffer clip))"
  let ?sent = "[Stream_Message (Send_clipboard (int k * 2) mimetype)]
         @ map (\<lambda>b. Stream_Message (Send_blob (int k * 2) (map byte_of b))) ?bs
         @ [Stream_Message (Send_end (int k * 2))]"
  let ?u = "u1\<lparr>u_sent := u_sent u @ ?sent\<rparr>"
  have l: "length (output_indices u) = 64" using user_okD(1) [OF ok] by (simp add: output_indices_def)
  have u: "user_ok ?u" "output_indices ?u = output_indices u1"
    using user_ok_fields [of ?u u1] k(5) by simp_all
  have "output_indices ?u ! k \<noteq> -1" using u(2) k(2,4) l by simp
  from free_stream_ok [OF u(1) k(2) this] obtain u' where u': "guac_user_free_stream ?u k = Some u'"
    "output_indices u' = (output_indices ?u)[k := -1]" "u_sent u' = u_sent ?u" by metis
  have "output_indices u' = output_indices u"
    using u'(2) u(2) k(2-4) l by (metis list_update_id list_update_overwrite)
  moreover have "send_user_clipboard clip u = Some u'"
    using k(1,6,7) u'(1) assms(3,4)
    by (simp add: send_user_clipboard_def Let_def send_to_user_def)
  moreover have "list_all (\<lambda>b. b \<noteq> [] \<and> length b \<le> 4096) ?bs"
    using clipboard_blocks_ok(2) by (simp add: list_all_iff)
  ultimately show ?thesis using u'(3) clipboard_blocks_ok(1) unfolding got_clipboard_def
    by (intro exI [of _ u'] conjI exI [of _ k] exI [of _ ?bs]) (simp_all add: mult.commute)
qed

text \<open>
  What is put into the clipboard is what a user gets: after a reset with a mimetype of less than
  255 bytes and any number of appends, sending announces the mimetype, then sends the data, cut at
  the size of the clipboard, in non-empty blobs of at most 4096 bytes of one stream, ends the
  stream and closes it.
\<close>

theorem clipboard_delivered:
  assumes "length junk = 256" and "user_reach u" and "\<not> (\<forall>i < 64. output_indices u ! i \<noteq> -1)"
    and "length mimetype < 255" and "NUL \<notin> set mimetype"
  shows "\<exists>k bs u'. send_user_clipboard (fold (\<lambda>d c. guac_common_clipboard_append c d) ds
         (guac_common_clipboard_reset (guac_common_clipboard_alloc junk buf) mimetype)) u = Some u'
     \<and> u_sent u' = u_sent u @ [Stream_Message (Send_clipboard (2 * int k) mimetype)]
         @ map (\<lambda>b. Stream_Message (Send_blob (2 * int k) (map byte_of b))) bs
         @ [Stream_Message (Send_end (2 * int k))]
     \<and> concat bs = take (length buf) (concat ds) \<and> list_all (\<lambda>b. b \<noteq> [] \<and> length b \<le> 4096) bs
     \<and> output_indices u' = output_indices u"
proof -
  let ?start = "guac_common_clipboard_reset (guac_common_clipboard_alloc junk buf) mimetype"
  let ?c = "fold (\<lambda>d c. guac_common_clipboard_append c d) ds ?start"
  have 0: "clipboard_ok ?start" "cb_length ?start = 0" "cb_available ?start = length buf"
    using assms(1) by (simp_all add: clipboard_ok_def guac_common_clipboard_reset_def
        guac_common_clipboard_alloc_def strncpy_def)
  obtain rest where m: "cb_mimetype ?start = mimetype @ NUL # rest"
  proof -
    have "replicate 255 NUL = NUL # replicate 254 NUL" by (metis eval_nat_numeral(3) replicate_Suc semiring_norm(27) semiring_norm(28))
    then have "cb_mimetype ?start = mimetype @ take (255 - length mimetype) (NUL # replicate 254 NUL) @ drop 255 (junk[0 := NUL])"
      using assms(4) by (simp add: guac_common_clipboard_reset_def guac_common_clipboard_alloc_def strncpy_def)
    moreover obtain j where "255 - length mimetype = Suc j" using assms(4) by (cases "255 - length mimetype") auto
    ultimately show ?thesis using that by simp
  qed
  have c: "cb_mimetype ?c = mimetype @ NUL # rest"
    "take (cb_length ?c) (cb_buffer ?c) = take (length buf) (concat ds)"
    using clipboard_appends_ok [OF 0(1), of ds] 0 m by (auto simp: Let_def)
  from send_user_clipboard_ok [OF user_reach_ok [OF assms(2)] assms(3) c(1) assms(5)]
  show ?thesis unfolding c(2) got_clipboard_def by blast
qed

theorem clipboard_delivered_witness:
  "\<exists>k bs u'. send_user_clipboard (fold (\<lambda>d c. guac_common_clipboard_append c d) [''abc'', ''def'']
         (guac_common_clipboard_reset (guac_common_clipboard_alloc (replicate 256 CHR ''x'') ''....'') ''text/plain''))
         (fresh_user :: unit guac_user) = Some u'
     \<and> u_sent u' = [] @ [Stream_Message (Send_clipboard (2 * int k) ''text/plain'')]
         @ map (\<lambda>b. Stream_Message (Send_blob (2 * int k) (map byte_of b))) bs
         @ [Stream_Message (Send_end (2 * int k))]
     \<and> concat bs = ''abcd''"
proof -
  have "\<not> (\<forall>i < 64. output_indices (fresh_user :: unit guac_user) ! i \<noteq> -1)"
    unfolding fresh_user_closed by (auto intro: exI [of _ 0])
  moreover have "u_sent (fresh_user :: unit guac_user) = []"
    by (simp add: fresh_user_def guac_user_alloc_def)
  ultimately show ?thesis
    using clipboard_delivered [of "replicate 256 CHR ''x''" "fresh_user :: unit guac_user" "''text/plain''"
        "[''abc'', ''def'']" "''....''"] fresh_user_reach by simp blast
qed

end
