(* ===== verification/Rdp_Paths.thy ===== *)
theory Rdp_Paths
  imports Guac_Prelude
begin

text \<open>
  The path functions of \<open>protocols/rdp/src/rdp_fs.c\<close>: normalising a Windows path, converting a relative
  one, appending a filename, and translating to a path inside the shared directory.

  A path argument is a C string (a list of characters without the terminator); a path written to a
  buffer of \<open>GUAC_RDP_FS_MAX_PATH\<close> bytes is the string written. A store outside an array is \<open>None\<close>.
\<close>

section \<open>The functions\<close>

definition GUAC_RDP_FS_MAX_PATH :: nat where
  "GUAC_RDP_FS_MAX_PATH = 4096"

definition is_separator :: "char \<Rightarrow> bool" where
  "is_separator c \<longleftrightarrow> c = CHR ''/'' \<or> c = CHR 0x5C"

text \<open>
  A finished component: the parent reference drops the last one, the current directory and the
  empty component are skipped, anything else is stored in the array of 64 pointers.
\<close>

definition add_component :: "char list \<Rightarrow> char list list \<Rightarrow> char list list option" where
  "add_component component components =
     (if component = ''..'' then Some (butlast components)
      else if component \<noteq> ''.'' \<and> component \<noteq> [] then
        (if length components < 64 then Some (components @ [component]) else None)
      else Some components)"

text \<open>
  The loop over the characters of \<open>path_component_data\<close>; \<open>component\<close> is the text of the component
  read so far. The result tells whether the loop found the terminator (or ran to the end of the
  array, without finishing the last component).
\<close>

fun normalize_loop :: "char list \<Rightarrow> char list \<Rightarrow> char list list \<Rightarrow> (bool \<times> char list list) option" where
  "normalize_loop [] component components = Some (False, components)"
| "normalize_loop (c # data) component components =
     (if is_separator c \<or> c = NUL then
        case add_component component components of None \<Rightarrow> None
        | Some components \<Rightarrow>
            if c = NUL then Some (True, components) else normalize_loop data [] components
      else normalize_loop data (component @ [c]) components)"

definition join_components :: "char list list \<Rightarrow> char list" where
  "join_components components = concat (map (\<lambda>f. CHR 0x5C # f) components)"

text \<open>
  \<open>guac_rdp_fs_normalize_path\<close>: \<open>Some None\<close> is the result 1. \<open>junk\<close> is what the local array
  \<open>path_component_data\<close> holds before. When the loop ran to its end, \<open>path_component_data[i] = 0\<close>
  stores at index 4096.
\<close>

definition guac_rdp_fs_normalize_path :: "char list \<Rightarrow> char list \<Rightarrow> char list option option" where
  "guac_rdp_fs_normalize_path junk path =
     (if path = [] \<or> \<not> is_separator (hd path) then Some None
      else
        let path_component_data = strncpy junk (tl path) (GUAC_RDP_FS_MAX_PATH - 1) in
        case normalize_loop path_component_data [] [] of None \<Rightarrow> None
        | Some (terminated, components) \<Rightarrow>
            if components = [] then Some (Some [CHR 0x5C])
            else if \<not> terminated then None
            else
              let abs_path = join_components components in
              if GUAC_RDP_FS_MAX_PATH < length abs_path + 1 then None else Some (Some abs_path))"

text \<open>
  \<open>guac_rdp_fs_convert_path\<close>. \<open>junk'\<close> is what \<open>combined_path\<close> holds before; the string in it may lack
  a terminator, and reading on is undefined.
\<close>

definition guac_rdp_fs_convert_path ::
  "char list \<Rightarrow> char list \<Rightarrow> char list \<Rightarrow> char list \<Rightarrow> char list option option" where
  "guac_rdp_fs_convert_path junk junk' parent rel_path =
     (let i = min (length parent) GUAC_RDP_FS_MAX_PATH in
      if GUAC_RDP_FS_MAX_PATH < i + 2 then None
      else
        let current = take i parent @ [CHR 0x5C];
            combined_path = current
              @ strncpy (drop (i + 1) junk') rel_path (GUAC_RDP_FS_MAX_PATH - i - 2) in
        if NUL \<notin> set combined_path then None
        else guac_rdp_fs_normalize_path junk (c_string combined_path))"

definition guac_rdp_fs_translate_path :: "char list \<Rightarrow> char list \<Rightarrow> char list" where
  "guac_rdp_fs_translate_path drive_path virtual_path =
     (let start = take (GUAC_RDP_FS_MAX_PATH - 1) drive_path in
      start @ map (\<lambda>c. if c = CHR 0x5C then CHR ''/'' else c)
        (take (GUAC_RDP_FS_MAX_PATH - 1 - length start) virtual_path))"

text \<open>\<open>guac_rdp_fs_append_filename\<close>: \<open>None\<close> is the result 0, \<open>Some\<close> the path of the result 1.\<close>

definition guac_rdp_fs_append_filename :: "char list \<Rightarrow> char list \<Rightarrow> char list option option" where
  "guac_rdp_fs_append_filename path filename =
     (if filename = ''.'' \<or> filename = ''..'' then Some None
      else
        let copied = take GUAC_RDP_FS_MAX_PATH path;
            slash = (length path < GUAC_RDP_FS_MAX_PATH \<and> path \<noteq> [] \<and> \<not> is_separator (last path));
            fullpath = (if slash then copied @ ''/'' else copied);
            appended = take (GUAC_RDP_FS_MAX_PATH - length fullpath) filename in
        if list_ex is_separator appended then Some None
        else if length (fullpath @ appended) = GUAC_RDP_FS_MAX_PATH then Some None
        else Some (Some (fullpath @ appended)))"

section \<open>Paths as lists of components\<close>

text \<open>The components of a path between its separators, and what they resolve to.\<close>

fun path_parts :: "char list \<Rightarrow> char list \<Rightarrow> char list list" where
  "path_parts part [] = [part]"
| "path_parts part (c # cs) =
     (if is_separator c then part # path_parts [] cs else path_parts (part @ [c]) cs)"

fun resolve :: "char list list \<Rightarrow> char list list \<Rightarrow> char list list" where
  "resolve stack [] = stack"
| "resolve stack (p # ps) =
     resolve (if p = ''..'' then butlast stack else if p = ''.'' \<or> p = [] then stack else stack @ [p]) ps"

text \<open>A component that names an entry of its directory.\<close>

definition proper :: "char list \<Rightarrow> bool" where
  "proper p \<longleftrightarrow> p \<noteq> [] \<and> p \<noteq> ''.'' \<and> p \<noteq> ''..'' \<and> \<not> list_ex is_separator p"

definition named :: "char list \<Rightarrow> bool" where
  "named p \<longleftrightarrow> p \<noteq> [] \<and> p \<noteq> ''.'' \<and> p \<noteq> ''..''"

lemma resolve_length: "length (resolve stack ps) \<le> length stack + length (filter named ps)"
proof (induction ps arbitrary: stack)
  case (Cons p ps)
  show ?case
    using Cons.IH [of "if p = ''..'' then butlast stack else if p = ''.'' \<or> p = [] then stack else stack @ [p]"]
    by (auto simp: named_def split: if_splits)
qed simp

fun add_all :: "char list list \<Rightarrow> char list list \<Rightarrow> char list list option" where
  "add_all stack [] = Some stack"
| "add_all stack (p # ps) =
     (case add_component p stack of None \<Rightarrow> None | Some stack \<Rightarrow> add_all stack ps)"

lemma normalize_loop_parts:
  "NUL \<notin> set cs \<Longrightarrow>
     normalize_loop (cs @ NUL # junk) part stack = map_option (Pair True) (add_all stack (path_parts part cs))"
proof (induction cs arbitrary: part stack)
  case Nil
  then show ?case by (simp split: option.split)
next
  case (Cons c cs)
  then show ?case by (auto split: option.split)
qed

lemma add_all_resolve:
  "length stack + length (filter named ps) \<le> 64 \<Longrightarrow> add_all stack ps = Some (resolve stack ps)"
proof (induction ps arbitrary: stack)
  case (Cons p ps)
  let ?stack = "if p = ''..'' then butlast stack else if p = ''.'' \<or> p = [] then stack else stack @ [p]"
  have "length ?stack + length (filter named ps) \<le> 64" "add_component p stack = Some ?stack"
    using Cons.prems by (auto simp: named_def [of p] add_component_def split: if_splits)
  with Cons.IH [of ?stack] show ?case by simp
qed simp

lemma add_all_overflow:
  "\<forall>p \<in> set ps. proper p \<Longrightarrow> length stack \<le> 64 \<Longrightarrow> 64 < length stack + length ps \<Longrightarrow> add_all stack ps = None"
proof (induction ps arbitrary: stack)
  case (Cons p ps)
  show ?case
  proof (cases "length stack < 64")
    case True
    then show ?thesis using Cons.IH [of "stack @ [p]"] Cons.prems
      by (simp add: add_component_def proper_def)
  qed (use Cons.prems in \<open>simp add: add_component_def proper_def\<close>)
qed simp

lemma path_parts_clean:
  "\<not> list_ex is_separator part \<Longrightarrow> \<forall>p \<in> set (path_parts part cs). \<not> list_ex is_separator p"
proof (induction cs arbitrary: part)
  case (Cons c cs)
  show ?case
  proof (cases "is_separator c")
    case True
    then show ?thesis using Cons.IH [of "[]"] Cons.prems by (auto simp del: list_ex_iff)
  next
    case False
    then have "\<not> list_ex is_separator (part @ [c])" using Cons.prems by simp
    from Cons.IH [OF this] False show ?thesis by simp
  qed
qed simp

lemma resolve_proper:
  "\<forall>p \<in> set stack. proper p \<Longrightarrow> \<forall>p \<in> set ps. \<not> list_ex is_separator p \<Longrightarrow>
     \<forall>p \<in> set (resolve stack ps). proper p"
proof (induction ps arbitrary: stack)
  case (Cons p ps)
  let ?stack = "if p = ''..'' then butlast stack else if p = ''.'' \<or> p = [] then stack else stack @ [p]"
  have "\<forall>q \<in> set ?stack. proper q" using Cons.prems by (auto simp: proper_def dest: in_set_butlastD)
  with Cons.IH [of ?stack] Cons.prems(2) show ?case by simp
qed simp

lemma resolve_subset: "set (resolve stack ps) \<subseteq> set stack \<union> set ps"
proof (induction ps arbitrary: stack)
  case (Cons p ps)
  show ?case
    using Cons.IH [of "if p = ''..'' then butlast stack else if p = ''.'' \<or> p = [] then stack else stack @ [p]"]
    by (auto dest: in_set_butlastD split: if_splits)
qed simp

lemma path_parts_subset: "p \<in> set (path_parts part cs) \<Longrightarrow> set p \<subseteq> set part \<union> set cs"
  by (induction cs arbitrary: part) (fastforce split: if_splits)+

text \<open>The characters of the components and one separator for each fit in the path.\<close>

lemma resolve_join_length:
  "length (join_components (resolve stack ps))
     \<le> length (join_components stack) + length (join_components ps)"
proof (induction ps arbitrary: stack)
  case (Cons p ps)
  have b: "length (join_components (butlast stack)) \<le> length (join_components stack)"
    by (cases stack rule: rev_cases) (simp_all add: join_components_def)
  show ?case
    using Cons.IH [of "if p = ''..'' then butlast stack else if p = ''.'' \<or> p = [] then stack else stack @ [p]"] b
    by (auto simp: join_components_def split: if_splits)
qed simp

lemma path_parts_length: "length (join_components (path_parts part cs)) = length part + length cs + 1"
  by (induction cs arbitrary: part) (auto simp: join_components_def)

lemma path_parts_join:
  "ps \<noteq> [] \<Longrightarrow> \<forall>p \<in> set ps. \<not> list_ex is_separator p \<Longrightarrow> path_parts [] (tl (join_components ps)) = ps"
proof (induction ps rule: list_nonempty_induct)
  have sep: "is_separator CHR 0x5C" by (simp add: is_separator_def)
  have pp: "\<not> list_ex is_separator p \<Longrightarrow> path_parts part (p @ cs) = path_parts (part @ p) cs" for p part cs
    by (induction p arbitrary: part) auto
  {
    case (single p)
    then show ?case using pp [of p "[]" "[]"] by (simp add: join_components_def)
  next
    case (cons p ps)
    have "tl (join_components (p # ps)) = p @ join_components ps" by (simp add: join_components_def)
    moreover have "join_components ps = CHR 0x5C # tl (join_components ps)"
      using cons(1) by (cases ps) (auto simp: join_components_def)
    ultimately show ?case using cons pp [of p "[]"] sep by (metis append_Nil list.set_intros(1,2) path_parts.simps(2))
  }
qed

lemma resolve_id: "\<forall>p \<in> set ps. proper p \<Longrightarrow> resolve stack ps = stack @ ps"
  by (induction ps arbitrary: stack) (auto simp: proper_def)

lemma strncpy_short:
  assumes "length src < n" and "length dest = n + 1" and "NUL \<notin> set src"
  obtains rest where "strncpy dest src n = src @ NUL # rest"
proof -
  have "n - length src = Suc (n - length src - 1)" using assms(1) by simp
  then have "take (n - length src) (replicate n NUL) = NUL # replicate (n - length src - 1) NUL"
    by (metis diff_le_self min.absorb1 replicate_Suc take_replicate)
  then show ?thesis using that assms(1) by (simp add: strncpy_def)
qed

lemma normalize_path_ok:
  assumes "NUL \<notin> set cs" and "length cs < 4095" and "length junk = 4096" and "is_separator c"
    and "length (filter named (path_parts [] cs)) \<le> 64"
  shows "guac_rdp_fs_normalize_path junk (c # cs)
     = Some (Some (if resolve [] (path_parts [] cs) = [] then [CHR 0x5C]
                   else join_components (resolve [] (path_parts [] cs))))"
proof -
  obtain rest where s: "strncpy junk cs 4095 = cs @ NUL # rest"
    using strncpy_short [of cs 4095 junk] assms(1-3) by auto
  have l: "normalize_loop (cs @ NUL # rest) [] [] = Some (True, resolve [] (path_parts [] cs))"
    using normalize_loop_parts [of cs rest "[]" "[]"] add_all_resolve [of "[]"] assms(1,5) by simp
  have "length (join_components (resolve [] (path_parts [] cs))) \<le> length cs + 1"
    using resolve_join_length [of "[]" "path_parts [] cs"] path_parts_length [of "[]" cs]
    by (simp add: join_components_def)
  then show ?thesis using assms(2,4)
    by (simp add: guac_rdp_fs_normalize_path_def GUAC_RDP_FS_MAX_PATH_def s l)
qed

text \<open>The text of a normalised path.\<close>

definition path_text :: "char list list \<Rightarrow> char list" where
  "path_text comps = (if comps = [] then [CHR 0x5C] else join_components comps)"

lemma proper_named: "proper p \<Longrightarrow> named p"
  by (simp add: proper_def named_def)

lemma path_text_hd: "path_text comps \<noteq> [] \<and> hd (path_text comps) = CHR 0x5C"
  by (cases comps) (simp_all add: path_text_def join_components_def)

lemma path_parts_text:
  assumes "\<forall>p \<in> set comps. proper p"
  shows "path_parts [] (tl (path_text comps)) = (if comps = [] then [[]] else comps)"
proof (cases "comps = []")
  case False
  have "\<forall>p \<in> set comps. \<not> list_ex is_separator p" using assms by (simp add: proper_def)
  then show ?thesis using path_parts_join [OF False] False by (simp add: path_text_def)
qed (simp add: path_text_def)

lemma path_parts_append:
  "is_separator c \<Longrightarrow> path_parts part (xs @ c # ys) = path_parts part xs @ path_parts [] ys"
  by (induction xs arbitrary: part) auto

lemma resolve_append: "resolve stack (a @ b) = resolve (resolve stack a) b"
  by (induction a arbitrary: stack) auto

lemma resolve_text:
  assumes "\<forall>p \<in> set comps. proper p"
  shows "resolve [] (path_parts [] (tl (path_text comps))) = comps"
  using resolve_id [OF assms, of "[]"] by (auto simp: path_parts_text [OF assms])

lemma translate_text:
  assumes "\<forall>p \<in> set comps. proper p" and "length drive + length (path_text comps) \<le> 4095"
  shows "guac_rdp_fs_translate_path drive (path_text comps)
     = drive @ (if comps = [] then ''/'' else concat (map (Cons CHR ''/'') comps))"
proof -
  let ?f = "\<lambda>c. if c = CHR 0x5C then CHR ''/'' else c"
  have id: "map ?f p = p" if "proper p" for p
    using that by (intro map_idI) (auto simp: proper_def is_separator_def list_ex_iff)
  have "map ?f (join_components comps) = concat (map (Cons CHR ''/'') comps)"
    using assms(1) by (induction comps) (simp_all add: join_components_def id)
  moreover have "take (4095 - length drive) (path_text comps) = path_text comps" using assms(2) by simp
  ultimately show ?thesis using assms(2)
    by (simp add: guac_rdp_fs_translate_path_def GUAC_RDP_FS_MAX_PATH_def Let_def path_text_def)
qed

section \<open>Properties\<close>

text \<open>
  C14. Confinement. An absolute path of less than 4096 bytes with at most 64 named components is
  normalised to the components it resolves to, where a parent reference at the root stays at the
  root; each of them is a proper name (not empty, no \<open>.\<close>, no \<open>..\<close>, no separator); normalising again
  changes nothing; and translated into a shared directory, when it fits, it is that directory
  followed by these names. No request path leads out of the shared directory.
\<close>

theorem normalized_path_confined:
  assumes "NUL \<notin> set path" and "length path \<le> 4095" and "path \<noteq> []" and "is_separator (hd path)"
    and "length (filter named (path_parts [] (tl path))) \<le> 64"
    and "length junk = 4096" and "length junk' = 4096"
  shows "\<exists>comps. comps = resolve [] (path_parts [] (tl path)) \<and> list_all proper comps
     \<and> guac_rdp_fs_normalize_path junk path = Some (Some (path_text comps))
     \<and> guac_rdp_fs_normalize_path junk' (path_text comps) = Some (Some (path_text comps))
     \<and> (length drive + length (path_text comps) \<le> 4095 \<longrightarrow>
          guac_rdp_fs_translate_path drive (path_text comps)
          = drive @ (if comps = [] then ''/'' else concat (map (Cons CHR ''/'') comps)))"
proof -
  obtain c cs where path: "path = c # cs" using assms(3) by (cases path) auto
  define comps where "comps = resolve [] (path_parts [] cs)"
  have proper: "\<forall>p \<in> set comps. proper p"
    unfolding comps_def using resolve_proper [of "[]"] path_parts_clean [of "[]" cs] by simp
  have n: "guac_rdp_fs_normalize_path junk path = Some (Some (path_text comps))"
    using normalize_path_ok [of cs junk c] assms(1,2,4,5,6) path
    by (simp add: comps_def path_text_def)
  have len: "length (path_text comps) \<le> length path"
    using resolve_join_length [of "[]" "path_parts [] cs"] path_parts_length [of "[]" cs] path
    by (auto simp: path_text_def comps_def join_components_def)
  have "NUL \<notin> set (path_text comps)"
  proof -
    have "\<forall>p \<in> set comps. NUL \<notin> set p"
      using resolve_subset [of "[]" "path_parts [] cs"] path_parts_subset [of _ "[]" cs] assms(1) path
      by (fastforce simp: comps_def)
    then show ?thesis using assms(1) path by (auto simp: path_text_def join_components_def)
  qed
  moreover have "length comps \<le> 64"
    using resolve_length [of "[]" "path_parts [] cs"] assms(5) path by (simp add: comps_def)
  ultimately have "guac_rdp_fs_normalize_path junk' (path_text comps) = Some (Some (path_text comps))"
  proof -
    assume z: "NUL \<notin> set (path_text comps)" and l: "length comps \<le> 64"
    obtain ts where ts: "path_text comps = CHR 0x5C # ts"
      using path_text_hd [of comps] by (cases "path_text comps") auto
    have r: "resolve [] (path_parts [] ts) = comps" using resolve_text [OF proper] ts by simp
    have "length (filter named (path_parts [] ts)) \<le> 64"
      using path_parts_text [OF proper] ts l proper
      by (auto simp: named_def intro: order_trans [OF length_filter_le] split: if_splits)
    then show ?thesis
      using normalize_path_ok [of ts junk' "CHR 0x5C"] z ts len assms(2,7) r
      by (simp add: is_separator_def path_text_def split: if_splits)
  qed
  moreover have "length drive + length (path_text comps) \<le> 4095 \<longrightarrow>
      guac_rdp_fs_translate_path drive (path_text comps)
      = drive @ (if comps = [] then ''/'' else concat (map (Cons CHR ''/'') comps))"
    using translate_text [OF proper] by blast
  ultimately show ?thesis using n proper path
    by (intro exI [of _ comps]) (simp add: comps_def list_all_iff)
qed

theorem normalized_path_confined_witness:
  "guac_rdp_fs_normalize_path (replicate 4096 CHR ''x'') [CHR 0x5C, CHR ''a'', CHR 0x5C, CHR ''.'', CHR ''.'', CHR ''/'', CHR ''.'', CHR ''.'', CHR 0x5C, CHR ''b'']
     = Some (Some [CHR 0x5C, CHR ''b''])"
proof -
  let ?p = "[CHR 0x5C, CHR ''a'', CHR 0x5C, CHR ''.'', CHR ''.'', CHR ''/'', CHR ''.'', CHR ''.'', CHR 0x5C, CHR ''b'']"
  have p: "path_parts [] (tl ?p) = [''a'', ''..'', ''..'', ''b'']" by (simp add: is_separator_def)
  have "length (filter named (path_parts [] (tl ?p))) \<le> 64" unfolding p by (simp add: named_def)
  from normalized_path_confined [OF _ _ _ _ this, of "replicate 4096 CHR ''x''" "replicate 4096 CHR ''x''" "[]"]
  show ?thesis unfolding p by (simp add: is_separator_def path_text_def join_components_def)
qed

text \<open>
  The array of components has 64 entries and is not checked: a path of more than 64 proper
  components makes \<open>guac_rdp_fs_normalize_path\<close> store past its end.
\<close>

theorem many_components_overflow:
  assumes "list_all proper ps" and "64 < length ps" and "length (join_components ps) \<le> 4095"
    and "NUL \<notin> set (join_components ps)" and "length junk = 4096"
  shows "guac_rdp_fs_normalize_path junk (join_components ps) = None"
proof -
  obtain cs where cs: "join_components ps = CHR 0x5C # cs"
    using assms(2) by (cases ps) (auto simp: join_components_def)
  have "path_parts [] cs = ps"
  proof -
    have ne: "ps \<noteq> []" using assms(2) by fastforce
    have "\<forall>p \<in> set ps. \<not> list_ex is_separator p"
      using assms(1) unfolding list_all_iff proper_def by blast
    from path_parts_join [OF ne this] cs show ?thesis by simp
  qed
  then have "add_all [] (path_parts [] cs) = None"
    using add_all_overflow [of ps "[]"] assms(1,2) by (simp add: list_all_iff)
  moreover obtain rest where "strncpy junk cs 4095 = cs @ NUL # rest"
    using strncpy_short [of cs 4095 junk] assms(3-5) cs by auto
  ultimately show ?thesis
    using normalize_loop_parts [of cs rest "[]" "[]"] assms(4) cs
    by (simp add: guac_rdp_fs_normalize_path_def GUAC_RDP_FS_MAX_PATH_def is_separator_def)
qed

theorem many_components_overflow_witness:
  "guac_rdp_fs_normalize_path (replicate 4096 NUL) (join_components (replicate 65 ''a'')) = None"
proof -
  have j: "length (join_components (replicate n ''a'')) = 2 * n"
    "NUL \<notin> set (join_components (replicate n ''a''))" for n
    by (induction n) (simp_all add: join_components_def)
  have "list_all proper (replicate 65 ''a'')"
    by (simp add: proper_def is_separator_def list_all_iff)
  moreover have "length (join_components (replicate 65 ''a'')) \<le> 4095" unfolding j by simp
  moreover have "64 < length (replicate 65 ''a'')" "length (replicate 4096 NUL) = 4096"
    by (simp_all only: length_replicate)
  ultimately show ?thesis using j(2) by (intro many_components_overflow)
qed

text \<open>
  Converting a path relative to a normalised directory resolves its components from that
  directory.
\<close>

theorem convert_path_resolves:
  assumes "list_all proper comps" and "NUL \<notin> set (path_text comps)" and "NUL \<notin> set rel"
    and "length (path_text comps) + length rel \<le> 4092"
    and "length comps + length (filter named (path_parts [] rel)) \<le> 64"
    and "length junk = 4096" and "length junk' = 4096"
  shows "guac_rdp_fs_convert_path junk junk' (path_text comps) rel
     = Some (Some (path_text (resolve comps (path_parts [] rel))))"
proof -
  let ?parent = "path_text comps" and ?n = "length (path_text comps)"
  obtain ts where ts: "?parent = CHR 0x5C # ts"
    using path_text_hd [of comps] by (cases "path_text comps") auto
  have proper: "\<forall>p \<in> set comps. proper p" using assms(1) by (simp add: list_all_iff)
  have l: "length rel < 4094 - ?n" "length (drop (?n + 1) junk') = 4094 - ?n + 1"
    using assms(4,7) by simp_all
  obtain rest where s: "strncpy (drop (?n + 1) junk') rel (4094 - ?n) = rel @ NUL # rest"
    by (rule strncpy_short [OF l assms(3)])
  let ?path = "?parent @ CHR 0x5C # rel"
  have c: "c_string (?path @ NUL # rest) = ?path"
    using c_string_append_NUL [of ?path rest] assms(2,3) by simp
  have parts: "path_parts [] (ts @ CHR 0x5C # rel) = path_parts [] ts @ path_parts [] rel"
    by (rule path_parts_append) (simp add: is_separator_def)
  have r: "resolve [] (path_parts [] (ts @ CHR 0x5C # rel)) = resolve comps (path_parts [] rel)"
    unfolding parts resolve_append using resolve_text [OF proper] ts by simp
  have n: "length (filter named (path_parts [] ts)) \<le> length comps"
    using path_parts_text [OF proper] ts by (auto simp: named_def intro: length_filter_le split: if_splits)
  have "guac_rdp_fs_normalize_path junk ?path = Some (Some (path_text (resolve comps (path_parts [] rel))))"
    using normalize_path_ok [of "ts @ CHR 0x5C # rel" junk "CHR 0x5C"] assms(2-6) ts r n parts
    by (simp add: is_separator_def path_text_def split: if_splits)
  then show ?thesis
    using s c assms(4) by (simp add: guac_rdp_fs_convert_path_def GUAC_RDP_FS_MAX_PATH_def Let_def)
qed

theorem convert_path_resolves_witness:
  "guac_rdp_fs_convert_path (replicate 4096 NUL) (replicate 4096 NUL) (path_text [''a'', ''b'']) ''../c''
     = Some (Some (path_text [''a'', ''c'']))"
proof -
  have p: "path_parts [] ''../c'' = [''..'', ''c'']" by (simp add: is_separator_def)
  have "resolve [''a'', ''b''] (path_parts [] ''../c'') = [''a'', ''c'']" unfolding p by simp
  moreover have "length [''a'', ''b''] + length (filter named (path_parts [] ''../c'')) \<le> 64"
    unfolding p by (simp add: named_def)
  ultimately show ?thesis
    using convert_path_resolves [of "[''a'', ''b'']" "''../c''" "replicate 4096 NUL" "replicate 4096 NUL"]
    by (simp add: proper_def is_separator_def path_text_def join_components_def)
qed

end
