(* ===== verification/Rdp_Fs.thy ===== *)
theory Rdp_Fs
  imports Rdp_Paths User
begin

text \<open>
  \<open>protocols/rdp/src/rdp_fs.c\<close>: the table of open files of the shared drive.

  \<^item> The operating system and the file streams of the library are the parameter \<open>fs_os\<close>: its functions
    act on a state \<open>'o\<close> the model never looks into; \<open>'s\<close> is a stream object. \<open>fs_os_state\<close> is that
    state.
  \<^item> Open flags are those of the C++ library on Windows (\<open>in\<close> 1, \<open>out\<close> 2, \<open>trunc\<close> 16) and \<open>O_CREAT\<close> of its
    \<open>fcntl.h\<close> (256). Log lines are left out.
  \<^item> \<open>junk\<close> is the uninitialised local array of the path normalisation.
\<close>

section \<open>Codes\<close>

definition GUAC_RDP_FS_MAX_FILES :: int where "GUAC_RDP_FS_MAX_FILES = 128"
definition GUAC_RDP_FS_ENFILE :: int where "GUAC_RDP_FS_ENFILE = -1"
definition GUAC_RDP_FS_ENOENT :: int where "GUAC_RDP_FS_ENOENT = -2"
definition GUAC_RDP_FS_ENOTDIR :: int where "GUAC_RDP_FS_ENOTDIR = -3"
definition GUAC_RDP_FS_ENOSPC :: int where "GUAC_RDP_FS_ENOSPC = -4"
definition GUAC_RDP_FS_EISDIR :: int where "GUAC_RDP_FS_EISDIR = -5"
definition GUAC_RDP_FS_EACCES :: int where "GUAC_RDP_FS_EACCES = -6"
definition GUAC_RDP_FS_EEXIST :: int where "GUAC_RDP_FS_EEXIST = -7"
definition GUAC_RDP_FS_EINVAL :: int where "GUAC_RDP_FS_EINVAL = -8"
definition GUAC_RDP_FS_ENOSYS :: int where "GUAC_RDP_FS_ENOSYS = -9"
definition GUAC_RDP_FS_ENOTSUP :: int where "GUAC_RDP_FS_ENOTSUP = -10"

lemmas fs_codes = GUAC_RDP_FS_ENFILE_def GUAC_RDP_FS_ENOENT_def GUAC_RDP_FS_ENOTDIR_def
  GUAC_RDP_FS_ENOSPC_def GUAC_RDP_FS_EISDIR_def GUAC_RDP_FS_EACCES_def GUAC_RDP_FS_EEXIST_def
  GUAC_RDP_FS_EINVAL_def GUAC_RDP_FS_ENOSYS_def GUAC_RDP_FS_ENOTSUP_def

datatype errno = ENFILE | ENOENT | ENOTDIR | ENOSPC | EISDIR | EACCES | EEXIST | EINVAL | ENOSYS
  | ENOTSUP | Other_Errno int

primrec guac_rdp_fs_get_errorcode :: "errno \<Rightarrow> int" where
  "guac_rdp_fs_get_errorcode ENFILE = GUAC_RDP_FS_ENFILE"
| "guac_rdp_fs_get_errorcode ENOENT = GUAC_RDP_FS_ENOENT"
| "guac_rdp_fs_get_errorcode ENOTDIR = GUAC_RDP_FS_ENOTDIR"
| "guac_rdp_fs_get_errorcode ENOSPC = GUAC_RDP_FS_ENOSPC"
| "guac_rdp_fs_get_errorcode EISDIR = GUAC_RDP_FS_EISDIR"
| "guac_rdp_fs_get_errorcode EACCES = GUAC_RDP_FS_EACCES"
| "guac_rdp_fs_get_errorcode EEXIST = GUAC_RDP_FS_EEXIST"
| "guac_rdp_fs_get_errorcode EINVAL = GUAC_RDP_FS_EINVAL"
| "guac_rdp_fs_get_errorcode ENOSYS = GUAC_RDP_FS_ENOSYS"
| "guac_rdp_fs_get_errorcode ENOTSUP = GUAC_RDP_FS_ENOTSUP"
| "guac_rdp_fs_get_errorcode (Other_Errno n) = GUAC_RDP_FS_EINVAL"

definition guac_rdp_fs_get_status :: "int \<Rightarrow> u32" where
  "guac_rdp_fs_get_status err =
     (if err = GUAC_RDP_FS_ENFILE then 0x80000006
      else if err = GUAC_RDP_FS_ENOENT then 0xC000000F
      else if err = GUAC_RDP_FS_ENOTDIR then 0xC0000103
      else if err = GUAC_RDP_FS_ENOSPC then 0xC000007F
      else if err = GUAC_RDP_FS_EISDIR then 0xC00000BA
      else if err = GUAC_RDP_FS_EACCES then 0xC0000022
      else if err = GUAC_RDP_FS_EEXIST then 0xC0000035
      else if err = GUAC_RDP_FS_EINVAL then 0xC000000D
      else if err = GUAC_RDP_FS_ENOSYS then 0xC0000002
      else if err = GUAC_RDP_FS_ENOTSUP then 0xC00000BB
      else 0xC000000D)"

section \<open>The structures\<close>

record 's guac_rdp_fs_file =
  ff_id :: int
  absolute_path :: "char list option"
  real_path :: "char list option"
  file_stream :: "'s option"
  dir_iter :: "char list list option"
  dir_pattern :: "char list"
  ff_attributes :: int
  ff_size :: int
  ff_ctime :: int
  ff_mtime :: int
  ff_atime :: int
  bytes_written :: int

record ('o, 's) guac_rdp_fs =
  drive_path :: "char list"
  open_files :: int
  file_id_pool :: guac_pool
  fs_files :: "'s guac_rdp_fs_file list"
  fs_os_state :: 'o

text \<open>What the code calls of the system and of the file library; results beside the new state.\<close>

record ('o, 's) fs_os =
  os_errno :: "'o \<Rightarrow> errno"
  os_create_directories :: "'o \<Rightarrow> char list \<Rightarrow> bool \<times> bool \<times> 'o"
  os_permissions :: "'o \<Rightarrow> char list \<Rightarrow> 'o"
  os_remove :: "'o \<Rightarrow> char list \<Rightarrow> 'o"
  os_exists :: "'o \<Rightarrow> char list \<Rightarrow> bool"
  os_is_regular_file :: "'o \<Rightarrow> char list \<Rightarrow> bool"
  os_is_directory :: "'o \<Rightarrow> char list \<Rightarrow> bool"
  os_create :: "'o \<Rightarrow> char list \<Rightarrow> 'o"
  os_open :: "'o \<Rightarrow> char list \<Rightarrow> int \<Rightarrow> 's \<times> 'o"
  os_is_open :: "'o \<Rightarrow> 's \<Rightarrow> bool"
  os_read :: "'o \<Rightarrow> 's \<Rightarrow> int \<Rightarrow> int \<Rightarrow> u8 list \<times> 'o"
  os_write :: "'o \<Rightarrow> 's \<Rightarrow> int \<Rightarrow> u8 list \<Rightarrow> 'o"
  os_seek_start :: "'o \<Rightarrow> 's \<Rightarrow> 'o"
  os_close :: "'o \<Rightarrow> 's \<Rightarrow> 'o"
  os_rename :: "'o \<Rightarrow> char list \<Rightarrow> char list \<Rightarrow> bool \<times> 'o"
  os_resize :: "'o \<Rightarrow> char list \<Rightarrow> int \<Rightarrow> bool \<times> 'o"
  os_find_first_file :: "'o \<Rightarrow> char list \<Rightarrow> int \<times> int \<times> int \<times> int"
  os_tree_size :: "'o \<Rightarrow> char list \<Rightarrow> int"
  os_file_size :: "'o \<Rightarrow> char list \<Rightarrow> int option"
  os_list :: "'o \<Rightarrow> char list \<Rightarrow> char list list option"
  os_free_space :: "'o \<Rightarrow> char list \<Rightarrow> (u32 \<times> u32 \<times> u32 \<times> u32) option"

text \<open>\<open>guac_rdp_fs_alloc\<close>: \<open>files\<close> is the memory of the table, of which the two paths are set to null.\<close>

definition guac_rdp_fs_alloc ::
  "('o, 's) fs_os \<Rightarrow> 'o \<Rightarrow> char list \<Rightarrow> bool \<Rightarrow> 's guac_rdp_fs_file list \<Rightarrow> ('o, 's) guac_rdp_fs" where
  "guac_rdp_fs_alloc os o0 path create_drive_path files =
     \<lparr>drive_path = path, open_files = 0, file_id_pool = guac_pool_alloc 0,
      fs_files = map (\<lambda>f. f\<lparr>absolute_path := None, real_path := None\<rparr>) files,
      fs_os_state = (if create_drive_path then snd (snd (os_create_directories os o0 path)) else o0)\<rparr>"

text \<open>\<open>guac_rdp_fs_alloc_object\<close>: the names of the two handlers are parameters. A null object is dereferenced.\<close>

definition guac_rdp_fs_alloc_object ::
  "'h \<Rightarrow> 'h \<Rightarrow> nat \<Rightarrow> 'h guac_user \<Rightarrow> (nat \<times> 'h guac_user) option" where
  "guac_rdp_fs_alloc_object download upload fs u =
     (case guac_user_alloc_object u of None \<Rightarrow> None
      | Some (None, _) \<Rightarrow> None
      | Some (Some k, u) \<Rightarrow>
          let fs_object = (u_objects u ! k)\<lparr>ob_get_handler := Some download,
                             ob_put_handler := Some upload, ob_data := Some fs\<rparr>;
              u = u\<lparr>u_objects := (u_objects u)[k := fs_object]\<rparr> in
          Some (k, send_to_user u (Stream_Message (Send_filesystem (ob_index fs_object) ''Shared Drive''))))"

text \<open>\<open>guac_rdp_fs_expose\<close> for a user and a drive that may be null.\<close>

definition guac_rdp_fs_expose ::
  "'h \<Rightarrow> 'h \<Rightarrow> 'h guac_user option \<Rightarrow> nat option \<Rightarrow> (nat option \<times> 'h guac_user option) option" where
  "guac_rdp_fs_expose download upload user fs =
     (case (user, fs) of
        (Some u, Some d) \<Rightarrow>
          map_option (\<lambda>(k, u). (Some k, Some u)) (guac_rdp_fs_alloc_object download upload d u)
      | _ \<Rightarrow> Some (None, user))"

definition guac_rdp_fs_get_file :: "int \<Rightarrow> nat option" where
  "guac_rdp_fs_get_file file_id =
     (if file_id < 0 \<or> file_id \<ge> GUAC_RDP_FS_MAX_FILES then None else Some (nat file_id))"

section \<open>Opening\<close>

definition ACCESS_GENERIC_READ :: u32 where "ACCESS_GENERIC_READ = 0x80000000"
definition ACCESS_GENERIC_WRITE :: u32 where "ACCESS_GENERIC_WRITE = 0x40000000"
definition ACCESS_GENERIC_ALL :: u32 where "ACCESS_GENERIC_ALL = 0x10000000"
definition ACCESS_FILE_READ_DATA :: u32 where "ACCESS_FILE_READ_DATA = 1"
definition ACCESS_FILE_WRITE_DATA :: u32 where "ACCESS_FILE_WRITE_DATA = 2"
definition ACCESS_FILE_APPEND_DATA :: u32 where "ACCESS_FILE_APPEND_DATA = 4"

definition ios_in :: int where "ios_in = 1"
definition ios_out :: int where "ios_out = 2"
definition ios_trunc :: int where "ios_trunc = 16"
definition O_CREAT :: int where "O_CREAT = 256"

definition access_flags :: "u32 \<Rightarrow> int" where
  "access_flags acc =
     (let writes = acc AND (ACCESS_GENERIC_WRITE OR ACCESS_FILE_WRITE_DATA OR ACCESS_FILE_APPEND_DATA) \<noteq> 0;
          reads = acc AND (ACCESS_GENERIC_READ OR ACCESS_FILE_READ_DATA) \<noteq> 0 in
      if acc AND ACCESS_GENERIC_ALL \<noteq> 0 then ios_in OR ios_out
      else if writes \<and> reads then ios_in OR ios_out
      else if writes then ios_out
      else ios_in)"

text \<open>
  The switch on the disposition (0 supersede, 1 open, 2 create, 3 open-if, 4 overwrite, 5
  overwrite-if): whether an existing file is a failure, whether the file is created, and the flags;
  \<open>None\<close> is an unknown disposition.
\<close>

definition disposition :: "int \<Rightarrow> int \<Rightarrow> (bool \<times> bool \<times> int) option" where
  "disposition create_disposition flags =
     (if create_disposition = 2 then Some (True, True, flags)
      else if create_disposition = 1 then Some (False, True, flags)
      else if create_disposition = 3 then Some (False, True, flags)
      else if create_disposition = 4 then Some (False, False, flags OR ios_trunc)
      else if create_disposition = 5 then Some (False, True, flags OR ios_trunc)
      else if create_disposition = 0 then Some (False, True, flags OR ios_trunc)
      else None)"

text \<open>The size, times and attributes recorded for an opened file.\<close>

definition file_info ::
  "('o, 's) fs_os \<Rightarrow> 'o \<Rightarrow> char list \<Rightarrow> 's guac_rdp_fs_file \<Rightarrow> 's guac_rdp_fs_file" where
  "file_info os o1 path file =
     (let (h, ctime, mtime, atime) = os_find_first_file os o1 path in
      if h \<noteq> 0 then
        file\<lparr>ff_size := (if os_is_directory os o1 path then ff_size file + os_tree_size os o1 path
                        else case os_file_size os o1 path of None \<Rightarrow> 0 | Some n \<Rightarrow> n),
             ff_ctime := ctime, ff_mtime := mtime, ff_atime := atime,
             ff_attributes := (if os_is_directory os o1 path then 0x10 else 0x80)\<rparr>
      else file\<lparr>ff_size := 0, ff_ctime := 0, ff_mtime := 0, ff_atime := 0, ff_attributes := 0x80\<rparr>)"

text \<open>
  The stream of a file that is not opened as a directory: \<open>Inl\<close> is the failure of a create on an
  existing file, \<open>Inr\<close> the stream opened, if any, and the state.
\<close>

definition open_stream ::
  "('o, 's) fs_os \<Rightarrow> 'o \<Rightarrow> char list \<Rightarrow> int \<Rightarrow> bool \<Rightarrow> bool \<Rightarrow> int + 's option \<times> 'o" where
  "open_stream os o1 path flags fail_if_file_exists create_file =
     (if fail_if_file_exists then
        if os_exists os o1 path \<and> os_is_regular_file os o1 path
        then Inl (guac_rdp_fs_get_errorcode (os_errno os o1))
        else Inr (None, o1)
      else if os_exists os o1 path \<and> \<not> os_is_directory os o1 path then
        (case os_open os o1 path flags of (s, o2) \<Rightarrow> Inr (Some s, o2))
      else if create_file then
        (case os_open os (os_create os o1 path) path flags of (s, o2) \<Rightarrow> Inr (Some s, o2))
      else Inr (None, o1))"

text \<open>
  \<open>guac_rdp_fs_open\<close> from the point where a file id is taken. An id outside the table is a store
  past its end.
\<close>

definition open_with_id ::
  "('o, 's) fs_os \<Rightarrow> ('o, 's) guac_rdp_fs \<Rightarrow> char list \<Rightarrow> char list \<Rightarrow> int \<Rightarrow> bool \<Rightarrow> bool \<Rightarrow> bool \<Rightarrow>
   (int \<times> ('o, 's) guac_rdp_fs) option" where
  "open_with_id os fs normalized path flags is_dir fail_if_file_exists create_file =
     (case guac_pool_next_int (file_id_pool fs) of None \<Rightarrow> None
      | Some (file_id, pool) \<Rightarrow>
          let k = nat file_id in
          if file_id < 0 \<or> length (fs_files fs) \<le> k then None
          else
            let file = (fs_files fs ! k)\<lparr>ff_id := file_id\<rparr>;
                fs = fs\<lparr>file_id_pool := pool, fs_files := (fs_files fs)[k := file]\<rparr> in
            case (if is_dir then Inr (file_stream file, fs_os_state fs)
                  else map_sum id (\<lambda>(s, o2). (case s of None \<Rightarrow> file_stream file | Some s \<Rightarrow> Some s, o2))
                    (open_stream os (fs_os_state fs) path flags fail_if_file_exists create_file)) of
              Inl err \<Rightarrow> Some (err, fs)
            | Inr (stream, o2) \<Rightarrow>
                let file = file_info os o2 path
                      (file\<lparr>file_stream := stream, dir_pattern := [], absolute_path := Some normalized,
                            real_path := Some path, bytes_written := 0\<rparr>) in
                Some (file_id, fs\<lparr>fs_files := (fs_files fs)[k := file], fs_os_state := o2,
                                  open_files := open_files fs + 1\<rparr>))"

definition guac_rdp_fs_open ::
  "('o, 's) fs_os \<Rightarrow> char list \<Rightarrow> ('o, 's) guac_rdp_fs \<Rightarrow> char list \<Rightarrow> u32 \<Rightarrow> int \<Rightarrow> u32 \<Rightarrow>
   (int \<times> ('o, 's) guac_rdp_fs) option" where
  "guac_rdp_fs_open os junk fs path acc create_disposition create_options =
     (if open_files fs \<ge> GUAC_RDP_FS_MAX_FILES then Some (GUAC_RDP_FS_ENFILE, fs)
      else if path \<noteq> [] \<and> \<not> is_separator (hd path) then Some (GUAC_RDP_FS_ENOENT, fs)
      else
        let path = (if path = [] then [CHR 0x5C] else path);
            flags = access_flags acc;
            is_dir = (create_options AND 1 \<noteq> 0) in
        case guac_rdp_fs_normalize_path junk path of None \<Rightarrow> None
        | Some None \<Rightarrow> Some (GUAC_RDP_FS_ENOENT, fs)
        | Some (Some normalized) \<Rightarrow>
            let real = guac_rdp_fs_translate_path (drive_path fs) normalized in
            (case disposition create_disposition flags of None \<Rightarrow> Some (GUAC_RDP_FS_ENOSYS, fs)
             | Some (fail_if_file_exists, create_file, flags) \<Rightarrow>
                 let fs = (if create_disposition = 0
                           then fs\<lparr>fs_os_state := os_remove os (fs_os_state fs) real\<rparr> else fs) in
                 if is_dir \<and> flags AND O_CREAT \<noteq> 0 then
                   (case os_create_directories os (fs_os_state fs) real of (created, err, o2) \<Rightarrow>
                      let fs = fs\<lparr>fs_os_state := if created \<and> \<not> err then os_permissions os o2 real else o2\<rparr> in
                      if created \<and> err then Some (guac_rdp_fs_get_errorcode (os_errno os o2), fs)
                      else open_with_id os fs normalized real flags is_dir fail_if_file_exists create_file)
                 else open_with_id os fs normalized real flags is_dir fail_if_file_exists create_file))"

section \<open>Operations on open files\<close>

text \<open>Is there a stream, and is it open?\<close>

definition open_file_stream :: "('o, 's) fs_os \<Rightarrow> 'o \<Rightarrow> 's guac_rdp_fs_file \<Rightarrow> 's option" where
  "open_file_stream os o1 file =
     (case file_stream file of None \<Rightarrow> None | Some s \<Rightarrow> if os_is_open os o1 s then Some s else None)"

text \<open>
  \<open>guac_rdp_fs_read\<close>: the result, the bytes stored in the buffer, and the drive. The count is never
  negative, so the translation of \<open>errno\<close> is not reached.
\<close>

definition guac_rdp_fs_read ::
  "('o, 's) fs_os \<Rightarrow> ('o, 's) guac_rdp_fs \<Rightarrow> int \<Rightarrow> int \<Rightarrow> int \<Rightarrow> int \<times> u8 list \<times> ('o, 's) guac_rdp_fs" where
  "guac_rdp_fs_read os fs file_id offset len =
     (case guac_rdp_fs_get_file file_id of None \<Rightarrow> (GUAC_RDP_FS_EINVAL, [], fs)
      | Some k \<Rightarrow>
          (case open_file_stream os (fs_os_state fs) (fs_files fs ! k) of None \<Rightarrow> (0, [], fs)
           | Some s \<Rightarrow>
               case os_read os (fs_os_state fs) s offset len of (buffer, o1) \<Rightarrow>
                 (int (length buffer), buffer, fs\<lparr>fs_os_state := o1\<rparr>)))"

text \<open>\<open>guac_rdp_fs_write\<close>; \<open>uninitialised\<close> is what the local variable \<open>bytes_written\<close> holds before.\<close>

definition guac_rdp_fs_write ::
  "('o, 's) fs_os \<Rightarrow> int \<Rightarrow> ('o, 's) guac_rdp_fs \<Rightarrow> int \<Rightarrow> int \<Rightarrow> u8 list \<Rightarrow> int \<times> ('o, 's) guac_rdp_fs" where
  "guac_rdp_fs_write os uninitialised fs file_id offset buffer =
     (case guac_rdp_fs_get_file file_id of None \<Rightarrow> (GUAC_RDP_FS_EINVAL, fs)
      | Some k \<Rightarrow>
          let file = fs_files fs ! k;
              (written, o1) =
                (case open_file_stream os (fs_os_state fs) file of
                   None \<Rightarrow> (uninitialised, fs_os_state fs)
                 | Some s \<Rightarrow> (int (length buffer), os_write os (fs_os_state fs) s offset buffer)) in
          if written < 0 then (guac_rdp_fs_get_errorcode (os_errno os o1), fs\<lparr>fs_os_state := o1\<rparr>)
          else (written, fs\<lparr>fs_os_state := o1,
                  fs_files := (fs_files fs)[k := file\<lparr>bytes_written := bytes_written file + written\<rparr>]\<rparr>))"

text \<open>\<open>guac_rdp_fs_rename\<close>. A file whose path is null is passed to the system as a null string.\<close>

definition guac_rdp_fs_rename ::
  "('o, 's) fs_os \<Rightarrow> char list \<Rightarrow> ('o, 's) guac_rdp_fs \<Rightarrow> int \<Rightarrow> char list \<Rightarrow>
   (int \<times> ('o, 's) guac_rdp_fs) option" where
  "guac_rdp_fs_rename os junk fs file_id new_path =
     (case guac_rdp_fs_get_file file_id of None \<Rightarrow> Some (GUAC_RDP_FS_EINVAL, fs)
      | Some k \<Rightarrow>
          case guac_rdp_fs_normalize_path junk new_path of None \<Rightarrow> None
          | Some None \<Rightarrow> Some (GUAC_RDP_FS_ENOENT, fs)
          | Some (Some normalized) \<Rightarrow>
              let real = guac_rdp_fs_translate_path (drive_path fs) normalized in
              case real_path (fs_files fs ! k) of None \<Rightarrow> None
              | Some old \<Rightarrow>
                  case os_rename os (fs_os_state fs) old real of (failed, o1) \<Rightarrow>
                    Some (if failed then guac_rdp_fs_get_errorcode (os_errno os o1) else 0,
                          fs\<lparr>fs_os_state := o1\<rparr>))"

text \<open>\<open>guac_rdp_fs_close\<close>. That the id is open is not checked.\<close>

definition guac_rdp_fs_close ::
  "('o, 's) fs_os \<Rightarrow> ('o, 's) guac_rdp_fs \<Rightarrow> int \<Rightarrow> ('o, 's) guac_rdp_fs option" where
  "guac_rdp_fs_close os fs file_id =
     (case guac_rdp_fs_get_file file_id of None \<Rightarrow> Some fs
      | Some k \<Rightarrow>
          let file = fs_files fs ! k;
              (stream, o1) =
                (case open_file_stream os (fs_os_state fs) file of
                   None \<Rightarrow> (file_stream file, fs_os_state fs)
                 | Some s \<Rightarrow> (None, os_close os (fs_os_state fs) s));
              file = file\<lparr>file_stream := stream, dir_iter := None, absolute_path := None, real_path := None\<rparr> in
          map_option (\<lambda>pool. fs\<lparr>fs_files := (fs_files fs)[k := file], fs_os_state := o1,
                               file_id_pool := pool, open_files := open_files fs - 1\<rparr>)
            (guac_pool_free_int (file_id_pool fs) file_id))"

text \<open>The loop of \<open>guac_rdp_fs_delete\<close> over the other files: those of the same real path are closed.\<close>

fun close_others ::
  "('o, 's) fs_os \<Rightarrow> int \<Rightarrow> char list \<Rightarrow> nat list \<Rightarrow> ('o, 's) guac_rdp_fs \<Rightarrow> ('o, 's) guac_rdp_fs option" where
  "close_others os file_id path [] fs = Some fs"
| "close_others os file_id path (i # is) fs =
     (if int i \<noteq> file_id \<and> real_path (fs_files fs ! i) = Some path
      then (case guac_rdp_fs_close os fs (int i) of None \<Rightarrow> None
            | Some fs \<Rightarrow> close_others os file_id path is fs)
      else close_others os file_id path is fs)"

definition guac_rdp_fs_delete ::
  "('o, 's) fs_os \<Rightarrow> ('o, 's) guac_rdp_fs \<Rightarrow> int \<Rightarrow> (int \<times> ('o, 's) guac_rdp_fs) option" where
  "guac_rdp_fs_delete os fs file_id =
     (case guac_rdp_fs_get_file file_id of None \<Rightarrow> Some (GUAC_RDP_FS_EINVAL, fs)
      | Some k \<Rightarrow>
          let file = fs_files fs ! k;
              o1 = (case file_stream file of None \<Rightarrow> fs_os_state fs
                    | Some s \<Rightarrow> os_close os (fs_os_state fs) s) in
          case real_path file of None \<Rightarrow> None
          | Some path \<Rightarrow>
              map_option (Pair 0)
                (close_others os file_id path [0..<nat GUAC_RDP_FS_MAX_FILES]
                   (fs\<lparr>fs_os_state := os_remove os o1 path\<rparr>)))"

text \<open>\<open>guac_rdp_fs_truncate\<close>: \<open>length\<close> is not used, the file is cut to nothing.\<close>

definition guac_rdp_fs_truncate ::
  "('o, 's) fs_os \<Rightarrow> ('o, 's) guac_rdp_fs \<Rightarrow> int \<Rightarrow> int \<Rightarrow> (int \<times> ('o, 's) guac_rdp_fs) option" where
  "guac_rdp_fs_truncate os fs file_id len =
     (case guac_rdp_fs_get_file file_id of None \<Rightarrow> Some (GUAC_RDP_FS_EINVAL, fs)
      | Some k \<Rightarrow>
          let file = fs_files fs ! k in
          case open_file_stream os (fs_os_state fs) file of None \<Rightarrow> Some (0, fs)
          | Some s \<Rightarrow>
              case real_path file of None \<Rightarrow> None
              | Some path \<Rightarrow>
                  case os_resize os (fs_os_state fs) path 0 of (failed, o1) \<Rightarrow>
                    Some (if failed
                          then (guac_rdp_fs_get_errorcode (os_errno os o1), fs\<lparr>fs_os_state := o1\<rparr>)
                          else (0, fs\<lparr>fs_os_state := os_seek_start os o1 s\<rparr>)))"

text \<open>
  \<open>guac_rdp_fs_read_dir\<close>: \<open>Some None\<close> is the null result; \<open>None\<close> is a null path, or the exception of
  the iterator for a path that cannot be listed.
\<close>

definition guac_rdp_fs_read_dir ::
  "('o, 's) fs_os \<Rightarrow> ('o, 's) guac_rdp_fs \<Rightarrow> int \<Rightarrow> (char list option \<times> ('o, 's) guac_rdp_fs) option" where
  "guac_rdp_fs_read_dir os fs file_id =
     (if file_id < 0 \<or> file_id \<ge> GUAC_RDP_FS_MAX_FILES then Some (None, fs)
      else
        let k = nat file_id; file = fs_files fs ! k;
            entries = (case dir_iter file of Some entries \<Rightarrow> Some entries
                       | None \<Rightarrow> Option.bind (real_path file) (os_list os (fs_os_state fs))) in
        case entries of None \<Rightarrow> None
        | Some [] \<Rightarrow> Some (None, fs\<lparr>fs_files := (fs_files fs)[k := file\<lparr>dir_iter := Some []\<rparr>]\<rparr>)
        | Some (e # es) \<Rightarrow> Some (Some e, fs\<lparr>fs_files := (fs_files fs)[k := file\<lparr>dir_iter := Some es\<rparr>]\<rparr>))"

record guac_rdp_fs_info =
  blocks_available :: int
  blocks_total :: int
  block_size :: int

text \<open>\<open>guac_rdp_fs_get_info\<close>: the products are 32 bit and unsigned, the fields 32 bit and signed.\<close>

definition guac_rdp_fs_get_info ::
  "('o, 's) fs_os \<Rightarrow> ('o, 's) guac_rdp_fs \<Rightarrow> guac_rdp_fs_info \<Rightarrow> int \<times> guac_rdp_fs_info" where
  "guac_rdp_fs_get_info os fs info =
     (case os_free_space os (fs_os_state fs) (drive_path fs) of
        None \<Rightarrow> (guac_rdp_fs_get_errorcode (os_errno os (fs_os_state fs)), info)
      | Some (sectorsPerCluster, bytesPerSector, numberOfFreeSectors, totalNumberOfClusters) \<Rightarrow>
          let size = bytesPerSector * sectorsPerCluster in
          (0, \<lparr>blocks_available = sint (numberOfFreeSectors * size),
               blocks_total = sint (totalNumberOfClusters * size), block_size = sint size\<rparr>))"

text \<open>\<open>guac_rdp_fs_matches\<close>: zero, that is false, when the system's matcher succeeds.\<close>

definition guac_rdp_fs_matches :: "(char list \<Rightarrow> char list \<Rightarrow> bool) \<Rightarrow> char list \<Rightarrow> char list \<Rightarrow> bool" where
  "guac_rdp_fs_matches path_match filename pattern \<longleftrightarrow> \<not> path_match filename pattern"

definition guac_rdp_fs_free :: "('o, 's) guac_rdp_fs \<Rightarrow> (nat \<Rightarrow> guac_pool_int option) option" where
  "guac_rdp_fs_free fs = guac_pool_free (file_id_pool fs)"

section \<open>The table\<close>

text \<open>
  The files that are open: those with a real path. \<open>leaked\<close> is the set of ids that are taken from
  the pool and that no open file has.
\<close>

definition open_ids :: "('o, 's) guac_rdp_fs \<Rightarrow> int set" where
  "open_ids fs = {int k | k. k < length (fs_files fs) \<and> real_path (fs_files fs ! k) \<noteq> None}"

definition fs_ok :: "('o, 's) guac_rdp_fs \<Rightarrow> int set \<Rightarrow> bool" where
  "fs_ok fs leaked \<longleftrightarrow>
     length (fs_files fs) = 128 \<and> bounded_live (file_id_pool fs) (open_ids fs \<union> leaked)
     \<and> open_ids fs \<inter> leaked = {} \<and> p_next_value (file_id_pool fs) \<le> 128
     \<and> open_files fs = int (card (open_ids fs))"

lemma open_ids_finite [simp]: "finite (open_ids fs)"
  unfolding open_ids_def by (rule finite_subset [of _ "int ` {..<length (fs_files fs)}"]) auto

lemma open_ids_iff: "int k \<in> open_ids fs \<longleftrightarrow> k < length (fs_files fs) \<and> real_path (fs_files fs ! k) \<noteq> None"
  by (auto simp: open_ids_def)

lemma open_ids_cong: "fs_files fs' = fs_files fs \<Longrightarrow> open_ids fs' = open_ids fs"
  by (simp add: open_ids_def)

lemma open_ids_update:
  assumes "fs_files fs' = (fs_files fs)[k := f]" and "k < length (fs_files fs)"
  shows "open_ids fs' = (if real_path f = None then open_ids fs - {int k} else insert (int k) (open_ids fs))"
  using assms by (auto simp: open_ids_def nth_list_update)

lemma fs_ok_alloc: "length files = 128 \<Longrightarrow> fs_ok (guac_rdp_fs_alloc os o1 path c files) {}"
proof -
  have e: "open_ids (guac_rdp_fs_alloc os o1 path c files) = {}"
    by (auto simp: guac_rdp_fs_alloc_def open_ids_def)
  then show "length files = 128 \<Longrightarrow> ?thesis"
    using bounded_live_alloc e
    by (simp add: fs_ok_def guac_rdp_fs_alloc_def) (simp add: guac_pool_alloc_def)
qed

lemma fs_ok_cong:
  "fs_files fs' = fs_files fs \<Longrightarrow> file_id_pool fs' = file_id_pool fs \<Longrightarrow> open_files fs' = open_files fs \<Longrightarrow>
     fs_ok fs' L = fs_ok fs L"
  using open_ids_cong [of fs' fs] by (simp add: fs_ok_def)

text \<open>Ids in the pool: a fresh one while some are left, one past the table when none is.\<close>

lemma fs_taken_below:
  assumes "fs_ok fs L" shows "open_ids fs \<union> L \<subseteq> {0..<128}" "finite L"
    "p_active (file_id_pool fs) = int (card (open_ids fs \<union> L))"
proof -
  have l: "bounded_live (file_id_pool fs) (open_ids fs \<union> L)" "p_next_value (file_id_pool fs) \<le> 128"
    using assms by (simp_all add: fs_ok_def)
  show "open_ids fs \<union> L \<subseteq> {0..<128}" using gb.live_below [OF l(1)] l(2) by fastforce
  then show "finite L" using finite_subset by blast
  show "p_active (file_id_pool fs) = int (card (open_ids fs \<union> L))" using gb.count_live [OF l(1)] by simp
qed

lemma fs_next_id:
  assumes "fs_ok fs L"
  obtains (fresh) v pool where "guac_pool_next_int (file_id_pool fs) = Some (int v, pool)" "v < 128"
      "int v \<notin> open_ids fs \<union> L" "bounded_live pool (insert (int v) (open_ids fs \<union> L))"
      "p_next_value pool \<le> 128" "card (open_ids fs \<union> L) < 128"
  | (beyond) v pool where "guac_pool_next_int (file_id_pool fs) = Some (v, pool)" "128 \<le> v"
      "open_ids fs \<union> L = {0..<128}"
proof -
  let ?U = "open_ids fs \<union> L" and ?p = "file_id_pool fs"
  have l: "bounded_live ?p ?U" "p_next_value ?p \<le> 128" using assms by (simp_all add: fs_ok_def)
  obtain w pool where w: "guac_pool_next_int ?p = Some (w, pool)" using gb.next_returns [OF l(1)] by blast
  have le: "card ?U \<le> 128" using card_mono [OF _ fs_taken_below(1) [OF assms]] by simp
  show ?thesis
  proof (cases "card ?U = 128")
    case True
    then have all: "?U = {0..<128}"
      using fs_taken_below(1) [OF assms] by (intro card_subset_eq) simp_all
    have "0 \<le> w" "w \<notin> ?U" using gb.next_live [OF l(1) w] by auto
    then have "128 \<le> w" unfolding all by simp
    with beyond [OF w _ all] show ?thesis .
  next
    case False
    then have "p_active ?p \<noteq> 128" using fs_taken_below(3) [OF assms] by simp
    from gb.guarded_next [OF l this w] fresh [of "nat w" pool] w False le show ?thesis by auto
  qed
qed

lemma file_info_fields [simp]:
  "real_path (file_info os o1 p f) = real_path f" "ff_id (file_info os o1 p f) = ff_id f"
  "absolute_path (file_info os o1 p f) = absolute_path f"
  by (simp_all add: file_info_def split: prod.split)

lemma errorcode_negative: "guac_rdp_fs_get_errorcode e < 0"
  by (cases e) (simp_all add: fs_codes)

lemma open_stream_error:
  "open_stream os o1 p fl fails c = Inl e \<Longrightarrow>
     fails \<and> os_exists os o1 p \<and> os_is_regular_file os o1 p \<and> e = guac_rdp_fs_get_errorcode (os_errno os o1)"
  by (auto simp: open_stream_def split: if_splits prod.splits)

text \<open>Taking an id and opening: a new open file, or a leaked id, or a store past the table.\<close>

lemma open_with_id_cases:
  assumes "fs_ok fs L"
  obtains (full) "open_with_id os fs n p fl d fails c = None" "open_ids fs \<union> L = {0..<128}"
  | (leak) v fs' where "open_with_id os fs n p fl d fails c
        = Some (guac_rdp_fs_get_errorcode (os_errno os (fs_os_state fs)), fs')"
      "fails" "\<not> d" "os_exists os (fs_os_state fs) p" "os_is_regular_file os (fs_os_state fs) p"
      "int v \<notin> open_ids fs \<union> L" "v < 128" "fs_ok fs' (insert (int v) L)"
      "fs_os_state fs' = fs_os_state fs" "drive_path fs' = drive_path fs"
      "map real_path (fs_files fs') = map real_path (fs_files fs)" "open_files fs' = open_files fs"
  | (opened) v fs' where "open_with_id os fs n p fl d fails c = Some (int v, fs')" "v < 128"
      "\<not> (fails \<and> \<not> d \<and> os_exists os (fs_os_state fs) p \<and> os_is_regular_file os (fs_os_state fs) p)"
      "int v \<notin> open_ids fs \<union> L" "fs_ok fs' L" "open_ids fs' = insert (int v) (open_ids fs)"
      "real_path (fs_files fs' ! v) = Some p" "absolute_path (fs_files fs' ! v) = Some n"
      "ff_id (fs_files fs' ! v) = int v"
      "\<forall>j. j \<noteq> v \<longrightarrow> fs_files fs' ! j = fs_files fs ! j"
  using assms
proof (cases rule: fs_next_id)
  case (beyond w pool)
  have len: "length (fs_files fs) = 128" using assms by (simp add: fs_ok_def)
  have "open_with_id os fs n p fl d fails c = None"
    using beyond len le_nat_iff [of w 128] by (simp add: open_with_id_def Let_def)
  with full beyond(3) show ?thesis by blast
next
  case (fresh v pool)
  have ok: "length (fs_files fs) = 128" "open_ids fs \<inter> L = {}" "open_files fs = int (card (open_ids fs))"
    using assms by (simp_all add: fs_ok_def)
  have nv: "int v \<notin> open_ids fs" "int v \<notin> L" using fresh(3) by simp_all
  then have rp: "real_path (fs_files fs ! v) = None" using fresh(2) ok(1) by (simp add: open_ids_iff)
  let ?file = "(fs_files fs ! v)\<lparr>ff_id := int v\<rparr>"
  let ?fs = "fs\<lparr>file_id_pool := pool, fs_files := (fs_files fs)[v := ?file]\<rparr>"
  have oi: "open_ids ?fs = open_ids fs"
    using open_ids_update [of ?fs fs v ?file] fresh(2) ok(1) rp nv by simp
  show ?thesis
  proof (cases "\<not> d \<and> isl (open_stream os (fs_os_state fs) p fl fails c)")
    case True
    then obtain e where e: "\<not> d" "open_stream os (fs_os_state fs) p fl fails c = Inl e"
      by (auto simp: isl_def)
    note err = open_stream_error [OF e(2)]
    have "open_with_id os fs n p fl d fails c = Some (guac_rdp_fs_get_errorcode (os_errno os (fs_os_state fs)), ?fs)"
      using fresh e err ok(1) by (simp add: open_with_id_def)
    moreover have "fs_ok ?fs (insert (int v) L)"
      using fresh oi ok nv by (simp add: fs_ok_def)
    moreover have "map real_path (fs_files ?fs) = map real_path (fs_files fs)"
      using fresh(2) ok(1) by (simp add: map_update list_update_same_conv)
    ultimately show ?thesis using leak err e fresh by simp
  next
    case False
    then obtain stream o2 where s: "(if d then Inr (file_stream ?file, fs_os_state ?fs)
          else map_sum id (\<lambda>(s, o2). (case s of None \<Rightarrow> file_stream ?file | Some s \<Rightarrow> Some s, o2))
             (open_stream os (fs_os_state ?fs) p fl fails c)) = Inr (stream, o2)"
      by (cases d; cases "open_stream os (fs_os_state fs) p fl fails c") auto
    let ?file' = "file_info os o2 p (?file\<lparr>file_stream := stream, dir_pattern := [],
        absolute_path := Some n, real_path := Some p, bytes_written := 0\<rparr>)"
    let ?fs' = "?fs\<lparr>fs_files := (fs_files ?fs)[v := ?file'], fs_os_state := o2,
        open_files := open_files ?fs + 1\<rparr>"
    have "open_with_id os fs n p fl d fails c = Some (int v, ?fs')"
      using fresh s ok(1) by (simp add: open_with_id_def)
    moreover have oi': "open_ids ?fs' = insert (int v) (open_ids fs)"
      using open_ids_update [of ?fs' ?fs v ?file'] oi fresh(2) ok(1) by simp
    moreover have "fs_ok ?fs' L"
      using fresh oi' ok nv by (simp add: fs_ok_def)
    moreover have "\<not> (fails \<and> \<not> d \<and> os_exists os (fs_os_state fs) p \<and> os_is_regular_file os (fs_os_state fs) p)"
      using False by (auto simp: open_stream_def split: if_splits)
    ultimately show ?thesis using opened [of v ?fs'] fresh(2,3) ok(1) by simp
  qed
qed

section \<open>Properties\<close>

lemma normalize_confined:
  assumes "NUL \<notin> set path" and "length path \<le> 4095" and "path \<noteq> []" and "is_separator (hd path)"
    and "length (filter named (path_parts [] (tl path))) \<le> 64"
    and "length junk = 4096" and "length drive + length path \<le> 4095"
  obtains comps where "guac_rdp_fs_normalize_path junk path = Some (Some (path_text comps))"
    "list_all proper comps" "guac_rdp_fs_translate_path drive (path_text comps)
       = drive @ (if comps = [] then ''/'' else concat (map (Cons CHR ''/'') comps))"
proof -
  obtain c cs where path: "path = c # cs" using assms(3) by (cases path) auto
  define comps where "comps = resolve [] (path_parts [] cs)"
  have proper: "\<forall>p \<in> set comps. proper p"
    using resolve_proper [of "[]" "path_parts [] cs"] path_parts_clean [of "[]" cs]
    unfolding comps_def by simp
  have n: "guac_rdp_fs_normalize_path junk path = Some (Some (path_text comps))"
    using normalize_path_ok [of cs junk c] assms path by (simp add: comps_def path_text_def)
  have "length (path_text comps) \<le> length path"
    using resolve_join_length [of "[]" "path_parts [] cs"] path_parts_length [of "[]" cs] path
    by (auto simp: path_text_def comps_def join_components_def)
  then have "guac_rdp_fs_translate_path drive (path_text comps)
       = drive @ (if comps = [] then ''/'' else concat (map (Cons CHR ''/'') comps))"
    using translate_text [OF proper] assms(7) by simp
  with that n proper show ?thesis by (simp add: list_all_iff)
qed

text \<open>What a call of \<open>guac_rdp_fs_open\<close> may do to the table.\<close>

definition inside :: "char list \<Rightarrow> char list \<Rightarrow> char list \<Rightarrow> bool" where
  "inside drive virtual real \<longleftrightarrow>
     (\<exists>comps. list_all proper comps \<and> virtual = path_text comps
        \<and> real = drive @ (if comps = [] then ''/'' else concat (map (Cons CHR ''/'') comps)))"

definition open_outcome ::
  "int set \<Rightarrow> int \<Rightarrow> ('o, 's) guac_rdp_fs \<Rightarrow> (int \<times> ('o, 's) guac_rdp_fs) option \<Rightarrow> bool" where
  "open_outcome leaked create_disposition fs result =
     (case result of
        None \<Rightarrow> open_ids fs \<union> leaked = {0..<128}
      | Some (r, fs') \<Rightarrow>
          if r < 0
          then map real_path (fs_files fs') = map real_path (fs_files fs) \<and>
               (fs_ok fs' leaked
                \<or> create_disposition = 2 \<and> (\<exists>v. v \<notin> open_ids fs \<union> leaked \<and> fs_ok fs' (insert v leaked)))
          else r < 128 \<and> r \<notin> open_ids fs \<union> leaked \<and> fs_ok fs' leaked
             \<and> open_ids fs' = insert r (open_ids fs)
             \<and> (\<forall>j. j \<noteq> nat r \<longrightarrow> fs_files fs' ! j = fs_files fs ! j)
             \<and> (\<exists>virtual real. absolute_path (fs_files fs' ! nat r) = Some virtual
                  \<and> real_path (fs_files fs' ! nat r) = Some real \<and> inside (drive_path fs) virtual real))"

lemma open_with_id_outcome:
  assumes "fs_ok fs1 L" and "fs_files fs1 = fs_files fs" and "drive_path fs1 = drive_path fs"
    and "inside (drive_path fs) n p" and "fails \<Longrightarrow> disp = 2"
  shows "open_outcome L disp fs (open_with_id os fs1 n p fl d fails c)"
proof -
  have oi: "open_ids fs1 = open_ids fs" using assms(2) by (rule open_ids_cong)
  show ?thesis using assms(1)
  proof (cases rule: open_with_id_cases [where os = os and n = n and p = p and fl = fl and d = d and fails = fails and c = c])
    case full
    then show ?thesis using oi by (simp add: open_outcome_def)
  next
    case (leak v fs')
    then show ?thesis using oi assms(2,5) errorcode_negative
      by (auto simp: open_outcome_def)
  next
    case (opened v fs')
    then show ?thesis using oi assms(2-4) by (auto simp: open_outcome_def)
  qed
qed


text \<open>A system on which every path is a regular file, for the examples.\<close>

definition sample_os :: "(unit, unit) fs_os" where
  "sample_os = \<lparr>os_errno = \<lambda>_. EEXIST, os_create_directories = \<lambda>_ _. (False, False, ()),
     os_permissions = \<lambda>_ _. (), os_remove = \<lambda>_ _. (), os_exists = \<lambda>_ _. True,
     os_is_regular_file = \<lambda>_ _. True, os_is_directory = \<lambda>_ _. False, os_create = \<lambda>_ _. (),
     os_open = \<lambda>_ _ _. ((), ()), os_is_open = \<lambda>_ _. True, os_read = \<lambda>_ _ _ _. ([], ()),
     os_write = \<lambda>_ _ _ _. (), os_seek_start = \<lambda>_ _. (), os_close = \<lambda>_ _. (),
     os_rename = \<lambda>_ _ _. (False, ()), os_resize = \<lambda>_ _ _. (False, ()),
     os_find_first_file = \<lambda>_ _. (0, 0, 0, 0), os_tree_size = \<lambda>_ _. 0, os_file_size = \<lambda>_ _. None,
     os_list = \<lambda>_ _. None, os_free_space = \<lambda>_ _. None\<rparr>"

definition blank_file :: "'s guac_rdp_fs_file" where
  "blank_file = \<lparr>ff_id = 0, absolute_path = None, real_path = None, file_stream = None, dir_iter = None,
     dir_pattern = [], ff_attributes = 0, ff_size = 0, ff_ctime = 0, ff_mtime = 0, ff_atime = 0,
     bytes_written = 0\<rparr>"

definition sample_fs :: "(unit, unit) guac_rdp_fs" where
  "sample_fs = guac_rdp_fs_alloc sample_os () ''/drive'' False (replicate 128 blank_file)"

lemma sample_fs_ok: "fs_ok sample_fs {}"
  by (simp add: sample_fs_def fs_ok_alloc)

lemma sample_fs_fields [simp]:
  "drive_path sample_fs = ''/drive''" "open_files sample_fs = 0" "open_ids sample_fs = {}"
  by (auto simp: sample_fs_def guac_rdp_fs_alloc_def open_ids_def)


text \<open>\<open>n\<close> calls of \<open>guac_rdp_fs_open\<close> that ask for a new file.\<close>

primrec create_times ::
  "('o, 's) fs_os \<Rightarrow> char list \<Rightarrow> char list \<Rightarrow> u32 \<Rightarrow> nat \<Rightarrow> ('o, 's) guac_rdp_fs \<Rightarrow>
   (int list \<times> ('o, 's) guac_rdp_fs) option" where
  "create_times os junk path acc 0 fs = Some ([], fs)"
| "create_times os junk path acc (Suc n) fs =
     (case guac_rdp_fs_open os junk fs path acc 2 0 of None \<Rightarrow> None
      | Some (r, fs) \<Rightarrow> map_option (map_prod (Cons r) id) (create_times os junk path acc n fs))"

lemma open_absolute:
  assumes "open_files fs < 128" and "path \<noteq> []" and "is_separator (hd path)"
    and "guac_rdp_fs_normalize_path junk path = Some (Some v)" and "disp = 1 \<or> disp = 2"
  shows "guac_rdp_fs_open os junk fs path acc disp opts
     = open_with_id os fs v (guac_rdp_fs_translate_path (drive_path fs) v) (access_flags acc)
         (opts AND 1 \<noteq> 0) (disp = 2) True"
proof -
  have flags: "access_flags acc AND O_CREAT = 0"
    by (simp add: access_flags_def ios_in_def ios_out_def O_CREAT_def Let_def)
  have nf: "\<not> GUAC_RDP_FS_MAX_FILES \<le> open_files fs" "\<not> (path \<noteq> [] \<and> \<not> is_separator (hd path))" "path \<noteq> []"
    using assms(1-3) by (simp_all add: GUAC_RDP_FS_MAX_FILES_def)
  show ?thesis
    unfolding guac_rdp_fs_open_def Let_def if_not_P [OF nf(1)] if_not_P [OF nf(2)] if_not_P [OF nf(3)]
    using assms(4,5) flags by (auto simp: disposition_def)
qed

lemma create_times_leak:
  fixes fs :: "('o, 's) guac_rdp_fs"
  assumes "path \<noteq> []" and "is_separator (hd path)" and "guac_rdp_fs_normalize_path junk path = Some (Some v)"
    and "os_exists os o1 (guac_rdp_fs_translate_path d v)" and "os_is_regular_file os o1 (guac_rdp_fs_translate_path d v)"
    and "fs_ok fs L" and "fs_os_state fs = o1" and "drive_path fs = d"
    and "card (open_ids fs \<union> L) + n \<le> 128" and "open_files fs < 128"
  shows "\<exists>fs' L'. create_times os junk path acc n fs
       = Some (replicate n (guac_rdp_fs_get_errorcode (os_errno os o1)), fs') \<and> fs_ok fs' L'
     \<and> card (open_ids fs' \<union> L') = card (open_ids fs \<union> L) + n \<and> open_files fs' = open_files fs
     \<and> open_ids fs' = open_ids fs \<and> drive_path fs' = d \<and> fs_os_state fs' = o1"
  using assms(6-10)
proof (induction n arbitrary: fs L)
  case 0
  then show ?case by auto
next
  case (Suc n)
  let ?r = "guac_rdp_fs_translate_path d v" and ?e = "guac_rdp_fs_get_errorcode (os_errno os o1)"
  have o: "guac_rdp_fs_open os junk fs path acc 2 0 = open_with_id os fs v ?r (access_flags acc) False True True"
    using open_absolute [OF Suc.prems(5) assms(1-3), of 2] Suc.prems(3) by simp
  have notall: "open_ids fs \<union> L \<noteq> {0..<128}" using Suc.prems(4) by force
  show ?case using Suc.prems(1)
  proof (cases rule: open_with_id_cases [where os = os and n = v and p = ?r and fl = "access_flags acc"
        and d = False and fails = True and c = True])
    case full
    with notall show ?thesis by blast
  next
    case (opened w fs')
    with assms(4,5) Suc.prems(2) show ?thesis by simp
  next
    case (leak w fs1)
    have l1: "length (fs_files fs1) = length (fs_files fs)" using leak(11) by (metis length_map)
    have "real_path (fs_files fs1 ! k) = real_path (fs_files fs ! k)" if "k < length (fs_files fs)" for k
      using leak(11) that l1 by (metis nth_map)
    then have oi: "open_ids fs1 = open_ids fs" using l1 by (auto simp: open_ids_def)
    have "finite (open_ids fs \<union> L)" using fs_taken_below(2) [OF Suc.prems(1)] by simp
    then have card: "card (open_ids fs1 \<union> insert (int w) L) = Suc (card (open_ids fs \<union> L))"
      using leak(6) oi by simp
    obtain fs' L' where "create_times os junk path acc n fs1 = Some (replicate n ?e, fs')"
      "fs_ok fs' L'" "card (open_ids fs' \<union> L') = card (open_ids fs \<union> L) + Suc n"
      "open_files fs' = open_files fs" "open_ids fs' = open_ids fs" "drive_path fs' = d" "fs_os_state fs' = o1"
      using Suc.IH [OF leak(8)] leak Suc.prems card oi by auto
    with leak(1) o Suc.prems(2) show ?thesis by auto
  qed
qed

text \<open>
  A create that fails because the file exists leaks its id, and the guard at the start counts open
  files only: after 128 such failures no file is open, and the next open stores past the table.
\<close>

theorem failed_creates_exhaust_table:
  assumes "fs_ok fs {}" and "open_files fs = 0"
    and "path \<noteq> []" and "is_separator (hd path)" and "guac_rdp_fs_normalize_path junk path = Some (Some v)"
    and "os_exists os (fs_os_state fs) (guac_rdp_fs_translate_path (drive_path fs) v)"
    and "os_is_regular_file os (fs_os_state fs) (guac_rdp_fs_translate_path (drive_path fs) v)"
  shows "\<exists>fs'. create_times os junk path acc 128 fs
       = Some (replicate 128 (guac_rdp_fs_get_errorcode (os_errno os (fs_os_state fs))), fs')
     \<and> open_files fs' = 0 \<and> guac_rdp_fs_open os junk fs' path acc 1 opts = None"
proof -
  have none: "open_ids fs = {}"
    using assms(1,2) by (simp add: fs_ok_def)
  obtain fs' L' where fs': "create_times os junk path acc 128 fs
       = Some (replicate 128 (guac_rdp_fs_get_errorcode (os_errno os (fs_os_state fs))), fs')"
    "fs_ok fs' L'" "card (open_ids fs' \<union> L') = 128" "open_files fs' = 0" "open_ids fs' = {}"
    using create_times_leak [OF assms(3-7,1) refl refl, of 128 acc] assms(2) none by auto
  have all: "open_ids fs' \<union> L' = {0..<128}"
    using fs_taken_below(1) [OF fs'(2)] fs'(3) by (intro card_subset_eq) simp_all
  have "guac_rdp_fs_open os junk fs' path acc 1 opts = None"
    using fs'(2)
  proof (cases rule: fs_next_id)
    case (fresh w pool)
    with fs'(3) show ?thesis by simp
  next
    case (beyond w pool)
    have len: "length (fs_files fs') = 128" using fs'(2) by (simp add: fs_ok_def)
    show ?thesis
      using open_absolute [OF _ assms(3-5), of fs' 1] fs'(4) beyond(1,2) len le_nat_iff [of w 128]
      by (simp add: open_with_id_def Let_def)
  qed
  with fs' show ?thesis by blast
qed

theorem failed_creates_exhaust_table_witness:
  "\<exists>fs'. create_times sample_os (replicate 4096 NUL) ''/x'' 1 128 sample_fs = Some (replicate 128 (-7), fs')
     \<and> open_files fs' = 0 \<and> guac_rdp_fs_open sample_os (replicate 4096 NUL) fs' ''/x'' 1 1 0 = None"
proof -
  have p: "path_parts [] ''x'' = [''x'']" by (simp add: is_separator_def)
  have "guac_rdp_fs_normalize_path (replicate 4096 NUL) ''/x'' = Some (Some (path_text [''x'']))"
    using normalize_path_ok [of "''x''" "replicate 4096 NUL" "CHR ''/''"] unfolding p
    by (simp add: is_separator_def named_def path_text_def)
  from failed_creates_exhaust_table [OF sample_fs_ok _ _ _ this, of sample_os 1 0]
  show ?thesis by (simp add: is_separator_def sample_os_def GUAC_RDP_FS_EEXIST_def)
qed

lemma close_open_id:
  assumes "fs_ok fs L" and "int k \<in> open_ids fs"
  obtains fs' where "guac_rdp_fs_close os fs (int k) = Some fs'" "fs_ok fs' L"
    "open_ids fs' = open_ids fs - {int k}" "real_path (fs_files fs' ! k) = None"
    "\<forall>j. j \<noteq> k \<longrightarrow> fs_files fs' ! j = fs_files fs ! j"
proof -
  have ok: "length (fs_files fs) = 128" "open_ids fs \<inter> L = {}" "open_files fs = int (card (open_ids fs))"
    "p_next_value (file_id_pool fs) \<le> 128" and live: "bounded_live (file_id_pool fs) (open_ids fs \<union> L)"
    using assms(1) by (simp_all add: fs_ok_def)
  have k: "k < 128" using assms(2) ok(1) by (simp add: open_ids_iff)
  from gb.free_live [OF live, of "int k"] assms(2) obtain pool where
    p: "guac_pool_free_int (file_id_pool fs) (int k) = Some pool"
      "bounded_live pool (open_ids fs \<union> L - {int k})" by blast
  have m: "p_next_value pool \<le> 128" using gb.mark_free [OF live _ p(1)] assms(2) ok(4) by simp
  obtain stream o1 where s: "(case open_file_stream os (fs_os_state fs) (fs_files fs ! k) of
        None \<Rightarrow> (file_stream (fs_files fs ! k), fs_os_state fs)
      | Some s \<Rightarrow> (None, os_close os (fs_os_state fs) s)) = (stream, o1)" by (rule prod.exhaust)
  let ?f = "(fs_files fs ! k)\<lparr>file_stream := stream, dir_iter := None, absolute_path := None, real_path := None\<rparr>"
  let ?fs = "fs\<lparr>fs_files := (fs_files fs)[k := ?f], fs_os_state := o1, file_id_pool := pool,
      open_files := open_files fs - 1\<rparr>"
  have "guac_rdp_fs_close os fs (int k) = Some ?fs"
    using s p(1) k by (simp add: guac_rdp_fs_close_def guac_rdp_fs_get_file_def GUAC_RDP_FS_MAX_FILES_def Let_def)
  moreover have oi: "open_ids ?fs = open_ids fs - {int k}"
    using open_ids_update [of ?fs fs k ?f] k ok(1) by simp
  moreover have "fs_ok ?fs L"
  proof -
    have "open_ids fs \<union> L - {int k} = (open_ids fs - {int k}) \<union> L" using ok(2) assms(2) by blast
    moreover have "int (card (open_ids fs - {int k})) = int (card (open_ids fs)) - 1"
      using card_Suc_Diff1 [OF open_ids_finite assms(2)] by simp
    ultimately show ?thesis unfolding fs_ok_def oi using p(2) m ok by auto
  qed
  ultimately show ?thesis using that k ok(1) by simp
qed

lemma close_others_ok:
  assumes "fs_ok fs L" and "distinct is" and "set is \<subseteq> {..<128}"
  shows "\<exists>fs'. close_others os file_id p is fs = Some fs' \<and> fs_ok fs' L
     \<and> (\<forall>j < 128. real_path (fs_files fs' ! j)
          = (if j \<in> set is \<and> int j \<noteq> file_id \<and> real_path (fs_files fs ! j) = Some p then None
             else real_path (fs_files fs ! j)))"
  using assms
proof (induction "is" arbitrary: fs)
  case Nil
  then show ?case by simp
next
  case (Cons i "is")
  show ?case
  proof (cases "int i \<noteq> file_id \<and> real_path (fs_files fs ! i) = Some p")
    case True
    then have "int i \<in> open_ids fs" using Cons.prems(1,3) by (simp add: open_ids_iff fs_ok_def)
    from close_open_id [OF Cons.prems(1) this, of os] obtain fs1 where
      fs1: "guac_rdp_fs_close os fs (int i) = Some fs1" "fs_ok fs1 L" "real_path (fs_files fs1 ! i) = None"
        "\<forall>j. j \<noteq> i \<longrightarrow> fs_files fs1 ! j = fs_files fs ! j" by metis
    with Cons.IH [OF fs1(2)] Cons.prems obtain fs' where
      "close_others os file_id p is fs1 = Some fs'" "fs_ok fs' L"
      "\<forall>j < 128. real_path (fs_files fs' ! j)
          = (if j \<in> set is \<and> int j \<noteq> file_id \<and> real_path (fs_files fs1 ! j) = Some p then None
             else real_path (fs_files fs1 ! j))" by auto
    moreover have "real_path (fs_files fs1 ! j) = (if j = i then None else real_path (fs_files fs ! j))" for j
      using fs1(3,4) by simp
    ultimately show ?thesis using fs1(1) True Cons.prems(2) by (intro exI [of _ fs']) auto
  next
    case False
    from Cons.IH [OF Cons.prems(1)] Cons.prems(2,3) obtain fs' where
      "close_others os file_id p is fs = Some fs'" "fs_ok fs' L"
      "\<forall>j < 128. real_path (fs_files fs' ! j)
          = (if j \<in> set is \<and> int j \<noteq> file_id \<and> real_path (fs_files fs ! j) = Some p then None
             else real_path (fs_files fs ! j))" by auto
    with False show ?thesis by (intro exI [of _ fs']) auto
  qed
qed

text \<open>
  Deleting an open file succeeds, keeps the table in order, and closes exactly the other files
  opened under the same real path: the deleted file itself stays open.
\<close>

theorem delete_closes_path:
  assumes "fs_ok fs L" and "k < 128" and "real_path (fs_files fs ! k) = Some p"
  shows "\<exists>fs'. guac_rdp_fs_delete os fs (int k) = Some (0, fs') \<and> fs_ok fs' L
     \<and> (\<forall>j < 128. real_path (fs_files fs' ! j)
          = (if j \<noteq> k \<and> real_path (fs_files fs ! j) = Some p then None else real_path (fs_files fs ! j)))"
proof -
  define o1 where "o1 = os_remove os (case file_stream (fs_files fs ! k) of None \<Rightarrow> fs_os_state fs
      | Some s \<Rightarrow> os_close os (fs_os_state fs) s) p"
  have "fs_ok (fs\<lparr>fs_os_state := o1\<rparr>) L" using assms(1) fs_ok_cong [of "fs\<lparr>fs_os_state := o1\<rparr>" fs] by simp
  moreover have "set [0..<128] \<subseteq> {..<128::nat}" by auto
  ultimately obtain fs' where
    fs': "close_others os (int k) p [0..<128] (fs\<lparr>fs_os_state := o1\<rparr>) = Some fs'" "fs_ok fs' L"
      "\<forall>j < 128. real_path (fs_files fs' ! j)
          = (if j \<noteq> k \<and> real_path (fs_files fs ! j) = Some p then None else real_path (fs_files fs ! j))"
    using close_others_ok [of "fs\<lparr>fs_os_state := o1\<rparr>" L "[0..<128]" os "int k" p] by auto
  have "guac_rdp_fs_delete os fs (int k) = Some (0, fs')"
    using assms(2,3) fs'(1)
    by (simp add: guac_rdp_fs_delete_def guac_rdp_fs_get_file_def GUAC_RDP_FS_MAX_FILES_def Let_def o1_def
             del: upt.simps upt_Suc)
  with fs' show ?thesis by blast
qed

lemma sample_open:
  fixes fs :: "(unit, unit) guac_rdp_fs"
  assumes "fs_ok fs L" and "open_ids fs \<union> L \<noteq> {0..<128}"
  obtains v and fs' :: "(unit, unit) guac_rdp_fs" where "v < 128" "int v \<notin> open_ids fs" "fs_ok fs' L" "open_ids fs' = insert (int v) (open_ids fs)"
    "real_path (fs_files fs' ! v) = Some p" "\<forall>j. j \<noteq> v \<longrightarrow> fs_files fs' ! j = fs_files fs ! j"
  using assms(1)
proof (cases rule: open_with_id_cases [where os = sample_os and n = "[]" and p = p and fl = 0 and d = False
      and fails = False and c = False])
  case full
  with assms(2) show ?thesis by blast
next
  case (opened v fs')
  show ?thesis by (rule that [of v fs']) (use opened in simp_all)
qed simp

theorem delete_closes_path_witness:
  "\<exists>fs v w fs'. v \<noteq> w \<and> real_path (fs_files fs ! v) = Some ''/drive/x'' \<and> real_path (fs_files fs ! w) = Some ''/drive/x''
     \<and> guac_rdp_fs_delete sample_os fs (int v) = Some (0, fs') \<and> real_path (fs_files fs' ! w) = None"
proof -
  have "open_ids sample_fs \<union> {} \<noteq> {0..<128}" by simp
  then obtain v and fs1 :: "(unit, unit) guac_rdp_fs" where
    v: "v < 128" "int v \<notin> open_ids sample_fs" "fs_ok fs1 {}" "open_ids fs1 = insert (int v) (open_ids sample_fs)"
      "real_path (fs_files fs1 ! v) = Some ''/drive/x''" "\<forall>j. j \<noteq> v \<longrightarrow> fs_files fs1 ! j = fs_files sample_fs ! j"
    by (rule sample_open [OF sample_fs_ok])
  have "card (open_ids fs1 \<union> {}) \<noteq> card {0..<128::int}" using v(4) by simp
  then have "open_ids fs1 \<union> {} \<noteq> {0..<128}" by metis
  then obtain w and fs2 :: "(unit, unit) guac_rdp_fs" where
    w: "w < 128" "int w \<notin> open_ids fs1" "fs_ok fs2 {}" "open_ids fs2 = insert (int w) (open_ids fs1)"
      "real_path (fs_files fs2 ! w) = Some ''/drive/x''" "\<forall>j. j \<noteq> w \<longrightarrow> fs_files fs2 ! j = fs_files fs1 ! j"
    by (rule sample_open [OF v(3)])
  have ne: "v \<noteq> w" using w(2) v(4) by auto
  have v2: "real_path (fs_files fs2 ! v) = Some ''/drive/x''" using ne w(6) v(5) by simp
  from delete_closes_path [OF w(3) v(1) this, of sample_os] obtain fs' where
    "guac_rdp_fs_delete sample_os fs2 (int v) = Some (0, fs')" "real_path (fs_files fs' ! w) = None"
    using w(1,5) ne by auto
  with ne v2 w(5) show ?thesis by blast
qed

end
