(* ===== verification/Surface_Pixels.thy ===== *)
theory Surface_Pixels
  imports Rect Protocol
begin

text \<open>
  \<open>common/src/surface.c\<close>, first part: the surface, its clipping and dirty rectangles, and the routines
  that read and write the pixels of its backing buffer.

  \<^item> A buffer is the list of its 32-bit pixels; an address is a byte offset into it, as the code
    computes it from the stride (which is a multiple of 4). A read or write outside the buffer is \<open>None\<close>.
  \<^item> A Cairo image is its pixel data, format, stride, width and height.
  \<^item> The layer of a surface is its index; the client, the socket and the mutex are not part of the
    model. Coordinates are HOL integers.
  \<^item> A loop over the rows and columns of a rectangle is a recursion over the list of its offsets
    in the order of the loop.
\<close>

section \<open>The structures\<close>

record guac_common_surface_heat_cell =
  hc_history :: "int list"
  hc_oldest_entry :: int

record guac_common_surface_bitmap_rect =
  br_flushed :: bool
  br_rect :: guac_common_rect

record guac_common_surface =
  sf_layer :: int
  sf_x :: int
  sf_y :: int
  sf_z :: int
  sf_opacity :: int
  sf_parent :: int
  sf_width :: int
  sf_height :: int
  sf_stride :: int
  sf_buffer :: "u32 list"
  sf_location_dirty :: bool
  sf_opacity_dirty :: bool
  sf_dirty :: bool
  sf_dirty_rect :: guac_common_rect
  sf_realized :: bool
  sf_clipped :: bool
  sf_clip_rect :: guac_common_rect
  sf_bitmap_queue :: "guac_common_surface_bitmap_rect list"
  sf_heat_map :: "guac_common_surface_heat_cell list"

datatype cairo_format = CAIRO_FORMAT_ARGB32 | CAIRO_FORMAT_RGB24

record cairo_image =
  ci_data :: "u32 list"
  ci_format :: cairo_format
  ci_stride :: int
  ci_width :: int
  ci_height :: int

section \<open>Bounds and the dirty rectangle\<close>

text \<open>
  \<open>__guac_common_bound_rect\<close> and \<open>__guac_common_clip_rect\<close> return the new rectangle and how far its
  corner moved, which the code adds to the source coordinates.
\<close>

definition bound_rect :: "guac_common_surface \<Rightarrow> guac_common_rect \<Rightarrow> guac_common_rect \<times> int \<times> int" where
  "bound_rect s rect =
     (let r = guac_common_rect_constrain rect (guac_common_rect_init 0 0 (sf_width s) (sf_height s)) in
      (r, rc_x r - rc_x rect, rc_y r - rc_y rect))"

definition clip_rect :: "guac_common_surface \<Rightarrow> guac_common_rect \<Rightarrow> guac_common_rect \<times> int \<times> int" where
  "clip_rect s rect =
     (if \<not> sf_clipped s then bound_rect s rect
      else let r = guac_common_rect_constrain rect (sf_clip_rect s) in
           (r, rc_x r - rc_x rect, rc_y r - rc_y rect))"

definition GUAC_SURFACE_NEGLIGIBLE_WIDTH :: int where "GUAC_SURFACE_NEGLIGIBLE_WIDTH = 64"
definition GUAC_SURFACE_NEGLIGIBLE_HEIGHT :: int where "GUAC_SURFACE_NEGLIGIBLE_HEIGHT = 64"
definition GUAC_SURFACE_DATA_FACTOR :: int where "GUAC_SURFACE_DATA_FACTOR = 16"
definition GUAC_SURFACE_BASE_COST :: int where "GUAC_SURFACE_BASE_COST = 4096"
definition GUAC_SURFACE_NEGLIGIBLE_INCREASE :: int where "GUAC_SURFACE_NEGLIGIBLE_INCREASE = 4"
definition GUAC_SURFACE_FILL_PATTERN_FACTOR :: int where "GUAC_SURFACE_FILL_PATTERN_FACTOR = 3"

definition should_combine :: "guac_common_surface \<Rightarrow> guac_common_rect \<Rightarrow> bool \<Rightarrow> bool" where
  "should_combine s rect rect_only \<longleftrightarrow>
     sf_dirty s \<and>
     (let dirty = sf_dirty_rect s;
          combined = guac_common_rect_extend dirty rect;
          combined_cost = GUAC_SURFACE_BASE_COST + rc_width combined * rc_height combined;
          dirty_cost = GUAC_SURFACE_BASE_COST + rc_width dirty * rc_height dirty;
          update_cost = GUAC_SURFACE_BASE_COST + rc_width rect * rc_height rect;
          update_cost = (if rect_only then update_cost sdiv GUAC_SURFACE_DATA_FACTOR else update_cost) in
      rc_width combined \<le> GUAC_SURFACE_NEGLIGIBLE_WIDTH \<and> rc_height combined \<le> GUAC_SURFACE_NEGLIGIBLE_HEIGHT
      \<or> combined_cost \<le> update_cost + dirty_cost
      \<or> combined_cost - dirty_cost \<le> dirty_cost sdiv GUAC_SURFACE_NEGLIGIBLE_INCREASE
      \<or> combined_cost - update_cost \<le> update_cost sdiv GUAC_SURFACE_NEGLIGIBLE_INCREASE
      \<or> rc_x rect = rc_x dirty \<and> rc_y rect = rc_y dirty + rc_height dirty
        \<and> combined_cost \<le> (dirty_cost + update_cost) * GUAC_SURFACE_FILL_PATTERN_FACTOR)"

definition mark_dirty :: "guac_common_surface \<Rightarrow> guac_common_rect \<Rightarrow> guac_common_surface" where
  "mark_dirty s rect =
     (if rc_width rect \<le> 0 \<or> rc_height rect \<le> 0 then s
      else if sf_dirty s then s\<lparr>sf_dirty_rect := guac_common_rect_extend (sf_dirty_rect s) rect\<rparr>
      else s\<lparr>sf_dirty_rect := rect, sf_dirty := True\<rparr>)"

section \<open>Pixels in memory\<close>

definition pixel_load :: "u32 list \<Rightarrow> int \<Rightarrow> u32 option" where
  "pixel_load m a = (if 0 \<le> a \<and> nat (a div 4) < length m then Some (m ! nat (a div 4)) else None)"

definition scan :: "int \<Rightarrow> int \<Rightarrow> (int \<times> int) list" where
  "scan w h = concat (map (\<lambda>y. map (\<lambda>x. (x, y)) [0..w - 1]) [0..h - 1])"

text \<open>The bounds of the changed pixels: \<open>min_x\<close>, \<open>min_y\<close>, \<open>max_x\<close>, \<open>max_y\<close>.\<close>

type_synonym box = "int \<times> int \<times> int \<times> int"

definition touch :: "int \<times> int \<Rightarrow> box \<Rightarrow> box" where
  "touch c b = (case (c, b) of ((x, y), (min_x, min_y, max_x, max_y)) \<Rightarrow>
     (if x < min_x then x else min_x, if y < min_y then y else min_y,
      if x > max_x then x else max_x, if y > max_y then y else max_y))"

text \<open>
  The loop that the routines below share: at every offset the destination pixel is read, its new
  value computed, and a change stored and added to the bounds.
\<close>

fun pixel_loop ::
  "(int \<times> int \<Rightarrow> int) \<Rightarrow> (int \<times> int \<Rightarrow> u32 list \<Rightarrow> u32 \<Rightarrow> u32 option) \<Rightarrow> (int \<times> int) list \<Rightarrow>
   u32 list \<times> box \<Rightarrow> (u32 list \<times> box) option" where
  "pixel_loop addr new [] (m, b) = Some (m, b)"
| "pixel_loop addr new (c # cs) (m, b) =
     (case pixel_load m (addr c) of None \<Rightarrow> None
      | Some old \<Rightarrow>
          case new c m old of None \<Rightarrow> None
          | Some v \<Rightarrow>
              if old \<noteq> v then pixel_loop addr new cs (m[nat (addr c div 4) := v], touch c b)
              else pixel_loop addr new cs (m, b))"

definition restrict_rect :: "guac_common_rect \<Rightarrow> box \<Rightarrow> guac_common_rect" where
  "restrict_rect rect b = (case b of (min_x, min_y, max_x, max_y) \<Rightarrow>
     if max_x \<ge> min_x \<and> max_y \<ge> min_y
     then \<lparr>rc_x = rc_x rect + min_x, rc_y = rc_y rect + min_y,
           rc_width = max_x - min_x + 1, rc_height = max_y - min_y + 1\<rparr>
     else rect\<lparr>rc_width := 0, rc_height := 0\<rparr>)"

definition rect_addr :: "int \<Rightarrow> int \<Rightarrow> int \<Rightarrow> int \<times> int \<Rightarrow> int" where
  "rect_addr stride px py c = stride * py + 4 * px + (stride * snd c + 4 * fst c)"

section \<open>The pixel routines\<close>

definition argb :: "int \<Rightarrow> int \<Rightarrow> int \<Rightarrow> int \<Rightarrow> u32" where
  "argb alpha red green blue =
     push_bit 24 (word_of_int alpha) OR push_bit 16 (word_of_int red) OR push_bit 8 (word_of_int green)
       OR word_of_int blue"

definition surface_set ::
  "guac_common_surface \<Rightarrow> guac_common_rect \<Rightarrow> int \<Rightarrow> int \<Rightarrow> int \<Rightarrow> int \<Rightarrow>
   (guac_common_surface \<times> guac_common_rect) option" where
  "surface_set dst rect red green blue alpha =
     (let color = argb alpha red green blue in
      map_option (\<lambda>(m, b). (dst\<lparr>sf_buffer := m\<rparr>, restrict_rect rect b))
        (pixel_loop (rect_addr (sf_stride dst) (rc_x rect) (rc_y rect)) (\<lambda>c m old. Some color)
           (scan (rc_width rect) (rc_height rect))
           (sf_buffer dst, (rc_width rect - 1, rc_height rect - 1, 0, 0))))"

definition blend_component :: "int \<Rightarrow> int \<Rightarrow> int \<Rightarrow> int" where
  "blend_component dst src alpha =
     (let blended = src + dst * (0xFF - alpha) in if blended > 0xFF then 0xFF else blended)"

definition component :: "u32 \<Rightarrow> nat \<Rightarrow> int" where
  "component color shift = uint (drop_bit shift color AND 0xFF)"

definition argb_blend :: "u32 \<Rightarrow> u32 \<Rightarrow> u32" where
  "argb_blend dst src =
     (let dst_a = component dst 24; dst_r = component dst 16; dst_g = component dst 8; dst_b = component dst 0;
          src_a = component src 24; src_r = component src 16; src_g = component src 8; src_b = component src 0 in
      if src_a = 0xFF \<or> dst_a = 0 then src
      else if src_a = 0 then dst
      else argb (blend_component dst_a src_a src_a) (blend_component dst_r src_r src_a)
             (blend_component dst_g src_g src_a) (blend_component dst_b src_b src_a))"

text \<open>\<open>__guac_common_surface_put\<close>: the destination, its rectangle, and the new source coordinates.\<close>

definition surface_put ::
  "u32 list \<Rightarrow> int \<Rightarrow> int \<Rightarrow> int \<Rightarrow> guac_common_surface \<Rightarrow> guac_common_rect \<Rightarrow> bool \<Rightarrow>
   (guac_common_surface \<times> guac_common_rect \<times> int \<times> int) option" where
  "surface_put src_buffer src_stride sx sy dst rect opaque =
     map_option (\<lambda>(m, b). let r = restrict_rect rect b in
         (dst\<lparr>sf_buffer := m\<rparr>, r, sx + (rc_x r - rc_x rect), sy + (rc_y r - rc_y rect)))
       (pixel_loop (rect_addr (sf_stride dst) (rc_x rect) (rc_y rect))
          (\<lambda>c m dst_color. map_option (\<lambda>src_color.
               if opaque then src_color OR 0xFF000000 else argb_blend dst_color src_color)
             (pixel_load src_buffer (rect_addr src_stride sx sy c)))
          (scan (rc_width rect) (rc_height rect))
          (sf_buffer dst, (rc_width rect, rc_height rect, 0, 0)))"

text \<open>\<open>__guac_common_surface_fill_mask\<close>; the bounds of the changes are not kept.\<close>

definition surface_fill_mask ::
  "u32 list \<Rightarrow> int \<Rightarrow> int \<Rightarrow> int \<Rightarrow> guac_common_surface \<Rightarrow> guac_common_rect \<Rightarrow> int \<Rightarrow> int \<Rightarrow> int \<Rightarrow>
   guac_common_surface option" where
  "surface_fill_mask src_buffer src_stride sx sy dst rect red green blue =
     (let color = 0xFF000000 OR argb 0 red green blue in
      map_option (\<lambda>(m, b). dst\<lparr>sf_buffer := m\<rparr>)
        (pixel_loop (rect_addr (sf_stride dst) (rc_x rect) (rc_y rect))
           (\<lambda>c m dst_color. map_option (\<lambda>mask. if mask AND 0xFF000000 \<noteq> 0 then color else dst_color)
              (pixel_load src_buffer (rect_addr src_stride sx sy c)))
           (scan (rc_width rect) (rc_height rect))
           (sf_buffer dst, (rc_width rect, rc_height rect, 0, 0))))"

text \<open>\<open>__guac_common_surface_transfer_int\<close>: the new destination value. The codes are those of the enumeration.\<close>

definition transfer_int :: "int \<Rightarrow> u32 \<Rightarrow> u32 \<Rightarrow> u32" where
  "transfer_int op src dst =
     (if op = 0x0 then 0xFF000000
      else if op = 0xF then 0xFFFFFFFF
      else if op = 0x3 then src
      else if op = 0x5 then dst
      else if op = 0xC then NOT src
      else if op = 0xA then NOT dst
      else if op = 0x1 then dst AND src
      else if op = 0xE then NOT (dst AND src)
      else if op = 0x7 then dst OR src
      else if op = 0x8 then NOT (dst OR src)
      else if op = 0x6 then dst XOR src
      else if op = 0x9 then NOT (dst XOR src)
      else if op = 0x4 then dst AND NOT src
      else if op = 0xB then NOT (dst AND NOT src)
      else if op = 0xD then dst OR NOT src
      else if op = 0x2 then NOT (dst OR NOT src)
      else dst)"

text \<open>
  \<open>__guac_common_surface_transfer\<close>. A source that is the destination itself is \<open>None\<close>: then the source
  pixels are read from the memory being written, backwards unless the destination lies before.
\<close>

definition transfer_forwards :: "bool \<Rightarrow> int \<Rightarrow> int \<Rightarrow> guac_common_rect \<Rightarrow> bool" where
  "transfer_forwards different sx sy rect \<longleftrightarrow> different \<or> rc_y rect < sy \<or> rc_y rect = sy \<and> rc_x rect < sx"

definition transfer_addr :: "bool \<Rightarrow> int \<Rightarrow> int \<Rightarrow> int \<Rightarrow> int \<Rightarrow> int \<Rightarrow> int \<times> int \<Rightarrow> int" where
  "transfer_addr forwards stride px py w h c =
     (if forwards then stride * py + 4 * px + (stride * snd c + 4 * fst c)
      else stride * (py + h - 1) + 4 * (px + w - 1) - (stride * snd c + 4 * fst c))"

definition surface_transfer ::
  "guac_common_surface option \<Rightarrow> int \<Rightarrow> int \<Rightarrow> int \<Rightarrow> guac_common_surface \<Rightarrow> guac_common_rect \<Rightarrow>
   (guac_common_surface \<times> guac_common_rect \<times> int \<times> int) option" where
  "surface_transfer src sx sy op dst rect =
     (let w = rc_width rect; h = rc_height rect;
          forwards = transfer_forwards (src \<noteq> None) sx sy rect;
          src_stride = (case src of None \<Rightarrow> sf_stride dst | Some s \<Rightarrow> sf_stride s) in
      map_option (\<lambda>(m, (min_x, min_y, max_x, max_y)).
          let b = (if forwards then (min_x, min_y, max_x, max_y)
                   else (w - 1 - max_x, h - 1 - max_y, w - 1 - min_x, h - 1 - min_y));
              r = restrict_rect rect b in
          (dst\<lparr>sf_buffer := m\<rparr>, r, sx + (rc_x r - rc_x rect), sy + (rc_y r - rc_y rect)))
        (pixel_loop (transfer_addr forwards (sf_stride dst) (rc_x rect) (rc_y rect) w h)
           (\<lambda>c m d. map_option (\<lambda>v. transfer_int op v d)
              (pixel_load (case src of None \<Rightarrow> m | Some s \<Rightarrow> sf_buffer s)
                 (transfer_addr forwards src_stride sx sy w h c)))
           (scan w h) (sf_buffer dst, (w - 1, h - 1, 0, 0))))"

text \<open>\<open>__guac_common_surface_is_opaque\<close>: the search stops at the first pixel that is not.\<close>

fun opaque_loop :: "u32 list \<Rightarrow> (int \<times> int \<Rightarrow> int) \<Rightarrow> (int \<times> int) list \<Rightarrow> bool option" where
  "opaque_loop m addr [] = Some True"
| "opaque_loop m addr (c # cs) =
     (case pixel_load m (addr c) of None \<Rightarrow> None
      | Some color \<Rightarrow> if color AND 0xFF000000 \<noteq> 0xFF000000 then Some False else opaque_loop m addr cs)"

definition is_opaque :: "guac_common_surface \<Rightarrow> guac_common_rect \<Rightarrow> bool option" where
  "is_opaque s rect =
     opaque_loop (sf_buffer s) (rect_addr (sf_stride s) (rc_x rect) (rc_y rect))
       (scan (rc_width rect) (rc_height rect))"

text \<open>\<open>__guac_common_surface_png_optimality\<close>: one row, then all rows.\<close>

fun count_row :: "u32 list \<Rightarrow> (int \<Rightarrow> int) \<Rightarrow> int list \<Rightarrow> u32 \<Rightarrow> int \<Rightarrow> int \<Rightarrow> (int \<times> int) option" where
  "count_row m addr [] last_pixel same different = Some (same, different)"
| "count_row m addr (x # xs) last_pixel same different =
     (case pixel_load m (addr x) of None \<Rightarrow> None
      | Some p \<Rightarrow>
          let current_pixel = p OR 0xFF000000 in
          if current_pixel = last_pixel then count_row m addr xs current_pixel (same + 1) different
          else count_row m addr xs current_pixel same (different + 1))"

fun count_rows :: "u32 list \<Rightarrow> (int \<times> int \<Rightarrow> int) \<Rightarrow> int \<Rightarrow> int list \<Rightarrow> int \<Rightarrow> int \<Rightarrow> (int \<times> int) option" where
  "count_rows m addr w [] same different = Some (same, different)"
| "count_rows m addr w (y # ys) same different =
     (case pixel_load m (addr (0, y)) of None \<Rightarrow> None
      | Some p \<Rightarrow>
          case count_row m (\<lambda>x. addr (x, y)) [1..w - 1] (p OR 0xFF000000) same different of None \<Rightarrow> None
          | Some (same, different) \<Rightarrow> count_rows m addr w ys same different)"

definition png_optimality :: "guac_common_surface \<Rightarrow> guac_common_rect \<Rightarrow> int option" where
  "png_optimality s rect =
     (if rc_width rect < 1 \<or> rc_height rect < 1 then Some 0
      else map_option (\<lambda>(same, different). wrap32 (0x100 * same) sdiv different - 0x400)
             (count_rows (sf_buffer s) (rect_addr (sf_stride s) (rc_x rect) (rc_y rect)) (rc_width rect)
                [0..rc_height rect - 1] 0 1))"

section \<open>Facts about the loops\<close>

lemma set_scan: "set (scan w h) = {(x, y). 0 \<le> x \<and> x < w \<and> 0 \<le> y \<and> y < h}"
  by (auto simp: scan_def)

definition before :: "int \<times> int \<Rightarrow> int \<times> int \<Rightarrow> bool" where
  "before c c' \<longleftrightarrow> snd c < snd c' \<or> snd c = snd c' \<and> fst c < fst c'"

lemma sorted_upto: "sorted_wrt (<) [i..j]"
  by (induction i j rule: upto.induct) (subst upto.simps, auto)

lemma scan_order: "sorted_wrt before (scan w h)"
proof -
  have rows: "sorted_wrt before (concat (map (\<lambda>y. map (\<lambda>x. (x, y)) [0..w - 1]) ys))"
    if "sorted_wrt (<) ys" for ys :: "int list"
    using that
  proof (induction ys)
    case (Cons y ys)
    have "sorted_wrt before (map (\<lambda>x. (x, y)) [0..w - 1])"
      using sorted_upto [of 0 "w - 1"] by (simp add: sorted_wrt_map before_def)
    moreover have "\<forall>c \<in> set (map (\<lambda>x. (x, y)) [0..w - 1]).
        \<forall>c' \<in> set (concat (map (\<lambda>y. map (\<lambda>x. (x, y)) [0..w - 1]) ys)). before c c'"
      using Cons.prems by (auto simp: before_def)
    ultimately show ?case using Cons by (simp add: sorted_wrt_append del: set_map set_concat)
  qed simp
  show ?thesis unfolding scan_def by (rule rows [OF sorted_upto])
qed

text \<open>
  The loop computes the new values from the old memory if no step destroys what a later one
  reads.
\<close>

definition cell :: "int \<Rightarrow> nat" where
  "cell a = nat (a div 4)"

definition changed_at :: "(int \<times> int \<Rightarrow> int) \<Rightarrow> (int \<times> int \<Rightarrow> u32 list \<Rightarrow> u32 \<Rightarrow> u32 option) \<Rightarrow> u32 list \<Rightarrow> int \<times> int \<Rightarrow> bool" where
  "changed_at addr new m c \<longleftrightarrow> new c m (m ! cell (addr c)) \<noteq> Some (m ! cell (addr c))"

lemma pixel_loop_spec:
  assumes "\<forall>c \<in> set cs. 0 \<le> addr c \<and> cell (addr c) < length m \<and> new c m (m ! cell (addr c)) \<noteq> None"
    and "sorted_wrt (\<lambda>c c'. cell (addr c) \<noteq> cell (addr c')
           \<and> (\<forall>m v old. new c' (m[cell (addr c) := v]) old = new c' m old)) cs"
  shows "\<exists>m'. pixel_loop addr new cs (m, b) = Some (m', fold touch (filter (changed_at addr new m) cs) b)
     \<and> length m' = length m
     \<and> (\<forall>c \<in> set cs. new c m (m ! cell (addr c)) = Some (m' ! cell (addr c)))
     \<and> (\<forall>i. i \<notin> (\<lambda>c. cell (addr c)) ` set cs \<longrightarrow> m' ! i = m ! i)"
  using assms
proof (induction cs arbitrary: m b)
  case (Cons c cs)
  obtain v where v: "new c m (m ! cell (addr c)) = Some v" using Cons.prems(1) by auto
  have load: "pixel_load m (addr c) = Some (m ! cell (addr c))"
    using Cons.prems(1) by (simp add: pixel_load_def cell_def)
  let ?m = "m[cell (addr c) := v]"
  have keep: "new c' ?m (?m ! cell (addr c')) = new c' m (m ! cell (addr c'))"
      "?m ! cell (addr c') = m ! cell (addr c')" "cell (addr c') \<noteq> cell (addr c)" if "c' \<in> set cs" for c'
    using Cons.prems(2) that by auto
  have pre: "\<forall>c' \<in> set cs. 0 \<le> addr c' \<and> cell (addr c') < length ?m \<and> new c' ?m (?m ! cell (addr c')) \<noteq> None"
    using keep Cons.prems(1) by (simp del: nth_list_update)
  from Cons.IH [OF pre, of "if m ! cell (addr c) \<noteq> v then touch c b else b"] Cons.prems(2) obtain m' where
    m': "pixel_loop addr new cs (?m, if m ! cell (addr c) \<noteq> v then touch c b else b)
        = Some (m', fold touch (filter (changed_at addr new ?m) cs) (if m ! cell (addr c) \<noteq> v then touch c b else b))"
      "length m' = length ?m" "\<forall>c' \<in> set cs. new c' ?m (?m ! cell (addr c')) = Some (m' ! cell (addr c'))"
      "\<forall>i. i \<notin> (\<lambda>c. cell (addr c)) ` set cs \<longrightarrow> m' ! i = ?m ! i" by auto
  have f: "filter (changed_at addr new ?m) cs = filter (changed_at addr new m) cs"
    using keep by (intro filter_cong) (simp_all add: changed_at_def del: nth_list_update)
  have s: "pixel_loop addr new (c # cs) (m, b) = pixel_loop addr new cs (?m, if m ! cell (addr c) \<noteq> v then touch c b else b)"
    using load v by (auto simp: cell_def)
  have "m' ! cell (addr c) = v"
  proof -
    have "cell (addr c) \<notin> (\<lambda>c. cell (addr c)) ` set cs" using keep(3) by (metis imageE)
    then have "m' ! cell (addr c) = ?m ! cell (addr c)" using m'(4) by blast
    then show ?thesis using Cons.prems(1) by simp
  qed
  moreover have "changed_at addr new m c \<longleftrightarrow> m ! cell (addr c) \<noteq> v" using v by (auto simp: changed_at_def)
  ultimately show ?case
    using m' s f keep v by (intro exI [of _ m']) (auto simp del: pixel_loop.simps)
qed simp

text \<open>The bounds of a set of changed pixels, and the rectangle they give.\<close>

lemma fold_touch:
  "fold touch cs (a, b, c, d) = (a', b', c', d') \<Longrightarrow>
     (\<forall>(x, y) \<in> set cs. a' \<le> x \<and> b' \<le> y \<and> x \<le> c' \<and> y \<le> d')
     \<and> a' \<le> a \<and> b' \<le> b \<and> c \<le> c' \<and> d \<le> d'
     \<and> (a' = a \<or> a' \<in> fst ` set cs) \<and> (b' = b \<or> b' \<in> snd ` set cs)
     \<and> (c' = c \<or> c' \<in> fst ` set cs) \<and> (d' = d \<or> d' \<in> snd ` set cs)"
proof (induction cs arbitrary: a b c d)
  case (Cons p ps)
  obtain x y where p: "p = (x, y)" by (cases p)
  obtain a1 b1 c1 d1 where t: "touch p (a, b, c, d) = (a1, b1, c1, d1)" by (metis prod_cases4)
  have t': "a1 = min x a" "b1 = min y b" "c1 = max x c" "d1 = max y d"
    using t p by (auto simp: touch_def split: if_splits)
  from Cons.IH [of a1 b1 c1 d1] Cons.prems t show ?case unfolding p t' by (auto simp: min_def max_def split: if_splits)
qed simp

lemma restrict_rect_ok:
  assumes "set cs \<subseteq> {(x, y). 0 \<le> x \<and> x < rc_width rect \<and> 0 \<le> y \<and> y < rc_height rect}"
    and "fold touch cs (a, b, 0, 0) = box" and "a = rc_width rect \<or> a = rc_width rect - 1" and "b = rc_height rect \<or> b = rc_height rect - 1"
    and "0 < rc_width rect" and "0 < rc_height rect"
  shows "within (restrict_rect rect box) rect" "0 \<le> rc_width (restrict_rect rect box)"
    "0 \<le> rc_height (restrict_rect rect box)"
    "\<forall>(x, y) \<in> set cs. (rc_x rect + x, rc_y rect + y) \<in> pixels (restrict_rect rect box)"
proof -
  obtain a' b' c' d' where box: "box = (a', b', c', d')" by (cases box)
  note f = fold_touch [OF assms(2) [unfolded box]]
  have in_rect: "0 \<le> x \<and> x < rc_width rect \<and> 0 \<le> y \<and> y < rc_height rect" if "(x, y) \<in> set cs" for x y
    using assms(1) that by auto
  have lo: "0 \<le> a'" "0 \<le> b'" and hi: "c' < rc_width rect" "d' < rc_height rect"
    using f in_rect assms(3-6) by force+
  show "0 \<le> rc_width (restrict_rect rect box)" "0 \<le> rc_height (restrict_rect rect box)"
    unfolding box restrict_rect_def by auto
  show "within (restrict_rect rect box) rect"
    using lo hi assms(5,6) unfolding box restrict_rect_def within_def by auto
  show "\<forall>(x, y) \<in> set cs. (rc_x rect + x, rc_y rect + y) \<in> pixels (restrict_rect rect box)"
    using f unfolding box restrict_rect_def pixels_def by fastforce
qed

section \<open>Rectangles of a surface\<close>

text \<open>
  A buffer of the right size for its surface, and its pixel at a position. The stride that
  \<open>cairo_format_stride_for_width\<close> gives is four bytes per pixel.
\<close>

definition geometry :: "guac_common_surface \<Rightarrow> bool" where
  "geometry s \<longleftrightarrow> 0 \<le> sf_width s \<and> 0 \<le> sf_height s \<and> sf_stride s = 4 * sf_width s
     \<and> length (sf_buffer s) = nat (sf_width s * sf_height s)"

definition bounds :: "guac_common_surface \<Rightarrow> guac_common_rect" where
  "bounds s = guac_common_rect_init 0 0 (sf_width s) (sf_height s)"

definition pix_at :: "u32 list \<Rightarrow> int \<Rightarrow> int \<times> int \<Rightarrow> u32" where
  "pix_at m stride p = m ! cell (stride * snd p + 4 * fst p)"

definition pix :: "guac_common_surface \<Rightarrow> int \<times> int \<Rightarrow> u32" where
  "pix s p = pix_at (sf_buffer s) (sf_stride s) p"

lemma pixels_bounds [simp]: "pixels (bounds s) = {(x, y). 0 \<le> x \<and> x < sf_width s \<and> 0 \<le> y \<and> y < sf_height s}"
  by (simp add: bounds_def)

lemma cell_at: "cell (4 * w * y + 4 * x) = nat (w * y + x)"
proof -
  have "4 * w * y + 4 * x = (w * y + x) * 4" by (simp add: algebra_simps)
  then show ?thesis by (simp only: cell_def nonzero_mult_div_cancel_right [of 4 "w * y + x"] zero_neq_numeral not_False_eq_True)
qed

lemma flat_less:
  fixes w x y :: int
  assumes "0 \<le> x" "x < w" "0 \<le> y" "y < h"
  shows "0 \<le> w * y + x" "w * y + x < w * h"
proof -
  show "0 \<le> w * y + x" using assms by simp
  have "w * y \<le> w * (h - 1)" using assms by (intro mult_left_mono) auto
  then have "w * y + x < w * (h - 1) + w" using assms by linarith
  then show "w * y + x < w * h" by (simp add: algebra_simps)
qed

lemma flat_inj:
  fixes w x y x' y' :: int
  assumes "w * y + x = w * y' + x'" "0 \<le> x" "x < w" "0 \<le> x'" "x' < w"
  shows "y = y'" "x = x'"
proof -
  have d: "(w * v + u) div w = v" if "0 \<le> u" "u < w" for u v :: int using that by simp
  from d [OF assms(2,3), of y] d [OF assms(4,5), of y'] assms(1) show "y = y'" by metis
  then show "x = x'" using assms(1) by simp
qed

definition flip :: "bool \<Rightarrow> int \<Rightarrow> int \<Rightarrow> int \<times> int \<Rightarrow> int \<times> int" where
  "flip forwards w h c = (if forwards then c else (w - 1 - fst c, h - 1 - snd c))"

definition flip_box :: "bool \<Rightarrow> int \<Rightarrow> int \<Rightarrow> box \<Rightarrow> box" where
  "flip_box forwards w h b = (case b of (min_x, min_y, max_x, max_y) \<Rightarrow>
     if forwards then b else (w - 1 - max_x, h - 1 - max_y, w - 1 - min_x, h - 1 - min_y))"

lemma flip_flip [simp]: "flip f w h (flip f w h c) = c"
  by (cases c) (simp add: flip_def)

lemma touch_flip: "touch (flip f w h c) (flip_box f w h b) = flip_box f w h (touch c b)"
  by (cases c; cases b) (auto simp: touch_def flip_def flip_box_def)

lemma fold_touch_flip: "fold touch (map (flip f w h) cs) (flip_box f w h b) = flip_box f w h (fold touch cs b)"
  by (induction cs arbitrary: b) (simp_all add: touch_flip)

lemma flip_set: "c \<in> set (scan w h) \<longleftrightarrow> flip f w h c \<in> set (scan w h)"
  by (cases c) (auto simp: set_scan flip_def)

lemma flip_addr:
  "transfer_addr f stride px py w h c
     = stride * (py + snd (flip f w h c)) + 4 * (px + fst (flip f w h c))"
  by (cases c) (simp add: transfer_addr_def flip_def algebra_simps)

lemma rect_addr_flip: "rect_addr stride px py = transfer_addr True stride px py w h"
  by (rule ext) (simp add: rect_addr_def transfer_addr_def)

text \<open>
  What a loop over a rectangle inside a surface does to the picture, if no step destroys what a
  later one reads.
\<close>

lemma blit:
  assumes g: "geometry s" and r: "within rect (bounds s)" "0 < rc_width rect" "0 < rc_height rect"
    and w: "w = rc_width rect" "h = rc_height rect"
    and new: "\<forall>c \<in> set (scan w h).
      new c (sf_buffer s) (pix s (rc_x rect + fst (flip f w h c), rc_y rect + snd (flip f w h c))) \<noteq> None"
    and safe: "\<forall>c \<in> set (scan w h). \<forall>c' \<in> set (scan w h). before c c' \<longrightarrow>
      (\<forall>m v old. new c' (m[cell (transfer_addr f (sf_stride s) (rc_x rect) (rc_y rect) w h c) := v]) old = new c' m old)"
    and ab: "a = w - 1 \<and> b = h - 1 \<or> f \<and> a = w \<and> b = h"
  obtains m' bx where
    "pixel_loop (transfer_addr f (sf_stride s) (rc_x rect) (rc_y rect) w h) new (scan w h) (sf_buffer s, (a, b, 0, 0))
       = Some (m', bx)"
    "length m' = length (sf_buffer s)"
    "\<forall>p \<in> pixels rect. new (flip f w h (fst p - rc_x rect, snd p - rc_y rect)) (sf_buffer s) (pix s p)
       = Some (pix_at m' (sf_stride s) p)"
    "\<forall>p \<in> pixels (bounds s) - pixels rect. pix_at m' (sf_stride s) p = pix s p"
    "within (restrict_rect rect (flip_box f w h bx)) rect"
    "0 \<le> rc_width (restrict_rect rect (flip_box f w h bx))" "0 \<le> rc_height (restrict_rect rect (flip_box f w h bx))"
    "\<forall>p \<in> pixels (bounds s) - pixels (restrict_rect rect (flip_box f w h bx)). pix_at m' (sf_stride s) p = pix s p"
proof -
  let ?addr = "transfer_addr f (sf_stride s) (rc_x rect) (rc_y rect) w h" and ?m = "sf_buffer s"
  let ?pos = "\<lambda>c. (rc_x rect + fst (flip f w h c), rc_y rect + snd (flip f w h c))"
  have st: "sf_stride s = 4 * sf_width s" and len: "length ?m = nat (sf_width s * sf_height s)"
    using g by (simp_all add: geometry_def)
  have pos: "?pos c \<in> pixels rect" "?pos c \<in> pixels (bounds s)" if "c \<in> set (scan w h)" for c
  proof -
    have "flip f w h c \<in> set (scan w h)" using that flip_set by blast
    then show "?pos c \<in> pixels rect" using w by (auto simp: set_scan pixels_def)
    then show "?pos c \<in> pixels (bounds s)" using r(1) by (auto simp: pixels_def within_def bounds_def guac_common_rect_init_def)
  qed
  have ca: "cell (?addr c) = nat (sf_width s * snd (?pos c) + fst (?pos c))" for c
    unfolding flip_addr st cell_at by simp
  have pa: "?m ! cell (?addr c) = pix s (?pos c)" for c
    by (simp only: pix_def pix_at_def flip_addr fst_conv snd_conv)
  have flat: "0 \<le> sf_width s * snd (?pos c) + fst (?pos c)" "sf_width s * snd (?pos c) + fst (?pos c) < sf_width s * sf_height s"
    if "c \<in> set (scan w h)" for c
    using pos(2) [OF that] flat_less by auto
  have inj: "cell (?addr c) \<noteq> cell (?addr c')" if "c \<in> set (scan w h)" "c' \<in> set (scan w h)" "c \<noteq> c'" for c c'
  proof
    assume "cell (?addr c) = cell (?addr c')"
    then have e: "sf_width s * snd (?pos c) + fst (?pos c) = sf_width s * snd (?pos c') + fst (?pos c')"
      using flat(1) [OF that(1)] flat(1) [OF that(2)] unfolding ca by (simp add: eq_nat_nat_iff)
    have "snd (?pos c) = snd (?pos c')" "fst (?pos c) = fst (?pos c')"
      using flat_inj [OF e] pos(2) [OF that(1)] pos(2) [OF that(2)] by auto
    then have "flip f w h c = flip f w h c'" by (simp add: prod_eq_iff)
    then show False using that(3) by (metis flip_flip)
  qed
  have pre: "\<forall>c \<in> set (scan w h). 0 \<le> ?addr c \<and> cell (?addr c) < length ?m \<and> new c ?m (?m ! cell (?addr c)) \<noteq> None"
  proof
    fix c assume c: "c \<in> set (scan w h)"
    have "0 \<le> ?addr c" using flat(1) [OF c] unfolding flip_addr st by (simp add: algebra_simps)
    moreover have "cell (?addr c) < length ?m" using flat [OF c] unfolding ca len by simp
    ultimately show "0 \<le> ?addr c \<and> cell (?addr c) < length ?m \<and> new c ?m (?m ! cell (?addr c)) \<noteq> None"
      using new c unfolding pa by simp
  qed
  have sorted: "sorted_wrt (\<lambda>c c'. cell (?addr c) \<noteq> cell (?addr c')
           \<and> (\<forall>m v old. new c' (m[cell (?addr c) := v]) old = new c' m old)) (scan w h)"
  proof (rule sorted_wrt_mono_rel [OF _ scan_order])
    fix c c' assume cc: "c \<in> set (scan w h)" "c' \<in> set (scan w h)" "before c c'"
    then have "c \<noteq> c'" by (auto simp: before_def)
    with cc inj safe show "cell (?addr c) \<noteq> cell (?addr c')
           \<and> (\<forall>m v old. new c' (m[cell (?addr c) := v]) old = new c' m old)" by blast
  qed
  define ch where "ch = filter (changed_at ?addr new ?m) (scan w h)"
  obtain m' where m': "pixel_loop ?addr new (scan w h) (?m, (a, b, 0, 0)) = Some (m', fold touch ch (a, b, 0, 0))"
    "length m' = length ?m" "\<forall>c \<in> set (scan w h). new c ?m (?m ! cell (?addr c)) = Some (m' ! cell (?addr c))"
    "\<forall>i. i \<notin> (\<lambda>c. cell (?addr c)) ` set (scan w h) \<longrightarrow> m' ! i = ?m ! i"
    using pixel_loop_spec [OF pre sorted] unfolding ch_def by blast
  let ?bx = "fold touch ch (a, b, 0, 0)"
  let ?r = "restrict_rect rect (flip_box f w h ?bx)"
  have origin: "\<exists>c \<in> set (scan w h). p = ?pos c \<and> c = flip f w h (fst p - rc_x rect, snd p - rc_y rect)"
    if "p \<in> pixels rect" for p
  proof -
    let ?c = "flip f w h (fst p - rc_x rect, snd p - rc_y rect)"
    have "(fst p - rc_x rect, snd p - rc_y rect) \<in> set (scan w h)"
      using that w by (auto simp: set_scan pixels_def)
    then have "?c \<in> set (scan w h)" using flip_set by blast
    then show ?thesis by (intro bexI [of _ ?c]) simp_all
  qed
  have pm: "m' ! cell (?addr c) = pix_at m' (sf_stride s) (?pos c)" for c
    by (simp only: pix_at_def flip_addr fst_conv snd_conv)
  have inside: "\<forall>p \<in> pixels rect. new (flip f w h (fst p - rc_x rect, snd p - rc_y rect)) ?m (pix s p)
       = Some (pix_at m' (sf_stride s) p)"
    using m'(3) origin unfolding pa pm by metis
  have outside: "pix_at m' (sf_stride s) p = pix s p" if p: "p \<in> pixels (bounds s)" "p \<notin> pixels rect" for p
  proof -
    have "cell (sf_stride s * snd p + 4 * fst p) \<noteq> cell (?addr c)" if c: "c \<in> set (scan w h)" for c
    proof
      assume "cell (sf_stride s * snd p + 4 * fst p) = cell (?addr c)"
      then have "nat (sf_width s * snd p + fst p) = nat (sf_width s * snd (?pos c) + fst (?pos c))"
        unfolding ca by (simp only: st cell_at)
      moreover have "0 \<le> sf_width s * snd p + fst p"
        using flat_less(1) [of "fst p" "sf_width s" "snd p" "sf_height s"] p(1) by auto
      ultimately have e: "sf_width s * snd p + fst p = sf_width s * snd (?pos c) + fst (?pos c)"
        using flat(1) [OF c] by (simp add: eq_nat_nat_iff)
      have "p = ?pos c" using flat_inj [OF e] pos(2) [OF c] p(1) by (auto simp: prod_eq_iff)
      with pos(1) [OF c] p(2) show False by simp
    qed
    then show ?thesis using m'(4) unfolding pix_def pix_at_def by blast
  qed
  have fl: "flip_box f w h ?bx = fold touch (map (flip f w h) ch) (a, b, 0, 0)"
  proof -
    have "flip_box f w h (a, b, 0, 0) = (a, b, 0, 0)" using ab by (auto simp: flip_box_def)
    then show ?thesis using fold_touch_flip [of f w h ch "(a, b, 0, 0)"] by simp
  qed
  have sub: "set (map (flip f w h) ch) \<subseteq> {(x, y). 0 \<le> x \<and> x < rc_width rect \<and> 0 \<le> y \<and> y < rc_height rect}"
  proof -
    have "flip f w h c \<in> set (scan w h)" if "c \<in> set ch" for c
      using that flip_set by (simp add: ch_def)
    then have "set (map (flip f w h) ch) \<subseteq> set (scan w h)" by auto
    then show ?thesis using w by (simp add: set_scan)
  qed
  note rr = restrict_rect_ok [OF sub fl [symmetric], folded fl]
  have res: "pix_at m' (sf_stride s) p = pix s p" if p: "p \<in> pixels (bounds s)" "p \<notin> pixels ?r" for p
  proof (cases "p \<in> pixels rect")
    case True
    then obtain c where c: "c \<in> set (scan w h)" "p = ?pos c" using origin by blast
    show ?thesis
    proof (rule ccontr)
      assume "pix_at m' (sf_stride s) p \<noteq> pix s p"
      then have "changed_at ?addr new ?m c" using m'(3) c pa pm by (auto simp: changed_at_def)
      then have "flip f w h c \<in> set (map (flip f w h) ch)" using c(1) by (simp add: ch_def)
      then have "?pos c \<in> pixels ?r" using rr(4) ab w r(2,3) by fastforce
      with c(2) p(2) show False by simp
    qed
  qed (use outside p in blast)
  show ?thesis
    by (rule that [OF m'(1,2) inside _ _ _ _]) (use outside res rr(1-3) ab w r(2,3) in auto)
qed

section \<open>What the routines draw\<close>

text \<open>Only the buffer changes, and only inside a rectangle.\<close>

definition redraws :: "guac_common_surface \<Rightarrow> guac_common_surface \<Rightarrow> guac_common_rect \<Rightarrow> bool" where
  "redraws s s' r \<longleftrightarrow> s' = s\<lparr>sf_buffer := sf_buffer s'\<rparr> \<and> length (sf_buffer s') = length (sf_buffer s)
     \<and> (\<forall>p \<in> pixels (bounds s) - pixels r. pix s' p = pix s p)"

definition inner :: "guac_common_rect \<Rightarrow> guac_common_rect \<Rightarrow> bool" where
  "inner r rect \<longleftrightarrow> within r rect \<and> 0 \<le> rc_width r \<and> 0 \<le> rc_height r"

definition readable :: "u32 list \<Rightarrow> int \<Rightarrow> guac_common_rect \<Rightarrow> bool" where
  "readable m stride r \<longleftrightarrow>
     (\<forall>p \<in> pixels r. pixel_load m (stride * snd p + 4 * fst p) = Some (pix_at m stride p))"

lemma redrawsI:
  "length m = length (sf_buffer s) \<Longrightarrow> \<forall>p \<in> pixels (bounds s) - pixels r. pix_at m (sf_stride s) p = pix s p \<Longrightarrow>
     redraws s (s\<lparr>sf_buffer := m\<rparr>) r"
  by (simp add: redraws_def pix_def)

lemma redraws_fields:
  assumes "redraws s s' r"
  shows "geometry s' = geometry s" "bounds s' = bounds s" "sf_stride s' = sf_stride s"
    "sf_width s' = sf_width s" "sf_height s' = sf_height s"
proof -
  obtain m where m: "s' = s\<lparr>sf_buffer := m\<rparr>" "length m = length (sf_buffer s)"
    using assms by (auto simp: redraws_def)
  show "geometry s' = geometry s" "bounds s' = bounds s" "sf_stride s' = sf_stride s"
    "sf_width s' = sf_width s" "sf_height s' = sf_height s"
    unfolding m(1) by (simp_all add: geometry_def bounds_def m(2))
qed

lemma readable_surface: "geometry s \<Longrightarrow> readable (sf_buffer s) (sf_stride s) (bounds s)"
  unfolding readable_def
proof
  fix p assume g: "geometry s" and p: "p \<in> pixels (bounds s)"
  have f: "0 \<le> sf_width s * snd p + fst p" "sf_width s * snd p + fst p < sf_width s * sf_height s"
    using flat_less p by auto
  have st: "sf_stride s = 4 * sf_width s" using g by (simp add: geometry_def)
  have c: "cell (sf_stride s * snd p + 4 * fst p) = nat (sf_width s * snd p + fst p)"
    unfolding st by (rule cell_at)
  have "0 \<le> sf_stride s * snd p + 4 * fst p" using f(1) unfolding st by (simp add: algebra_simps)
  moreover have "nat (sf_width s * snd p + fst p) < length (sf_buffer s)"
    using g f by (simp add: geometry_def)
  ultimately show "pixel_load (sf_buffer s) (sf_stride s * snd p + 4 * fst p) = Some (pix_at (sf_buffer s) (sf_stride s) p)"
    using c by (simp add: pixel_load_def pix_at_def cell_def)
qed

lemma readable_within: "readable m st r \<Longrightarrow> pixels r' \<subseteq> pixels r \<Longrightarrow> readable m st r'"
  by (auto simp: readable_def)

lemma pixels_within: "within r r' \<Longrightarrow> pixels r \<subseteq> pixels r'"
  by (auto simp: within_def pixels_def)

lemma load_readable:
  assumes "readable m st (guac_common_rect_init x y w h)" and "c \<in> set (scan w h)"
  shows "pixel_load m (rect_addr st x y c) = Some (pix_at m st (x + fst c, y + snd c))"
proof -
  have "(x + fst c, y + snd c) \<in> pixels (guac_common_rect_init x y w h)" using assms(2) by (auto simp: set_scan)
  from assms(1) [unfolded readable_def, THEN bspec, OF this] have "pixel_load m (st * (y + snd c) + 4 * (x + fst c)) = Some (pix_at m st (x + fst c, y + snd c))"
    by simp
  then show ?thesis by (simp add: rect_addr_def algebra_simps)
qed

lemma blit_forward:
  assumes g: "geometry s" and r: "within rect (bounds s)" "0 < rc_width rect" "0 < rc_height rect"
    and new: "\<forall>c \<in> set (scan (rc_width rect) (rc_height rect)). \<forall>m old. new c m old = Some (v c old)"
    and ab: "a = rc_width rect - 1 \<and> b = rc_height rect - 1 \<or> a = rc_width rect \<and> b = rc_height rect"
  obtains m bx where
    "pixel_loop (rect_addr (sf_stride s) (rc_x rect) (rc_y rect)) new (scan (rc_width rect) (rc_height rect))
       (sf_buffer s, (a, b, 0, 0)) = Some (m, bx)"
    "redraws s (s\<lparr>sf_buffer := m\<rparr>) (restrict_rect rect bx)" "inner (restrict_rect rect bx) rect"
    "redraws s (s\<lparr>sf_buffer := m\<rparr>) rect"
    "\<forall>p \<in> pixels rect. pix (s\<lparr>sf_buffer := m\<rparr>) p = v (fst p - rc_x rect, snd p - rc_y rect) (pix s p)"
proof -
  let ?w = "rc_width rect" and ?h = "rc_height rect"
  have some: "\<forall>c \<in> set (scan ?w ?h).
      new c (sf_buffer s) (pix s (rc_x rect + fst (flip True ?w ?h c), rc_y rect + snd (flip True ?w ?h c))) \<noteq> None"
    using new by simp
  have safe: "\<forall>c \<in> set (scan ?w ?h). \<forall>c' \<in> set (scan ?w ?h). before c c' \<longrightarrow>
      (\<forall>m v old. new c' (m[cell (transfer_addr True (sf_stride s) (rc_x rect) (rc_y rect) ?w ?h c) := v]) old = new c' m old)"
    using new by simp
  have ab': "a = ?w - 1 \<and> b = ?h - 1 \<or> True \<and> a = ?w \<and> b = ?h" using ab by simp
  obtain m bx where m: "pixel_loop (transfer_addr True (sf_stride s) (rc_x rect) (rc_y rect) ?w ?h) new (scan ?w ?h) (sf_buffer s, (a, b, 0, 0))
       = Some (m, bx)"
    "length m = length (sf_buffer s)"
    "\<forall>p \<in> pixels rect. new (flip True ?w ?h (fst p - rc_x rect, snd p - rc_y rect)) (sf_buffer s) (pix s p)
       = Some (pix_at m (sf_stride s) p)"
    "\<forall>p \<in> pixels (bounds s) - pixels rect. pix_at m (sf_stride s) p = pix s p"
    "within (restrict_rect rect (flip_box True ?w ?h bx)) rect"
    "0 \<le> rc_width (restrict_rect rect (flip_box True ?w ?h bx))" "0 \<le> rc_height (restrict_rect rect (flip_box True ?w ?h bx))"
    "\<forall>p \<in> pixels (bounds s) - pixels (restrict_rect rect (flip_box True ?w ?h bx)). pix_at m (sf_stride s) p = pix s p"
    by (rule blit [OF g r refl refl some safe ab'])
  have fb: "flip_box True ?w ?h bx = bx" by (cases bx) (simp add: flip_box_def)
  have "pix_at m (sf_stride s) p = v (fst p - rc_x rect, snd p - rc_y rect) (pix s p)" if p: "p \<in> pixels rect" for p
  proof -
    have "(fst p - rc_x rect, snd p - rc_y rect) \<in> set (scan ?w ?h)" using p by (auto simp: set_scan pixels_def)
    then show ?thesis using m(3) p new by (auto simp: flip_def)
  qed
  then show ?thesis
    using that [of m bx] m fb
    by (simp add: rect_addr_flip [of _ _ _ ?w ?h] redrawsI inner_def pix_def)
qed

lemma surface_set_ok:
  assumes "geometry s" and "within rect (bounds s)" and "0 < rc_width rect" and "0 < rc_height rect"
  obtains s' r where "surface_set s rect red green blue alpha = Some (s', r)" "redraws s s' r" "inner r rect"
    "\<forall>p \<in> pixels rect. pix s' p = argb alpha red green blue"
proof -
  let ?new = "\<lambda>c m old. Some (argb alpha red green blue)"
  have new: "\<forall>c \<in> set (scan (rc_width rect) (rc_height rect)). \<forall>m old. ?new c m old = Some ((\<lambda>c old. argb alpha red green blue) c old)"
    by simp
  show ?thesis
    by (rule blit_forward [OF assms new, of "rc_width rect - 1" "rc_height rect - 1"])
      (simp, rule that, auto simp: surface_set_def)
qed

lemma surface_put_ok:
  assumes "geometry s" and "within rect (bounds s)" and "0 < rc_width rect" and "0 < rc_height rect"
    and "readable src st (guac_common_rect_init sx sy (rc_width rect) (rc_height rect))"
  obtains s' r where
    "surface_put src st sx sy s rect op = Some (s', r, sx + (rc_x r - rc_x rect), sy + (rc_y r - rc_y rect))"
    "redraws s s' r" "inner r rect"
    "\<forall>p \<in> pixels rect. pix s' p = (let c = pix_at src st (sx + (fst p - rc_x rect), sy + (snd p - rc_y rect)) in
       if op then c OR 0xFF000000 else argb_blend (pix s p) c)"
proof -
  let ?v = "\<lambda>c old. let col = pix_at src st (sx + fst c, sy + snd c) in
      if op then col OR 0xFF000000 else argb_blend old col"
  let ?new = "\<lambda>c m dst_color. map_option (\<lambda>src_color. if op then src_color OR 0xFF000000 else argb_blend dst_color src_color)
      (pixel_load src (rect_addr st sx sy c))"
  have new: "\<forall>c \<in> set (scan (rc_width rect) (rc_height rect)). \<forall>m :: u32 list. \<forall>old. ?new c m old = Some (?v c old)"
    using load_readable [OF assms(5)] by (simp add: Let_def)
  show ?thesis
    by (rule blit_forward [OF assms(1-4) new, of "rc_width rect" "rc_height rect"])
      (simp, rule that, auto simp: surface_put_def Let_def)
qed

lemma surface_fill_mask_ok:
  assumes "geometry s" and "within rect (bounds s)" and "0 < rc_width rect" and "0 < rc_height rect"
    and "readable src st (guac_common_rect_init sx sy (rc_width rect) (rc_height rect))"
  obtains s' where "surface_fill_mask src st sx sy s rect red green blue = Some s'" "redraws s s' rect"
    "\<forall>p \<in> pixels rect. pix s' p =
       (if pix_at src st (sx + (fst p - rc_x rect), sy + (snd p - rc_y rect)) AND 0xFF000000 \<noteq> 0
        then 0xFF000000 OR argb 0 red green blue else pix s p)"
proof -
  let ?col = "0xFF000000 OR argb 0 red green blue"
  let ?v = "\<lambda>c old. if pix_at src st (sx + fst c, sy + snd c) AND 0xFF000000 \<noteq> 0 then ?col else old"
  let ?new = "\<lambda>c m dst_color. map_option (\<lambda>mask. if mask AND 0xFF000000 \<noteq> 0 then ?col else dst_color)
      (pixel_load src (rect_addr st sx sy c))"
  have new: "\<forall>c \<in> set (scan (rc_width rect) (rc_height rect)). \<forall>m :: u32 list. \<forall>old. ?new c m old = Some (?v c old)"
    using load_readable [OF assms(5)] by simp
  show ?thesis
    by (rule blit_forward [OF assms(1-4) new, of "rc_width rect" "rc_height rect"])
      (simp, rule that, auto simp: surface_fill_mask_def Let_def)
qed

lemma surface_transfer_other_ok:
  assumes "geometry s" and "within rect (bounds s)" and "0 < rc_width rect" and "0 < rc_height rect"
    and "readable (sf_buffer src) (sf_stride src) (guac_common_rect_init sx sy (rc_width rect) (rc_height rect))"
  obtains s' r where
    "surface_transfer (Some src) sx sy op s rect = Some (s', r, sx + (rc_x r - rc_x rect), sy + (rc_y r - rc_y rect))"
    "redraws s s' r" "inner r rect"
    "\<forall>p \<in> pixels rect. pix s' p
       = transfer_int op (pix src (sx + (fst p - rc_x rect), sy + (snd p - rc_y rect))) (pix s p)"
proof -
  let ?v = "\<lambda>c old. transfer_int op (pix src (sx + fst c, sy + snd c)) old"
  let ?new = "\<lambda>c m d. map_option (\<lambda>v. transfer_int op v d)
      (pixel_load (sf_buffer src) (rect_addr (sf_stride src) sx sy c))"
  have new: "\<forall>c \<in> set (scan (rc_width rect) (rc_height rect)). \<forall>m :: u32 list. \<forall>old. ?new c m old = Some (?v c old)"
    using load_readable [OF assms(5)] by (simp add: pix_def)
  show ?thesis
    by (rule blit_forward [OF assms(1-4) new, of "rc_width rect - 1" "rc_height rect - 1"])
      (simp, rule that, auto simp: surface_transfer_def Let_def transfer_forwards_def
        rect_addr_flip [of _ _ _ "rc_width rect" "rc_height rect"])
qed

text \<open>
  A transfer within one surface, whose rectangles may overlap: the order of the loop makes
  the result the one of reading all source pixels first.
\<close>

lemma surface_transfer_same_ok:
  assumes "geometry s" and "within rect (bounds s)" and "0 < rc_width rect" and "0 < rc_height rect"
    and "within (guac_common_rect_init sx sy (rc_width rect) (rc_height rect)) (bounds s)"
  obtains s' r where
    "surface_transfer None sx sy op s rect = Some (s', r, sx + (rc_x r - rc_x rect), sy + (rc_y r - rc_y rect))"
    "redraws s s' r" "redraws s s' rect" "inner r rect"
    "\<forall>p \<in> pixels rect. pix s' p
       = transfer_int op (pix s (sx + (fst p - rc_x rect), sy + (snd p - rc_y rect))) (pix s p)"
proof -
  let ?w = "rc_width rect" and ?h = "rc_height rect"
  define f where "f = transfer_forwards False sx sy rect"
  let ?new = "\<lambda>c m d. map_option (\<lambda>v. transfer_int op v d) (pixel_load m (transfer_addr f (sf_stride s) sx sy ?w ?h c))"
  let ?spos = "\<lambda>c. (sx + fst (flip f ?w ?h c), sy + snd (flip f ?w ?h c))"
  have st: "sf_stride s = 4 * sf_width s" using assms(1) by (simp add: geometry_def)
  have rd: "readable (sf_buffer s) (sf_stride s) (guac_common_rect_init sx sy ?w ?h)"
    using readable_within [OF readable_surface [OF assms(1)]] pixels_within [OF assms(5)] by blast
  have src: "?spos c \<in> pixels (bounds s)" "pixel_load (sf_buffer s) (transfer_addr f (sf_stride s) sx sy ?w ?h c) = Some (pix s (?spos c))"
    if "c \<in> set (scan ?w ?h)" for c
  proof -
    have "flip f ?w ?h c \<in> set (scan ?w ?h)" using that flip_set by blast
    then have i: "?spos c \<in> pixels (guac_common_rect_init sx sy ?w ?h)" by (auto simp: set_scan)
    then show "?spos c \<in> pixels (bounds s)" using pixels_within [OF assms(5)] by blast
    show "pixel_load (sf_buffer s) (transfer_addr f (sf_stride s) sx sy ?w ?h c) = Some (pix s (?spos c))"
      using rd [unfolded readable_def, THEN bspec, OF i] unfolding flip_addr pix_def by simp
  qed
  have some: "\<forall>c \<in> set (scan ?w ?h). ?new c (sf_buffer s) (pix s (rc_x rect + fst (flip f ?w ?h c), rc_y rect + snd (flip f ?w ?h c))) \<noteq> None"
    using src(2) by simp
  have "cell (transfer_addr f (sf_stride s) (rc_x rect) (rc_y rect) ?w ?h c) \<noteq> cell (transfer_addr f (sf_stride s) sx sy ?w ?h c')"
    if c: "c \<in> set (scan ?w ?h)" "c' \<in> set (scan ?w ?h)" "before c c'" for c c'
  proof
    let ?d = "(rc_x rect + fst (flip f ?w ?h c), rc_y rect + snd (flip f ?w ?h c))"
    have "flip f ?w ?h c \<in> set (scan ?w ?h)" using c(1) flip_set by blast
    then have "?d \<in> pixels rect" by (auto simp: set_scan pixels_def)
    then have db: "?d \<in> pixels (bounds s)" using pixels_within [OF assms(2)] by blast
    have le: "0 \<le> sf_width s * snd p + fst p" if "p \<in> pixels (bounds s)" for p
      using that flat_less(1) by auto
    assume "cell (transfer_addr f (sf_stride s) (rc_x rect) (rc_y rect) ?w ?h c)
        = cell (transfer_addr f (sf_stride s) sx sy ?w ?h c')"
    then have "nat (sf_width s * snd ?d + fst ?d) = nat (sf_width s * snd (?spos c') + fst (?spos c'))"
      unfolding flip_addr st cell_at by simp
    then have e: "sf_width s * snd ?d + fst ?d = sf_width s * snd (?spos c') + fst (?spos c')"
      using le [OF db] le [OF src(1) [OF c(2)]] eq_nat_nat_iff by blast
    have "snd ?d = snd (?spos c')" "fst ?d = fst (?spos c')"
      using flat_inj [OF e] db src(1) [OF c(2)] by auto
    then show False using c(3) unfolding f_def
      by (auto simp: before_def flip_def transfer_forwards_def split: if_splits)
  qed
  then have safe: "\<forall>c \<in> set (scan ?w ?h). \<forall>c' \<in> set (scan ?w ?h). before c c' \<longrightarrow>
      (\<forall>m v old. ?new c' (m[cell (transfer_addr f (sf_stride s) (rc_x rect) (rc_y rect) ?w ?h c) := v]) old = ?new c' m old)"
    by (simp add: pixel_load_def cell_def)
  have ab: "?w - 1 = ?w - 1 \<and> ?h - 1 = ?h - 1 \<or> f \<and> ?w - 1 = ?w \<and> ?h - 1 = ?h" by simp
  obtain m bx where m: "pixel_loop (transfer_addr f (sf_stride s) (rc_x rect) (rc_y rect) ?w ?h) ?new (scan ?w ?h)
        (sf_buffer s, (?w - 1, ?h - 1, 0, 0)) = Some (m, bx)"
    "length m = length (sf_buffer s)"
    "\<forall>p \<in> pixels rect. ?new (flip f ?w ?h (fst p - rc_x rect, snd p - rc_y rect)) (sf_buffer s) (pix s p)
       = Some (pix_at m (sf_stride s) p)"
    "\<forall>p \<in> pixels (bounds s) - pixels rect. pix_at m (sf_stride s) p = pix s p"
    "within (restrict_rect rect (flip_box f ?w ?h bx)) rect"
    "0 \<le> rc_width (restrict_rect rect (flip_box f ?w ?h bx))" "0 \<le> rc_height (restrict_rect rect (flip_box f ?w ?h bx))"
    "\<forall>p \<in> pixels (bounds s) - pixels (restrict_rect rect (flip_box f ?w ?h bx)). pix_at m (sf_stride s) p = pix s p"
    by (rule blit [OF assms(1-4) refl refl some safe ab])
  have v: "pix_at m (sf_stride s) p = transfer_int op (pix s (sx + (fst p - rc_x rect), sy + (snd p - rc_y rect))) (pix s p)"
    if p: "p \<in> pixels rect" for p
  proof -
    let ?c = "flip f ?w ?h (fst p - rc_x rect, snd p - rc_y rect)"
    have "(fst p - rc_x rect, snd p - rc_y rect) \<in> set (scan ?w ?h)" using p by (auto simp: set_scan pixels_def)
    then have "?c \<in> set (scan ?w ?h)" using flip_set by blast
    from src(2) [OF this] m(3) p show ?thesis by fastforce
  qed
  let ?r = "restrict_rect rect (flip_box f ?w ?h bx)"
  have "surface_transfer None sx sy op s rect
      = Some (s\<lparr>sf_buffer := m\<rparr>, ?r, sx + (rc_x ?r - rc_x rect), sy + (rc_y ?r - rc_y rect))"
    using m(1) by (simp add: surface_transfer_def Let_def flip: f_def) (simp add: flip_box_def split: prod.split)
  moreover have "redraws s (s\<lparr>sf_buffer := m\<rparr>) ?r" "redraws s (s\<lparr>sf_buffer := m\<rparr>) rect"
    using m by (auto intro!: redrawsI)
  ultimately show ?thesis using that m(5-7) v by (simp add: inner_def pix_def)
qed

section \<open>Overlapping copies\<close>

text \<open>The picture in which all pixels of a rectangle are replaced at once, from the old picture.\<close>

definition simultaneous ::
  "int \<Rightarrow> guac_common_surface \<Rightarrow> int \<Rightarrow> int \<Rightarrow> guac_common_rect \<Rightarrow> int \<times> int \<Rightarrow> u32" where
  "simultaneous op s sx sy rect p =
     (if p \<in> pixels rect
      then transfer_int op (pix s (sx + (fst p - rc_x rect), sy + (snd p - rc_y rect))) (pix s p)
      else pix s p)"

text \<open>
  C17. A transfer from a surface to itself, with any of the 16 functions and however the two
  rectangles overlap, gives the picture of the simultaneous transfer and leaves no changed pixel outside the
  rectangle it reports.
\<close>

theorem transfer_simultaneous:
  assumes "geometry s" and "within rect (bounds s)" and "0 < rc_width rect" and "0 < rc_height rect"
    and "within (guac_common_rect_init sx sy (rc_width rect) (rc_height rect)) (bounds s)"
  shows "\<exists>s' r. surface_transfer None sx sy op s rect
        = Some (s', r, sx + (rc_x r - rc_x rect), sy + (rc_y r - rc_y rect))
     \<and> (\<forall>p \<in> pixels (bounds s). pix s' p = simultaneous op s sx sy rect p)
     \<and> inner r rect \<and> (\<forall>p \<in> pixels (bounds s). pix s' p \<noteq> pix s p \<longrightarrow> p \<in> pixels r)"
proof (rule surface_transfer_same_ok [OF assms])
  fix s' r
  assume a: "surface_transfer None sx sy op s rect = Some (s', r, sx + (rc_x r - rc_x rect), sy + (rc_y r - rc_y rect))"
    and r: "redraws s s' r" "redraws s s' rect" "inner r rect"
    and p: "\<forall>p \<in> pixels rect. pix s' p
       = transfer_int op (pix s (sx + (fst p - rc_x rect), sy + (snd p - rc_y rect))) (pix s p)"
  have "pix s' q = simultaneous op s sx sy rect q" if "q \<in> pixels (bounds s)" for q
    using p r(2) that by (cases "q \<in> pixels rect") (simp_all add: simultaneous_def redraws_def)
  moreover have "\<forall>p \<in> pixels (bounds s). pix s' p \<noteq> pix s p \<longrightarrow> p \<in> pixels r"
    using r(1) unfolding redraws_def by blast
  ultimately show ?thesis using a r(3) by blast
qed

definition strip :: guac_common_surface where
  "strip = \<lparr>sf_layer = 0, sf_x = 0, sf_y = 0, sf_z = 0, sf_opacity = 255, sf_parent = 0, sf_width = 3, sf_height = 1,
     sf_stride = 12, sf_buffer = [1, 2, 3], sf_location_dirty = False, sf_opacity_dirty = False,
     sf_dirty = False, sf_dirty_rect = guac_common_rect_init 0 0 0 0, sf_realized = True, sf_clipped = False,
     sf_clip_rect = guac_common_rect_init 0 0 0 0, sf_bitmap_queue = [], sf_heat_map = []\<rparr>"

theorem transfer_simultaneous_witness:
  "\<exists>s' r. surface_transfer None 0 0 0x3 strip (guac_common_rect_init 1 0 2 1) = Some (s', r, rc_x r - 1, rc_y r)
     \<and> pix s' (1, 0) = 1 \<and> pix s' (2, 0) = 2"
proof -
  have p: "(1, 0) \<in> pixels (bounds strip)" "(2, 0) \<in> pixels (bounds strip)" by (simp_all add: strip_def)
  have v: "simultaneous 0x3 strip 0 0 (guac_common_rect_init 1 0 2 1) (1, 0) = 1"
    "simultaneous 0x3 strip 0 0 (guac_common_rect_init 1 0 2 1) (2, 0) = 2"
    by (simp_all add: simultaneous_def transfer_int_def pix_def pix_at_def cell_def strip_def guac_common_rect_init_def pixels_def)
  have "geometry strip" "within (guac_common_rect_init 1 0 2 1) (bounds strip)"
    "within (guac_common_rect_init 0 0 (rc_width (guac_common_rect_init 1 0 2 1)) (rc_height (guac_common_rect_init 1 0 2 1))) (bounds strip)"
    "0 < rc_width (guac_common_rect_init 1 0 2 1)" "0 < rc_height (guac_common_rect_init 1 0 2 1)"
    by (simp_all add: geometry_def strip_def within_def bounds_def guac_common_rect_init_def)
  from transfer_simultaneous [OF this(1,2,4,5,3), of 3] v p show ?thesis
    by (auto simp: guac_common_rect_init_def)
qed

end
