(* ===== verification/Surface.thy ===== *)
theory Surface
  imports Surface_Pixels
begin

text \<open>
  \<open>common/src/surface.c\<close>, second part: the heat map, the queue of bitmap updates, flushing, and the
  public operations.

  Every call of a send function (of \<open>protocol.c\<close>, or an image stream of \<open>client.c\<close>) is recorded with its
  arguments, in order; an image is what Cairo is given of the buffer. \<open>webp\<close> is the answer of
  \<open>guac_client_supports_webp\<close>, \<open>time\<close> that of \<open>guac_timestamp_current\<close>. \<open>None\<close> is an access outside the buffer,
  the heat map or the queue.
\<close>

datatype surface_call =
    Layer_Call "unit layer_message"
  | Path_Call "unit path_message"
  | Paint_Call paint_message
  | Png_Call int int int int cairo_image
  | Jpeg_Call int int int int cairo_image int
  | Webp_Call int int int int cairo_image int bool

definition GUAC_COMP_OVER :: int where "GUAC_COMP_OVER = 0xE"
definition GUAC_COMP_ROUT :: int where "GUAC_COMP_ROUT = 0x2"
definition GUAC_TRANSFER_BINARY_SRC :: int where "GUAC_TRANSFER_BINARY_SRC = 0x3"

section \<open>The heat map\<close>

definition GUAC_COMMON_SURFACE_HEAT_CELL_SIZE :: int where "GUAC_COMMON_SURFACE_HEAT_CELL_SIZE = 64"
definition GUAC_COMMON_SURFACE_HEAT_CELL_HISTORY_SIZE :: int where "GUAC_COMMON_SURFACE_HEAT_CELL_HISTORY_SIZE = 5"

definition HEAT_DIMENSION :: "int \<Rightarrow> int" where
  "HEAT_DIMENSION x = (x + GUAC_COMMON_SURFACE_HEAT_CELL_SIZE - 1) sdiv GUAC_COMMON_SURFACE_HEAT_CELL_SIZE"

text \<open>The cells a rectangle covers: the first, and the last as the code computes it.\<close>

definition heat_range :: "guac_common_rect \<Rightarrow> (int \<times> int) \<times> (int \<times> int)" where
  "heat_range rect =
     (let min_x = rc_x rect sdiv GUAC_COMMON_SURFACE_HEAT_CELL_SIZE;
          min_y = rc_y rect sdiv GUAC_COMMON_SURFACE_HEAT_CELL_SIZE;
          max_x = min_x + (rc_width rect - 1) sdiv GUAC_COMMON_SURFACE_HEAT_CELL_SIZE;
          max_y = min_y + (rc_height rect - 1) sdiv GUAC_COMMON_SURFACE_HEAT_CELL_SIZE in
      ((min_x, min_y), (max_x, max_y)))"

definition heat_indices :: "int \<Rightarrow> int list \<Rightarrow> int list \<Rightarrow> int list" where
  "heat_indices heat_width xs ys = concat (map (\<lambda>y. map (\<lambda>x. y * heat_width + x) xs) ys)"

definition heat_cell :: "guac_common_surface_heat_cell list \<Rightarrow> int \<Rightarrow> guac_common_surface_heat_cell option" where
  "heat_cell cs i = (if 0 \<le> i \<and> nat i < length cs then Some (cs ! nat i) else None)"

definition cell_elapsed :: "guac_common_surface_heat_cell \<Rightarrow> int" where
  "cell_elapsed c =
     (let latest = hc_oldest_entry c - 1;
          latest = (if latest < 0 then GUAC_COMMON_SURFACE_HEAT_CELL_HISTORY_SIZE - 1 else latest) in
      wrap32 (hc_history c ! nat latest - hc_history c ! nat (hc_oldest_entry c)))"

fun framerate_loop :: "guac_common_surface_heat_cell list \<Rightarrow> int list \<Rightarrow> u32 \<Rightarrow> u32 \<Rightarrow> (u32 \<times> u32) option" where
  "framerate_loop hm [] frames count = Some (frames, count)"
| "framerate_loop hm (i # is) frames count =
     (case heat_cell hm i of None \<Rightarrow> None
      | Some c \<Rightarrow>
          let elapsed = cell_elapsed c in
          framerate_loop hm is
            (if elapsed \<noteq> 0
             then frames + word_of_int (GUAC_COMMON_SURFACE_HEAT_CELL_HISTORY_SIZE * 1000 sdiv elapsed) else frames)
            (count + 1))"

text \<open>The last row and the last column are left out here: the loops of the code stop before them.\<close>

definition calculate_framerate :: "guac_common_surface \<Rightarrow> guac_common_rect \<Rightarrow> u32 option" where
  "calculate_framerate s rect =
     (case heat_range rect of ((min_x, min_y), (max_x, max_y)) \<Rightarrow>
        map_option (\<lambda>(frames, count). if count \<noteq> 0 then frames div count else 0)
          (framerate_loop (sf_heat_map s)
             (heat_indices (HEAT_DIMENSION (sf_width s)) [min_x..max_x - 1] [min_y..max_y - 1]) 0 0))"

definition touch_cell :: "int \<Rightarrow> guac_common_surface_heat_cell \<Rightarrow> guac_common_surface_heat_cell" where
  "touch_cell time c =
     (let entry = hc_oldest_entry c + 1 in
      c\<lparr>hc_history := (hc_history c)[nat (hc_oldest_entry c) := time],
        hc_oldest_entry := (if entry \<ge> GUAC_COMMON_SURFACE_HEAT_CELL_HISTORY_SIZE then 0 else entry)\<rparr>)"

fun touch_loop ::
  "int \<Rightarrow> int list \<Rightarrow> guac_common_surface_heat_cell list \<Rightarrow> guac_common_surface_heat_cell list option" where
  "touch_loop time [] hm = Some hm"
| "touch_loop time (i # is) hm =
     (case heat_cell hm i of None \<Rightarrow> None
      | Some c \<Rightarrow> touch_loop time is (hm[nat i := touch_cell time c]))"

definition touch_rect :: "guac_common_surface \<Rightarrow> guac_common_rect \<Rightarrow> int \<Rightarrow> guac_common_surface option" where
  "touch_rect s rect time =
     (case heat_range rect of ((min_x, min_y), (max_x, max_y)) \<Rightarrow>
        map_option (\<lambda>hm. s\<lparr>sf_heat_map := hm\<rparr>)
          (touch_loop time (heat_indices (HEAT_DIMENSION (sf_width s)) [min_x..max_x] [min_y..max_y])
             (sf_heat_map s)))"

section \<open>The choice of an encoding\<close>

definition GUAC_COMMON_SURFACE_JPEG_FRAMERATE :: int where "GUAC_COMMON_SURFACE_JPEG_FRAMERATE = 3"
definition GUAC_SURFACE_JPEG_MIN_BITMAP_SIZE :: int where "GUAC_SURFACE_JPEG_MIN_BITMAP_SIZE = 4096"
definition GUAC_SURFACE_JPEG_IMAGE_QUALITY :: int where "GUAC_SURFACE_JPEG_IMAGE_QUALITY = 90"
definition GUAC_SURFACE_WEBP_IMAGE_QUALITY :: int where "GUAC_SURFACE_WEBP_IMAGE_QUALITY = 90"
definition GUAC_SURFACE_JPEG_BLOCK_SIZE :: int where "GUAC_SURFACE_JPEG_BLOCK_SIZE = 16"
definition GUAC_SURFACE_WEBP_BLOCK_SIZE :: int where "GUAC_SURFACE_WEBP_BLOCK_SIZE = 8"

definition should_use_jpeg :: "guac_common_surface \<Rightarrow> guac_common_rect \<Rightarrow> bool option" where
  "should_use_jpeg s rect =
     (case calculate_framerate s rect of None \<Rightarrow> None
      | Some framerate \<Rightarrow>
          if sint framerate \<ge> GUAC_COMMON_SURFACE_JPEG_FRAMERATE
             \<and> rc_width rect * rc_height rect > GUAC_SURFACE_JPEG_MIN_BITMAP_SIZE
          then map_option (\<lambda>n. n < 0) (png_optimality s rect) else Some False)"

definition should_use_webp :: "bool \<Rightarrow> guac_common_surface \<Rightarrow> guac_common_rect \<Rightarrow> bool option" where
  "should_use_webp webp s rect =
     (if \<not> webp then Some False
      else case calculate_framerate s rect of None \<Rightarrow> None
      | Some framerate \<Rightarrow>
          if sint framerate \<ge> GUAC_COMMON_SURFACE_JPEG_FRAMERATE
          then map_option (\<lambda>n. n < 0) (png_optimality s rect) else Some False)"

section \<open>Flushing\<close>

definition dirty_image :: "guac_common_surface \<Rightarrow> cairo_format \<Rightarrow> cairo_image" where
  "dirty_image s format =
     (let r = sf_dirty_rect s in
      \<lparr>ci_data = drop (nat ((rc_y r * sf_stride s + rc_x r * 4) div 4)) (sf_buffer s), ci_format = format,
       ci_stride = sf_stride s, ci_width = rc_width r, ci_height = rc_height r\<rparr>)"

definition flush_to_png :: "guac_common_surface \<Rightarrow> bool \<Rightarrow> surface_call list \<times> guac_common_surface" where
  "flush_to_png s opaque =
     (if sf_dirty s then
        let r = sf_dirty_rect s; layer = sf_layer s;
            clear = [Path_Call (Send_rect layer (rc_x r) (rc_y r) (rc_width r) (rc_height r)),
                     Paint_Call (Send_cfill GUAC_COMP_ROUT layer 0 0 0 0xFF)];
            send = Png_Call GUAC_COMP_OVER layer (rc_x r) (rc_y r)
                     (dirty_image s (if opaque then CAIRO_FORMAT_RGB24 else CAIRO_FORMAT_ARGB32)) in
        (if opaque then [send] else clear @ [send], s\<lparr>sf_realized := True, sf_dirty := False\<rparr>)
      else ([], s))"

definition expand_dirty :: "int \<Rightarrow> guac_common_surface \<Rightarrow> guac_common_surface" where
  "expand_dirty cell_size s =
     s\<lparr>sf_dirty_rect := snd (guac_common_rect_expand_to_grid cell_size (sf_dirty_rect s)
         (guac_common_rect_init 0 0 (sf_width s) (sf_height s)))\<rparr>"

definition flush_to_jpeg :: "guac_common_surface \<Rightarrow> surface_call list \<times> guac_common_surface" where
  "flush_to_jpeg s =
     (if sf_dirty s then
        let s = expand_dirty GUAC_SURFACE_JPEG_BLOCK_SIZE s; r = sf_dirty_rect s in
        ([Jpeg_Call GUAC_COMP_OVER (sf_layer s) (rc_x r) (rc_y r) (dirty_image s CAIRO_FORMAT_RGB24)
            GUAC_SURFACE_JPEG_IMAGE_QUALITY],
         s\<lparr>sf_realized := True, sf_dirty := False\<rparr>)
      else ([], s))"

definition flush_to_webp :: "guac_common_surface \<Rightarrow> bool \<Rightarrow> surface_call list \<times> guac_common_surface" where
  "flush_to_webp s opaque =
     (if sf_dirty s then
        let s = expand_dirty GUAC_SURFACE_WEBP_BLOCK_SIZE s; r = sf_dirty_rect s in
        ([Webp_Call GUAC_COMP_OVER (sf_layer s) (rc_x r) (rc_y r)
            (dirty_image s (if opaque then CAIRO_FORMAT_RGB24 else CAIRO_FORMAT_ARGB32))
            GUAC_SURFACE_WEBP_IMAGE_QUALITY False],
         s\<lparr>sf_realized := True, sf_dirty := False\<rparr>)
      else ([], s))"

text \<open>The part of \<open>__guac_common_surface_flush\<close> that sends the dirty rectangle.\<close>

definition flush_bitmap ::
  "bool \<Rightarrow> guac_common_surface \<Rightarrow> (surface_call list \<times> guac_common_surface) option" where
  "flush_bitmap webp s =
     (case is_opaque s (sf_dirty_rect s) of None \<Rightarrow> None
      | Some opaque \<Rightarrow>
          case should_use_webp webp s (sf_dirty_rect s) of None \<Rightarrow> None
          | Some True \<Rightarrow> Some (flush_to_webp s opaque)
          | Some False \<Rightarrow>
              if opaque then
                (case should_use_jpeg s (sf_dirty_rect s) of None \<Rightarrow> None
                 | Some True \<Rightarrow> Some (flush_to_jpeg s)
                 | Some False \<Rightarrow> Some (flush_to_png s opaque))
              else Some (flush_to_png s opaque))"

definition GUAC_COMMON_SURFACE_QUEUE_SIZE :: nat where "GUAC_COMMON_SURFACE_QUEUE_SIZE = 256"

definition flush_to_queue :: "guac_common_surface \<Rightarrow> guac_common_surface option" where
  "flush_to_queue s =
     (if \<not> sf_dirty s then Some s
      else if length (sf_bitmap_queue s) \<ge> GUAC_COMMON_SURFACE_QUEUE_SIZE then None
      else Some (s\<lparr>sf_bitmap_queue := sf_bitmap_queue s @ [\<lparr>br_flushed = False, br_rect = sf_dirty_rect s\<rparr>],
                   sf_dirty := False\<rparr>))"

definition bitmap_rect_compare :: "guac_common_surface_bitmap_rect \<Rightarrow> guac_common_surface_bitmap_rect \<Rightarrow> int" where
  "bitmap_rect_compare a b =
     (let ra = br_rect a; rb = br_rect b in
      if rc_y ra \<noteq> rc_y rb then rc_y ra - rc_y rb
      else if rc_x ra \<noteq> rc_x rb then rc_x ra - rc_x rb
      else if rc_width ra \<noteq> rc_width rb then rc_width rb - rc_width ra
      else rc_height ra - rc_height rb)"

text \<open>\<open>qsort\<close> with this comparison; elements it calls equal are equal rectangles.\<close>

fun insert_update ::
  "guac_common_surface_bitmap_rect \<Rightarrow> guac_common_surface_bitmap_rect list \<Rightarrow> guac_common_surface_bitmap_rect list" where
  "insert_update a [] = [a]"
| "insert_update a (b # bs) =
     (if bitmap_rect_compare a b \<le> 0 then a # b # bs else b # insert_update a bs)"

definition sort_updates :: "guac_common_surface_bitmap_rect list \<Rightarrow> guac_common_surface_bitmap_rect list" where
  "sort_updates q = foldr insert_update q []"

text \<open>
  The inner loop of the flush, over the candidates from the current one on: one candidate, then all.
\<close>

definition combine_step ::
  "guac_common_surface_bitmap_rect \<Rightarrow> guac_common_surface \<Rightarrow> int \<Rightarrow>
   guac_common_surface_bitmap_rect \<times> guac_common_surface \<times> int" where
  "combine_step c s combined =
     (if br_flushed c then (c, s, combined)
      else
        let r = fst (bound_rect s (br_rect c)) in
        if rc_width r \<le> 0 \<or> rc_height r \<le> 0 then (c\<lparr>br_rect := r, br_flushed := True\<rparr>, s, combined)
        else if should_combine s r False \<or> \<not> sf_dirty s
        then (c\<lparr>br_rect := r, br_flushed := True\<rparr>, mark_dirty s r, combined + 1)
        else (c\<lparr>br_rect := r\<rparr>, s, combined))"

fun combine_loop ::
  "guac_common_surface_bitmap_rect list \<Rightarrow> guac_common_surface \<Rightarrow> int \<Rightarrow>
   guac_common_surface_bitmap_rect list \<times> guac_common_surface \<times> int" where
  "combine_loop [] s combined = ([], s, combined)"
| "combine_loop (c # cs) s combined =
     (case combine_step c s combined of (c, s, combined) \<Rightarrow>
        case combine_loop cs s combined of (cs, s, combined) \<Rightarrow> (c # cs, s, combined))"

text \<open>
  The body of the outer loop, at index \<open>i\<close>. A re-added rectangle makes the queue longer while the loop
  runs, but never longer than \<open>GUAC_COMMON_SURFACE_QUEUE_SIZE\<close>.
\<close>

definition flush_step ::
  "bool \<Rightarrow> nat \<Rightarrow> nat \<Rightarrow> guac_common_surface \<Rightarrow> (surface_call list \<times> guac_common_surface) option" where
  "flush_step webp original i s =
     (if br_flushed (sf_bitmap_queue s ! i) then Some ([], s)
      else
        case combine_loop (drop i (sf_bitmap_queue s)) s 0 of (cs, s, combined) \<Rightarrow>
          let s = s\<lparr>sf_bitmap_queue := take i (sf_bitmap_queue s) @ cs\<rparr> in
          if (combined > 1 \<or> i < original) \<and> length (sf_bitmap_queue s) < GUAC_COMMON_SURFACE_QUEUE_SIZE
          then map_option (Pair []) (flush_to_queue s)
          else if sf_dirty s then flush_bitmap webp s
          else Some ([], s))"

lemma combine_step_queue: "combine_step c s n = (c', s', n') \<Longrightarrow> sf_bitmap_queue s' = sf_bitmap_queue s"
  by (auto simp: combine_step_def Let_def mark_dirty_def split: if_splits)

lemma combine_loop_length:
  "combine_loop cs s n = (cs', s', n') \<Longrightarrow> length cs' = length cs \<and> sf_bitmap_queue s' = sf_bitmap_queue s"
proof (induction cs arbitrary: s n cs' s' n')
  case (Cons c cs)
  obtain c1 s1 n1 where c: "combine_step c s n = (c1, s1, n1)" by (metis prod_cases3)
  obtain cs2 s2 n2 where l: "combine_loop cs s1 n1 = (cs2, s2, n2)" by (metis prod_cases3)
  from Cons.IH [OF l] combine_step_queue [OF c] Cons.prems c l show ?case by auto
qed simp

lemma flush_to_queue_length:
  "flush_to_queue s = Some s' \<Longrightarrow> length (sf_bitmap_queue s') \<le> Suc (length (sf_bitmap_queue s))"
  by (auto simp: flush_to_queue_def split: if_splits)

lemma flush_bitmap_queue: "flush_bitmap webp s = Some (msgs, s') \<Longrightarrow> sf_bitmap_queue s' = sf_bitmap_queue s"
  by (auto simp: flush_bitmap_def flush_to_webp_def flush_to_jpeg_def flush_to_png_def expand_dirty_def Let_def
      split: option.splits bool.splits if_splits)

lemma flush_step_length:
  assumes "flush_step webp original i s = Some (msgs, s')" and "i < length (sf_bitmap_queue s)"
  shows "length (sf_bitmap_queue s') \<le> max (length (sf_bitmap_queue s)) GUAC_COMMON_SURFACE_QUEUE_SIZE"
proof (cases "br_flushed (sf_bitmap_queue s ! i)")
  case True
  then show ?thesis using assms(1) by (simp add: flush_step_def)
next
  case False
  obtain cs s1 n where c: "combine_loop (drop i (sf_bitmap_queue s)) s 0 = (cs, s1, n)" by (metis prod_cases3)
  let ?s = "s1\<lparr>sf_bitmap_queue := take i (sf_bitmap_queue s1) @ cs\<rparr>"
  have l: "length (sf_bitmap_queue ?s) = length (sf_bitmap_queue s)"
    using combine_loop_length [OF c] assms(2) by simp
  show ?thesis
    using assms(1) False c l flush_to_queue_length [of ?s s'] flush_bitmap_queue [of webp ?s msgs s']
    by (auto simp: flush_step_def Let_def split: if_splits)
qed

function flush_loop ::
  "bool \<Rightarrow> nat \<Rightarrow> nat \<Rightarrow> guac_common_surface \<Rightarrow> (surface_call list \<times> guac_common_surface) option" where
  "flush_loop webp original i s =
     (if length (sf_bitmap_queue s) \<le> i then Some ([], s)
      else
        case flush_step webp original i s of None \<Rightarrow> None
        | Some (msgs, s) \<Rightarrow>
            map_option (\<lambda>(more, s). (msgs @ more, s)) (flush_loop webp original (Suc i) s))"
  by pat_completeness auto
termination
  by (relation "measure (\<lambda>(webp, original, i, s). max (length (sf_bitmap_queue s)) GUAC_COMMON_SURFACE_QUEUE_SIZE - i)")
    (use flush_step_length in fastforce)+

declare flush_loop.simps [simp del]

definition surface_flush ::
  "bool \<Rightarrow> guac_common_surface \<Rightarrow> (surface_call list \<times> guac_common_surface) option" where
  "surface_flush webp s =
     (case flush_to_queue s of None \<Rightarrow> None
      | Some s \<Rightarrow>
          map_option (\<lambda>(msgs, s). (msgs, s\<lparr>sf_bitmap_queue := []\<rparr>))
            (flush_loop webp (length (sf_bitmap_queue s)) 0
               (s\<lparr>sf_bitmap_queue := sort_updates (sf_bitmap_queue s)\<rparr>)))"

definition flush_deferred ::
  "bool \<Rightarrow> guac_common_surface \<Rightarrow> (surface_call list \<times> guac_common_surface) option" where
  "flush_deferred webp s =
     (if \<not> sf_dirty s then Some ([], s)
      else if length (sf_bitmap_queue s) = GUAC_COMMON_SURFACE_QUEUE_SIZE - 1
      then (case surface_flush webp s of None \<Rightarrow> None
            | Some (msgs, s) \<Rightarrow> map_option (Pair msgs) (flush_to_queue s))
      else map_option (Pair []) (flush_to_queue s))"

section \<open>The operations of a surface\<close>

definition move_surface :: "guac_common_surface \<Rightarrow> int \<Rightarrow> int \<Rightarrow> guac_common_surface" where
  "move_surface s x y = s\<lparr>sf_x := x, sf_y := y, sf_location_dirty := True\<rparr>"

definition stack_surface :: "guac_common_surface \<Rightarrow> int \<Rightarrow> guac_common_surface" where
  "stack_surface s z = s\<lparr>sf_z := z, sf_location_dirty := True\<rparr>"

definition set_parent :: "guac_common_surface \<Rightarrow> int \<Rightarrow> guac_common_surface" where
  "set_parent s parent = s\<lparr>sf_parent := parent, sf_location_dirty := True\<rparr>"

definition set_opacity :: "guac_common_surface \<Rightarrow> int \<Rightarrow> guac_common_surface" where
  "set_opacity s opacity = s\<lparr>sf_opacity := opacity, sf_opacity_dirty := True\<rparr>"

definition reset_clip :: "guac_common_surface \<Rightarrow> guac_common_surface" where
  "reset_clip s = s\<lparr>sf_clipped := False\<rparr>"

definition clip_surface :: "guac_common_surface \<Rightarrow> int \<Rightarrow> int \<Rightarrow> int \<Rightarrow> int \<Rightarrow> guac_common_surface" where
  "clip_surface s x y w h =
     (let s = (if \<not> sf_clipped s
               then s\<lparr>sf_clip_rect := guac_common_rect_init 0 0 (sf_width s) (sf_height s), sf_clipped := True\<rparr>
               else s) in
      s\<lparr>sf_clip_rect := guac_common_rect_constrain (sf_clip_rect s) (guac_common_rect_init x y w h)\<rparr>)"

text \<open>\<open>calloc\<close> gives zeroed memory; a fresh rectangle is all zero.\<close>

definition stride_for_width :: "int \<Rightarrow> int" where
  "stride_for_width w = w * 4"

definition blank_buffer :: "int \<Rightarrow> int \<Rightarrow> u32 list" where
  "blank_buffer w h = replicate (nat (h * stride_for_width w div 4)) 0"

definition blank_heat_map :: "int \<Rightarrow> int \<Rightarrow> guac_common_surface_heat_cell list" where
  "blank_heat_map w h =
     replicate (nat (HEAT_DIMENSION w * HEAT_DIMENSION h)) \<lparr>hc_history = replicate 5 0, hc_oldest_entry = 0\<rparr>"

definition guac_common_surface_alloc :: "int \<Rightarrow> int \<Rightarrow> int \<Rightarrow> surface_call list \<times> guac_common_surface" where
  "guac_common_surface_alloc layer w h =
     (let zero = guac_common_rect_init 0 0 0 0;
          s = \<lparr>sf_layer = layer, sf_x = 0, sf_y = 0, sf_z = 0, sf_opacity = 0xFF, sf_parent = 0, sf_width = w,
               sf_height = h, sf_stride = stride_for_width w, sf_buffer = blank_buffer w h,
               sf_location_dirty = False, sf_opacity_dirty = False, sf_dirty = False, sf_dirty_rect = zero,
               sf_realized = False, sf_clipped = False, sf_clip_rect = zero, sf_bitmap_queue = [],
               sf_heat_map = blank_heat_map w h\<rparr> in
      if layer \<ge> 0 then ([Layer_Call (Send_size layer w h)], s\<lparr>sf_realized := True\<rparr>) else ([], s))"

definition guac_common_surface_free :: "guac_common_surface \<Rightarrow> surface_call list" where
  "guac_common_surface_free s = (if sf_realized s then [Layer_Call (Send_dispose (sf_layer s))] else [])"

definition guac_common_surface_resize ::
  "guac_common_surface \<Rightarrow> int \<Rightarrow> int \<Rightarrow> (surface_call list \<times> guac_common_surface) option" where
  "guac_common_surface_resize s w h =
     (if w = sf_width s \<and> h = sf_height s then Some ([], s)
      else
        let old_rect = guac_common_rect_init 0 0 (sf_width s) (sf_height s);
            s1 = s\<lparr>sf_width := w, sf_height := h, sf_stride := stride_for_width w, sf_buffer := blank_buffer w h\<rparr>;
            s1 = s1\<lparr>sf_clip_rect := fst (bound_rect s1 (sf_clip_rect s1))\<rparr> in
        case surface_put (sf_buffer s) (sf_stride s) 0 0 s1 (fst (bound_rect s1 old_rect)) True of None \<Rightarrow> None
        | Some (s2, _, _, _) \<Rightarrow>
            let s2 = s2\<lparr>sf_heat_map := blank_heat_map w h\<rparr>;
                d = fst (bound_rect s2 (sf_dirty_rect s2));
                s3 = (if sf_dirty s2
                      then s2\<lparr>sf_dirty_rect := d, sf_dirty := \<not> (rc_width d \<le> 0 \<or> rc_height d \<le> 0)\<rparr> else s2) in
            Some (if sf_realized s3 then [Layer_Call (Send_size (sf_layer s3) w h)] else [], s3))"

text \<open>Flush deferred unless the update is combined with what is dirty, then mark it dirty.\<close>

definition defer_draw ::
  "bool \<Rightarrow> guac_common_surface \<Rightarrow> guac_common_rect \<Rightarrow> (surface_call list \<times> guac_common_surface) option" where
  "defer_draw webp s rect =
     map_option (\<lambda>(msgs, s). (msgs, mark_dirty s rect))
       (if \<not> should_combine s rect False then flush_deferred webp s else Some ([], s))"

definition guac_common_surface_draw ::
  "bool \<Rightarrow> int \<Rightarrow> guac_common_surface \<Rightarrow> int \<Rightarrow> int \<Rightarrow> cairo_image \<Rightarrow>
   (surface_call list \<times> guac_common_surface) option" where
  "guac_common_surface_draw webp time s x y src =
     (case clip_rect s (guac_common_rect_init x y (ci_width src) (ci_height src)) of (rect, sx, sy) \<Rightarrow>
      if rc_width rect \<le> 0 \<or> rc_height rect \<le> 0 then Some ([], s)
      else case surface_put (ci_data src) (ci_stride src) sx sy s rect (ci_format src \<noteq> CAIRO_FORMAT_ARGB32) of
        None \<Rightarrow> None
      | Some (s, rect, _, _) \<Rightarrow>
          if rc_width rect \<le> 0 \<or> rc_height rect \<le> 0 then Some ([], s)
          else case touch_rect s rect time of None \<Rightarrow> None
          | Some s \<Rightarrow> defer_draw webp s rect)"

definition guac_common_surface_paint ::
  "bool \<Rightarrow> guac_common_surface \<Rightarrow> int \<Rightarrow> int \<Rightarrow> cairo_image \<Rightarrow> int \<Rightarrow> int \<Rightarrow> int \<Rightarrow>
   (surface_call list \<times> guac_common_surface) option" where
  "guac_common_surface_paint webp s x y src red green blue =
     (case clip_rect s (guac_common_rect_init x y (ci_width src) (ci_height src)) of (rect, sx, sy) \<Rightarrow>
      if rc_width rect \<le> 0 \<or> rc_height rect \<le> 0 then Some ([], s)
      else case surface_fill_mask (ci_data src) (ci_stride src) sx sy s rect red green blue of
        None \<Rightarrow> None
      | Some s \<Rightarrow> defer_draw webp s rect)"

text \<open>
  \<open>guac_common_surface_copy\<close> and \<open>guac_common_surface_transfer\<close>, which differ in the transfer function
  and in the instruction sent. A source that is the destination itself is \<open>None\<close>. The result is
  the new source, if it is another surface, and the new destination.
\<close>

definition send_area ::
  "(int \<Rightarrow> int \<Rightarrow> int \<Rightarrow> int \<Rightarrow> int \<Rightarrow> int \<Rightarrow> int \<Rightarrow> int \<Rightarrow> paint_message) \<Rightarrow> int \<Rightarrow> bool \<Rightarrow>
   guac_common_surface option \<Rightarrow> int \<Rightarrow> int \<Rightarrow> int \<Rightarrow> int \<Rightarrow> guac_common_surface \<Rightarrow> int \<Rightarrow> int \<Rightarrow>
   (surface_call list \<times> guac_common_surface option \<times> guac_common_surface) option" where
  "send_area msg op webp src sx sy w h dst dx dy =
     (let the_src = (case src of None \<Rightarrow> dst | Some s \<Rightarrow> s) in
      case bound_rect the_src (guac_common_rect_init sx sy w h) of (srect, mx, my) \<Rightarrow>
      if rc_width srect \<le> 0 \<or> rc_height srect \<le> 0 then Some ([], src, dst)
      else case clip_rect dst (guac_common_rect_init (dx + mx) (dy + my) (rc_width srect) (rc_height srect)) of
        (drect, nx, ny) \<Rightarrow>
      if rc_width drect \<le> 0 \<or> rc_height drect \<le> 0 then Some ([], src, dst)
      else
        let sx = rc_x srect + nx; sy = rc_y srect + ny in
        case (if src \<noteq> None then surface_transfer src sx sy op dst drect else Some (dst, drect, sx, sy)) of
          None \<Rightarrow> None
        | Some (dst, drect, sx, sy) \<Rightarrow>
            if src \<noteq> None \<and> (rc_width drect \<le> 0 \<or> rc_height drect \<le> 0) then Some ([], src, dst)
            else case (if should_combine dst drect True then Some ([], src, mark_dirty dst drect)
              else case surface_flush webp dst of None \<Rightarrow> None
              | Some (m1, dst) \<Rightarrow>
                  case (case src of None \<Rightarrow> map_option (\<lambda>(m, d). (m, None, d)) (surface_flush webp dst)
                        | Some s \<Rightarrow> map_option (\<lambda>(m, s). (m, Some s, dst)) (surface_flush webp s)) of None \<Rightarrow> None
                  | Some (m2, src, dst) \<Rightarrow>
                      Some (m1 @ m2 @ [Paint_Call (msg (sf_layer the_src) sx sy (rc_width drect) (rc_height drect)
                              (sf_layer dst) (rc_x drect) (rc_y drect))], src, dst\<lparr>sf_realized := True\<rparr>)) of
              None \<Rightarrow> None
            | Some (msgs, src, dst) \<Rightarrow>
                if src = None
                then map_option (\<lambda>(dst, _, _, _). (msgs, None, dst)) (surface_transfer None sx sy op dst drect)
                else Some (msgs, src, dst))"

definition guac_common_surface_copy ::
  "bool \<Rightarrow> guac_common_surface option \<Rightarrow> int \<Rightarrow> int \<Rightarrow> int \<Rightarrow> int \<Rightarrow> guac_common_surface \<Rightarrow> int \<Rightarrow> int \<Rightarrow>
   (surface_call list \<times> guac_common_surface option \<times> guac_common_surface) option" where
  "guac_common_surface_copy webp src sx sy w h dst dx dy =
     send_area (\<lambda>srcl x y w h. Send_copy srcl x y w h GUAC_COMP_OVER) GUAC_TRANSFER_BINARY_SRC
       webp src sx sy w h dst dx dy"

definition guac_common_surface_transfer ::
  "bool \<Rightarrow> guac_common_surface option \<Rightarrow> int \<Rightarrow> int \<Rightarrow> int \<Rightarrow> int \<Rightarrow> int \<Rightarrow> guac_common_surface \<Rightarrow> int \<Rightarrow> int \<Rightarrow>
   (surface_call list \<times> guac_common_surface option \<times> guac_common_surface) option" where
  "guac_common_surface_transfer webp src sx sy w h op dst dx dy =
     send_area (\<lambda>srcl x y w h. Send_transfer srcl x y w h op) op webp src sx sy w h dst dx dy"

definition guac_common_surface_set ::
  "bool \<Rightarrow> guac_common_surface \<Rightarrow> int \<Rightarrow> int \<Rightarrow> int \<Rightarrow> int \<Rightarrow> int \<Rightarrow> int \<Rightarrow> int \<Rightarrow> int \<Rightarrow>
   (surface_call list \<times> guac_common_surface) option" where
  "guac_common_surface_set webp s x y w h red green blue alpha =
     (case clip_rect s (guac_common_rect_init x y w h) of (rect, _, _) \<Rightarrow>
      if rc_width rect \<le> 0 \<or> rc_height rect \<le> 0 then Some ([], s)
      else case surface_set s rect red green blue alpha of None \<Rightarrow> None
      | Some (s, rect) \<Rightarrow>
          if rc_width rect \<le> 0 \<or> rc_height rect \<le> 0 then Some ([], s)
          else if alpha \<noteq> 0xFF then defer_draw webp s rect
          else if should_combine s rect True then Some ([], mark_dirty s rect)
          else case surface_flush webp s of None \<Rightarrow> None
          | Some (msgs, s) \<Rightarrow>
              Some (msgs @ [Path_Call (Send_rect (sf_layer s) (rc_x rect) (rc_y rect) (rc_width rect) (rc_height rect)),
                            Paint_Call (Send_cfill GUAC_COMP_OVER (sf_layer s) red green blue alpha)],
                    s\<lparr>sf_realized := True\<rparr>))"

definition flush_properties :: "guac_common_surface \<Rightarrow> surface_call list \<times> guac_common_surface" where
  "flush_properties s =
     (if sf_layer s \<le> 0 then ([], s)
      else
        (( if sf_opacity_dirty s then [Layer_Call (Send_shade (sf_layer s) (sf_opacity s))] else []) @
         ( if sf_location_dirty s
           then [Layer_Call (Send_move (sf_layer s) (sf_parent s) (sf_x s) (sf_y s) (sf_z s))] else []),
         s\<lparr>sf_opacity_dirty := False, sf_location_dirty := False\<rparr>))"

definition guac_common_surface_flush ::
  "bool \<Rightarrow> guac_common_surface \<Rightarrow> (surface_call list \<times> guac_common_surface) option" where
  "guac_common_surface_flush webp s =
     (case flush_properties s of (msgs, s) \<Rightarrow> map_option (\<lambda>(m, s). (msgs @ m, s)) (surface_flush webp s))"

definition guac_common_surface_dup :: "guac_common_surface \<Rightarrow> surface_call list" where
  "guac_common_surface_dup s =
     (if \<not> sf_realized s then []
      else
        (if sf_layer s > 0
         then [Layer_Call (Send_shade (sf_layer s) (sf_opacity s)),
               Layer_Call (Send_move (sf_layer s) (sf_parent s) (sf_x s) (sf_y s) (sf_z s))] else []) @
        [Layer_Call (Send_size (sf_layer s) (sf_width s) (sf_height s))] @
        (if sf_width s > 0 \<and> sf_height s > 0
         then [Png_Call GUAC_COMP_OVER (sf_layer s) 0 0
                 \<lparr>ci_data = sf_buffer s, ci_format = CAIRO_FORMAT_ARGB32, ci_stride = sf_stride s,
                  ci_width = sf_width s, ci_height = sf_height s\<rparr>] else []))"

end
