(* ===== verification/Surface_Sync.thy ===== *)
theory Surface_Sync
  imports Surface
begin

text \<open>
  What a surface promises: the picture a client shows, updated by the instructions a surface sends,
  is the surface's buffer everywhere outside the pending region (the dirty rectangle and the queue), and after a flush
  it is the buffer.

  The client is not part of the repository. Its picture of every layer is the abstract state here; how it
  composes pixels is the parameter \<open>blend\<close>, of which only the laws of the locale \<open>compositing\<close> are used. The
  interpretation \<open>blending\<close> of \<open>Surface_Run\<close> gives them for the composition the surface itself uses.
\<close>

section \<open>The client's picture\<close>

record remote =
  rd_pic :: "int \<Rightarrow> int \<times> int \<Rightarrow> u32"
  rd_path :: "int \<Rightarrow> (int \<times> int) set"

definition opaque :: "u32 \<Rightarrow> bool" where
  "opaque c \<longleftrightarrow> c AND 0xFF000000 = 0xFF000000"

definition image_pixel :: "cairo_image \<Rightarrow> int \<times> int \<Rightarrow> u32" where
  "image_pixel img p =
     (let c = pix_at (ci_data img) (ci_stride img) p in
      if ci_format img = CAIRO_FORMAT_RGB24 then c OR 0xFF000000 else c)"

definition draw_image ::
  "(int \<Rightarrow> u32 \<Rightarrow> u32 \<Rightarrow> u32) \<Rightarrow> int \<Rightarrow> int \<Rightarrow> int \<Rightarrow> int \<Rightarrow> cairo_image \<Rightarrow> remote \<Rightarrow> remote" where
  "draw_image blend mode layer x y img D =
     D\<lparr>rd_pic := (rd_pic D)(layer := (\<lambda>p.
         if p \<in> pixels (guac_common_rect_init x y (ci_width img) (ci_height img))
         then blend mode (image_pixel img (fst p - x, snd p - y)) (rd_pic D layer p) else rd_pic D layer p))\<rparr>"

text \<open>
  The effect of an instruction on the pictures. Compressed images show the pixels they are made from.
\<close>

fun apply_call :: "(int \<Rightarrow> u32 \<Rightarrow> u32 \<Rightarrow> u32) \<Rightarrow> surface_call \<Rightarrow> remote \<Rightarrow> remote" where
  "apply_call blend (Png_Call mode layer x y img) D = draw_image blend mode layer x y img D"
| "apply_call blend (Jpeg_Call mode layer x y img quality) D = draw_image blend mode layer x y img D"
| "apply_call blend (Webp_Call mode layer x y img quality lossless) D = draw_image blend mode layer x y img D"
| "apply_call blend (Path_Call (Send_rect layer x y w h)) D =
     D\<lparr>rd_path := (rd_path D)(layer := rd_path D layer \<union> pixels (guac_common_rect_init x y w h))\<rparr>"
| "apply_call blend (Paint_Call (Send_cfill mode layer r g b a)) D =
     D\<lparr>rd_pic := (rd_pic D)(layer := (\<lambda>p. if p \<in> rd_path D layer then blend mode (argb a r g b) (rd_pic D layer p)
                                          else rd_pic D layer p)),
       rd_path := (rd_path D)(layer := {})\<rparr>"
| "apply_call blend (Paint_Call (Send_copy srcl sx sy w h mode dstl dx dy)) D =
     D\<lparr>rd_pic := (rd_pic D)(dstl := (\<lambda>p.
         if p \<in> pixels (guac_common_rect_init dx dy w h)
         then blend mode (rd_pic D srcl (fst p - dx + sx, snd p - dy + sy)) (rd_pic D dstl p) else rd_pic D dstl p))\<rparr>"
| "apply_call blend (Layer_Call (Send_size layer w h)) D =
     D\<lparr>rd_pic := (rd_pic D)(layer := (\<lambda>p.
         if p \<in> pixels (guac_common_rect_init 0 0 w h) then rd_pic D layer p else 0))\<rparr>"
| "apply_call blend _ D = D"

definition apply_calls :: "(int \<Rightarrow> u32 \<Rightarrow> u32 \<Rightarrow> u32) \<Rightarrow> surface_call list \<Rightarrow> remote \<Rightarrow> remote" where
  "apply_calls blend msgs D = fold (apply_call blend) msgs D"

lemma apply_calls_simps [simp]:
  "apply_calls blend [] D = D" "apply_calls blend (m # ms) D = apply_calls blend ms (apply_call blend m D)"
  "apply_calls blend (ms @ ns) D = apply_calls blend ns (apply_calls blend ms D)"
  by (simp_all add: apply_calls_def)

text \<open>The client shows the surface outside \<open>R\<close>.\<close>

definition in_sync :: "remote \<Rightarrow> guac_common_surface \<Rightarrow> (int \<times> int) set \<Rightarrow> bool" where
  "in_sync D s R \<longleftrightarrow> rd_path D (sf_layer s) = {} \<and> (\<forall>p \<in> pixels (bounds s) - R. rd_pic D (sf_layer s) p = pix s p)"

section \<open>States of a surface\<close>

definition heat_ok :: "guac_common_surface \<Rightarrow> bool" where
  "heat_ok s \<longleftrightarrow> length (sf_heat_map s) = nat (HEAT_DIMENSION (sf_width s) * HEAT_DIMENSION (sf_height s))
     \<and> (\<forall>c \<in> set (sf_heat_map s). length (hc_history c) = 5 \<and> 0 \<le> hc_oldest_entry c \<and> hc_oldest_entry c < 5)"

definition dirty_ok :: "guac_common_surface \<Rightarrow> bool" where
  "dirty_ok s \<longleftrightarrow> (sf_dirty s \<longrightarrow> within (sf_dirty_rect s) (bounds s)
     \<and> 0 < rc_width (sf_dirty_rect s) \<and> 0 < rc_height (sf_dirty_rect s))"

definition dirty_region :: "guac_common_surface \<Rightarrow> (int \<times> int) set" where
  "dirty_region s = (if sf_dirty s then pixels (sf_dirty_rect s) else {})"

definition queue_region :: "guac_common_surface_bitmap_rect list \<Rightarrow> (int \<times> int) set" where
  "queue_region q = (\<Union>b \<in> {b \<in> set q. \<not> br_flushed b}. pixels (br_rect b))"

definition pending :: "guac_common_surface \<Rightarrow> (int \<times> int) set" where
  "pending s = dirty_region s \<union> queue_region (sf_bitmap_queue s)"

definition surface_ok :: "guac_common_surface \<Rightarrow> bool" where
  "surface_ok s \<longleftrightarrow> geometry s \<and> heat_ok s \<and> dirty_ok s \<and> length (sf_bitmap_queue s) \<le> 255
     \<and> (sf_clipped s \<longrightarrow> within (sf_clip_rect s) (bounds s))"

text \<open>The operations on the pending region keep the picture.\<close>

definition keeps :: "guac_common_surface \<Rightarrow> guac_common_surface \<Rightarrow> bool" where
  "keeps s s' \<longleftrightarrow> sf_layer s' = sf_layer s \<and> sf_width s' = sf_width s \<and> sf_height s' = sf_height s
     \<and> sf_stride s' = sf_stride s \<and> sf_buffer s' = sf_buffer s \<and> sf_heat_map s' = sf_heat_map s
     \<and> sf_clipped s' = sf_clipped s \<and> sf_clip_rect s' = sf_clip_rect s"

lemma keeps_refl [simp]: "keeps s s"
  by (simp add: keeps_def)

lemma keeps_trans: "keeps s s' \<Longrightarrow> keeps s' s'' \<Longrightarrow> keeps s s''"
  by (simp add: keeps_def)

lemma keeps_fields:
  assumes "keeps s s'"
  shows "bounds s' = bounds s" "geometry s' = geometry s" "heat_ok s' = heat_ok s" "pix s' p = pix s p"
    "sf_layer s' = sf_layer s" "sf_clipped s' = sf_clipped s" "sf_clip_rect s' = sf_clip_rect s"
    "in_sync D s' R = in_sync D s R" "sf_buffer s' = sf_buffer s" "sf_stride s' = sf_stride s"
    "calculate_framerate s' rect = calculate_framerate s rect" "png_optimality s' rect = png_optimality s rect"
    "sf_width s' = sf_width s" "sf_height s' = sf_height s"
  using assms
  by (simp_all add: keeps_def bounds_def geometry_def heat_ok_def pix_def in_sync_def calculate_framerate_def png_optimality_def)

lemma keeps_update [simp]:
  "keeps s (s\<lparr>sf_dirty := d\<rparr>)" "keeps s (s\<lparr>sf_dirty_rect := r\<rparr>)" "keeps s (s\<lparr>sf_bitmap_queue := q\<rparr>)"
  "keeps s (s\<lparr>sf_realized := z\<rparr>)"
  by (simp_all add: keeps_def)

lemma constrain_within:
  "within (guac_common_rect_constrain r m) m" "within (guac_common_rect_constrain r m) r"
  by (auto simp: within_def guac_common_rect_constrain_def guac_common_rect_init_def Let_def)

lemma bound_rect_fst: "fst (bound_rect s r) = guac_common_rect_constrain r (bounds s)"
  by (simp add: bound_rect_def bounds_def Let_def)

lemma mark_dirty_ok:
  assumes "dirty_ok s" and "within r (bounds s)"
  shows "keeps s (mark_dirty s r)" "dirty_ok (mark_dirty s r)"
    "dirty_region s \<union> pixels r \<subseteq> dirty_region (mark_dirty s r)" "sf_bitmap_queue (mark_dirty s r) = sf_bitmap_queue s"
proof -
  let ?e = "guac_common_rect_extend (sf_dirty_rect s) r"
  have k: "keeps s (s\<lparr>sf_dirty_rect := r, sf_dirty := True\<rparr>)"
    by (rule keeps_trans [OF keeps_update(2) keeps_update(1)])
  show "keeps s (mark_dirty s r)" using k by (simp add: mark_dirty_def)
  show "sf_bitmap_queue (mark_dirty s r) = sf_bitmap_queue s" by (simp add: mark_dirty_def)
  show "dirty_ok (mark_dirty s r)"
  proof (cases "sf_dirty s")
    case True
    then have "within ?e (bounds s)" using assms extend_least by (simp add: dirty_ok_def)
    moreover have "0 < rc_width ?e \<and> 0 < rc_height ?e"
      using True assms(1) extend_within(1) [of "sf_dirty_rect s" r] by (auto simp: dirty_ok_def within_def)
    ultimately show ?thesis using True assms(1) by (auto simp: mark_dirty_def dirty_ok_def bounds_def)
  qed (use assms in \<open>auto simp: mark_dirty_def dirty_ok_def bounds_def\<close>)
  have "pixels (sf_dirty_rect s) \<union> pixels r \<subseteq> pixels ?e" using extend_within pixels_within by (metis Un_least)
  moreover have "pixels r = {}" if "rc_width r \<le> 0 \<or> rc_height r \<le> 0" using that by (auto simp: pixels_def)
  ultimately show "dirty_region s \<union> pixels r \<subseteq> dirty_region (mark_dirty s r)"
    by (auto simp: mark_dirty_def dirty_region_def)
qed

section \<open>Combining\<close>

lemma combine_step_cases:
  assumes "combine_step c s n = (c', s', n')"
  defines "r \<equiv> guac_common_rect_constrain (br_rect c) (bounds s)"
  obtains (old) "br_flushed c" "c' = c" "s' = s"
    | (outside) "\<not> br_flushed c" "rc_width r \<le> 0 \<or> rc_height r \<le> 0" "br_flushed c'" "s' = s"
    | (merged) "\<not> br_flushed c" "br_flushed c'" "s' = mark_dirty s r"
    | (kept) "\<not> br_flushed c" "sf_dirty s" "s' = s" "c' = c\<lparr>br_rect := r\<rparr>"
proof (cases "br_flushed c")
  case True
  then have "c' = c" "s' = s" using assms(1) unfolding combine_step_def by simp_all
  with True show ?thesis by (rule old)
next
  case False
  show ?thesis
  proof (cases "rc_width r \<le> 0 \<or> rc_height r \<le> 0")
    case True
    then have "c' = c\<lparr>br_rect := r, br_flushed := True\<rparr>" "s' = s"
      using assms(1) False unfolding combine_step_def bound_rect_fst r_def Let_def by auto
    moreover from this(1) have "br_flushed c'" by simp
    ultimately show ?thesis using outside [OF False True] by blast
  next
    case big: False
    show ?thesis
    proof (cases "should_combine s r False \<or> \<not> sf_dirty s")
      case True
      then have "c' = c\<lparr>br_rect := r, br_flushed := True\<rparr>" "s' = mark_dirty s r"
        using assms(1) False big unfolding combine_step_def bound_rect_fst r_def Let_def by auto
      moreover from this(1) have "br_flushed c'" by simp
      ultimately show ?thesis using merged [OF False] by blast
    next
      case n: False
      then have "c' = c\<lparr>br_rect := r\<rparr>" "s' = s"
        using assms(1) False big unfolding combine_step_def bound_rect_fst r_def Let_def by auto
      moreover have "sf_dirty s" using n by blast
      ultimately show ?thesis using kept [OF False] by blast
    qed
  qed
qed

lemma combine_step_ok:
  assumes "combine_step c s n = (c', s', n')" and "dirty_ok s"
  shows "keeps s s' \<and> dirty_ok s' \<and> sf_bitmap_queue s' = sf_bitmap_queue s
    \<and> (dirty_region s \<union> queue_region [c]) \<inter> pixels (bounds s) \<subseteq> dirty_region s' \<union> queue_region [c']
    \<and> (br_flushed c \<or> \<not> sf_dirty s \<longrightarrow> br_flushed c')"
proof -
  let ?r = "guac_common_rect_constrain (br_rect c) (bounds s)"
  have p: "pixels ?r = pixels (br_rect c) \<inter> pixels (bounds s)" by (rule constrain_pixels)
  note m = mark_dirty_ok [OF assms(2) constrain_within(1) [of "br_rect c" "bounds s"]]
  have q: "queue_region [b] = (if br_flushed b then {} else pixels (br_rect b))" for b
    by (auto simp: queue_region_def)
  from assms(1) show ?thesis
  proof (cases rule: combine_step_cases)
    case old
    then show ?thesis using assms(2) by auto
  next
    case outside
    then have "pixels ?r = {}" by (auto simp: pixels_def)
    then show ?thesis using outside assms(2) p q by auto
  next
    case merged
    then show ?thesis using m p q by auto
  next
    case kept
    then show ?thesis using assms(2) p q by auto
  qed
qed

lemma queue_region_Cons: "queue_region (c # cs) = queue_region [c] \<union> queue_region cs"
  by (auto simp: queue_region_def)

lemma queue_region_append: "queue_region (as @ bs) = queue_region as \<union> queue_region bs"
  by (auto simp: queue_region_def)

lemma queue_region_flushed: "\<forall>b \<in> set q. br_flushed b \<Longrightarrow> queue_region q = {}"
  by (auto simp: queue_region_def)

lemma combine_loop_ok:
  assumes "combine_loop cs s n = (cs', s', n')" and "dirty_ok s"
  shows "keeps s s' \<and> dirty_ok s' \<and> sf_bitmap_queue s' = sf_bitmap_queue s \<and> length cs' = length cs
    \<and> (dirty_region s \<union> queue_region cs) \<inter> pixels (bounds s) \<subseteq> dirty_region s' \<union> queue_region cs'
    \<and> (cs \<noteq> [] \<and> \<not> sf_dirty s \<longrightarrow> br_flushed (hd cs'))"
  using assms
proof (induction cs arbitrary: s n cs' s' n')
  case (Cons c cs)
  obtain c1 s1 n1 where c: "combine_step c s n = (c1, s1, n1)" by (metis prod_cases3)
  obtain cs2 s2 n2 where l: "combine_loop cs s1 n1 = (cs2, s2, n2)" by (metis prod_cases3)
  note one = combine_step_ok [OF c Cons.prems(2)]
  then have d1: "dirty_ok s1" and k1: "keeps s s1" by simp_all
  note rest = Cons.IH [OF l d1]
  have eq: "cs' = c1 # cs2" "s' = s2" using Cons.prems(1) c l by auto
  have b: "bounds s1 = bounds s" by (rule keeps_fields(1) [OF k1])
  have "(dirty_region s \<union> queue_region (c # cs)) \<inter> pixels (bounds s) \<subseteq> dirty_region s2 \<union> queue_region (c1 # cs2)"
    using one rest unfolding b queue_region_Cons [of c cs] queue_region_Cons [of c1 cs2] by blast
  moreover have "keeps s s2" using keeps_trans [OF k1] rest by blast
  moreover have "dirty_ok s2" "sf_bitmap_queue s2 = sf_bitmap_queue s" "length (c1 # cs2) = length (c # cs)"
    using one rest by simp_all
  moreover have "\<not> sf_dirty s \<longrightarrow> br_flushed (hd (c1 # cs2))" using one by simp
  ultimately show ?case unfolding eq by blast
qed (auto simp: queue_region_def)

section \<open>Sending the dirty rectangle\<close>

locale compositing =
  fixes blend :: "int \<Rightarrow> u32 \<Rightarrow> u32 \<Rightarrow> u32"
  assumes over_opaque: "opaque src \<Longrightarrow> blend 0xE src dst = src"
    and over_clear: "blend 0xE src 0 = src"
    and rout_opaque: "opaque src \<Longrightarrow> blend 0x2 src dst = 0"

text \<open>The encodings that lose information, or that do not clear first, are used for opaque pictures only.\<close>

definition all_opaque :: "guac_common_surface \<Rightarrow> bool" where
  "all_opaque s \<longleftrightarrow> (\<forall>p \<in> pixels (bounds s). opaque (pix s p))"

definition lossless :: "bool \<Rightarrow> guac_common_surface \<Rightarrow> bool" where
  "lossless webp s \<longleftrightarrow> all_opaque s
     \<or> (\<forall>r. within r (bounds s) \<longrightarrow> should_use_webp webp s r \<noteq> Some True \<and> should_use_jpeg s r \<noteq> Some True)"

lemma lossless_keeps:
  assumes "keeps s s'" shows "lossless webp s' = lossless webp s"
  unfolding lossless_def all_opaque_def should_use_webp_def should_use_jpeg_def keeps_fields [OF assms] ..

lemma opaque_or: "opaque c \<Longrightarrow> c OR 0xFF000000 = c"
proof -
  have "c OR (c AND m) = c" for m :: u32 by (rule bit_eqI) (auto simp: bit_or_iff bit_and_iff)
  then show "opaque c \<Longrightarrow> ?thesis" unfolding opaque_def by metis
qed

lemma rect_init_eta [simp]: "guac_common_rect_init (rc_x r) (rc_y r) (rc_width r) (rc_height r) = r"
  by (simp add: guac_common_rect_init_def)

lemma is_opaque_ok:
  assumes "geometry s" and "within r (bounds s)"
  obtains b where "is_opaque s r = Some b" "b \<longleftrightarrow> (\<forall>p \<in> pixels r. opaque (pix s p))"
proof -
  let ?addr = "rect_addr (sf_stride s) (rc_x r) (rc_y r)"
  have rd: "readable (sf_buffer s) (sf_stride s) (guac_common_rect_init (rc_x r) (rc_y r) (rc_width r) (rc_height r))"
    using readable_within [OF readable_surface [OF assms(1)] pixels_within [OF assms(2)]]
    by simp
  have l: "pixel_load (sf_buffer s) (?addr c) = Some (pix s (rc_x r + fst c, rc_y r + snd c))"
    if "c \<in> set (scan (rc_width r) (rc_height r))" for c
    using load_readable [OF rd that] by (simp add: pix_def)
  have loop: "opaque_loop (sf_buffer s) ?addr cs = Some (\<forall>c \<in> set cs. opaque (pix s (rc_x r + fst c, rc_y r + snd c)))"
    if "set cs \<subseteq> set (scan (rc_width r) (rc_height r))" for cs
    using that by (induction cs) (simp_all add: l opaque_def)
  have "(\<forall>c \<in> set (scan (rc_width r) (rc_height r)). opaque (pix s (rc_x r + fst c, rc_y r + snd c)))
      \<longleftrightarrow> (\<forall>p \<in> pixels r. opaque (pix s p))"
  proof (intro iffI ballI)
    fix p assume a: "\<forall>c \<in> set (scan (rc_width r) (rc_height r)). opaque (pix s (rc_x r + fst c, rc_y r + snd c))"
      and p: "p \<in> pixels r"
    have "(fst p - rc_x r, snd p - rc_y r) \<in> set (scan (rc_width r) (rc_height r))"
      using p by (auto simp: set_scan pixels_def)
    with a show "opaque (pix s p)" by fastforce
  next
    fix c assume a: "\<forall>p \<in> pixels r. opaque (pix s p)" and c: "c \<in> set (scan (rc_width r) (rc_height r))"
    have "(rc_x r + fst c, rc_y r + snd c) \<in> pixels r" using c by (auto simp: set_scan pixels_def)
    with a show "opaque (pix s (rc_x r + fst c, rc_y r + snd c))" by blast
  qed
  with loop [of "scan (rc_width r) (rc_height r)"] that show ?thesis by (simp add: is_opaque_def)
qed

text \<open>A rectangle inside the surface covers cells of the heat map.\<close>

lemma sdiv_nonneg: "0 \<le> (a :: int) \<Longrightarrow> 0 < b \<Longrightarrow> a sdiv b = a div b"
  by (cases "a = 0") (simp_all add: signed_divide_int_def)

lemma set_heat_indices: "i \<in> set (heat_indices hw xs ys) \<longleftrightarrow> (\<exists>x \<in> set xs. \<exists>y \<in> set ys. i = y * hw + x)"
  by (auto simp: heat_indices_def)

lemma heat_indices_ok:
  assumes "heat_ok s" and "within r (bounds s)" and "0 < rc_width r" and "0 < rc_height r"
    and "heat_range r = ((x0, y0), (x1, y1))" and "x2 \<le> x1" and "y2 \<le> y1"
  shows "\<forall>i \<in> set (heat_indices (HEAT_DIMENSION (sf_width s)) [x0..x2] [y0..y2]).
     0 \<le> i \<and> nat i < length (sf_heat_map s)"
proof -
  let ?hw = "HEAT_DIMENSION (sf_width s)" and ?hh = "HEAT_DIMENSION (sf_height s)"
  have r: "0 \<le> rc_x r" "0 \<le> rc_y r" "rc_x r + rc_width r \<le> sf_width s" "rc_y r + rc_height r \<le> sf_height s"
    using assms(2) by (simp_all add: within_def bounds_def guac_common_rect_init_def)
  have hd: "?hw = (sf_width s + 63) div 64" "?hh = (sf_height s + 63) div 64"
    using r assms(3,4) by (simp_all add: HEAT_DIMENSION_def GUAC_COMMON_SURFACE_HEAT_CELL_SIZE_def sdiv_nonneg)
  have xy: "x0 = rc_x r div 64" "y0 = rc_y r div 64" "x1 = x0 + (rc_width r - 1) div 64" "y1 = y0 + (rc_height r - 1) div 64"
    using assms(3-5) r by (auto simp: heat_range_def GUAC_COMMON_SURFACE_HEAT_CELL_SIZE_def Let_def sdiv_nonneg)
  have b: "0 \<le> x0" "0 \<le> y0" "x1 < ?hw" "y1 < ?hh" using r assms(3,4) unfolding hd xy by linarith+
  have "0 \<le> y * ?hw + x \<and> y * ?hw + x < ?hw * ?hh" if "x \<in> {x0..x2}" "y \<in> {y0..y2}" for x y
    using flat_less [of x ?hw y ?hh] that b assms(6,7) by (simp add: mult.commute)
  then have "0 \<le> i \<and> i < ?hw * ?hh" if "i \<in> set (heat_indices ?hw [x0..x2] [y0..y2])" for i
    using that unfolding set_heat_indices by auto
  moreover have "length (sf_heat_map s) = nat (?hw * ?hh)" using assms(1) by (simp add: heat_ok_def)
  ultimately show ?thesis by (metis nat_less_eq_zless)
qed

lemma framerate_loop_returns:
  "\<forall>i \<in> set is. 0 \<le> i \<and> nat i < length hm \<Longrightarrow> framerate_loop hm is f n \<noteq> None"
  by (induction "is" arbitrary: f n) (simp_all add: heat_cell_def Let_def)

lemma framerate_returns:
  assumes "heat_ok s" and "within r (bounds s)" and "0 < rc_width r" and "0 < rc_height r"
  shows "calculate_framerate s r \<noteq> None"
proof -
  obtain x0 y0 x1 y1 where h: "heat_range r = ((x0, y0), (x1, y1))" by (metis surj_pair)
  show ?thesis
    using framerate_loop_returns [OF heat_indices_ok [OF assms h, of "x1 - 1" "y1 - 1"]] h
    by (simp add: calculate_framerate_def)
qed

lemma touch_loop_ok:
  assumes "\<forall>i \<in> set is. 0 \<le> i \<and> nat i < length hm"
    and "\<forall>c \<in> set hm. length (hc_history c) = 5 \<and> 0 \<le> hc_oldest_entry c \<and> hc_oldest_entry c < 5"
  shows "\<exists>hm'. touch_loop time is hm = Some hm' \<and> length hm' = length hm
     \<and> (\<forall>c \<in> set hm'. length (hc_history c) = 5 \<and> 0 \<le> hc_oldest_entry c \<and> hc_oldest_entry c < 5)"
  using assms
proof (induction "is" arbitrary: hm)
  case (Cons i "is")
  let ?c = "touch_cell time (hm ! nat i)"
  have i: "nat i < length hm" "heat_cell hm i = Some (hm ! nat i)" using Cons.prems(1) by (simp_all add: heat_cell_def)
  have "hm ! nat i \<in> set hm" using i(1) by simp
  with Cons.prems(2) have "length (hc_history ?c) = 5 \<and> 0 \<le> hc_oldest_entry ?c \<and> hc_oldest_entry ?c < 5"
    by (auto simp: touch_cell_def Let_def GUAC_COMMON_SURFACE_HEAT_CELL_HISTORY_SIZE_def)
  then have "\<forall>c \<in> set (hm[nat i := ?c]). length (hc_history c) = 5 \<and> 0 \<le> hc_oldest_entry c \<and> hc_oldest_entry c < 5"
    using Cons.prems(2) set_update_subset_insert [of hm "nat i" ?c] by blast
  with Cons.IH [of "hm[nat i := ?c]"] Cons.prems(1) i show ?case by simp
qed simp

lemma touch_rect_ok:
  assumes "heat_ok s" and "within r (bounds s)" and "0 < rc_width r" and "0 < rc_height r"
  obtains hm where "touch_rect s r time = Some (s\<lparr>sf_heat_map := hm\<rparr>)" "heat_ok (s\<lparr>sf_heat_map := hm\<rparr>)"
proof -
  obtain x0 y0 x1 y1 where h: "heat_range r = ((x0, y0), (x1, y1))" by (metis surj_pair)
  have "\<forall>c \<in> set (sf_heat_map s). length (hc_history c) = 5 \<and> 0 \<le> hc_oldest_entry c \<and> hc_oldest_entry c < 5"
    using assms(1) by (simp add: heat_ok_def)
  from touch_loop_ok [OF heat_indices_ok [OF assms h order_refl order_refl] this, of time] obtain hm where
    "touch_loop time (heat_indices (HEAT_DIMENSION (sf_width s)) [x0..x1] [y0..y1]) (sf_heat_map s) = Some hm"
    "length hm = length (sf_heat_map s)"
    "\<forall>c \<in> set hm. length (hc_history c) = 5 \<and> 0 \<le> hc_oldest_entry c \<and> hc_oldest_entry c < 5" by blast
  with that [of hm] h assms(1) show ?thesis by (simp add: touch_rect_def heat_ok_def)
qed

lemma count_row_returns:
  "\<forall>x \<in> set xs. pixel_load m (addr x) \<noteq> None \<Longrightarrow> count_row m addr xs l a b \<noteq> None"
  by (induction xs arbitrary: l a b) (auto simp: Let_def)

lemma count_rows_returns:
  "\<forall>y \<in> set ys. \<forall>x. 0 \<le> x \<and> x < w \<longrightarrow> pixel_load m (addr (x, y)) \<noteq> None \<Longrightarrow> 0 < w \<Longrightarrow>
     count_rows m addr w ys a b \<noteq> None"
proof (induction ys arbitrary: a b)
  case (Cons y ys)
  obtain p where p: "pixel_load m (addr (0, y)) = Some p" using Cons.prems by force
  have "count_row m (\<lambda>x. addr (x, y)) [1..w - 1] (p OR 0xFF000000) a b \<noteq> None"
    using Cons.prems by (intro count_row_returns) auto
  then obtain a' b' where "count_row m (\<lambda>x. addr (x, y)) [1..w - 1] (p OR 0xFF000000) a b = Some (a', b')"
    by (metis not_None_eq surj_pair)
  with p Cons.IH [of a' b'] Cons.prems show ?case by simp
qed simp

lemma png_optimality_returns:
  assumes "geometry s" and "within r (bounds s)"
  shows "png_optimality s r \<noteq> None"
proof (cases "rc_width r < 1 \<or> rc_height r < 1")
  case False
  have rd: "readable (sf_buffer s) (sf_stride s) (guac_common_rect_init (rc_x r) (rc_y r) (rc_width r) (rc_height r))"
    using readable_within [OF readable_surface [OF assms(1)] pixels_within [OF assms(2)]]
    by simp
  have l: "pixel_load (sf_buffer s) (rect_addr (sf_stride s) (rc_x r) (rc_y r) (x, y)) \<noteq> None"
    if "0 \<le> x" "x < rc_width r" "0 \<le> y" "y < rc_height r" for x y
    using load_readable [OF rd, of "(x, y)"] that by (simp add: set_scan)
  have "count_rows (sf_buffer s) (rect_addr (sf_stride s) (rc_x r) (rc_y r)) (rc_width r) [0..rc_height r - 1] 0 1 \<noteq> None"
    using l False by (intro count_rows_returns) auto
  with False show ?thesis by (simp add: png_optimality_def)
qed (simp add: png_optimality_def)

text \<open>An image of a rectangle of the surface shows its pixels.\<close>

lemma dirty_image_pixel:
  assumes "geometry s" and "within (sf_dirty_rect s) (bounds s)" and "p \<in> pixels (sf_dirty_rect s)"
  shows "image_pixel (dirty_image s f) (fst p - rc_x (sf_dirty_rect s), snd p - rc_y (sf_dirty_rect s))
     = (if f = CAIRO_FORMAT_RGB24 then pix s p OR 0xFF000000 else pix s p)"
proof -
  let ?r = "sf_dirty_rect s" and ?w = "sf_width s"
  have st: "sf_stride s = 4 * ?w" using assms(1) by (simp add: geometry_def)
  have r: "0 \<le> rc_x ?r" "0 \<le> rc_y ?r" "rc_x ?r \<le> fst p" "rc_y ?r \<le> snd p" "0 \<le> ?w" "fst p < ?w" "snd p < sf_height s"
    using assms by (auto simp: within_def bounds_def guac_common_rect_init_def pixels_def)
  have base: "nat ((rc_y ?r * sf_stride s + rc_x ?r * 4) div 4) = nat (?w * rc_y ?r + rc_x ?r)"
    using cell_at [of ?w "rc_y ?r" "rc_x ?r"] unfolding cell_def st by (simp add: algebra_simps)
  have off: "cell (sf_stride s * (snd p - rc_y ?r) + 4 * (fst p - rc_x ?r))
      = nat (?w * (snd p - rc_y ?r) + (fst p - rc_x ?r))"
    unfolding st by (rule cell_at)
  have pos: "0 \<le> ?w * rc_y ?r + rc_x ?r" "0 \<le> ?w * (snd p - rc_y ?r) + (fst p - rc_x ?r)" using r by simp_all
  have sum: "nat (?w * rc_y ?r + rc_x ?r) + nat (?w * (snd p - rc_y ?r) + (fst p - rc_x ?r)) = nat (?w * snd p + fst p)"
    unfolding nat_add_distrib [OF pos, symmetric] by (simp add: algebra_simps)
  have len: "nat (?w * rc_y ?r + rc_x ?r) \<le> length (sf_buffer s)"
  proof -
    have "?w * rc_y ?r + rc_x ?r < ?w * sf_height s" using r by (intro flat_less) auto
    then show ?thesis using assms(1) by (simp add: geometry_def)
  qed
  have "pix_at (drop (nat (?w * rc_y ?r + rc_x ?r)) (sf_buffer s)) (sf_stride s) (fst p - rc_x ?r, snd p - rc_y ?r) = pix s p"
    unfolding pix_at_def pix_def fst_conv snd_conv off using len sum cell_at [of ?w "snd p" "fst p"] st by simp
  then show ?thesis unfolding image_pixel_def dirty_image_def Let_def base by simp
qed

lemma dirty_image_size [simp]: "ci_width (dirty_image s f) = rc_width (sf_dirty_rect s)"
  "ci_height (dirty_image s f) = rc_height (sf_dirty_rect s)"
  by (simp_all add: dirty_image_def Let_def)

lemma expand_to_grid_inner:
  assumes "1 < c" and "within r m" and "0 < rc_width r" and "0 < rc_height r"
  shows "within r (snd (guac_common_rect_expand_to_grid c r m))"
    "within (snd (guac_common_rect_expand_to_grid c r m)) m"
  using expand_to_grid_covers [of c r m] assms by auto

context compositing
begin

text \<open>Drawing the dirty rectangle, where the image shows the surface.\<close>

lemma draw_dirty:
  assumes "geometry s" and "within (sf_dirty_rect s) (bounds s)"
    and "\<forall>p \<in> pixels (sf_dirty_rect s). f = CAIRO_FORMAT_RGB24 \<longrightarrow> opaque (pix s p)"
    and "\<forall>p \<in> pixels (sf_dirty_rect s). opaque (pix s p) \<or> rd_pic D (sf_layer s) p = 0"
    and "in_sync D s R \<or> rd_path D (sf_layer s) = {} \<and> (\<forall>p \<in> pixels (bounds s) - R - pixels (sf_dirty_rect s). rd_pic D (sf_layer s) p = pix s p)"
  shows "in_sync (draw_image blend GUAC_COMP_OVER (sf_layer s) (rc_x (sf_dirty_rect s)) (rc_y (sf_dirty_rect s)) (dirty_image s f) D)
     s (R - pixels (sf_dirty_rect s))"
proof -
  let ?r = "sf_dirty_rect s" and ?l = "sf_layer s"
  have "blend 0xE (image_pixel (dirty_image s f) (fst p - rc_x ?r, snd p - rc_y ?r)) (rd_pic D ?l p) = pix s p"
    if p: "p \<in> pixels ?r" for p
  proof -
    have "image_pixel (dirty_image s f) (fst p - rc_x ?r, snd p - rc_y ?r) = pix s p"
      using dirty_image_pixel [OF assms(1,2) p, of f] assms(3) p opaque_or by auto
    then show ?thesis using assms(4) p over_opaque over_clear by metis
  qed
  then show ?thesis
    using assms(5) by (auto simp: in_sync_def draw_image_def GUAC_COMP_OVER_def simp del: pixels_bounds)
qed

lemma in_sync_mono: "in_sync D s R \<Longrightarrow> R \<subseteq> R' \<Longrightarrow> in_sync D s R'"
  by (auto simp: in_sync_def simp del: pixels_bounds)

text \<open>An image in a format that loses information, of an opaque surface, after the rectangle was expanded.\<close>

lemma draw_expanded:
  assumes "geometry s" and "sf_dirty s" and "dirty_ok s" and "all_opaque s" and "1 < c" and "in_sync D s R"
  shows "in_sync (draw_image blend GUAC_COMP_OVER (sf_layer s) (rc_x (sf_dirty_rect (expand_dirty c s)))
     (rc_y (sf_dirty_rect (expand_dirty c s))) (dirty_image (expand_dirty c s) f) D) s (R - dirty_region s)"
proof -
  let ?s = "expand_dirty c s"
  have k: "keeps s ?s" by (simp add: expand_dirty_def)
  have r: "within (sf_dirty_rect s) (bounds s)" "0 < rc_width (sf_dirty_rect s)" "0 < rc_height (sf_dirty_rect s)"
    using assms(2,3) by (simp_all add: dirty_ok_def)
  have e: "within (sf_dirty_rect s) (sf_dirty_rect ?s)" "within (sf_dirty_rect ?s) (bounds s)"
    using expand_to_grid_inner [OF assms(5) r(1,2,3)] by (simp_all add: expand_dirty_def bounds_def)
  have o: "opaque (pix s p)" if "p \<in> pixels (sf_dirty_rect ?s)" for p
    using assms(4) pixels_within [OF e(2)] that unfolding all_opaque_def by blast
  have "in_sync (draw_image blend GUAC_COMP_OVER (sf_layer ?s) (rc_x (sf_dirty_rect ?s)) (rc_y (sf_dirty_rect ?s))
      (dirty_image ?s f) D) ?s (R - pixels (sf_dirty_rect ?s))"
    using o e(2) assms(1,6) by (intro draw_dirty) (simp_all add: keeps_fields [OF k] del: pixels_bounds)
  then show ?thesis
    using pixels_within [OF e(1)] assms(2) in_sync_mono [of _ s "R - pixels (sf_dirty_rect ?s)"]
    by (simp add: keeps_fields [OF k] dirty_region_def) blast
qed

lemma flush_to_png_sync:
  assumes "geometry s" and "sf_dirty s" and "dirty_ok s" and "b \<longleftrightarrow> (\<forall>p \<in> pixels (sf_dirty_rect s). opaque (pix s p))"
    and "in_sync D s R"
  shows "in_sync (apply_calls blend (fst (flush_to_png s b)) D) s (R - dirty_region s)"
proof -
  let ?r = "sf_dirty_rect s" and ?l = "sf_layer s"
  have w: "within ?r (bounds s)" using assms(2,3) by (simp add: dirty_ok_def)
  show ?thesis
  proof (cases b)
    case True
    then have "in_sync (draw_image blend GUAC_COMP_OVER ?l (rc_x ?r) (rc_y ?r) (dirty_image s CAIRO_FORMAT_RGB24) D)
        s (R - pixels ?r)"
      using assms w by (intro draw_dirty) auto
    then show ?thesis using True assms(2) by (simp add: flush_to_png_def dirty_region_def Let_def)
  next
    case False
    define D1 where "D1 = apply_calls blend [Path_Call (Send_rect ?l (rc_x ?r) (rc_y ?r) (rc_width ?r) (rc_height ?r)),
        Paint_Call (Send_cfill GUAC_COMP_ROUT ?l 0 0 0 0xFF)] D"
    have black: "opaque (argb 0xFF 0 0 0)" by (simp add: opaque_def argb_def)
    have clear: "rd_pic D1 ?l p = 0" if "p \<in> pixels ?r" for p
      using that assms(5) rout_opaque [OF black] by (simp add: D1_def in_sync_def GUAC_COMP_ROUT_def)
    have rest: "rd_path D1 ?l = {}" "\<And>p. p \<notin> pixels ?r \<Longrightarrow> rd_pic D1 ?l p = rd_pic D ?l p"
      using assms(5) by (simp_all add: D1_def in_sync_def)
    have "in_sync (draw_image blend GUAC_COMP_OVER ?l (rc_x ?r) (rc_y ?r) (dirty_image s CAIRO_FORMAT_ARGB32) D1)
        s (R - pixels ?r)"
      using w clear rest assms(5) by (intro draw_dirty) (auto simp: assms(1) in_sync_def simp del: pixels_bounds)
    then show ?thesis using False assms(2) by (simp add: flush_to_png_def dirty_region_def Let_def D1_def)
  qed
qed

lemma flush_bitmap_sync:
  assumes "geometry s" and "heat_ok s" and "sf_dirty s" and "dirty_ok s" and "lossless webp s"
  shows "\<exists>msgs s'. flush_bitmap webp s = Some (msgs, s') \<and> keeps s s' \<and> \<not> sf_dirty s'
     \<and> (\<forall>D R. in_sync D s R \<longrightarrow> in_sync (apply_calls blend msgs D) s (R - dirty_region s))"
proof -
  let ?r = "sf_dirty_rect s"
  have r: "within ?r (bounds s)" "0 < rc_width ?r" "0 < rc_height ?r"
    using assms(3,4) by (simp_all add: dirty_ok_def)
  obtain b where b: "is_opaque s ?r = Some b" "b \<longleftrightarrow> (\<forall>p \<in> pixels ?r. opaque (pix s p))"
    by (rule is_opaque_ok [OF assms(1) r(1)])
  have fr: "calculate_framerate s ?r \<noteq> None" by (rule framerate_returns [OF assms(2) r])
  have po: "png_optimality s ?r \<noteq> None" by (rule png_optimality_returns [OF assms(1) r(1)])
  obtain n where n: "calculate_framerate s ?r = Some n" using fr by blast
  obtain v where v: "png_optimality s ?r = Some v" using po by blast
  define w where "w = (webp \<and> sint n \<ge> GUAC_COMMON_SURFACE_JPEG_FRAMERATE \<and> v < 0)"
  define j where "j = (sint n \<ge> GUAC_COMMON_SURFACE_JPEG_FRAMERATE
      \<and> rc_width ?r * rc_height ?r > GUAC_SURFACE_JPEG_MIN_BITMAP_SIZE \<and> v < 0)"
  have w: "should_use_webp webp s ?r = Some w" by (simp add: should_use_webp_def n v w_def)
  have j: "should_use_jpeg s ?r = Some j" by (auto simp: should_use_jpeg_def n v j_def)
  have lossy: "all_opaque s" if "w \<or> j" using assms(5) that w j r(1) unfolding lossless_def by metis
  have png: ?thesis if "flush_bitmap webp s = Some (flush_to_png s b)"
    using that flush_to_png_sync [OF assms(1,3,4) b(2)] assms(3)
    by (intro exI [of _ "fst (flush_to_png s b)"] exI [of _ "snd (flush_to_png s b)"])
      (simp add: flush_to_png_def Let_def keeps_def)
  consider "w" | "\<not> w" "b" "j" | "\<not> w" "\<not> (b \<and> j)" by blast
  then show ?thesis
  proof cases
    case 1
    have "flush_bitmap webp s = Some (flush_to_webp s b)" using b(1) w 1 by (simp add: flush_bitmap_def)
    then show ?thesis
      using draw_expanded [OF assms(1,3,4) lossy, of GUAC_SURFACE_WEBP_BLOCK_SIZE] 1 assms(3)
      by (simp add: flush_to_webp_def Let_def GUAC_SURFACE_WEBP_BLOCK_SIZE_def keeps_def)
        (simp add: expand_dirty_def)
  next
    case 2
    have "flush_bitmap webp s = Some (flush_to_jpeg s)" using b(1) w j 2 by (simp add: flush_bitmap_def)
    then show ?thesis
      using draw_expanded [OF assms(1,3,4) lossy, of GUAC_SURFACE_JPEG_BLOCK_SIZE] 2 assms(3)
      by (simp add: flush_to_jpeg_def Let_def GUAC_SURFACE_JPEG_BLOCK_SIZE_def keeps_def)
        (simp add: expand_dirty_def)
  next
    case 3
    then show ?thesis using b(1) w j by (intro png) (auto simp: flush_bitmap_def)
  qed
qed

end

section \<open>The queue\<close>

lemma in_sync_bounds: "in_sync D s R \<Longrightarrow> R \<inter> pixels (bounds s) \<subseteq> R' \<Longrightarrow> in_sync D s R'"
  by (auto simp: in_sync_def simp del: pixels_bounds)

lemma flush_to_queue_ok:
  assumes "length (sf_bitmap_queue s) < 256"
  obtains s' where "flush_to_queue s = Some s'" "keeps s s'" "\<not> sf_dirty s'"
    "queue_region (sf_bitmap_queue s') = queue_region (sf_bitmap_queue s) \<union> dirty_region s"
    "length (sf_bitmap_queue s') \<le> Suc (length (sf_bitmap_queue s))"
    "\<exists>q. sf_bitmap_queue s' = sf_bitmap_queue s @ q \<and> (\<forall>b \<in> set q. \<not> br_flushed b)"
proof (cases "sf_dirty s")
  case True
  let ?s = "s\<lparr>sf_bitmap_queue := sf_bitmap_queue s @ [\<lparr>br_flushed = False, br_rect = sf_dirty_rect s\<rparr>], sf_dirty := False\<rparr>"
  have "flush_to_queue s = Some ?s"
    using True assms by (simp add: flush_to_queue_def GUAC_COMMON_SURFACE_QUEUE_SIZE_def)
  moreover have "keeps s ?s" by (simp add: keeps_def)
  moreover have "queue_region (sf_bitmap_queue ?s) = queue_region (sf_bitmap_queue s) \<union> dirty_region s"
    using True by (simp add: queue_region_append dirty_region_def) (simp add: queue_region_def)
  ultimately show ?thesis using that [of ?s] by simp
next
  case False
  then show ?thesis using that [of s] by (simp add: flush_to_queue_def dirty_region_def)
qed

definition flush_inv :: "nat \<Rightarrow> guac_common_surface \<Rightarrow> bool" where
  "flush_inv i s \<longleftrightarrow> geometry s \<and> heat_ok s \<and> \<not> sf_dirty s \<and> length (sf_bitmap_queue s) \<le> 256
     \<and> (\<forall>b \<in> set (take i (sf_bitmap_queue s)). br_flushed b)"

lemma flush_inv_queue:
  assumes "flush_inv i s" and "keeps s s'" and "\<not> sf_dirty s'" and "length (sf_bitmap_queue s') \<le> 256"
    and "sf_bitmap_queue s' = take i (sf_bitmap_queue s) @ c # cs" and "br_flushed c" and "i < length (sf_bitmap_queue s)"
  shows "flush_inv (Suc i) s'"
  using assms keeps_fields(2,3) [OF assms(2)] by (auto simp: flush_inv_def)

context compositing
begin

lemma flush_step_sync:
  assumes inv: "flush_inv i s" and loss: "lossless webp s" and i: "i < length (sf_bitmap_queue s)"
  shows "\<exists>msgs s'. flush_step webp original i s = Some (msgs, s') \<and> keeps s s' \<and> flush_inv (Suc i) s'
     \<and> (\<forall>D R. in_sync D s (R \<union> queue_region (sf_bitmap_queue s)) \<longrightarrow>
          in_sync (apply_calls blend msgs D) s (R \<union> queue_region (sf_bitmap_queue s')))"
proof (cases "br_flushed (sf_bitmap_queue s ! i)")
  case True
  then have "flush_inv (Suc i) s" using inv i by (auto simp: flush_inv_def take_Suc_conv_app_nth)
  then show ?thesis using True by (intro exI [of _ "[]"] exI [of _ s]) (simp add: flush_step_def)
next
  case False
  let ?q = "sf_bitmap_queue s"
  obtain cs s0 n where c: "combine_loop (drop i ?q) s 0 = (cs, s0, n)" by (metis prod_cases3)
  define s1 where "s1 = s0\<lparr>sf_bitmap_queue := take i ?q @ cs\<rparr>"
  have d: "\<not> sf_dirty s" "dirty_ok s" using inv by (simp_all add: flush_inv_def dirty_ok_def)
  note L = combine_loop_ok [OF c d(2)]
  have k: "keeps s s1" using L keeps_trans [OF _ keeps_update(3)] unfolding s1_def by blast
  have cs: "cs = hd cs # tl cs" "br_flushed (hd cs)" using L i d(1) by (cases cs; simp)+
  have q1: "sf_bitmap_queue s1 = take i ?q @ hd cs # tl cs" using cs(1) by (simp add: s1_def)
  have len: "length (sf_bitmap_queue s1) = length ?q" using L i by (simp add: s1_def)
  have d1: "dirty_ok s1" "sf_dirty s1 = sf_dirty s0" "dirty_region s1 = dirty_region s0"
    using L by (simp_all add: s1_def dirty_ok_def dirty_region_def bounds_def)
  have old: "queue_region (take i ?q) = {}" using inv by (intro queue_region_flushed) (simp add: flush_inv_def)
  have "queue_region ?q = queue_region (drop i ?q)"
    using queue_region_append [of "take i ?q" "drop i ?q"] old by simp
  moreover have "queue_region (sf_bitmap_queue s1) = queue_region cs"
    using old by (simp add: s1_def queue_region_append)
  ultimately have reg: "queue_region ?q \<inter> pixels (bounds s) \<subseteq> dirty_region s1 \<union> queue_region (sf_bitmap_queue s1)"
    using L d1(3) by blast
  have sy: "in_sync D s (R \<union> dirty_region s1 \<union> queue_region (sf_bitmap_queue s1))" if "in_sync D s (R \<union> queue_region ?q)" for D R
    by (rule in_sync_bounds [OF that]) (use reg in blast)
  have q0: "sf_bitmap_queue s0 = ?q" using L by blast
  have step: "flush_step webp original i s =
      (if (n > 1 \<or> i < original) \<and> length (sf_bitmap_queue s1) < 256 then map_option (Pair []) (flush_to_queue s1)
       else if sf_dirty s1 then flush_bitmap webp s1 else Some ([], s1))"
    unfolding flush_step_def if_not_P [OF False] c prod.case Let_def s1_def q0 GUAC_COMMON_SURFACE_QUEUE_SIZE_def ..
  have le: "length ?q \<le> 256" using inv by (simp add: flush_inv_def)
  show ?thesis
  proof (cases "(n > 1 \<or> i < original) \<and> length (sf_bitmap_queue s1) < 256")
    case True
    then obtain s2 where s2: "flush_to_queue s1 = Some s2" "keeps s1 s2" "\<not> sf_dirty s2"
      "queue_region (sf_bitmap_queue s2) = queue_region (sf_bitmap_queue s1) \<union> dirty_region s1"
      "length (sf_bitmap_queue s2) \<le> Suc (length (sf_bitmap_queue s1))"
      "\<exists>q. sf_bitmap_queue s2 = sf_bitmap_queue s1 @ q \<and> (\<forall>b \<in> set q. \<not> br_flushed b)"
      using flush_to_queue_ok by blast
    obtain q where "sf_bitmap_queue s2 = take i ?q @ hd cs # (tl cs @ q)" using s2(6) q1 by auto
    from flush_inv_queue [OF inv keeps_trans [OF k s2(2)] s2(3) _ this cs(2) i] s2(5) True
    have "flush_inv (Suc i) s2" by simp
    moreover have "\<forall>D R. in_sync D s (R \<union> queue_region ?q) \<longrightarrow> in_sync D s (R \<union> queue_region (sf_bitmap_queue s2))"
      using sy unfolding s2(4) by (metis in_sync_mono Un_assoc Un_commute order_refl)
    ultimately show ?thesis using step True s2(1) keeps_trans [OF k s2(2)] by simp
  next
    case no: False
    show ?thesis
    proof (cases "sf_dirty s1")
      case True
      have "geometry s1" "heat_ok s1" "lossless webp s1"
        using inv loss keeps_fields(2,3) [OF k] lossless_keeps [OF k] by (simp_all add: flush_inv_def)
      from flush_bitmap_sync [OF this(1,2) True d1(1) this(3)] obtain msgs s2 where
        s2: "flush_bitmap webp s1 = Some (msgs, s2)" "keeps s1 s2" "\<not> sf_dirty s2"
          "\<And>D R. in_sync D s1 R \<Longrightarrow> in_sync (apply_calls blend msgs D) s1 (R - dirty_region s1)" by blast
      have q2: "sf_bitmap_queue s2 = sf_bitmap_queue s1" by (rule flush_bitmap_queue [OF s2(1)])
      have "flush_inv (Suc i) s2"
        using flush_inv_queue [OF inv keeps_trans [OF k s2(2)] s2(3) _ _ cs(2) i, of "tl cs"] q1 q2 len le by simp
      moreover have "in_sync (apply_calls blend msgs D) s (R \<union> queue_region (sf_bitmap_queue s2))"
        if "in_sync D s (R \<union> queue_region ?q)" for D R
      proof -
        have "in_sync (apply_calls blend msgs D) s (R \<union> dirty_region s1 \<union> queue_region (sf_bitmap_queue s1) - dirty_region s1)"
          using s2(4) sy [OF that] keeps_fields(8) [OF k] by simp
        then show ?thesis unfolding q2 by (rule in_sync_mono) blast
      qed
      ultimately show ?thesis using step no True s2(1) keeps_trans [OF k s2(2)] by auto
    next
      case clean: False
      have "flush_inv (Suc i) s1"
        using flush_inv_queue [OF inv k clean _ q1 cs(2) i] len le by simp
      moreover have "in_sync D s (R \<union> queue_region (sf_bitmap_queue s1))" if "in_sync D s (R \<union> queue_region ?q)" for D R
        using sy [OF that] clean by (simp add: dirty_region_def)
      ultimately show ?thesis using step no clean k by auto
    qed
  qed
qed

lemma flush_loop_sync:
  assumes "flush_inv i s" and "lossless webp s"
  shows "\<exists>msgs s'. flush_loop webp original i s = Some (msgs, s') \<and> keeps s s' \<and> \<not> sf_dirty s'
     \<and> (\<forall>D R. in_sync D s (R \<union> queue_region (sf_bitmap_queue s)) \<longrightarrow> in_sync (apply_calls blend msgs D) s R)"
  using assms
proof (induction webp original i s rule: flush_loop.induct)
  case (1 webp original i s)
  show ?case
  proof (cases "length (sf_bitmap_queue s) \<le> i")
    case True
    have "queue_region (sf_bitmap_queue s) = {}"
      using 1(2) True by (intro queue_region_flushed) (simp add: flush_inv_def)
    moreover have "\<not> sf_dirty s" using 1(2) by (simp add: flush_inv_def)
    ultimately show ?thesis using True flush_loop.simps [of webp original i s] by simp
  next
    case False
    obtain m1 s1 where s1: "flush_step webp original i s = Some (m1, s1)" "keeps s s1" "flush_inv (Suc i) s1"
      "\<And>D R. in_sync D s (R \<union> queue_region (sf_bitmap_queue s)) \<Longrightarrow>
          in_sync (apply_calls blend m1 D) s (R \<union> queue_region (sf_bitmap_queue s1))"
      using flush_step_sync [OF 1(2,3), of original] False by auto
    have loss: "lossless webp s1" using lossless_keeps [OF s1(2)] 1(3) by blast
    obtain m2 s2 where s2: "flush_loop webp original (Suc i) s1 = Some (m2, s2)" "keeps s1 s2" "\<not> sf_dirty s2"
      "\<And>D R. in_sync D s1 (R \<union> queue_region (sf_bitmap_queue s1)) \<Longrightarrow> in_sync (apply_calls blend m2 D) s1 R"
      using 1(1) [OF False s1(1) refl s1(3) loss] by blast
    have "flush_loop webp original i s = Some (m1 @ m2, s2)"
      using flush_loop.simps [of webp original i s] False s1(1) s2(1) by simp
    moreover have "in_sync (apply_calls blend (m1 @ m2) D) s R"
      if "in_sync D s (R \<union> queue_region (sf_bitmap_queue s))" for D R
      using s2(4) [of "apply_calls blend m1 D" R] s1(4) [OF that] keeps_fields(8) [OF s1(2)] by simp
    ultimately show ?thesis using keeps_trans [OF s1(2) s2(2)] s2(3) by blast
  qed
qed

lemma insert_update_set: "set (insert_update a q) = insert a (set q) \<and> length (insert_update a q) = Suc (length q)"
  by (induction q) auto

lemma sort_updates_set: "set (sort_updates q) = set q \<and> length (sort_updates q) = length q"
  by (induction q) (simp_all add: sort_updates_def insert_update_set)

text \<open>Flushing sends everything that is pending.\<close>

lemma surface_flush_sync:
  assumes "surface_ok s" and "lossless webp s"
  shows "\<exists>msgs s'. surface_flush webp s = Some (msgs, s') \<and> keeps s s' \<and> \<not> sf_dirty s' \<and> sf_bitmap_queue s' = []
     \<and> (\<forall>D R. in_sync D s (R \<union> pending s) \<longrightarrow> in_sync (apply_calls blend msgs D) s R)"
proof -
  have "length (sf_bitmap_queue s) < 256" using assms(1) by (simp add: surface_ok_def)
  then obtain s1 where s1: "flush_to_queue s = Some s1" "keeps s s1" "\<not> sf_dirty s1"
    "queue_region (sf_bitmap_queue s1) = queue_region (sf_bitmap_queue s) \<union> dirty_region s"
    "length (sf_bitmap_queue s1) \<le> Suc (length (sf_bitmap_queue s))" using flush_to_queue_ok by metis
  let ?s = "s1\<lparr>sf_bitmap_queue := sort_updates (sf_bitmap_queue s1)\<rparr>"
  have k: "keeps s ?s" by (rule keeps_trans [OF s1(2) keeps_update(3)])
  have inv: "flush_inv 0 ?s"
    using s1(3,5) assms(1) keeps_fields(2,3) [OF k] sort_updates_set [of "sf_bitmap_queue s1"]
    by (simp add: flush_inv_def surface_ok_def)
  have "lossless webp ?s" using lossless_keeps [OF k] assms(2) by blast
  from flush_loop_sync [OF inv this, of "length (sf_bitmap_queue s1)"] obtain msgs s2 where
    s2: "flush_loop webp (length (sf_bitmap_queue s1)) 0 ?s = Some (msgs, s2)" "keeps ?s s2" "\<not> sf_dirty s2"
      "\<And>D R. in_sync D ?s (R \<union> queue_region (sf_bitmap_queue ?s)) \<Longrightarrow> in_sync (apply_calls blend msgs D) ?s R" by blast
  have "surface_flush webp s = Some (msgs, s2\<lparr>sf_bitmap_queue := []\<rparr>)"
    using s1(1) s2(1) by (simp add: surface_flush_def)
  moreover have "keeps s (s2\<lparr>sf_bitmap_queue := []\<rparr>)"
    by (rule keeps_trans [OF keeps_trans [OF k s2(2)] keeps_update(3)])
  moreover have "queue_region (sf_bitmap_queue ?s) = pending s"
    using s1(4) sort_updates_set [of "sf_bitmap_queue s1"] by (auto simp: queue_region_def pending_def)
  ultimately show ?thesis using s2(3,4) keeps_fields(8) [OF k]
    by (intro exI [of _ msgs] exI [of _ "s2\<lparr>sf_bitmap_queue := []\<rparr>"]) simp
qed

lemma surface_ok_keeps:
  "surface_ok s \<Longrightarrow> keeps s s' \<Longrightarrow> dirty_ok s' \<Longrightarrow> length (sf_bitmap_queue s') \<le> 255 \<Longrightarrow> surface_ok s'"
  using keeps_fields(1,2,3,6,7) [of s s'] by (simp add: surface_ok_def)

lemma flush_deferred_sync:
  assumes "surface_ok s" and "lossless webp s"
  shows "\<exists>msgs s'. flush_deferred webp s = Some (msgs, s') \<and> keeps s s' \<and> \<not> sf_dirty s'
     \<and> length (sf_bitmap_queue s') \<le> 255
     \<and> (\<forall>D R. in_sync D s (R \<union> pending s) \<longrightarrow> in_sync (apply_calls blend msgs D) s (R \<union> pending s'))"
proof (cases "sf_dirty s \<and> length (sf_bitmap_queue s) = 255")
  case True
  from surface_flush_sync [OF assms] obtain msgs s1 where
    s1: "surface_flush webp s = Some (msgs, s1)" "keeps s s1" "\<not> sf_dirty s1" "sf_bitmap_queue s1 = []"
      "\<And>D R. in_sync D s (R \<union> pending s) \<Longrightarrow> in_sync (apply_calls blend msgs D) s R" by blast
  have "flush_to_queue s1 = Some s1" using s1(3) by (simp add: flush_to_queue_def)
  then have "flush_deferred webp s = Some (msgs, s1)"
    using True s1(1) by (simp add: flush_deferred_def GUAC_COMMON_SURFACE_QUEUE_SIZE_def)
  moreover have "pending s1 = {}" using s1(3,4) by (simp add: pending_def dirty_region_def queue_region_def)
  ultimately show ?thesis using s1 by auto
next
  case False
  then have l: "length (sf_bitmap_queue s) < 255 \<or> \<not> sf_dirty s" using assms(1) by (auto simp: surface_ok_def)
  have "length (sf_bitmap_queue s) < 256" using assms(1) by (simp add: surface_ok_def)
  then obtain s1 where s1: "flush_to_queue s = Some s1" "keeps s s1" "\<not> sf_dirty s1"
    "queue_region (sf_bitmap_queue s1) = queue_region (sf_bitmap_queue s) \<union> dirty_region s"
    "length (sf_bitmap_queue s1) \<le> Suc (length (sf_bitmap_queue s))" using flush_to_queue_ok by metis
  have "flush_deferred webp s = Some ([], if sf_dirty s then s1 else s)"
    using False s1(1) by (auto simp: flush_deferred_def GUAC_COMMON_SURFACE_QUEUE_SIZE_def)
  moreover have "pending (if sf_dirty s then s1 else s) = pending s"
    using s1(3,4) by (cases "sf_dirty s") (simp_all add: pending_def dirty_region_def Un_commute)
  moreover have "length (sf_bitmap_queue (if sf_dirty s then s1 else s)) \<le> 255"
    using l s1(5) assms(1) by (auto simp: surface_ok_def)
  moreover have "keeps s (if sf_dirty s then s1 else s)" "\<not> sf_dirty (if sf_dirty s then s1 else s)"
    using s1(2,3) by simp_all
  ultimately show ?thesis by (intro exI [of _ "[]"] exI [of _ "if sf_dirty s then s1 else s"]) (simp only: apply_calls_simps simp_thms)
qed

lemma mark_dirty_sync:
  assumes "surface_ok s" and "within r (bounds s)"
  shows "surface_ok (mark_dirty s r)" "pending s \<union> pixels r \<subseteq> pending (mark_dirty s r)"
proof -
  have d: "dirty_ok s" using assms(1) by (simp add: surface_ok_def)
  note m = mark_dirty_ok [OF d assms(2)]
  show "surface_ok (mark_dirty s r)"
    by (rule surface_ok_keeps [OF assms(1) m(1,2)]) (use assms(1) m(4) in \<open>simp add: surface_ok_def\<close>)
  show "pending s \<union> pixels r \<subseteq> pending (mark_dirty s r)" using m(3,4) unfolding pending_def by auto
qed

lemma defer_draw_sync:
  assumes "surface_ok s" and "lossless webp s" and "within r (bounds s)"
  shows "\<exists>msgs s'. defer_draw webp s r = Some (msgs, s') \<and> keeps s s' \<and> surface_ok s'
     \<and> (\<forall>D. in_sync D s (pending s \<union> pixels r) \<longrightarrow> in_sync (apply_calls blend msgs D) s' (pending s'))"
proof -
  obtain msgs s1 where s1: "(if \<not> should_combine s r False then flush_deferred webp s else Some ([], s)) = Some (msgs, s1)"
    "keeps s s1" "surface_ok s1"
    "\<And>D R. in_sync D s (R \<union> pending s) \<Longrightarrow> in_sync (apply_calls blend msgs D) s (R \<union> pending s1)"
  proof (cases "should_combine s r False")
    case True
    then show ?thesis using that [of "[]" s] assms(1) by simp
  next
    case False
    from flush_deferred_sync [OF assms(1,2)] obtain msgs s1 where
      f: "flush_deferred webp s = Some (msgs, s1)" "keeps s s1" "\<not> sf_dirty s1" "length (sf_bitmap_queue s1) \<le> 255"
        "\<And>D R. in_sync D s (R \<union> pending s) \<Longrightarrow> in_sync (apply_calls blend msgs D) s (R \<union> pending s1)" by blast
    have "surface_ok s1" using surface_ok_keeps [OF assms(1) f(2)] f(3,4) by (simp add: dirty_ok_def)
    then show ?thesis using that [of msgs s1] f False by simp
  qed
  have w: "within r (bounds s1)" using keeps_fields(1) [OF s1(2)] assms(3) by simp
  note m = mark_dirty_sync [OF s1(3) w]
  have d: "dirty_ok s1" using s1(3) by (simp add: surface_ok_def)
  have k: "keeps s (mark_dirty s1 r)" by (rule keeps_trans [OF s1(2) mark_dirty_ok(1) [OF d w]])
  have "in_sync (apply_calls blend msgs D) (mark_dirty s1 r) (pending (mark_dirty s1 r))"
    if "in_sync D s (pending s \<union> pixels r)" for D
  proof -
    have "in_sync (apply_calls blend msgs D) s (pixels r \<union> pending s1)"
      using s1(4) [of D "pixels r"] that by (simp add: Un_commute)
    then show ?thesis unfolding keeps_fields(8) [OF k] by (rule in_sync_mono) (use m(2) in blast)
  qed
  then show ?thesis using s1(1) k m(1) by (simp add: defer_draw_def)
qed

end

end
