(* ===== verification/Surface_Ops.thy ===== *)
theory Surface_Ops
  imports Surface_Sync
begin

text \<open>
  The public operations of a surface keep the client's picture in step with it, in any sequence; after
  \<open>guac_common_surface_flush\<close> the two are equal.
\<close>

section \<open>States the operations keep\<close>

text \<open>
  An encoding that loses information is out of the question when all pixels are opaque, or when the
  client does not take WebP and the surface is smaller than the least JPEG.
\<close>

definition exact :: "bool \<Rightarrow> guac_common_surface \<Rightarrow> bool" where
  "exact webp s \<longleftrightarrow> all_opaque s \<or> \<not> webp \<and> sf_width s * sf_height s \<le> GUAC_SURFACE_JPEG_MIN_BITMAP_SIZE"

definition tracks :: "remote \<Rightarrow> guac_common_surface \<Rightarrow> bool" where
  "tracks D s \<longleftrightarrow> in_sync D s (pending s)"

lemma exact_lossless:
  assumes "exact webp s" and "geometry s" shows "lossless webp s"
proof (cases "all_opaque s")
  case False
  then have e: "\<not> webp" "sf_width s * sf_height s \<le> GUAC_SURFACE_JPEG_MIN_BITMAP_SIZE"
    using assms(1) by (simp_all add: exact_def)
  have "should_use_jpeg s r \<noteq> Some True" if r: "within r (bounds s)" for r
  proof (cases "0 < rc_width r \<and> 0 < rc_height r")
    case True
    have "rc_width r \<le> sf_width s" "rc_height r \<le> sf_height s"
      using r by (simp_all add: within_def bounds_def guac_common_rect_init_def)
    then have "rc_width r * rc_height r \<le> sf_width s * sf_height s"
      using True by (intro mult_mono) simp_all
    then show ?thesis using e(2) by (simp add: should_use_jpeg_def split: option.split)
  next
    case False
    then have "png_optimality s r = Some 0" by (auto simp: png_optimality_def)
    then show ?thesis by (simp add: should_use_jpeg_def split: option.split)
  qed
  with e(1) show ?thesis by (simp add: lossless_def should_use_webp_def)
qed (simp add: lossless_def)

lemma clip_rect_ok:
  assumes "surface_ok s"
  shows "within (fst (clip_rect s r)) (bounds s)" "within (fst (clip_rect s r)) r"
    "snd (clip_rect s r) = (rc_x (fst (clip_rect s r)) - rc_x r, rc_y (fst (clip_rect s r)) - rc_y r)"
proof -
  have "within (guac_common_rect_constrain r (sf_clip_rect s)) (bounds s)" if "sf_clipped s"
    using constrain_within(1) [of r "sf_clip_rect s"] that assms unfolding surface_ok_def within_def by auto
  then show "within (fst (clip_rect s r)) (bounds s)"
    using constrain_within(1) [of r "bounds s"] by (auto simp: clip_rect_def bound_rect_fst Let_def)
  show "within (fst (clip_rect s r)) r"
    using constrain_within(2) [of r] by (simp add: clip_rect_def bound_rect_fst Let_def)
  show "snd (clip_rect s r) = (rc_x (fst (clip_rect s r)) - rc_x r, rc_y (fst (clip_rect s r)) - rc_y r)"
    by (simp add: clip_rect_def bound_rect_def Let_def)
qed

text \<open>Drawing into the buffer.\<close>

lemma redraws_state:
  assumes "redraws s s' r"
  shows "surface_ok s' = surface_ok s" "pending s' = pending s" "sf_layer s' = sf_layer s"
    "in_sync D s R \<Longrightarrow> in_sync D s' (R \<union> pixels r)"
proof -
  obtain m where m: "s' = s\<lparr>sf_buffer := m\<rparr>" "length m = length (sf_buffer s)"
    using assms by (auto simp: redraws_def)
  show "surface_ok s' = surface_ok s" "pending s' = pending s" "sf_layer s' = sf_layer s"
    unfolding m(1) using m(2)
    by (simp_all add: surface_ok_def geometry_def heat_ok_def dirty_ok_def bounds_def pending_def dirty_region_def)
  show "in_sync D s R \<Longrightarrow> in_sync D s' (R \<union> pixels r)"
    using assms redraws_fields(2) [OF assms] \<open>sf_layer s' = sf_layer s\<close>
    by (auto simp: in_sync_def redraws_def simp del: pixels_bounds)
qed

lemma inner_within: "inner r rect \<Longrightarrow> within rect b \<Longrightarrow> within r b"
  by (auto simp: inner_def within_def)

section \<open>Opaque pictures stay opaque\<close>

lemma opaque_component: "opaque c \<longleftrightarrow> component c 24 = 0xFF"
proof -
  have gen: "c AND push_bit 24 m = push_bit 24 (drop_bit 24 c AND m)" for m :: u32
    by (rule bit_eqI) (auto simp: bit_push_bit_iff bit_and_iff bit_drop_bit_eq)
  from gen [of "0xFF"] have e: "c AND 0xFF000000 = push_bit 24 (drop_bit 24 c AND 0xFF)" by simp
  have d: "drop_bit 24 (push_bit 24 (drop_bit 24 c AND 0xFF)) = drop_bit 24 c AND 0xFF"
  proof (rule bit_eqI)
    fix n assume "possible_bit TYPE(u32) n"
    have "n < 8" if "bit (0xFF :: u32) n"
    proof -
      have "(0xFF :: u32) = mask 8" by (simp add: mask_eq_exp_minus_1)
      with that show ?thesis by (simp add: bit_mask_iff)
    qed
    then show "bit (drop_bit 24 (push_bit 24 (drop_bit 24 c AND 0xFF))) n \<longleftrightarrow> bit (drop_bit 24 c AND 0xFF) n"
      by (auto simp: bit_push_bit_iff bit_and_iff bit_drop_bit_eq)
  qed
  have "opaque c \<longleftrightarrow> drop_bit 24 c AND 0xFF = 0xFF"
  proof
    assume "opaque c"
    then have "push_bit 24 (drop_bit 24 c AND 0xFF) = 0xFF000000" using e by (simp add: opaque_def)
    then have "drop_bit 24 (push_bit 24 (drop_bit 24 c AND 0xFF)) = drop_bit 24 0xFF000000" by simp
    then show "drop_bit 24 c AND 0xFF = 0xFF" unfolding d by simp
  next
    assume "drop_bit 24 c AND 0xFF = 0xFF"
    then show "opaque c" using e by (simp add: opaque_def)
  qed
  moreover have "component c 24 = 0xFF \<longleftrightarrow> drop_bit 24 c AND 0xFF = 0xFF"
    unfolding component_def word_uint_eq_iff by simp
  ultimately show ?thesis by simp
qed

lemma argb_opaque: "opaque (argb 0xFF red green blue)"
  unfolding opaque_def
proof (rule bit_eqI)
  fix n assume "possible_bit TYPE(u32) n"
  have "push_bit 24 (word_of_int 0xFF :: u32) = 0xFF000000" by simp
  then show "bit (argb 0xFF red green blue AND 0xFF000000) n \<longleftrightarrow> bit (0xFF000000 :: u32) n"
    unfolding argb_def bit_and_iff bit_or_iff by metis
qed

lemma opaque_or_left: "opaque (0xFF000000 OR c)" "opaque (c OR 0xFF000000)"
  unfolding opaque_def by (rule bit_eqI; auto simp only: bit_and_iff bit_or_iff)+

lemma argb_blend_opaque:
  assumes "opaque dst" shows "opaque (argb_blend dst src)"
proof -
  have d: "component dst 24 = 0xFF" using assms by (simp add: opaque_component)
  have "blend_component 0xFF (component src 24) (component src 24) = 0xFF" if "component src 24 \<noteq> 0xFF"
  proof -
    have "component src 24 \<le> 0xFF"
      unfolding component_def using word_and_le1 [of "drop_bit 24 src" "0xFF"] by (simp add: word_le_def)
    moreover have "0 \<le> component src 24" by (simp add: component_def)
    ultimately show ?thesis using that by (simp add: blend_component_def Let_def)
  qed
  then show ?thesis
    using assms d argb_opaque opaque_component [of src] by (auto simp: argb_blend_def Let_def)
qed

lemma redraw_opaque:
  assumes "all_opaque s" and "redraws s s' r" and "within r rect" and "\<forall>p \<in> pixels rect. opaque (pix s' p)"
  shows "all_opaque s'"
  unfolding all_opaque_def
proof
  fix p assume p: "p \<in> pixels (bounds s')"
  show "opaque (pix s' p)"
  proof (cases "p \<in> pixels rect")
    case False
    then have "p \<in> pixels (bounds s) - pixels r"
      using p pixels_within [OF assms(3)] redraws_fields(2) [OF assms(2)] by auto
    then show ?thesis using assms(1,2) by (auto simp: redraws_def all_opaque_def simp del: pixels_bounds)
  qed (use assms(4) in blast)
qed

section \<open>The operations\<close>

definition image_ok :: "cairo_image \<Rightarrow> bool" where
  "image_ok img \<longleftrightarrow> readable (ci_data img) (ci_stride img) (guac_common_rect_init 0 0 (ci_width img) (ci_height img))"

text \<open>A mode: all pixels are opaque, or no lossy encoding is ever used.\<close>

definition mode_ok :: "bool \<Rightarrow> bool \<Rightarrow> guac_common_surface \<Rightarrow> bool" where
  "mode_ok solid webp s \<longleftrightarrow> (if solid then all_opaque s
     else \<not> webp \<and> sf_width s * sf_height s \<le> GUAC_SURFACE_JPEG_MIN_BITMAP_SIZE)"

lemma mode_lossless: "mode_ok solid webp s \<Longrightarrow> geometry s \<Longrightarrow> lossless webp s"
  by (intro exact_lossless) (auto simp: mode_ok_def exact_def split: if_splits)

lemma mode_keeps: "keeps s s' \<Longrightarrow> mode_ok solid webp s' = mode_ok solid webp s"
  unfolding mode_ok_def all_opaque_def by (simp add: keeps_fields del: pixels_bounds)

lemma mode_redraws:
  assumes "mode_ok solid webp s" and "redraws s s' r" and "within r rect"
    and "solid \<Longrightarrow> \<forall>p \<in> pixels rect. opaque (pix s' p)"
  shows "mode_ok solid webp s'"
  using assms redraw_opaque [OF _ assms(2,3)] redraws_fields(4,5) [OF assms(2)] by (auto simp: mode_ok_def)

definition frame :: "guac_common_surface \<Rightarrow> int \<times> int \<times> int" where
  "frame s = (sf_layer s, sf_width s, sf_height s)"

lemma frame_keeps: "keeps s s' \<Longrightarrow> frame s' = frame s"
  by (simp add: frame_def keeps_def)

lemma frame_redraws: "redraws s s' r \<Longrightarrow> frame s' = frame s"
  using redraws_state(3) redraws_fields(4,5) by (simp add: frame_def)

lemma frame_update [simp]:
  "frame (s\<lparr>sf_heat_map := hm\<rparr>) = frame s" "frame (s\<lparr>sf_clip_rect := r, sf_clipped := c\<rparr>) = frame s"
  by (simp_all add: frame_def)

definition stays_synced :: "bool \<Rightarrow> bool \<Rightarrow> (int \<Rightarrow> u32 \<Rightarrow> u32 \<Rightarrow> u32) \<Rightarrow> guac_common_surface \<Rightarrow>
    (surface_call list \<times> guac_common_surface) option \<Rightarrow> bool" where
  "stays_synced solid webp blend s result \<longleftrightarrow>
     (\<exists>msgs s'. result = Some (msgs, s') \<and> surface_ok s' \<and> mode_ok solid webp s' \<and> frame s' = frame s
        \<and> (\<forall>D. tracks D s \<longrightarrow> tracks (apply_calls blend msgs D) s'))"

lemma stays_syncedI:
  "result = Some (msgs, s') \<Longrightarrow> surface_ok s' \<Longrightarrow> mode_ok solid webp s' \<Longrightarrow> frame s' = frame s \<Longrightarrow>
     (\<And>D. tracks D s \<Longrightarrow> tracks (apply_calls blend msgs D) s') \<Longrightarrow> stays_synced solid webp blend s result"
  unfolding stays_synced_def by blast

lemma stays_synced_refl: "surface_ok s \<Longrightarrow> mode_ok solid webp s \<Longrightarrow> stays_synced solid webp blend s (Some ([], s))"
  by (rule stays_syncedI [OF refl]) simp_all

lemma image_readable:
  assumes "image_ok img" and "within r (guac_common_rect_init x y (ci_width img) (ci_height img))"
  shows "readable (ci_data img) (ci_stride img) (guac_common_rect_init (rc_x r - x) (rc_y r - y) (rc_width r) (rc_height r))"
  using assms(1) unfolding image_ok_def
  by (rule readable_within, intro pixels_within) (use assms(2) in \<open>auto simp: within_def guac_common_rect_init_def\<close>)

context compositing
begin

text \<open>After a change of the buffer: deferring the update keeps the client in step.\<close>

lemma defer_synced:
  assumes "surface_ok s" and "mode_ok solid webp s'" and "redraws s s' r" and "within r (bounds s)"
  shows "stays_synced solid webp blend s (defer_draw webp s' r)"
proof -
  have ok: "surface_ok s'" "geometry s'" using assms(1) redraws_state(1) [OF assms(3)] by (simp_all add: surface_ok_def)
  have w: "within r (bounds s')" using assms(4) redraws_fields(2) [OF assms(3)] by simp
  from defer_draw_sync [OF ok(1) mode_lossless [OF assms(2) ok(2)] w] obtain msgs s2 where
    s2: "defer_draw webp s' r = Some (msgs, s2)" "keeps s' s2" "surface_ok s2"
      "\<And>D. in_sync D s' (pending s' \<union> pixels r) \<Longrightarrow> in_sync (apply_calls blend msgs D) s2 (pending s2)" by blast
  show ?thesis
  proof (rule stays_syncedI [OF s2(1,3)])
    show "mode_ok solid webp s2" using mode_keeps [OF s2(2)] assms(2) by blast
    show "frame s2 = frame s" using frame_keeps [OF s2(2)] frame_redraws [OF assms(3)] by simp
    fix D assume "tracks D s"
    then have "in_sync D s' (pending s' \<union> pixels r)"
      using redraws_state(2,4) [OF assms(3)] by (simp add: tracks_def)
    then show "tracks (apply_calls blend msgs D) s2" using s2(4) by (simp add: tracks_def)
  qed
qed

lemma heat_update:
  assumes "heat_ok (s\<lparr>sf_heat_map := hm\<rparr>)"
  shows "surface_ok s \<Longrightarrow> surface_ok (s\<lparr>sf_heat_map := hm\<rparr>)" "mode_ok solid webp (s\<lparr>sf_heat_map := hm\<rparr>) = mode_ok solid webp s"
    "tracks D (s\<lparr>sf_heat_map := hm\<rparr>) = tracks D s" "bounds (s\<lparr>sf_heat_map := hm\<rparr>) = bounds s"
  using assms
  by (auto simp: surface_ok_def geometry_def dirty_ok_def bounds_def mode_ok_def all_opaque_def pix_def
      tracks_def in_sync_def pending_def dirty_region_def)

lemma heat_redraws:
  assumes "redraws s s' r" shows "redraws (s\<lparr>sf_heat_map := hm\<rparr>) (s'\<lparr>sf_heat_map := hm\<rparr>) r"
proof -
  obtain m where m: "s' = s\<lparr>sf_buffer := m\<rparr>" using assms by (auto simp: redraws_def)
  show ?thesis using assms unfolding m by (simp add: redraws_def pix_def bounds_def)
qed

lemma draw_synced:
  assumes "surface_ok s" and "mode_ok solid webp s" and "image_ok img"
  shows "stays_synced solid webp blend s (guac_common_surface_draw webp time s x y img)"
proof -
  obtain rect sx sy where c: "clip_rect s (guac_common_rect_init x y (ci_width img) (ci_height img)) = (rect, sx, sy)"
    by (metis prod_cases3)
  note cr = clip_rect_ok [OF assms(1), of "guac_common_rect_init x y (ci_width img) (ci_height img)", unfolded c, simplified]
  have sxy: "sx = rc_x rect - x" "sy = rc_y rect - y" using cr(3) by (simp_all add: guac_common_rect_init_def)
  have g: "geometry s" "heat_ok s" using assms(1) by (simp_all add: surface_ok_def)
  have idle: "stays_synced solid webp blend s (Some ([], s))" by (rule stays_synced_refl [OF assms(1,2)])
  show ?thesis
  proof (cases "rc_width rect \<le> 0 \<or> rc_height rect \<le> 0")
    case True
    then show ?thesis using c idle by (simp add: guac_common_surface_draw_def)
  next
    case False
    have rd: "readable (ci_data img) (ci_stride img) (guac_common_rect_init sx sy (rc_width rect) (rc_height rect))"
      unfolding sxy by (rule image_readable [OF assms(3) cr(2)])
    have pos: "0 < rc_width rect" "0 < rc_height rect" using False by simp_all
    let ?op = "ci_format img \<noteq> CAIRO_FORMAT_ARGB32"
    obtain s1 r where s1: "surface_put (ci_data img) (ci_stride img) sx sy s rect ?op
          = Some (s1, r, sx + (rc_x r - rc_x rect), sy + (rc_y r - rc_y rect))"
      "redraws s s1 r" "inner r rect"
      "\<forall>p \<in> pixels rect. pix s1 p = (let c = pix_at (ci_data img) (ci_stride img) (sx + (fst p - rc_x rect), sy + (snd p - rc_y rect)) in
         if ?op then c OR 0xFF000000 else argb_blend (pix s p) c)"
      by (rule surface_put_ok [OF g(1) cr(1) pos rd])
    have rb: "within r (bounds s)" by (rule inner_within [OF s1(3) cr(1)])
    have solid: "\<forall>p \<in> pixels rect. opaque (pix s1 p)" if solid
    proof
      fix p assume p: "p \<in> pixels rect"
      then have "opaque (pix s p)"
        using assms(2) that pixels_within [OF cr(1)] by (auto simp: mode_ok_def all_opaque_def simp del: pixels_bounds)
      with s1(4) p show "opaque (pix s1 p)" by (simp add: Let_def opaque_or_left argb_blend_opaque)
    qed
    have m1: "mode_ok solid webp s1"
      by (rule mode_redraws [OF assms(2) s1(2) _ solid]) (use s1(3) in \<open>simp_all add: inner_def\<close>)
    have ok1: "surface_ok s1" using redraws_state(1) [OF s1(2)] assms(1) by simp
    show ?thesis
    proof (cases "rc_width r \<le> 0 \<or> rc_height r \<le> 0")
      case True
      then have "pixels r = {}" by (auto simp: pixels_def)
      then have "tracks D s1" if "tracks D s" for D
        using that redraws_state(2,4) [OF s1(2)] by (simp add: tracks_def)
      then have "stays_synced solid webp blend s (Some ([], s1))"
        using frame_redraws [OF s1(2)] by (intro stays_syncedI [OF refl ok1 m1]) simp_all
      then show ?thesis using c False s1(1) True by (simp add: guac_common_surface_draw_def)
    next
      case big: False
      have h1: "heat_ok s1" using ok1 by (simp add: surface_ok_def)
      have rb1: "within r (bounds s1)" using rb redraws_fields(2) [OF s1(2)] by simp
      obtain hm where hm: "touch_rect s1 r time = Some (s1\<lparr>sf_heat_map := hm\<rparr>)" "heat_ok (s1\<lparr>sf_heat_map := hm\<rparr>)"
        using touch_rect_ok [OF h1 rb1] big by (metis not_le)
      have hs: "heat_ok (s\<lparr>sf_heat_map := hm\<rparr>)"
        using hm(2) redraws_fields(4,5) [OF s1(2)] by (simp add: heat_ok_def)
      have "stays_synced solid webp blend (s\<lparr>sf_heat_map := hm\<rparr>) (defer_draw webp (s1\<lparr>sf_heat_map := hm\<rparr>) r)"
        using heat_update(1) [OF hs assms(1)] heat_update(2) [OF hm(2)] m1 heat_redraws [OF s1(2)]
          heat_update(4) [OF hs] rb by (intro defer_synced) simp_all
      then show ?thesis
        using c False s1(1) big hm(1) heat_update(3) [OF hs] by (simp add: guac_common_surface_draw_def stays_synced_def)
    qed
  qed
qed

lemma paint_synced:
  assumes "surface_ok s" and "mode_ok solid webp s" and "image_ok img"
  shows "stays_synced solid webp blend s (guac_common_surface_paint webp s x y img red green blue)"
proof -
  obtain rect sx sy where c: "clip_rect s (guac_common_rect_init x y (ci_width img) (ci_height img)) = (rect, sx, sy)"
    by (metis prod_cases3)
  note cr = clip_rect_ok [OF assms(1), of "guac_common_rect_init x y (ci_width img) (ci_height img)", unfolded c, simplified]
  have sxy: "sx = rc_x rect - x" "sy = rc_y rect - y" using cr(3) by (simp_all add: guac_common_rect_init_def)
  have g: "geometry s" using assms(1) by (simp add: surface_ok_def)
  show ?thesis
  proof (cases "rc_width rect \<le> 0 \<or> rc_height rect \<le> 0")
    case True
    then show ?thesis using c stays_synced_refl [OF assms(1,2)] by (simp add: guac_common_surface_paint_def)
  next
    case False
    have rd: "readable (ci_data img) (ci_stride img) (guac_common_rect_init sx sy (rc_width rect) (rc_height rect))"
      unfolding sxy by (rule image_readable [OF assms(3) cr(2)])
    have pos: "0 < rc_width rect" "0 < rc_height rect" using False by simp_all
    obtain s1 where s1: "surface_fill_mask (ci_data img) (ci_stride img) sx sy s rect red green blue = Some s1"
      "redraws s s1 rect"
      "\<forall>p \<in> pixels rect. pix s1 p =
         (if pix_at (ci_data img) (ci_stride img) (sx + (fst p - rc_x rect), sy + (snd p - rc_y rect)) AND 0xFF000000 \<noteq> 0
          then 0xFF000000 OR argb 0 red green blue else pix s p)"
      by (rule surface_fill_mask_ok [OF g cr(1) pos rd])
    have solid: "\<forall>p \<in> pixels rect. opaque (pix s1 p)" if solid
    proof
      fix p assume p: "p \<in> pixels rect"
      then have "opaque (pix s p)"
        using assms(2) that pixels_within [OF cr(1)] by (auto simp: mode_ok_def all_opaque_def simp del: pixels_bounds)
      with s1(3) p show "opaque (pix s1 p)" by (simp add: opaque_or_left)
    qed
    have "within rect rect" by (simp add: within_def)
    from mode_redraws [OF assms(2) s1(2) this solid] have "mode_ok solid webp s1" .
    from defer_synced [OF assms(1) this s1(2) cr(1)] show ?thesis
      using c False s1(1) by (simp add: guac_common_surface_paint_def)
  qed
qed

text \<open>Filling at once: the rectangle and the fill show the new pixels.\<close>

lemma fill_shows:
  assumes "in_sync D s (pixels r)" and "\<forall>p \<in> pixels r. pix s p = argb 0xFF red green blue"
  shows "in_sync (apply_calls blend
     [Path_Call (Send_rect (sf_layer s) (rc_x r) (rc_y r) (rc_width r) (rc_height r)),
      Paint_Call (Send_cfill GUAC_COMP_OVER (sf_layer s) red green blue 0xFF)] D) s {}"
  using assms over_opaque [OF argb_opaque]
  by (auto simp: in_sync_def GUAC_COMP_OVER_def simp del: pixels_bounds)

lemma set_synced:
  assumes "surface_ok s" and mode: "mode_ok solid webp s \<or> solid \<and> fst (clip_rect s (guac_common_rect_init x y w h)) = bounds s"
    and "solid \<Longrightarrow> alpha = 0xFF"
  shows "stays_synced solid webp blend s (guac_common_surface_set webp s x y w h red green blue alpha)"
proof -
  obtain rect sx sy where c: "clip_rect s (guac_common_rect_init x y w h) = (rect, sx, sy)"
    by (metis prod_cases3)
  note cr = clip_rect_ok [OF assms(1), of "guac_common_rect_init x y w h", unfolded c, simplified]
  have g: "geometry s" using assms(1) by (simp add: surface_ok_def)
  show ?thesis
  proof (cases "rc_width rect \<le> 0 \<or> rc_height rect \<le> 0")
    case True
    then have "pixels rect = {}" by (auto simp: pixels_def)
    then have "mode_ok solid webp s" using mode c by (auto simp: mode_ok_def all_opaque_def simp del: pixels_bounds)
    then show ?thesis using True c stays_synced_refl [OF assms(1)] by (simp add: guac_common_surface_set_def)
  next
    case False
    have pos: "0 < rc_width rect" "0 < rc_height rect" using False by simp_all
    obtain s1 r where s1: "surface_set s rect red green blue alpha = Some (s1, r)" "redraws s s1 r" "inner r rect"
      "\<forall>p \<in> pixels rect. pix s1 p = argb alpha red green blue"
      by (rule surface_set_ok [OF g cr(1) pos])
    have rb: "within r (bounds s)" by (rule inner_within [OF s1(3) cr(1)])
    have rb1: "within r (bounds s1)" using rb redraws_fields(2) [OF s1(2)] by simp
    have op: "\<forall>p \<in> pixels rect. opaque (pix s1 p)" if solid using s1(4) assms(3) [OF that] argb_opaque by simp
    have m1: "mode_ok solid webp s1"
    proof (cases "mode_ok solid webp s")
      case True
      then show ?thesis by (rule mode_redraws [OF _ s1(2) _ op]) (use s1(3) in \<open>simp_all add: inner_def\<close>)
    next
      case False
      then have "solid" "rect = bounds s" using mode c by auto
      then show ?thesis using op redraws_fields(2) [OF s1(2)] by (simp add: mode_ok_def all_opaque_def del: pixels_bounds)
    qed
    have ok1: "surface_ok s1" "geometry s1" using redraws_state(1) [OF s1(2)] assms(1) by (simp_all add: surface_ok_def)
    have l1: "frame s1 = frame s" by (rule frame_redraws [OF s1(2)])
    have t1: "in_sync D s1 (pending s1 \<union> pixels r)" if "tracks D s" for D
      using that redraws_state(2,4) [OF s1(2)] by (simp add: tracks_def)
    consider "rc_width r \<le> 0 \<or> rc_height r \<le> 0" | "0 < rc_width r" "0 < rc_height r" "alpha \<noteq> 0xFF"
      | "0 < rc_width r" "0 < rc_height r" "alpha = 0xFF" "should_combine s1 r True"
      | "0 < rc_width r" "0 < rc_height r" "alpha = 0xFF" "\<not> should_combine s1 r True" by linarith
    then show ?thesis
    proof cases
      case 1
      then have "pixels r = {}" by (auto simp: pixels_def)
      then have "stays_synced solid webp blend s (Some ([], s1))"
        using t1 l1 by (intro stays_syncedI [OF refl ok1(1) m1]) (simp_all add: tracks_def)
      then show ?thesis using c False s1(1) 1 by (simp add: guac_common_surface_set_def)
    next
      case 2
      then show ?thesis
        using defer_synced [OF assms(1) m1 s1(2) rb] c False s1(1) by (simp add: guac_common_surface_set_def)
    next
      case 3
      have d: "dirty_ok s1" using ok1(1) by (simp add: surface_ok_def)
      note m = mark_dirty_sync [OF ok1(1) rb1] mark_dirty_ok(1) [OF d rb1]
      have "stays_synced solid webp blend s (Some ([], mark_dirty s1 r))"
      proof (rule stays_syncedI [OF refl m(1)])
        show "mode_ok solid webp (mark_dirty s1 r)" "frame (mark_dirty s1 r) = frame s"
          using mode_keeps [OF m(3)] m1 frame_keeps [OF m(3)] l1 by simp_all
        fix D assume "tracks D s"
        then have "in_sync D s1 (pending (mark_dirty s1 r))" using in_sync_mono [OF t1 m(2)] by blast
        then show "tracks (apply_calls blend [] D) (mark_dirty s1 r)"
          using keeps_fields(8) [OF m(3)] by (simp add: tracks_def)
      qed
      then show ?thesis using c False s1(1) 3 by (simp add: guac_common_surface_set_def)
    next
      case 4
      from surface_flush_sync [OF ok1(1) mode_lossless [OF m1 ok1(2)]] obtain msgs s2 where
        s2: "surface_flush webp s1 = Some (msgs, s2)" "keeps s1 s2" "\<not> sf_dirty s2" "sf_bitmap_queue s2 = []"
          "\<And>D R. in_sync D s1 (R \<union> pending s1) \<Longrightarrow> in_sync (apply_calls blend msgs D) s1 R" by blast
      let ?s = "s2\<lparr>sf_realized := True\<rparr>"
      let ?fill = "[Path_Call (Send_rect (sf_layer s2) (rc_x r) (rc_y r) (rc_width r) (rc_height r)),
          Paint_Call (Send_cfill GUAC_COMP_OVER (sf_layer s2) red green blue alpha)]"
      have k: "keeps s1 ?s" by (rule keeps_trans [OF s2(2) keeps_update(4)])
      have "stays_synced solid webp blend s (Some (msgs @ ?fill, ?s))"
      proof (rule stays_syncedI [OF refl])
        show "surface_ok ?s"
          by (rule surface_ok_keeps [OF ok1(1) k]) (use s2(3,4) in \<open>simp_all add: dirty_ok_def\<close>)
        show "mode_ok solid webp ?s" "frame ?s = frame s"
          using mode_keeps [OF k] m1 frame_keeps [OF k] l1 by simp_all
        fix D assume "tracks D s"
        then have "in_sync (apply_calls blend msgs D) s1 (pixels r)"
          using s2(5) [of D "pixels r"] t1 by (simp add: Un_commute)
        moreover have "\<forall>p \<in> pixels r. pix s1 p = argb 0xFF red green blue"
          using s1(3,4) pixels_within [of r rect] 4(3) by (auto simp: inner_def)
        ultimately have e: "in_sync (apply_calls blend (msgs @ ?fill) D) s1 {}"
          using fill_shows [of "apply_calls blend msgs D" s1 r red green blue] keeps_fields(5) [OF s2(2)] 4(3) by simp
        show "tracks (apply_calls blend (msgs @ ?fill) D) ?s"
          unfolding tracks_def keeps_fields(8) [OF k] by (rule in_sync_mono [OF e]) simp
      qed
      then show ?thesis using c False s1(1) 4 s2(1) by (simp add: guac_common_surface_set_def)
    qed
  qed
qed

text \<open>Scrolling: a copy within one surface, with all pixels opaque.\<close>

lemma source_pixel:
  assumes "within (guac_common_rect_init sx sy (rc_width rect) (rc_height rect)) b" and "p \<in> pixels rect"
  shows "(sx + (fst p - rc_x rect), sy + (snd p - rc_y rect)) \<in> pixels b"
  using assms by (auto simp: within_def pixels_def guac_common_rect_init_def)

lemma copy_shows:
  assumes "in_sync D s {}" and "redraws s s' rect" and "within rect (bounds s)" and "all_opaque s"
    and "within (guac_common_rect_init sx sy (rc_width rect) (rc_height rect)) (bounds s)"
    and "\<forall>p \<in> pixels rect. pix s' p = pix s (sx + (fst p - rc_x rect), sy + (snd p - rc_y rect))"
  shows "in_sync (apply_calls blend [Paint_Call (Send_copy (sf_layer s) sx sy (rc_width rect) (rc_height rect) GUAC_COMP_OVER
      (sf_layer s) (rc_x rect) (rc_y rect))] D) s' {}"
proof -
  have l: "sf_layer s' = sf_layer s" "bounds s' = bounds s"
    using redraws_state(3) [OF assms(2)] redraws_fields(2) [OF assms(2)] by simp_all
  have e: "guac_common_rect_init (rc_x rect) (rc_y rect) (rc_width rect) (rc_height rect) = rect"
    by (simp add: guac_common_rect_init_def)
  have src: "(sx + (fst p - rc_x rect), sy + (snd p - rc_y rect)) \<in> pixels (bounds s)" if "p \<in> pixels rect" for p
    by (rule source_pixel [OF assms(5) that])
  have show_p: "blend 0xE (rd_pic D (sf_layer s) (fst p - rc_x rect + sx, snd p - rc_y rect + sy)) (rd_pic D (sf_layer s) p) = pix s' p"
    if p: "p \<in> pixels rect" for p
  proof -
    have "rd_pic D (sf_layer s) (sx + (fst p - rc_x rect), sy + (snd p - rc_y rect)) = pix s' p" "opaque (pix s' p)"
      using src [OF p] assms(1,4,6) p by (auto simp: in_sync_def all_opaque_def simp del: pixels_bounds)
    then show ?thesis using over_opaque by (simp add: add.commute)
  qed
  have other: "rd_pic D (sf_layer s) p = pix s' p" if "p \<in> pixels (bounds s)" "p \<notin> pixels rect" for p
    using that assms(1,2) by (auto simp: in_sync_def redraws_def simp del: pixels_bounds)
  have "rd_path D (sf_layer s) = {}" using assms(1) by (simp add: in_sync_def)
  moreover have "(if p \<in> pixels rect
      then blend 0xE (rd_pic D (sf_layer s) (fst p - rc_x rect + sx, snd p - rc_y rect + sy)) (rd_pic D (sf_layer s) p)
      else rd_pic D (sf_layer s) p) = pix s' p" if "p \<in> pixels (bounds s)" for p
    using show_p other [OF that] by simp
  ultimately show ?thesis
    unfolding in_sync_def l by (simp add: GUAC_COMP_OVER_def e del: pixels_bounds)
qed

lemma scroll_synced:
  assumes "surface_ok s" and "mode_ok True webp s"
  shows "stays_synced True webp blend s
    (map_option (\<lambda>(msgs, _, s). (msgs, s)) (guac_common_surface_copy webp None sx sy w h s dx dy))"
proof -
  obtain srect mx my where b: "bound_rect s (guac_common_rect_init sx sy w h) = (srect, mx, my)" by (metis prod_cases3)
  have sb: "within srect (bounds s)"
    using bound_rect_fst [of s "guac_common_rect_init sx sy w h"] b constrain_within(1) by simp
  let ?d = "guac_common_rect_init (dx + mx) (dy + my) (rc_width srect) (rc_height srect)"
  obtain drect nx ny where c: "clip_rect s ?d = (drect, nx, ny)" by (metis prod_cases3)
  note cr = clip_rect_ok [OF assms(1), of ?d, unfolded c, simplified]
  let ?sx = "rc_x srect + nx" and ?sy = "rc_y srect + ny"
  have sw: "within (guac_common_rect_init ?sx ?sy (rc_width drect) (rc_height drect)) (bounds s)"
    using cr(2,3) sb by (auto simp: within_def guac_common_rect_init_def)
  have idle: "stays_synced True webp blend s (Some ([], s))" by (rule stays_synced_refl [OF assms])
  have g: "geometry s" "dirty_ok s" and op: "all_opaque s" using assms by (simp_all add: surface_ok_def mode_ok_def)
  have moved: "\<exists>s3. map_option (\<lambda>(d, _, _, _). (msgs, None :: guac_common_surface option, d))
        (surface_transfer None ?sx ?sy GUAC_TRANSFER_BINARY_SRC s' drect) = Some (msgs, None, s3)
      \<and> redraws s' s3 drect \<and> mode_ok True webp s3
      \<and> (\<forall>p \<in> pixels drect. pix s3 p = pix s' (?sx + (fst p - rc_x drect), ?sy + (snd p - rc_y drect)))"
    if k: "keeps s s'" and pos: "0 < rc_width drect" "0 < rc_height drect" for s' and msgs :: "surface_call list"
  proof -
    have g': "geometry s'" "within drect (bounds s')"
      "within (guac_common_rect_init ?sx ?sy (rc_width drect) (rc_height drect)) (bounds s')"
      using g(1) cr(1) sw by (simp_all add: keeps_fields [OF k])
    obtain s3 where s3: "map_option fst (surface_transfer None ?sx ?sy GUAC_TRANSFER_BINARY_SRC s' drect) = Some s3" "redraws s' s3 drect"
      "\<forall>p \<in> pixels drect. pix s3 p = pix s' (?sx + (fst p - rc_x drect), ?sy + (snd p - rc_y drect))"
      by (rule surface_transfer_same_ok [OF g'(1,2) pos g'(3), of GUAC_TRANSFER_BINARY_SRC], rule that)
        (simp_all add: GUAC_TRANSFER_BINARY_SRC_def transfer_int_def)
    have w: "within drect drect" by (simp add: within_def)
    have src: "(?sx + (fst p - rc_x drect), ?sy + (snd p - rc_y drect)) \<in> pixels (bounds s')" if "p \<in> pixels drect" for p
      by (rule source_pixel [OF g'(3) that])
    have m: "mode_ok True webp s'" using mode_keeps [OF k] assms(2) by blast
    have "\<forall>p \<in> pixels drect. opaque (pix s3 p)" using s3(3) src m by (simp add: mode_ok_def all_opaque_def del: pixels_bounds)
    then have "mode_ok True webp s3" by (rule mode_redraws [OF m s3(2) w])
    with s3 show ?thesis by (auto simp: map_option_case split: option.splits prod.splits)
  qed
  consider "rc_width srect \<le> 0 \<or> rc_height srect \<le> 0"
    | "0 < rc_width srect" "0 < rc_height srect" "rc_width drect \<le> 0 \<or> rc_height drect \<le> 0"
    | "0 < rc_width srect" "0 < rc_height srect" "0 < rc_width drect" "0 < rc_height drect" "should_combine s drect True"
    | "0 < rc_width srect" "0 < rc_height srect" "0 < rc_width drect" "0 < rc_height drect" "\<not> should_combine s drect True"
    by linarith
  then show ?thesis
  proof cases
    case 1
    then show ?thesis using b idle by (simp add: guac_common_surface_copy_def send_area_def)
  next
    case 2
    then show ?thesis using b c idle by (simp add: guac_common_surface_copy_def send_area_def)
  next
    case 3
    note m = mark_dirty_sync [OF assms(1) cr(1)] mark_dirty_ok(1) [OF g(2) cr(1)]
    obtain s3 where s3: "map_option (\<lambda>(d, _, _, _). ([] :: surface_call list, None :: guac_common_surface option, d))
        (surface_transfer None ?sx ?sy GUAC_TRANSFER_BINARY_SRC (mark_dirty s drect) drect) = Some ([], None, s3)"
      "redraws (mark_dirty s drect) s3 drect" "mode_ok True webp s3" using moved [OF m(3) 3(3,4)] by blast
    have "guac_common_surface_copy webp None sx sy w h s dx dy = Some ([], None, s3)"
      using b c 3 s3(1) by (simp add: guac_common_surface_copy_def send_area_def Let_def)
    moreover have "stays_synced True webp blend s (Some ([], s3))"
    proof (rule stays_syncedI [OF refl _ s3(3)])
      show "surface_ok s3" "frame s3 = frame s"
        using m(1) redraws_state(1) [OF s3(2)] frame_redraws [OF s3(2)] frame_keeps [OF m(3)] by simp_all
      fix D assume "tracks D s"
      then have "in_sync D (mark_dirty s drect) (pending (mark_dirty s drect))"
        using in_sync_mono m(2) unfolding tracks_def keeps_fields(8) [OF m(3)] by blast
      from redraws_state(4) [OF s3(2) this] show "tracks (apply_calls blend [] D) s3"
        unfolding tracks_def redraws_state(2) [OF s3(2)] apply_calls_simps by (rule in_sync_mono) (use m(2) in blast)
    qed
    ultimately show ?thesis by simp
  next
    case 4
    from surface_flush_sync [OF assms(1) mode_lossless [OF assms(2) g(1)]] obtain m1 s1 where
      s1: "surface_flush webp s = Some (m1, s1)" "keeps s s1" "\<not> sf_dirty s1" "sf_bitmap_queue s1 = []"
        "\<And>D R. in_sync D s (R \<union> pending s) \<Longrightarrow> in_sync (apply_calls blend m1 D) s R" by blast
    have ok1: "surface_ok s1" by (rule surface_ok_keeps [OF assms(1) s1(2)]) (use s1(3,4) in \<open>simp_all add: dirty_ok_def\<close>)
    have p1: "pending s1 = {}" using s1(3,4) by (simp add: pending_def dirty_region_def queue_region_def)
    have "lossless webp s1" using mode_keeps [OF s1(2)] assms(2) ok1 by (intro mode_lossless) (simp_all add: surface_ok_def)
    from surface_flush_sync [OF ok1 this] obtain m2 s2 where
      s2: "surface_flush webp s1 = Some (m2, s2)" "keeps s1 s2" "\<not> sf_dirty s2" "sf_bitmap_queue s2 = []"
        "\<And>D R. in_sync D s1 (R \<union> pending s1) \<Longrightarrow> in_sync (apply_calls blend m2 D) s1 R" by blast
    let ?s = "s2\<lparr>sf_realized := True\<rparr>"
    have k: "keeps s ?s" by (rule keeps_trans [OF keeps_trans [OF s1(2) s2(2)] keeps_update(4)])
    let ?copy = "[Paint_Call (Send_copy (sf_layer s) ?sx ?sy (rc_width drect) (rc_height drect) GUAC_COMP_OVER
      (sf_layer s) (rc_x drect) (rc_y drect))]"
    let ?msgs = "m1 @ m2 @ ?copy"
    obtain s3 where s3: "map_option (\<lambda>(d, _, _, _). (?msgs, None :: guac_common_surface option, d))
        (surface_transfer None ?sx ?sy GUAC_TRANSFER_BINARY_SRC ?s drect) = Some (?msgs, None, s3)"
      "redraws ?s s3 drect" "mode_ok True webp s3"
      "\<forall>p \<in> pixels drect. pix s3 p = pix ?s (?sx + (fst p - rc_x drect), ?sy + (snd p - rc_y drect))"
      using moved [OF k 4(3,4)] by blast
    have "guac_common_surface_copy webp None sx sy w h s dx dy = Some (?msgs, None, s3)"
      using b c 4 s3(1) s1(1) s2(1) keeps_fields(5) [OF k] by (simp add: guac_common_surface_copy_def send_area_def Let_def)
    moreover have "stays_synced True webp blend s (Some (?msgs, s3))"
    proof (rule stays_syncedI [OF refl _ s3(3)])
      have "surface_ok ?s" by (rule surface_ok_keeps [OF assms(1) k]) (use s2(3,4) in \<open>simp_all add: dirty_ok_def\<close>)
      then show "surface_ok s3" "frame s3 = frame s"
        using redraws_state(1) [OF s3(2)] frame_redraws [OF s3(2)] frame_keeps [OF k] by simp_all
      fix D assume "tracks D s"
      then have "in_sync (apply_calls blend m2 (apply_calls blend m1 D)) s {}"
        using s1(5) [of D "{}"] s2(5) [of _ "{}"] p1 keeps_fields(8) [OF s1(2)] by (simp add: tracks_def)
      then have "in_sync (apply_calls blend m2 (apply_calls blend m1 D)) ?s {}" unfolding keeps_fields(8) [OF k] .
      from copy_shows [OF this s3(2) _ _ _ s3(4)] have "in_sync (apply_calls blend ?msgs D) s3 {}"
        using cr(1) sw op mode_keeps [OF k, of True webp] assms(2) keeps_fields(1,5) [OF k] by (simp add: mode_ok_def)
      then show "tracks (apply_calls blend ?msgs D) s3" unfolding tracks_def by (rule in_sync_mono) simp
    qed
    ultimately show ?thesis by simp
  qed
qed

text \<open>What leaves the picture alone.\<close>

lemma property_synced:
  assumes "surface_ok s" and "mode_ok solid webp s" and "keeps s s'" and "sf_dirty s' = sf_dirty s"
    and "sf_dirty_rect s' = sf_dirty_rect s" and "sf_bitmap_queue s' = sf_bitmap_queue s"
  shows "stays_synced solid webp blend s (Some ([], s'))"
proof (rule stays_syncedI [OF refl])
  have "dirty_ok s'" "pending s' = pending s"
    using assms keeps_fields(1) [OF assms(3)] by (simp_all add: surface_ok_def dirty_ok_def pending_def dirty_region_def)
  then show "surface_ok s'" using surface_ok_keeps [OF assms(1,3)] assms by (simp add: surface_ok_def)
  show "tracks (apply_calls blend [] D) s'" if "tracks D s" for D
    using that \<open>pending s' = pending s\<close> keeps_fields(8) [OF assms(3)] by (simp add: tracks_def)
  show "mode_ok solid webp s'" "frame s' = frame s"
    using mode_keeps [OF assms(3)] assms(2) frame_keeps [OF assms(3)] by simp_all
qed

lemma clip_synced:
  assumes "surface_ok s" and "mode_ok solid webp s" and "c \<longrightarrow> within r (bounds s)"
  shows "stays_synced solid webp blend s (Some ([], s\<lparr>sf_clip_rect := r, sf_clipped := c\<rparr>))"
proof (rule stays_syncedI [OF refl])
  let ?s = "s\<lparr>sf_clip_rect := r, sf_clipped := c\<rparr>"
  show "surface_ok ?s"
    using assms by (simp add: surface_ok_def geometry_def heat_ok_def dirty_ok_def bounds_def)
  show "mode_ok solid webp ?s"
    using assms(2) by (cases solid) (simp_all add: mode_ok_def all_opaque_def pix_def bounds_def)
  show "tracks (apply_calls blend [] D) ?s" if "tracks D s" for D
    using that by (simp add: tracks_def in_sync_def pending_def dirty_region_def pix_def bounds_def)
qed simp

lemma apply_properties: "apply_calls blend (fst (flush_properties s)) D = D"
  by (simp add: flush_properties_def)

lemma flush_synced:
  assumes "surface_ok s" and "mode_ok solid webp s"
  shows "stays_synced solid webp blend s (guac_common_surface_flush webp s)
    \<and> (\<forall>msgs s' D. guac_common_surface_flush webp s = Some (msgs, s') \<and> tracks D s \<longrightarrow> in_sync (apply_calls blend msgs D) s' {})"
proof -
  obtain m0 s0 where f: "flush_properties s = (m0, s0)" by fastforce
  have p0: "apply_calls blend m0 D = D" for D using apply_properties [of s D] f by simp
  have s0: "keeps s s0" "sf_dirty s0 = sf_dirty s" "sf_dirty_rect s0 = sf_dirty_rect s" "sf_bitmap_queue s0 = sf_bitmap_queue s"
    using f by (auto simp: flush_properties_def keeps_def split: if_splits)
  have ok: "surface_ok s0" "mode_ok solid webp s0" "\<And>D. tracks D s \<Longrightarrow> tracks D s0"
    using property_synced [OF assms s0] by (auto simp: stays_synced_def)
  from surface_flush_sync [OF ok(1) mode_lossless [OF ok(2)]] ok(1) obtain msgs s' where
    s': "surface_flush webp s0 = Some (msgs, s')" "keeps s0 s'" "\<not> sf_dirty s'" "sf_bitmap_queue s' = []"
      "\<And>D R. in_sync D s0 (R \<union> pending s0) \<Longrightarrow> in_sync (apply_calls blend msgs D) s0 R"
    by (auto simp: surface_ok_def)
  have eq: "guac_common_surface_flush webp s = Some (m0 @ msgs, s')"
    using f s'(1) by (simp add: guac_common_surface_flush_def)
  have clean: "in_sync (apply_calls blend (m0 @ msgs) D) s' {}" if "tracks D s" for D
    using ok(3) [OF that] s'(5) [of D "{}"] p0 keeps_fields(8) [OF s'(2)] by (simp add: tracks_def)
  have "stays_synced solid webp blend s (guac_common_surface_flush webp s)"
  proof (rule stays_syncedI [OF eq])
    show "surface_ok s'" by (rule surface_ok_keeps [OF ok(1) s'(2)]) (use s'(3,4) in \<open>simp_all add: dirty_ok_def\<close>)
    show "mode_ok solid webp s'" using mode_keeps [OF s'(2)] ok(2) by blast
    show "frame s' = frame s" using frame_keeps [OF s'(2)] frame_keeps [OF s0(1)] by simp
    show "tracks (apply_calls blend (m0 @ msgs) D) s'" if "tracks D s" for D
      unfolding tracks_def by (rule in_sync_mono [OF clean [OF that]]) simp
  qed
  then show ?thesis using eq clean by simp
qed

end

end
