(* ===== verification/Surface_Run.thy ===== *)
theory Surface_Run
  imports Surface_Ops
begin

text \<open>
  Sequences of operations on a surface, from its allocation on: the client's picture, the composition the
  surface itself uses as an interpretation of \<open>compositing\<close>, and the change of the size.
\<close>

section \<open>A client that composes as the surface does\<close>

definition client_comp :: "int \<Rightarrow> u32 \<Rightarrow> u32 \<Rightarrow> u32" where
  "client_comp mode src dst =
     (if mode = GUAC_COMP_OVER then argb_blend dst src
      else if mode = GUAC_COMP_ROUT then (if opaque src then 0 else dst) else dst)"

interpretation blending: compositing client_comp
proof unfold_locales
  fix src dst :: u32
  show "client_comp 0xE src dst = src" if "opaque src"
    using that by (simp add: client_comp_def GUAC_COMP_OVER_def argb_blend_def Let_def opaque_component)
  show "client_comp 0xE src 0 = src"
    by (simp add: client_comp_def GUAC_COMP_OVER_def argb_blend_def Let_def component_def)
  show "client_comp 0x2 src dst = 0" if "opaque src"
    using that by (simp add: client_comp_def GUAC_COMP_OVER_def GUAC_COMP_ROUT_def)
qed

section \<open>Sequences of operations\<close>

datatype surface_op =
    Draw_Op int int int cairo_image
  | Paint_Op int int cairo_image int int int
  | Set_Op int int int int int int int int
  | Scroll_Op int int int int int int
  | Move_Op int int
  | Stack_Op int
  | Parent_Op int
  | Opacity_Op int
  | Clip_Op int int int int
  | Reset_Clip_Op
  | Flush_Op

fun run_op :: "bool \<Rightarrow> surface_op \<Rightarrow> guac_common_surface \<Rightarrow> (surface_call list \<times> guac_common_surface) option" where
  "run_op webp (Draw_Op time x y img) s = guac_common_surface_draw webp time s x y img"
| "run_op webp (Paint_Op x y img r g b) s = guac_common_surface_paint webp s x y img r g b"
| "run_op webp (Set_Op x y w h r g b a) s = guac_common_surface_set webp s x y w h r g b a"
| "run_op webp (Scroll_Op sx sy w h dx dy) s =
     map_option (\<lambda>(msgs, _, s). (msgs, s)) (guac_common_surface_copy webp None sx sy w h s dx dy)"
| "run_op webp (Move_Op x y) s = Some ([], move_surface s x y)"
| "run_op webp (Stack_Op z) s = Some ([], stack_surface s z)"
| "run_op webp (Parent_Op p) s = Some ([], set_parent s p)"
| "run_op webp (Opacity_Op a) s = Some ([], set_opacity s a)"
| "run_op webp (Clip_Op x y w h) s = Some ([], clip_surface s x y w h)"
| "run_op webp Reset_Clip_Op s = Some ([], reset_clip s)"
| "run_op webp Flush_Op s = guac_common_surface_flush webp s"

fun run_ops :: "bool \<Rightarrow> surface_op list \<Rightarrow> guac_common_surface \<Rightarrow> (surface_call list \<times> guac_common_surface) option" where
  "run_ops webp [] s = Some ([], s)"
| "run_ops webp (op # ops) s =
     (case run_op webp op s of None \<Rightarrow> None
      | Some (m, s) \<Rightarrow> map_option (\<lambda>(ms, s). (m @ ms, s)) (run_ops webp ops s))"

text \<open>
  Images are as large as they say; on an opaque surface fills are opaque; on any other, nothing is scrolled.
\<close>

fun op_allowed :: "bool \<Rightarrow> surface_op \<Rightarrow> bool" where
  "op_allowed solid (Draw_Op time x y img) = image_ok img"
| "op_allowed solid (Paint_Op x y img r g b) = image_ok img"
| "op_allowed solid (Set_Op x y w h r g b a) = (solid \<longrightarrow> a = 0xFF)"
| "op_allowed solid (Scroll_Op sx sy w h dx dy) = solid"
| "op_allowed solid _ = True"

context compositing
begin

lemma run_op_synced:
  assumes "surface_ok s" and "mode_ok solid webp s" and "op_allowed solid op"
  shows "stays_synced solid webp blend s (run_op webp op s)"
proof (cases op)
  case (Clip_Op x y w h)
  let ?s = "if sf_clipped s then s else s\<lparr>sf_clip_rect := guac_common_rect_init 0 0 (sf_width s) (sf_height s), sf_clipped := True\<rparr>"
  let ?r = "guac_common_rect_constrain (sf_clip_rect ?s) (guac_common_rect_init x y w h)"
  have "within (sf_clip_rect ?s) (bounds s)"
    using assms(1) by (auto simp: surface_ok_def bounds_def within_def)
  then have "within ?r (bounds s)"
    using constrain_within(2) [of "sf_clip_rect ?s" "guac_common_rect_init x y w h"] by (auto simp: within_def)
  from clip_synced [OF assms(1,2), of True ?r] this
  have "stays_synced solid webp blend s (Some ([], s\<lparr>sf_clip_rect := ?r, sf_clipped := True\<rparr>))" by simp
  moreover have "clip_surface s x y w h = s\<lparr>sf_clip_rect := ?r, sf_clipped := True\<rparr>"
    by (simp add: clip_surface_def Let_def)
  ultimately show ?thesis using Clip_Op by simp
next
  case Reset_Clip_Op
  have "reset_clip s = s\<lparr>sf_clip_rect := sf_clip_rect s, sf_clipped := False\<rparr>" by (simp add: reset_clip_def)
  then show ?thesis using clip_synced [OF assms(1,2), of False "sf_clip_rect s"] Reset_Clip_Op by simp
next
  case (Draw_Op time x y img)
  then show ?thesis using draw_synced assms by simp
next
  case (Paint_Op x y img r g b)
  then show ?thesis using paint_synced assms by simp
next
  case (Set_Op x y w h r g b a)
  then show ?thesis using set_synced [OF assms(1)] assms(2,3) by simp
next
  case (Scroll_Op sx sy w h dx dy)
  then show ?thesis using scroll_synced [OF assms(1)] assms(2,3) by simp
next
  case Flush_Op
  then show ?thesis using flush_synced [OF assms(1,2)] by simp
qed (use property_synced [OF assms(1,2)] in
    \<open>simp_all add: keeps_def move_surface_def stack_surface_def set_parent_def set_opacity_def\<close>)

lemma run_ops_synced:
  assumes "surface_ok s" and "mode_ok solid webp s" and "\<forall>op \<in> set ops. op_allowed solid op"
  shows "stays_synced solid webp blend s (run_ops webp ops s)"
  using assms
proof (induction ops arbitrary: s)
  case Nil
  then show ?case using stays_synced_refl by simp
next
  case (Cons op ops)
  have "stays_synced solid webp blend s (run_op webp op s)" using run_op_synced Cons.prems by simp
  then obtain m s1 where s1: "run_op webp op s = Some (m, s1)" "surface_ok s1" "mode_ok solid webp s1" "frame s1 = frame s"
    "\<And>D. tracks D s \<Longrightarrow> tracks (apply_calls blend m D) s1" by (auto simp: stays_synced_def)
  from Cons.IH [OF s1(2,3)] Cons.prems(3) obtain ms s2 where
    s2: "run_ops webp ops s1 = Some (ms, s2)" "surface_ok s2" "mode_ok solid webp s2" "frame s2 = frame s1"
    "\<And>D. tracks D s1 \<Longrightarrow> tracks (apply_calls blend ms D) s2" by (auto simp: stays_synced_def)
  show ?case
    by (rule stays_syncedI [of _ "m @ ms" s2]) (use s1 s2 in simp_all)
qed

end

lemma run_ops_append:
  "run_ops webp xs s = Some (m, s1) \<Longrightarrow> run_ops webp ys s1 = Some (ms, s2) \<Longrightarrow>
     run_ops webp (xs @ ys) s = Some (m @ ms, s2)"
  by (induction xs arbitrary: s m) (auto split: option.splits)

section \<open>Allocation\<close>

lemma blank_heat: "0 \<le> w \<Longrightarrow> 0 \<le> h \<Longrightarrow> sf_width s = w \<Longrightarrow> sf_height s = h \<Longrightarrow> sf_heat_map s = blank_heat_map w h \<Longrightarrow> heat_ok s"
  by (auto simp: heat_ok_def blank_heat_map_def)

lemma blank_pix: "pix_at (blank_buffer w h) (4 * w) p = 0" if "p \<in> pixels (guac_common_rect_init 0 0 w h)"
proof -
  obtain x y where p: "p = (x, y)" by fastforce
  have "0 \<le> x" "x < w" "0 \<le> y" "y < h" using that by (simp_all add: p pixels_def guac_common_rect_init_def)
  moreover from this have "w * y + x < w * h" using flat_less [of x w y h] by simp
  moreover have "0 \<le> w * y + x" using calculation by simp
  ultimately show ?thesis
    unfolding p pix_at_def blank_buffer_def stride_for_width_def fst_conv snd_conv cell_at
    by (simp add: mult.assoc [symmetric] mult.commute [of h w] nat_less_iff)
qed

lemma alloc_ok:
  assumes "0 \<le> w" and "0 \<le> h" and s: "s = snd (guac_common_surface_alloc layer w h)"
  shows "surface_ok s" "pending s = {}" "sf_layer s = layer" "sf_clipped s = False" "sf_width s = w" "sf_height s = h"
    "\<forall>p \<in> pixels (bounds s). pix s p = 0"
proof -
  note d = s guac_common_surface_alloc_def Let_def
  have g: "geometry s"
    using assms by (simp add: geometry_def d blank_buffer_def stride_for_width_def mult.commute mult.assoc [symmetric])
  moreover have "heat_ok s" by (rule blank_heat [OF assms(1,2)]) (simp_all add: d)
  ultimately show "surface_ok s" by (simp add: surface_ok_def dirty_ok_def) (simp add: d)
  show "pending s = {}" by (simp add: pending_def dirty_region_def queue_region_def) (simp add: d)
  show "sf_layer s = layer" "sf_clipped s = False" "sf_width s = w" "sf_height s = h" by (simp_all add: d)
  have "sf_buffer s = blank_buffer w h" "sf_stride s = 4 * w" "bounds s = guac_common_rect_init 0 0 w h"
    by (simp_all add: d stride_for_width_def bounds_def)
  then show "\<forall>p \<in> pixels (bounds s). pix s p = 0" using blank_pix by (simp add: pix_def)
qed

section \<open>What the client shows\<close>



section \<open>Changing the size\<close>

lemma constrain_bounds_ok:
  assumes "s' = (if sf_dirty s then s\<lparr>sf_dirty_rect := d, sf_dirty := \<not> (rc_width d \<le> 0 \<or> rc_height d \<le> 0)\<rparr> else s)"
    and "within d (bounds s)"
  shows "dirty_ok s'" "keeps s s'" "sf_bitmap_queue s' = sf_bitmap_queue s" "sf_realized s' = sf_realized s"
  using assms by (auto simp: dirty_ok_def bounds_def keeps_def)

lemma resize_put:
  assumes "geometry s" and "geometry s1" and "0 < sf_width s" "0 < sf_height s" "0 < sf_width s1" "0 < sf_height s1"
    and "\<forall>p \<in> pixels (bounds s1). pix s1 p = 0"
  obtains s2 r where
    "surface_put (sf_buffer s) (sf_stride s) 0 0 s1 (guac_common_rect_constrain (bounds s) (bounds s1)) True = Some (s2, r)"
    "redraws s1 s2 (bounds s1)"
    "\<forall>p \<in> pixels (bounds s1). pix s2 p = (if p \<in> pixels (bounds s) then pix s p OR 0xFF000000 else 0)"
proof -
  define rect where "rect = guac_common_rect_constrain (bounds s) (bounds s1)"
  have rect: "rc_x rect = 0" "rc_y rect = 0" "0 < rc_width rect" "0 < rc_height rect"
    "guac_common_rect_init 0 0 (rc_width rect) (rc_height rect) = rect"
    using assms(3-6) by (auto simp: rect_def bounds_def guac_common_rect_constrain_def guac_common_rect_init_def Let_def)
  have w: "within rect (bounds s1)" "within rect (bounds s)" by (simp_all add: rect_def constrain_within)
  have ro: "pixels rect = pixels (bounds s) \<inter> pixels (bounds s1)" unfolding rect_def by (rule constrain_pixels)
  have "readable (sf_buffer s) (sf_stride s) (guac_common_rect_init 0 0 (rc_width rect) (rc_height rect))"
    unfolding rect(5) by (rule readable_within [OF readable_surface [OF assms(1)] pixels_within [OF w(2)]])
  from assms(2) w(1) rect(3,4) this obtain s2 r where
    s2: "surface_put (sf_buffer s) (sf_stride s) 0 0 s1 rect True = Some (s2, r, 0 + (rc_x r - rc_x rect), 0 + (rc_y r - rc_y rect))"
      "redraws s1 s2 r" "inner r rect"
      "\<forall>p \<in> pixels rect. pix s2 p = (let c = pix_at (sf_buffer s) (sf_stride s)
         (0 + (fst p - rc_x rect), 0 + (snd p - rc_y rect)) in if True then c OR 0xFF000000 else argb_blend (pix s1 p) c)"
    by (rule surface_put_ok)
  have px: "pix s2 p = (if p \<in> pixels (bounds s) then pix s p OR 0xFF000000 else 0)" if p: "p \<in> pixels (bounds s1)" for p
  proof (cases "p \<in> pixels rect")
    case True
    then show ?thesis using s2(4) ro rect by (simp add: pix_def del: pixels_bounds)
  next
    case False
    then have "p \<in> pixels (bounds s1) - pixels r" using s2(3) pixels_within [of r rect] p by (auto simp: inner_def simp del: pixels_bounds)
    then have "pix s2 p = pix s1 p" using s2(2) by (simp add: redraws_def)
    then show ?thesis using assms(7) p False ro by (simp del: pixels_bounds)
  qed
  have "redraws s1 s2 (bounds s1)" using s2(2) by (simp add: redraws_def)
  with that s2(1) px show ?thesis unfolding rect_def by blast
qed

lemma resize_ok:
  assumes "surface_ok s" and "0 < sf_width s" "0 < sf_height s" "0 < w" "0 < h"
    and "w \<noteq> sf_width s \<or> h \<noteq> sf_height s"
  obtains s' where "guac_common_surface_resize s w h =
        Some (if sf_realized s then [Layer_Call (Send_size (sf_layer s) w h)] else [], s')"
    "surface_ok s'" "sf_layer s' = sf_layer s" "sf_width s' = w" "sf_height s' = h"
    "\<forall>p \<in> pixels (bounds s'). pix s' p = (if p \<in> pixels (bounds s) then pix s p OR 0xFF000000 else 0)"
proof -
  define s0 where "s0 = s\<lparr>sf_width := w, sf_height := h, sf_stride := stride_for_width w, sf_buffer := blank_buffer w h\<rparr>"
  define s1 where "s1 = s0\<lparr>sf_clip_rect := fst (bound_rect s0 (sf_clip_rect s0))\<rparr>"
  have f: "sf_width s1 = w" "sf_height s1 = h" "sf_stride s1 = 4 * w" "sf_buffer s1 = blank_buffer w h" "sf_layer s1 = sf_layer s"
    "bounds s1 = guac_common_rect_init 0 0 w h" "sf_realized s1 = sf_realized s" "sf_bitmap_queue s1 = sf_bitmap_queue s"
    "sf_clip_rect s1 = guac_common_rect_constrain (sf_clip_rect s) (guac_common_rect_init 0 0 w h)"
    by (simp_all add: s1_def s0_def stride_for_width_def bounds_def bound_rect_fst)
  have g1: "geometry s1" using assms(4,5) f by (simp add: geometry_def blank_buffer_def stride_for_width_def mult.commute mult.assoc [symmetric])
  have gs: "geometry s" using assms(1) by (simp add: surface_ok_def)
  have "\<forall>p \<in> pixels (bounds s1). pix s1 p = 0" using blank_pix [of _ w h] f by (simp add: pix_def)
  from gs g1 assms(2,3) _ _ this obtain s2 r where
    s2: "surface_put (sf_buffer s) (sf_stride s) 0 0 s1 (guac_common_rect_constrain (bounds s) (bounds s1)) True = Some (s2, r)"
      "redraws s1 s2 (bounds s1)"
      "\<forall>p \<in> pixels (bounds s1). pix s2 p = (if p \<in> pixels (bounds s) then pix s p OR 0xFF000000 else 0)"
    by (rule resize_put) (simp_all add: f assms(4,5))
  have b2: "bounds s2 = bounds s1" "geometry s2" "sf_width s2 = w" "sf_height s2 = h"
    using redraws_fields [OF s2(2)] g1 f by simp_all
  have same: "sf_realized s2 = sf_realized s" "sf_bitmap_queue s2 = sf_bitmap_queue s" "sf_layer s2 = sf_layer s"
    "sf_clip_rect s2 = guac_common_rect_constrain (sf_clip_rect s) (bounds s1)"
  proof -
    obtain m where "s2 = s1\<lparr>sf_buffer := m\<rparr>" using s2(2) by (auto simp: redraws_def)
    then show "sf_realized s2 = sf_realized s" "sf_bitmap_queue s2 = sf_bitmap_queue s" "sf_layer s2 = sf_layer s"
      "sf_clip_rect s2 = guac_common_rect_constrain (sf_clip_rect s) (bounds s1)" using f by simp_all
  qed
  define s3 where "s3 = s2\<lparr>sf_heat_map := blank_heat_map w h\<rparr>"
  define d where "d = fst (bound_rect s3 (sf_dirty_rect s3))"
  define s4 where "s4 = (if sf_dirty s3 then s3\<lparr>sf_dirty_rect := d, sf_dirty := \<not> (rc_width d \<le> 0 \<or> rc_height d \<le> 0)\<rparr> else s3)"
  have b3: "bounds s3 = bounds s1" "geometry s3" "heat_ok s3"
    using b2 assms(4,5) blank_heat [of w h s3] by (simp_all add: s3_def bounds_def geometry_def)
  have "within d (bounds s3)" by (simp add: d_def bound_rect_fst constrain_within)
  note d4 = constrain_bounds_ok [OF s4_def this]
  have "within (sf_clip_rect s4) (bounds s4)"
    using keeps_fields(1,7) [OF d4(2)] b3(1) same(4) constrain_within(1) by (simp add: s3_def)
  then have ok: "surface_ok s4"
    using d4(1,3) keeps_fields(2,3) [OF d4(2)] b3 same(2) assms(1) by (simp add: surface_ok_def s3_def)
  have put: "surface_put (sf_buffer s) (sf_stride s) 0 0 s1
      (fst (bound_rect s1 (guac_common_rect_init 0 0 (sf_width s) (sf_height s)))) True = Some (s2, r)"
    using s2(1) by (simp add: bound_rect_fst bounds_def)
  obtain r' x y where r: "r = (r', x, y)" by (metis prod_cases3)
  have "guac_common_surface_resize s w h = Some (if sf_realized s4 then [Layer_Call (Send_size (sf_layer s4) w h)] else [], s4)"
    using assms(6)
    unfolding guac_common_surface_resize_def Let_def s0_def [symmetric] s1_def [symmetric] put [unfolded r] option.case prod.case
      s3_def [symmetric] d_def [symmetric] s4_def [symmetric]
    by auto
  moreover have "sf_realized s4 = sf_realized s" "sf_layer s4 = sf_layer s" "bounds s4 = bounds s1"
    "sf_width s4 = w" "sf_height s4 = h" "\<And>p. pix s4 p = pix s2 p"
    using d4(4) keeps_fields(1,4,5,13,14) [OF d4(2)] same b2 b3(1) by (simp_all add: s3_def pix_def)
  ultimately show ?thesis using that [of s4] ok s2(3) by (simp del: pixels_bounds)
qed

text \<open>
  C18. Changing the size succeeds and keeps the surface well formed; the new area is transparent, and what
  was there keeps its colour but is made opaque. The client, which keeps its own pixels, agrees with the buffer at
  exactly those that were opaque before.
\<close>

theorem resized_surface:
  assumes "surface_ok s" and "0 < sf_width s" "0 < sf_height s" "0 < w" "0 < h"
    and "w \<noteq> sf_width s \<or> h \<noteq> sf_height s" and "tracks D s"
  shows "\<exists>msgs s'. guac_common_surface_resize s w h = Some (msgs, s') \<and> surface_ok s' \<and> sf_width s' = w \<and> sf_height s' = h
     \<and> (\<forall>p \<in> pixels (bounds s'). pix s' p = (if p \<in> pixels (bounds s) then pix s p OR 0xFF000000 else 0))
     \<and> (\<forall>p \<in> pixels (bounds s') \<inter> pixels (bounds s) - pending s.
          rd_pic (apply_calls blend msgs D) (sf_layer s) p = pix s' p \<longleftrightarrow> opaque (pix s p))"
proof -
  let ?msgs = "if sf_realized s then [Layer_Call (Send_size (sf_layer s) w h)] else []"
  obtain s' where s': "guac_common_surface_resize s w h = Some (?msgs, s')" "surface_ok s'" "sf_width s' = w" "sf_height s' = h"
    "\<forall>p \<in> pixels (bounds s'). pix s' p = (if p \<in> pixels (bounds s) then pix s p OR 0xFF000000 else 0)"
    by (rule resize_ok [OF assms(1-6)])
  have b: "pixels (bounds s') = pixels (guac_common_rect_init 0 0 w h)" using s'(3,4) by (simp add: bounds_def)
  have kept: "rd_pic (apply_calls blend ?msgs D) (sf_layer s) p = pix s p"
    if "p \<in> pixels (bounds s') \<inter> pixels (bounds s) - pending s" for p
    using that assms(7) unfolding b by (auto simp: tracks_def in_sync_def simp del: pixels_bounds)
  have "c = c OR 0xFF000000 \<longleftrightarrow> opaque c" for c :: u32
  proof -
    have gen: "c = c OR m \<longleftrightarrow> c AND m = m" for m :: u32
      by (auto simp: bit_eq_iff bit_or_iff bit_and_iff)
    show ?thesis unfolding opaque_def by (rule gen)
  qed
  then have "rd_pic (apply_calls blend ?msgs D) (sf_layer s) p = pix s' p \<longleftrightarrow> opaque (pix s p)"
    if "p \<in> pixels (bounds s') \<inter> pixels (bounds s) - pending s" for p
    using kept [OF that] s'(5) that by (simp del: pixels_bounds)
  with s' show ?thesis by blast
qed

section \<open>The theorems at work\<close>

definition sample_image :: cairo_image where
  "sample_image = \<lparr>ci_data = [0x80102030, 0xFF00FF00], ci_format = CAIRO_FORMAT_ARGB32, ci_stride = 8, ci_width = 2, ci_height = 1\<rparr>"

definition sample_surface :: guac_common_surface where
  "sample_surface = snd (guac_common_surface_alloc 3 2 2)"

definition empty_remote :: remote where
  "empty_remote = \<lparr>rd_pic = \<lambda>layer p. 0, rd_path = \<lambda>layer. {}\<rparr>"

lemma sample_image_ok: "image_ok sample_image"
proof -
  have "pixels (guac_common_rect_init 0 0 2 1) = {(0, 0), (1, 0)}" by (auto simp: pixels_def guac_common_rect_init_def)
  then show ?thesis
    by (simp add: image_ok_def readable_def sample_image_def pixel_load_def pix_at_def cell_def)
qed

lemma sample_ok: "surface_ok sample_surface" "tracks empty_remote sample_surface" "mode_ok False False sample_surface"
proof -
  note a = alloc_ok [of 2 2, OF _ _ sample_surface_def, simplified]
  show "surface_ok sample_surface" by (rule a(1))
  show "tracks empty_remote sample_surface"
    using a(2,7) by (simp add: tracks_def in_sync_def empty_remote_def)
  show "mode_ok False False sample_surface"
    using a(5,6) by (simp add: mode_ok_def GUAC_SURFACE_JPEG_MIN_BITMAP_SIZE_def)
qed



theorem resized_surface_witness:
  "\<exists>msgs s'. guac_common_surface_resize sample_surface 3 1 = Some (msgs, s') \<and> pix s' (0, 0) = 0xFF000000 \<and> pix s' (2, 0) = 0
     \<and> rd_pic (apply_calls client_comp msgs empty_remote) (sf_layer sample_surface) (0, 0) \<noteq> pix s' (0, 0)"
proof -
  note a = alloc_ok [of 2 2, OF _ _ sample_surface_def, simplified]
  from resized_surface [of sample_surface 3 1 empty_remote client_comp] sample_ok(1,2) a(5,6) obtain msgs s' where
    s': "guac_common_surface_resize sample_surface 3 1 = Some (msgs, s')" "sf_width s' = 3" "sf_height s' = 1"
      "\<forall>p \<in> pixels (bounds s'). pix s' p = (if p \<in> pixels (bounds sample_surface) then pix sample_surface p OR 0xFF000000 else 0)"
      "\<forall>p \<in> pixels (bounds s') \<inter> pixels (bounds sample_surface) - pending sample_surface.
          rd_pic (apply_calls client_comp msgs empty_remote) (sf_layer sample_surface) p = pix s' p \<longleftrightarrow> opaque (pix sample_surface p)"
    by auto
  have p: "(0, 0) \<in> pixels (bounds s')" "(2, 0) \<in> pixels (bounds s')" "(0, 0) \<in> pixels (bounds sample_surface)"
    "(2, 0) \<notin> pixels (bounds sample_surface)" using s'(2,3) a(5,6) by simp_all
  have z: "pix sample_surface (0, 0) = 0" using a(5-7) by simp
  have "pix s' (0, 0) = 0xFF000000" "pix s' (2, 0) = 0" using s'(4) p z by (simp_all del: pixels_bounds)
  moreover have "rd_pic (apply_calls client_comp msgs empty_remote) (sf_layer sample_surface) (0, 0) \<noteq> pix s' (0, 0)"
    using s'(5) p a(2) z by (simp add: opaque_def del: pixels_bounds)
  ultimately show ?thesis using s'(1) by blast
qed

end
