(* ===== verification/Winpr_Stream.thy ===== *)
theory Winpr_Stream
  imports Guac_Prelude
begin

text \<open>
  The stream macros of \<open>winpr/stream.h\<close> that the channel code uses. A stream that is read is the bytes from its
  pointer on; nothing checks its length, so a read past its end is \<open>None\<close>. What is written is the bytes appended.
\<close>

definition read_u8 :: "u8 list \<Rightarrow> (u8 \<times> u8 list) option" where
  "read_u8 s = (case s of b # rest \<Rightarrow> Some (b, rest) | _ \<Rightarrow> None)"

definition read_u16 :: "u8 list \<Rightarrow> (u16 \<times> u8 list) option" where
  "read_u16 s = (case s of b0 # b1 # rest \<Rightarrow> Some (ucast b0 + push_bit 8 (ucast b1), rest) | _ \<Rightarrow> None)"

definition read_u32 :: "u8 list \<Rightarrow> (u32 \<times> u8 list) option" where
  "read_u32 s = (case s of b0 # b1 # b2 # b3 # rest \<Rightarrow>
       Some (ucast b0 + push_bit 8 (ucast b1) + push_bit 16 (ucast b2) + push_bit 24 (ucast b3), rest) | _ \<Rightarrow> None)"

text \<open>The eight bytes of a 64 bit value are its two halves, the lower first.\<close>

definition read_u64 :: "u8 list \<Rightarrow> (u64 \<times> u8 list) option" where
  "read_u64 s = (case read_u32 s of None \<Rightarrow> None
     | Some (low, s) \<Rightarrow> (case read_u32 s of None \<Rightarrow> None
       | Some (high, s) \<Rightarrow> Some (ucast low + push_bit 32 (ucast high), s)))"

definition seek :: "nat \<Rightarrow> u8 list \<Rightarrow> u8 list option" where
  "seek n s = (if n \<le> length s then Some (drop n s) else None)"

definition write_u16 :: "u16 \<Rightarrow> u8 list" where
  "write_u16 v = [ucast (v AND 0xFF), ucast (drop_bit 8 v AND 0xFF)]"

definition write_u32 :: "u32 \<Rightarrow> u8 list" where
  "write_u32 v = [ucast (v AND 0xFF), ucast (drop_bit 8 v AND 0xFF), ucast (drop_bit 16 v AND 0xFF), ucast (drop_bit 24 v AND 0xFF)]"

definition write_u64 :: "u64 \<Rightarrow> u8 list" where
  "write_u64 v = write_u32 (ucast v) @ write_u32 (ucast (drop_bit 32 v))"

lemma mask_byte: "(0xFF :: 'a::len word) = mask 8"
  by (simp add: mask_eq_exp_minus_1)

lemma join_u16: "ucast (ucast (v AND 0xFF) :: u8) + push_bit 8 (ucast (ucast (drop_bit 8 v AND 0xFF) :: u8)) = (v :: u16)"
proof -
  have "ucast (ucast (v AND 0xFF) :: u8) + push_bit 8 (ucast (ucast (drop_bit 8 v AND 0xFF) :: u8))
      = (ucast (ucast (v AND 0xFF) :: u8) OR push_bit 8 (ucast (ucast (drop_bit 8 v AND 0xFF) :: u8)) :: u16)"
    by (rule disjunctive_add) (auto simp: bit_unsigned_iff bit_push_bit_iff bit_and_iff mask_byte bit_mask_iff)
  also have "\<dots> = v"
    by (rule bit_eqI) (auto simp: bit_unsigned_iff bit_push_bit_iff bit_and_iff bit_or_iff mask_byte bit_mask_iff bit_drop_bit_eq)
  finally show ?thesis .
qed

lemma read_write_u16 [simp]: "read_u16 (write_u16 v @ rest) = Some (v, rest)"
  by (simp add: read_u16_def write_u16_def join_u16)

lemma join_u32:
  "ucast (ucast (v AND 0xFF) :: u8) + push_bit 8 (ucast (ucast (drop_bit 8 v AND 0xFF) :: u8))
     + push_bit 16 (ucast (ucast (drop_bit 16 v AND 0xFF) :: u8)) + push_bit 24 (ucast (ucast (drop_bit 24 v AND 0xFF) :: u8)) = (v :: u32)"
  (is "?a + ?b + ?c + ?d = v")
proof -
  note bits = bit_unsigned_iff bit_push_bit_iff bit_and_iff bit_or_iff mask_byte bit_mask_iff bit_drop_bit_eq
  have "?a + ?b = ?a OR ?b" by (rule disjunctive_add) (auto simp: bits)
  moreover have "(?a OR ?b) + ?c = (?a OR ?b) OR ?c" by (rule disjunctive_add) (auto simp: bits)
  moreover have "((?a OR ?b) OR ?c) + ?d = ((?a OR ?b) OR ?c) OR ?d" by (rule disjunctive_add) (auto simp: bits)
  moreover have "((?a OR ?b) OR ?c) OR ?d = v" 
  proof (rule bit_eqI)
    fix n assume n: "possible_bit TYPE(u32) n"
    then consider "n < 8" | "8 \<le> n" "n < 16" | "16 \<le> n" "n < 24" | "24 \<le> n" "n < 32" by fastforce
    then show "bit (((?a OR ?b) OR ?c) OR ?d) n = bit v n" by cases (auto simp: bits)
  qed
  ultimately show ?thesis by simp
qed

lemma read_write_u32 [simp]: "read_u32 (write_u32 v @ rest) = Some (v, rest)"
  by (simp add: read_u32_def write_u32_def join_u32)

lemma join_u64: "ucast (ucast v :: u32) + push_bit 32 (ucast (ucast (drop_bit 32 v) :: u32)) = (v :: u64)"
proof -
  have "ucast (ucast v :: u32) + push_bit 32 (ucast (ucast (drop_bit 32 v) :: u32))
      = (ucast (ucast v :: u32) OR push_bit 32 (ucast (ucast (drop_bit 32 v) :: u32)) :: u64)"
    by (rule disjunctive_add) (auto simp: bit_unsigned_iff bit_push_bit_iff)
  also have "\<dots> = v"
    by (rule bit_eqI) (auto simp: bit_unsigned_iff bit_push_bit_iff bit_or_iff bit_drop_bit_eq)
  finally show ?thesis .
qed

lemma read_write_u64 [simp]: "read_u64 (write_u64 v @ rest) = Some (v, rest)"
  by (simp add: read_u64_def write_u64_def join_u64)

lemma write_length [simp]: "length (write_u16 v) = 2" "length (write_u32 w) = 4" "length (write_u64 x) = 8"
  by (simp_all add: write_u16_def write_u32_def write_u64_def)

lemma seek_append [simp]: "seek (length xs) (xs @ rest) = Some rest"
  by (simp add: seek_def)

lemma read_u8_Cons [simp]: "read_u8 (b # rest) = Some (b, rest)"
  by (simp add: read_u8_def)

end
