(* ===== verification/Audio_Input.thy ===== *)
theory Audio_Input
  imports User_Handlers "HOL-Library.Signed_Division"
begin

text \<open>
  \<open>protocols/rdp/src/audio_input.c\<close>: the audio a user sends, resampled into packets for the RDP server.

  An RDP audio buffer is a record with the fields of the C structure; the packet is the memory \<open>malloc\<close> gave,
  the user is the number of a connection, the stream its index. What is sent to the user and what is flushed to
  the channel is recorded in order. \<open>scale i o f\<close> is \<open>(int) (f * ((double) i / o))\<close>, a parameter: of the arithmetic of
  \<open>double\<close> only the laws of the locale \<open>rate_scale\<close> are used. \<open>int\<close> does not overflow: the counters hold less than
  \<open>2 ^ 31\<close> bytes.
\<close>

section \<open>The mimetype\<close>

definition strchr :: "char list \<Rightarrow> char \<Rightarrow> char list option" where
  "strchr s c = (let r = dropWhile (\<lambda>x. x \<noteq> c) s in if r = [] then None else Some r)"

lemma strchr_length: "strchr s c = Some r \<Longrightarrow> length r \<le> length s \<and> r \<noteq> []"
  by (auto simp: strchr_def Let_def length_dropWhile_le split: if_splits)

lemma strtol_length: "strtol bits s = (v, r, e) \<Longrightarrow> length r \<le> length s"
proof -
  assume e: "strtol bits s = (v, r, e)"
  define t where "t = dropWhile is_space s"
  define u where "u = (if take 1 t = ''-'' \<or> take 1 t = ''+'' then drop 1 t else t)"
  have "length t \<le> length s" "length u \<le> length t" "length (dropWhile is_digit u) \<le> length u"
    by (simp_all add: t_def u_def length_dropWhile_le)
  moreover have "r = s \<or> r = dropWhile is_digit u"
    using e unfolding strtol_def Let_def t_def [symmetric] u_def [symmetric] by (simp split: if_splits)
  ultimately show ?thesis by auto
qed

text \<open>
  One parameter: the rate, the channels, the rest of the string and whether the value is refused. \<open>stale\<close> tells that
  \<open>errno\<close> was \<open>EINVAL\<close> or \<open>ERANGE\<close> before: nothing resets it.
\<close>

definition mimetype_param :: "nat \<Rightarrow> bool \<Rightarrow> char list \<Rightarrow> int \<Rightarrow> int \<Rightarrow> int \<times> int \<times> char list \<times> bool" where
  "mimetype_param long_bits stale s rate channels =
     (if take 9 s = ''channels='' then
        (case strtol long_bits (drop 9 s) of (v, r, erange) \<Rightarrow> (rate, wrap32 v, r, stale \<or> erange))
      else if take 5 s = ''rate='' then
        (case strtol long_bits (drop 5 s) of (v, r, erange) \<Rightarrow> (wrap32 v, channels, r, stale \<or> erange))
      else (rate, channels, s, False))"

lemma mimetype_param_length: "mimetype_param long_bits stale s rate channels = (rate', channels', r, failed) \<Longrightarrow> length r \<le> length s"
  using strtol_length [of long_bits "drop 9 s"] strtol_length [of long_bits "drop 5 s"]
  by (cases "strtol long_bits (drop 9 s)"; cases "strtol long_bits (drop 5 s)") (auto simp: mimetype_param_def split: if_splits)

text \<open>The loop over the parameters, from the separator before one of them.\<close>

function mimetype_params :: "nat \<Rightarrow> bool \<Rightarrow> char list \<Rightarrow> int \<Rightarrow> int \<Rightarrow> (int \<times> int) option" where
  "mimetype_params long_bits stale s rate channels =
     (case mimetype_param long_bits stale (drop 1 s) rate channels of (rate, channels, rest, failed) \<Rightarrow>
      if failed then None
      else case strchr rest CHR '','' of None \<Rightarrow> Some (rate, channels)
      | Some r \<Rightarrow> mimetype_params long_bits stale r rate channels)"
  by pat_completeness auto
termination
proof (relation "measure (\<lambda>(long_bits, stale, s, rate, channels). length s)", simp)
  fix long_bits stale s rate channels x y xa ya xb yb x2
  assume "(x, y) = mimetype_param long_bits stale (drop 1 s) rate channels" "(xa, ya) = y" "(xb, yb) = ya"
    and r: "strchr xb CHR '','' = Some x2"
  then have "length xb \<le> length (drop 1 s)"
    by (intro mimetype_param_length [of long_bits stale _ rate channels x xa xb yb]) simp
  then show "((long_bits, stale, x2, x, xa), long_bits, stale, s, rate, channels)
      \<in> measure (\<lambda>(long_bits, stale, s, rate, channels). length s)"
    using strchr_length [OF r] by (cases x2) auto
qed

declare mimetype_params.simps [simp del]

definition guac_rdp_audio_parse_mimetype :: "nat \<Rightarrow> bool \<Rightarrow> char list \<Rightarrow> (int \<times> int \<times> int) option" where
  "guac_rdp_audio_parse_mimetype long_bits stale mimetype =
     (case (if take 9 mimetype = ''audio/L8;'' then Some (drop 8 mimetype, 1)
            else if take 10 mimetype = ''audio/L16;'' then Some (drop 9 mimetype, 2) else None) of
        None \<Rightarrow> None
      | Some (params, bps) \<Rightarrow>
          (case mimetype_params long_bits stale params (-1) 1 of None \<Rightarrow> None
           | Some (rate, channels) \<Rightarrow> if rate = -1 then None else Some (rate, channels, bps)))"

section \<open>The buffer\<close>

record guac_rdp_audio_format =
  af_rate :: int
  af_channels :: int
  af_bps :: int

record guac_rdp_audio_buffer =
  ab_user :: "nat option"
  ab_stream :: "int option"
  ab_in_format :: guac_rdp_audio_format
  ab_out_format :: guac_rdp_audio_format
  ab_packet_size :: int
  ab_bytes_written :: int
  ab_total_bytes_received :: int
  ab_total_bytes_sent :: int
  ab_packet :: "u8 list option"
  ab_flush_handler :: bool

datatype audio_call = Ack_Call nat stream_message | Flush_Call "u8 list"

text \<open>What stops the process: \<open>assert\<close>, a division by zero, a store past the packet.\<close>

datatype audio_fault = Assertion_Failed | Division_By_Zero | Outside_Packet

definition GUAC_PROTOCOL_STATUS_RESOURCE_CLOSED :: int where "GUAC_PROTOCOL_STATUS_RESOURCE_CLOSED = 0x206"
definition GUAC_PROTOCOL_STATUS_CLIENT_BAD_TYPE :: int where "GUAC_PROTOCOL_STATUS_CLIENT_BAD_TYPE = 0x30F"

definition guac_rdp_audio_buffer_alloc :: guac_rdp_audio_buffer where
  "guac_rdp_audio_buffer_alloc =
     \<lparr>ab_user = None, ab_stream = None, ab_in_format = \<lparr>af_rate = 0, af_channels = 0, af_bps = 0\<rparr>,
      ab_out_format = \<lparr>af_rate = 0, af_channels = 0, af_bps = 0\<rparr>, ab_packet_size = 0, ab_bytes_written = 0,
      ab_total_bytes_received = 0, ab_total_bytes_sent = 0, ab_packet = None, ab_flush_handler = False\<rparr>"

definition audio_buffer_ack :: "guac_rdp_audio_buffer \<Rightarrow> char list \<Rightarrow> int \<Rightarrow> audio_call list" where
  "audio_buffer_ack b msg status =
     (case (ab_user b, ab_stream b, ab_packet b) of
        (Some user, Some stream, Some packet) \<Rightarrow> [Ack_Call user (Send_ack stream msg status)]
      | _ \<Rightarrow> [])"

definition guac_rdp_audio_buffer_set_stream ::
  "guac_rdp_audio_buffer \<Rightarrow> nat \<Rightarrow> int \<Rightarrow> int \<Rightarrow> int \<Rightarrow> int \<Rightarrow> audio_call list \<times> guac_rdp_audio_buffer" where
  "guac_rdp_audio_buffer_set_stream b user stream rate channels bps =
     (let b = b\<lparr>ab_user := Some user, ab_stream := Some stream,
                ab_in_format := \<lparr>af_rate = rate, af_channels = channels, af_bps = bps\<rparr>\<rparr> in
      (audio_buffer_ack b ''OK'' 0, b))"

definition guac_rdp_audio_buffer_set_output ::
  "guac_rdp_audio_buffer \<Rightarrow> int \<Rightarrow> int \<Rightarrow> int \<Rightarrow> guac_rdp_audio_buffer" where
  "guac_rdp_audio_buffer_set_output b rate channels bps =
     b\<lparr>ab_out_format := \<lparr>af_rate = rate, af_channels = channels, af_bps = bps\<rparr>\<rparr>"

text \<open>\<open>fresh\<close> is what \<open>malloc\<close> returns for the size of the packet; \<open>handler\<close>, whether a flush handler is given.\<close>

definition guac_rdp_audio_buffer_begin ::
  "(int \<Rightarrow> u8 list option) \<Rightarrow> guac_rdp_audio_buffer \<Rightarrow> int \<Rightarrow> bool \<Rightarrow> audio_call list \<times> guac_rdp_audio_buffer" where
  "guac_rdp_audio_buffer_begin fresh b packet_frames handler =
     (let size = packet_frames * af_channels (ab_out_format b) * af_bps (ab_out_format b);
          b = b\<lparr>ab_bytes_written := 0, ab_flush_handler := handler, ab_packet_size := size, ab_packet := fresh size\<rparr> in
      (audio_buffer_ack b ''OK'' 0, b))"

definition load16 :: "u8 list \<Rightarrow> nat \<Rightarrow> u16" where
  "load16 data i = ucast (data ! i) OR push_bit 8 (ucast (data ! Suc i))"

text \<open>A sample; \<open>Inr None\<close> when the data has none left.\<close>

definition read_sample ::
  "(int \<Rightarrow> int \<Rightarrow> int \<Rightarrow> int) \<Rightarrow> guac_rdp_audio_buffer \<Rightarrow> u8 list \<Rightarrow> audio_fault + u16 option" where
  "read_sample scale b data =
     (let in_bps = af_bps (ab_in_format b); in_rate = af_rate (ab_in_format b); in_channels = af_channels (ab_in_format b);
          out_bps = af_bps (ab_out_format b); out_rate = af_rate (ab_out_format b);
          out_channels = af_channels (ab_out_format b) in
      if out_bps = 0 \<or> out_channels = 0 then Inl Division_By_Zero
      else
        let current_sample = ab_total_bytes_sent b sdiv out_bps;
            current_frame = current_sample sdiv out_channels;
            current_channel = current_sample smod out_channels;
            current_channel = (if current_channel \<ge> in_channels then in_channels - 1 else current_channel);
            current_frame = scale in_rate out_rate current_frame;
            current_sample = current_frame * in_channels + current_channel;
            offset = current_sample * in_bps - ab_total_bytes_received b in
        if offset < 0 then Inl Assertion_Failed
        else if int (length data) - offset < in_bps then Inr None
        else if in_bps = 2 then Inr (Some (load16 data (nat offset)))
        else if in_bps = 1 then Inr (Some (push_bit 8 (ucast (data ! nat offset))))
        else Inr None)"

definition store_sample :: "int \<Rightarrow> u16 \<Rightarrow> u8 list option" where
  "store_sample out_bps sample =
     (if out_bps = 2 then Some [ucast sample, ucast (drop_bit 8 sample)]
      else if out_bps = 1 then Some [ucast (drop_bit 8 sample)] else None)"

text \<open>The body of the loop: one sample into the packet, and the packet to the handler when it is full.\<close>

definition write_sample ::
  "u8 list \<Rightarrow> u16 \<Rightarrow> guac_rdp_audio_buffer \<Rightarrow> audio_fault + audio_call list \<times> guac_rdp_audio_buffer" where
  "write_sample packet sample b =
     (let out_bps = af_bps (ab_out_format b); n = nat (ab_bytes_written b) in
      case store_sample out_bps sample of None \<Rightarrow> Inl Assertion_Failed
      | Some bytes \<Rightarrow>
          if length packet < n + length bytes then Inl Outside_Packet
          else
            let packet = take n packet @ bytes @ drop (n + length bytes) packet;
                b = b\<lparr>ab_packet := Some packet, ab_bytes_written := ab_bytes_written b + out_bps,
                      ab_total_bytes_sent := ab_total_bytes_sent b + out_bps\<rparr> in
            Inr (if ab_bytes_written b = ab_packet_size b
                 then (if ab_flush_handler b then [Flush_Call (take (nat (ab_bytes_written b)) packet)] else [],
                       b\<lparr>ab_bytes_written := 0\<rparr>)
                 else ([], b)))"

partial_function (option) write_loop ::
  "(int \<Rightarrow> int \<Rightarrow> int \<Rightarrow> int) \<Rightarrow> u8 list \<Rightarrow> u8 list \<Rightarrow> audio_call list \<Rightarrow> guac_rdp_audio_buffer \<Rightarrow>
   (audio_fault + audio_call list \<times> guac_rdp_audio_buffer) option" where
  "write_loop scale data packet emitted b =
     (case read_sample scale b data of Inl bad \<Rightarrow> Some (Inl bad)
      | Inr None \<Rightarrow> Some (Inr (emitted, b))
      | Inr (Some sample) \<Rightarrow>
          (case write_sample packet sample b of Inl bad \<Rightarrow> Some (Inl bad)
           | Inr (msgs, b) \<Rightarrow> write_loop scale data (the (ab_packet b)) (emitted @ msgs) b))"

definition guac_rdp_audio_buffer_write ::
  "(int \<Rightarrow> int \<Rightarrow> int \<Rightarrow> int) \<Rightarrow> guac_rdp_audio_buffer \<Rightarrow> u8 list \<Rightarrow>
   (audio_fault + audio_call list \<times> guac_rdp_audio_buffer) option" where
  "guac_rdp_audio_buffer_write scale b data =
     (case ab_packet b of None \<Rightarrow> Some (Inr ([], b))
      | Some packet \<Rightarrow>
          if ab_packet_size b = 0 then Some (Inr ([], b))
          else map_option (map_sum id (\<lambda>(msgs, b).
                  (msgs, b\<lparr>ab_total_bytes_received := ab_total_bytes_received b + int (length data)\<rparr>)))
                (write_loop scale data packet [] b))"

definition guac_rdp_audio_buffer_end :: "guac_rdp_audio_buffer \<Rightarrow> audio_call list \<times> guac_rdp_audio_buffer" where
  "guac_rdp_audio_buffer_end b =
     (audio_buffer_ack b ''CLOSED'' GUAC_PROTOCOL_STATUS_RESOURCE_CLOSED,
      b\<lparr>ab_user := None, ab_stream := None, ab_bytes_written := 0, ab_packet_size := 0, ab_flush_handler := False,
        ab_total_bytes_sent := 0, ab_total_bytes_received := 0, ab_packet := None\<rparr>)"

text \<open>The handlers of a user's audio stream. A refused stream leaves the buffer as it is.\<close>

definition guac_rdp_audio_handler ::
  "nat \<Rightarrow> bool \<Rightarrow> guac_rdp_audio_buffer \<Rightarrow> nat \<Rightarrow> int \<Rightarrow> char list \<Rightarrow> audio_call list \<times> guac_rdp_audio_buffer" where
  "guac_rdp_audio_handler long_bits stale b user stream mimetype =
     (case guac_rdp_audio_parse_mimetype long_bits stale mimetype of
        None \<Rightarrow> ([Ack_Call user (Send_ack stream ''Unsupported audio mimetype'' GUAC_PROTOCOL_STATUS_CLIENT_BAD_TYPE)], b)
      | Some (rate, channels, bps) \<Rightarrow> guac_rdp_audio_buffer_set_stream b user stream rate channels bps)"

definition guac_rdp_audio_blob_handler ::
  "(int \<Rightarrow> int \<Rightarrow> int \<Rightarrow> int) \<Rightarrow> guac_rdp_audio_buffer \<Rightarrow> u8 list \<Rightarrow>
   (audio_fault + audio_call list \<times> guac_rdp_audio_buffer) option" where
  "guac_rdp_audio_blob_handler scale b data = guac_rdp_audio_buffer_write scale b data"

section \<open>Resampling\<close>

text \<open>What is used of the conversion between two rates.\<close>

locale rate_scale =
  fixes scale :: "int \<Rightarrow> int \<Rightarrow> int \<Rightarrow> int"
  assumes scale_start: "0 < i \<Longrightarrow> 0 < j \<Longrightarrow> scale i j 0 = 0"
    and scale_mono: "0 < i \<Longrightarrow> 0 < j \<Longrightarrow> 0 \<le> f \<Longrightarrow> f \<le> g \<Longrightarrow> scale i j f \<le> scale i j g"
    and scale_unbounded: "0 < i \<Longrightarrow> 0 < j \<Longrightarrow> \<exists>f \<ge> 0. n \<le> scale i j f"

text \<open>The samples of the output: where each comes from, and its bytes.\<close>

definition format_ok :: "guac_rdp_audio_format \<Rightarrow> bool" where
  "format_ok f \<longleftrightarrow> 0 < af_rate f \<and> 0 < af_channels f \<and> (af_bps f = 1 \<or> af_bps f = 2)"

definition sample_position ::
  "(int \<Rightarrow> int \<Rightarrow> int \<Rightarrow> int) \<Rightarrow> guac_rdp_audio_format \<Rightarrow> guac_rdp_audio_format \<Rightarrow> nat \<Rightarrow> int" where
  "sample_position scale fi fo k =
     scale (af_rate fi) (af_rate fo) (int k div af_channels fo) * af_channels fi
       + min (int k mod af_channels fo) (af_channels fi - 1)"

definition sample_at :: "guac_rdp_audio_format \<Rightarrow> u8 list \<Rightarrow> int \<Rightarrow> u16" where
  "sample_at f data p = (if af_bps f = 2 then load16 data (nat (2 * p)) else push_bit 8 (ucast (data ! nat p)))"

definition resampled ::
  "(int \<Rightarrow> int \<Rightarrow> int \<Rightarrow> int) \<Rightarrow> guac_rdp_audio_format \<Rightarrow> guac_rdp_audio_format \<Rightarrow> u8 list \<Rightarrow> nat \<Rightarrow> u8 list" where
  "resampled scale fi fo data k = the (store_sample (af_bps fo) (sample_at fi data (sample_position scale fi fo k)))"

lemma store_sample_ok:
  assumes "format_ok f"
  shows "\<exists>bytes. store_sample (af_bps f) s = Some bytes \<and> length bytes = nat (af_bps f)"
  using assms by (auto simp: store_sample_def format_ok_def)

definition flushed :: "audio_call list \<Rightarrow> u8 list list" where
  "flushed msgs = concat (map (\<lambda>m. case m of Flush_Call packet \<Rightarrow> [packet] | _ \<Rightarrow> []) msgs)"

lemma flushed_append [simp]: "flushed (xs @ ys) = flushed xs @ flushed ys" "flushed [] = []"
  by (simp_all add: flushed_def)

text \<open>The first \<open>k\<close> samples of the output are in the packets flushed and in the packet being filled.\<close>

definition filled :: "(nat \<Rightarrow> u8 list) \<Rightarrow> guac_rdp_audio_buffer \<Rightarrow> audio_call list \<Rightarrow> nat \<Rightarrow> bool" where
  "filled out b msgs k \<longleftrightarrow> (\<exists>packet. ab_packet b = Some packet \<and> length packet = nat (ab_packet_size b)
     \<and> format_ok (ab_out_format b) \<and> ab_flush_handler b
     \<and> 0 \<le> ab_bytes_written b \<and> ab_bytes_written b < ab_packet_size b
     \<and> ab_packet_size b mod af_bps (ab_out_format b) = 0 \<and> ab_bytes_written b mod af_bps (ab_out_format b) = 0
     \<and> ab_total_bytes_sent b = int k * af_bps (ab_out_format b)
     \<and> (\<forall>p \<in> set (flushed msgs). int (length p) = ab_packet_size b)
     \<and> concat (flushed msgs) @ take (nat (ab_bytes_written b)) packet = concat (map out [0..<k]))"

lemma next_multiple:
  fixes a b c :: int
  assumes "a < b" and "a mod c = 0" and "b mod c = 0" and "0 < c"
  shows "a + c \<le> b"
proof -
  obtain x y where "a = c * x" "b = c * y" using assms(2,3) by (metis mod_0_imp_dvd dvdE)
  then have "c * x < c * y" "c * (x + 1) \<le> c * y" using assms(1,4) by auto
  then show ?thesis by (simp add: \<open>a = c * x\<close> \<open>b = c * y\<close> algebra_simps)
qed

lemma write_sample_ok:
  assumes "filled out b msgs k" and "ab_packet b = Some packet"
    and "store_sample (af_bps (ab_out_format b)) s = Some (out k)"
  obtains m b' where "write_sample packet s b = Inr (m, b')" "filled out b' (msgs @ m) (Suc k)"
    "ab_in_format b' = ab_in_format b" "ab_out_format b' = ab_out_format b"
    "ab_total_bytes_received b' = ab_total_bytes_received b" "ab_packet_size b' = ab_packet_size b"
proof -
  let ?c = "af_bps (ab_out_format b)" and ?w = "ab_bytes_written b" and ?size = "ab_packet_size b"
  have f: "length packet = nat ?size" "format_ok (ab_out_format b)" "ab_flush_handler b" "0 \<le> ?w" "?w < ?size"
    "?size mod ?c = 0" "?w mod ?c = 0" "ab_total_bytes_sent b = int k * ?c"
    "\<forall>p \<in> set (flushed msgs). int (length p) = ?size"
    "concat (flushed msgs) @ take (nat ?w) packet = concat (map out [0..<k])"
    using assms(1,2) by (auto simp: filled_def)
  have c: "0 < ?c" using f(2) by (auto simp: format_ok_def)
  have len: "int (length (out k)) = ?c" using store_sample_ok [OF f(2), of s] assms(3) c by simp
  have room: "?w + ?c \<le> ?size" by (rule next_multiple [OF f(5,7,6) c])
  define p' where "p' = take (nat ?w) packet @ out k @ drop (nat ?w + length (out k)) packet"
  have n: "nat (?w + ?c) = nat ?w + length (out k)" using f(4) len by linarith
  have fits: "\<not> length packet < nat ?w + length (out k)" using room f(1,4) len by linarith
  have p': "length p' = nat ?size" "take (nat (?w + ?c)) p' = take (nat ?w) packet @ out k"
    using fits f(1) by (simp_all add: p'_def n)
  define b1 where "b1 = b\<lparr>ab_packet := Some p', ab_bytes_written := ?w + ?c, ab_total_bytes_sent := ab_total_bytes_sent b + ?c\<rparr>"
  have sent: "ab_total_bytes_sent b + ?c = int (Suc k) * ?c" using f(8) by (simp add: algebra_simps)
  have out: "concat (flushed msgs) @ take (nat (?w + ?c)) p' = concat (map out [0..<Suc k])"
    using f(10) p'(2) by simp
  have w: "write_sample packet s b = Inr (if ?w + ?c = ?size
       then ([Flush_Call (take (nat (?w + ?c)) p')], b1\<lparr>ab_bytes_written := 0\<rparr>) else ([], b1))"
    using fits f(3) assms(3) by (simp add: write_sample_def Let_def p'_def b1_def)
  show ?thesis
  proof (cases "?w + ?c = ?size")
    case True
    have "filled out (b1\<lparr>ab_bytes_written := 0\<rparr>) (msgs @ [Flush_Call (take (nat (?w + ?c)) p')]) (Suc k)"
      using f sent out p' True n by (auto simp: filled_def b1_def flushed_def)
    then show ?thesis using that w True by (simp add: b1_def)
  next
    case False
    have "(?w + ?c) mod ?c = 0" using f(7) by simp
    then have "filled out b1 (msgs @ []) (Suc k)"
      using f c sent out p' False room by (simp add: filled_def b1_def)
    then show ?thesis using that w False by (simp add: b1_def)
  qed
qed

lemma signed_division_pos:
  fixes a b :: int
  assumes "0 \<le> a" and "0 < b"
  shows "a sdiv b = a div b" "a smod b = a mod b"
  using assms by (auto simp: signed_divide_int_def signed_modulo_int_def sgn_if zero_less_mult_iff)

lemma read_sample_ok:
  assumes "0 < af_channels (ab_in_format b) \<and> (af_bps (ab_in_format b) = 1 \<or> af_bps (ab_in_format b) = 2)"
    and "format_ok (ab_out_format b)"
    and "ab_total_bytes_sent b = int k * af_bps (ab_out_format b)"
    and "ab_total_bytes_received b = int r * af_bps (ab_in_format b)" and "length before = r * nat (af_bps (ab_in_format b))"
    and "length data = n * nat (af_bps (ab_in_format b)) + e" and "int e < af_bps (ab_in_format b)"
    and "int r \<le> sample_position scale (ab_in_format b) (ab_out_format b) k"
  shows "read_sample scale b data = Inr (if sample_position scale (ab_in_format b) (ab_out_format b) k < int (r + n)
      then Some (sample_at (ab_in_format b) (before @ data) (sample_position scale (ab_in_format b) (ab_out_format b) k)) else None)"
proof -
  let ?i = "ab_in_format b" and ?o = "ab_out_format b"
  let ?p = "sample_position scale ?i ?o k"
  have o: "0 < af_bps ?o" "0 < af_channels ?o" and i: "0 < af_channels ?i" "af_bps ?i = 1 \<or> af_bps ?i = 2"
    using assms(1,2) by (auto simp: format_ok_def)
  have k: "ab_total_bytes_sent b sdiv af_bps ?o = int k" using o(1) by (simp add: assms(3) signed_division_pos)
  have d: "int k sdiv af_channels ?o = int k div af_channels ?o" "int k smod af_channels ?o = int k mod af_channels ?o"
    using o(2) by (simp_all add: signed_division_pos)
  define q where "q = nat (?p - int r)"
  have q: "?p = int r + int q" using assms(8) by (simp add: q_def)
  have pos: "scale (af_rate ?i) (af_rate ?o) (int k div af_channels ?o) * af_channels ?i
      + (if int k mod af_channels ?o \<ge> af_channels ?i then af_channels ?i - 1 else int k mod af_channels ?o) = int r + int q"
    using q by (auto simp: sample_position_def min_def split: if_splits)
  have off: "(scale (af_rate ?i) (af_rate ?o) (int k div af_channels ?o) * af_channels ?i
      + (if int k mod af_channels ?o \<ge> af_channels ?i then af_channels ?i - 1 else int k mod af_channels ?o)) * af_bps ?i
      - ab_total_bytes_received b = int q * af_bps ?i"
    unfolding pos assms(4) by (simp add: algebra_simps)
  have less: "int (length data) - int q * af_bps ?i < af_bps ?i \<longleftrightarrow> \<not> q < n" using i(2) assms(6,7) by auto
  have at: "sample_at ?i (before @ data) ?p = (if af_bps ?i = 2 then load16 data (nat (int q * af_bps ?i)) else push_bit 8 (ucast (data ! nat (int q * af_bps ?i))))"
  proof (cases "af_bps ?i = 2")
    case True
    then have "nat (2 * ?p) = length before + 2 * q" "nat (int q * af_bps ?i) = 2 * q" using assms(5) q by auto
    moreover have "(before @ data) ! Suc (length before + 2 * q) = data ! Suc (2 * q)" by (simp add: nth_append)
    ultimately show ?thesis using True by (simp add: sample_at_def load16_def)
  next
    case False
    then have "nat ?p = length before + q" "nat (int q * af_bps ?i) = q" using assms(5) i(2) q by auto
    then show ?thesis using False by (simp add: sample_at_def)
  qed
  have "\<not> int q * af_bps ?i < 0" using i(2) by auto
  then show ?thesis
    using o i(2) less at q unfolding read_sample_def Let_def k d off by auto
qed

text \<open>Between blobs: all input so far has been whole frames, and the output has come to its end.\<close>

definition between :: "(int \<Rightarrow> int \<Rightarrow> int \<Rightarrow> int) \<Rightarrow>
    guac_rdp_audio_format \<Rightarrow> guac_rdp_audio_format \<Rightarrow> u8 list \<Rightarrow> guac_rdp_audio_buffer \<Rightarrow>
    audio_call list \<Rightarrow> nat \<Rightarrow> bool" where
  "between scale fi fo input b msgs k \<longleftrightarrow> filled (resampled scale fi fo input) b msgs k
     \<and> ab_in_format b = fi \<and> ab_out_format b = fo \<and> format_ok fi \<and> format_ok fo
     \<and> ab_total_bytes_received b = int (length input)
     \<and> length input mod (nat (af_channels fi) * nat (af_bps fi)) = 0
     \<and> (\<forall>j < k. sample_position scale fi fo j * af_bps fi < int (length input))
     \<and> int (length input) \<le> sample_position scale fi fo k * af_bps fi"

lemma filled_cong: "filled out b msgs k \<Longrightarrow> \<forall>j < k. out j = out' j \<Longrightarrow> filled out' b msgs k"
proof -
  assume f: "filled out b msgs k" and "\<forall>j < k. out j = out' j"
  then have "map out [0..<k] = map out' [0..<k]" by simp
  with f show ?thesis unfolding filled_def by metis
qed

lemma sample_at_prefix:
  assumes "format_ok f" and "0 \<le> p" and "p * af_bps f < int (length before)" and "length before mod nat (af_bps f) = 0"
  shows "sample_at f (before @ data) p = sample_at f before p"
proof -
  obtain n where n: "length before = n * nat (af_bps f)" using assms(4) by (metis mod_0_imp_dvd dvdE mult.commute)
  consider "af_bps f = 1" | "af_bps f = 2" using assms(1) by (auto simp: format_ok_def)
  then show ?thesis
  proof cases
    case 2
    then have "Suc (nat (2 * p)) < length before" using assms(2,3) n by auto
    then show ?thesis using 2 by (simp add: sample_at_def load16_def nth_append)
  qed (use assms(2,3) in \<open>simp add: sample_at_def nth_append nat_less_iff\<close>)
qed

context rate_scale
begin

text \<open>Within one blob of whole frames, the loop reads on to its end and never looks before its start.\<close>

lemma position_frame:
  assumes "format_ok fi" and "format_ok fo"
  shows "int n \<le> scale (af_rate fi) (af_rate fo) (int k div af_channels fo)
    \<longleftrightarrow> int n * af_channels fi \<le> sample_position scale fi fo k"
proof -
  let ?s = "scale (af_rate fi) (af_rate fo) (int k div af_channels fo)"
  have i: "0 < af_channels fi" "0 < af_channels fo" using assms by (simp_all add: format_ok_def)
  define m where "m = min (int k mod af_channels fo) (af_channels fi - 1)"
  have m: "0 \<le> m" "m < af_channels fi" using i by (auto simp: m_def)
  have p: "sample_position scale fi fo k = ?s * af_channels fi + m" by (simp add: sample_position_def m_def)
  have "int n \<le> ?s" if "int n * af_channels fi \<le> ?s * af_channels fi + m"
  proof (rule ccontr)
    assume "\<not> int n \<le> ?s"
    then have "(?s + 1) * af_channels fi \<le> int n * af_channels fi" using i(1) by (intro mult_right_mono) simp_all
    with that m show False by (simp add: algebra_simps)
  qed
  moreover have "int n * af_channels fi \<le> ?s * af_channels fi + m" if "int n \<le> ?s"
    using mult_right_mono [OF that, of "af_channels fi"] i(1) m(1) by linarith
  ultimately show ?thesis unfolding p by blast
qed

lemma frame_mono:
  assumes "format_ok fi" and "format_ok fo" and "j \<le> k"
  shows "scale (af_rate fi) (af_rate fo) (int j div af_channels fo) \<le> scale (af_rate fi) (af_rate fo) (int k div af_channels fo)"
  using assms by (intro scale_mono) (auto simp: format_ok_def zdiv_mono1 pos_imp_zdiv_nonneg_iff)

lemma write_loop_ok:
  assumes "format_ok (ab_in_format b)" and "filled out b msgs k" and "ab_packet b = Some packet"
    and "ab_total_bytes_received b = int (f * nat (af_channels (ab_in_format b))) * af_bps (ab_in_format b)"
    and "length before = f * nat (af_channels (ab_in_format b)) * nat (af_bps (ab_in_format b))"
    and "length data = g * nat (af_channels (ab_in_format b)) * nat (af_bps (ab_in_format b)) + e" and "int e < af_bps (ab_in_format b)"
    and "int f * af_channels (ab_in_format b) \<le> sample_position scale (ab_in_format b) (ab_out_format b) k"
    and out: "\<forall>j. sample_position scale (ab_in_format b) (ab_out_format b) j < int (f + g) * af_channels (ab_in_format b) \<longrightarrow>
       out j = resampled scale (ab_in_format b) (ab_out_format b) (before @ data) j"
    and bound: "int (f + g) \<le> scale (af_rate (ab_in_format b)) (af_rate (ab_out_format b)) (int K)"
  shows "\<exists>m b' k'. write_loop scale data packet emitted b = Some (Inr (emitted @ m, b')) \<and> filled out b' (msgs @ m) k' \<and> k \<le> k'
     \<and> ab_in_format b' = ab_in_format b \<and> ab_out_format b' = ab_out_format b
     \<and> ab_total_bytes_received b' = ab_total_bytes_received b \<and> ab_packet_size b' = ab_packet_size b
     \<and> (\<forall>j. k \<le> j \<and> j < k' \<longrightarrow> sample_position scale (ab_in_format b) (ab_out_format b) j < int (f + g) * af_channels (ab_in_format b))
     \<and> int (f + g) * af_channels (ab_in_format b) \<le> sample_position scale (ab_in_format b) (ab_out_format b) k'"
  using assms(1-8) out bound
proof (induction "Suc K * nat (af_channels (ab_out_format b)) - k" arbitrary: b msgs k packet emitted rule: less_induct)
  case less
  let ?i = "ab_in_format b" and ?o = "ab_out_format b"
  let ?p = "sample_position scale ?i ?o k" and ?r = "f * nat (af_channels ?i)" and ?n = "g * nat (af_channels ?i)"
  have o: "format_ok ?o" "ab_total_bytes_sent b = int k * af_bps ?o" using less.prems(2) by (auto simp: filled_def)
  have i: "0 < af_channels ?i" "0 < af_bps ?i" "0 < af_channels ?o" using less.prems(1) o(1) by (auto simp: format_ok_def)
  have rn: "int ?r = int f * af_channels ?i" "int (?r + ?n) = int (f + g) * af_channels ?i" using i(1) by (simp_all add: algebra_simps)
  have in_ok: "0 < af_channels ?i \<and> (af_bps ?i = 1 \<or> af_bps ?i = 2)" using less.prems(1) by (simp add: format_ok_def)
  note rd = read_sample_ok [OF in_ok o(1,2) less.prems(4,5,6,7), of scale, unfolded rn(2)]
  have rd: "read_sample scale b data = Inr (if ?p < int (f + g) * af_channels ?i then Some (sample_at ?i (before @ data) ?p) else None)"
    by (rule rd) (unfold rn(1), rule less.prems(8))
  show ?case
  proof (cases "?p < int (f + g) * af_channels ?i")
    case False
    then have "write_loop scale data packet emitted b = Some (Inr (emitted @ [], b))"
      using rd by (subst write_loop.simps) simp
    then show ?thesis using less.prems(2) False by (intro exI [of _ "[]"] exI [of _ b] exI [of _ k]) simp
  next
    case True
    obtain bytes where "store_sample (af_bps ?o) (sample_at ?i (before @ data) ?p) = Some bytes" using store_sample_ok [OF o(1)] by blast
    then have st: "store_sample (af_bps ?o) (sample_at ?i (before @ data) ?p) = Some (out k)"
      using less.prems(9) True by (simp add: resampled_def)
    obtain m b1 where b1: "write_sample packet (sample_at ?i (before @ data) ?p) b = Inr (m, b1)" "filled out b1 (msgs @ m) (Suc k)"
      "ab_in_format b1 = ?i" "ab_out_format b1 = ?o" "ab_total_bytes_received b1 = ab_total_bytes_received b" "ab_packet_size b1 = ab_packet_size b"
      by (rule write_sample_ok [OF less.prems(2,3) st])
    obtain packet1 where p1: "ab_packet b1 = Some packet1" using b1(2) by (auto simp: filled_def)
    have step: "write_loop scale data packet emitted b = write_loop scale data packet1 (emitted @ m) b1"
      using rd True b1(1) p1 by (subst write_loop.simps) simp
    have "int k < int (Suc K) * af_channels ?o"
    proof (rule ccontr)
      assume "\<not> ?thesis"
      then have "int K * af_channels ?o \<le> int k" using i(3) by (simp add: algebra_simps)
      then have "int K \<le> int k div af_channels ?o" using zdiv_mono1 [of "int K * af_channels ?o" "int k" "af_channels ?o"] i(3) by simp
      then have "int (f + g) \<le> scale (af_rate ?i) (af_rate ?o) (int k div af_channels ?o)"
        using less.prems(10) scale_mono [of "af_rate ?i" "af_rate ?o" "int K" "int k div af_channels ?o"] less.prems(1) o(1)
        by (auto simp: format_ok_def)
      then show False using position_frame [OF less.prems(1) o(1), of "f + g" k] True by simp
    qed
    then have dec: "Suc K * nat (af_channels (ab_out_format b1)) - Suc k < Suc K * nat (af_channels ?o) - k"
    proof -
      have "int k < int (Suc K * nat (af_channels ?o))" using \<open>int k < int (Suc K) * af_channels ?o\<close> i(3) by (simp add: algebra_simps)
      then show ?thesis unfolding b1(4) by linarith
    qed
    have "int f \<le> scale (af_rate ?i) (af_rate ?o) (int k div af_channels ?o)"
      using position_frame [OF less.prems(1) o(1), of f k] less.prems(8) by simp
    then have "int f \<le> scale (af_rate ?i) (af_rate ?o) (int (Suc k) div af_channels ?o)"
      using frame_mono [OF less.prems(1) o(1), of k "Suc k"] by linarith
    then have f1: "int f * af_channels ?i \<le> sample_position scale ?i ?o (Suc k)"
      using position_frame [OF less.prems(1) o(1), of f "Suc k"] by simp
    have "\<exists>m' b' k'. write_loop scale data packet1 (emitted @ m) b1 = Some (Inr ((emitted @ m) @ m', b'))
       \<and> filled out b' ((msgs @ m) @ m') k' \<and> Suc k \<le> k' \<and> ab_in_format b' = ?i \<and> ab_out_format b' = ?o
       \<and> ab_total_bytes_received b' = ab_total_bytes_received b \<and> ab_packet_size b' = ab_packet_size b
       \<and> (\<forall>j. Suc k \<le> j \<and> j < k' \<longrightarrow> sample_position scale ?i ?o j < int (f + g) * af_channels ?i)
       \<and> int (f + g) * af_channels ?i \<le> sample_position scale ?i ?o k'"
      by (rule less.hyps [OF dec _ b1(2) p1, unfolded b1(3-6), OF less.prems(1,4,5,6,7) f1 less.prems(9,10)])
    then obtain m' b' k' where r: "write_loop scale data packet1 (emitted @ m) b1 = Some (Inr ((emitted @ m) @ m', b'))"
      "filled out b' ((msgs @ m) @ m') k'" "Suc k \<le> k'" "ab_in_format b' = ?i" "ab_out_format b' = ?o"
      "ab_total_bytes_received b' = ab_total_bytes_received b" "ab_packet_size b' = ab_packet_size b"
      "\<forall>j. Suc k \<le> j \<and> j < k' \<longrightarrow> sample_position scale ?i ?o j < int (f + g) * af_channels ?i"
      "int (f + g) * af_channels ?i \<le> sample_position scale ?i ?o k'" by blast
    have "sample_position scale ?i ?o j < int (f + g) * af_channels ?i" if "k \<le> j" "j < k'" for j
      using r(8) True that by (cases "j = k") auto
    then show ?thesis using step r by (intro exI [of _ "m @ m'"] exI [of _ b'] exI [of _ k']) auto
  qed
qed

text \<open>One blob.\<close>

lemma write_ok:
  assumes "between scale fi fo before b msgs k" and "length data mod (nat (af_channels fi) * nat (af_bps fi)) = 0"
  shows "\<exists>m b' k'. guac_rdp_audio_buffer_write scale b data = Some (Inr (m, b')) \<and> between scale fi fo (before @ data) b' (msgs @ m) k'
     \<and> ab_packet_size b' = ab_packet_size b"
proof -
  let ?c = "nat (af_channels fi) * nat (af_bps fi)"
  have b: "filled (resampled scale fi fo before) b msgs k" "ab_in_format b = fi" "ab_out_format b = fo" "format_ok fi" "format_ok fo"
    "ab_total_bytes_received b = int (length before)" "length before mod ?c = 0"
    "\<forall>j < k. sample_position scale fi fo j * af_bps fi < int (length before)"
    "int (length before) \<le> sample_position scale fi fo k * af_bps fi"
    using assms(1) by (simp_all add: between_def)
  have i: "0 < af_channels fi" "0 < af_bps fi" "0 < af_channels fo" "0 < af_rate fi" "0 < af_rate fo"
    using b(4,5) by (auto simp: format_ok_def)
  obtain f where f: "length before = f * nat (af_channels fi) * nat (af_bps fi)"
    using b(7) by (metis mod_0_imp_dvd dvdE mult.commute mult.assoc)
  obtain g where g: "length data = g * nat (af_channels fi) * nat (af_bps fi)"
    using assms(2) by (metis mod_0_imp_dvd dvdE mult.commute mult.assoc)
  have fi: "int (length before) = int f * af_channels fi * af_bps fi" "int (length data) = int g * af_channels fi * af_bps fi"
    using f g i by simp_all
  obtain F where "0 \<le> F" "int (f + g) \<le> scale (af_rate fi) (af_rate fo) F" using scale_unbounded [OF i(4,5)] by blast
  then obtain K where K: "int (f + g) \<le> scale (af_rate fi) (af_rate fo) (int K)" by (metis nonneg_int_cases)
  have nonneg: "0 \<le> sample_position scale fi fo j" for j
  proof -
    have "int 0 \<le> scale (af_rate fi) (af_rate fo) (int j div af_channels fo)"
      using scale_mono [OF i(4,5), of 0 "int j div af_channels fo"] scale_start [OF i(4,5)] i(3) by (simp add: pos_imp_zdiv_nonneg_iff)
    then show ?thesis using position_frame [OF b(4,5), of 0 j] by simp
  qed
  have same: "resampled scale fi fo before j = resampled scale fi fo (before @ data) j" if "j < k" for j
    using sample_at_prefix [OF b(4) nonneg, of j before data] b(8) that f by (simp add: resampled_def)
  obtain packet where p: "ab_packet b = Some packet" "ab_packet_size b \<noteq> 0" using b(1) by (auto simp: filled_def)
  have "int f * af_channels fi * af_bps fi \<le> sample_position scale fi fo k * af_bps fi" using b(9) fi(1) by simp
  then have start: "int f * af_channels fi \<le> sample_position scale fi fo k" using i(2) by simp
  have fl: "filled (resampled scale fi fo (before @ data)) b msgs k" using filled_cong [OF b(1)] same by blast
  have rec: "ab_total_bytes_received b = int (f * nat (af_channels fi)) * af_bps fi" using b(6) fi(1) i(1) by simp
  have "\<exists>m b' k'. write_loop scale data packet [] b = Some (Inr ([] @ m, b')) \<and> filled (resampled scale fi fo (before @ data)) b' (msgs @ m) k' \<and> k \<le> k'
     \<and> ab_in_format b' = fi \<and> ab_out_format b' = fo \<and> ab_total_bytes_received b' = ab_total_bytes_received b \<and> ab_packet_size b' = ab_packet_size b
     \<and> (\<forall>j. k \<le> j \<and> j < k' \<longrightarrow> sample_position scale fi fo j < int (f + g) * af_channels fi)
     \<and> int (f + g) * af_channels fi \<le> sample_position scale fi fo k'"
    by (rule write_loop_ok [of b _ _ _ _ _ _ data g 0, unfolded b(2,3), OF b(4) fl p(1) rec f _ _ start _ K]) (use g i(2) in simp_all)
  then obtain m b' k' where l: "write_loop scale data packet [] b = Some (Inr (m, b'))"
    "filled (resampled scale fi fo (before @ data)) b' (msgs @ m) k'" "k \<le> k'" "ab_in_format b' = fi" "ab_out_format b' = fo"
    "ab_total_bytes_received b' = ab_total_bytes_received b" "ab_packet_size b' = ab_packet_size b"
    "\<And>j. k \<le> j \<Longrightarrow> j < k' \<Longrightarrow> sample_position scale fi fo j < int (f + g) * af_channels fi"
    "int (f + g) * af_channels fi \<le> sample_position scale fi fo k'" by auto
  let ?b = "b'\<lparr>ab_total_bytes_received := ab_total_bytes_received b' + int (length data)\<rparr>"
  have tot: "int (length (before @ data)) = int (f + g) * af_channels fi * af_bps fi" using fi by (simp add: algebra_simps)
  have "sample_position scale fi fo j * af_bps fi < int (length (before @ data))" if "j < k'" for j
  proof (cases "j < k")
    case True
    with b(8) show ?thesis by fastforce
  next
    case False
    with l(8) [of j] that have "sample_position scale fi fo j < int (f + g) * af_channels fi" by simp
    then show ?thesis unfolding tot using i(2) by (rule mult_strict_right_mono)
  qed
  moreover have "int (length (before @ data)) \<le> sample_position scale fi fo k' * af_bps fi" unfolding tot using l(9) i(2) by simp
  moreover have "length (before @ data) mod ?c = 0" using b(7) assms(2) by (simp add: mod_add_eq [symmetric])
  moreover have "filled (resampled scale fi fo (before @ data)) ?b (msgs @ m) k'" using l(2) by (simp add: filled_def)
  ultimately have "between scale fi fo (before @ data) ?b (msgs @ m) k'" using b(4-6) l(4-6) by (simp add: between_def)
  moreover have "guac_rdp_audio_buffer_write scale b data = Some (Inr (m, ?b))"
    using p l(1) by (simp add: guac_rdp_audio_buffer_write_def)
  ultimately show ?thesis using l(7) by (intro exI [of _ m] exI [of _ ?b] exI [of _ k']) simp
qed

end

section \<open>Streams of blobs\<close>

fun write_blobs ::
  "(int \<Rightarrow> int \<Rightarrow> int \<Rightarrow> int) \<Rightarrow> guac_rdp_audio_buffer \<Rightarrow> u8 list list \<Rightarrow>
   (audio_fault + audio_call list \<times> guac_rdp_audio_buffer) option" where
  "write_blobs scale b [] = Some (Inr ([], b))"
| "write_blobs scale b (d # ds) =
     (case guac_rdp_audio_blob_handler scale b d of None \<Rightarrow> None
      | Some (Inl bad) \<Rightarrow> Some (Inl bad)
      | Some (Inr (m, b)) \<Rightarrow> map_option (map_sum id (\<lambda>(ms, b). (m @ ms, b))) (write_blobs scale b ds))"

text \<open>A buffer both of whose sides are ready: the format of the server, the stream of a user, the start.\<close>

definition started ::
  "(int \<Rightarrow> u8 list option) \<Rightarrow> nat \<Rightarrow> int \<Rightarrow> guac_rdp_audio_format \<Rightarrow> guac_rdp_audio_format \<Rightarrow> int \<Rightarrow>
   guac_rdp_audio_buffer" where
  "started fresh user stream fi fo packet_frames =
     (let b = guac_rdp_audio_buffer_set_output guac_rdp_audio_buffer_alloc (af_rate fo) (af_channels fo) (af_bps fo);
          b = snd (guac_rdp_audio_buffer_set_stream b user stream (af_rate fi) (af_channels fi) (af_bps fi)) in
      snd (guac_rdp_audio_buffer_begin fresh b packet_frames True))"

lemma format_eta: "\<lparr>af_rate = af_rate f, af_channels = af_channels f, af_bps = af_bps f\<rparr> = f"
  by simp

context rate_scale
begin

lemma started_ok:
  assumes "format_ok fi" and "format_ok fo" and "0 < packet_frames"
    and "\<forall>n > 0. \<exists>m. fresh n = Some m \<and> length m = nat n"
  shows "between scale fi fo [] (started fresh user stream fi fo packet_frames) [] 0"
    "ab_packet_size (started fresh user stream fi fo packet_frames) = packet_frames * af_channels fo * af_bps fo"
proof -
  let ?size = "packet_frames * af_channels fo * af_bps fo"
  have pos: "0 < ?size" "0 < af_rate fi" "0 < af_rate fo" "0 < af_channels fi" "0 < af_channels fo" using assms by (auto simp: format_ok_def)
  then obtain m where m: "fresh ?size = Some m" "length m = nat ?size" using assms(4) by blast
  note s = started_def Let_def guac_rdp_audio_buffer_begin_def guac_rdp_audio_buffer_set_stream_def
    guac_rdp_audio_buffer_set_output_def guac_rdp_audio_buffer_alloc_def
  show "ab_packet_size (started fresh user stream fi fo packet_frames) = ?size" by (simp add: s)
  have "sample_position scale fi fo 0 = 0" using scale_start [OF pos(2,3)] pos(4) by (simp add: sample_position_def)
  then show "between scale fi fo [] (started fresh user stream fi fo packet_frames) [] 0"
    using assms(1,2) m pos(1) by (simp add: between_def filled_def s format_eta)
qed

lemma write_blobs_ok:
  assumes "between scale fi fo before b msgs k" and "\<forall>d \<in> set ds. length d mod (nat (af_channels fi) * nat (af_bps fi)) = 0"
  shows "\<exists>m b' k'. write_blobs scale b ds = Some (Inr (m, b')) \<and> between scale fi fo (before @ concat ds) b' (msgs @ m) k'
     \<and> ab_packet_size b' = ab_packet_size b"
  using assms
proof (induction ds arbitrary: before b msgs k)
  case (Cons d ds)
  obtain m b1 k1 where b1: "guac_rdp_audio_buffer_write scale b d = Some (Inr (m, b1))"
    "between scale fi fo (before @ d) b1 (msgs @ m) k1" "ab_packet_size b1 = ab_packet_size b"
    using write_ok [OF Cons.prems(1), of d] Cons.prems(2) by auto
  obtain m' b2 k2 where b2: "write_blobs scale b1 ds = Some (Inr (m', b2))"
    "between scale fi fo ((before @ d) @ concat ds) b2 ((msgs @ m) @ m') k2" "ab_packet_size b2 = ab_packet_size b1"
    using Cons.IH [OF b1(2)] Cons.prems(2) by auto
  have "write_blobs scale b (d # ds) = Some (Inr (m @ m', b2))"
    using b1(1) b2(1) by (simp add: guac_rdp_audio_blob_handler_def)
  then show ?case using b2(2,3) b1(3) by (intro exI [of _ "m @ m'"] exI [of _ b2] exI [of _ k2]) simp
qed auto

end

text \<open>Exact conversion satisfies the laws.\<close>

definition exact_scale :: "int \<Rightarrow> int \<Rightarrow> int \<Rightarrow> int" where
  "exact_scale i j f = f * i div j"

interpretation exact: rate_scale exact_scale
proof unfold_locales
  fix i j f g n :: int
  assume i: "0 < i" "0 < j"
  show "exact_scale i j 0 = 0" by (simp add: exact_scale_def)
  show "exact_scale i j f \<le> exact_scale i j g" if "f \<le> g"
    unfolding exact_scale_def using that i by (intro zdiv_mono1 mult_right_mono) simp_all
  have "\<bar>n\<bar> * j \<le> (\<bar>n\<bar> * j) * i" using i mult_left_mono [of 1 i "\<bar>n\<bar> * j"] by simp
  then have "\<bar>n\<bar> \<le> exact_scale i j (\<bar>n\<bar> * j)"
    unfolding exact_scale_def using i zdiv_mono1 [of "\<bar>n\<bar> * j" "(\<bar>n\<bar> * j) * i" j] by simp
  then show "\<exists>f \<ge> 0. n \<le> exact_scale i j f" using i by (intro exI [of _ "\<bar>n\<bar> * j"]) simp
qed


section \<open>What a user can do to it\<close>

text \<open>No position reaches the end of the data.\<close>

definition endless :: "(int \<Rightarrow> int \<Rightarrow> int \<Rightarrow> int) \<Rightarrow> u8 list \<Rightarrow> u8 list \<Rightarrow> guac_rdp_audio_buffer \<Rightarrow> bool" where
  "endless scale data packet b \<longleftrightarrow> (\<exists>msgs k n e. let i = ab_in_format b; p = sample_position scale i (ab_out_format b) in
     filled (resampled scale i (ab_out_format b) data) b msgs k \<and> ab_packet b = Some packet
     \<and> 0 < af_channels i \<and> (af_bps i = 1 \<or> af_bps i = 2) \<and> (\<forall>j. 0 \<le> p j \<and> p j < int n)
     \<and> ab_total_bytes_received b = 0 \<and> length data = n * nat (af_bps i) + e \<and> int e < af_bps i)"

lemma endless_step:
  assumes "endless scale data packet b"
  obtains sample m b' where "read_sample scale b data = Inr (Some sample)" "write_sample packet sample b = Inr (m, b')"
    "endless scale data (the (ab_packet b')) b'"
proof -
  let ?i = "ab_in_format b" and ?o = "ab_out_format b"
  obtain msgs k n e where h: "filled (resampled scale ?i ?o data) b msgs k" "ab_packet b = Some packet" "0 < af_channels ?i"
    "af_bps ?i = 1 \<or> af_bps ?i = 2" "\<forall>j. 0 \<le> sample_position scale ?i ?o j \<and> sample_position scale ?i ?o j < int n"
    "ab_total_bytes_received b = 0" "length data = n * nat (af_bps ?i) + e" "int e < af_bps ?i"
    using assms unfolding endless_def Let_def by blast
  have o: "format_ok ?o" "ab_total_bytes_sent b = int k * af_bps ?o" using h(1) by (auto simp: filled_def)
  let ?s = "sample_at ?i data (sample_position scale ?i ?o k)"
  have rd: "read_sample scale b data = Inr (Some ?s)"
    using read_sample_ok [OF _ o, of 0 "[]" data n e scale] h(3-8) by simp
  obtain bytes where "store_sample (af_bps ?o) ?s = Some bytes" using store_sample_ok [OF o(1)] by blast
  then have "store_sample (af_bps ?o) ?s = Some (resampled scale ?i ?o data k)" by (simp add: resampled_def)
  then obtain m b1 where b1: "write_sample packet ?s b = Inr (m, b1)" "filled (resampled scale ?i ?o data) b1 (msgs @ m) (Suc k)"
    "ab_in_format b1 = ?i" "ab_out_format b1 = ?o" "ab_total_bytes_received b1 = ab_total_bytes_received b"
    using write_sample_ok [OF h(1,2)] by metis
  have p1: "ab_packet b1 = Some (the (ab_packet b1))" using b1(2) by (auto simp: filled_def)
  have "endless scale data (the (ab_packet b1)) b1"
    unfolding endless_def Let_def b1(3-5) using b1(2) p1 h(3-8) by blast
  with that rd b1(1) show ?thesis by blast
qed

lemma endless_never_returns:
  assumes "write_loop scale data packet emitted b = Some r"
  shows "\<not> endless scale data packet b"
proof (rule write_loop.raw_induct [OF _ assms])
  fix f and scale :: "int \<Rightarrow> int \<Rightarrow> int \<Rightarrow> int" and data packet emitted and b :: guac_rdp_audio_buffer and r
  assume IH: "\<And>scale data packet emitted b r. f scale data packet emitted b = Some r \<Longrightarrow> \<not> endless scale data packet b"
    and body: "(case read_sample scale b data of Inl bad \<Rightarrow> Some (Inl bad)
      | Inr None \<Rightarrow> Some (Inr (emitted, b))
      | Inr (Some sample) \<Rightarrow>
          (case write_sample packet sample b of Inl bad \<Rightarrow> Some (Inl bad)
           | Inr (msgs, b) \<Rightarrow> f scale data (the (ab_packet b)) (emitted @ msgs) b)) = Some r"
  show "\<not> endless scale data packet b"
  proof
    assume "endless scale data packet b"
    then obtain sample m b' where s: "read_sample scale b data = Inr (Some sample)" "write_sample packet sample b = Inr (m, b')"
      "endless scale data (the (ab_packet b')) b'" by (rule endless_step)
    then have "f scale data (the (ab_packet b')) (emitted @ m) b' = Some r" using body by simp
    from IH [OF this] s(3) show False by blast
  qed
qed

lemma parse_zero_rate: "guac_rdp_audio_parse_mimetype long_bits False ''audio/L8;rate=0'' = Some (0, 1, 1)"
proof -
  have z: "format_int 0 = ''0''" by code_simp
  have p: "\<not> (2 :: int) ^ (long_bits - Suc 0) < 1" by (simp add: not_less)
  have "strtol long_bits ''0'' = (0, [], False)" using strtol_format_int [of long_bits 0] p unfolding z by simp
  then show ?thesis
    by (simp add: guac_rdp_audio_parse_mimetype_def mimetype_params.simps mimetype_param_def strchr_def)
qed

text \<open>
  A user who announces a rate of zero, which the parser accepts, stops the process: writing the first data never returns.
\<close>

theorem zero_rate_never_returns:
  assumes "\<forall>j f. scale 0 j f = 0" and "format_ok fo" and "0 < packet_frames"
    and "\<forall>n > 0. \<exists>m. fresh n = Some m \<and> length m = nat n" and "data \<noteq> []"
  shows "\<exists>rate channels bps. guac_rdp_audio_parse_mimetype long_bits False ''audio/L8;rate=0'' = Some (rate, channels, bps)
     \<and> guac_rdp_audio_blob_handler scale
          (started fresh user stream \<lparr>af_rate = rate, af_channels = channels, af_bps = bps\<rparr> fo packet_frames) data = None"
proof -
  let ?fi = "\<lparr>af_rate = 0, af_channels = 1, af_bps = 1\<rparr>" and ?size = "packet_frames * af_channels fo * af_bps fo"
  let ?b = "started fresh user stream ?fi fo packet_frames"
  have pos: "0 < ?size" "0 < af_channels fo" using assms(2,3) by (auto simp: format_ok_def)
  then obtain m where m: "fresh ?size = Some m" "length m = nat ?size" using assms(4) by blast
  note s = started_def Let_def guac_rdp_audio_buffer_begin_def guac_rdp_audio_buffer_set_stream_def
    guac_rdp_audio_buffer_set_output_def guac_rdp_audio_buffer_alloc_def
  have b: "ab_packet ?b = Some m" "ab_in_format ?b = ?fi" "ab_out_format ?b = fo" "ab_packet_size ?b = ?size"
    "ab_total_bytes_received ?b = 0" using m by (simp_all add: s)
  have nz: "ab_packet_size ?b \<noteq> 0" using b(4) pos(1) by linarith
  have "filled out ?b [] 0" for out using assms(2) m pos(1) by (simp add: filled_def s format_eta)
  moreover have "sample_position scale ?fi fo j = 0" for j using assms(1) pos(2) by (simp add: sample_position_def)
  ultimately have "endless scale data m ?b"
    unfolding endless_def Let_def b using assms(5)
    by (intro exI [of _ "[]"] exI [of _ 0] exI [of _ "length data"]) simp
  then have "write_loop scale data m [] ?b = None" using endless_never_returns by (metis not_None_eq)
  then have "guac_rdp_audio_blob_handler scale ?b data = None"
    using b(1) nz by (simp add: guac_rdp_audio_blob_handler_def guac_rdp_audio_buffer_write_def)
  then show ?thesis using parse_zero_rate by blast
qed

text \<open>
  C97. One byte too many: with 16-bit samples at equal rates, a blob of odd length makes the assertion of the next write
  fail, whatever it holds.
\<close>

theorem odd_blob_aborts:
  assumes "rate_scale scale" and "\<forall>f. scale r r f = f" and "0 < r" and "bps = 1 \<or> bps = 2" and "0 < packet_frames"
    and "\<forall>n > 0. \<exists>m. fresh n = Some m \<and> length m = nat n" and "odd (length first)"
  shows "write_blobs scale (started fresh user stream \<lparr>af_rate = r, af_channels = 1, af_bps = 2\<rparr> \<lparr>af_rate = r, af_channels = 1, af_bps = bps\<rparr>
     packet_frames) [first, second] = Some (Inl Assertion_Failed)"
proof -
  let ?fi = "\<lparr>af_rate = r, af_channels = 1, af_bps = 2\<rparr>" and ?fo = "\<lparr>af_rate = r, af_channels = 1, af_bps = bps\<rparr>"
  let ?b = "started fresh user stream ?fi ?fo packet_frames"
  have ok: "format_ok ?fi" "format_ok ?fo" using assms(3,4) by (simp_all add: format_ok_def)
  have st: "between scale ?fi ?fo [] ?b [] 0" by (rule rate_scale.started_ok [OF assms(1) ok assms(5,6)])
  have b: "filled (resampled scale ?fi ?fo []) ?b [] 0" "ab_in_format ?b = ?fi" "ab_out_format ?b = ?fo" "ab_total_bytes_received ?b = 0"
    using st by (simp_all add: between_def)
  obtain packet where p: "ab_packet ?b = Some packet" "ab_packet_size ?b \<noteq> 0" using b(1) by (auto simp: filled_def)
  have pos: "sample_position scale ?fi ?fo k = int k" for k using assms(2) by (simp add: sample_position_def)
  obtain g where g: "length first = 2 * g + 1" using assms(7) by (metis oddE)
  have "filled (resampled scale ?fi ?fo ([] @ first)) ?b [] 0" by (rule filled_cong [OF b(1)]) simp
  then have "\<exists>m b' k'. write_loop scale first packet [] ?b = Some (Inr ([] @ m, b')) \<and> filled (resampled scale ?fi ?fo ([] @ first)) b' ([] @ m) k'
     \<and> 0 \<le> k' \<and> ab_in_format b' = ?fi \<and> ab_out_format b' = ?fo \<and> ab_total_bytes_received b' = ab_total_bytes_received ?b
     \<and> ab_packet_size b' = ab_packet_size ?b
     \<and> (\<forall>j. 0 \<le> j \<and> j < k' \<longrightarrow> sample_position scale ?fi ?fo j < int (0 + g) * af_channels ?fi)
     \<and> int (0 + g) * af_channels ?fi \<le> sample_position scale ?fi ?fo k'"
    using g pos b(4) by (intro rate_scale.write_loop_ok [OF assms(1), of ?b _ _ _ _ 0 "[]" first g 1 g, unfolded b(2,3), OF ok(1) _ p(1)])
      (simp_all add: assms(2))
  then obtain m b1 k where l: "write_loop scale first packet [] ?b = Some (Inr (m, b1))" "filled (resampled scale ?fi ?fo first) b1 m k"
    "ab_in_format b1 = ?fi" "ab_out_format b1 = ?fo" "ab_total_bytes_received b1 = 0" "ab_packet_size b1 = ab_packet_size ?b"
    "\<forall>j < k. j < g" "g \<le> k" unfolding pos using b(4) by auto
  have k: "k = g" using l(7,8) by (metis le_neq_implies_less less_irrefl)
  let ?b1 = "b1\<lparr>ab_total_bytes_received := int (length first)\<rparr>"
  have w1: "guac_rdp_audio_buffer_write scale ?b first = Some (Inr (m, ?b1))"
    using p l(1,5) by (simp add: guac_rdp_audio_buffer_write_def)
  obtain packet1 where p1: "ab_packet b1 = Some packet1" "ab_total_bytes_sent b1 = int g * bps" using l(2,4) k by (auto simp: filled_def)
  have "read_sample scale ?b1 second = Inl Assertion_Failed"
    using assms(2,4) l(3,4) p1(2) g by (auto simp: read_sample_def Let_def signed_division_pos)
  then have "write_loop scale second packet1 [] ?b1 = Some (Inl Assertion_Failed)" by (subst write_loop.simps) simp
  then have "guac_rdp_audio_buffer_write scale ?b1 second = Some (Inl Assertion_Failed)"
    using p1(1) p(2) l(6) by (simp add: guac_rdp_audio_buffer_write_def)
  then show ?thesis using w1 by (simp add: guac_rdp_audio_blob_handler_def)
qed

section \<open>The mimetype, read back\<close>

lemma strtol_number:
  assumes "rest = [] \<or> \<not> is_digit (hd rest)" and "32 \<le> bits" and "- (2 ^ 31) \<le> n" and "n < 2 ^ 31"
  shows "strtol bits (format_int n @ rest) = (n, rest, False)"
proof -
  define ds where "ds = digits_of_nat (nat \<bar>n\<bar>)"
  have d: "\<forall>c \<in> set ds. is_digit c" "digits_value 0 ds = \<bar>n\<bar>"
    using digits_of_nat_digits [of "nat \<bar>n\<bar>"] by (simp_all add: ds_def)
  obtain c cs where cs: "ds = c # cs" using digits_of_nat_ne unfolding ds_def by (meson neq_Nil_conv)
  have c: "\<not> is_space c" "c \<noteq> CHR ''-''" "c \<noteq> CHR ''+''" "\<not> is_space CHR ''-''"
    using d(1) cs digit_not_blank [of c] by (auto simp: is_space_def)
  have t: "takeWhile is_digit (ds @ rest) = ds" "dropWhile is_digit (ds @ rest) = rest" "ds \<noteq> []"
    using d(1) assms(1) cs by (cases rest; simp add: takeWhile_eq_all_conv dropWhile_eq_Nil_conv takeWhile_append2 dropWhile_append2 takeWhile_append1)+
  have "(2 :: int) ^ 31 \<le> 2 ^ (bits - 1)" using assms(2) by (intro power_increasing) simp_all
  then have r: "max (- (2 ^ (bits - 1))) (min (2 ^ (bits - 1) - 1) n) = n" "\<not> n < - (2 ^ (bits - 1))" "\<not> 2 ^ (bits - 1) - 1 < n"
    using assms(3,4) by linarith+
  show ?thesis
  proof (cases "n < 0")
    case True
    then have f: "format_int n @ rest = CHR ''-'' # (ds @ rest)" by (simp add: format_int_def ds_def)
    have "- digits_value 0 ds = n" using d(2) True by simp
    then show ?thesis unfolding strtol_def f using r t by (simp add: Let_def c)
  next
    case False
    then have f: "format_int n @ rest = ds @ rest" by (simp add: format_int_def ds_def)
    have u: "dropWhile is_space (ds @ rest) = ds @ rest" "take 1 (ds @ rest) \<noteq> ''-''" "take 1 (ds @ rest) \<noteq> ''+''"
      using cs c by simp_all
    have "digits_value 0 ds = n" using d(2) False by simp
    then show ?thesis unfolding strtol_def f Let_def u(1) using u(2,3) r t by simp
  qed
qed

lemma strchr_simps: "strchr [] c = None" "strchr (c # s) c = Some (c # s)"
  by (simp_all add: strchr_def)

lemma params_rate:
  assumes "32 \<le> bits" and "- (2 ^ 31) \<le> n" and "n < 2 ^ 31" and "rest = [] \<or> (\<exists>s. rest = CHR '','' # s)"
  shows "mimetype_params bits False (sep # ''rate='' @ format_int n @ rest) rate channels =
     (if rest = [] then Some (n, channels) else mimetype_params bits False rest n channels)"
proof -
  have nd: "rest = [] \<or> \<not> is_digit (hd rest)" using assms(4) by (auto simp: is_digit_def)
  show ?thesis
    using assms(4) by (subst mimetype_params.simps)
      (auto simp: mimetype_param_def strtol_number [OF nd assms(1-3)] strtol_number [of "[]", OF _ assms(1-3), simplified] wrap32_id [OF assms(2,3)] strchr_simps)
qed

lemma params_channels:
  assumes "32 \<le> bits" and "- (2 ^ 31) \<le> n" and "n < 2 ^ 31" and "rest = [] \<or> (\<exists>s. rest = CHR '','' # s)"
  shows "mimetype_params bits False (sep # ''channels='' @ format_int n @ rest) rate channels =
     (if rest = [] then Some (rate, n) else mimetype_params bits False rest rate n)"
proof -
  have nd: "rest = [] \<or> \<not> is_digit (hd rest)" using assms(4) by (auto simp: is_digit_def)
  show ?thesis
    using assms(4) by (subst mimetype_params.simps)
      (auto simp: mimetype_param_def strtol_number [OF nd assms(1-3)] strtol_number [of "[]", OF _ assms(1-3), simplified] wrap32_id [OF assms(2,3)] strchr_simps)
qed

lemma mimetype_accepted:
  assumes "32 \<le> bits" and "- (2 ^ 31) \<le> rate" "rate < 2 ^ 31" and "- (2 ^ 31) \<le> channels" "channels < 2 ^ 31" and "rate \<noteq> -1"
  shows "guac_rdp_audio_parse_mimetype bits False (''audio/L16;rate='' @ format_int rate @ '',channels='' @ format_int channels)
       = Some (rate, channels, 2)
     \<and> guac_rdp_audio_parse_mimetype bits False (''audio/L8;channels='' @ format_int channels @ '',rate='' @ format_int rate)
       = Some (rate, channels, 1)"
proof -
  have a: "mimetype_params bits False (CHR '';'' # ''rate='' @ format_int rate @ CHR '','' # ''channels='' @ format_int channels @ []) (-1) 1
      = Some (rate, channels)"
    by (subst params_rate [OF assms(1-3)], simp) (subst if_not_P, simp, subst params_channels [OF assms(1,4,5)], simp_all)
  have b: "mimetype_params bits False (CHR '';'' # ''channels='' @ format_int channels @ CHR '','' # ''rate='' @ format_int rate @ []) (-1) 1
      = Some (rate, channels)"
    by (subst params_channels [OF assms(1,4,5)], simp) (subst if_not_P, simp, subst params_rate [OF assms(1-3)], simp_all)
  show ?thesis using a b assms(6) by (simp add: guac_rdp_audio_parse_mimetype_def)
qed

text \<open>
  C96. The parser reads back what a client writes: any rate but -1 and any number of channels, in either order, for both
  sizes of samples.
\<close>

theorem mimetype_read_back:
  assumes "32 \<le> bits" and "- (2 ^ 31) \<le> rate" "rate < 2 ^ 31" and "- (2 ^ 31) \<le> channels" "channels < 2 ^ 31" and "rate \<noteq> -1"
  shows "guac_rdp_audio_parse_mimetype bits False (''audio/L16;rate='' @ format_int rate @ '',channels='' @ format_int channels)
       = Some (rate, channels, 2)
     \<and> guac_rdp_audio_parse_mimetype bits False (''audio/L8;channels='' @ format_int channels @ '',rate='' @ format_int rate)
       = Some (rate, channels, 1)"
  by (rule mimetype_accepted [OF assms])

section \<open>The theorems at work\<close>

definition stereo :: guac_rdp_audio_format where "stereo = \<lparr>af_rate = 22050, af_channels = 2, af_bps = 2\<rparr>"
definition mono :: guac_rdp_audio_format where "mono = \<lparr>af_rate = 44100, af_channels = 1, af_bps = 1\<rparr>"

definition plenty :: "int \<Rightarrow> u8 list option" where "plenty n = Some (replicate (nat n) 0)"

lemma samples_ok: "format_ok stereo" "format_ok mono" "\<forall>n > 0. \<exists>m. plenty n = Some m \<and> length m = nat n"
  by (simp_all add: format_ok_def stereo_def mono_def plenty_def)


theorem zero_rate_never_returns_witness:
  "\<exists>rate channels bps. guac_rdp_audio_parse_mimetype 64 False ''audio/L8;rate=0'' = Some (rate, channels, bps)
     \<and> guac_rdp_audio_blob_handler exact_scale
          (started plenty 0 5 \<lparr>af_rate = rate, af_channels = channels, af_bps = bps\<rparr> mono 3) [7] = None"
  by (rule zero_rate_never_returns [OF _ samples_ok(2) _ samples_ok(3)]) (simp_all add: exact_scale_def)

theorem odd_blob_aborts_witness:
  "write_blobs (\<lambda>i j f. if i = j then f else f * i div j)
     (started plenty 0 5 \<lparr>af_rate = 8000, af_channels = 1, af_bps = 2\<rparr> \<lparr>af_rate = 8000, af_channels = 1, af_bps = 2\<rparr> 3) [[1, 2, 3], [4]]
   = Some (Inl Assertion_Failed)"
proof -
  have e: "(\<lambda>i j f. if i = j then f else f * i div j) = (\<lambda>i j f. if i = j \<and> i = 0 then f else exact_scale i j f)"
    by (auto simp: exact_scale_def fun_eq_iff)
  have "rate_scale (\<lambda>i j f. if i = j then f else f * i div j)"
    unfolding e using exact.scale_start exact.scale_mono exact.scale_unbounded by unfold_locales auto
  then show ?thesis by (rule odd_blob_aborts [OF _ _ _ _ _ samples_ok(3)]) simp_all
qed

theorem mimetype_read_back_witness:
  "guac_rdp_audio_parse_mimetype 64 False (''audio/L16;rate='' @ format_int 44100 @ '',channels='' @ format_int 2) = Some (44100, 2, 2)"
  using mimetype_read_back [of 64 44100 2] by simp

end
