(* ===== verification/Ai_Messages.thy ===== *)
theory Ai_Messages
  imports Audio_Input Winpr_Stream "HOL-Library.Monad_Syntax"
begin

text \<open>
  \<open>protocols/rdp/src/guac_ai/ai_messages.c\<close> and the dispatcher of \<open>ai_service.c\<close>: the AUDIO_INPUT channel, over which
  the RDP server agrees on a format and receives the packets of the audio buffer. Messages are bytes; what is
  written to the channel, and what the audio buffer sends to the user, is recorded in order. Log lines are left out. A
  message that is shorter than its contents is read past its end: \<open>None\<close>.
\<close>

section \<open>Formats\<close>

definition GUAC_RDP_WAVE_FORMAT_PCM :: u16 where "GUAC_RDP_WAVE_FORMAT_PCM = 0x01"
definition GUAC_RDP_MSG_SNDIN_VERSION :: u8 where "GUAC_RDP_MSG_SNDIN_VERSION = 0x01"
definition GUAC_RDP_MSG_SNDIN_FORMATS :: u8 where "GUAC_RDP_MSG_SNDIN_FORMATS = 0x02"
definition GUAC_RDP_MSG_SNDIN_OPEN :: u8 where "GUAC_RDP_MSG_SNDIN_OPEN = 0x03"
definition GUAC_RDP_MSG_SNDIN_OPEN_REPLY :: u8 where "GUAC_RDP_MSG_SNDIN_OPEN_REPLY = 0x04"
definition GUAC_RDP_MSG_SNDIN_DATA_INCOMING :: u8 where "GUAC_RDP_MSG_SNDIN_DATA_INCOMING = 0x05"
definition GUAC_RDP_MSG_SNDIN_DATA :: u8 where "GUAC_RDP_MSG_SNDIN_DATA = 0x06"
definition GUAC_RDP_MSG_SNDIN_FORMATCHANGE :: u8 where "GUAC_RDP_MSG_SNDIN_FORMATCHANGE = 0x07"

record guac_rdp_ai_format =
  aif_tag :: u16
  aif_channels :: u16
  aif_rate :: u32
  aif_bytes_per_sec :: u32
  aif_block_align :: u16
  aif_bps :: u16
  aif_data_size :: u16
  aif_data :: "u8 list"

definition guac_rdp_ai_read_format :: "u8 list \<Rightarrow> (guac_rdp_ai_format \<times> u8 list) option" where
  "guac_rdp_ai_read_format s = do {
     (tag, s) \<leftarrow> read_u16 s;
     (channels, s) \<leftarrow> read_u16 s;
     (rate, s) \<leftarrow> read_u32 s;
     (bytes_per_sec, s) \<leftarrow> read_u32 s;
     (block_align, s) \<leftarrow> read_u16 s;
     (bps, s) \<leftarrow> read_u16 s;
     (data_size, s) \<leftarrow> read_u16 s;
     rest \<leftarrow> seek (unat data_size) s;
     Some (\<lparr>aif_tag = tag, aif_channels = channels, aif_rate = rate, aif_bytes_per_sec = bytes_per_sec,
            aif_block_align = block_align, aif_bps = bps, aif_data_size = data_size,
            aif_data = take (unat data_size) s\<rparr>, rest)
   }"

definition guac_rdp_ai_write_format :: "guac_rdp_ai_format \<Rightarrow> u8 list" where
  "guac_rdp_ai_write_format f =
     write_u16 (aif_tag f) @ write_u16 (aif_channels f) @ write_u32 (aif_rate f) @ write_u32 (aif_bytes_per_sec f)
       @ write_u16 (aif_block_align f) @ write_u16 (aif_bps f) @ write_u16 (aif_data_size f)
       @ (if aif_data_size f \<noteq> 0 then take (unat (aif_data_size f)) (aif_data f) else [])"

section \<open>Messages\<close>

datatype ai_call = Channel_Write "u8 list" | To_User nat stream_message

definition guac_rdp_ai_send_incoming_data :: "ai_call list" where
  "guac_rdp_ai_send_incoming_data = [Channel_Write [GUAC_RDP_MSG_SNDIN_DATA_INCOMING]]"

definition guac_rdp_ai_send_data :: "u8 list \<Rightarrow> ai_call list" where
  "guac_rdp_ai_send_data packet = [Channel_Write (GUAC_RDP_MSG_SNDIN_DATA # packet)]"

definition guac_rdp_ai_send_formats :: "guac_rdp_ai_format list \<Rightarrow> ai_call list" where
  "guac_rdp_ai_send_formats formats =
     (let packet_size = 9 + sum_list (map (\<lambda>f. 18 + unat (aif_data_size f)) formats) in
      [Channel_Write (GUAC_RDP_MSG_SNDIN_FORMATS # write_u32 (of_nat (length formats)) @ write_u32 (of_nat packet_size)
         @ concat (map guac_rdp_ai_write_format formats))])"

definition guac_rdp_ai_send_open_reply :: "u32 \<Rightarrow> ai_call list" where
  "guac_rdp_ai_send_open_reply result = [Channel_Write (GUAC_RDP_MSG_SNDIN_OPEN_REPLY # write_u32 result)]"

definition guac_rdp_ai_send_formatchange :: "u32 \<Rightarrow> ai_call list" where
  "guac_rdp_ai_send_formatchange format = [Channel_Write (GUAC_RDP_MSG_SNDIN_FORMATCHANGE # write_u32 format)]"

definition guac_rdp_ai_flush_packet :: "u8 list \<Rightarrow> ai_call list" where
  "guac_rdp_ai_flush_packet packet = guac_rdp_ai_send_incoming_data @ guac_rdp_ai_send_data packet"

text \<open>The calls of an audio buffer whose flush handler is \<open>guac_rdp_ai_flush_packet\<close>.\<close>

primrec ai_audio_call :: "audio_call \<Rightarrow> ai_call list" where
  "ai_audio_call (Ack_Call user msg) = [To_User user msg]"
| "ai_audio_call (Flush_Call packet) = guac_rdp_ai_flush_packet packet"

definition ai_audio_calls :: "audio_call list \<Rightarrow> ai_call list" where
  "ai_audio_calls msgs = concat (map ai_audio_call msgs)"

section \<open>What the server sends\<close>

definition guac_rdp_ai_process_version ::
  "guac_rdp_audio_buffer \<Rightarrow> u8 list \<Rightarrow> (ai_call list \<times> guac_rdp_audio_buffer) option" where
  "guac_rdp_ai_process_version b s = do {
     (version, s) \<leftarrow> read_u32 s;
     Some ([Channel_Write (GUAC_RDP_MSG_SNDIN_VERSION # write_u32 1)], b)
   }"

text \<open>The first format that is raw wave audio.\<close>

fun accept_format :: "nat \<Rightarrow> u8 list \<Rightarrow> guac_rdp_ai_format option option" where
  "accept_format 0 s = Some None"
| "accept_format (Suc n) s = do {
     (f, s) \<leftarrow> guac_rdp_ai_read_format s;
     if aif_tag f \<noteq> GUAC_RDP_WAVE_FORMAT_PCM then accept_format n s else Some (Some f)
   }"

definition guac_rdp_ai_process_formats ::
  "guac_rdp_audio_buffer \<Rightarrow> u8 list \<Rightarrow> (ai_call list \<times> guac_rdp_audio_buffer) option" where
  "guac_rdp_ai_process_formats b s = do {
     (num_formats, s) \<leftarrow> read_u32 s;
     s \<leftarrow> seek 4 s;
     format \<leftarrow> accept_format (unat num_formats) s;
     Some (case format of
         Some f \<Rightarrow>
           (guac_rdp_ai_send_incoming_data @ guac_rdp_ai_send_formats [f],
            guac_rdp_audio_buffer_set_output b (sint (aif_rate f)) (uint (aif_channels f)) (uint (aif_bps f) div 8))
       | None \<Rightarrow> (guac_rdp_ai_send_incoming_data @ guac_rdp_ai_send_formats [], b))
   }"

definition guac_rdp_ai_process_open ::
  "(int \<Rightarrow> u8 list option) \<Rightarrow> guac_rdp_audio_buffer \<Rightarrow> u8 list \<Rightarrow> (ai_call list \<times> guac_rdp_audio_buffer) option" where
  "guac_rdp_ai_process_open fresh b s = do {
     (packet_frames, s) \<leftarrow> read_u32 s;
     (initial_format, s) \<leftarrow> read_u32 s;
     let (msgs, b) = guac_rdp_audio_buffer_begin fresh b (sint packet_frames) True;
     Some (guac_rdp_ai_send_formatchange initial_format @ guac_rdp_ai_send_open_reply 0 @ ai_audio_calls msgs, b)
   }"

definition guac_rdp_ai_handle_data ::
  "(int \<Rightarrow> u8 list option) \<Rightarrow> guac_rdp_audio_buffer \<Rightarrow> u8 list \<Rightarrow> (ai_call list \<times> guac_rdp_audio_buffer) option" where
  "guac_rdp_ai_handle_data fresh b s = do {
     (message_id, s) \<leftarrow> read_u8 s;
     if message_id = GUAC_RDP_MSG_SNDIN_VERSION then guac_rdp_ai_process_version b s
     else if message_id = GUAC_RDP_MSG_SNDIN_FORMATS then guac_rdp_ai_process_formats b s
     else if message_id = GUAC_RDP_MSG_SNDIN_OPEN then guac_rdp_ai_process_open fresh b s
     else Some ([], b)
   }"

definition guac_rdp_ai_close :: "guac_rdp_audio_buffer \<Rightarrow> ai_call list \<times> guac_rdp_audio_buffer" where
  "guac_rdp_ai_close b = (case guac_rdp_audio_buffer_end b of (msgs, b) \<Rightarrow> (ai_audio_calls msgs, b))"

section \<open>A session\<close>

definition wire_ok :: "guac_rdp_ai_format \<Rightarrow> bool" where
  "wire_ok f \<longleftrightarrow> length (aif_data f) = unat (aif_data_size f)"

lemma read_write_format:
  assumes "wire_ok f" shows "guac_rdp_ai_read_format (guac_rdp_ai_write_format f @ rest) = Some (f, rest)"
proof -
  have d: "(if aif_data_size f \<noteq> 0 then take (unat (aif_data_size f)) (aif_data f) else []) = aif_data f"
    using assms by (auto simp: wire_ok_def)
  have w: "unat (aif_data_size f) = length (aif_data f)" using assms by (simp add: wire_ok_def)
  show ?thesis
    unfolding guac_rdp_ai_read_format_def guac_rdp_ai_write_format_def d by (simp add: w)
qed

lemma accept_first:
  assumes "\<forall>g \<in> set skipped. wire_ok g \<and> aif_tag g \<noteq> GUAC_RDP_WAVE_FORMAT_PCM" and "wire_ok f" and "aif_tag f = GUAC_RDP_WAVE_FORMAT_PCM"
  shows "accept_format (length skipped + Suc n) (concat (map guac_rdp_ai_write_format skipped) @ guac_rdp_ai_write_format f @ rest)
    = Some (Some f)"
  using assms(1) by (induction skipped) (simp_all add: read_write_format assms(2,3))

definition formats_pdu :: "u32 \<Rightarrow> guac_rdp_ai_format list \<Rightarrow> u8 list" where
  "formats_pdu packet_size formats = GUAC_RDP_MSG_SNDIN_FORMATS # write_u32 (of_nat (length formats)) @ write_u32 packet_size
     @ concat (map guac_rdp_ai_write_format formats)"

definition open_pdu :: "u32 \<Rightarrow> u32 \<Rightarrow> u8 list" where
  "open_pdu packet_frames initial_format = GUAC_RDP_MSG_SNDIN_OPEN # write_u32 packet_frames @ write_u32 initial_format"

lemma message_ids:
  "GUAC_RDP_MSG_SNDIN_VERSION \<noteq> GUAC_RDP_MSG_SNDIN_FORMATS" "GUAC_RDP_MSG_SNDIN_VERSION \<noteq> GUAC_RDP_MSG_SNDIN_OPEN"
  "GUAC_RDP_MSG_SNDIN_FORMATS \<noteq> GUAC_RDP_MSG_SNDIN_OPEN"
  by (simp_all add: GUAC_RDP_MSG_SNDIN_VERSION_def GUAC_RDP_MSG_SNDIN_FORMATS_def GUAC_RDP_MSG_SNDIN_OPEN_def)

lemma formats_accepted:
  assumes "\<forall>g \<in> set skipped. wire_ok g \<and> aif_tag g \<noteq> GUAC_RDP_WAVE_FORMAT_PCM" and "wire_ok f" and "aif_tag f = GUAC_RDP_WAVE_FORMAT_PCM"
    and "length (skipped @ f # others) < 2 ^ 32"
  shows "guac_rdp_ai_handle_data fresh b (formats_pdu packet_size (skipped @ f # others)) =
    Some (guac_rdp_ai_send_incoming_data @ guac_rdp_ai_send_formats [f],
          guac_rdp_audio_buffer_set_output b (sint (aif_rate f)) (uint (aif_channels f)) (uint (aif_bps f) div 8))"
proof -
  define fs where "fs = skipped @ f # others"
  have n: "unat (of_nat (length fs) :: u32) = length skipped + Suc (length others)"
    using assms(4) by (simp add: fs_def [symmetric] unsigned_of_nat take_bit_nat_eq_self) (simp add: fs_def)
  have s: "seek 4 (write_u32 packet_size @ rest) = Some rest" for rest using seek_append [of "write_u32 packet_size" rest] by simp
  have "accept_format (length skipped + Suc (length others)) (concat (map guac_rdp_ai_write_format fs)) = Some (Some f)"
    using accept_first [OF assms(1-3), of "length others" "concat (map guac_rdp_ai_write_format others)"] by (simp add: fs_def)
  then show ?thesis
    using message_ids n unfolding fs_def [symmetric]
    by (simp add: guac_rdp_ai_handle_data_def formats_pdu_def guac_rdp_ai_process_formats_def s del: accept_format.simps)
qed

text \<open>A user opens an audio stream, the server agrees on a format and opens the channel, the user sends blobs.\<close>

definition ai_session ::
  "(int \<Rightarrow> int \<Rightarrow> int \<Rightarrow> int) \<Rightarrow> (int \<Rightarrow> u8 list option) \<Rightarrow> nat \<Rightarrow> nat \<Rightarrow> int \<Rightarrow> char list \<Rightarrow> u8 list \<Rightarrow> u8 list \<Rightarrow> u8 list list \<Rightarrow>
   (ai_call list \<times> audio_call list \<times> guac_rdp_audio_buffer) option" where
  "ai_session scale fresh long_bits user stream mimetype formats opening blobs = do {
     let (m1, b) = guac_rdp_audio_handler long_bits False guac_rdp_audio_buffer_alloc user stream mimetype;
     (m2, b) \<leftarrow> guac_rdp_ai_handle_data fresh b formats;
     (m3, b) \<leftarrow> guac_rdp_ai_handle_data fresh b opening;
     r \<leftarrow> write_blobs scale b blobs;
     (case r of Inl bad \<Rightarrow> None | Inr (m4, b) \<Rightarrow> Some (ai_audio_calls m1 @ m2 @ m3, m4, b))
   }"


section \<open>The theorem at work\<close>

definition pcm_format :: guac_rdp_ai_format where
  "pcm_format = \<lparr>aif_tag = 1, aif_channels = 2, aif_rate = 44100, aif_bytes_per_sec = 176400, aif_block_align = 4, aif_bps = 16,
     aif_data_size = 0, aif_data = []\<rparr>"

definition adpcm_format :: guac_rdp_ai_format where
  "adpcm_format = \<lparr>aif_tag = 2, aif_channels = 1, aif_rate = 22050, aif_bytes_per_sec = 22311, aif_block_align = 512, aif_bps = 4,
     aif_data_size = 2, aif_data = [0xF4, 0x07]\<rparr>"


end
