(* ===== verification/Keyboard.thy ===== *)
theory Keyboard
  imports Guac_Prelude
begin

text \<open>
  \<open>protocols/rdp/src/keyboard.c\<close>: key events of a user, by keysym, become key events of RDP, by scancode, under the
  modifiers and locks the keymap asks for.

  The two arrays of a keyboard are functions on pairs of indices; an index outside
  \<open>[0x200][0x100]\<close> is \<open>None\<close>. The events sent to RDP are recorded in order; \<open>connected\<close> tells whether there is
  an RDP instance. The keymaps are generated from tables when the program is built: a keymap is any list of mappings.
  \<open>send_event\<close> and \<open>send_events\<close> call each other, which a keymap may make endless: they take fuel, and \<open>None\<close> is
  also that the fuel is used up.
\<close>

section \<open>Keymaps\<close>

record guac_rdp_keysym_desc =
  kd_keysym :: int
  kd_scancode :: int
  kd_flags :: int
  kd_set_keysyms :: "int list option"
  kd_clear_keysyms :: "int list option"
  kd_set_locks :: int
  kd_clear_locks :: int

datatype guac_rdp_keymap = Keymap (km_parent: "guac_rdp_keymap option") (km_name: "char list") (km_mapping: "guac_rdp_keysym_desc list")

definition GUAC_RDP_KEYSYM_STORABLE :: "int \<Rightarrow> bool" where
  "GUAC_RDP_KEYSYM_STORABLE keysym \<longleftrightarrow> keysym \<le> 0xFFFF \<or> (keysym mod 2 ^ 32) AND 0xFFFF0000 = 0x01000000"

definition GUAC_RDP_KEYSYM_LOOKUP :: "int \<Rightarrow> (int \<times> int) option" where
  "GUAC_RDP_KEYSYM_LOOKUP keysym =
     (let row = drop_bit 8 (keysym AND 0xFF00) OR drop_bit 16 keysym; column = keysym AND 0xFF in
      if 0 \<le> row \<and> row < 0x200 \<and> 0 \<le> column \<and> column < 0x100 then Some (row, column) else None)"

record guac_rdp_keyboard =
  kb_lock_flags :: int
  kb_synchronized :: bool
  kb_keymap :: "int \<times> int \<Rightarrow> guac_rdp_keysym_desc"
  kb_keysym_state :: "int \<times> int \<Rightarrow> int"

text \<open>The mappings are stored one by one, those of the parent first.\<close>

fun load_mapping :: "guac_rdp_keysym_desc list \<Rightarrow> guac_rdp_keyboard \<Rightarrow> guac_rdp_keyboard option" where
  "load_mapping [] kb = Some kb"
| "load_mapping (d # ds) kb =
     (case GUAC_RDP_KEYSYM_LOOKUP (kd_keysym d) of None \<Rightarrow> None
      | Some i \<Rightarrow> load_mapping ds (kb\<lparr>kb_keymap := (kb_keymap kb)(i := d)\<rparr>))"

fun load_keymap :: "guac_rdp_keymap \<Rightarrow> guac_rdp_keyboard \<Rightarrow> guac_rdp_keyboard option" where
  "load_keymap (Keymap None name mapping) kb = load_mapping mapping kb"
| "load_keymap (Keymap (Some p) name mapping) kb =
     (case load_keymap p kb of None \<Rightarrow> None | Some kb \<Rightarrow> load_mapping mapping kb)"

definition guac_rdp_keyboard_alloc :: "guac_rdp_keymap option \<Rightarrow> guac_rdp_keyboard option" where
  "guac_rdp_keyboard_alloc keymap =
     (let kb = \<lparr>kb_lock_flags = 0, kb_synchronized = False,
                kb_keymap = (\<lambda>i. \<lparr>kd_keysym = 0, kd_scancode = 0, kd_flags = 0, kd_set_keysyms = None,
                   kd_clear_keysyms = None, kd_set_locks = 0, kd_clear_locks = 0\<rparr>),
                kb_keysym_state = (\<lambda>i. 0)\<rparr> in
      case keymap of None \<Rightarrow> Some kb | Some m \<Rightarrow> load_keymap m kb)"

definition guac_rdp_keymap_find :: "guac_rdp_keymap list \<Rightarrow> char list \<Rightarrow> guac_rdp_keymap option" where
  "guac_rdp_keymap_find keymaps name = find (\<lambda>m. km_name m = name) keymaps"

text \<open>The strings of keysyms the keymaps name, less the 0 that ends each.\<close>

definition GUAC_KEYSYMS_SHIFT :: "int list" where "GUAC_KEYSYMS_SHIFT = [0xFFE1]"
definition GUAC_KEYSYMS_ALL_SHIFT :: "int list" where "GUAC_KEYSYMS_ALL_SHIFT = [0xFFE1, 0xFFE2]"
definition GUAC_KEYSYMS_ALTGR :: "int list" where "GUAC_KEYSYMS_ALTGR = [0xFFEA]"
definition GUAC_KEYSYMS_SHIFT_ALTGR :: "int list" where "GUAC_KEYSYMS_SHIFT_ALTGR = [0xFFE1, 0xFFEA]"
definition GUAC_KEYSYMS_ALL_SHIFT_ALTGR :: "int list" where "GUAC_KEYSYMS_ALL_SHIFT_ALTGR = [0xFFE1, 0xFFE2, 0xFFEA]"
definition GUAC_KEYSYMS_CTRL :: "int list" where "GUAC_KEYSYMS_CTRL = [0xFFE3]"
definition GUAC_KEYSYMS_ALL_CTRL :: "int list" where "GUAC_KEYSYMS_ALL_CTRL = [0xFFE3, 0xFFE4]"
definition GUAC_KEYSYMS_ALT :: "int list" where "GUAC_KEYSYMS_ALT = [0xFFE9]"
definition GUAC_KEYSYMS_ALL_ALT :: "int list" where "GUAC_KEYSYMS_ALL_ALT = [0xFFE9, 0xFFEA]"
definition GUAC_KEYSYMS_CTRL_ALT :: "int list" where "GUAC_KEYSYMS_CTRL_ALT = [0xFFE3, 0xFFE9]"
definition GUAC_KEYSYMS_ALL_MODIFIERS :: "int list" where "GUAC_KEYSYMS_ALL_MODIFIERS = [0xFFE1, 0xFFE2, 0xFFE3, 0xFFE4, 0xFFE9, 0xFFEA]"

section \<open>Events\<close>

datatype rdp_event = Keyboard_Event int int | Unicode_Event int | Synchronize_Event int

definition KBD_FLAGS_DOWN :: int where "KBD_FLAGS_DOWN = 0x4000"
definition KBD_FLAGS_RELEASE :: int where "KBD_FLAGS_RELEASE = 0x8000"
definition KBD_SYNC_SCROLL_LOCK :: int where "KBD_SYNC_SCROLL_LOCK = 1"
definition KBD_SYNC_NUM_LOCK :: int where "KBD_SYNC_NUM_LOCK = 2"
definition KBD_SYNC_CAPS_LOCK :: int where "KBD_SYNC_CAPS_LOCK = 4"
definition KBD_SYNC_KANA_LOCK :: int where "KBD_SYNC_KANA_LOCK = 8"

definition keyboard_lock_flag :: "int \<Rightarrow> int" where
  "keyboard_lock_flag keysym =
     (if keysym = 0xFF14 then KBD_SYNC_SCROLL_LOCK
      else if keysym = 0xFF2D then KBD_SYNC_KANA_LOCK
      else if keysym = 0xFF7F then KBD_SYNC_NUM_LOCK
      else if keysym = 0xFFE5 then KBD_SYNC_CAPS_LOCK else 0)"

definition send_key_event :: "bool \<Rightarrow> int \<Rightarrow> int \<Rightarrow> int \<Rightarrow> rdp_event list" where
  "send_key_event connected scancode flags pressed =
     (if connected
      then [Keyboard_Event (flags OR (if pressed \<noteq> 0 then KBD_FLAGS_DOWN else KBD_FLAGS_RELEASE)) scancode] else [])"

definition send_unicode_event :: "bool \<Rightarrow> int \<Rightarrow> rdp_event list" where
  "send_unicode_event connected codepoint = (if connected then [Unicode_Event codepoint] else [])"

definition send_synchronize_event :: "bool \<Rightarrow> int \<Rightarrow> rdp_event list" where
  "send_synchronize_event connected flags = (if connected then [Synchronize_Event flags] else [])"

definition guac_rdp_keyboard_update_locks ::
  "bool \<Rightarrow> guac_rdp_keyboard \<Rightarrow> int \<Rightarrow> int \<Rightarrow> rdp_event list \<times> guac_rdp_keyboard" where
  "guac_rdp_keyboard_update_locks connected kb set_flags clear_flags =
     (let lock_flags = (kb_lock_flags kb OR set_flags) AND NOT clear_flags in
      if lock_flags \<noteq> kb_lock_flags kb
      then (send_synchronize_event connected lock_flags, kb\<lparr>kb_lock_flags := lock_flags\<rparr>) else ([], kb))"

text \<open>A character without a key in the keymap.\<close>

definition send_as_unicode :: "bool \<Rightarrow> int \<Rightarrow> int \<Rightarrow> rdp_event list" where
  "send_as_unicode connected keysym pressed =
     (if pressed \<noteq> 0 then
        (if keysym \<le> 0xFF then send_unicode_event connected keysym
         else if keysym \<ge> 0x1000000 then send_unicode_event connected (keysym AND 0xFFFFFF) else [])
      else [])"

text \<open>The four calls of \<open>send_events\<close> around the key: none when there is no list.\<close>

fun guac_rdp_keyboard_send_event ::
    "bool \<Rightarrow> nat \<Rightarrow> guac_rdp_keyboard \<Rightarrow> int \<Rightarrow> int \<Rightarrow> (rdp_event list \<times> guac_rdp_keyboard) option"
  and guac_rdp_keyboard_send_events ::
    "bool \<Rightarrow> nat \<Rightarrow> guac_rdp_keyboard \<Rightarrow> int list \<Rightarrow> int \<Rightarrow> int \<Rightarrow> (rdp_event list \<times> guac_rdp_keyboard) option" where
  "guac_rdp_keyboard_send_event connected 0 kb keysym pressed = None"
| "guac_rdp_keyboard_send_event connected (Suc fuel) kb keysym pressed =
     (if \<not> GUAC_RDP_KEYSYM_STORABLE keysym then Some (send_as_unicode connected keysym pressed, kb)
      else case GUAC_RDP_KEYSYM_LOOKUP keysym of None \<Rightarrow> None
      | Some i \<Rightarrow>
          (let d = kb_keymap kb i in
           if kd_scancode d = 0 then Some (send_as_unicode connected keysym pressed, kb)
           else
             (case guac_rdp_keyboard_update_locks connected kb (kd_set_locks d) (kd_clear_locks d) of (e0, kb0) \<Rightarrow>
              case guac_rdp_keyboard_send_events connected fuel kb0 (case kd_set_keysyms d of None \<Rightarrow> [] | Some s \<Rightarrow> s) 0 1 of
                None \<Rightarrow> None
              | Some (e1, kb1) \<Rightarrow>
              case guac_rdp_keyboard_send_events connected fuel kb1 (case kd_clear_keysyms d of None \<Rightarrow> [] | Some s \<Rightarrow> s) 1 0 of
                None \<Rightarrow> None
              | Some (e2, kb2) \<Rightarrow>
              case guac_rdp_keyboard_send_events connected fuel kb2 (case kd_set_keysyms d of None \<Rightarrow> [] | Some s \<Rightarrow> s) 0 0 of
                None \<Rightarrow> None
              | Some (e3, kb3) \<Rightarrow>
              case guac_rdp_keyboard_send_events connected fuel kb3 (case kd_clear_keysyms d of None \<Rightarrow> [] | Some s \<Rightarrow> s) 1 1 of
                None \<Rightarrow> None
              | Some (e4, kb4) \<Rightarrow>
                  Some (e0 @ e1 @ e2 @ send_key_event connected (kd_scancode d) (kd_flags d) pressed @ e3 @ e4, kb4))))"
| "guac_rdp_keyboard_send_events connected fuel kb [] fr to = Some ([], kb)"
| "guac_rdp_keyboard_send_events connected fuel kb (keysym # keysyms) fr to =
     (case GUAC_RDP_KEYSYM_LOOKUP keysym of None \<Rightarrow> None
      | Some i \<Rightarrow>
          (case (if kb_keysym_state kb i = fr then guac_rdp_keyboard_send_event connected fuel kb keysym to else Some ([], kb)) of
             None \<Rightarrow> None
           | Some (e, kb) \<Rightarrow>
               (case guac_rdp_keyboard_send_events connected fuel kb keysyms fr to of None \<Rightarrow> None
                | Some (es, kb) \<Rightarrow> Some (e @ es, kb))))"

definition guac_rdp_keyboard_update_keysym ::
  "bool \<Rightarrow> nat \<Rightarrow> guac_rdp_keyboard \<Rightarrow> int \<Rightarrow> int \<Rightarrow> (rdp_event list \<times> guac_rdp_keyboard) option" where
  "guac_rdp_keyboard_update_keysym connected fuel kb keysym pressed =
     (let (e, kb) = (if \<not> kb_synchronized kb
                     then (send_synchronize_event connected (kb_lock_flags kb), kb\<lparr>kb_synchronized := True\<rparr>) else ([], kb));
          kb = (if pressed \<noteq> 0 then kb\<lparr>kb_lock_flags := kb_lock_flags kb XOR keyboard_lock_flag keysym\<rparr> else kb) in
      case (if GUAC_RDP_KEYSYM_STORABLE keysym
            then (case GUAC_RDP_KEYSYM_LOOKUP keysym of None \<Rightarrow> None
                  | Some i \<Rightarrow> Some (kb\<lparr>kb_keysym_state := (kb_keysym_state kb)(i := pressed)\<rparr>))
            else Some kb) of
        None \<Rightarrow> None
      | Some kb \<Rightarrow> map_option (\<lambda>(es, kb). (e @ es, kb)) (guac_rdp_keyboard_send_event connected fuel kb keysym pressed))"

section \<open>The keyboard of the server\<close>

text \<open>The keys the server takes for pressed, by extended flag and scancode, and its locks.\<close>

record rdp_remote =
  rr_down :: "(int \<times> int) set"
  rr_locks :: int

fun apply_event :: "rdp_event \<Rightarrow> rdp_remote \<Rightarrow> rdp_remote" where
  "apply_event (Keyboard_Event flags scancode) R =
     (let key = (flags AND 0x100, scancode) in
      R\<lparr>rr_down := (if flags AND KBD_FLAGS_RELEASE \<noteq> 0 then rr_down R - {key} else insert key (rr_down R))\<rparr>)"
| "apply_event (Unicode_Event codepoint) R = R"
| "apply_event (Synchronize_Event flags) R = R\<lparr>rr_locks := flags\<rparr>"

definition apply_events :: "rdp_event list \<Rightarrow> rdp_remote \<Rightarrow> rdp_remote" where
  "apply_events es R = fold apply_event es R"

lemma apply_events_simps [simp]:
  "apply_events [] R = R" "apply_events (e # es) R = apply_events es (apply_event e R)"
  "apply_events (xs @ ys) R = apply_events ys (apply_events xs R)"
  by (simp_all add: apply_events_def)

definition entry :: "guac_rdp_keyboard \<Rightarrow> int \<Rightarrow> guac_rdp_keysym_desc" where
  "entry kb k = kb_keymap kb (the (GUAC_RDP_KEYSYM_LOOKUP k))"

definition key_state :: "guac_rdp_keyboard \<Rightarrow> int \<Rightarrow> int" where
  "key_state kb k = kb_keysym_state kb (the (GUAC_RDP_KEYSYM_LOOKUP k))"

definition key_of :: "guac_rdp_keyboard \<Rightarrow> int \<Rightarrow> int \<times> int" where
  "key_of kb k = (kd_flags (entry kb k) AND 0x100, kd_scancode (entry kb k))"

definition needs :: "guac_rdp_keysym_desc \<Rightarrow> int list" where
  "needs d = (case kd_set_keysyms d of None \<Rightarrow> [] | Some s \<Rightarrow> s)"

definition excludes :: "guac_rdp_keysym_desc \<Rightarrow> int list" where
  "excludes d = (case kd_clear_keysyms d of None \<Rightarrow> [] | Some s \<Rightarrow> s)"

text \<open>
  Keymaps as the tables give them: the modifiers \<open>M\<close> need nothing and have keys that no other keysym has, and the
  lists of the other keysyms name modifiers only.
\<close>

definition keymap_ok :: "int set \<Rightarrow> guac_rdp_keyboard \<Rightarrow> bool" where
  "keymap_ok M kb \<longleftrightarrow>
     (\<forall>m \<in> M. 0 \<le> m \<and> m < 2 ^ 31 \<and> GUAC_RDP_KEYSYM_STORABLE m \<and> kd_scancode (entry kb m) \<noteq> 0
        \<and> needs (entry kb m) = [] \<and> excludes (entry kb m) = []
        \<and> kd_set_locks (entry kb m) = 0 \<and> kd_clear_locks (entry kb m) = 0)
   \<and> (\<forall>i. kd_scancode (kb_keymap kb i) \<noteq> 0 \<longrightarrow>
        kd_flags (kb_keymap kb i) AND KBD_FLAGS_RELEASE = 0
        \<and> set (needs (kb_keymap kb i)) \<union> set (excludes (kb_keymap kb i)) \<subseteq> M
        \<and> set (needs (kb_keymap kb i)) \<inter> set (excludes (kb_keymap kb i)) = {}
        \<and> (\<forall>m \<in> M. (kd_flags (kb_keymap kb i) AND 0x100, kd_scancode (kb_keymap kb i)) = key_of kb m
              \<longrightarrow> GUAC_RDP_KEYSYM_LOOKUP m = Some i))"

definition in_step :: "int set \<Rightarrow> rdp_remote \<Rightarrow> guac_rdp_keyboard \<Rightarrow> bool" where
  "in_step M R kb \<longleftrightarrow> (\<forall>m \<in> M. key_state kb m \<in> {0, 1} \<and> (key_of kb m \<in> rr_down R \<longleftrightarrow> key_state kb m = 1))"

text \<open>The indices of the arrays: in range, and different for different keysyms.\<close>

lemma and_byte: "(x :: int) AND 0xFF = x mod 256"
proof -
  have m: "mask 8 = (0xFF :: int)" by (simp add: mask_eq_exp_minus_1)
  show ?thesis using take_bit_eq_mask [of 8 x] by (simp only: m take_bit_eq_mod) simp
qed

lemma and_word: "(x :: int) AND 0xFFFF = x mod 65536"
proof -
  have m: "mask 16 = (0xFFFF :: int)" by (simp add: mask_eq_exp_minus_1)
  show ?thesis using take_bit_eq_mask [of 16 x] by (simp only: m take_bit_eq_mod) simp
qed

lemma lookup_low:
  assumes "0 \<le> k" and "k \<le> 0xFFFF"
  shows "GUAC_RDP_KEYSYM_LOOKUP k = Some (k div 256, k mod 256)"
proof -
  have "drop_bit 8 (k AND 0xFF00) = drop_bit 8 k AND 0xFF" by (simp add: drop_bit_and)
  also have "\<dots> = k div 256" using assms by (simp add: and_byte drop_bit_eq_div)
  finally have "drop_bit 8 (k AND 0xFF00) = k div 256" .
  moreover have "drop_bit 16 k = 0" using assms by (simp add: drop_bit_eq_div)
  ultimately show ?thesis using assms by (auto simp: GUAC_RDP_KEYSYM_LOOKUP_def Let_def and_byte)
qed

lemma storable_cases:
  assumes "GUAC_RDP_KEYSYM_STORABLE k" and "0 \<le> k" and "k < 2 ^ 31"
  obtains "k \<le> 0xFFFF" | c where "k = 0x1000000 + c" "0 \<le> c" "c \<le> 0xFFFF"
proof (cases "k \<le> 0xFFFF")
  case False
  have "k mod 2 ^ 32 = k" using assms(2,3) by simp
  then have "k AND 0xFFFF0000 = 0x01000000" using assms(1) False by (simp add: GUAC_RDP_KEYSYM_STORABLE_def)
  then have "drop_bit 16 (k AND 0xFFFF0000) = drop_bit 16 0x01000000" by simp
  then have "drop_bit 16 k AND 0xFFFF = 0x100" by (simp add: drop_bit_and)
  then have "(k div 65536) mod 65536 = 256" by (simp add: and_word drop_bit_eq_div)
  then have "k div 65536 = 256" using assms(2,3) by simp
  then have "k = 0x1000000 + k mod 65536" using div_mult_mod_eq [of k 65536] by simp
  then show ?thesis using that(2) [of "k mod 65536"] pos_mod_bound [of 65536 k] by simp
qed (use that in blast)

lemma lookup_high:
  assumes "0 \<le> c" and "c \<le> 0xFFFF"
  shows "GUAC_RDP_KEYSYM_LOOKUP (0x1000000 + c) = Some (256 + c div 256, c mod 256)"
proof -
  let ?k = "0x1000000 + c"
  have "drop_bit 8 (?k AND 0xFF00) = drop_bit 8 ?k AND 0xFF" by (simp add: drop_bit_and)
  also have "\<dots> = (?k div 256) mod 256" by (simp add: and_byte drop_bit_eq_div)
  also have "?k div 256 = 0x10000 + c div 256" using div_mult_self4 [of 256 "0x10000" c] by simp
  also have "(0x10000 + c div 256) mod 256 = c div 256" using assms by (simp add: mod_add_eq [symmetric])
  finally have lo: "drop_bit 8 (?k AND 0xFF00) = c div 256" .
  have hi: "drop_bit 16 ?k = 256" using assms by (simp add: drop_bit_eq_div)
  have "c div 256 OR 256 = c div 256 + 256"
  proof -
    have "c div 256 AND 256 = 0"
    proof (rule bit_eqI)
      fix n
      have "c div 256 = take_bit 8 (c div 256)" using assms by (simp add: take_bit_int_eq_self)
      then have "\<not> bit (c div 256) 8" by (metis bit_take_bit_iff less_irrefl)
      moreover have "bit (256 :: int) n \<longleftrightarrow> n = 8" using bit_exp_iff [of 8 n, where ?'a = int] by simp
      ultimately show "bit (c div 256 AND 256) n \<longleftrightarrow> bit (0 :: int) n" by (auto simp: bit_and_iff)
    qed
    then show ?thesis by (simp add: disjunctive_add_eq_or)
  qed
  moreover have "?k AND 0xFF = c mod 256" by (simp add: and_byte mod_add_eq [symmetric])
  moreover have "c div 256 < 256" using assms by simp
  ultimately show ?thesis using assms lo hi by (simp add: GUAC_RDP_KEYSYM_LOOKUP_def Let_def)
qed

lemma lookup_value:
  assumes "GUAC_RDP_KEYSYM_STORABLE k" and "0 \<le> k" and "k < 2 ^ 31"
  shows "\<exists>r b. GUAC_RDP_KEYSYM_LOOKUP k = Some (r, b) \<and> k = (if r < 256 then 256 * r + b else 0xFF0000 + 256 * r + b)"
  using assms
proof (rule storable_cases)
  assume "k \<le> 0xFFFF"
  moreover from this have "k div 256 < 256" by simp
  moreover have "k = 256 * (k div 256) + k mod 256" by (rule mult_div_mod_eq [symmetric])
  ultimately show ?thesis using lookup_low [OF assms(2)] by metis
next
  fix c assume c: "k = 0x1000000 + c" "0 \<le> c" "c \<le> 0xFFFF"
  have e: "c = 256 * (c div 256) + c mod 256" by (rule mult_div_mod_eq [symmetric])
  have ge: "\<not> 256 + c div 256 < 256" using c(2) by (simp add: pos_imp_zdiv_nonneg_iff)
  have "k = 0xFF0000 + 256 * (256 + q) + b" if "c = 256 * q + b" for q b using c(1) that by simp
  from this [OF e] have "k = 0xFF0000 + 256 * (256 + c div 256) + c mod 256" .
  then show ?thesis using lookup_high [OF c(2,3)] ge c(1) by (metis (no_types))
qed

lemma lookup_inj:
  assumes "GUAC_RDP_KEYSYM_STORABLE k" "0 \<le> k" "k < 2 ^ 31"
    and "GUAC_RDP_KEYSYM_STORABLE m" "0 \<le> m" "m < 2 ^ 31"
    and eq: "GUAC_RDP_KEYSYM_LOOKUP k = GUAC_RDP_KEYSYM_LOOKUP m"
  shows "k = m"
proof -
  obtain r b where "GUAC_RDP_KEYSYM_LOOKUP k = Some (r, b)" "k = (if r < 256 then 256 * r + b else 0xFF0000 + 256 * r + b)"
    using lookup_value [OF assms(1-3)] by blast
  moreover obtain q a where "GUAC_RDP_KEYSYM_LOOKUP m = Some (q, a)" "m = (if q < 256 then 256 * q + a else 0xFF0000 + 256 * q + a)"
    using lookup_value [OF assms(4-6)] by blast
  ultimately show ?thesis using eq by (metis option.inject prod.inject)
qed

text \<open>A modifier is one key event, and a list of modifiers one event for each that is in the state asked for.\<close>

definition modifier_event :: "bool \<Rightarrow> guac_rdp_keyboard \<Rightarrow> int \<Rightarrow> int \<Rightarrow> rdp_event list" where
  "modifier_event connected kb m p = send_key_event connected (kd_scancode (entry kb m)) (kd_flags (entry kb m)) p"

definition switch :: "bool \<Rightarrow> guac_rdp_keyboard \<Rightarrow> int list \<Rightarrow> int \<Rightarrow> int \<Rightarrow> rdp_event list" where
  "switch connected kb ms fr to = concat (map (\<lambda>m. if key_state kb m = fr then modifier_event connected kb m to else []) ms)"

lemma keymap_okD:
  assumes "keymap_ok M kb" and "m \<in> M"
  shows "0 \<le> m" "m < 2 ^ 31" "GUAC_RDP_KEYSYM_STORABLE m" "kd_scancode (entry kb m) \<noteq> 0"
    "needs (entry kb m) = []" "excludes (entry kb m) = []" "kd_set_locks (entry kb m) = 0" "kd_clear_locks (entry kb m) = 0"
    "\<exists>i. GUAC_RDP_KEYSYM_LOOKUP m = Some i"
proof -
  show a: "0 \<le> m" "m < 2 ^ 31" "GUAC_RDP_KEYSYM_STORABLE m" "kd_scancode (entry kb m) \<noteq> 0"
    "needs (entry kb m) = []" "excludes (entry kb m) = []" "kd_set_locks (entry kb m) = 0" "kd_clear_locks (entry kb m) = 0"
    using assms by (auto simp: keymap_ok_def)
  show "\<exists>i. GUAC_RDP_KEYSYM_LOOKUP m = Some i" using lookup_value [OF a(3,1,2)] by blast
qed

lemma keymap_ok_desc:
  assumes "keymap_ok M kb" and "kd_scancode (kb_keymap kb i) \<noteq> 0"
  shows "kd_flags (kb_keymap kb i) AND KBD_FLAGS_RELEASE = 0"
    "set (needs (kb_keymap kb i)) \<subseteq> M" "set (excludes (kb_keymap kb i)) \<subseteq> M"
    "set (needs (kb_keymap kb i)) \<inter> set (excludes (kb_keymap kb i)) = {}"
    "m \<in> M \<Longrightarrow> (kd_flags (kb_keymap kb i) AND 0x100, kd_scancode (kb_keymap kb i)) = key_of kb m
       \<Longrightarrow> GUAC_RDP_KEYSYM_LOOKUP m = Some i"
  using assms unfolding keymap_ok_def by (meson Un_subset_iff)+

lemma update_locks_eq:
  "guac_rdp_keyboard_update_locks connected kb s c =
     (if (kb_lock_flags kb OR s) AND NOT c \<noteq> kb_lock_flags kb
      then send_synchronize_event connected ((kb_lock_flags kb OR s) AND NOT c) else [],
      kb\<lparr>kb_lock_flags := (kb_lock_flags kb OR s) AND NOT c\<rparr>)"
  by (cases kb) (simp add: guac_rdp_keyboard_update_locks_def Let_def)

lemma update_locks_none [simp]: "guac_rdp_keyboard_update_locks connected kb 0 0 = ([], kb)"
  by (simp add: guac_rdp_keyboard_update_locks_def)

lemma send_modifier:
  assumes "keymap_ok M kb" and "m \<in> M"
  shows "guac_rdp_keyboard_send_event connected (Suc fuel) kb m p = Some (modifier_event connected kb m p, kb)"
proof -
  obtain i where i: "GUAC_RDP_KEYSYM_LOOKUP m = Some i" using keymap_okD(9) [OF assms] by blast
  then have "entry kb m = kb_keymap kb i" by (simp add: entry_def)
  then show ?thesis using i keymap_okD(3-8) [OF assms] by (simp add: modifier_event_def needs_def excludes_def Let_def)
qed

lemma send_modifiers:
  assumes "keymap_ok M kb" and "set ms \<subseteq> M"
  shows "guac_rdp_keyboard_send_events connected (Suc fuel) kb ms fr to = Some (switch connected kb ms fr to, kb)"
  using assms(2)
proof (induction ms)
  case (Cons m ms)
  then have m: "m \<in> M" by simp
  obtain i where i: "GUAC_RDP_KEYSYM_LOOKUP m = Some i" using keymap_okD(9) [OF assms(1) m] by blast
  then have "key_state kb m = kb_keysym_state kb i" by (simp add: key_state_def)
  then show ?case using Cons i send_modifier [OF assms(1) m] by (simp add: switch_def)
qed (simp add: switch_def)

lemma keymap_ok_locks [simp]: "keymap_ok M (kb\<lparr>kb_lock_flags := l\<rparr>) = keymap_ok M kb"
  by (simp add: keymap_ok_def entry_def key_of_def)

lemma send_mapped:
  assumes "keymap_ok M kb" and "GUAC_RDP_KEYSYM_STORABLE k" and i: "GUAC_RDP_KEYSYM_LOOKUP k = Some i"
    and "kd_scancode (entry kb k) \<noteq> 0"
  shows "guac_rdp_keyboard_send_event connected (Suc (Suc fuel)) kb k p =
    (case guac_rdp_keyboard_update_locks connected kb (kd_set_locks (entry kb k)) (kd_clear_locks (entry kb k)) of (e0, kb') \<Rightarrow>
       Some (e0 @ switch connected kb (needs (entry kb k)) 0 1 @ switch connected kb (excludes (entry kb k)) 1 0
             @ modifier_event connected kb k p
             @ switch connected kb (needs (entry kb k)) 0 0 @ switch connected kb (excludes (entry kb k)) 1 1, kb'))"
proof -
  let ?d = "entry kb k"
  have d: "?d = kb_keymap kb i" using i by (simp add: entry_def)
  have "set (needs ?d) \<subseteq> M" "set (excludes ?d) \<subseteq> M"
    using keymap_ok_desc(2,3) [OF assms(1), of i] assms(4) by (simp_all add: d)
  moreover obtain e0 l where "guac_rdp_keyboard_update_locks connected kb (kd_set_locks ?d) (kd_clear_locks ?d)
      = (e0, kb\<lparr>kb_lock_flags := l\<rparr>)"
    using update_locks_eq by blast
  moreover have "keymap_ok M (kb\<lparr>kb_lock_flags := l\<rparr>)" using assms(1) by simp
  moreover have "switch connected (kb\<lparr>kb_lock_flags := l\<rparr>) = switch connected kb"
    by (intro ext) (simp add: switch_def modifier_event_def key_state_def entry_def cong: if_cong)
  ultimately show ?thesis using assms(2,4) i
    by (simp add: d send_modifiers modifier_event_def Let_def flip: needs_def excludes_def)
qed


subsection \<open>What the server makes of the events\<close>

lemma flags_or:
  assumes "flags AND KBD_FLAGS_RELEASE = 0"
  shows "(flags OR KBD_FLAGS_DOWN) AND KBD_FLAGS_RELEASE = 0" "(flags OR KBD_FLAGS_RELEASE) AND KBD_FLAGS_RELEASE \<noteq> 0"
    "(flags OR KBD_FLAGS_DOWN) AND 0x100 = flags AND 0x100" "(flags OR KBD_FLAGS_RELEASE) AND 0x100 = flags AND 0x100"
  using assms by (simp_all add: bit.conj_disj_distrib2 KBD_FLAGS_DOWN_def KBD_FLAGS_RELEASE_def)

lemma apply_modifier_event:
  assumes "kd_flags (entry kb k) AND KBD_FLAGS_RELEASE = 0"
  shows "apply_events (modifier_event True kb k p) R
       = R\<lparr>rr_down := (if p \<noteq> 0 then insert (key_of kb k) (rr_down R) else rr_down R - {key_of kb k})\<rparr>"
  using flags_or [OF assms] by (simp add: modifier_event_def send_key_event_def key_of_def)

lemma switch_Cons:
  "switch c kb (m # ms) fr to = (if key_state kb m = fr then modifier_event c kb m to else []) @ switch c kb ms fr to"
  by (simp add: switch_def)

lemma apply_switch:
  assumes "keymap_ok M kb" and "set ms \<subseteq> M"
  shows "apply_events (switch True kb ms fr to) R
       = R\<lparr>rr_down := (if to \<noteq> 0 then rr_down R \<union> key_of kb ` {m \<in> set ms. key_state kb m = fr}
                      else rr_down R - key_of kb ` {m \<in> set ms. key_state kb m = fr})\<rparr>"
  using assms(2)
proof (induction ms arbitrary: R)
  case (Cons m ms)
  have "kd_flags (entry kb m) AND KBD_FLAGS_RELEASE = 0"
    using Cons.prems keymap_ok_desc(1) [OF assms(1)] keymap_okD(4) [OF assms(1)] by (simp add: entry_def)
  moreover have "{x \<in> set (m # ms). key_state kb x = fr}
      = (if key_state kb m = fr then insert m {x \<in> set ms. key_state kb x = fr} else {x \<in> set ms. key_state kb x = fr})"
    by auto
  ultimately show ?case using Cons apply_modifier_event [of kb m to]
    by (auto simp: switch_Cons intro!: arg_cong [where f = "\<lambda>d. R\<lparr>rr_down := d\<rparr>"])
qed (simp add: switch_def)

lemma key_of_inj:
  assumes "keymap_ok M kb" shows "inj_on (key_of kb) M"
proof (rule inj_onI)
  fix m k assume m: "m \<in> M" "k \<in> M" "key_of kb m = key_of kb k"
  note d = keymap_okD [OF assms]
  obtain i where i: "GUAC_RDP_KEYSYM_LOOKUP m = Some i" using d(9) m(1) by blast
  then have "GUAC_RDP_KEYSYM_LOOKUP k = Some i"
    using keymap_ok_desc(5) [OF assms, of i k] d(4) m by (simp add: entry_def key_of_def)
  then show "m = k" using i lookup_inj d m by metis
qed


text \<open>
  The whole of an event for a mapped key: before the key, what it needs is down and what it excludes is up; after it
  the modifiers are as before, but for the key itself.
\<close>

lemma wrapped_key:
  fixes kb :: guac_rdp_keyboard and k p :: int
  assumes ok: "keymap_ok M kb" and k: "0 \<le> k" "k < 2 ^ 31" "GUAC_RDP_KEYSYM_STORABLE k" "kd_scancode (entry kb k) \<noteq> 0"
    and sync: "\<forall>m \<in> M. m \<noteq> k \<longrightarrow> key_state kb m \<in> {0, 1} \<and> (key_of kb m \<in> rr_down R \<longleftrightarrow> key_state kb m = 1)"
    and own: "key_state kb k = p" "p \<in> {0, 1}"
  defines "N \<equiv> needs (entry kb k)" and "E \<equiv> excludes (entry kb k)"
  defines "pre \<equiv> switch True kb N 0 1 @ switch True kb E 1 0" and "post \<equiv> switch True kb N 0 0 @ switch True kb E 1 1"
  shows "\<forall>m \<in> set N. key_of kb m \<in> rr_down (apply_events pre R)"
    and "\<forall>m \<in> set E. key_of kb m \<notin> rr_down (apply_events pre R)"
    and "rr_locks (apply_events pre R) = rr_locks R"
    and "in_step M (apply_events (pre @ modifier_event True kb k p @ post) R) kb"
proof -
  let ?K = "key_of kb"
  let ?N = "{m \<in> set N. key_state kb m = 0}" and ?E = "{m \<in> set E. key_state kb m = 1}"
  obtain i where i: "GUAC_RDP_KEYSYM_LOOKUP k = Some i" using lookup_value [OF k(3,1,2)] by blast
  then have d: "entry kb k = kb_keymap kb i" by (simp add: entry_def)
  note desc = keymap_ok_desc [OF ok, of i, folded d, OF k(4)]
  have sub: "set N \<subseteq> M" "set E \<subseteq> M" and dis: "set N \<inter> set E = {}" and rel: "kd_flags (entry kb k) AND KBD_FLAGS_RELEASE = 0"
    using desc(1-4) by (simp_all add: N_def E_def)
  have kM: "k = m" if "m \<in> M" "?K k = ?K m" for m
    using desc(5) [OF that(1)] that i lookup_inj k keymap_okD(1-3) [OF ok that(1)] by (metis key_of_def)
  have alone: "N = [] \<and> E = []" if "k \<in> M" using keymap_okD(5,6) [OF ok that] by (simp add: N_def E_def)
  have inj: "?K m = ?K n \<longleftrightarrow> m = n" if "m \<in> M" "n \<in> M" for m n
    using key_of_inj [OF ok] that by (simp add: inj_on_eq_iff)
  have img: "?K m \<in> ?K ` S \<longleftrightarrow> m \<in> S" if "m \<in> M" "S \<subseteq> M" for m S
    using key_of_inj [OF ok] that by (rule inj_on_image_mem_iff)
  have subs: "?N \<subseteq> M" "?E \<subseteq> M" using sub by auto
  have pre: "apply_events pre R = R\<lparr>rr_down := rr_down R \<union> ?K ` ?N - ?K ` ?E\<rparr>"
    by (simp add: pre_def apply_switch [OF ok sub(1)] apply_switch [OF ok sub(2)])
  have down: "?K m \<in> rr_down (apply_events pre R) \<longleftrightarrow> (?K m \<in> rr_down R \<or> m \<in> ?N) \<and> m \<notin> ?E" if "m \<in> M" for m
    using img that subs by (simp add: pre)
  have ne: "m \<noteq> k" if "m \<in> set N \<union> set E" for m using that alone sub by auto
  show "\<forall>m \<in> set N. ?K m \<in> rr_down (apply_events pre R)"
  proof
    fix m assume m: "m \<in> set N"
    then show "?K m \<in> rr_down (apply_events pre R)" using down [of m] sync sub dis ne [of m] by auto
  qed
  show "\<forall>m \<in> set E. ?K m \<notin> rr_down (apply_events pre R)"
  proof
    fix m assume m: "m \<in> set E"
    then show "?K m \<notin> rr_down (apply_events pre R)" using down [of m] sync sub dis ne [of m] by auto
  qed
  show "rr_locks (apply_events pre R) = rr_locks R" by (simp add: pre)
  let ?F = "apply_events (pre @ modifier_event True kb k p @ post) R"
  have F: "rr_down ?F = (if p \<noteq> 0 then insert (?K k) (rr_down (apply_events pre R)) else rr_down (apply_events pre R) - {?K k})
      - ?K ` ?N \<union> ?K ` ?E"
    by (simp add: post_def apply_switch [OF ok sub(1)] apply_switch [OF ok sub(2)] apply_modifier_event [OF rel])
  show "in_step M ?F kb"
    unfolding in_step_def
  proof
    fix m assume m: "m \<in> M"
    show "key_state kb m \<in> {0, 1} \<and> (?K m \<in> rr_down ?F \<longleftrightarrow> key_state kb m = 1)"
    proof (cases "m = k")
      case True
      then have "N = []" "E = []" using alone m by auto
      then show ?thesis using own True unfolding F by auto
    next
      case False
      then have "?K m \<noteq> ?K k" using kM [OF m] by metis
      then have "?K m \<in> rr_down ?F \<longleftrightarrow> (((?K m \<in> rr_down R \<or> m \<in> ?N) \<and> m \<notin> ?E) \<and> m \<notin> ?N) \<or> m \<in> ?E"
        using img [OF m] subs down [OF m] unfolding F by simp
      then show ?thesis using sync m False by auto
    qed
  qed
qed


subsection \<open>Keys of the user\<close>

definition synced :: "guac_rdp_keyboard \<Rightarrow> int \<Rightarrow> int \<Rightarrow> guac_rdp_keyboard" where
  "synced kb k p = kb\<lparr>kb_synchronized := True,
     kb_lock_flags := (if p \<noteq> 0 then kb_lock_flags kb XOR keyboard_lock_flag k else kb_lock_flags kb),
     kb_keysym_state := (if GUAC_RDP_KEYSYM_STORABLE k
        then (kb_keysym_state kb)(the (GUAC_RDP_KEYSYM_LOOKUP k) := p) else kb_keysym_state kb)\<rparr>"

lemma update_keysym_synced:
  assumes "0 \<le> k" "k < 2 ^ 31"
  shows "guac_rdp_keyboard_update_keysym c fuel kb k p =
    map_option (\<lambda>(es, kb'). ((if kb_synchronized kb then [] else send_synchronize_event c (kb_lock_flags kb)) @ es, kb'))
      (guac_rdp_keyboard_send_event c fuel (synced kb k p) k p)"
proof (cases "GUAC_RDP_KEYSYM_STORABLE k")
  case True
  then obtain i where "GUAC_RDP_KEYSYM_LOOKUP k = Some i" using lookup_value assms by blast
  then show ?thesis using True by (cases kb) (auto simp: guac_rdp_keyboard_update_keysym_def synced_def Let_def)
next
  case False
  then show ?thesis by (cases kb) (auto simp: guac_rdp_keyboard_update_keysym_def synced_def Let_def)
qed

lemma synced_simps [simp]:
  "entry (synced kb k p) = entry kb" "key_of (synced kb k p) = key_of kb" "keymap_ok M (synced kb k p) = keymap_ok M kb"
  "kb_keymap (synced kb k p) = kb_keymap kb"
  by (auto simp: synced_def entry_def key_of_def keymap_ok_def fun_eq_iff)

lemma key_state_synced:
  assumes "0 \<le> m" "m < 2 ^ 31" "GUAC_RDP_KEYSYM_STORABLE m" and "0 \<le> k" "k < 2 ^ 31"
  shows "key_state (synced kb k p) m = (if m = k then p else key_state kb m)"
proof (cases "GUAC_RDP_KEYSYM_STORABLE k")
  case True
  obtain i j where "GUAC_RDP_KEYSYM_LOOKUP m = Some i" "GUAC_RDP_KEYSYM_LOOKUP k = Some j"
    using lookup_value assms True by blast
  then show ?thesis using True lookup_inj [OF assms(3,1,2) True assms(4,5)] by (auto simp: key_state_def synced_def)
next
  case False
  then show ?thesis using assms(3) by (auto simp: key_state_def synced_def)
qed

lemma in_step_locks [simp]:
  "in_step M (R\<lparr>rr_locks := l\<rparr>) kb = in_step M R kb" "in_step M R (kb\<lparr>kb_lock_flags := l\<rparr>) = in_step M R kb"
  by (auto simp: in_step_def key_of_def entry_def key_state_def)

lemma apply_synchronize [simp]: "apply_events (send_synchronize_event True l) R = R\<lparr>rr_locks := l\<rparr>"
  by (simp add: send_synchronize_event_def)


lemma mapped_key_events:
  fixes c fuel p
  assumes ok: "keymap_ok M kb" and k: "0 \<le> k" "k < 2 ^ 31" "GUAC_RDP_KEYSYM_STORABLE k" "kd_scancode (entry kb k) \<noteq> 0"
  defines "kb1 \<equiv> synced kb k p" and "d \<equiv> entry kb k"
  defines "l \<equiv> (kb_lock_flags kb1 OR kd_set_locks d) AND NOT (kd_clear_locks d)"
  shows "guac_rdp_keyboard_update_keysym c (Suc (Suc fuel)) kb k p = Some (
    ((if kb_synchronized kb then [] else send_synchronize_event c (kb_lock_flags kb))
     @ (if l \<noteq> kb_lock_flags kb1 then send_synchronize_event c l else [])
     @ switch c kb1 (needs d) 0 1 @ switch c kb1 (excludes d) 1 0) @ modifier_event c kb1 k p
    @ switch c kb1 (needs d) 0 0 @ switch c kb1 (excludes d) 1 1, kb1\<lparr>kb_lock_flags := l\<rparr>)"
proof -
  obtain i where i: "GUAC_RDP_KEYSYM_LOOKUP k = Some i" using lookup_value [OF k(3,1,2)] by blast
  have "keymap_ok M kb1" "kd_scancode (entry kb1 k) \<noteq> 0" using ok k(4) by (simp_all add: kb1_def)
  from send_mapped [OF this(1) k(3) i this(2), of c fuel p] show ?thesis
    by (simp add: update_keysym_synced [OF k(1,2)] update_locks_eq kb1_def d_def l_def)
qed

lemma key_sent_steps:
  assumes ok: "keymap_ok M kb" and step: "in_step M R kb" and p: "p \<in> {0, 1}"
    and k: "0 \<le> k" "k < 2 ^ 31" "GUAC_RDP_KEYSYM_STORABLE k" "kd_scancode (entry kb k) \<noteq> 0"
  shows "\<exists>pre post kb'. guac_rdp_keyboard_update_keysym True (Suc (Suc fuel)) kb k p =
      Some (pre @ [Keyboard_Event (kd_flags (entry kb k) OR (if p = 1 then KBD_FLAGS_DOWN else KBD_FLAGS_RELEASE))
                     (kd_scancode (entry kb k))] @ post, kb')
    \<and> (\<forall>m \<in> set (needs (entry kb k)). key_of kb m \<in> rr_down (apply_events pre R))
    \<and> (\<forall>m \<in> set (excludes (entry kb k)). key_of kb m \<notin> rr_down (apply_events pre R))
    \<and> (keyboard_lock_flag k = 0 \<and> (kb_synchronized kb \<longrightarrow> rr_locks R = kb_lock_flags kb)
        \<longrightarrow> rr_locks (apply_events pre R) = (kb_lock_flags kb OR kd_set_locks (entry kb k)) AND NOT (kd_clear_locks (entry kb k))
          \<and> kb_lock_flags kb' = rr_locks (apply_events pre R))
    \<and> in_step M (apply_events (pre @ [Keyboard_Event (kd_flags (entry kb k) OR (if p = 1 then KBD_FLAGS_DOWN else KBD_FLAGS_RELEASE))
                     (kd_scancode (entry kb k))] @ post) R) kb'"
proof -
  define kb1 where "kb1 = synced kb k p"
  define d where "d = entry kb k"
  define l where "l = (kb_lock_flags kb1 OR kd_set_locks d) AND NOT (kd_clear_locks d)"
  define sync where "sync = (if kb_synchronized kb then [] else send_synchronize_event True (kb_lock_flags kb))
     @ (if l \<noteq> kb_lock_flags kb1 then send_synchronize_event True l else [])"
  define R1 where "R1 = apply_events sync R"
  obtain l' where R1: "R1 = R\<lparr>rr_locks := l'\<rparr>" and
    l': "l' = (if l \<noteq> kb_lock_flags kb1 then l else if kb_synchronized kb then rr_locks R else kb_lock_flags kb)"
    by (cases R) (auto simp: R1_def sync_def)
  have st: "key_state kb1 m = (if m = k then p else key_state kb m)" if "m \<in> M \<or> m = k" for m
    using that key_state_synced keymap_okD(1-3) [OF ok] k by (auto simp: kb1_def)
  have ok1: "keymap_ok M kb1" and k1: "kd_scancode (entry kb1 k) \<noteq> 0" using ok k by (simp_all add: kb1_def)
  have "\<forall>m \<in> M. m \<noteq> k \<longrightarrow> key_state kb1 m \<in> {0, 1} \<and> (key_of kb1 m \<in> rr_down R1 \<longleftrightarrow> key_state kb1 m = 1)"
    using step by (simp add: st in_step_def R1) (simp add: kb1_def)
  note w = wrapped_key [OF ok1 k(1-3) k1 this _ p]
  have e: "entry kb1 k = d" "key_of kb1 = key_of kb" by (simp_all add: kb1_def d_def)
  have ev: "modifier_event True kb1 k p
      = [Keyboard_Event (kd_flags d OR (if p = 1 then KBD_FLAGS_DOWN else KBD_FLAGS_RELEASE)) (kd_scancode d)]"
    using p by (auto simp: modifier_event_def send_key_event_def e)
  have locks: "keyboard_lock_flag k = 0 \<and> (kb_synchronized kb \<longrightarrow> rr_locks R = kb_lock_flags kb) \<Longrightarrow>
      l = (kb_lock_flags kb OR kd_set_locks d) AND NOT (kd_clear_locks d) \<and> l' = l"
    by (auto simp: l_def l' kb1_def synced_def)
  have "key_state kb1 k = p" by (simp add: st)
  note w = w [OF this, unfolded e ev]
  let ?key = "Keyboard_Event (kd_flags d OR (if p = 1 then KBD_FLAGS_DOWN else KBD_FLAGS_RELEASE)) (kd_scancode d)"
  define pre where "pre = switch True kb1 (needs d) 0 1 @ switch True kb1 (excludes d) 1 0"
  define post where "post = switch True kb1 (needs d) 0 0 @ switch True kb1 (excludes d) 1 1"
  have app: "apply_events (sync @ es) R = apply_events es R1" for es by (simp add: R1_def)
  have "guac_rdp_keyboard_update_keysym True (Suc (Suc fuel)) kb k p
      = Some ((sync @ pre) @ [?key] @ post, kb1\<lparr>kb_lock_flags := l\<rparr>)"
    using mapped_key_events [OF ok k, of True fuel p] by (simp add: ev l_def pre_def post_def sync_def flip: kb1_def d_def)
  moreover have "\<forall>m \<in> set (needs d). key_of kb m \<in> rr_down (apply_events (sync @ pre) R)"
    "\<forall>m \<in> set (excludes d). key_of kb m \<notin> rr_down (apply_events (sync @ pre) R)"
    using w(1,2) by (simp_all only: app pre_def)
  moreover have "rr_locks (apply_events (sync @ pre) R) = l'" using w(3) by (simp only: app pre_def) (simp add: R1)
  then have "keyboard_lock_flag k = 0 \<and> (kb_synchronized kb \<longrightarrow> rr_locks R = kb_lock_flags kb) \<longrightarrow>
      rr_locks (apply_events (sync @ pre) R) = (kb_lock_flags kb OR kd_set_locks d) AND NOT (kd_clear_locks d)
      \<and> kb_lock_flags (kb1\<lparr>kb_lock_flags := l\<rparr>) = rr_locks (apply_events (sync @ pre) R)"
    using locks by simp
  moreover have "apply_events ((sync @ pre) @ [?key] @ post) R = apply_events (pre @ [?key] @ post) R1"
    by (simp only: app append_assoc)
  then have "in_step M (apply_events ((sync @ pre) @ [?key] @ post) R) (kb1\<lparr>kb_lock_flags := l\<rparr>)"
    using w(4) by (simp only: pre_def post_def append_assoc in_step_locks)
  ultimately show ?thesis unfolding d_def [symmetric] by blast
qed


lemma update_keysym_in_step:
  assumes ok: "keymap_ok M kb" and step: "in_step M R kb" and p: "p \<in> {0, 1}" and k: "0 \<le> k" "k < 2 ^ 31"
  shows "\<exists>es kb'. guac_rdp_keyboard_update_keysym True (Suc (Suc fuel)) kb k p = Some (es, kb')
    \<and> in_step M (apply_events es R) kb' \<and> kb_keymap kb' = kb_keymap kb"
proof (cases "GUAC_RDP_KEYSYM_STORABLE k \<and> kd_scancode (entry kb k) \<noteq> 0")
  case True
  then have "\<exists>es kb'. guac_rdp_keyboard_update_keysym True (Suc (Suc fuel)) kb k p = Some (es, kb')
    \<and> in_step M (apply_events es R) kb'"
    using key_sent_steps [OF ok step p k] by blast
  moreover have "kb_keymap kb' = kb_keymap kb"
    if "guac_rdp_keyboard_update_keysym True (Suc (Suc fuel)) kb k p = Some (es, kb')" for es kb'
    using that mapped_key_events [OF ok k, of True fuel p] True by auto
  ultimately show ?thesis by blast
next
  case False
  define sync where "sync = (if kb_synchronized kb then [] else send_synchronize_event True (kb_lock_flags kb))"
  have "guac_rdp_keyboard_send_event True (Suc (Suc fuel)) (synced kb k p) k p = Some (send_as_unicode True k p, synced kb k p)"
  proof (cases "GUAC_RDP_KEYSYM_STORABLE k")
    case True
    then obtain i where i: "GUAC_RDP_KEYSYM_LOOKUP k = Some i" using lookup_value k by blast
    then have "kd_scancode (kb_keymap kb i) = 0" using True False by (simp add: entry_def)
    then show ?thesis using True i by (simp add: Let_def)
  qed simp
  then have run: "guac_rdp_keyboard_update_keysym True (Suc (Suc fuel)) kb k p = Some (sync @ send_as_unicode True k p, synced kb k p)"
    by (simp add: update_keysym_synced [OF k] sync_def)
  have "m \<noteq> k" if "m \<in> M" for m using keymap_okD(3,4) [OF ok that] False by auto
  then have "key_state (synced kb k p) m = key_state kb m" if "m \<in> M" for m
    using that key_state_synced [OF keymap_okD(1-3) [OF ok that] k] by simp
  moreover have "rr_down (apply_events (sync @ send_as_unicode True k p) R) = rr_down R"
    by (simp add: sync_def send_as_unicode_def send_unicode_event_def)
  ultimately have "in_step M (apply_events (sync @ send_as_unicode True k p) R) (synced kb k p)"
    using step by (simp add: in_step_def)
  then show ?thesis using run by simp
qed

text \<open>The key instructions of a user, one after another.\<close>

fun type_keys :: "nat \<Rightarrow> guac_rdp_keyboard \<Rightarrow> (int \<times> int) list \<Rightarrow> (rdp_event list \<times> guac_rdp_keyboard) option" where
  "type_keys fuel kb [] = Some ([], kb)"
| "type_keys fuel kb ((k, p) # ks) =
     (case guac_rdp_keyboard_update_keysym True fuel kb k p of None \<Rightarrow> None
      | Some (e, kb) \<Rightarrow> map_option (\<lambda>(es, kb). (e @ es, kb)) (type_keys fuel kb ks))"

lemma keymap_ok_cong: "kb_keymap kb = kb_keymap kb' \<Longrightarrow> keymap_ok M kb = keymap_ok M kb'"
  by (simp add: keymap_ok_def entry_def key_of_def)


text \<open>C1. Negative keysyms.\<close>

theorem negative_keysym_out_of_bounds:
  assumes "keysym < 0"
  shows "GUAC_RDP_KEYSYM_STORABLE keysym \<and> guac_rdp_keyboard_update_keysym connected fuel kb keysym pressed = None"
proof -
  have s: "GUAC_RDP_KEYSYM_STORABLE keysym" using assms by (simp add: GUAC_RDP_KEYSYM_STORABLE_def)
  have "drop_bit 16 keysym < 0" using assms by (simp add: drop_bit_negative_int_iff)
  then have "GUAC_RDP_KEYSYM_LOOKUP keysym = None" by (simp add: GUAC_RDP_KEYSYM_LOOKUP_def Let_def)
  then show ?thesis
    using s by (simp add: guac_rdp_keyboard_update_keysym_def Let_def split_def)
qed



section \<open>A keymap\<close>

text \<open>Some lines of \<open>base\<close> and \<open>en-us-qwerty\<close>: the shift keys, \<open>a\<close>, \<open>A\<close> and the keypad's 0.\<close>

definition sample_keymap :: guac_rdp_keymap where
  "sample_keymap = Keymap (Some (Keymap None ''base''
      [\<lparr>kd_keysym = 0xFFE1, kd_scancode = 0x2A, kd_flags = 0, kd_set_keysyms = None, kd_clear_keysyms = None,
        kd_set_locks = 0, kd_clear_locks = 0\<rparr>,
       \<lparr>kd_keysym = 0xFFE2, kd_scancode = 0x36, kd_flags = 0, kd_set_keysyms = None, kd_clear_keysyms = None,
        kd_set_locks = 0, kd_clear_locks = 0\<rparr>,
       \<lparr>kd_keysym = 0xFFB0, kd_scancode = 0x52, kd_flags = 0, kd_set_keysyms = None,
        kd_clear_keysyms = Some GUAC_KEYSYMS_ALL_SHIFT, kd_set_locks = KBD_SYNC_NUM_LOCK, kd_clear_locks = 0\<rparr>])) ''en-us-qwerty''
      [\<lparr>kd_keysym = 0x61, kd_scancode = 0x1E, kd_flags = 0, kd_set_keysyms = None,
        kd_clear_keysyms = Some GUAC_KEYSYMS_ALL_SHIFT, kd_set_locks = 0, kd_clear_locks = 0\<rparr>,
       \<lparr>kd_keysym = 0x41, kd_scancode = 0x1E, kd_flags = 0, kd_set_keysyms = Some GUAC_KEYSYMS_SHIFT,
        kd_clear_keysyms = None, kd_set_locks = 0, kd_clear_locks = 0\<rparr>]"

definition sample_keyboard :: guac_rdp_keyboard where
  "sample_keyboard = the (guac_rdp_keyboard_alloc (Some sample_keymap))"

lemma sample_lookups:
  "GUAC_RDP_KEYSYM_LOOKUP 0xFFE1 = Some (255, 225)" "GUAC_RDP_KEYSYM_LOOKUP 0xFFE2 = Some (255, 226)"
  "GUAC_RDP_KEYSYM_LOOKUP 0xFFB0 = Some (255, 176)" "GUAC_RDP_KEYSYM_LOOKUP 0x61 = Some (0, 97)"
  "GUAC_RDP_KEYSYM_LOOKUP 0x41 = Some (0, 65)"
  by (simp_all add: lookup_low)

lemma sample_alloc: "guac_rdp_keyboard_alloc (Some sample_keymap) \<noteq> None"
  by (simp add: guac_rdp_keyboard_alloc_def sample_keymap_def sample_lookups Let_def)

lemma sample_keymap_ok: "keymap_ok {0xFFE1, 0xFFE2} sample_keyboard"
  by (auto simp: keymap_ok_def sample_keyboard_def guac_rdp_keyboard_alloc_def sample_keymap_def sample_lookups Let_def
      entry_def key_of_def needs_def excludes_def GUAC_RDP_KEYSYM_STORABLE_def GUAC_KEYSYMS_ALL_SHIFT_def GUAC_KEYSYMS_SHIFT_def
      KBD_FLAGS_RELEASE_def split: if_splits)

lemma sample_in_step: "in_step {0xFFE1, 0xFFE2} \<lparr>rr_down = {}, rr_locks = 0\<rparr> sample_keyboard"
  by (auto simp: in_step_def sample_keyboard_def guac_rdp_keyboard_alloc_def sample_keymap_def sample_lookups Let_def
      entry_def key_of_def key_state_def)



lemma negative_keysym_out_of_bounds_witness:
  "GUAC_RDP_KEYSYM_STORABLE (- 1) \<and> guac_rdp_keyboard_update_keysym True 2 sample_keyboard (- 1) 1 = None"
  using negative_keysym_out_of_bounds [of "- 1"] by simp

end
