(* ===== verification/Rdp_Stream.thy ===== *)
theory Rdp_Stream
  imports Rdp_Fs Json Clipboard
begin

text \<open>
  \<open>protocols/rdp/src/rdp_stream.c\<close> and \<open>rdp_svc.c\<close>: what a user's file, pipe and clipboard streams, and the
  streams of the shared drive's object, do to the drive, the channels and the clipboard.

  The handlers are named by \<open>rdp_handler\<close>; \<open>rdp_session\<close> is the user and the state of the client they use. \<open>rs_streams\<close>
  is the memory of the allocated \<open>guac_rdp_stream\<close>, \<open>rs_channel\<close> what goes to the RDP server. An output stream is its
  place in the user's table. \<open>None\<close> is undefined behaviour, or for the two loops also that they do not end. Log lines and
  the flushing of the socket are left out.
\<close>

section \<open>Static channels\<close>

definition GUAC_RDP_SVC_MAX_LENGTH :: nat where "GUAC_RDP_SVC_MAX_LENGTH = 7"

record guac_rdp_svc =
  svc_plugin :: bool
  svc_name :: "char list"
  output_pipe :: "int option"

definition guac_rdp_alloc_svc :: "char list \<Rightarrow> guac_rdp_svc" where
  "guac_rdp_alloc_svc name =
     \<lparr>svc_plugin = False, svc_name = take GUAC_RDP_SVC_MAX_LENGTH name, output_pipe = None\<rparr>"

definition guac_rdp_svc_send_pipe :: "guac_rdp_svc \<Rightarrow> stream_message option" where
  "guac_rdp_svc_send_pipe svc =
     map_option (\<lambda>pipe. Send_pipe pipe ''application/octet-stream'' (svc_name svc)) (output_pipe svc)"

fun guac_rdp_svc_send_pipes :: "guac_rdp_svc list \<Rightarrow> stream_message list option" where
  "guac_rdp_svc_send_pipes [] = Some []"
| "guac_rdp_svc_send_pipes (svc # svcs) =
     (case guac_rdp_svc_send_pipe svc of None \<Rightarrow> None
      | Some m \<Rightarrow> map_option (Cons m) (guac_rdp_svc_send_pipes svcs))"

definition guac_rdp_add_svc :: "guac_rdp_svc list \<Rightarrow> guac_rdp_svc \<Rightarrow> guac_rdp_svc list" where
  "guac_rdp_add_svc svcs svc = svc # svcs"

definition guac_rdp_get_svc :: "guac_rdp_svc list \<Rightarrow> char list \<Rightarrow> guac_rdp_svc option" where
  "guac_rdp_get_svc svcs name = find (\<lambda>svc. svc_name svc = name) svcs"

fun guac_rdp_remove_svc :: "guac_rdp_svc list \<Rightarrow> char list \<Rightarrow> guac_rdp_svc option \<times> guac_rdp_svc list" where
  "guac_rdp_remove_svc [] name = (None, [])"
| "guac_rdp_remove_svc (svc # svcs) name =
     (if svc_name svc = name then (Some svc, svcs)
      else case guac_rdp_remove_svc svcs name of (found, svcs) \<Rightarrow> (found, svc # svcs))"

datatype channel_call = Svc_Packet "char list" "u8 list" | Format_List "int list"

definition guac_rdp_svc_write :: "guac_rdp_svc \<Rightarrow> u8 list \<Rightarrow> channel_call list" where
  "guac_rdp_svc_write svc data = (if svc_plugin svc then [Svc_Packet (svc_name svc) data] else [])"

section \<open>The state of a stream\<close>

datatype rdp_handler = Upload_Blob | Upload_End | Svc_Blob | Clipboard_Blob | Clipboard_End | Download_Ack | Ls_Ack
  | Download_Get | Upload_Put

datatype guac_rdp_stream =
    Upload_Stream int int
  | Download_Stream int int
  | Ls_Stream int "char list" guac_common_json_state
  | Inbound_Svc_Stream guac_rdp_svc
  | Inbound_Clipboard_Stream

record ('o, 's) rdp_session =
  rs_user :: "rdp_handler guac_user"
  rs_filesystem :: "('o, 's) guac_rdp_fs option"
  rs_streams :: "guac_rdp_stream option list"
  rs_svcs :: "guac_rdp_svc list"
  rs_clipboard :: guac_common_clipboard
  rs_connected :: bool
  rs_channel :: "channel_call list"

definition DISP_FILE_OPEN :: int where "DISP_FILE_OPEN = 1"
definition DISP_FILE_OVERWRITE_IF :: int where "DISP_FILE_OVERWRITE_IF = 5"
definition FILE_ATTRIBUTE_DIRECTORY :: int where "FILE_ATTRIBUTE_DIRECTORY = 0x10"
definition GUAC_PROTOCOL_STATUS_SUCCESS :: int where "GUAC_PROTOCOL_STATUS_SUCCESS = 0"
definition GUAC_PROTOCOL_STATUS_SERVER_ERROR :: int where "GUAC_PROTOCOL_STATUS_SERVER_ERROR = 0x200"
definition GUAC_PROTOCOL_STATUS_BAD_REQUEST :: int where "GUAC_PROTOCOL_STATUS_BAD_REQUEST = 0x300"
definition GUAC_PROTOCOL_STATUS_CLIENT_FORBIDDEN :: int where "GUAC_PROTOCOL_STATUS_CLIENT_FORBIDDEN = 0x303"
definition CB_FORMAT_TEXT :: int where "CB_FORMAT_TEXT = 1"
definition CB_FORMAT_UNICODETEXT :: int where "CB_FORMAT_UNICODETEXT = 13"

definition GUAC_USER_STREAM_INDEX_MIMETYPE :: "char list" where
  "GUAC_USER_STREAM_INDEX_MIMETYPE = ''application/vnd.glyptodon.guacamole.stream-index+json''"

definition tell :: "('o, 's) rdp_session \<Rightarrow> stream_message \<Rightarrow> ('o, 's) rdp_session" where
  "tell S m = S\<lparr>rs_user := send_to_user (rs_user S) (Stream_Message m)\<rparr>"

definition stream_data :: "('o, 's) rdp_session \<Rightarrow> rdp_handler guac_stream \<Rightarrow> (nat \<times> guac_rdp_stream) option" where
  "stream_data S stream =
     (case st_data stream of None \<Rightarrow> None
      | Some a \<Rightarrow> if a < length (rs_streams S) then map_option (Pair a) (rs_streams S ! a) else None)"

definition new_stream :: "guac_rdp_stream \<Rightarrow> ('o, 's) rdp_session \<Rightarrow> nat \<times> ('o, 's) rdp_session" where
  "new_stream v S = (length (rs_streams S), S\<lparr>rs_streams := rs_streams S @ [Some v]\<rparr>)"

definition set_stream :: "nat \<Rightarrow> guac_rdp_stream option \<Rightarrow> ('o, 's) rdp_session \<Rightarrow> ('o, 's) rdp_session" where
  "set_stream a v S = S\<lparr>rs_streams := (rs_streams S)[a := v]\<rparr>"

definition input_stream :: "('o, 's) rdp_session \<Rightarrow> nat \<Rightarrow> rdp_handler guac_stream" where
  "input_stream S k = u_input_streams (rs_user S) ! k"

definition set_input_stream ::
  "nat \<Rightarrow> nat \<Rightarrow> rdp_handler \<Rightarrow> rdp_handler option \<Rightarrow> ('o, 's) rdp_session \<Rightarrow> ('o, 's) rdp_session" where
  "set_input_stream k a blob end_h S =
     S\<lparr>rs_user := (rs_user S)\<lparr>u_input_streams := (u_input_streams (rs_user S))[k :=
         (input_stream S k)\<lparr>st_data := Some a, st_blob_handler := Some blob,
            st_end_handler := (case end_h of None \<Rightarrow> st_end_handler (input_stream S k) | Some h \<Rightarrow> Some h)\<rparr>]\<rparr>\<rparr>"

definition ack_input :: "('o, 's) rdp_session \<Rightarrow> nat \<Rightarrow> char list \<Rightarrow> int \<Rightarrow> ('o, 's) rdp_session" where
  "ack_input S k msg status = tell S (Send_ack (st_index (input_stream S k)) msg status)"

section \<open>Uploads\<close>

text \<open>The array has \<open>GUAC_RDP_FS_MAX_PATH\<close> bytes; \<open>i\<close> counts the characters kept.\<close>

fun upload_path_loop :: "nat \<Rightarrow> char list \<Rightarrow> char list" where
  "upload_path_loop i [] = []"
| "upload_path_loop i (c # filename) =
     (if i < GUAC_RDP_FS_MAX_PATH
      then (if c = CHR ''/'' \<or> c = CHR 0x5C then CHR ''_'' else c) # upload_path_loop (Suc i) filename else [])"

definition generate_upload_path :: "char list \<Rightarrow> char list option" where
  "generate_upload_path filename =
     (let path = CHR 0x5C # upload_path_loop 1 filename in
      if GUAC_RDP_FS_MAX_PATH < length path + 1 then None else Some path)"

text \<open>What the file and the put handler do with the path.\<close>

definition open_upload ::
  "('o, 's) fs_os \<Rightarrow> char list \<Rightarrow> ('o, 's) rdp_session \<Rightarrow> ('o, 's) guac_rdp_fs \<Rightarrow> nat \<Rightarrow> char list \<Rightarrow>
   ('o, 's) rdp_session option" where
  "open_upload os junk S fs k path =
     (case guac_rdp_fs_open os junk fs path ACCESS_GENERIC_WRITE DISP_FILE_OVERWRITE_IF 0 of None \<Rightarrow> None
      | Some (file_id, fs) \<Rightarrow>
          let S = S\<lparr>rs_filesystem := Some fs\<rparr> in
          Some (if file_id < 0 then ack_input S k ''FAIL (CANNOT OPEN)'' GUAC_PROTOCOL_STATUS_CLIENT_FORBIDDEN
                else case new_stream (Upload_Stream 0 file_id) S of (a, S) \<Rightarrow>
                  ack_input (set_input_stream k a Upload_Blob (Some Upload_End) S) k ''OK (STREAM BEGIN)''
                    GUAC_PROTOCOL_STATUS_SUCCESS))"

definition guac_rdp_upload_file_handler ::
  "('o, 's) fs_os \<Rightarrow> char list \<Rightarrow> ('o, 's) rdp_session \<Rightarrow> nat \<Rightarrow> char list \<Rightarrow> char list \<Rightarrow> ('o, 's) rdp_session option" where
  "guac_rdp_upload_file_handler os junk S k mimetype filename =
     (case rs_filesystem S of
        None \<Rightarrow> Some (ack_input S k ''FAIL (NO FS)'' GUAC_PROTOCOL_STATUS_SERVER_ERROR)
      | Some fs \<Rightarrow> (case generate_upload_path filename of None \<Rightarrow> None | Some path \<Rightarrow> open_upload os junk S fs k path))"

definition guac_rdp_upload_put_handler ::
  "('o, 's) fs_os \<Rightarrow> char list \<Rightarrow> ('o, 's) rdp_session \<Rightarrow> nat \<Rightarrow> char list \<Rightarrow> char list \<Rightarrow> ('o, 's) rdp_session option" where
  "guac_rdp_upload_put_handler os junk S k mimetype name =
     (case rs_filesystem S of
        None \<Rightarrow> Some (ack_input S k ''FAIL (NO FS)'' GUAC_PROTOCOL_STATUS_SERVER_ERROR)
      | Some fs \<Rightarrow> open_upload os junk S fs k name)"

text \<open>The loop over a blob: \<open>Inl\<close> when a write fails. The offset is that kept in the stream.\<close>

partial_function (option) upload_loop ::
  "('o, 's) fs_os \<Rightarrow> int \<Rightarrow> int \<Rightarrow> ('o, 's) guac_rdp_fs \<Rightarrow> int \<Rightarrow> u8 list \<Rightarrow>
   (int \<times> ('o, 's) guac_rdp_fs + int \<times> ('o, 's) guac_rdp_fs) option" where
  "upload_loop os uninitialised file_id fs offset buffer =
     (if buffer = [] then Some (Inr (offset, fs))
      else case guac_rdp_fs_write os uninitialised fs file_id offset buffer of (written, fs) \<Rightarrow>
        if written < 0 then Some (Inl (offset, fs))
        else upload_loop os uninitialised file_id fs (offset + written) (drop (nat written) buffer))"

definition guac_rdp_upload_blob_handler ::
  "('o, 's) fs_os \<Rightarrow> int \<Rightarrow> ('o, 's) rdp_session \<Rightarrow> nat \<Rightarrow> u8 list \<Rightarrow> ('o, 's) rdp_session option" where
  "guac_rdp_upload_blob_handler os uninitialised S k data =
     (case rs_filesystem S of
        None \<Rightarrow> Some (ack_input S k ''FAIL (NO FS)'' GUAC_PROTOCOL_STATUS_SERVER_ERROR)
      | Some fs \<Rightarrow>
          (case stream_data S (input_stream S k) of
             Some (a, Upload_Stream offset file_id) \<Rightarrow>
               (case upload_loop os uninitialised file_id fs offset data of None \<Rightarrow> None
                | Some (Inl (offset, fs)) \<Rightarrow>
                    Some (ack_input (set_stream a (Some (Upload_Stream offset file_id)) (S\<lparr>rs_filesystem := Some fs\<rparr>)) k
                      ''FAIL (BAD WRITE)'' GUAC_PROTOCOL_STATUS_CLIENT_FORBIDDEN)
                | Some (Inr (offset, fs)) \<Rightarrow>
                    Some (ack_input (set_stream a (Some (Upload_Stream offset file_id)) (S\<lparr>rs_filesystem := Some fs\<rparr>)) k
                      ''OK (DATA RECEIVED)'' GUAC_PROTOCOL_STATUS_SUCCESS))
           | _ \<Rightarrow> None))"

definition guac_rdp_upload_end_handler ::
  "('o, 's) fs_os \<Rightarrow> ('o, 's) rdp_session \<Rightarrow> nat \<Rightarrow> ('o, 's) rdp_session option" where
  "guac_rdp_upload_end_handler os S k =
     (case rs_filesystem S of
        None \<Rightarrow> Some (ack_input S k ''FAIL (NO FS)'' GUAC_PROTOCOL_STATUS_SERVER_ERROR)
      | Some fs \<Rightarrow>
          (case stream_data S (input_stream S k) of
             Some (a, Upload_Stream offset file_id) \<Rightarrow>
               (case guac_rdp_fs_close os fs file_id of None \<Rightarrow> None
                | Some fs \<Rightarrow>
                    Some (set_stream a None (ack_input (S\<lparr>rs_filesystem := Some fs\<rparr>) k ''OK (STREAM END)''
                      GUAC_PROTOCOL_STATUS_SUCCESS)))
           | _ \<Rightarrow> None))"

section \<open>Pipes and the clipboard\<close>

definition guac_rdp_svc_pipe_handler ::
  "('o, 's) rdp_session \<Rightarrow> nat \<Rightarrow> char list \<Rightarrow> char list \<Rightarrow> ('o, 's) rdp_session" where
  "guac_rdp_svc_pipe_handler S k mimetype name =
     (case guac_rdp_get_svc (rs_svcs S) name of
        None \<Rightarrow> ack_input S k ''FAIL (NO SUCH PIPE)'' GUAC_PROTOCOL_STATUS_BAD_REQUEST
      | Some svc \<Rightarrow> (case new_stream (Inbound_Svc_Stream svc) S of (a, S) \<Rightarrow> set_input_stream k a Svc_Blob None S))"

definition guac_rdp_svc_blob_handler ::
  "('o, 's) rdp_session \<Rightarrow> nat \<Rightarrow> u8 list \<Rightarrow> ('o, 's) rdp_session option" where
  "guac_rdp_svc_blob_handler S k data =
     (case stream_data S (input_stream S k) of
        Some (a, Inbound_Svc_Stream svc) \<Rightarrow>
          Some (ack_input (S\<lparr>rs_channel := rs_channel S @ guac_rdp_svc_write svc data\<rparr>) k ''OK (DATA RECEIVED)''
            GUAC_PROTOCOL_STATUS_SUCCESS)
      | _ \<Rightarrow> None)"

definition guac_rdp_clipboard_handler ::
  "('o, 's) rdp_session \<Rightarrow> nat \<Rightarrow> char list \<Rightarrow> ('o, 's) rdp_session" where
  "guac_rdp_clipboard_handler S k mimetype =
     (case new_stream Inbound_Clipboard_Stream S of (a, S) \<Rightarrow>
      let S = set_input_stream k a Clipboard_Blob (Some Clipboard_End) S in
      S\<lparr>rs_clipboard := guac_common_clipboard_reset (rs_clipboard S) mimetype\<rparr>)"

definition guac_rdp_clipboard_blob_handler ::
  "('o, 's) rdp_session \<Rightarrow> nat \<Rightarrow> u8 list \<Rightarrow> ('o, 's) rdp_session" where
  "guac_rdp_clipboard_blob_handler S k data =
     S\<lparr>rs_clipboard := guac_common_clipboard_append (rs_clipboard S) (map char_of_byte data)\<rparr>"

definition guac_rdp_clipboard_end_handler :: "('o, 's) rdp_session \<Rightarrow> nat \<Rightarrow> ('o, 's) rdp_session" where
  "guac_rdp_clipboard_end_handler S k =
     (let S = S\<lparr>rs_clipboard := guac_common_clipboard_append (rs_clipboard S) [NUL]\<rparr> in
      if rs_connected S
      then S\<lparr>rs_channel := rs_channel S @ [Format_List [CB_FORMAT_TEXT, CB_FORMAT_UNICODETEXT]]\<rparr> else S)"

section \<open>Downloads\<close>

definition output_stream :: "('o, 's) rdp_session \<Rightarrow> nat \<Rightarrow> rdp_handler guac_stream" where
  "output_stream S k = u_output_streams (rs_user S) ! k"

definition free_stream :: "('o, 's) rdp_session \<Rightarrow> nat \<Rightarrow> ('o, 's) rdp_session option" where
  "free_stream S k = map_option (\<lambda>u. S\<lparr>rs_user := u\<rparr>) (guac_user_free_stream (rs_user S) k)"

text \<open>\<open>guac_user_alloc_stream\<close> with the data and the handler stored in its result: a null result is dereferenced.\<close>

definition open_output ::
  "('o, 's) rdp_session \<Rightarrow> guac_rdp_stream \<Rightarrow> rdp_handler \<Rightarrow> (nat \<times> nat \<times> ('o, 's) rdp_session) option" where
  "open_output S v handler =
     (case new_stream v S of (a, S) \<Rightarrow>
      case guac_user_alloc_stream (rs_user S) of
        Some (Some k, u) \<Rightarrow>
          Some (k, a, S\<lparr>rs_user := u\<lparr>u_output_streams := (u_output_streams u)[k :=
            (u_output_streams u ! k)\<lparr>st_data := Some a, st_ack_handler := Some handler\<rparr>]\<rparr>\<rparr>)
      | _ \<Rightarrow> None)"

definition end_output :: "('o, 's) rdp_session \<Rightarrow> nat \<Rightarrow> nat \<Rightarrow> ('o, 's) rdp_session option" where
  "end_output S k a = map_option (set_stream a None) (free_stream (tell S (Send_end (st_index (output_stream S k)))) k)"

definition guac_rdp_download_ack_handler ::
  "('o, 's) fs_os \<Rightarrow> ('o, 's) rdp_session \<Rightarrow> nat \<Rightarrow> char list \<Rightarrow> int \<Rightarrow> ('o, 's) rdp_session option" where
  "guac_rdp_download_ack_handler os S k msg status =
     (case rs_filesystem S of
        None \<Rightarrow> Some (tell S (Send_ack (st_index (output_stream S k)) ''FAIL (NO FS)'' GUAC_PROTOCOL_STATUS_SERVER_ERROR))
      | Some fs \<Rightarrow>
          if status = GUAC_PROTOCOL_STATUS_SUCCESS then
            (case stream_data S (output_stream S k) of
               Some (a, Download_Stream file_id offset) \<Rightarrow>
                 (case guac_rdp_fs_read os fs file_id offset 4096 of (bytes_read, buffer, fs) \<Rightarrow>
                  let S = S\<lparr>rs_filesystem := Some fs\<rparr> in
                  if 0 < bytes_read
                  then Some (tell (set_stream a (Some (Download_Stream file_id (offset + bytes_read))) S)
                         (Send_blob (st_index (output_stream S k)) (take (nat bytes_read) buffer)))
                  else end_output S k a)
             | _ \<Rightarrow> None)
          else free_stream S k)"

section \<open>Directory listings\<close>

text \<open>
  One entry of the directory: written as a property of the JSON object, or skipped. \<open>Inl\<close> is the early return for a
  file id outside the table. \<open>js\<close> is the state of the writer, \<open>out\<close> what it has sent, \<open>blob\<close> the flag \<open>blob_written\<close>.
\<close>

definition ls_entry ::
  "('o, 's) fs_os \<Rightarrow> char list \<Rightarrow> char list \<Rightarrow> int \<Rightarrow> char list \<Rightarrow>
   int \<times> guac_common_json_state \<times> json_out \<times> ('o, 's) guac_rdp_fs \<Rightarrow>
   (bool \<times> int \<times> guac_common_json_state \<times> json_out \<times> ('o, 's) guac_rdp_fs) option" where
  "ls_entry os junk directory_name stream filename = (\<lambda>(blob, js, out, fs).
     if filename = ''.'' \<or> filename = ''..'' then Some (True, blob, js, out, fs)
     else case guac_rdp_fs_append_filename directory_name filename of None \<Rightarrow> None
     | Some None \<Rightarrow> Some (True, blob, js, out, fs)
     | Some (Some full_path) \<Rightarrow>
         (case guac_rdp_fs_open os junk fs full_path ACCESS_GENERIC_READ DISP_FILE_OPEN 0 of None \<Rightarrow> None
          | Some (file_id, fs) \<Rightarrow>
              if file_id < 0 then Some (True, blob, js, out, fs)
              else case guac_rdp_fs_get_file file_id of None \<Rightarrow> Some (False, blob, js, out, fs)
              | Some i \<Rightarrow>
                  (let mimetype = (if ff_attributes (fs_files fs ! i) AND FILE_ATTRIBUTE_DIRECTORY \<noteq> 0
                                   then GUAC_USER_STREAM_INDEX_MIMETYPE else ''application/octet-stream'') in
                   case guac_common_json_write_property stream js full_path mimetype of None \<Rightarrow> None
                   | Some (b, js, out') \<Rightarrow>
                       map_option (\<lambda>fs. (True, blob OR b, js, out @ out', fs)) (guac_rdp_fs_close os fs file_id))))"

datatype ls_end = Bad_File | Blob_Sent | No_More_Entries

partial_function (option) ls_loop ::
  "('o, 's) fs_os \<Rightarrow> char list \<Rightarrow> int \<Rightarrow> char list \<Rightarrow> int \<Rightarrow>
   int \<times> guac_common_json_state \<times> json_out \<times> ('o, 's) guac_rdp_fs \<Rightarrow>
   (ls_end \<times> guac_common_json_state \<times> json_out \<times> ('o, 's) guac_rdp_fs) option" where
  "ls_loop os junk file_id directory_name stream s =
     (case s of (blob, js, out, fs) \<Rightarrow>
      case guac_rdp_fs_read_dir os fs file_id of None \<Rightarrow> None
      | Some (None, fs) \<Rightarrow> Some (No_More_Entries, js, out, fs)
      | Some (Some filename, fs) \<Rightarrow>
          if blob \<noteq> 0 then Some (Blob_Sent, js, out, fs)
          else case ls_entry os junk directory_name stream filename (blob, js, out, fs) of None \<Rightarrow> None
            | Some (found, s) \<Rightarrow>
                if found then ls_loop os junk file_id directory_name stream s else Some (Bad_File, snd s))"

definition send_json :: "('o, 's) rdp_session \<Rightarrow> json_out \<Rightarrow> ('o, 's) rdp_session" where
  "send_json S out = S\<lparr>rs_user := (rs_user S)\<lparr>u_sent := u_sent (rs_user S) @ out\<rparr>\<rparr>"

definition guac_rdp_ls_ack_handler ::
  "('o, 's) fs_os \<Rightarrow> char list \<Rightarrow> ('o, 's) rdp_session \<Rightarrow> nat \<Rightarrow> char list \<Rightarrow> int \<Rightarrow> ('o, 's) rdp_session option" where
  "guac_rdp_ls_ack_handler os junk S k msg status =
     (case (stream_data S (output_stream S k), rs_filesystem S) of
        (Some (a, Ls_Stream file_id directory_name js), Some fs) \<Rightarrow>
          if status \<noteq> GUAC_PROTOCOL_STATUS_SUCCESS then
            (case guac_rdp_fs_close os fs file_id of None \<Rightarrow> None
             | Some fs \<Rightarrow> map_option (set_stream a None) (free_stream (S\<lparr>rs_filesystem := Some fs\<rparr>) k))
          else if NUL \<notin> set directory_name then None
          else
            (let stream = st_index (output_stream S k) in
             case ls_loop os junk file_id (c_string directory_name) stream (0, js, [], fs) of None \<Rightarrow> None
             | Some (end_reason, js, out, fs) \<Rightarrow>
                 let S = send_json (set_stream a (Some (Ls_Stream file_id directory_name js)) (S\<lparr>rs_filesystem := Some fs\<rparr>)) out in
                 if end_reason = No_More_Entries then
                   (case guac_common_json_end_object stream js of None \<Rightarrow> None
                    | Some (b, js, out) \<Rightarrow>
                    case guac_common_json_flush stream js of (js, out') \<Rightarrow>
                    case guac_rdp_fs_close os fs file_id of None \<Rightarrow> None
                    | Some fs \<Rightarrow> end_output (send_json (S\<lparr>rs_filesystem := Some fs\<rparr>) (out @ out')) k a)
                 else Some S)
      | _ \<Rightarrow> None)"

text \<open>\<open>junk_js\<close> and \<open>junk_name\<close> are what \<open>malloc\<close> leaves in the allocated structure.\<close>

definition guac_rdp_download_get_handler ::
  "('o, 's) fs_os \<Rightarrow> char list \<Rightarrow> bool \<Rightarrow> guac_common_json_state \<Rightarrow> char list \<Rightarrow> ('o, 's) rdp_session \<Rightarrow> nat \<Rightarrow> char list \<Rightarrow>
   ('o, 's) rdp_session option" where
  "guac_rdp_download_get_handler os junk NDEBUG junk_js junk_name S object name =
     (case rs_filesystem S of None \<Rightarrow> Some S
      | Some fs \<Rightarrow>
          (case guac_rdp_fs_open os junk fs name ACCESS_GENERIC_READ DISP_FILE_OPEN 0 of None \<Rightarrow> None
           | Some (file_id, fs) \<Rightarrow>
               let S = S\<lparr>rs_filesystem := Some fs\<rparr> in
               if file_id < 0 then Some S
               else case guac_rdp_fs_get_file file_id of None \<Rightarrow> Some S
               | Some i \<Rightarrow>
                   (let ob = ob_index (u_objects (rs_user S) ! object) in
                    if ff_attributes (fs_files fs ! i) AND FILE_ATTRIBUTE_DIRECTORY \<noteq> 0 then
                      (let directory_name = strncpy junk_name name (GUAC_RDP_FS_MAX_PATH - 1) in
                       case open_output S (Ls_Stream file_id directory_name junk_js) Ls_Ack of None \<Rightarrow> None
                       | Some (k, a, S) \<Rightarrow>
                           (let stream = st_index (output_stream S k) in
                            case guac_common_json_begin_object NDEBUG stream junk_js of None \<Rightarrow> None
                            | Some (js, out) \<Rightarrow>
                                Some (tell (send_json (set_stream a (Some (Ls_Stream file_id directory_name js)) S) out)
                                  (Send_body ob stream GUAC_USER_STREAM_INDEX_MIMETYPE name))))
                    else
                      (case open_output S (Download_Stream file_id 0) Download_Ack of None \<Rightarrow> None
                       | Some (k, a, S) \<Rightarrow>
                           Some (tell S (Send_body ob (st_index (output_stream S k)) ''application/octet-stream'' name))))))"


section \<open>The system\<close>

text \<open>
  What is used of the operating system and the file library: \<open>target\<close> is the path of a stream, \<open>content\<close> the bytes of the
  file at a path.
\<close>

definition stores_files ::
  "('o, 's) fs_os \<Rightarrow> ('o \<Rightarrow> 's \<Rightarrow> char list) \<Rightarrow> ('o \<Rightarrow> char list \<Rightarrow> u8 list) \<Rightarrow> bool" where
  "stores_files os target content \<longleftrightarrow>
     (\<forall>w p s w'. os_open os w p (ios_out OR ios_trunc) = (s, w') \<and> \<not> os_is_directory os w p \<longrightarrow>
        os_is_open os w' s \<and> target w' s = p \<and> content w' p = [])
   \<and> (\<forall>w p s w'. os_open os w p ios_in = (s, w') \<and> \<not> os_is_directory os w p \<and> os_exists os w p \<longrightarrow>
        os_is_open os w' s \<and> target w' s = p \<and> content w' p = content w p)
   \<and> (\<forall>w s d. os_is_open os w s \<longrightarrow>
        os_is_open os (os_write os w s (int (length (content w (target w s)))) d) s
        \<and> target (os_write os w s (int (length (content w (target w s)))) d) s = target w s
        \<and> content (os_write os w s (int (length (content w (target w s)))) d) (target w s) = content w (target w s) @ d)
   \<and> (\<forall>w s i n d w'. os_is_open os w s \<and> 0 \<le> i \<and> 0 \<le> n \<and> os_read os w s i n = (d, w') \<longrightarrow>
        d = take (nat n) (drop (nat i) (content w (target w s)))
        \<and> os_is_open os w' s \<and> target w' s = target w s \<and> content w' (target w s) = content w (target w s))
   \<and> (\<forall>w s p. content (os_close os w s) p = content w p)
   \<and> (\<forall>w p. \<not> os_is_directory os w p \<longrightarrow> \<not> os_is_directory os (os_create os w p) p)"

section \<open>Opening by name\<close>

definition uploaded_name :: "char list \<Rightarrow> char list" where
  "uploaded_name filename = map (\<lambda>c. if is_separator c then CHR ''_'' else c) filename"

lemma upload_path_loop_map: "upload_path_loop i f = uploaded_name (take (GUAC_RDP_FS_MAX_PATH - i) f)"
proof (induction f arbitrary: i)
  case (Cons c f)
  show ?case
  proof (cases "i < GUAC_RDP_FS_MAX_PATH")
    case True
    then have "GUAC_RDP_FS_MAX_PATH - i = Suc (GUAC_RDP_FS_MAX_PATH - Suc i)" by simp
    then show ?thesis using True Cons.IH [of "Suc i"] by (simp add: uploaded_name_def is_separator_def)
  qed (simp add: uploaded_name_def)
qed (simp add: uploaded_name_def)

lemma generate_upload_path_ok:
  "length filename \<le> 4094 \<Longrightarrow> generate_upload_path filename = Some (CHR 0x5C # uploaded_name filename)"
  by (simp add: generate_upload_path_def upload_path_loop_map GUAC_RDP_FS_MAX_PATH_def uploaded_name_def)

lemma name_normalized:
  assumes "is_separator c" and "NUL \<notin> set n" and "proper n" and "length n \<le> 4094" and "length junk = 4096"
    and "length drive + length n \<le> 4094"
  shows "guac_rdp_fs_normalize_path junk (c # n) = Some (Some (CHR 0x5C # n))"
    "guac_rdp_fs_translate_path drive (CHR 0x5C # n) = drive @ CHR ''/'' # n"
proof -
  have t: "path_text [n] = CHR 0x5C # n" by (simp add: path_text_def join_components_def)
  have p: "path_parts [] n = [n]" using path_parts_text [of "[n]"] assms(3) t by simp
  have "length (filter named (path_parts [] n)) \<le> 64" by (simp add: p)
  then show "guac_rdp_fs_normalize_path junk (c # n) = Some (Some (CHR 0x5C # n))"
    using normalize_path_ok [of n junk c] assms resolve_id [of "[n]" "[]"]
    by (simp add: p is_separator_def join_components_def)
  show "guac_rdp_fs_translate_path drive (CHR 0x5C # n) = drive @ CHR ''/'' # n"
    using translate_text [of "[n]" drive] assms by (simp add: t)
qed

lemma open_name:
  assumes "is_separator c" and "NUL \<notin> set n" and "proper n" and "length junk = 4096" and "length (drive_path fs) + length n \<le> 4094"
    and "open_files fs < 128"
  shows "guac_rdp_fs_open os junk fs (c # n) ACCESS_GENERIC_WRITE DISP_FILE_OVERWRITE_IF 0
      = open_with_id os fs (CHR 0x5C # n) (drive_path fs @ CHR ''/'' # n) (ios_out OR ios_trunc) False False True"
    "guac_rdp_fs_open os junk fs (c # n) ACCESS_GENERIC_READ DISP_FILE_OPEN 0
      = open_with_id os fs (CHR 0x5C # n) (drive_path fs @ CHR ''/'' # n) ios_in False False True"
proof -
  have f: "access_flags ACCESS_GENERIC_WRITE = ios_out" "access_flags ACCESS_GENERIC_READ = ios_in"
    by (simp_all add: access_flags_def ACCESS_GENERIC_WRITE_def ACCESS_GENERIC_READ_def ACCESS_GENERIC_ALL_def
        ACCESS_FILE_WRITE_DATA_def ACCESS_FILE_READ_DATA_def ACCESS_FILE_APPEND_DATA_def)
  have n: "guac_rdp_fs_normalize_path junk (c # n) = Some (Some (CHR 0x5C # n))"
    "guac_rdp_fs_translate_path (drive_path fs) (CHR 0x5C # n) = drive_path fs @ CHR ''/'' # n"
    using name_normalized [of c n junk "drive_path fs"] assms by simp_all
  note o = guac_rdp_fs_open_def GUAC_RDP_FS_MAX_FILES_def is_separator_def Let_def disposition_def
  show "guac_rdp_fs_open os junk fs (c # n) ACCESS_GENERIC_WRITE DISP_FILE_OVERWRITE_IF 0
      = open_with_id os fs (CHR 0x5C # n) (drive_path fs @ CHR ''/'' # n) (ios_out OR ios_trunc) False False True"
    using assms(1,6) n by (simp add: o DISP_FILE_OVERWRITE_IF_def f)
  show "guac_rdp_fs_open os junk fs (c # n) ACCESS_GENERIC_READ DISP_FILE_OPEN 0
      = open_with_id os fs (CHR 0x5C # n) (drive_path fs @ CHR ''/'' # n) ios_in False False True"
    using assms(1,6) n by (simp add: o DISP_FILE_OPEN_def f)
qed

lemma opened_stream:
  assumes "open_with_id os fs n p fl False fails c = Some (int v, fs')"
    and "open_stream os (fs_os_state fs) p fl fails c = Inr (Some s, w)" and "length (fs_files fs) = 128"
  shows "file_stream (fs_files fs' ! v) = Some s" "fs_os_state fs' = w" "v < 128" "drive_path fs' = drive_path fs"
    "ff_attributes (fs_files fs' ! v) = (if os_is_directory os w p \<and> fst (os_find_first_file os w p) \<noteq> 0 then 0x10 else 0x80)"
  using assms
  by (auto simp: open_with_id_def Let_def file_info_def split: option.splits if_splits prod.splits)

lemma room_left:
  assumes "fs_ok fs L" and "open_ids fs \<union> L \<noteq> {0..<128}"
  shows "open_files fs < 128"
proof -
  have "open_ids fs \<union> L \<subset> {0..<128}" using fs_taken_below(1) [OF assms(1)] assms(2) by blast
  then have "card (open_ids fs \<union> L) < card {0..<128::int}" by (intro psubset_card_mono) simp_all
  moreover have "card (open_ids fs) \<le> card (open_ids fs \<union> L)"
    using fs_taken_below(2) [OF assms(1)] by (intro card_mono) simp_all
  ultimately show ?thesis using assms(1) by (simp add: fs_ok_def)
qed


section \<open>Uploads are stored\<close>

lemma tell_simps [simp]:
  "rs_filesystem (tell S m) = rs_filesystem S" "input_stream (tell S m) k = input_stream S k"
  "output_stream (tell S m) k = output_stream S k" "stream_data (tell S m) st = stream_data S st"
  "rs_streams (tell S m) = rs_streams S" "u_sent (rs_user (tell S m)) = u_sent (rs_user S) @ [Stream_Message m]"
  "u_input_streams (rs_user (tell S m)) = u_input_streams (rs_user S)"
  "u_output_streams (rs_user (tell S m)) = u_output_streams (rs_user S)"
  "u_stream_pool (rs_user (tell S m)) = u_stream_pool (rs_user S)"
  by (simp_all add: tell_def send_to_user_def input_stream_def output_stream_def stream_data_def cong: if_cong option.case_cong)

lemma set_stream_simps [simp]:
  "rs_filesystem (set_stream a v S) = rs_filesystem S" "input_stream (set_stream a v S) k = input_stream S k"
  "output_stream (set_stream a v S) k = output_stream S k" "rs_user (set_stream a v S) = rs_user S"
  by (simp_all add: set_stream_def input_stream_def output_stream_def)

lemma set_filesystem_simps [simp]:
  "input_stream (S\<lparr>rs_filesystem := f\<rparr>) k = input_stream S k" "output_stream (S\<lparr>rs_filesystem := f\<rparr>) k = output_stream S k"
  "stream_data (S\<lparr>rs_filesystem := f\<rparr>) st = stream_data S st"
  by (simp_all add: input_stream_def output_stream_def stream_data_def cong: if_cong option.case_cong)

lemma stream_data_set [simp]:
  "stream_data S st = Some (a, v) \<Longrightarrow> stream_data (set_stream a (Some w) S) st = Some (a, w)"
  by (auto simp: stream_data_def set_stream_def split: option.splits if_splits)

definition uploading ::
  "('o, 's) fs_os \<Rightarrow> ('o \<Rightarrow> 's \<Rightarrow> char list) \<Rightarrow> ('o \<Rightarrow> char list \<Rightarrow> u8 list) \<Rightarrow> int set \<Rightarrow> int set \<Rightarrow> char list \<Rightarrow> nat \<Rightarrow>
   u8 list \<Rightarrow> ('o, 's) rdp_session \<Rightarrow> bool" where
  "uploading os target content L ids p k kept S \<longleftrightarrow>
     (\<exists>fs v s a. rs_filesystem S = Some fs \<and> fs_ok fs L \<and> int v \<notin> ids \<and> v < 128 \<and> open_ids fs = insert (int v) ids
        \<and> file_stream (fs_files fs ! v) = Some s \<and> os_is_open os (fs_os_state fs) s
        \<and> target (fs_os_state fs) s = p \<and> content (fs_os_state fs) p = kept
        \<and> stream_data S (input_stream S k) = Some (a, Upload_Stream (int (length kept)) (int v)))"

definition ok_ack :: "('o, 's) rdp_session \<Rightarrow> nat \<Rightarrow> char list \<Rightarrow> message" where
  "ok_ack S k msg = Stream_Message (Send_ack (st_index (input_stream S k)) msg GUAC_PROTOCOL_STATUS_SUCCESS)"

lemma ack_sent: "u_sent (rs_user (ack_input S k msg GUAC_PROTOCOL_STATUS_SUCCESS)) = u_sent (rs_user S) @ [ok_ack S k msg]"
  by (simp add: ack_input_def ok_ack_def)

lemma upload_begins:
  assumes laws: "stores_files os target content" and fs: "rs_filesystem S = Some fs" "fs_ok fs L"
    and room: "open_ids fs \<union> L \<noteq> {0..<128}" and k: "k < length (u_input_streams (rs_user S))"
    and n: "NUL \<notin> set filename" "proper (uploaded_name filename)" "length (drive_path fs) + length filename \<le> 4094"
    and junk: "length junk = 4096"
    and dir: "\<not> os_is_directory os (fs_os_state fs) (drive_path fs @ CHR ''/'' # uploaded_name filename)"
  shows "\<exists>S'. guac_rdp_upload_file_handler os junk S k mimetype filename = Some S'
    \<and> uploading os target content L (open_ids fs) (drive_path fs @ CHR ''/'' # uploaded_name filename) k [] S'
    \<and> st_index (input_stream S' k) = st_index (input_stream S k)
    \<and> u_sent (rs_user S') = u_sent (rs_user S) @ [ok_ack S k ''OK (STREAM BEGIN)'']"
proof -
  let ?n = "uploaded_name filename" and ?w = "fs_os_state fs"
  let ?p = "drive_path fs @ CHR ''/'' # ?n" and ?fl = "ios_out OR ios_trunc"
  have nn: "NUL \<notin> set ?n" "length (drive_path fs) + length ?n \<le> 4094" using n by (auto simp: uploaded_name_def)
  have o: "guac_rdp_fs_open os junk fs (CHR 0x5C # ?n) ACCESS_GENERIC_WRITE DISP_FILE_OVERWRITE_IF 0
      = open_with_id os fs (CHR 0x5C # ?n) ?p ?fl False False True"
    by (rule open_name(1) [OF _ nn(1) n(2) junk nn(2) room_left [OF fs(2) room]]) (simp add: is_separator_def)
  define w0 where "w0 = (if os_exists os ?w ?p then ?w else os_create os ?w ?p)"
  have dir0: "\<not> os_is_directory os w0 ?p" using laws dir by (simp add: stores_files_def w0_def)
  obtain s w1 where s: "os_open os w0 ?p ?fl = (s, w1)" by (cases "os_open os w0 ?p ?fl")
  have law: "os_is_open os w1 s" "target w1 s = ?p" "content w1 ?p = []"
    using laws s dir0 unfolding stores_files_def by (metis (no_types))+
  have st: "open_stream os ?w ?p ?fl False True = Inr (Some s, w1)"
    using s dir by (auto simp: open_stream_def w0_def split: if_splits)
  have len: "length (fs_files fs) = 128" using fs(2) by (simp add: fs_ok_def)
  obtain v fs' where ow: "open_with_id os fs (CHR 0x5C # ?n) ?p ?fl False False True = Some (int v, fs')"
    and v: "int v \<notin> open_ids fs \<union> L" "fs_ok fs' L" "open_ids fs' = insert (int v) (open_ids fs)"
    using fs(2)
  proof (cases rule: open_with_id_cases [where os = os and n = "CHR 0x5C # ?n" and p = ?p and fl = ?fl and d = False
        and fails = False and c = True])
    case full
    with room show ?thesis by blast
  next
    case (opened v fs')
    with that show ?thesis by blast
  qed simp
  note os' = opened_stream [OF ow st len]
  let ?S1 = "S\<lparr>rs_filesystem := Some fs', rs_streams := rs_streams S @ [Some (Upload_Stream 0 (int v))]\<rparr>"
  let ?S2 = "set_input_stream k (length (rs_streams S)) Upload_Blob (Some Upload_End) ?S1"
  have run: "guac_rdp_upload_file_handler os junk S k mimetype filename
      = Some (ack_input ?S2 k ''OK (STREAM BEGIN)'' GUAC_PROTOCOL_STATUS_SUCCESS)"
    using fs(1) n(3) o ow
    by (simp add: guac_rdp_upload_file_handler_def generate_upload_path_ok open_upload_def new_stream_def)
  have i: "st_index (input_stream ?S2 k) = st_index (input_stream S k)" "st_data (input_stream ?S2 k) = Some (length (rs_streams S))"
    "rs_filesystem ?S2 = Some fs'" "rs_streams ?S2 = rs_streams ?S1" "u_sent (rs_user ?S2) = u_sent (rs_user S)"
    using k by (simp_all add: set_input_stream_def input_stream_def)
  have "stream_data ?S2 (input_stream ?S2 k) = Some (length (rs_streams S), Upload_Stream 0 (int v))"
    using i by (simp add: stream_data_def)
  then have "uploading os target content L (open_ids fs) ?p k [] (ack_input ?S2 k ''OK (STREAM BEGIN)'' GUAC_PROTOCOL_STATUS_SUCCESS)"
    unfolding uploading_def using i(3) v law os'
    by (intro exI [of _ fs'] exI [of _ v] exI [of _ s] exI [of _ "length (rs_streams S)"]) (simp add: ack_input_def)
  with run show ?thesis using i by (auto simp: ack_sent ok_ack_def) (simp add: ack_input_def)
qed

lemma uploaded_blob:
  assumes laws: "stores_files os target content" and up: "uploading os target content L ids p k kept S"
  shows "\<exists>S'. guac_rdp_upload_blob_handler os uninitialised S k data = Some S'
    \<and> uploading os target content L ids p k (kept @ data) S'
    \<and> st_index (input_stream S' k) = st_index (input_stream S k)
    \<and> u_sent (rs_user S') = u_sent (rs_user S) @ [ok_ack S k ''OK (DATA RECEIVED)'']"
proof -
  obtain fs v s a where u: "rs_filesystem S = Some fs" "fs_ok fs L" "int v \<notin> ids" "v < 128" "open_ids fs = insert (int v) ids"
    "file_stream (fs_files fs ! v) = Some s" "os_is_open os (fs_os_state fs) s"
    "target (fs_os_state fs) s = p" "content (fs_os_state fs) p = kept"
    "stream_data S (input_stream S k) = Some (a, Upload_Stream (int (length kept)) (int v))"
    using up unfolding uploading_def by blast
  let ?off = "int (length kept)" and ?f = "fs_files fs ! v"
  have "\<exists>fs'. upload_loop os uninitialised (int v) fs ?off data = Some (Inr (?off + int (length data), fs'))
      \<and> fs_ok fs' L \<and> open_ids fs' = open_ids fs \<and> file_stream (fs_files fs' ! v) = Some s
      \<and> os_is_open os (fs_os_state fs') s \<and> target (fs_os_state fs') s = p \<and> content (fs_os_state fs') p = kept @ data"
  proof (cases "data = []")
    case True
    then show ?thesis using u by (subst upload_loop.simps) simp
  next
    case False
    define w where "w = os_write os (fs_os_state fs) s ?off data"
    define fs' where "fs' = fs\<lparr>fs_os_state := w, fs_files := (fs_files fs)[v := ?f\<lparr>bytes_written := bytes_written ?f + int (length data)\<rparr>]\<rparr>"
    have "guac_rdp_fs_write os uninitialised fs (int v) ?off data = (int (length data), fs')"
      using u by (simp add: guac_rdp_fs_write_def guac_rdp_fs_get_file_def GUAC_RDP_FS_MAX_FILES_def open_file_stream_def
          fs'_def w_def Let_def)
    then have run: "upload_loop os uninitialised (int v) fs ?off data = Some (Inr (?off + int (length data), fs'))"
      using False by (subst upload_loop.simps) (simp add: upload_loop.simps)
    have len: "length (fs_files fs) = 128" using u(2) by (simp add: fs_ok_def)
    have "real_path ?f \<noteq> None" using u(4,5) len open_ids_iff [of v fs] by auto
    then have ids: "open_ids fs' = open_ids fs"
      using open_ids_update [of fs' fs v "?f\<lparr>bytes_written := bytes_written ?f + int (length data)\<rparr>"] u(4,5) len
      by (auto simp: fs'_def)
    then have "fs_ok fs' L" using u(2) by (simp add: fs_ok_def) (simp add: fs'_def)
    moreover have "os_is_open os w s \<and> target w s = p \<and> content w p = kept @ data"
      using laws u(7-9) unfolding stores_files_def w_def by metis
    ultimately show ?thesis using run ids u(4,6) len by (auto simp: fs'_def)
  qed
  then obtain fs' where r: "upload_loop os uninitialised (int v) fs ?off data = Some (Inr (?off + int (length data), fs'))"
    "fs_ok fs' L" "open_ids fs' = open_ids fs" "file_stream (fs_files fs' ! v) = Some s"
    "os_is_open os (fs_os_state fs') s" "target (fs_os_state fs') s = p" "content (fs_os_state fs') p = kept @ data" by blast
  let ?S' = "set_stream a (Some (Upload_Stream (?off + int (length data)) (int v))) (S\<lparr>rs_filesystem := Some fs'\<rparr>)"
  have "guac_rdp_upload_blob_handler os uninitialised S k data
      = Some (ack_input ?S' k ''OK (DATA RECEIVED)'' GUAC_PROTOCOL_STATUS_SUCCESS)"
    using u(1,10) r(1) by (simp add: guac_rdp_upload_blob_handler_def)
  moreover have "uploading os target content L ids p k (kept @ data) (ack_input ?S' k ''OK (DATA RECEIVED)'' GUAC_PROTOCOL_STATUS_SUCCESS)"
    unfolding uploading_def using u r
    by (intro exI [of _ fs'] exI [of _ v] exI [of _ s] exI [of _ a]) (simp add: ack_input_def)
  ultimately show ?thesis by (auto simp: ack_sent ok_ack_def) (simp add: ack_input_def)
qed


lemma closed_file:
  "guac_rdp_fs_close os fs (int v) = Some fs' \<Longrightarrow> file_stream (fs_files fs ! v) = Some s \<Longrightarrow> os_is_open os (fs_os_state fs) s \<Longrightarrow>
     v < 128 \<Longrightarrow> fs_os_state fs' = os_close os (fs_os_state fs) s"
  by (auto simp: guac_rdp_fs_close_def guac_rdp_fs_get_file_def GUAC_RDP_FS_MAX_FILES_def open_file_stream_def Let_def)

lemma uploaded_end:
  assumes laws: "stores_files os target content" and up: "uploading os target content L ids p k kept S"
  shows "\<exists>S' fs'. guac_rdp_upload_end_handler os S k = Some S' \<and> rs_filesystem S' = Some fs' \<and> fs_ok fs' L \<and> open_ids fs' = ids
    \<and> content (fs_os_state fs') p = kept
    \<and> u_sent (rs_user S') = u_sent (rs_user S) @ [ok_ack S k ''OK (STREAM END)'']"
proof -
  obtain fs v s a where u: "rs_filesystem S = Some fs" "fs_ok fs L" "int v \<notin> ids" "v < 128" "open_ids fs = insert (int v) ids"
    "file_stream (fs_files fs ! v) = Some s" "os_is_open os (fs_os_state fs) s"
    "target (fs_os_state fs) s = p" "content (fs_os_state fs) p = kept"
    "stream_data S (input_stream S k) = Some (a, Upload_Stream (int (length kept)) (int v))"
    using up unfolding uploading_def by blast
  then obtain fs' where f: "guac_rdp_fs_close os fs (int v) = Some fs'" "fs_ok fs' L" "open_ids fs' = ids"
    using close_open_id [OF u(2), of v os] by auto
  have "content (fs_os_state fs') p = kept"
    using closed_file [OF f(1) u(6,7,4)] laws u(9) unfolding stores_files_def by metis
  moreover have "guac_rdp_upload_end_handler os S k
      = Some (set_stream a None (ack_input (S\<lparr>rs_filesystem := Some fs'\<rparr>) k ''OK (STREAM END)'' GUAC_PROTOCOL_STATUS_SUCCESS))"
    using u(1,10) f(1) by (simp add: guac_rdp_upload_end_handler_def)
  ultimately show ?thesis using f(2,3) by (simp add: ack_sent ok_ack_def) (simp add: ack_input_def)
qed

fun upload_blobs ::
  "('o, 's) fs_os \<Rightarrow> int \<Rightarrow> nat \<Rightarrow> u8 list list \<Rightarrow> ('o, 's) rdp_session \<Rightarrow> ('o, 's) rdp_session option" where
  "upload_blobs os uninitialised k [] S = Some S"
| "upload_blobs os uninitialised k (d # ds) S =
     Option.bind (guac_rdp_upload_blob_handler os uninitialised S k d) (upload_blobs os uninitialised k ds)"

definition upload ::
  "('o, 's) fs_os \<Rightarrow> char list \<Rightarrow> int \<Rightarrow> ('o, 's) rdp_session \<Rightarrow> nat \<Rightarrow> char list \<Rightarrow> char list \<Rightarrow> u8 list list \<Rightarrow>
   ('o, 's) rdp_session option" where
  "upload os junk uninitialised S k mimetype filename blobs =
     Option.bind (guac_rdp_upload_file_handler os junk S k mimetype filename)
       (\<lambda>S. Option.bind (upload_blobs os uninitialised k blobs S) (\<lambda>S. guac_rdp_upload_end_handler os S k))"

lemma uploaded_blobs:
  assumes laws: "stores_files os target content" and "uploading os target content L ids p k kept S"
  shows "\<exists>S'. upload_blobs os uninitialised k ds S = Some S'
    \<and> uploading os target content L ids p k (kept @ concat ds) S'
    \<and> st_index (input_stream S' k) = st_index (input_stream S k)
    \<and> u_sent (rs_user S') = u_sent (rs_user S) @ replicate (length ds) (ok_ack S k ''OK (DATA RECEIVED)'')"
  using assms(2)
proof (induction ds arbitrary: S kept)
  case (Cons d ds)
  obtain S1 where S1: "guac_rdp_upload_blob_handler os uninitialised S k d = Some S1"
    "uploading os target content L ids p k (kept @ d) S1" "st_index (input_stream S1 k) = st_index (input_stream S k)"
    "u_sent (rs_user S1) = u_sent (rs_user S) @ [ok_ack S k ''OK (DATA RECEIVED)'']"
    using uploaded_blob [OF laws Cons.prems] by blast
  from Cons.IH [OF S1(2)] S1(1,3,4) show ?case by (auto simp: ok_ack_def)
qed auto



section \<open>Downloads\<close>

definition downloading ::
  "('o, 's) fs_os \<Rightarrow> ('o \<Rightarrow> 's \<Rightarrow> char list) \<Rightarrow> ('o \<Rightarrow> char list \<Rightarrow> u8 list) \<Rightarrow> int set \<Rightarrow> int set \<Rightarrow> char list \<Rightarrow> nat \<Rightarrow>
   u8 list \<Rightarrow> nat \<Rightarrow> ('o, 's) rdp_session \<Rightarrow> bool" where
  "downloading os target content L ids p k file i S \<longleftrightarrow>
     (\<exists>fs v s a. rs_filesystem S = Some fs \<and> fs_ok fs L \<and> int v \<notin> ids \<and> v < 128 \<and> open_ids fs = insert (int v) ids
        \<and> file_stream (fs_files fs ! v) = Some s \<and> os_is_open os (fs_os_state fs) s
        \<and> target (fs_os_state fs) s = p \<and> content (fs_os_state fs) p = file
        \<and> stream_data S (output_stream S k) = Some (a, Download_Stream (int v) (int i)))
     \<and> user_ok (rs_user S) \<and> k < 64 \<and> output_indices (rs_user S) ! k = int k * 2"

lemma output_index: "user_ok (rs_user S) \<Longrightarrow> k < 64 \<Longrightarrow> st_index (output_stream S k) = output_indices (rs_user S) ! k"
  using user_okD(1) [of "rs_user S"] by (simp add: output_stream_def output_indices_def)

lemma tell_user [simp]:
  "user_ok (rs_user (tell S m)) = user_ok (rs_user S)" "output_indices (rs_user (tell S m)) = output_indices (rs_user S)"
  by (intro user_ok_fields; simp add: tell_def send_to_user_def)+

lemma download_read:
  assumes laws: "stores_files os target content" and fs: "fs_ok fs L" "v < 128" "file_stream (fs_files fs ! v) = Some s"
    "os_is_open os (fs_os_state fs) s" "target (fs_os_state fs) s = p" "content (fs_os_state fs) p = file"
  shows "\<exists>fs'. guac_rdp_fs_read os fs (int v) (int i) 4096
      = (int (length (take 4096 (drop i file))), take 4096 (drop i file), fs')
    \<and> fs_ok fs' L \<and> open_ids fs' = open_ids fs \<and> file_stream (fs_files fs' ! v) = Some s \<and> os_is_open os (fs_os_state fs') s
    \<and> target (fs_os_state fs') s = p \<and> content (fs_os_state fs') p = file"
proof -
  let ?w = "fs_os_state fs"
  obtain d w' where r: "os_read os ?w s (int i) 4096 = (d, w')" by (cases "os_read os ?w s (int i) 4096")
  have l: "\<forall>w s i n d w'. os_is_open os w s \<and> 0 \<le> i \<and> 0 \<le> n \<and> os_read os w s i n = (d, w') \<longrightarrow>
        d = take (nat n) (drop (nat i) (content w (target w s)))
        \<and> os_is_open os w' s \<and> target w' s = target w s \<and> content w' (target w s) = content w (target w s)"
    using laws unfolding stores_files_def by blast
  have "d = take 4096 (drop i file) \<and> os_is_open os w' s \<and> target w' s = p \<and> content w' p = file"
    using l [rule_format, of ?w s "int i" 4096 d w'] fs r by simp
  moreover have "open_ids (fs\<lparr>fs_os_state := w'\<rparr>) = open_ids fs" "fs_ok (fs\<lparr>fs_os_state := w'\<rparr>) L"
    using fs(1) open_ids_cong [of "fs\<lparr>fs_os_state := w'\<rparr>" fs] fs_ok_cong [of "fs\<lparr>fs_os_state := w'\<rparr>" fs] by simp_all
  ultimately show ?thesis using fs r
    by (intro exI [of _ "fs\<lparr>fs_os_state := w'\<rparr>"])
      (simp add: guac_rdp_fs_read_def guac_rdp_fs_get_file_def GUAC_RDP_FS_MAX_FILES_def open_file_stream_def)
qed

lemma take_blob: "take (min (length xs - i) n) (drop i xs) = take n (drop i xs)"
  by (cases "length xs - i \<le> n") (simp_all add: min_def)

lemma download_more:
  assumes laws: "stores_files os target content" and dl: "downloading os target content L ids p k file i S" and i: "i < length file"
  shows "\<exists>S'. guac_rdp_download_ack_handler os S k msg 0 = Some S'
    \<and> downloading os target content L ids p k file (i + length (take 4096 (drop i file))) S'
    \<and> output_indices (rs_user S') = output_indices (rs_user S)
    \<and> u_sent (rs_user S') = u_sent (rs_user S) @ [Stream_Message (Send_blob (int k * 2) (take 4096 (drop i file)))]"
proof -
  obtain fs v s a where u: "rs_filesystem S = Some fs" "fs_ok fs L" "int v \<notin> ids" "v < 128" "open_ids fs = insert (int v) ids"
    "file_stream (fs_files fs ! v) = Some s" "os_is_open os (fs_os_state fs) s"
    "target (fs_os_state fs) s = p" "content (fs_os_state fs) p = file"
    "stream_data S (output_stream S k) = Some (a, Download_Stream (int v) (int i))"
    and ok: "user_ok (rs_user S)" "k < 64" "output_indices (rs_user S) ! k = int k * 2"
    using dl unfolding downloading_def by blast
  let ?d = "take 4096 (drop i file)"
  obtain fs' where r: "guac_rdp_fs_read os fs (int v) (int i) 4096 = (int (length ?d), ?d, fs')"
    "fs_ok fs' L" "open_ids fs' = open_ids fs" "file_stream (fs_files fs' ! v) = Some s" "os_is_open os (fs_os_state fs') s"
    "target (fs_os_state fs') s = p" "content (fs_os_state fs') p = file"
    using download_read [OF laws u(2,4,6-9), of i] by blast
  let ?S' = "tell (set_stream a (Some (Download_Stream (int v) (int (i + length ?d)))) (S\<lparr>rs_filesystem := Some fs'\<rparr>))
      (Send_blob (int k * 2) ?d)"
  have pos: "0 < length ?d" using i by simp
  then have "guac_rdp_download_ack_handler os S k msg 0 = Some ?S'"
    using u(1,10) r(1) ok output_index [OF ok(1,2)]
    by (simp add: guac_rdp_download_ack_handler_def GUAC_PROTOCOL_STATUS_SUCCESS_def take_blob)
  moreover have "downloading os target content L ids p k file (i + length ?d) ?S'"
    unfolding downloading_def using u r ok
    by (intro conjI exI [of _ fs'] exI [of _ v] exI [of _ s] exI [of _ a]) simp_all
  ultimately show ?thesis by auto
qed

lemma download_ends:
  assumes laws: "stores_files os target content" and dl: "downloading os target content L ids p k file (length file) S"
  shows "\<exists>S' fs' v. guac_rdp_download_ack_handler os S k msg 0 = Some S' \<and> rs_filesystem S' = Some fs' \<and> fs_ok fs' L
    \<and> v \<notin> ids \<and> open_ids fs' = insert v ids
    \<and> output_indices (rs_user S') = (output_indices (rs_user S))[k := -1] \<and> user_ok (rs_user S')
    \<and> u_sent (rs_user S') = u_sent (rs_user S) @ [Stream_Message (Send_end (int k * 2))]"
proof -
  obtain fs v s a where u: "rs_filesystem S = Some fs" "fs_ok fs L" "int v \<notin> ids" "v < 128" "open_ids fs = insert (int v) ids"
    "file_stream (fs_files fs ! v) = Some s" "os_is_open os (fs_os_state fs) s"
    "target (fs_os_state fs) s = p" "content (fs_os_state fs) p = file"
    "stream_data S (output_stream S k) = Some (a, Download_Stream (int v) (int (length file)))"
    and ok: "user_ok (rs_user S)" "k < 64" "output_indices (rs_user S) ! k = int k * 2"
    using dl unfolding downloading_def by blast
  obtain fs' where r: "guac_rdp_fs_read os fs (int v) (int (length file)) 4096 = (0, [], fs')"
    "fs_ok fs' L" "open_ids fs' = open_ids fs"
    using download_read [OF laws u(2,4,6-9), of "length file"] by auto
  let ?S1 = "tell (S\<lparr>rs_filesystem := Some fs'\<rparr>) (Send_end (int k * 2))"
  have ok1: "user_ok (rs_user ?S1)" "output_indices (rs_user ?S1) ! k \<noteq> -1"
    using ok by simp_all
  obtain w where w: "guac_user_free_stream (rs_user ?S1) k = Some w" "user_ok w"
    "output_indices w = (output_indices (rs_user ?S1))[k := -1]" "u_sent w = u_sent (rs_user ?S1)"
    by (rule free_stream_ok [OF ok1(1) ok(2) ok1(2)])
  have "guac_rdp_download_ack_handler os S k msg 0 = Some (set_stream a None (?S1\<lparr>rs_user := w\<rparr>))"
    using u(1,10) r(1) w(1) ok output_index [OF ok(1,2)]
    by (simp add: guac_rdp_download_ack_handler_def GUAC_PROTOCOL_STATUS_SUCCESS_def end_output_def free_stream_def)
  then show ?thesis using u(3,5) r(2,3) w by auto
qed

primrec ack_times ::
  "('o, 's) fs_os \<Rightarrow> nat \<Rightarrow> nat \<Rightarrow> ('o, 's) rdp_session \<Rightarrow> ('o, 's) rdp_session option" where
  "ack_times os k 0 S = Some S"
| "ack_times os k (Suc n) S = Option.bind (guac_rdp_download_ack_handler os S k ''OK'' 0) (ack_times os k n)"

lemma download_rest:
  assumes laws: "stores_files os target content" and "downloading os target content L ids p k file i S" and "i \<le> length file"
  shows "\<exists>n S' fs' v blobs. ack_times os k n S = Some S' \<and> rs_filesystem S' = Some fs' \<and> fs_ok fs' L
    \<and> v \<notin> ids \<and> open_ids fs' = insert v ids
    \<and> output_indices (rs_user S') = (output_indices (rs_user S))[k := -1] \<and> user_ok (rs_user S')
    \<and> concat blobs = drop i file \<and> (\<forall>b \<in> set blobs. b \<noteq> [] \<and> length b \<le> 4096)
    \<and> u_sent (rs_user S') = u_sent (rs_user S) @ map (\<lambda>b. Stream_Message (Send_blob (int k * 2) b)) blobs
        @ [Stream_Message (Send_end (int k * 2))]"
  using assms(2,3)
proof (induction "length file - i" arbitrary: i S rule: less_induct)
  case less
  show ?case
  proof (cases "i = length file")
    case True
    obtain S' fs' v where "guac_rdp_download_ack_handler os S k ''OK'' 0 = Some S'" "rs_filesystem S' = Some fs'" "fs_ok fs' L"
      "v \<notin> ids" "open_ids fs' = insert v ids" "output_indices (rs_user S') = (output_indices (rs_user S))[k := -1]"
      "user_ok (rs_user S')" "u_sent (rs_user S') = u_sent (rs_user S) @ [Stream_Message (Send_end (int k * 2))]"
      using download_ends [OF laws] less.prems(1) True by blast
    then show ?thesis using True
      by (intro exI [of _ "Suc 0"] exI [of _ S'] exI [of _ fs'] exI [of _ v] exI [of _ "[]"]) simp
  next
    case False
    let ?d = "take 4096 (drop i file)"
    have i: "i < length file" using False less.prems(2) by simp
    obtain S1 where S1: "guac_rdp_download_ack_handler os S k ''OK'' 0 = Some S1"
      "downloading os target content L ids p k file (i + length ?d) S1"
      "output_indices (rs_user S1) = output_indices (rs_user S)"
      "u_sent (rs_user S1) = u_sent (rs_user S) @ [Stream_Message (Send_blob (int k * 2) ?d)]"
      using download_more [OF laws less.prems(1) i] by blast
    have s: "length file - (i + length ?d) < length file - i" "i + length ?d \<le> length file" using i by auto
    have dd: "drop i file = ?d @ drop (i + length ?d) file"
      using append_take_drop_id [of "length ?d" "drop i file"] by (simp add: add.commute take_blob)
    from less.hyps [OF s(1) S1(2) s(2)] obtain n S' fs' v blobs where r: "ack_times os k n S1 = Some S'"
      "rs_filesystem S' = Some fs'" "fs_ok fs' L" "v \<notin> ids" "open_ids fs' = insert v ids"
      "output_indices (rs_user S') = (output_indices (rs_user S1))[k := -1]" "user_ok (rs_user S')"
      "concat blobs = drop (i + length ?d) file" "\<forall>b \<in> set blobs. b \<noteq> [] \<and> length b \<le> 4096"
      "u_sent (rs_user S') = u_sent (rs_user S1) @ map (\<lambda>b. Stream_Message (Send_blob (int k * 2) b)) blobs
        @ [Stream_Message (Send_end (int k * 2))]" by blast
    have "concat (?d # blobs) = drop i file" using dd r(8) by simp
    then show ?thesis using r(1-7,9,10) S1(1,3,4) i
      by (intro exI [of _ "Suc n"] exI [of _ S'] exI [of _ fs'] exI [of _ v] exI [of _ "?d # blobs"]) simp
  qed
qed


lemma download_begins:
  assumes laws: "stores_files os target content" and fs: "rs_filesystem S = Some fs" "fs_ok fs L"
    and room: "open_ids fs \<union> L \<noteq> {0..<128}" and ok: "user_ok (rs_user S)" and free: "\<exists>i < 64. output_indices (rs_user S) ! i = -1"
    and n: "is_separator c" "NUL \<notin> set n" "proper n" "length (drive_path fs) + length n \<le> 4094" and junk: "length junk = 4096"
    and there: "os_exists os (fs_os_state fs) (drive_path fs @ CHR ''/'' # n)"
      "\<And>w. \<not> os_is_directory os w (drive_path fs @ CHR ''/'' # n)"
  shows "\<exists>S' k. guac_rdp_download_get_handler os junk NDEBUG junk_js junk_name S object (c # n) = Some S'
    \<and> downloading os target content L (open_ids fs) (drive_path fs @ CHR ''/'' # n) k
        (content (fs_os_state fs) (drive_path fs @ CHR ''/'' # n)) 0 S'
    \<and> output_indices (rs_user S) ! k = -1
    \<and> output_indices (rs_user S') = (output_indices (rs_user S))[k := int k * 2]
    \<and> u_sent (rs_user S') = u_sent (rs_user S) @ [Stream_Message (Send_body (ob_index (u_objects (rs_user S) ! object))
         (int k * 2) ''application/octet-stream'' (c # n))]"
proof -
  let ?w = "fs_os_state fs" and ?p = "drive_path fs @ CHR ''/'' # n"
  have o: "guac_rdp_fs_open os junk fs (c # n) ACCESS_GENERIC_READ DISP_FILE_OPEN 0
      = open_with_id os fs (CHR 0x5C # n) ?p ios_in False False True"
    by (rule open_name(2) [OF n(1-3) junk n(4) room_left [OF fs(2) room]])
  obtain s w1 where s: "os_open os ?w ?p ios_in = (s, w1)" by (cases "os_open os ?w ?p ios_in")
  have law: "os_is_open os w1 s" "target w1 s = ?p" "content w1 ?p = content ?w ?p"
    using laws s there unfolding stores_files_def by (metis (no_types))+
  have st: "open_stream os ?w ?p ios_in False True = Inr (Some s, w1)"
    using s there by (simp add: open_stream_def)
  have len: "length (fs_files fs) = 128" using fs(2) by (simp add: fs_ok_def)
  obtain v fs' where ow: "open_with_id os fs (CHR 0x5C # n) ?p ios_in False False True = Some (int v, fs')"
    and v: "int v \<notin> open_ids fs \<union> L" "fs_ok fs' L" "open_ids fs' = insert (int v) (open_ids fs)"
    using fs(2)
  proof (cases rule: open_with_id_cases [where os = os and n = "CHR 0x5C # n" and p = ?p and fl = ios_in and d = False
        and fails = False and c = True])
    case full
    with room show ?thesis by blast
  next
    case (opened v fs')
    with that show ?thesis by blast
  qed simp
  note os' = opened_stream [OF ow st len]
  have attr: "ff_attributes (fs_files fs' ! v) AND FILE_ATTRIBUTE_DIRECTORY = 0"
    using os'(5) there(2) by (simp add: FILE_ATTRIBUTE_DIRECTORY_def)
  have nfull: "\<not> (\<forall>i < 64. output_indices (rs_user S) ! i \<noteq> -1)" using free by blast
  obtain k u where k: "guac_user_alloc_stream (rs_user S) = Some (Some k, u)" "k < 64" "output_indices (rs_user S) ! k = -1"
    "output_indices u = (output_indices (rs_user S))[k := int k * 2]" "user_ok u" "u_sent u = u_sent (rs_user S)"
    by (rule alloc_stream_ok [OF ok nfull]) blast
  let ?a = "length (rs_streams S)"
  let ?u = "u\<lparr>u_output_streams := (u_output_streams u)[k := (u_output_streams u ! k)\<lparr>st_data := Some ?a, st_ack_handler := Some Download_Ack\<rparr>]\<rparr>"
  let ?S = "S\<lparr>rs_filesystem := Some fs', rs_streams := rs_streams S @ [Some (Download_Stream (int v) 0)], rs_user := ?u\<rparr>"
  have lu: "length (u_output_streams u) = 64" using user_okD(1) [OF k(5)] .
  have oi: "output_indices ?u = output_indices u"
    using k(2) lu by (simp add: output_indices_def map_update list_update_same_conv)
  moreover have "input_indices ?u = input_indices u" "object_indices ?u = object_indices u"
    by (simp_all add: input_indices_def object_indices_def)
  ultimately have uok: "user_ok ?u" using k(5) by (simp add: user_ok_def)
  have l64: "length (output_indices (rs_user S)) = 64" using user_okD(1) [OF ok] by (simp add: output_indices_def)
  have ix: "output_indices ?u ! k = int k * 2" using oi k(2,4) l64 by simp
  then have index: "st_index (output_stream ?S k) = int k * 2" using output_index [of ?S k] uok k(2) by simp
  let ?S' = "tell ?S (Send_body (ob_index (u_objects (rs_user S) ! object)) (int k * 2) ''application/octet-stream'' (c # n))"
  have "guac_rdp_download_get_handler os junk NDEBUG junk_js junk_name S object (c # n) = Some ?S'"
    using fs(1) o ow os'(3) attr k(1) index
    by (simp add: guac_rdp_download_get_handler_def guac_rdp_fs_get_file_def GUAC_RDP_FS_MAX_FILES_def open_output_def new_stream_def)
  moreover have "stream_data ?S' (output_stream ?S' k) = Some (?a, Download_Stream (int v) (int 0))"
    using k(2) lu by (simp add: output_stream_def) (simp add: stream_data_def)
  then have "downloading os target content L (open_ids fs) ?p k (content ?w ?p) 0 ?S'"
    unfolding downloading_def using v law os' uok ix k(2)
    by (intro conjI exI [of _ fs'] exI [of _ v] exI [of _ s] exI [of _ ?a]) (simp_all add: oi)
  ultimately show ?thesis using k oi by (intro exI [of _ ?S'] exI [of _ k]) simp
qed



section \<open>Listings\<close>

definition file_property :: "char list \<Rightarrow> char list \<times> char list" where
  "file_property n = (''/'' @ n, ''application/octet-stream'')"

text \<open>A name in the root of the drive that always is a file.\<close>

definition plain_file :: "('o, 's) fs_os \<Rightarrow> char list \<Rightarrow> char list \<Rightarrow> bool" where
  "plain_file os drive n \<longleftrightarrow> proper n \<and> NUL \<notin> set n \<and> length drive + length n \<le> 4094
     \<and> (\<forall>w. os_exists os w (drive @ CHR ''/'' # n) \<and> \<not> os_is_directory os w (drive @ CHR ''/'' # n))"

text \<open>What the writer has sent and holds after the properties \<open>ps\<close>.\<close>

definition listed :: "int \<Rightarrow> guac_common_json_state \<Rightarrow> (char list \<times> char list) list \<Rightarrow> guac_common_json_state \<Rightarrow> json_out \<Rightarrow> bool" where
  "listed stream js ps js' out \<longleftrightarrow> json_ok js' \<and> 0 \<le> js_properties_written js'
     \<and> js_properties_written js' = js_properties_written js + int (length ps)
     \<and> (\<exists>sent. blobs_text stream out = Some sent \<and> sent @ json_pending js' = json_pending js
          @ (if ps \<noteq> [] \<and> js_properties_written js \<noteq> 0 then '','' else []) @ json_members ps)"

lemma listed_Nil: "json_ok js \<Longrightarrow> 0 \<le> js_properties_written js \<Longrightarrow> listed stream js [] js []"
  by (simp add: listed_def)

lemma listed_Cons:
  assumes "listed stream js [p] js1 out1" and "listed stream js1 ps js2 out2" and "0 \<le> js_properties_written js"
  shows "listed stream js (p # ps) js2 (out1 @ out2)"
proof -
  obtain n v where p: "p = (n, v)" by fastforce
  show ?thesis
    using assms by (cases ps; cases "hd ps") (auto simp: listed_def p)
qed

lemma ls_entry_file:
  assumes fs: "fs_ok fs L" "open_ids fs \<union> L \<noteq> {0..<128}" "int d \<in> open_ids fs"
    and js: "json_ok js" "0 \<le> js_properties_written js" and n: "plain_file os (drive_path fs) n" and junk: "length junk = 4096"
  shows "\<exists>b js' out' fs'. ls_entry os junk ''/'' stream n (0, js, out, fs) = Some (True, b, js', out @ out', fs')
    \<and> fs_ok fs' L \<and> open_ids fs' = open_ids fs \<and> fs_files fs' ! d = fs_files fs ! d \<and> drive_path fs' = drive_path fs
    \<and> listed stream js [file_property n] js' out' \<and> (b \<noteq> 0 \<longleftrightarrow> out' \<noteq> [])"
proof -
  let ?p = "drive_path fs @ CHR ''/'' # n" and ?w = "fs_os_state fs"
  have pn: "proper n" "NUL \<notin> set n" "length (drive_path fs) + length n \<le> 4094"
    and there: "os_exists os ?w ?p" "\<And>w. \<not> os_is_directory os w ?p" using n by (auto simp: plain_file_def)
  have ln: "length n < 4095" using pn(3) by simp
  have a: "guac_rdp_fs_append_filename ''/'' n = Some (Some (CHR ''/'' # n))"
    using pn(1) ln by (simp add: guac_rdp_fs_append_filename_def proper_def is_separator_def GUAC_RDP_FS_MAX_PATH_def Let_def)
  have o: "guac_rdp_fs_open os junk fs (CHR ''/'' # n) ACCESS_GENERIC_READ DISP_FILE_OPEN 0
      = open_with_id os fs (CHR 0x5C # n) ?p ios_in False False True"
    by (rule open_name(2) [OF _ pn(2,1) junk pn(3) room_left [OF fs(1,2)]]) (simp add: is_separator_def)
  obtain s w1 where "os_open os ?w ?p ios_in = (s, w1)" by (cases "os_open os ?w ?p ios_in")
  then have st: "open_stream os ?w ?p ios_in False True = Inr (Some s, w1)" using there by (simp add: open_stream_def)
  have len: "length (fs_files fs) = 128" using fs(1) by (simp add: fs_ok_def)
  obtain v fs1 where ow: "open_with_id os fs (CHR 0x5C # n) ?p ios_in False False True = Some (int v, fs1)"
    and v: "v < 128" "int v \<notin> open_ids fs \<union> L" "fs_ok fs1 L" "open_ids fs1 = insert (int v) (open_ids fs)"
      "\<forall>j. j \<noteq> v \<longrightarrow> fs_files fs1 ! j = fs_files fs ! j"
    using fs(1)
  proof (cases rule: open_with_id_cases [where os = os and n = "CHR 0x5C # n" and p = ?p and fl = ios_in and d = False
        and fails = False and c = True])
    case full
    with fs(2) show ?thesis by blast
  next
    case (opened v fs')
    with that show ?thesis by blast
  qed simp
  note os' = opened_stream [OF ow st len]
  have attr: "ff_attributes (fs_files fs1 ! v) AND FILE_ATTRIBUTE_DIRECTORY = 0"
    using os'(5) there(2) by (simp add: FILE_ATTRIBUTE_DIRECTORY_def)
  obtain fs2 where c: "guac_rdp_fs_close os fs1 (int v) = Some fs2" "fs_ok fs2 L" "open_ids fs2 = open_ids fs1 - {int v}"
    "\<forall>j. j \<noteq> v \<longrightarrow> fs_files fs2 ! j = fs_files fs1 ! j"
    by (rule close_open_id [OF v(3), of v os]) (use v(4) in auto)
  have dp: "drive_path fs2 = drive_path fs"
    using c(1) os'(4) v(1) by (auto simp: guac_rdp_fs_close_def guac_rdp_fs_get_file_def GUAC_RDP_FS_MAX_FILES_def Let_def split: prod.splits)
  obtain b js' out' sent where w: "guac_common_json_write_property stream js (CHR ''/'' # n) ''application/octet-stream'' = Some (b, js', out')"
    "json_ok js'" "blobs_text stream out' = Some sent" "b \<noteq> 0 \<longleftrightarrow> out' \<noteq> []"
    "sent @ json_pending js' = json_pending js @ (if js_properties_written js \<noteq> 0 then '','' else [])
       @ json_string (CHR ''/'' # n) @ '':'' @ json_string ''application/octet-stream''"
    "js_properties_written js' = js_properties_written js + 1"
    by (rule json_write_property_ok [OF js(1)])
  have "ls_entry os junk ''/'' stream n (0, js, out, fs) = Some (True, b, js', out @ out', fs2)"
    using pn(1) a o ow attr w(1) c(1) v(1)
    by (simp add: ls_entry_def proper_def guac_rdp_fs_get_file_def GUAC_RDP_FS_MAX_FILES_def)
  moreover have "listed stream js [file_property n] js' out'"
    using w js(2) by (auto simp: listed_def file_property_def)
  moreover have "d \<noteq> v" "open_ids fs2 = open_ids fs" using v(2,4) fs(3) c(3) by auto
  ultimately show ?thesis using c(2,4) v(5) dp w(4) by auto
qed

lemma read_next:
  assumes "fs_ok fs L" and "int d \<in> open_ids fs" and "dir_iter (fs_files fs ! d) = Some names"
  shows "\<exists>fs'. guac_rdp_fs_read_dir os fs (int d) = Some (case names of [] \<Rightarrow> None | e # es \<Rightarrow> Some e, fs')
    \<and> fs_ok fs' L \<and> open_ids fs' = open_ids fs \<and> dir_iter (fs_files fs' ! d) = Some (tl names) \<and> drive_path fs' = drive_path fs"
proof -
  have len: "length (fs_files fs) = 128" using assms(1) by (simp add: fs_ok_def)
  then have d: "d < 128" "real_path (fs_files fs ! d) \<noteq> None" using assms(2) by (simp_all add: open_ids_iff)
  let ?f = "(fs_files fs ! d)\<lparr>dir_iter := Some (tl names)\<rparr>"
  let ?fs = "fs\<lparr>fs_files := (fs_files fs)[d := ?f]\<rparr>"
  have ids: "open_ids ?fs = open_ids fs" using open_ids_update [of ?fs fs d ?f] d len assms(2) by auto
  then have "fs_ok ?fs L" using assms(1) by (simp add: fs_ok_def)
  moreover have "guac_rdp_fs_read_dir os fs (int d) = Some (case names of [] \<Rightarrow> None | e # es \<Rightarrow> Some e, ?fs)"
    using d(1) assms(3) by (cases names) (simp_all add: guac_rdp_fs_read_dir_def GUAC_RDP_FS_MAX_FILES_def Let_def)
  ultimately show ?thesis using ids d len by (intro exI [of _ ?fs]) simp
qed

lemma ls_loop_sent:
  assumes "fs_ok fs L" and "int d \<in> open_ids fs" and "dir_iter (fs_files fs ! d) = Some names" and "blob \<noteq> 0"
  shows "\<exists>fs'. ls_loop os junk (int d) dir stream (blob, js, out, fs)
      = Some (if names = [] then No_More_Entries else Blob_Sent, js, out, fs')
    \<and> fs_ok fs' L \<and> open_ids fs' = open_ids fs \<and> dir_iter (fs_files fs' ! d) = Some (tl names)"
proof -
  obtain fs' where "guac_rdp_fs_read_dir os fs (int d) = Some (case names of [] \<Rightarrow> None | e # es \<Rightarrow> Some e, fs')"
    "fs_ok fs' L" "open_ids fs' = open_ids fs" "dir_iter (fs_files fs' ! d) = Some (tl names)"
    using read_next [OF assms(1-3), of os] by blast
  then show ?thesis using assms(4) by (subst ls_loop.simps) (cases names; simp)
qed

lemma ls_loop_files:
  assumes "fs_ok fs L" and "open_ids fs \<union> L \<noteq> {0..<128}" and "int d \<in> open_ids fs"
    and "dir_iter (fs_files fs ! d) = Some names" and "json_ok js" and "0 \<le> js_properties_written js"
    and "\<forall>n \<in> set names. plain_file os (drive_path fs) n" and junk: "length junk = 4096"
  shows "\<exists>before left reason js' out' fs'. ls_loop os junk (int d) ''/'' stream (0, js, out, fs) = Some (reason, js', out @ out', fs')
    \<and> fs_ok fs' L \<and> open_ids fs' = open_ids fs \<and> dir_iter (fs_files fs' ! d) = Some left
    \<and> listed stream js (map file_property before) js' out'
    \<and> (reason = Blob_Sent \<and> out' \<noteq> [] \<and> (\<exists>e. names = before @ e # left)
       \<or> reason = No_More_Entries \<and> left = [] \<and> names = before
         \<and> length (json_pending js) + (if butlast names \<noteq> [] \<and> js_properties_written js \<noteq> 0 then 1 else 0)
             + length (json_members (map file_property (butlast names))) \<le> JSON_BUFFER_SIZE)"
  using assms(1-7)
proof (induction names arbitrary: fs js out)
  case Nil
  from read_next [OF Nil(1,3,4), of os] obtain fs' where "guac_rdp_fs_read_dir os fs (int d) = Some (None, fs')"
    "fs_ok fs' L" "open_ids fs' = open_ids fs" "dir_iter (fs_files fs' ! d) = Some []" by auto
  moreover have "length (json_pending js) \<le> JSON_BUFFER_SIZE" using Nil(5) by (simp add: json_ok_def json_pending_def)
  ultimately show ?case using listed_Nil [OF Nil(5,6)]
    by (intro exI [of _ "[]"] exI [of _ "[]"] exI [of _ No_More_Entries] exI [of _ js] exI [of _ "[]"] exI [of _ fs'])
      (subst ls_loop.simps, simp)
next
  case (Cons n ns)
  from read_next [OF Cons.prems(1,3,4), of os] obtain fs1 where r: "guac_rdp_fs_read_dir os fs (int d) = Some (Some n, fs1)"
    and f1: "fs_ok fs1 L" "open_ids fs1 = open_ids fs" "dir_iter (fs_files fs1 ! d) = Some ns" "drive_path fs1 = drive_path fs" by auto
  have p1: "open_ids fs1 \<union> L \<noteq> {0..<128}" "int d \<in> open_ids fs1" "plain_file os (drive_path fs1) n"
    using Cons.prems(2,3,7) f1 by simp_all
  from ls_entry_file [OF f1(1) p1(1,2) Cons.prems(5,6) p1(3) junk, of stream out] obtain b js1 out1 fs2 where
    e: "ls_entry os junk ''/'' stream n (0, js, out, fs1) = Some (True, b, js1, out @ out1, fs2)"
    and f2: "fs_ok fs2 L" "open_ids fs2 = open_ids fs1" "fs_files fs2 ! d = fs_files fs1 ! d" "drive_path fs2 = drive_path fs1"
    and l: "listed stream js [file_property n] js1 out1" "b \<noteq> 0 \<longleftrightarrow> out1 \<noteq> []" by blast
  have run: "ls_loop os junk (int d) ''/'' stream (0, js, out, fs) = ls_loop os junk (int d) ''/'' stream (b, js1, out @ out1, fs2)"
    using r e by (subst ls_loop.simps) simp
  have p2: "int d \<in> open_ids fs2" "dir_iter (fs_files fs2 ! d) = Some ns" "open_ids fs2 \<union> L \<noteq> {0..<128}"
    using p1 f1 f2 by simp_all
  have fits: "length (json_pending js) \<le> JSON_BUFFER_SIZE" using Cons.prems(5) by (simp add: json_ok_def json_pending_def)
  show ?case
  proof (cases "b = 0")
    case False
    obtain fs3 where "ls_loop os junk (int d) ''/'' stream (b, js1, out @ out1, fs2)
        = Some (if ns = [] then No_More_Entries else Blob_Sent, js1, out @ out1, fs3)"
      "fs_ok fs3 L" "open_ids fs3 = open_ids fs2" "dir_iter (fs_files fs3 ! d) = Some (tl ns)"
      using ls_loop_sent [OF f2(1) p2(1,2) False] by blast
    then show ?thesis using run l False f1 f2 fits
      by (intro exI [of _ "[n]"] exI [of _ "tl ns"] exI [of _ "if ns = [] then No_More_Entries else Blob_Sent"]
            exI [of _ js1] exI [of _ out1] exI [of _ fs3]) (cases ns; simp)
  next
    case True
    have j1: "json_ok js1" "0 \<le> js_properties_written js1" using l(1) by (simp_all add: listed_def)
    have o1: "out1 = []" using True l(2) by simp
    have d2: "drive_path fs2 = drive_path fs" using f1(4) f2(4) by simp
    have "\<forall>n \<in> set ns. plain_file os (drive_path fs2) n" using Cons.prems(7) d2 by simp
    from Cons.IH [OF f2(1) p2(3,1,2) j1 this, of "out @ out1"] obtain before left reason js' out' fs' where
      ih: "ls_loop os junk (int d) ''/'' stream (0, js1, out @ out1, fs2) = Some (reason, js', (out @ out1) @ out', fs')"
      "fs_ok fs' L" "open_ids fs' = open_ids fs2" "dir_iter (fs_files fs' ! d) = Some left"
      "listed stream js1 (map file_property before) js' out'"
      "reason = Blob_Sent \<and> out' \<noteq> [] \<and> (\<exists>e. ns = before @ e # left)
       \<or> reason = No_More_Entries \<and> left = [] \<and> ns = before
         \<and> length (json_pending js1) + (if butlast ns \<noteq> [] \<and> js_properties_written js1 \<noteq> 0 then 1 else 0)
             + length (json_members (map file_property (butlast ns))) \<le> JSON_BUFFER_SIZE" by metis
    have lc: "listed stream js (map file_property (n # before)) js' (out1 @ out')"
      using listed_Cons [OF l(1) ih(5) Cons.prems(6)] by simp
    have pend: "json_pending js1 = json_pending js @ (if js_properties_written js \<noteq> 0 then '','' else [])
        @ json_members [file_property n]" "js_properties_written js1 \<noteq> 0"
      using l(1) o1 Cons.prems(6) by (auto simp: listed_def)
    have mem: "length (json_members (p # ps)) = length (json_members [p]) + (if ps \<noteq> [] then 1 else 0) + length (json_members ps)"
      for p and ps :: "(char list \<times> char list) list" by (cases p; cases ps) auto
    have grow: "length (json_pending js) + (if butlast (n # ns) \<noteq> [] \<and> js_properties_written js \<noteq> 0 then 1 else 0)
         + length (json_members (map file_property (butlast (n # ns)))) \<le> JSON_BUFFER_SIZE"
      if "length (json_pending js1) + (if butlast ns \<noteq> [] \<and> js_properties_written js1 \<noteq> 0 then 1 else 0)
             + length (json_members (map file_property (butlast ns))) \<le> JSON_BUFFER_SIZE"
    proof (cases "ns = []")
      case False
      then show ?thesis using that pend mem [of "file_property n" "map file_property (butlast ns)"] by (auto split: if_splits)
    qed (use fits in simp)
    show ?thesis using run ih(1-4,6) lc True f1(2) f2(2) o1 grow
      by (intro exI [of _ "n # before"] exI [of _ left] exI [of _ reason] exI [of _ js'] exI [of _ out'] exI [of _ fs']) auto
  qed
qed

lemma members_prefix: "length (json_members xs) \<le> length (json_members (xs @ ys))"
proof (induction xs rule: json_members.induct)
  case (2 n v)
  then show ?case by (cases ys; cases "hd ys") auto
qed auto

lemma send_json_simps [simp]:
  "rs_filesystem (send_json S out) = rs_filesystem S" "output_stream (send_json S out) k = output_stream S k"
  "stream_data (send_json S out) st = stream_data S st" "u_sent (rs_user (send_json S out)) = u_sent (rs_user S) @ out"
  by (simp_all add: send_json_def output_stream_def stream_data_def cong: if_cong option.case_cong)

text \<open>
  C25. When the names of a directory do not fit in the buffer of the JSON writer, a call of the handler sends what it has
  written of the first names and returns; the name after those has been taken from the directory and is not written.
\<close>

theorem listing_loses_entry:
  assumes "rs_filesystem S = Some fs" "fs_ok fs L" "open_ids fs \<union> L \<noteq> {0..<128}"
    and st: "stream_data S (output_stream S k) = Some (a, Ls_Stream (int d) dir js)" "NUL \<in> set dir" "c_string dir = ''/''"
    and "int d \<in> open_ids fs" "dir_iter (fs_files fs ! d) = Some names" "json_ok js" "0 \<le> js_properties_written js"
    and "\<forall>n \<in> set names. plain_file os (drive_path fs) n" "length junk = 4096"
    and names: "names = first @ e # more_names"
    and long: "JSON_BUFFER_SIZE < length (json_pending js) + (if first \<noteq> [] \<and> js_properties_written js \<noteq> 0 then 1 else 0)
                 + length (json_members (map file_property first))"
  shows "\<exists>S' fs' before e left js' out. guac_rdp_ls_ack_handler os junk S k msg 0 = Some S'
    \<and> names = before @ e # left \<and> rs_filesystem S' = Some fs' \<and> dir_iter (fs_files fs' ! d) = Some left
    \<and> stream_data S' (output_stream S' k) = Some (a, Ls_Stream (int d) dir js')
    \<and> u_sent (rs_user S') = u_sent (rs_user S) @ out \<and> out \<noteq> []
    \<and> listed (st_index (output_stream S k)) js (map file_property before) js' out"
proof -
  obtain before left reason js' out' fs' where
    r: "ls_loop os junk (int d) ''/'' (st_index (output_stream S k)) (0, js, [], fs) = Some (reason, js', [] @ out', fs')"
    "dir_iter (fs_files fs' ! d) = Some left" "listed (st_index (output_stream S k)) js (map file_property before) js' out'"
    "reason = Blob_Sent \<and> out' \<noteq> [] \<and> (\<exists>e. names = before @ e # left)
       \<or> reason = No_More_Entries \<and> left = [] \<and> names = before
         \<and> length (json_pending js) + (if butlast names \<noteq> [] \<and> js_properties_written js \<noteq> 0 then 1 else 0)
             + length (json_members (map file_property (butlast names))) \<le> JSON_BUFFER_SIZE"
    using ls_loop_files [OF assms(2,3,7-12), of "st_index (output_stream S k)" "[]"] by blast
  have bl: "butlast names = first @ butlast (e # more_names)" using names by (simp add: butlast_append)
  have "length (json_members (map file_property first)) \<le> length (json_members (map file_property (butlast names)))"
    unfolding bl map_append by (rule members_prefix)
  moreover have "first \<noteq> [] \<longrightarrow> butlast names \<noteq> []" using bl by auto
  ultimately have "reason = Blob_Sent \<and> out' \<noteq> [] \<and> (\<exists>e. names = before @ e # left)"
    using r(4) long by (auto split: if_splits)
  then obtain e' where b: "reason = Blob_Sent" "out' \<noteq> []" "names = before @ e' # left" by blast
  let ?S = "send_json (set_stream a (Some (Ls_Stream (int d) dir js')) (S\<lparr>rs_filesystem := Some fs'\<rparr>)) out'"
  have "guac_rdp_ls_ack_handler os junk S k msg 0 = Some ?S"
    using assms(1) st r(1) b(1) by (simp add: guac_rdp_ls_ack_handler_def GUAC_PROTOCOL_STATUS_SUCCESS_def)
  then show ?thesis using b r(2,3) st(1)
    by (intro exI [of _ ?S] exI [of _ fs'] exI [of _ before] exI [of _ e'] exI [of _ left] exI [of _ js'] exI [of _ out']) simp
qed


section \<open>A system in memory\<close>

text \<open>Every path is a file; the state is the content of each, a stream its path.\<close>

definition memory_os :: "(char list \<Rightarrow> u8 list, char list) fs_os" where
  "memory_os = \<lparr>os_errno = \<lambda>_. EEXIST, os_create_directories = \<lambda>w _. (False, False, w),
     os_permissions = \<lambda>w _. w, os_remove = \<lambda>w p. w(p := []), os_exists = \<lambda>_ _. True,
     os_is_regular_file = \<lambda>_ _. True, os_is_directory = \<lambda>_ _. False, os_create = \<lambda>w _. w,
     os_open = \<lambda>w p fl. (p, if fl AND ios_trunc \<noteq> 0 then w(p := []) else w), os_is_open = \<lambda>_ _. True,
     os_read = \<lambda>w s i n. (take (nat n) (drop (nat i) (w s)), w),
     os_write = \<lambda>w s i d. w(s := take (nat i) (w s) @ d @ drop (nat i + length d) (w s)),
     os_seek_start = \<lambda>w _. w, os_close = \<lambda>w _. w,
     os_rename = \<lambda>w _ _. (False, w), os_resize = \<lambda>w _ _. (False, w),
     os_find_first_file = \<lambda>_ _. (1, 0, 0, 0), os_tree_size = \<lambda>_ _. 0, os_file_size = \<lambda>w p. Some (int (length (w p))),
     os_list = \<lambda>_ _. None, os_free_space = \<lambda>_ _. None\<rparr>"

lemma memory_stores: "stores_files memory_os (\<lambda>w s. s) (\<lambda>w p. w p)"
  by (simp add: stores_files_def memory_os_def ios_in_def ios_out_def ios_trunc_def)

definition memory_fs :: "(char list \<Rightarrow> u8 list) \<Rightarrow> (char list \<Rightarrow> u8 list, char list) guac_rdp_fs" where
  "memory_fs w = guac_rdp_fs_alloc memory_os w ''/drive'' False (replicate 128 blank_file)"

lemma memory_fs_ok:
  "fs_ok (memory_fs w) {}" "open_ids (memory_fs w) = {}" "drive_path (memory_fs w) = ''/drive''" "fs_os_state (memory_fs w) = w"
  by (simp_all add: memory_fs_def fs_ok_alloc) (auto simp: guac_rdp_fs_alloc_def open_ids_def)

definition memory_session :: "(char list \<Rightarrow> u8 list) \<Rightarrow> (char list \<Rightarrow> u8 list, char list) rdp_session" where
  "memory_session w = \<lparr>rs_user = fresh_user, rs_filesystem = Some (memory_fs w), rs_streams = [], rs_svcs = [],
     rs_clipboard = guac_common_clipboard_alloc (replicate 256 NUL) (replicate 64 NUL), rs_connected = True, rs_channel = []\<rparr>"




lemma open_listing:
  obtains d and fs :: "(char list \<Rightarrow> u8 list, char list) guac_rdp_fs" where "fs_ok fs {}" "open_ids fs = {int d}"
    "drive_path fs = ''/drive''" "dir_iter (fs_files fs ! d) = Some [''a'', ''b'']"
proof -
  let ?fs = "memory_fs (\<lambda>_. [])" and ?p = "''/drive/''"
  have "\<exists>v fs'. open_with_id memory_os ?fs ''/'' ?p 1 False False True = Some (int v, fs') \<and> fs_ok fs' {} \<and> open_ids fs' = {int v}"
    using memory_fs_ok(1) [of "\<lambda>_. []"]
  proof (cases rule: open_with_id_cases [where os = memory_os and n = "''/''" and p = ?p and fl = 1 and d = False
        and fails = False and c = True])
    case full
    then show ?thesis by (simp add: memory_fs_ok)
  next
    case (opened v fs')
    then show ?thesis by (auto simp: memory_fs_ok)
  qed simp
  then obtain v fs' where o: "open_with_id memory_os ?fs ''/'' ?p 1 False False True = Some (int v, fs')"
    "fs_ok fs' {}" "open_ids fs' = {int v}" by blast
  have "open_stream memory_os (fs_os_state ?fs) ?p 1 False True = Inr (Some ?p, \<lambda>_. [])"
    by (simp add: open_stream_def memory_os_def memory_fs_ok ios_trunc_def)
  moreover have "length (fs_files ?fs) = 128" using memory_fs_ok(1) by (simp add: fs_ok_def)
  ultimately have v: "drive_path fs' = ''/drive''" "v < 128"
    using opened_stream(3,4) [OF o(1)] by (simp_all add: memory_fs_ok)
  let ?f = "(fs_files fs' ! v)\<lparr>dir_iter := Some [''a'', ''b'']\<rparr>"
  let ?fs' = "fs'\<lparr>fs_files := (fs_files fs')[v := ?f]\<rparr>"
  have len: "length (fs_files fs') = 128" using o(2) by (simp add: fs_ok_def)
  have "int v \<in> open_ids fs'" using o(3) by simp
  then have "real_path (fs_files fs' ! v) \<noteq> None" by (simp add: open_ids_iff)
  then have ids: "open_ids ?fs' = open_ids fs'" using open_ids_update [of ?fs' fs' v ?f] v len o(3) by auto
  then have "fs_ok ?fs' {}" using o(2) by (simp add: fs_ok_def)
  then show ?thesis using that [of ?fs' v] ids o(3) v len by simp
qed

theorem listing_loses_entry_witness:
  "\<exists>(S :: (char list \<Rightarrow> u8 list, char list) rdp_session) S' a d dir js fs fs' before e left js' out.
     stream_data S (output_stream S 0) = Some (a, Ls_Stream (int d) dir js)
   \<and> rs_filesystem S = Some fs \<and> dir_iter (fs_files fs ! d) = Some [''a'', ''b'']
   \<and> guac_rdp_ls_ack_handler memory_os (replicate 4096 NUL) S 0 ''OK'' 0 = Some S'
   \<and> [''a'', ''b''] = before @ e # left \<and> rs_filesystem S' = Some fs' \<and> dir_iter (fs_files fs' ! d) = Some left
   \<and> stream_data S' (output_stream S' 0) = Some (a, Ls_Stream (int d) dir js')
   \<and> u_sent (rs_user S') = u_sent (rs_user S) @ out \<and> out \<noteq> []
   \<and> listed (st_index (output_stream S 0)) js (map file_property before) js' out"
proof -
  obtain d and fs :: "(char list \<Rightarrow> u8 list, char list) guac_rdp_fs" where fs: "fs_ok fs {}" "open_ids fs = {int d}"
    "drive_path fs = ''/drive''" "dir_iter (fs_files fs ! d) = Some [''a'', ''b'']" by (rule open_listing)
  obtain B :: "char list" where B: "length B = 4096" by (rule that [of "replicate 4096 CHR ''x''"]) (rule length_replicate)
  let ?js = "\<lparr>js_buffer = B, js_size = 4090, js_properties_written = 1\<rparr>"
  let ?dir = "[CHR ''/'', NUL]"
  define u :: "rdp_handler guac_user" where "u = fresh_user\<lparr>u_output_streams := (u_output_streams fresh_user)[0 :=
      (u_output_streams fresh_user ! 0)\<lparr>st_data := Some 0\<rparr>]\<rparr>"
  define S where "S = memory_session (\<lambda>_. []) \<lparr>rs_user := u, rs_filesystem := Some fs, rs_streams := [Some (Ls_Stream (int d) ?dir ?js)]\<rparr>"
  have "length (u_output_streams (fresh_user :: rdp_handler guac_user)) = 64"
    by (simp add: fresh_user_def guac_user_alloc_def)
  then have st: "stream_data S (output_stream S 0) = Some (0, Ls_Stream (int d) ?dir ?js)"
    by (simp add: stream_data_def output_stream_def S_def u_def)
  have files: "\<forall>n \<in> set [''a'', ''b'']. plain_file memory_os (drive_path fs) n"
    by (simp add: plain_file_def fs(3) proper_def is_separator_def memory_os_def)
  have room: "open_ids fs \<union> {} \<noteq> {0..<128}"
  proof
    assume "open_ids fs \<union> {} = {0..<128}"
    then have "card {int d} = card {0..<128::int}" using fs(2) by simp
    then show False by simp
  qed
  have js: "json_ok ?js" "0 \<le> js_properties_written ?js" by (simp_all add: json_ok_def JSON_BUFFER_SIZE_def B)
  have long: "JSON_BUFFER_SIZE < length (json_pending ?js) + (if [''a''] \<noteq> [] \<and> js_properties_written ?js \<noteq> 0 then 1 else 0)
      + length (json_members (map file_property [''a'']))"
    by (simp add: json_pending_def JSON_BUFFER_SIZE_def file_property_def json_string_def json_escape_def B)
  have S: "rs_filesystem S = Some fs" and d: "int d \<in> open_ids fs" using fs(2) by (simp_all add: S_def)
  have "c_string ?dir = ''/''" by (simp add: c_string_def)
  have "NUL \<in> set ?dir" "length (replicate 4096 NUL) = (4096 :: nat)" by (simp, rule length_replicate)
  from listing_loses_entry [OF S fs(1) room st this(1) \<open>c_string ?dir = ''/''\<close> d fs(4) js files this(2) _ long,
      where e = "''b''" and more_names = "[]" and msg = "''OK''"]
  obtain S' fs' before e left js' out where "guac_rdp_ls_ack_handler memory_os (replicate 4096 NUL) S 0 ''OK'' 0 = Some S'"
    "[''a'', ''b''] = before @ e # left" "rs_filesystem S' = Some fs'" "dir_iter (fs_files fs' ! d) = Some left"
    "stream_data S' (output_stream S' 0) = Some (0, Ls_Stream (int d) ?dir js')"
    "u_sent (rs_user S') = u_sent (rs_user S) @ out" "out \<noteq> []"
    "listed (st_index (output_stream S 0)) ?js (map file_property before) js' out"
    unfolding append_Cons append_Nil by blast
  then show ?thesis using st S fs(4) by blast
qed

end
