(* ===== verification/Shared_Memory.thy ===== *)
theory Shared_Memory
  imports Parser
begin

text \<open>
  \<open>libguac/src/socket-shared-memory.c\<close>, in the variant the file selects (\<open>LOCKING_NORMAL_QUEUE\<close>): a socket between
  two processes over two rings of packets in shared memory. Every handler that reads or writes a ring holds its mutex,
  so a handler is one step. The managed memory of Boost is a list of segments and the names that lead to them; an access
  past the buffer of a packet is \<open>None\<close>. Sizes are below \<open>2 ^ 31\<close>.
\<close>

section \<open>The ring\<close>

record guac_socket_shared_memory_region_packet =
  current_packet_size :: nat
  current_read_byte :: nat
  packet_buffer :: "char list"

record guac_socket_shared_memory_region_queue =
  queue_current_size :: nat
  queue_max_size :: nat
  queue_packet_size :: nat
  queue_read_marker :: nat
  queue_write_marker :: nat
  queue_packets :: "guac_socket_shared_memory_region_packet list"

definition fresh_queue :: "nat \<Rightarrow> nat \<Rightarrow> guac_socket_shared_memory_region_queue" where
  "fresh_queue queue_size packet_size =
     \<lparr>queue_current_size = 0, queue_max_size = queue_size, queue_packet_size = packet_size,
      queue_read_marker = 0, queue_write_marker = 0,
      queue_packets = replicate queue_size
        \<lparr>current_packet_size = 0, current_read_byte = 0, packet_buffer = replicate packet_size NUL\<rparr>\<rparr>"

definition reset_packet :: "guac_socket_shared_memory_region_packet \<Rightarrow> guac_socket_shared_memory_region_packet" where
  "reset_packet p = p\<lparr>current_packet_size := 0, current_read_byte := 0\<rparr>"

definition queue_clear :: "guac_socket_shared_memory_region_queue \<Rightarrow> guac_socket_shared_memory_region_queue" where
  "queue_clear q = q\<lparr>queue_current_size := 0, queue_read_marker := 0, queue_write_marker := 0,
     queue_packets := map reset_packet (queue_packets q)\<rparr>"

definition queue_pop :: "guac_socket_shared_memory_region_queue \<Rightarrow> guac_socket_shared_memory_region_queue" where
  "queue_pop q =
     (if queue_current_size q = 0 then q
      else
        let r = queue_read_marker q;
            q = q\<lparr>queue_packets := (queue_packets q)[r := reset_packet (queue_packets q ! r)]\<rparr>;
            q = q\<lparr>queue_read_marker := (r + 1) mod queue_max_size q\<rparr>;
            q = q\<lparr>queue_current_size := queue_current_size q - 1\<rparr>
        in if queue_current_size q = 0 then q\<lparr>queue_read_marker := 0, queue_write_marker := 0\<rparr> else q)"

text \<open>The index of the packet to write, or the null pointer of a full ring, and the ring with its marker moved.\<close>

definition queue_start_push ::
  "guac_socket_shared_memory_region_queue \<Rightarrow> bool \<Rightarrow> (nat \<times> guac_socket_shared_memory_region_queue) option" where
  "queue_start_push q streamlined =
     (if queue_current_size q = queue_max_size q then None
      else
        let q = (if current_packet_size (queue_packets q ! queue_write_marker q) = queue_packet_size q \<and> streamlined
                 then q\<lparr>queue_write_marker := (queue_write_marker q + 1) mod queue_max_size q\<rparr> else q)
        in Some (queue_write_marker q, q))"

definition queue_end_push :: "guac_socket_shared_memory_region_queue \<Rightarrow> bool \<Rightarrow> guac_socket_shared_memory_region_queue" where
  "queue_end_push q streamlined =
     (let q = q\<lparr>queue_current_size := queue_current_size q + 1\<rparr> in
      if \<not> streamlined then q\<lparr>queue_write_marker := (queue_write_marker q + 1) mod queue_max_size q\<rparr> else q)"

definition queue_peek :: "guac_socket_shared_memory_region_queue \<Rightarrow> nat option" where
  "queue_peek q = (if queue_current_size q = 0 then None else Some (queue_read_marker q))"

definition queue_empty :: "guac_socket_shared_memory_region_queue \<Rightarrow> bool" where
  "queue_empty q \<longleftrightarrow> queue_current_size q = 0"

definition queue_free_size :: "guac_socket_shared_memory_region_queue \<Rightarrow> nat" where
  "queue_free_size q = queue_max_size q - queue_current_size q"

section \<open>Reading and writing the ring\<close>

text \<open>What both readers do with one packet: copy, count, and pop it when it is used up.\<close>

definition read_packet ::
  "guac_socket_shared_memory_region_queue \<Rightarrow> nat \<Rightarrow> (char list \<times> guac_socket_shared_memory_region_queue) option" where
  "read_packet q left =
     (case queue_peek q of None \<Rightarrow> None
      | Some i \<Rightarrow>
          let packet = queue_packets q ! i;
              size = min left (current_packet_size packet);
              next_packet = packet\<lparr>current_read_byte := current_read_byte packet + size,
                current_packet_size := current_packet_size packet - size\<rparr>;
              q = q\<lparr>queue_packets := (queue_packets q)[i := next_packet]\<rparr>
          in if length (packet_buffer packet) < current_read_byte packet + size then None
             else Some (take size (drop (current_read_byte packet) (packet_buffer packet)),
                        if current_packet_size next_packet = 0 then queue_pop q else q))"

lemma queue_pop_size: "queue_current_size (queue_pop q) = queue_current_size q - 1"
  by (simp add: queue_pop_def Let_def)

lemma read_packet_size:
  assumes "read_packet q left = Some (bs, q')" and "0 < left"
  shows "queue_current_size q' + (left - length bs) < queue_current_size q + left"
  using assms by (auto simp: read_packet_def queue_peek_def queue_pop_size Let_def split: if_splits)

function multi_read_loop ::
  "guac_socket_shared_memory_region_queue \<Rightarrow> nat \<Rightarrow> (char list \<times> guac_socket_shared_memory_region_queue) option" where
  "multi_read_loop q left =
     (if 0 < left \<and> \<not> queue_empty q then
        case read_packet q left of None \<Rightarrow> None
        | Some (bs, q) \<Rightarrow>
            (case multi_read_loop q (left - length bs) of None \<Rightarrow> None | Some (more_bytes, q) \<Rightarrow> Some (bs @ more_bytes, q))
      else Some ([], q))"
  by pat_completeness auto
termination
  by (relation "measure (\<lambda>(q, left). queue_current_size q + left)") (auto dest: read_packet_size)

declare multi_read_loop.simps [simp del]

definition multi_packet_read ::
  "guac_socket_shared_memory_region_queue \<Rightarrow> nat \<Rightarrow> (char list \<times> guac_socket_shared_memory_region_queue) option" where
  "multi_packet_read q count = (if count = 0 \<or> queue_empty q then Some ([], q) else multi_read_loop q count)"

definition single_packet_read ::
  "guac_socket_shared_memory_region_queue \<Rightarrow> nat \<Rightarrow> (char list \<times> guac_socket_shared_memory_region_queue) option" where
  "single_packet_read q count = (if count = 0 \<or> queue_empty q then Some ([], q) else read_packet q count)"

text \<open>The body of the write loop: what is left of the buffer, and the ring.\<close>

definition write_packet ::
  "bool \<Rightarrow> guac_socket_shared_memory_region_queue \<Rightarrow> char list \<Rightarrow> (char list \<times> guac_socket_shared_memory_region_queue) option" where
  "write_packet streamlined q buffer =
     (case queue_start_push q streamlined of None \<Rightarrow> None
      | Some (i, q) \<Rightarrow>
          let packet = queue_packets q ! i;
              packet = (if \<not> streamlined then reset_packet packet else packet);
              size = min (length buffer) (queue_packet_size q - current_packet_size packet);
              to = current_read_byte packet + current_packet_size packet;
              packet' = packet\<lparr>packet_buffer := take to (packet_buffer packet) @ take size buffer @ drop (to + size) (packet_buffer packet),
                current_packet_size := current_packet_size packet + size\<rparr>
          in if length (packet_buffer packet) < to + size then None
             else Some (drop size buffer, queue_end_push (q\<lparr>queue_packets := (queue_packets q)[i := packet']\<rparr>) streamlined))"

primrec write_packets ::
  "bool \<Rightarrow> nat \<Rightarrow> guac_socket_shared_memory_region_queue \<Rightarrow> char list \<Rightarrow>
   (char list \<times> guac_socket_shared_memory_region_queue) option" where
  "write_packets streamlined 0 q buffer = Some (buffer, q)"
| "write_packets streamlined (Suc n) q buffer =
     (case write_packet streamlined q buffer of None \<Rightarrow> None
      | Some (buffer, q) \<Rightarrow> write_packets streamlined n q buffer)"

text \<open>The quotient rounded up.\<close>

definition packets_needed :: "nat \<Rightarrow> nat \<Rightarrow> nat" where
  "packets_needed count packet_size = (count + packet_size - 1) div packet_size"

text \<open>The number of bytes written. Without a packet size the quotient is infinite and its conversion undefined.\<close>

definition queue_write ::
  "bool \<Rightarrow> guac_socket_shared_memory_region_queue \<Rightarrow> char list \<Rightarrow> (nat \<times> guac_socket_shared_memory_region_queue) option" where
  "queue_write streamlined q buf =
     (if buf = [] then Some (0, q)
      else if queue_packet_size q = 0 then None
      else
        let allocated_packets = min (packets_needed (length buf) (queue_packet_size q)) (queue_free_size q) in
        if allocated_packets = 0 then Some (0, q)
        else case write_packets streamlined allocated_packets q buf of None \<Rightarrow> None
          | Some (left, q) \<Rightarrow> Some (length buf - length left, q))"

section \<open>The socket\<close>

record shared_memory =
  segments :: "guac_socket_shared_memory_region_queue list"
  segment_names :: "char list \<rightharpoonup> nat"

text \<open>
  \<open>shm_wait\<close> is what the waits of \<open>select\<close> end with: \<open>None\<close> after the time given, else the change of the ring by
  the other side up to its notification.
\<close>

record guac_socket_shared_memory_data =
  parent_to_child_queue :: nat
  child_to_parent_queue :: nat
  region_name :: "char list"
  is_parent :: bool
  multi_read :: bool
  streamlined_write :: bool
  shm_memory :: shared_memory
  shm_wait :: "nat \<Rightarrow> (guac_socket_shared_memory_region_queue \<Rightarrow> guac_socket_shared_memory_region_queue) option"
  shm_waits :: nat

definition read_segment :: "guac_socket_shared_memory_data \<Rightarrow> nat" where
  "read_segment d = (if is_parent d then child_to_parent_queue d else parent_to_child_queue d)"

definition write_segment :: "guac_socket_shared_memory_data \<Rightarrow> nat" where
  "write_segment d = (if is_parent d then parent_to_child_queue d else child_to_parent_queue d)"

definition put_segment ::
  "nat \<Rightarrow> guac_socket_shared_memory_region_queue \<Rightarrow> guac_socket_shared_memory_data \<Rightarrow> guac_socket_shared_memory_data" where
  "put_segment i q d = d\<lparr>shm_memory := (shm_memory d)\<lparr>segments := (segments (shm_memory d))[i := q]\<rparr>\<rparr>"

definition shm_read_handler ::
  "guac_socket_shared_memory_data \<Rightarrow> nat \<Rightarrow> (int \<times> char list \<times> guac_socket_shared_memory_data) option" where
  "shm_read_handler d count =
     (let i = read_segment d; q = segments (shm_memory d) ! i in
      case (if multi_read d then multi_packet_read q count else single_packet_read q count) of None \<Rightarrow> None
      | Some (bs, q) \<Rightarrow> Some (int (length bs), bs, put_segment i q d))"

definition shm_write_handler ::
  "guac_socket_shared_memory_data \<Rightarrow> char list \<Rightarrow> (int \<times> guac_socket_shared_memory_data) option" where
  "shm_write_handler d buf =
     (let i = write_segment d in
      case queue_write (streamlined_write d) (segments (shm_memory d) ! i) buf of None \<Rightarrow> None
      | Some (n, q) \<Rightarrow> Some (int n, put_segment i q d))"

definition shm_lock_handler :: "guac_socket_shared_memory_data \<Rightarrow> guac_socket_shared_memory_data option" where
  "shm_lock_handler d = Some d"

definition shm_unlock_handler :: "guac_socket_shared_memory_data \<Rightarrow> guac_socket_shared_memory_data" where
  "shm_unlock_handler d = d"

definition shm_reset_handler :: "guac_socket_shared_memory_data \<Rightarrow> guac_socket_shared_memory_data" where
  "shm_reset_handler d =
     (let q = (\<lambda>d i. segments (shm_memory d) ! i);
          d = put_segment (child_to_parent_queue d) (queue_clear (q d (child_to_parent_queue d))) d
      in put_segment (parent_to_child_queue d) (queue_clear (q d (parent_to_child_queue d))) d)"

definition shm_free_handler :: "guac_socket_shared_memory_data \<Rightarrow> guac_socket_shared_memory_data option" where
  "shm_free_handler d =
     (let d = shm_reset_handler d; m = shm_memory d in
      Some (d\<lparr>shm_memory := m\<lparr>segment_names := (segment_names m)(region_name d @ ''_PTC'' := None, region_name d @ ''_CTP'' := None)\<rparr>\<rparr>))"

definition shm_flush_handler ::
  "guac_socket_shared_memory_data \<Rightarrow> (int \<times> guac_socket_shared_memory_data) option" where
  "shm_flush_handler d = Some (0, d)"

definition shm_select_handler ::
  "guac_socket_shared_memory_data \<Rightarrow> int \<Rightarrow> (int \<times> guac_socket_shared_memory_data) option" where
  "shm_select_handler d usec_timeout =
     (let i = read_segment d; q = segments (shm_memory d) ! i in
      if \<not> queue_empty q then Some (1, d)
      else
        let w = shm_wait d (shm_waits d); d = d\<lparr>shm_waits := Suc (shm_waits d)\<rparr> in
        case w of None \<Rightarrow> Some (0, d)
        | Some change \<Rightarrow> Some (if queue_empty (change q) then 0 else 1, put_segment i (change q) d))"

section \<open>Creating and joining\<close>

text \<open>\<open>thrown\<close> is the memory left when Boost throws.\<close>

definition queue_create ::
  "shared_memory option \<Rightarrow> shared_memory \<Rightarrow> char list \<Rightarrow> nat \<Rightarrow> nat \<Rightarrow> nat option \<times> shared_memory" where
  "queue_create thrown m shname queue_size packet_size =
     (case thrown of Some m \<Rightarrow> (None, m)
      | None \<Rightarrow> (Some (length (segments m)),
                 m\<lparr>segments := segments m @ [fresh_queue queue_size packet_size],
                   segment_names := (segment_names m)(shname \<mapsto> length (segments m))\<rparr>))"

definition queue_join :: "shared_memory \<Rightarrow> char list \<Rightarrow> nat option" where
  "queue_join m shname = segment_names m shname"

definition shm_socket ::
  "guac_socket_shared_memory_data \<Rightarrow> (nat \<Rightarrow> int) \<Rightarrow> guac_socket_shared_memory_data guac_socket" where
  "shm_socket d clk = (guac_socket_alloc d clk)
     \<lparr>read_handler := Some shm_read_handler, write_handler := Some shm_write_handler,
      select_handler := Some shm_select_handler, flush_handler := Some shm_flush_handler,
      lock_handler := Some shm_lock_handler, unlock_handler := Some shm_unlock_handler,
      free_handler := Some shm_free_handler\<rparr>"

text \<open>Both return the socket, or null; the memory is that of the data, or the one left behind.\<close>

definition guac_socket_shared_memory_socket_create ::
  "shared_memory option \<Rightarrow> shared_memory option \<Rightarrow> shared_memory \<Rightarrow>
   (nat \<Rightarrow> (guac_socket_shared_memory_region_queue \<Rightarrow> guac_socket_shared_memory_region_queue) option) \<Rightarrow> (nat \<Rightarrow> int) \<Rightarrow>
   char list \<Rightarrow> bool \<Rightarrow> bool \<Rightarrow> nat \<Rightarrow> nat \<Rightarrow> guac_socket_shared_memory_data guac_socket option \<times> shared_memory" where
  "guac_socket_shared_memory_socket_create thrown thrown' m waits clk shname multi streamlined queue_size packet_size =
     (case queue_create thrown m (shname @ ''_PTC'') queue_size packet_size of
        (None, m) \<Rightarrow> (None, m)
      | (Some ptc, m) \<Rightarrow>
          (case queue_create thrown' m (shname @ ''_CTP'') queue_size packet_size of
             (None, m) \<Rightarrow> (None, m)
           | (Some ctp, m) \<Rightarrow>
               (Some (shm_socket
                  \<lparr>parent_to_child_queue = ptc, child_to_parent_queue = ctp, region_name = shname, is_parent = True,
                   multi_read = multi, streamlined_write = streamlined, shm_memory = m, shm_wait = waits, shm_waits = 0\<rparr> clk), m)))"

definition guac_socket_shared_memory_socket_join ::
  "shared_memory \<Rightarrow> (nat \<Rightarrow> (guac_socket_shared_memory_region_queue \<Rightarrow> guac_socket_shared_memory_region_queue) option) \<Rightarrow>
   (nat \<Rightarrow> int) \<Rightarrow> char list \<Rightarrow> bool \<Rightarrow> bool \<Rightarrow> guac_socket_shared_memory_data guac_socket option" where
  "guac_socket_shared_memory_socket_join m waits clk shname multi streamlined =
     (case queue_join m (shname @ ''_PTC'') of None \<Rightarrow> None
      | Some ptc \<Rightarrow>
          map_option (\<lambda>ctp. shm_socket
            \<lparr>parent_to_child_queue = ptc, child_to_parent_queue = ctp, region_name = shname, is_parent = False,
             multi_read = multi, streamlined_write = streamlined, shm_memory = m, shm_wait = waits, shm_waits = 0\<rparr> clk)
            (queue_join m (shname @ ''_CTP'')))"


section \<open>The ring as a queue of packets\<close>

definition ring_index :: "guac_socket_shared_memory_region_queue \<Rightarrow> nat \<Rightarrow> nat" where
  "ring_index q i = (queue_read_marker q + i) mod queue_max_size q"

definition content :: "guac_socket_shared_memory_region_packet \<Rightarrow> char list" where
  "content p = take (current_packet_size p) (drop (current_read_byte p) (packet_buffer p))"

definition packets :: "guac_socket_shared_memory_region_queue \<Rightarrow> char list list" where
  "packets q = map (\<lambda>i. content (queue_packets q ! ring_index q i)) [0..<queue_current_size q]"

text \<open>The shape of a ring, and a ring whose packets to be read are not empty.\<close>

definition ring_shape :: "guac_socket_shared_memory_region_queue \<Rightarrow> bool" where
  "ring_shape q \<longleftrightarrow> 0 < queue_packet_size q \<and> 0 < queue_max_size q \<and> length (queue_packets q) = queue_max_size q
     \<and> queue_read_marker q < queue_max_size q \<and> queue_current_size q \<le> queue_max_size q
     \<and> queue_write_marker q = ring_index q (queue_current_size q)
     \<and> (\<forall>p \<in> set (queue_packets q). length (packet_buffer p) = queue_packet_size q
          \<and> current_read_byte p + current_packet_size p \<le> queue_packet_size q)"

definition ring_ok :: "guac_socket_shared_memory_region_queue \<Rightarrow> bool" where
  "ring_ok q \<longleftrightarrow> ring_shape q \<and> [] \<notin> set (packets q)"

definition same_sizes :: "guac_socket_shared_memory_region_queue \<Rightarrow> guac_socket_shared_memory_region_queue \<Rightarrow> bool" where
  "same_sizes q q' \<longleftrightarrow> queue_max_size q' = queue_max_size q \<and> queue_packet_size q' = queue_packet_size q"

lemma mod_shift_inj:
  fixes m :: nat
  assumes "(a + i) mod m = (a + j) mod m" "i < m" "j < m"
  shows "i = j"
  using assms
proof (induction i j rule: linorder_wlog)
  case (le i j)
  then have "m dvd (a + j) - (a + i)" by (metis add_le_mono1 add.commute mod_eq_dvd_iff_nat)
  then have "m dvd j - i" by simp
  with le show ?case by (metis dvd_imp_le le_antisym less_imp_diff_less linorder_not_le diff_is_0_eq zero_less_diff)
qed simp

lemma ring_index_inj: "ring_index q i = ring_index q j \<Longrightarrow> i < queue_max_size q \<Longrightarrow> j < queue_max_size q \<Longrightarrow> i = j"
  unfolding ring_index_def by (rule mod_shift_inj)

lemma length_packets [simp]: "length (packets q) = queue_current_size q"
  by (simp add: packets_def)

lemma packets_nth: "i < queue_current_size q \<Longrightarrow> packets q ! i = content (queue_packets q ! ring_index q i)"
  by (simp add: packets_def)

lemma queue_empty_iff: "queue_empty q \<longleftrightarrow> packets q = []"
  by (metis length_packets length_0_conv queue_empty_def)

lemma content_length:
  "length (packet_buffer p) = n \<Longrightarrow> current_read_byte p + current_packet_size p \<le> n \<Longrightarrow> length (content p) = current_packet_size p"
  by (simp add: content_def)

lemma ring_index_less: "ring_shape q \<Longrightarrow> ring_index q i < queue_max_size q"
  by (simp add: ring_index_def ring_shape_def)

lemma ring_packet:
  "ring_shape q \<Longrightarrow> length (packet_buffer (queue_packets q ! ring_index q i)) = queue_packet_size q
     \<and> current_read_byte (queue_packets q ! ring_index q i) + current_packet_size (queue_packets q ! ring_index q i) \<le> queue_packet_size q"
  using ring_index_less [of q i] by (auto simp: ring_shape_def)

text \<open>A change of one packet, well-formed again.\<close>

definition packet_fits :: "nat \<Rightarrow> guac_socket_shared_memory_region_packet \<Rightarrow> bool" where
  "packet_fits n p \<longleftrightarrow> length (packet_buffer p) = n \<and> current_read_byte p + current_packet_size p \<le> n"

lemma shape_update:
  assumes "ring_shape q" and "packet_fits (queue_packet_size q) p"
  shows "ring_shape (q\<lparr>queue_packets := (queue_packets q)[i := p]\<rparr>)"
  using assms by (auto simp: ring_shape_def packet_fits_def ring_index_def dest!: set_update_subset_insert [THEN subsetD])

lemma packets_update:
  assumes "ring_shape q" and "k < queue_current_size q"
  shows "packets (q\<lparr>queue_packets := (queue_packets q)[ring_index q k := p]\<rparr>) = (packets q)[k := content p]"
proof (rule nth_equalityI)
  fix i assume "i < length (packets (q\<lparr>queue_packets := (queue_packets q)[ring_index q k := p]\<rparr>))"
  then have i: "i < queue_current_size q" by simp
  then have "ring_index q i = ring_index q k \<longleftrightarrow> i = k"
    using ring_index_inj [of q i k] assms by (auto simp: ring_shape_def)
  then show "packets (q\<lparr>queue_packets := (queue_packets q)[ring_index q k := p]\<rparr>) ! i = (packets q)[k := content p] ! i"
    using i ring_index_less [OF assms(1), of i] assms
    by (auto simp: packets_def ring_index_def ring_shape_def nth_list_update)
qed simp

lemma popped:
  assumes "ring_shape q" and "0 < queue_current_size q"
  shows "ring_shape (queue_pop q) \<and> packets (queue_pop q) = tl (packets q) \<and> same_sizes q (queue_pop q)"
proof -
  let ?m = "queue_max_size q" and ?r = "queue_read_marker q" and ?n = "queue_current_size q"
  let ?qp = "(queue_packets q)[?r := reset_packet (queue_packets q ! ?r)]"
  have r: "?r < ?m" "length (queue_packets q) = ?m" using assms by (auto simp: ring_shape_def)
  have r0: "ring_index q 0 = ?r" using r by (simp add: ring_index_def)
  have step: "(Suc ?r mod ?m + i) mod ?m = ring_index q (Suc i)" for i
    by (simp add: ring_index_def mod_simps)
  have other: "?qp ! ring_index q (Suc i) = queue_packets q ! ring_index q (Suc i)" if "Suc i < ?n" for i
  proof -
    have "ring_index q (Suc i) \<noteq> ?r"
      using ring_index_inj [of q "Suc i" 0] that r0 assms by (auto simp: ring_shape_def)
    then show ?thesis by simp
  qed
  have "packet_fits (queue_packet_size q) (reset_packet (queue_packets q ! ?r))"
    using ring_packet [OF assms(1), of 0] r0 by (simp add: packet_fits_def reset_packet_def)
  then have sh: "ring_shape (q\<lparr>queue_packets := ?qp\<rparr>)" by (rule shape_update [OF assms(1)])
  have "packets (queue_pop q) = tl (packets q)"
  proof (rule nth_equalityI)
    show len: "length (packets (queue_pop q)) = length (tl (packets q))" by (simp add: queue_pop_size)
    fix i assume "i < length (packets (queue_pop q))"
    then have i: "Suc i < ?n" by (simp add: queue_pop_size)
    then show "packets (queue_pop q) ! i = tl (packets q) ! i"
      using step [of i] other [OF i] by (simp add: nth_tl packets_nth queue_pop_size) (simp add: queue_pop_def Let_def ring_index_def [of "_ :: guac_socket_shared_memory_region_queue"])
  qed
  moreover have "ring_shape (queue_pop q)"
    using sh assms step [of "?n - 1"] by (auto simp: ring_shape_def queue_pop_def Let_def ring_index_def)
  ultimately show ?thesis by (simp add: same_sizes_def queue_pop_def Let_def)
qed


lemma read_packet_ok:
  assumes "ring_ok q" and "packets q = p # ps" and "0 < n"
  shows "\<exists>q'. read_packet q n = Some (take n p, q') \<and> ring_ok q' \<and> same_sizes q q'
     \<and> packets q' = (if n < length p then drop n p # ps else ps)"
proof -
  let ?r = "queue_read_marker q"
  let ?p = "queue_packets q ! ?r"
  have sh: "ring_shape q" and ne: "[] \<notin> set (packets q)" using assms(1) by (auto simp: ring_ok_def)
  have r0: "ring_index q 0 = ?r" using sh by (simp add: ring_index_def ring_shape_def)
  have c: "0 < queue_current_size q" using assms(2) by (metis length_packets length_greater_0_conv list.distinct(1))
  have p: "content ?p = p" using packets_nth [OF c] r0 assms(2) by simp
  note fits = ring_packet [OF sh, of 0, unfolded r0]
  have lp: "length p = current_packet_size ?p" using content_length fits p by blast
  let ?size = "min n (current_packet_size ?p)"
  let ?next = "?p\<lparr>current_read_byte := current_read_byte ?p + ?size, current_packet_size := current_packet_size ?p - ?size\<rparr>"
  let ?q = "q\<lparr>queue_packets := (queue_packets q)[?r := ?next]\<rparr>"
  have bytes: "take ?size (drop (current_read_byte ?p) (packet_buffer ?p)) = take n p"
    unfolding p [symmetric] content_def by (simp add: min.commute)
  have rest: "content ?next = drop n p"
    unfolding p [symmetric] content_def by (cases "n \<le> current_packet_size ?p") (simp_all add: drop_take add.commute)
  have "packet_fits (queue_packet_size q) ?next" using fits by (simp add: packet_fits_def)
  then have sh': "ring_shape ?q" by (rule shape_update [OF sh])
  have pk: "packets ?q = drop n p # ps"
    using packets_update [OF sh c, of ?next] r0 rest assms(2) by simp
  have room: "\<not> queue_packet_size q < current_read_byte ?p + ?size" using fits by linarith
  have rd: "read_packet q n = Some (take n p, if length p \<le> n then queue_pop ?q else ?q)"
    using c room fits bytes lp by (simp add: read_packet_def queue_peek_def Let_def)
  show ?thesis
  proof (cases "length p \<le> n")
    case True
    from popped [OF sh'] c pk show ?thesis using True rd ne assms(2) by (simp add: ring_ok_def same_sizes_def)
  next
    case False
    then show ?thesis using rd sh' pk ne assms(2) by (auto simp: ring_ok_def same_sizes_def)
  qed
qed

lemma packets_append:
  assumes "ring_shape q" and "queue_current_size q < queue_max_size q" and "packet_fits (queue_packet_size q) p"
  defines "q' \<equiv> queue_end_push (q\<lparr>queue_packets := (queue_packets q)[queue_write_marker q := p]\<rparr>) False"
  shows "ring_shape q' \<and> same_sizes q q' \<and> packets q' = packets q @ [content p]"
proof -
  let ?n = "queue_current_size q" and ?m = "queue_max_size q"
  let ?qp = "(queue_packets q)[queue_write_marker q := p]"
  have w: "queue_write_marker q = ring_index q ?n" using assms(1) by (simp add: ring_shape_def)
  have w': "queue_write_marker q < length (queue_packets q)"
    unfolding w using ring_index_less [OF assms(1)] assms(1) by (simp add: ring_shape_def)
  have other: "?qp ! ring_index q i = queue_packets q ! ring_index q i" if "i < ?n" for i
  proof -
    have "queue_write_marker q \<noteq> ring_index q i" unfolding w using ring_index_inj [of q ?n i] that assms(2) by auto
    then show ?thesis by simp
  qed
  have new: "?qp ! ring_index q ?n = p" using w w' by simp
  have "ring_shape (q\<lparr>queue_packets := ?qp\<rparr>)" by (rule shape_update [OF assms(1,3)])
  then have "ring_shape q'"
    using assms(2) by (auto simp: q'_def ring_shape_def queue_end_push_def Let_def ring_index_def mod_simps)
  moreover have "packets q' = packets q @ [content p]"
    unfolding packets_def q'_def using other new by (simp add: queue_end_push_def Let_def ring_index_def)
  ultimately show ?thesis by (simp add: same_sizes_def q'_def queue_end_push_def Let_def)
qed

lemma write_packet_ok:
  assumes "ring_ok q" and "queue_current_size q < queue_max_size q" and "buf \<noteq> []"
  shows "\<exists>q'. write_packet False q buf = Some (drop (queue_packet_size q) buf, q') \<and> ring_ok q' \<and> same_sizes q q'
     \<and> packets q' = packets q @ [take (queue_packet_size q) buf]"
proof -
  let ?w = "queue_write_marker q" and ?k = "queue_packet_size q"
  have sh: "ring_shape q" and ne: "[] \<notin> set (packets q)" using assms(1) by (auto simp: ring_ok_def)
  have w: "?w = ring_index q (queue_current_size q)" using sh by (simp add: ring_shape_def)
  let ?p = "queue_packets q ! ?w"
  have len: "length (packet_buffer ?p) = ?k" unfolding w using ring_packet [OF sh] by blast
  let ?size = "min (length buf) ?k"
  let ?new = "(reset_packet ?p)\<lparr>packet_buffer := take ?size buf @ drop ?size (packet_buffer ?p), current_packet_size := ?size\<rparr>"
  have fits: "packet_fits ?k ?new" using len by (simp add: packet_fits_def reset_packet_def)
  have t: "take ?size buf = take ?k buf \<and> drop ?size buf = drop ?k buf"
    by (cases "length buf \<le> ?k") (simp_all add: min_def)
  have c: "content ?new = take ?k buf" by (simp add: content_def reset_packet_def t)
  have wr: "write_packet False q buf =
      Some (drop ?k buf, queue_end_push (q\<lparr>queue_packets := (queue_packets q)[?w := ?new]\<rparr>) False)"
    using assms(2) len by (simp add: write_packet_def queue_start_push_def Let_def reset_packet_def t)
  from packets_append [OF sh assms(2) fits] have
    "ring_ok (queue_end_push (q\<lparr>queue_packets := (queue_packets q)[?w := ?new]\<rparr>) False)"
    using c ne assms(3) sh by (auto simp: ring_ok_def ring_shape_def)
  with packets_append [OF sh assms(2) fits] wr c show ?thesis by simp
qed


section \<open>The queue of packets a ring implements\<close>

fun take_packets :: "nat \<Rightarrow> 'a list list \<Rightarrow> 'a list \<times> 'a list list" where
  "take_packets n [] = ([], [])"
| "take_packets n (p # ps) =
     (if n < length p then (take n p, if n = 0 then p # ps else drop n p # ps)
      else case take_packets (n - length p) ps of (bs, ps') \<Rightarrow> (p @ bs, ps'))"

definition take_packet :: "nat \<Rightarrow> 'a list list \<Rightarrow> 'a list \<times> 'a list list" where
  "take_packet n ps =
     (case ps of [] \<Rightarrow> ([], []) | p # ps' \<Rightarrow> if n < length p then (take n p, drop n p # ps') else (p, ps'))"

primrec cut :: "nat \<Rightarrow> nat \<Rightarrow> 'a list \<Rightarrow> 'a list list" where
  "cut w 0 buf = []"
| "cut w (Suc n) buf = take w buf # cut w n (drop w buf)"

definition put_packets :: "nat \<Rightarrow> nat \<Rightarrow> 'a list list \<Rightarrow> 'a list \<Rightarrow> nat \<times> 'a list list" where
  "put_packets w limit ps buf =
     (let n = min (packets_needed (length buf) w) (limit - length ps)
      in (min (length buf) (n * w), ps @ cut w n buf))"

lemma concat_cut: "concat (cut w n buf) = take (n * w) buf"
  by (induction n arbitrary: buf) (simp_all add: take_add)

lemma put_packets_fifo:
  "put_packets w limit ps buf = (n, ps') \<Longrightarrow> n \<le> length buf \<and> concat ps' = concat ps @ take n buf"
  by (auto simp: put_packets_def Let_def concat_cut min_def)

lemma take_packets_fifo: "take_packets n ps = (bs, ps') \<Longrightarrow> bs = take n (concat ps) \<and> concat ps' = drop n (concat ps)"
  by (induction n ps arbitrary: bs ps' rule: take_packets.induct) (fastforce split: if_splits prod.splits)+

lemma take_packet_fifo:
  "take_packet n ps = (bs, ps') \<Longrightarrow> concat ps = bs @ concat ps' \<and> length bs \<le> n
     \<and> (0 < n \<and> ps \<noteq> [] \<and> [] \<notin> set ps \<longrightarrow> bs \<noteq> [])"
  by (cases ps) (auto simp: take_packet_def split: if_splits)

lemma write_packets_ok:
  assumes "ring_ok q" and "n \<le> queue_max_size q - queue_current_size q" and "(n - 1) * queue_packet_size q < length buf"
  shows "\<exists>q'. write_packets False n q buf = Some (drop (n * queue_packet_size q) buf, q') \<and> ring_ok q' \<and> same_sizes q q'
     \<and> packets q' = packets q @ cut (queue_packet_size q) n buf"
  using assms
proof (induction n arbitrary: q buf)
  case 0
  then show ?case by (simp add: same_sizes_def)
next
  case (Suc n)
  let ?k = "queue_packet_size q"
  from Suc.prems have lt: "queue_current_size q < queue_max_size q" and "buf \<noteq> []" by auto
  with write_packet_ok [OF Suc.prems(1)] obtain q1 where
    q1: "write_packet False q buf = Some (drop ?k buf, q1)" "ring_ok q1" "same_sizes q q1"
      "packets q1 = packets q @ [take ?k buf]" by blast
  from q1(4) have c: "queue_current_size q1 = Suc (queue_current_size q)" by (metis length_packets length_append_singleton)
  show ?case
  proof (cases n)
    case 0
    with q1 show ?thesis by simp
  next
    case (Suc m)
    have "n \<le> queue_max_size q1 - queue_current_size q1" using Suc.prems(2) c q1(3) by (simp add: same_sizes_def)
    moreover have "(n - 1) * queue_packet_size q1 < length (drop ?k buf)"
      using Suc.prems(3) Suc q1(3) by (simp add: same_sizes_def)
    ultimately obtain q' where "write_packets False n q1 (drop ?k buf) = Some (drop (n * ?k) (drop ?k buf), q')"
      "ring_ok q'" "same_sizes q1 q'" "packets q' = packets q1 @ cut ?k n (drop ?k buf)"
      using Suc.IH [OF q1(2), of "drop ?k buf"] q1(3) by (auto simp: same_sizes_def)
    with q1 show ?thesis by (simp add: same_sizes_def add.commute)
  qed
qed

lemma ceiling_below:
  fixes n k :: nat
  assumes "0 < n" "0 < k"
  shows "(packets_needed n k - 1) * k < n"
proof -
  have "(n + k - 1) div k * k \<le> n + k - 1" by (rule div_times_less_eq_dividend)
  moreover have "((n + k - 1) div k - 1) * k = (n + k - 1) div k * k - k" by (simp add: diff_mult_distrib)
  ultimately show ?thesis unfolding packets_needed_def using assms by linarith
qed

lemma queue_write_ok:
  assumes "ring_ok q"
  shows "\<exists>q'. queue_write False q buf = Some (fst (put_packets (queue_packet_size q) (queue_max_size q) (packets q) buf), q')
     \<and> ring_ok q' \<and> same_sizes q q' \<and> packets q' = snd (put_packets (queue_packet_size q) (queue_max_size q) (packets q) buf)"
proof -
  let ?k = "queue_packet_size q" and ?free = "queue_max_size q - queue_current_size q"
  let ?ceil = "packets_needed (length buf) ?k"
  let ?n = "min ?ceil ?free"
  have k: "0 < ?k" using assms by (simp add: ring_ok_def ring_shape_def)
  show ?thesis
  proof (cases "buf = [] \<or> ?n = 0")
    case True
    then have "?n = 0" using k by (auto simp: packets_needed_def)
    then have put: "put_packets ?k (queue_max_size q) (packets q) buf = (0, packets q)"
      by (simp add: put_packets_def)
    have "queue_write False q buf = Some (0, q)"
      using True k by (cases "buf = []") (simp_all add: queue_write_def queue_free_size_def Let_def)
    then show ?thesis unfolding put using assms by (simp add: same_sizes_def)
  next
    case False
    then have pos: "?n \<noteq> 0" by blast
    have "(?n - 1) * ?k \<le> (?ceil - 1) * ?k" by (intro mult_right_mono) simp_all
    also have "\<dots> < length buf" using False k by (intro ceiling_below) simp_all
    finally have "(?n - 1) * ?k < length buf" .
    from write_packets_ok [OF assms _ this] obtain q' where
      q': "write_packets False ?n q buf = Some (drop (?n * ?k) buf, q')" "ring_ok q'" "same_sizes q q'"
        "packets q' = packets q @ cut ?k ?n buf" by auto
    have "length buf - length (drop (?n * ?k) buf) = min (length buf) (?n * ?k)" by (simp add: min_def)
    then have "queue_write False q buf = Some (min (length buf) (?n * ?k), q')"
      using False k q'(1) pos by (simp only: queue_write_def queue_free_size_def Let_def) simp
    with q'(2-4) show ?thesis by (simp add: put_packets_def Let_def)
  qed
qed

lemma multi_read_loop_ok:
  assumes "ring_ok q"
  shows "\<exists>q'. multi_read_loop q n = Some (fst (take_packets n (packets q)), q') \<and> ring_ok q' \<and> same_sizes q q'
     \<and> packets q' = snd (take_packets n (packets q))"
  using assms
proof (induction "packets q" arbitrary: q n)
  case Nil
  then show ?case by (simp add: multi_read_loop.simps [of q] queue_empty_iff same_sizes_def flip: Nil.hyps)
next
  case (Cons p ps)
  have p: "p \<noteq> []" using Cons.hyps(2) Cons.prems by (metis list.set_intros(1) ring_ok_def)
  show ?case
  proof (cases "n = 0")
    case True
    with p Cons.prems show ?thesis
      by (simp add: multi_read_loop.simps [of q] same_sizes_def flip: Cons.hyps(2))
  next
    case False
    with read_packet_ok [OF Cons.prems Cons.hyps(2) [symmetric]] obtain q1 where
      q1: "read_packet q n = Some (take n p, q1)" "ring_ok q1" "same_sizes q q1"
        "packets q1 = (if n < length p then drop n p # ps else ps)" by auto
    have l: "multi_read_loop q n = (case multi_read_loop q1 (n - length (take n p)) of None \<Rightarrow> None
        | Some (more_bytes, q) \<Rightarrow> Some (take n p @ more_bytes, q))"
      using False q1(1) by (simp add: multi_read_loop.simps [of q] queue_empty_iff flip: Cons.hyps(2))
    show ?thesis
    proof (cases "n < length p")
      case True
      with q1 l False show ?thesis by (simp add: multi_read_loop.simps [of q1] flip: Cons.hyps(2))
    next
      case longer: False
      with q1(4) have "ps = packets q1" by simp
      from Cons.hyps(1) [OF this q1(2), of "n - length p"] obtain q' where
        "multi_read_loop q1 (n - length p) = Some (fst (take_packets (n - length p) ps), q')" "ring_ok q'"
        "same_sizes q1 q'" "packets q' = snd (take_packets (n - length p) ps)"
        using \<open>ps = packets q1\<close> by auto
      with l longer q1(3) show ?thesis
        by (simp add: same_sizes_def flip: Cons.hyps(2) split: prod.split)
    qed
  qed
qed


definition take_from :: "bool \<Rightarrow> nat \<Rightarrow> 'a list list \<Rightarrow> 'a list \<times> 'a list list" where
  "take_from multi n ps = (if multi then take_packets n ps else if n = 0 then ([], ps) else take_packet n ps)"

lemma take_packets_0: "[] \<notin> set ps \<Longrightarrow> take_packets 0 ps = ([], ps)"
  by (cases ps) auto

lemma take_from_fifo:
  assumes "take_from multi n ps = (bs, ps')"
  shows "concat ps = bs @ concat ps'" "length bs \<le> n" "0 < n \<Longrightarrow> ps \<noteq> [] \<Longrightarrow> [] \<notin> set ps \<Longrightarrow> bs \<noteq> []"
proof -
  have "concat ps \<noteq> []" if "ps \<noteq> []" "[] \<notin> set ps" using that by (cases ps) auto
  then show "concat ps = bs @ concat ps'" "length bs \<le> n" "0 < n \<Longrightarrow> ps \<noteq> [] \<Longrightarrow> [] \<notin> set ps \<Longrightarrow> bs \<noteq> []"
    using assms take_packets_fifo [of n ps bs ps'] take_packet_fifo [of n ps bs ps']
    by (auto simp: take_from_def simp del: concat_eq_Nil_conv split: if_splits)
qed

lemma ring_read_ok:
  assumes "ring_ok q"
  shows "\<exists>q'. (if multi then multi_packet_read q n else single_packet_read q n) = Some (fst (take_from multi n (packets q)), q')
     \<and> ring_ok q' \<and> same_sizes q q' \<and> packets q' = snd (take_from multi n (packets q))"
proof (cases "n = 0 \<or> packets q = []")
  case True
  then show ?thesis using assms take_packets_0 [of "packets q"]
    by (auto simp: multi_packet_read_def single_packet_read_def queue_empty_iff same_sizes_def take_from_def take_packet_def ring_ok_def)
next
  case False
  then obtain p ps where p: "packets q = p # ps" by (cases "packets q") auto
  show ?thesis
  proof (cases multi)
    case True
    with False multi_read_loop_ok [OF assms, of n] show ?thesis
      by (simp add: multi_packet_read_def queue_empty_iff take_from_def)
  next
    case single: False
    with False p read_packet_ok [OF assms p, of n] show ?thesis
      by (auto simp: single_packet_read_def queue_empty_iff take_from_def take_packet_def)
  qed
qed

section \<open>The socket as a source of bytes\<close>

definition read_queue :: "guac_socket_shared_memory_data \<Rightarrow> guac_socket_shared_memory_region_queue" where
  "read_queue d = segments (shm_memory d) ! read_segment d"

definition shm_pending :: "guac_socket_shared_memory_data \<Rightarrow> char list" where
  "shm_pending d = concat (packets (read_queue d))"

definition shm_live :: "guac_socket_shared_memory_data \<Rightarrow> bool" where
  "shm_live d \<longleftrightarrow> ring_ok (read_queue d) \<and> read_segment d < length (segments (shm_memory d))"

lemma put_segment_simps [simp]:
  "read_segment (put_segment i q d) = read_segment d" "write_segment (put_segment i q d) = write_segment d"
  "segments (shm_memory (put_segment i q d)) = (segments (shm_memory d))[i := q]"
  "multi_read (put_segment i q d) = multi_read d" "streamlined_write (put_segment i q d) = streamlined_write d"
  by (simp_all add: put_segment_def read_segment_def write_segment_def)

interpretation shm_in: byte_source shm_read_handler shm_select_handler shm_pending shm_live
proof (unfold_locales, goal_cases)
  case (1 d count)
  let ?i = "read_segment d" and ?q = "read_queue d"
  from 1(1) have ok: "ring_ok ?q" "?i < length (segments (shm_memory d))" by (simp_all add: shm_live_def)
  from ring_read_ok [OF ok(1), of "multi_read d" count] obtain q' where
    q': "(if multi_read d then multi_packet_read ?q count else single_packet_read ?q count)
       = Some (fst (take_from (multi_read d) count (packets ?q)), q')" "ring_ok q'"
      "packets q' = snd (take_from (multi_read d) count (packets ?q))" by blast
  obtain bs ps' where t: "take_from (multi_read d) count (packets ?q) = (bs, ps')" by force
  have "packets ?q \<noteq> []" "[] \<notin> set (packets ?q)" using 1(2) ok(1) by (auto simp: shm_pending_def ring_ok_def)
  then show ?case using take_from_fifo [OF t] 1(3) q' t ok(2)
    by (auto simp: shm_read_handler_def Let_def shm_pending_def shm_live_def read_queue_def)
next
  case (2 d t)
  then show ?case
    by (auto simp: shm_select_handler_def Let_def queue_empty_iff shm_pending_def read_queue_def)
qed

section \<open>A pair of sockets\<close>

text \<open>Steps at either end, the parent's being \<open>True\<close>; what one end stores the other finds.\<close>

datatype shm_event = Shm_Write bool "char list" | Shm_Read bool nat

datatype shm_result = Wrote int | Got "char list"

type_synonym shm_pair = "guac_socket_shared_memory_data \<times> guac_socket_shared_memory_data"

definition share :: "bool \<Rightarrow> guac_socket_shared_memory_data \<Rightarrow> shm_pair \<Rightarrow> shm_pair" where
  "share parent d = (\<lambda>(p, c). if parent then (d, c\<lparr>shm_memory := shm_memory d\<rparr>) else (p\<lparr>shm_memory := shm_memory d\<rparr>, d))"

definition end_of :: "bool \<Rightarrow> shm_pair \<Rightarrow> guac_socket_shared_memory_data" where
  "end_of parent S = (if parent then fst S else snd S)"

fun shm_step :: "shm_pair \<Rightarrow> shm_event \<Rightarrow> (shm_result \<times> shm_pair) option" where
  "shm_step S (Shm_Write parent buf) =
     map_option (\<lambda>(n, d). (Wrote n, share parent d S)) (shm_write_handler (end_of parent S) buf)"
| "shm_step S (Shm_Read parent count) =
     map_option (\<lambda>(n, bs, d). (Got bs, share parent d S)) (shm_read_handler (end_of parent S) count)"

fun shm_run :: "shm_pair \<Rightarrow> shm_event list \<Rightarrow> (shm_result list \<times> shm_pair) option" where
  "shm_run S [] = Some ([], S)"
| "shm_run S (e # es) =
     (case shm_step S e of None \<Rightarrow> None
      | Some (r, S) \<Rightarrow> map_option (apfst (Cons r)) (shm_run S es))"

text \<open>The specification: a queue of packets in each direction, to the child and to the parent.\<close>

type_synonym pipes = "char list list \<times> char list list"

fun pipe_step :: "nat \<Rightarrow> nat \<Rightarrow> (bool \<Rightarrow> bool) \<Rightarrow> pipes \<Rightarrow> shm_event \<Rightarrow> shm_result \<times> pipes" where
  "pipe_step w limit multi (down, up) (Shm_Write True buf) =
     (case put_packets w limit down buf of (n, down) \<Rightarrow> (Wrote (int n), (down, up)))"
| "pipe_step w limit multi (down, up) (Shm_Write False buf) =
     (case put_packets w limit up buf of (n, up) \<Rightarrow> (Wrote (int n), (down, up)))"
| "pipe_step w limit multi (down, up) (Shm_Read False count) =
     (case take_from (multi False) count down of (bs, down) \<Rightarrow> (Got bs, (down, up)))"
| "pipe_step w limit multi (down, up) (Shm_Read True count) =
     (case take_from (multi True) count up of (bs, up) \<Rightarrow> (Got bs, (down, up)))"

fun pipe_run :: "nat \<Rightarrow> nat \<Rightarrow> (bool \<Rightarrow> bool) \<Rightarrow> pipes \<Rightarrow> shm_event list \<Rightarrow> shm_result list \<times> pipes" where
  "pipe_run w limit multi s [] = ([], s)"
| "pipe_run w limit multi s (e # es) =
     (case pipe_step w limit multi s e of (r, s) \<Rightarrow> apfst (Cons r) (pipe_run w limit multi s es))"


definition pipe_at :: "nat \<Rightarrow> nat \<Rightarrow> shared_memory \<Rightarrow> nat \<Rightarrow> char list list \<Rightarrow> bool" where
  "pipe_at w limit m i ps \<longleftrightarrow> i < length (segments m) \<and> ring_ok (segments m ! i)
     \<and> queue_packet_size (segments m ! i) = w \<and> queue_max_size (segments m ! i) = limit \<and> packets (segments m ! i) = ps"

definition pair_ok :: "nat \<Rightarrow> nat \<Rightarrow> (bool \<Rightarrow> bool) \<Rightarrow> pipes \<Rightarrow> shm_pair \<Rightarrow> bool" where
  "pair_ok w limit multi s S \<longleftrightarrow>
     (case S of (p, c) \<Rightarrow>
        is_parent p \<and> \<not> is_parent c \<and> \<not> streamlined_write p \<and> \<not> streamlined_write c
      \<and> multi_read p = multi True \<and> multi_read c = multi False
      \<and> shm_memory p = shm_memory c \<and> parent_to_child_queue p = parent_to_child_queue c
      \<and> child_to_parent_queue p = child_to_parent_queue c \<and> parent_to_child_queue c \<noteq> child_to_parent_queue c
      \<and> pipe_at w limit (shm_memory c) (parent_to_child_queue c) (fst s)
      \<and> pipe_at w limit (shm_memory c) (child_to_parent_queue c) (snd s))"

lemma pipe_at_other:
  "pipe_at w limit m j ps \<Longrightarrow> i \<noteq> j \<Longrightarrow> pipe_at w limit (m\<lparr>segments := (segments m)[i := q]\<rparr>) j ps"
  by (simp add: pipe_at_def)

lemma pipe_at_put:
  "pipe_at w limit m i ps \<Longrightarrow> ring_ok q \<Longrightarrow> same_sizes (segments m ! i) q \<Longrightarrow>
     pipe_at w limit (m\<lparr>segments := (segments m)[i := q]\<rparr>) i (packets q)"
  by (simp add: pipe_at_def same_sizes_def)

lemma pipe_write:
  assumes "pipe_at w limit (shm_memory d) (write_segment d) ps" and "\<not> streamlined_write d"
  shows "\<exists>q. shm_write_handler d buf = Some (int (fst (put_packets w limit ps buf)), put_segment (write_segment d) q d)
     \<and> pipe_at w limit (shm_memory (put_segment (write_segment d) q d)) (write_segment d) (snd (put_packets w limit ps buf))"
proof -
  let ?q = "segments (shm_memory d) ! write_segment d"
  have q: "ring_ok ?q" "queue_packet_size ?q = w" "queue_max_size ?q = limit" "packets ?q = ps"
    using assms(1) by (simp_all add: pipe_at_def)
  from queue_write_ok [OF q(1), of buf] obtain q' where
    q': "queue_write False ?q buf = Some (fst (put_packets w limit ps buf), q')" "ring_ok q'" "same_sizes ?q q'"
      "packets q' = snd (put_packets w limit ps buf)" unfolding q(2-4) by blast
  then show ?thesis using pipe_at_put [OF assms(1) q'(2,3)] assms(2)
    by (intro exI [of _ q']) (simp add: shm_write_handler_def Let_def put_segment_def)
qed

lemma pipe_read:
  assumes "pipe_at w limit (shm_memory d) (read_segment d) ps"
  shows "\<exists>n q. shm_read_handler d count = Some (n, fst (take_from (multi_read d) count ps), put_segment (read_segment d) q d)
     \<and> pipe_at w limit (shm_memory (put_segment (read_segment d) q d)) (read_segment d) (snd (take_from (multi_read d) count ps))"
proof -
  let ?q = "segments (shm_memory d) ! read_segment d"
  have q: "ring_ok ?q" "packets ?q = ps" using assms(1) by (simp_all add: pipe_at_def)
  from ring_read_ok [OF q(1), of "multi_read d" count] obtain q' where
    q': "(if multi_read d then multi_packet_read ?q count else single_packet_read ?q count)
        = Some (fst (take_from (multi_read d) count ps), q')" "ring_ok q'" "same_sizes ?q q'"
      "packets q' = snd (take_from (multi_read d) count ps)" unfolding q(2) by blast
  then show ?thesis using pipe_at_put [OF assms(1) q'(2,3)]
    by (intro exI [of _ "int (length (fst (take_from (multi_read d) count ps)))"] exI [of _ q'])
      (simp add: shm_read_handler_def Let_def put_segment_def)
qed

lemma put_segment_fields [simp]:
  "is_parent (put_segment i q d) = is_parent d" "parent_to_child_queue (put_segment i q d) = parent_to_child_queue d"
  "child_to_parent_queue (put_segment i q d) = child_to_parent_queue d"
  "shm_memory (put_segment i q d) = (shm_memory d)\<lparr>segments := (segments (shm_memory d))[i := q]\<rparr>"
  by (simp_all add: put_segment_def)

lemma pair_step:
  assumes "pair_ok w limit multi s S"
  shows "\<exists>S'. shm_step S e = Some (fst (pipe_step w limit multi s e), S') \<and> pair_ok w limit multi (snd (pipe_step w limit multi s e)) S'"
proof -
  obtain p c where S: "S = (p, c)" by force
  obtain down up where s: "s = (down, up)" by force
  note ok = assms [unfolded S s pair_ok_def prod.case fst_conv snd_conv]
  have segs: "write_segment p = parent_to_child_queue c" "read_segment p = child_to_parent_queue c"
    "write_segment c = child_to_parent_queue c" "read_segment c = parent_to_child_queue c"
    using ok by (simp_all add: write_segment_def read_segment_def)
  show ?thesis
  proof (cases e)
    case (Shm_Write parent buf)
    then show ?thesis
      using ok pipe_write [of w limit p down buf] pipe_write [of w limit c up buf]
      by (cases parent) (auto simp: pair_ok_def S s segs end_of_def share_def pipe_at_other split: prod.split)
  next
    case (Shm_Read parent n)
    then show ?thesis
      using ok pipe_read [of w limit p up n] pipe_read [of w limit c down n]
      by (cases parent) (auto simp: pair_ok_def S s segs end_of_def share_def pipe_at_other split: prod.split)
  qed
qed

lemma pair_run:
  "pair_ok w limit multi s S \<Longrightarrow>
     \<exists>S'. shm_run S es = Some (fst (pipe_run w limit multi s es), S') \<and> pair_ok w limit multi (snd (pipe_run w limit multi s es)) S'"
proof (induction es arbitrary: s S)
  case (Cons e es)
  from pair_step [OF Cons.prems, of e] obtain S1 where S1: "shm_step S e = Some (fst (pipe_step w limit multi s e), S1)"
    "pair_ok w limit multi (snd (pipe_step w limit multi s e)) S1" by blast
  from Cons.IH [OF S1(2)] S1(1) show ?case by (auto split: prod.split)
qed simp

text \<open>What was accepted at one end and what was received at the other.\<close>

fun accepted :: "bool \<Rightarrow> shm_event list \<Rightarrow> shm_result list \<Rightarrow> char list" where
  "accepted parent (Shm_Write e buf # es) (Wrote n # rs) = (if e = parent then take (nat n) buf else []) @ accepted parent es rs"
| "accepted parent (_ # es) (_ # rs) = accepted parent es rs"
| "accepted parent _ _ = []"

fun received :: "bool \<Rightarrow> shm_event list \<Rightarrow> shm_result list \<Rightarrow> char list" where
  "received parent (Shm_Read e n # es) (Got bs # rs) = (if e = parent then bs else []) @ received parent es rs"
| "received parent (_ # es) (_ # rs) = received parent es rs"
| "received parent _ _ = []"

lemma pipe_run_fifo:
  assumes "pipe_run w limit multi (down, up) es = (rs, down', up')"
  shows "concat down @ accepted True es rs = received False es rs @ concat down'
       \<and> concat up @ accepted False es rs = received True es rs @ concat up'"
  using assms
proof (induction es arbitrary: down up rs)
  case (Cons e es)
  obtain r down1 up1 where s: "pipe_step w limit multi (down, up) e = (r, down1, up1)" by (metis prod_cases3)
  obtain rs1 where r: "pipe_run w limit multi (down1, up1) es = (rs1, down', up')" "rs = r # rs1"
    using Cons.prems s by (auto simp: apfst_def map_prod_def split: prod.splits)
  note IH = Cons.IH [OF r(1)]
  show ?case
  proof (cases e)
    case (Shm_Write parent buf)
    then show ?thesis using s r IH put_packets_fifo [of w limit down buf] put_packets_fifo [of w limit up buf]
      by (cases parent) (auto split: prod.splits)
  next
    case (Shm_Read parent n)
    then show ?thesis using s r IH take_from_fifo(1) [of "multi False" n down] take_from_fifo(1) [of "multi True" n up]
      by (cases parent) (auto split: prod.splits)
  qed
qed simp


section \<open>A channel of packets\<close>

lemma fresh_ring:
  assumes "0 < limit" "0 < w"
  shows "ring_ok (fresh_queue limit w)" "packets (fresh_queue limit w) = []"
    "queue_packet_size (fresh_queue limit w) = w" "queue_max_size (fresh_queue limit w) = limit"
proof -
  show p: "packets (fresh_queue limit w) = []" by (simp add: packets_def fresh_queue_def)
  show "ring_ok (fresh_queue limit w)"
    using assms p by (auto simp: ring_ok_def ring_shape_def fresh_queue_def ring_index_def in_set_replicate)
qed (simp_all add: fresh_queue_def)

lemma sk_data_shm [simp]: "sk_data (shm_socket d clk) = d"
  by (simp add: shm_socket_def guac_socket_alloc_def)

lemma channel_opened:
  assumes "0 < limit" "0 < w"
  shows "\<exists>p m' c. guac_socket_shared_memory_socket_create None None m waits clk shname multi False limit w
         = (Some (shm_socket p clk), m')
     \<and> guac_socket_shared_memory_socket_join m' waits' clk' shname multi' False = Some (shm_socket c clk')
     \<and> pair_ok w limit (\<lambda>parent. if parent then multi else multi') ([], []) (p, c)"
proof -
  let ?n = "length (segments m)"
  let ?m = "m\<lparr>segments := segments m @ [fresh_queue limit w, fresh_queue limit w],
      segment_names := (segment_names m)(shname @ ''_PTC'' \<mapsto> ?n, shname @ ''_CTP'' \<mapsto> Suc ?n)\<rparr>"
  let ?d = "\<lambda>parent multi waits. \<lparr>parent_to_child_queue = ?n, child_to_parent_queue = Suc ?n, region_name = shname,
      is_parent = parent, multi_read = multi, streamlined_write = False, shm_memory = ?m, shm_wait = waits, shm_waits = 0\<rparr>"
  have c: "guac_socket_shared_memory_socket_create None None m waits clk shname multi False limit w
      = (Some (shm_socket (?d True multi waits) clk), ?m)"
    by (simp add: guac_socket_shared_memory_socket_create_def queue_create_def)
  have j: "guac_socket_shared_memory_socket_join ?m waits' clk' shname multi' False
      = Some (shm_socket (?d False multi' waits') clk')"
    by (simp add: guac_socket_shared_memory_socket_join_def queue_join_def)
  have "pair_ok w limit (\<lambda>parent. if parent then multi else multi') ([], []) (?d True multi waits, ?d False multi' waits')"
    using fresh_ring [OF assms] by (simp add: pair_ok_def pipe_at_def nth_append)
  with c j show ?thesis by blast
qed

text \<open>
  C26. Two processes joined over shared memory without streamlining see, whatever either does at its end, a bounded
  queue of packets in each direction, kept in a ring; what arrives at one end is what was accepted at the other, in
  order, and no access leaves a buffer.
\<close>

theorem shared_memory_pipe:
  assumes "0 < limit" "0 < w"
  shows "\<exists>P m' C. guac_socket_shared_memory_socket_create None None m waits clk shname multi False limit w = (Some P, m')
     \<and> guac_socket_shared_memory_socket_join m' waits' clk' shname multi' False = Some C
     \<and> (\<forall>es. \<exists>rs down up S'.
          pipe_run w limit (\<lambda>parent. if parent then multi else multi') ([], []) es = (rs, down, up)
        \<and> shm_run (sk_data P, sk_data C) es = Some (rs, S')
        \<and> accepted True es rs = received False es rs @ concat down
        \<and> accepted False es rs = received True es rs @ concat up)"
proof -
  let ?multi = "\<lambda>parent. if parent then multi else multi'"
  from channel_opened [OF assms] obtain p m' c where
    o: "guac_socket_shared_memory_socket_create None None m waits clk shname multi False limit w = (Some (shm_socket p clk), m')"
      "guac_socket_shared_memory_socket_join m' waits' clk' shname multi' False = Some (shm_socket c clk')"
      "pair_ok w limit ?multi ([], []) (p, c)" by blast
  have each: "\<exists>rs down up S'. pipe_run w limit ?multi ([], []) es = (rs, down, up) \<and> shm_run (p, c) es = Some (rs, S')
      \<and> accepted True es rs = received False es rs @ concat down
      \<and> accepted False es rs = received True es rs @ concat up" for es
  proof -
    obtain rs down up where r: "pipe_run w limit ?multi ([], []) es = (rs, down, up)" by (metis prod_cases3)
    with pair_run [OF o(3), of es] pipe_run_fifo [OF r] show ?thesis by auto
  qed
  show ?thesis
    by (intro exI conjI, rule o(1), rule o(2)) (unfold sk_data_shm, intro allI, rule each)
qed


theorem shared_memory_pipe_witness:
  "\<exists>P m' C. guac_socket_shared_memory_socket_create None None \<lparr>segments = [], segment_names = Map.empty\<rparr> (\<lambda>_. None) (\<lambda>_. 0)
       ''region'' False False 2 256 = (Some P, m')
     \<and> guac_socket_shared_memory_socket_join m' (\<lambda>_. None) (\<lambda>_. 0) ''region'' True False = Some C
     \<and> (\<forall>es. \<exists>rs down up S'.
          pipe_run 256 2 (\<lambda>parent. if parent then False else True) ([], []) es = (rs, down, up)
        \<and> shm_run (sk_data P, sk_data C) es = Some (rs, S')
        \<and> accepted True es rs = received False es rs @ concat down
        \<and> accepted False es rs = received True es rs @ concat up)"
  by (rule shared_memory_pipe) simp_all

section \<open>Instructions over the channel\<close>

lemma packets_needed_bound: "n \<le> packets_needed n w * w" if "0 < w"
proof -
  have "n + w - 1 < packets_needed n w * w + w"
    unfolding packets_needed_def using that by (metis dividend_less_div_times add.commute)
  with that show ?thesis by linarith
qed

lemma pipe_source:
  assumes "pipe_at w limit m (read_segment d) ps"
  shows "shm_live (d\<lparr>shm_memory := m\<rparr>)" "shm_pending (d\<lparr>shm_memory := m\<rparr>) = concat ps"
proof -
  have "read_segment (d\<lparr>shm_memory := m\<rparr>) = read_segment d" by (simp add: read_segment_def)
  then show "shm_live (d\<lparr>shm_memory := m\<rparr>)" "shm_pending (d\<lparr>shm_memory := m\<rparr>) = concat ps"
    using assms by (simp_all add: shm_live_def shm_pending_def read_queue_def pipe_at_def)
qed

lemma shm_write_all:
  assumes "pair_ok w limit multi ([], []) (p, c)" and "packets_needed (length buf) w \<le> limit" and "0 < w"
  shows "\<exists>d s. guac_socket_write (shm_socket p clk) buf = Some (0, s) \<and> sk_data s = d
     \<and> shm_live (c\<lparr>shm_memory := shm_memory d\<rparr>) \<and> shm_pending (c\<lparr>shm_memory := shm_memory d\<rparr>) = buf"
proof (cases "buf = []")
  case True
  with assms(1) show ?thesis
    by (simp add: guac_socket_write.simps pair_ok_def shm_live_def shm_pending_def read_queue_def read_segment_def pipe_at_def)
next
  case False
  note ok = assms(1) [unfolded pair_ok_def prod.case fst_conv snd_conv]
  have w: "write_segment p = parent_to_child_queue c" using ok by (simp add: write_segment_def)
  have m: "min (length buf) (min (packets_needed (length buf) w) limit * w) = length buf"
    using packets_needed_bound [OF assms(3), of "length buf"] assms(2) by (simp add: min_def)
  obtain n ps where put: "put_packets w limit [] buf = (n, ps)" by force
  have n: "n = length buf" using put m by (simp add: put_packets_def Let_def)
  have ps: "concat ps = buf" using put_packets_fifo [OF put] n by simp
  from pipe_write [of w limit p "[]" buf] ok w put n obtain q where
    q: "shm_write_handler p buf = Some (int (length buf), put_segment (write_segment p) q p)"
      "pipe_at w limit (shm_memory (put_segment (write_segment p) q p)) (write_segment p) ps" by auto
  let ?d = "put_segment (write_segment p) q p"
  have "guac_socket_write (shm_socket p clk) buf
      = Some (0, (shm_socket p clk)\<lparr>sk_tick := 2, last_write_timestamp := clk 1, sk_data := ?d\<rparr>)"
    using False q(1) by (simp add: guac_socket_write.simps socket_write_once_def socket_timestamp_current_def Let_def
        shm_socket_def guac_socket_alloc_def numeral_2_eq_2)
  moreover have "pipe_at w limit (shm_memory ?d) (read_segment c) ps" using q(2) w ok by (simp add: read_segment_def)
  from pipe_source [OF this] have "shm_live (c\<lparr>shm_memory := shm_memory ?d\<rparr>)"
    "shm_pending (c\<lparr>shm_memory := shm_memory ?d\<rparr>) = buf" unfolding ps by simp_all
  ultimately show ?thesis by (intro exI [of _ ?d] exI conjI) (assumption | simp)+
qed

text \<open>
  C27. Instructions the parent writes into a channel with room for them are what the parser of the child reads from its
  end, one by one.
\<close>

theorem shared_memory_instructions:
  assumes "0 < w" and "packets_needed (length (concat (map encode_instruction ess))) w \<le> limit" "0 < limit"
    and "\<forall>es \<in> set ess. fits es" and "length junk = 32768" "length ptrs = 64"
  shows "\<exists>P m' C s. guac_socket_shared_memory_socket_create None None m waits clk shname multi False limit w = (Some P, m')
     \<and> guac_socket_shared_memory_socket_join m' waits' clk' shname multi' False = Some C
     \<and> guac_socket_write P (concat (map encode_instruction ess)) = Some (0, s)
     \<and> parser_read_many (length ess) (guac_parser_alloc junk ptrs)
          (C\<lparr>sk_data := (sk_data C)\<lparr>shm_memory := shm_memory (sk_data s)\<rparr>\<rparr>) t
        = Some (map (\<lambda>es. (hd es, tl es)) ess)"
proof -
  let ?bytes = "concat (map encode_instruction ess)"
  from channel_opened [OF assms(3,1)] obtain p m' c where
    o: "guac_socket_shared_memory_socket_create None None m waits clk shname multi False limit w = (Some (shm_socket p clk), m')"
      "guac_socket_shared_memory_socket_join m' waits' clk' shname multi' False = Some (shm_socket c clk')"
      "pair_ok w limit (\<lambda>parent. if parent then multi else multi') ([], []) (p, c)" by blast
  from shm_write_all [OF o(3) assms(2,1)] obtain s where s: "guac_socket_write (shm_socket p clk) ?bytes = Some (0, s)"
    "shm_live (c\<lparr>shm_memory := shm_memory (sk_data s)\<rparr>)" "shm_pending (c\<lparr>shm_memory := shm_memory (sk_data s)\<rparr>) = ?bytes"
    by blast
  let ?C = "(shm_socket c clk')\<lparr>sk_data := c\<lparr>shm_memory := shm_memory (sk_data s)\<rparr>\<rparr>"
  have r: "shm_in.is_readable ?C" by (simp add: readable_def shm_socket_def)
  from parser_alloc_idle [OF assms(5,6)] s(2,3)
  have p: "parser_read_many (length ess) (guac_parser_alloc junk ptrs) ?C t = Some (map (\<lambda>es. (hd es, tl es)) ess)"
    by (intro shm_in.read_many_ok) (simp_all add: r assms(4))
  show ?thesis by (intro exI conjI, rule o(1), rule o(2), rule s(1)) (unfold sk_data_shm, rule p)
qed


theorem shared_memory_instructions_witness:
  "\<exists>P m' C s. guac_socket_shared_memory_socket_create None None \<lparr>segments = [], segment_names = Map.empty\<rparr> (\<lambda>_. None)
       (\<lambda>_. 0) ''region'' False False 4 8 = (Some P, m')
     \<and> guac_socket_shared_memory_socket_join m' (\<lambda>_. None) (\<lambda>_. 0) ''region'' True False = Some C
     \<and> guac_socket_write P ''4.sync,2.17;3.nop;'' = Some (0, s)
     \<and> parser_read_many 2 (guac_parser_alloc (replicate 32768 NUL) (replicate 64 0))
          (C\<lparr>sk_data := (sk_data C)\<lparr>shm_memory := shm_memory (sk_data s)\<rparr>\<rparr>) 0 = Some [(''sync'', [''17'']), (''nop'', [])]"
proof -
  have e: "encode_element ''17'' = ''2.17''" by (simp add: opcode digits_of_nat.simps digit_chars)
  have f: "fits [''sync'', ''17'']" "fits [''nop'']" by (rule plain_fits; simp add: e wire_simps)+
  have t: "concat (map encode_instruction [[''sync'', ''17''], [''nop'']]) = ''4.sync,2.17;3.nop;''" by (simp add: e wire_simps)
  have n: "packets_needed (length ''4.sync,2.17;3.nop;'') 8 = 3" by (simp add: packets_needed_def)
  show ?thesis
    using shared_memory_instructions [of 8 "[[''sync'', ''17''], [''nop'']]" 4 "replicate 32768 NUL" "replicate 64 0"] f
    unfolding t n by (simp add: numeral_2_eq_2)
qed

section \<open>Streamlined writing\<close>

lemma one_packet_needed: "0 < n \<Longrightarrow> n \<le> w \<Longrightarrow> packets_needed n w = 1"
  by (simp add: packets_needed_def div_nat_eqI)

lemma streamlined_write:
  assumes "buf \<noteq> []" and "queue_current_size q < queue_max_size q" and "p = queue_packets q ! queue_write_marker q"
    and "current_packet_size p + length buf \<le> queue_packet_size q"
    and "current_read_byte p + current_packet_size p + length buf \<le> length (packet_buffer p)"
  shows "queue_write True q buf = Some (length buf, q\<lparr>queue_current_size := queue_current_size q + 1,
      queue_packets := (queue_packets q)[queue_write_marker q := p\<lparr>packet_buffer :=
          take (current_read_byte p + current_packet_size p) (packet_buffer p) @ buf
          @ drop (current_read_byte p + current_packet_size p + length buf) (packet_buffer p),
        current_packet_size := current_packet_size p + length buf\<rparr>]\<rparr>)"
proof -
  have "packets_needed (length buf) (queue_packet_size q) = 1" using assms(1,4) by (intro one_packet_needed) auto
  moreover have "min (length buf) (queue_packet_size q - current_packet_size p) = length buf"
    "current_packet_size p \<noteq> queue_packet_size q" "queue_packet_size q \<noteq> 0"
    using assms(1,4) by (cases buf; auto simp: min_def)+
  moreover have "min 1 (queue_max_size q - queue_current_size q) = Suc 0" using assms(2) by simp
  ultimately show ?thesis using assms(1,2,5) unfolding assms(3)
    by (simp add: queue_write_def write_packet_def queue_start_push_def queue_end_push_def queue_free_size_def Let_def)
qed


text \<open>The ring from the states of its first packets, the others being as they were created.\<close>

definition new_packet :: "nat \<Rightarrow> guac_socket_shared_memory_region_packet" where
  "new_packet w = \<lparr>current_packet_size = 0, current_read_byte = 0, packet_buffer = replicate w NUL\<rparr>"

definition ring_with ::
  "nat \<Rightarrow> nat \<Rightarrow> nat \<Rightarrow> nat \<Rightarrow> guac_socket_shared_memory_region_packet \<Rightarrow> guac_socket_shared_memory_region_queue" where
  "ring_with limit w n r p = \<lparr>queue_current_size = n, queue_max_size = limit, queue_packet_size = w, queue_read_marker = r,
     queue_write_marker = 0, queue_packets = (replicate limit (new_packet w))[0 := p]\<rparr>"

lemma fresh_queue_ring: "fresh_queue limit w = ring_with limit w 0 0 (new_packet w)"
  by (cases limit) (simp_all add: fresh_queue_def ring_with_def new_packet_def)

text \<open>A packet with room holding \<open>xs\<close> from its start.\<close>

definition holding :: "nat \<Rightarrow> char list \<Rightarrow> char list \<Rightarrow> guac_socket_shared_memory_region_packet" where
  "holding w xs junk = \<lparr>current_packet_size = length xs, current_read_byte = 0, packet_buffer = xs @ junk\<rparr>"

lemma ring_write:
  assumes "n < limit" "buf \<noteq> []" "length xs + length junk = w" "length xs + length buf \<le> w"
  shows "queue_write True (ring_with limit w n r (holding w xs junk)) buf
     = Some (length buf, ring_with limit w (Suc n) r (holding w (xs @ buf) (drop (length buf) junk)))"
  using assms by (subst streamlined_write [where p = "holding w xs junk"]) (simp_all add: ring_with_def holding_def)

lemma ring_read_exactly:
  assumes "xs \<noteq> []" "1 < n" "1 < limit" "length xs + length junk = w"
  shows "multi_packet_read (ring_with limit w n 0 (holding w xs junk)) (length xs)
     = Some (xs, ring_with limit w (n - 1) 1 (holding w [] (xs @ junk)))"
  using assms
  by (simp add: multi_packet_read_def multi_read_loop.simps queue_empty_def ring_with_def read_packet_def queue_peek_def Let_def
      holding_def queue_pop_def reset_packet_def)

lemma update_same: "0 < i \<Longrightarrow> i < n \<Longrightarrow> (replicate n x)[0 := p, i := x] = (replicate n x)[0 := p]"
  by (rule nth_equalityI) (auto simp: nth_list_update)

lemma ring_read_stale:
  assumes "0 < n" "2 < limit"
  shows "multi_packet_read (ring_with limit w 2 1 p) n = Some ([], ring_with limit w 0 0 p)"
proof -
  have 1: "read_packet (ring_with limit w 2 1 p) n = Some ([], ring_with limit w 1 2 p)"
    using assms by (simp add: ring_with_def read_packet_def queue_peek_def Let_def new_packet_def queue_pop_def reset_packet_def update_same)
  have 2: "read_packet (ring_with limit w 1 2 p) n = Some ([], ring_with limit w 0 0 p)"
    using assms by (simp add: ring_with_def read_packet_def queue_peek_def Let_def new_packet_def queue_pop_def reset_packet_def update_same)
  have e: "queue_empty (ring_with limit w m r p) \<longleftrightarrow> m = 0" for m r by (simp add: queue_empty_def ring_with_def)
  show ?thesis using assms 1 2 by (simp add: multi_packet_read_def multi_read_loop.simps e)
qed


lemma ring_overrun:
  assumes "length xs = w" "0 < r" "r < w" "buf \<noteq> []" "1 < limit"
  shows "\<exists>q. multi_packet_read (ring_with limit w 1 0 (holding w xs [])) r = Some (take r xs, q) \<and> queue_write True q buf = None"
proof -
  let ?q = "ring_with limit w 1 0 \<lparr>current_packet_size = w - r, current_read_byte = r, packet_buffer = xs\<rparr>"
  have "read_packet (ring_with limit w 1 0 (holding w xs [])) r = Some (take r xs, ?q)"
    using assms by (simp add: ring_with_def read_packet_def queue_peek_def Let_def holding_def min_absorb1)
  then have "multi_packet_read (ring_with limit w 1 0 (holding w xs [])) r = Some (take r xs, ?q)"
    using assms by (simp add: multi_packet_read_def multi_read_loop.simps queue_empty_def ring_with_def min_absorb2)
  moreover have "queue_write True ?q buf = None"
  proof -
    obtain k where k: "min (packets_needed (length buf) w) (limit - 1) = Suc k"
      using assms packets_needed_bound [of w "length buf"]
      by (cases "packets_needed (length buf) w"; cases "limit - 1") auto
    have fits: "r + (w - r) = w" "0 < min (length buf) (w - (w - r))" "w - r \<noteq> w"
      using assms(2-4) by (cases buf; simp)+
    have "write_packet True ?q buf = None"
      using fits assms(5) by (simp add: write_packet_def queue_start_push_def ring_with_def Let_def assms(1))
    moreover have e: "queue_packet_size ?q = w" "queue_free_size ?q = limit - 1"
      by (simp_all add: ring_with_def queue_free_size_def)
    ultimately show ?thesis using assms(3,4) unfolding queue_write_def e Let_def k by simp
  qed
  ultimately show ?thesis by blast
qed


definition linked :: "guac_socket_shared_memory_region_queue \<Rightarrow> shm_pair \<Rightarrow> bool" where
  "linked q S \<longleftrightarrow> (case S of (p, c) \<Rightarrow> is_parent p \<and> \<not> is_parent c \<and> streamlined_write p \<and> multi_read c
     \<and> shm_memory p = shm_memory c \<and> write_segment p = read_segment c
     \<and> read_segment c < length (segments (shm_memory c)) \<and> segments (shm_memory c) ! read_segment c = q)"

lemma linked_write:
  assumes "linked q S"
  shows "queue_write True q buf = Some (n, q') \<Longrightarrow> \<exists>S'. shm_step S (Shm_Write True buf) = Some (Wrote (int n), S') \<and> linked q' S'"
    and "queue_write True q buf = None \<Longrightarrow> shm_step S (Shm_Write True buf) = None"
  using assms
  by (cases S; simp add: linked_def shm_write_handler_def end_of_def share_def Let_def read_segment_def write_segment_def put_segment_def)+

lemma linked_read:
  assumes "linked q S" "multi_packet_read q count = Some (bs, q')"
  shows "shm_read_handler (snd S) count = Some (int (length bs), bs, put_segment (read_segment (snd S)) q' (snd S))"
    and "\<exists>S'. shm_step S (Shm_Read False count) = Some (Got bs, S') \<and> linked q' S'"
  using assms
  by (cases S; simp add: linked_def shm_read_handler_def end_of_def share_def Let_def read_segment_def write_segment_def put_segment_def)+

lemma streamlined_opened:
  "\<exists>P m' C. guac_socket_shared_memory_socket_create None None m waits clk shname True True limit w = (Some P, m')
     \<and> guac_socket_shared_memory_socket_join m' waits' clk' shname True True = Some C
     \<and> linked (fresh_queue limit w) (sk_data P, sk_data C)"
  by (simp add: guac_socket_shared_memory_socket_create_def queue_create_def guac_socket_shared_memory_socket_join_def queue_join_def
      linked_def write_segment_def read_segment_def nth_append)

text \<open>
  C28. With streamlined writing and reading of several packets, the mode of the sockets of the users: after a read that
  takes exactly what is there, the next bytes are accepted and reported as ready, but the read that follows returns
  none, which the parser takes for the end of the connection; and after a read of part of a full packet the next write
  leaves the buffer of the packet.
\<close>

theorem streamlined_channel_fails:
  assumes "2 < limit" and "a \<noteq> []" "b \<noteq> []" "c \<noteq> []" "length a + length b \<le> w" "length c \<le> w" "0 < n"
    and "length full = w" "0 < r" "r < w"
  shows "\<exists>P m' C S. guac_socket_shared_memory_socket_create None None m waits clk shname True True limit w = (Some P, m')
     \<and> guac_socket_shared_memory_socket_join m' waits' clk' shname True True = Some C
     \<and> shm_run (sk_data P, sk_data C)
          [Shm_Write True a, Shm_Write True b, Shm_Read False (length a + length b), Shm_Write True c]
        = Some ([Wrote (int (length a)), Wrote (int (length b)), Got (a @ b), Wrote (int (length c))], S)
     \<and> shm_select_handler (snd S) t = Some (1, snd S)
     \<and> (\<exists>d. shm_read_handler (snd S) n = Some (0, [], d))
     \<and> shm_run (sk_data P, sk_data C) [Shm_Write True full, Shm_Read False r, Shm_Write True c] = None"
proof -
  let ?zero = "replicate w NUL"
  let ?ring = "\<lambda>n r xs junk. ring_with limit w n r (holding w xs junk)"
  from streamlined_opened obtain P m' C where
    o: "guac_socket_shared_memory_socket_create None None m waits clk shname True True limit w = (Some P, m')"
      "guac_socket_shared_memory_socket_join m' waits' clk' shname True True = Some C"
      "linked (fresh_queue limit w) (sk_data P, sk_data C)" by blast
  have new: "new_packet w = holding w [] ?zero" by (simp add: new_packet_def holding_def)
  have l0: "linked (?ring 0 0 [] ?zero) (sk_data P, sk_data C)" using o(3) unfolding fresh_queue_ring new .
  have w: "queue_write True (?ring 0 0 [] ?zero) a = Some (length a, ?ring 1 0 a (drop (length a) ?zero))"
    using ring_write [of 0 limit a "[]" ?zero w 0] assms by simp
  then obtain S1 where S1: "shm_step (sk_data P, sk_data C) (Shm_Write True a) = Some (Wrote (int (length a)), S1)"
    "linked (?ring 1 0 a (drop (length a) ?zero)) S1" using linked_write(1) [OF l0] by blast
  have "queue_write True (?ring 1 0 a (drop (length a) ?zero)) b
      = Some (length b, ?ring 2 0 (a @ b) (drop (length b) (drop (length a) ?zero)))"
    using ring_write [of 1 limit b a "drop (length a) ?zero" w 0] assms by (simp add: numeral_2_eq_2)
  then obtain S2 where S2: "shm_step S1 (Shm_Write True b) = Some (Wrote (int (length b)), S2)"
    "linked (?ring 2 0 (a @ b) (drop (length b) (drop (length a) ?zero))) S2" using linked_write(1) [OF S1(2)] by blast
  obtain junk where "multi_packet_read (?ring 2 0 (a @ b) (drop (length b) (drop (length a) ?zero))) (length a + length b)
      = Some (a @ b, ?ring 1 1 [] junk)" and junk: "length junk = w"
    using ring_read_exactly [of "a @ b" 2 limit "drop (length b) (drop (length a) ?zero)" w] assms by auto
  then obtain S3 where S3: "shm_step S2 (Shm_Read False (length a + length b)) = Some (Got (a @ b), S3)"
    "linked (?ring 1 1 [] junk) S3" using linked_read(2) [OF S2(2)] by blast
  have "queue_write True (?ring 1 1 [] junk) c = Some (length c, ?ring 2 1 c (drop (length c) junk))"
    using ring_write [of 1 limit c "[]" junk w 1] assms junk by (simp add: numeral_2_eq_2)
  then obtain S4 where S4: "shm_step S3 (Shm_Write True c) = Some (Wrote (int (length c)), S4)"
    "linked (?ring 2 1 c (drop (length c) junk)) S4" using linked_write(1) [OF S3(2)] by blast
  have r: "shm_run (sk_data P, sk_data C)
        [Shm_Write True a, Shm_Write True b, Shm_Read False (length a + length b), Shm_Write True c]
      = Some ([Wrote (int (length a)), Wrote (int (length b)), Got (a @ b), Wrote (int (length c))], S4)"
    by (simp add: S1(1) S2(1) S3(1) S4(1) del: shm_step.simps)
  have sel: "shm_select_handler (snd S4) t = Some (1, snd S4)"
    using S4(2) by (cases S4) (simp add: linked_def shm_select_handler_def Let_def queue_empty_def ring_with_def)
  have stale: "\<exists>d. shm_read_handler (snd S4) n = Some (0, [], d)"
    using linked_read(1) [OF S4(2) ring_read_stale [OF assms(7,1)]] by simp
  have "queue_write True (?ring 0 0 [] ?zero) full = Some (w, ?ring 1 0 full [])"
    using ring_write [of 0 limit full "[]" ?zero w 0] assms(1,8-10) by (cases full) auto
  then obtain T1 where T1: "shm_step (sk_data P, sk_data C) (Shm_Write True full) = Some (Wrote (int w), T1)"
    "linked (?ring 1 0 full []) T1" using linked_write(1) [OF l0] by blast
  obtain q where q: "multi_packet_read (?ring 1 0 full []) r = Some (take r full, q)" "queue_write True q c = None"
    using ring_overrun [OF assms(8-10,4), of limit] assms(1) by auto
  obtain T2 where T2: "shm_step T1 (Shm_Read False r) = Some (Got (take r full), T2)" "linked q T2"
    using linked_read(2) [OF T1(2) q(1)] by blast
  have over: "shm_run (sk_data P, sk_data C) [Shm_Write True full, Shm_Read False r, Shm_Write True c] = None"
    using linked_write(2) [OF T2(2) q(2)] by (simp add: T1(1) T2(1) del: shm_step.simps)
  show ?thesis
    by (rule exI [of _ P], rule exI [of _ m'], rule exI [of _ C], rule exI [of _ S4])
      (intro conjI o(1,2) r sel stale over)
qed

theorem streamlined_channel_fails_witness:
  "\<exists>P m' C S. guac_socket_shared_memory_socket_create None None \<lparr>segments = [], segment_names = Map.empty\<rparr> (\<lambda>_. None)
       (\<lambda>_. 0) ''user'' True True 1024 4 = (Some P, m')
     \<and> guac_socket_shared_memory_socket_join m' (\<lambda>_. None) (\<lambda>_. 0) ''user'' True True = Some C
     \<and> shm_run (sk_data P, sk_data C) [Shm_Write True ''a'', Shm_Write True ''b'', Shm_Read False 2, Shm_Write True ''c'']
        = Some ([Wrote 1, Wrote 1, Got ''ab'', Wrote 1], S)
     \<and> shm_select_handler (snd S) 0 = Some (1, snd S)
     \<and> (\<exists>d. shm_read_handler (snd S) 16 = Some (0, [], d))
     \<and> shm_run (sk_data P, sk_data C) [Shm_Write True ''full'', Shm_Read False 1, Shm_Write True ''c''] = None"
  using streamlined_channel_fails [of 1024 "''a''" "''b''" "''c''" 4 16 "''full''" 1] by (simp add: numeral_2_eq_2)

end
