(* ===== verification/Rdp_Unicode.thy ===== *)
theory Rdp_Unicode
  imports Unicode Winpr_Stream
begin

text \<open>
  \<open>protocols/rdp/src/unicode.c\<close>: the names in RDP messages are UTF-16, those of the drive UTF-8. Code points are those
  of 16 bits; the machine is little-endian.
\<close>

text \<open>The loop of \<open>guac_rdp_utf16_to_utf8\<close>: the bytes stored and the room left after them.\<close>

fun utf16_to_utf8_loop :: "nat \<Rightarrow> u8 list \<Rightarrow> int \<Rightarrow> (char list \<times> int) option" where
  "utf16_to_utf8_loop 0 utf16 room = Some ([], room)"
| "utf16_to_utf8_loop (Suc n) utf16 room =
     (case read_u16 utf16 of None \<Rightarrow> None
      | Some (codepoint, utf16) \<Rightarrow>
          let bytes = guac_utf8_write (uint codepoint) room in
          map_option (apfst ((@) bytes)) (utf16_to_utf8_loop n utf16 (room - int (length bytes))))"

text \<open>The string stored; \<open>None\<close> is a read past the input, or a terminator stored past the array.\<close>

definition guac_rdp_utf16_to_utf8 :: "u8 list \<Rightarrow> int \<Rightarrow> int \<Rightarrow> char list option" where
  "guac_rdp_utf16_to_utf8 utf16 len room =
     (case utf16_to_utf8_loop (nat len) utf16 room of None \<Rightarrow> None
      | Some (utf8, left) \<Rightarrow> if left \<le> 0 then None else Some (c_string (utf8 @ [NUL])))"

text \<open>The code points stored; \<open>None\<close> is a read past the bytes at \<open>utf8\<close>.\<close>

fun guac_rdp_utf8_to_utf16 :: "char list \<Rightarrow> nat \<Rightarrow> int \<Rightarrow> u16 list option" where
  "guac_rdp_utf8_to_utf16 utf8 0 room = Some []"
| "guac_rdp_utf8_to_utf16 utf8 (Suc n) room =
     (case guac_utf8_read (take 4 utf8) of
        (bytes, Some codepoint) \<Rightarrow>
          let room = room - 2 in
          if room < 2 then Some [word_of_int codepoint]
          else map_option (Cons (word_of_int codepoint)) (guac_rdp_utf8_to_utf16 (drop bytes utf8) n room)
      | (bytes, None) \<Rightarrow> None)"

section \<open>Names\<close>

text \<open>The bytes of a sequence of code points, and their text in UTF-8.\<close>

definition utf16_bytes :: "u16 list \<Rightarrow> u8 list" where
  "utf16_bytes cs = concat (map write_u16 cs)"

definition utf8_text :: "u16 list \<Rightarrow> char list" where
  "utf8_text cs = concat (map (\<lambda>c. utf8_encode (uint c)) cs)"

lemma utf16_bytes_simps [simp]:
  "utf16_bytes [] = []" "utf16_bytes (c # cs) = write_u16 c @ utf16_bytes cs" "length (utf16_bytes cs) = 2 * length cs"
  by (induction cs) (simp_all add: utf16_bytes_def)


lemma uint_u16: "uint (c :: u16) \<le> 0xFFFF" "c \<noteq> 0 \<Longrightarrow> 0 < uint c"
  using unsigned_less [of c, where 'a = int] unsigned_greater_eq [of c, where 'a = int] unsigned_eq_0_iff [of c, where 'a = int]
  by (simp, linarith)

lemma utf8_text_props:
  assumes "0 \<notin> set cs"
  shows "NUL \<notin> set (utf8_text cs)" "guac_utf8_strlen (utf8_text cs) = length cs"
proof -
  have b: "1 \<le> uint c \<and> uint c \<le> 0x1FFFFF" if "c \<in> set cs" for c
    using uint_u16 [of c] that assms by (cases "c = 0") auto
  have e: "utf8_wf (utf8_encode (uint c)) \<and> utf8_count (utf8_encode (uint c)) = 1 \<and> NUL \<notin> set (utf8_encode (uint c))"
    if "c \<in> set cs" for c using b [OF that] by (intro encode_wf) auto
  then show n: "NUL \<notin> set (utf8_text cs)" by (auto simp: utf8_text_def)
  have "utf8_count (utf8_text cs) = length cs"
    using e by (induction cs) (auto simp: utf8_text_def count_append)
  then show "guac_utf8_strlen (utf8_text cs) = length cs" using strlen_count [OF n] by simp
qed

lemma utf16_loop_ok:
  "int (length (utf8_text cs)) \<le> room \<Longrightarrow>
     utf16_to_utf8_loop (length cs) (utf16_bytes cs @ rest) room = Some (utf8_text cs, room - int (length (utf8_text cs)))"
proof (induction cs arbitrary: room)
  case (Cons c cs)
  have "guac_utf8_write (uint c) room = utf8_encode (uint c)"
    using Cons.prems uint_u16(1) [of c] by (intro write_encode) (simp_all add: utf8_text_def length_utf8_encode)
  moreover have "int (length (utf8_text cs)) \<le> room - int (length (utf8_encode (uint c)))"
    using Cons.prems by (simp add: utf8_text_def)
  ultimately show ?case using Cons.IH [of "room - int (length (utf8_encode (uint c)))"]
    by (simp add: utf8_text_def Let_def)
qed (simp add: utf8_text_def)

lemma utf16_to_utf8_ok:
  assumes "0 \<notin> set cs" and "int (length (utf8_text cs)) < room"
  shows "guac_rdp_utf16_to_utf8 (utf16_bytes cs @ rest) (int (length cs)) room = Some (utf8_text cs)"
  using assms utf16_loop_ok [of cs room rest] utf8_text_props(1) [OF assms(1)]
  by (simp add: guac_rdp_utf16_to_utf8_def)

lemma utf8_to_utf16_ok:
  "int (2 * length cs) \<le> room \<Longrightarrow> guac_rdp_utf8_to_utf16 (utf8_text cs @ rest) (length cs) room = Some cs"
proof (induction cs arbitrary: room)
  case (Cons c cs)
  let ?e = "utf8_encode (uint c)"
  have l: "length ?e \<le> 4" by (simp add: length_utf8_encode utf8_size_def)
  have "take 4 (?e @ utf8_text cs @ rest) = ?e @ take (4 - length ?e) (utf8_text cs @ rest)" using l by simp
  then have r: "guac_utf8_read (take 4 (utf8_text (c # cs) @ rest)) = (length ?e, Some (uint c))"
    using read_encode [of "uint c"] uint_u16(1) [of c] by (simp add: utf8_text_def length_utf8_encode)
  show ?case
  proof (cases "room - 2 < 2")
    case True
    then have "cs = []" using Cons.prems by (cases cs) simp_all
    then show ?thesis using r True by simp
  next
    case False
    then show ?thesis using r Cons by (simp add: utf8_text_def)
  qed
qed simp

end
