(* ===== verification/Rdpdr_Fs.thy ===== *)
theory Rdpdr_Fs
  imports Rdp_Stream Rdp_Unicode "HOL-Library.Monad_Syntax"
begin

text \<open>
  The drive as a device of the RDPDR channel: \<open>protocols/rdp/src/guac_rdpdr/rdpdr_fs_messages.c\<close> and its three companions
  for volumes, files and directories, with what they use of \<open>rdpdr_service.c\<close>. A request of the server becomes calls
  of the drive of \<open>Rdp_Fs\<close>, and its result the packets sent back. The request is the bytes of the stream from its
  pointer on. The drive is that of the session: \<open>device->data\<close> and \<open>rdp_client->filesystem\<close> are the same pointer.
\<close>

section \<open>Constants\<close>

definition RDPDR_CTYP_CORE :: u16 where "RDPDR_CTYP_CORE = 0x4472"
definition PAKID_CORE_DEVICE_IOCOMPLETION :: u16 where "PAKID_CORE_DEVICE_IOCOMPLETION = 0x4943"
definition GUAC_FILESYSTEM_NAME :: "char list" where
  "GUAC_FILESYSTEM_NAME = concat (map (\<lambda>c. [c, NUL]) (''Guacamole'' @ [NUL]))"
definition GUAC_FILESYSTEM_NAME_LENGTH :: nat where "GUAC_FILESYSTEM_NAME_LENGTH = 20"
definition GUAC_FILESYSTEM_LABEL :: "char list" where "GUAC_FILESYSTEM_LABEL = concat (map (\<lambda>c. [c, NUL]) ''GUACFILE'')"
definition GUAC_FILESYSTEM_LABEL_LENGTH :: nat where "GUAC_FILESYSTEM_LABEL_LENGTH = 16"
definition GUAC_RDP_MAX_READ_BUFFER :: u32 where "GUAC_RDP_MAX_READ_BUFFER = 4194304"
definition FileFsVolumeInformation :: int where "FileFsVolumeInformation = 1"
definition FileFsSizeInformation :: int where "FileFsSizeInformation = 3"
definition FileFsDeviceInformation :: int where "FileFsDeviceInformation = 4"
definition FileFsAttributeInformation :: int where "FileFsAttributeInformation = 5"
definition FileFsFullSizeInformation :: int where "FileFsFullSizeInformation = 7"
definition FileBasicInformation :: int where "FileBasicInformation = 4"
definition FileStandardInformation :: int where "FileStandardInformation = 5"
definition FileRenameInformation :: int where "FileRenameInformation = 0xA"
definition FileDispositionInformation :: int where "FileDispositionInformation = 0xD"
definition FileAllocationInformation :: int where "FileAllocationInformation = 0x13"
definition FileEndOfFileInformation :: int where "FileEndOfFileInformation = 0x14"
definition FileAttributeTagInformation :: int where "FileAttributeTagInformation = 0x23"
definition FileDirectoryInformation :: int where "FileDirectoryInformation = 1"
definition FileFullDirectoryInformation :: int where "FileFullDirectoryInformation = 2"
definition FileBothDirectoryInformation :: int where "FileBothDirectoryInformation = 3"
definition FileNamesInformation :: int where "FileNamesInformation = 0xC"
definition STATUS_SUCCESS :: u32 where "STATUS_SUCCESS = 0"
definition STATUS_NO_MORE_FILES :: u32 where "STATUS_NO_MORE_FILES = 0x80000006"
definition STATUS_INVALID_PARAMETER :: u32 where "STATUS_INVALID_PARAMETER = 0xC000000D"
definition STATUS_NOT_SUPPORTED :: u32 where "STATUS_NOT_SUPPORTED = 0xC00000BB"
definition DISP_FILE_OPEN_IF :: int where "DISP_FILE_OPEN_IF = 3"
definition FILE_DIRECTORY_FILE :: u32 where "FILE_DIRECTORY_FILE = 1"
definition FILE_DEVICE_DISK :: u32 where "FILE_DEVICE_DISK = 7"
definition FILE_CASE_SENSITIVE_SEARCH :: u32 where "FILE_CASE_SENSITIVE_SEARCH = 1"
definition FILE_CASE_PRESERVED_NAMES :: u32 where "FILE_CASE_PRESERVED_NAMES = 2"
definition FILE_UNICODE_ON_DISK :: u32 where "FILE_UNICODE_ON_DISK = 4"

section \<open>Replies\<close>

text \<open>
  \<open>guac_rdpdr_new_io_completion\<close>, the content written after the header and the packet sent. The stream is allocated with
  room for \<open>size\<close> bytes of content; nothing checks that they suffice, so more is \<open>None\<close>.
\<close>

definition guac_rdpdr_new_io_completion :: "u32 \<Rightarrow> u32 \<Rightarrow> u32 \<Rightarrow> nat \<Rightarrow> u8 list \<Rightarrow> u8 list option" where
  "guac_rdpdr_new_io_completion device_id completion_id status room content =
     (if room < length content then None
      else Some (write_u16 RDPDR_CTYP_CORE @ write_u16 PAKID_CORE_DEVICE_IOCOMPLETION
        @ write_u32 device_id @ write_u32 completion_id @ write_u32 status @ content))"

text \<open>A handler yields the packets sent and the session after it.\<close>

type_synonym ('o, 's) rdpdr_result = "(u8 list list \<times> ('o, 's) rdp_session) option"

definition reply :: "('o, 's) rdp_session \<Rightarrow> u8 list option \<Rightarrow> ('o, 's) rdpdr_result" where
  "reply S packet = map_option (\<lambda>p. ([p], S)) packet"

text \<open>The bytes of a literal of the source.\<close>

definition bytes_of :: "char list \<Rightarrow> u8 list" where
  "bytes_of s = map of_char s"

section \<open>Downloads\<close>

text \<open>The part of a path after its last separator.\<close>

fun path_basename :: "char list \<Rightarrow> char list \<Rightarrow> char list" where
  "path_basename base [] = base"
| "path_basename base (c # path) = path_basename (if c = CHR ''/'' \<or> c = CHR 0x5C then path else base) path"

definition guac_rdpdr_download_to_owner ::
  "('o, 's) fs_os \<Rightarrow> char list \<Rightarrow> bool \<Rightarrow> ('o, 's) rdp_session \<Rightarrow> char list \<Rightarrow> ('o, 's) rdp_session option" where
  "guac_rdpdr_download_to_owner os junk owner_here S path =
     (if \<not> owner_here then Some S
      else case rs_filesystem S of None \<Rightarrow> Some S
      | Some fs \<Rightarrow>
          (case guac_rdp_fs_open os junk fs path ACCESS_FILE_READ_DATA DISP_FILE_OPEN 0 of None \<Rightarrow> None
           | Some (file_id, fs) \<Rightarrow>
               let S = S\<lparr>rs_filesystem := Some fs\<rparr> in
               if 0 \<le> file_id then
                 map_option (\<lambda>(k, a, S). tell S (Send_file (st_index (output_stream S k)) ''application/octet-stream'' (path_basename path path)))
                   (open_output S (Download_Stream file_id 0) Download_Ack)
               else Some S))"

text \<open>The callback is run for the owner, or for a null pointer when he has left. A null path is dereferenced.\<close>

definition guac_rdpdr_start_download ::
  "('o, 's) fs_os \<Rightarrow> char list \<Rightarrow> bool \<Rightarrow> ('o, 's) rdp_session \<Rightarrow> char list option \<Rightarrow> ('o, 's) rdp_session option" where
  "guac_rdpdr_start_download os junk owner_here S path =
     (case path of None \<Rightarrow> if owner_here \<and> rs_filesystem S \<noteq> None then None else Some S
      | Some path \<Rightarrow> guac_rdpdr_download_to_owner os junk owner_here S path)"

definition DOWNLOAD_FOLDER :: "char list" where
  "DOWNLOAD_FOLDER = CHR 0x5C # ''Download'' @ [CHR 0x5C]"

section \<open>Opening, reading, writing, closing\<close>

text \<open>The length and the path that end a request, converted into an array of \<open>GUAC_RDP_FS_MAX_PATH\<close> bytes.\<close>

definition guac_rdpdr_fs_process_create ::
  "('o, 's) fs_os \<Rightarrow> char list \<Rightarrow> u32 \<Rightarrow> ('o, 's) rdp_session \<Rightarrow> u8 list \<Rightarrow> u32 \<Rightarrow> ('o, 's) rdpdr_result" where
  "guac_rdpdr_fs_process_create os junk device S input completion_id = do {
     (desired_access, input) \<leftarrow> read_u32 input;
     input \<leftarrow> seek 8 input;
     (file_attributes, input) \<leftarrow> read_u32 input;
     input \<leftarrow> seek 4 input;
     (create_disposition, input) \<leftarrow> read_u32 input;
     (create_options, input) \<leftarrow> read_u32 input;
     (path_length, input) \<leftarrow> read_u32 input;
     path \<leftarrow> guac_rdp_utf16_to_utf8 input (sint path_length div 2 - 1) (int GUAC_RDP_FS_MAX_PATH);
     fs \<leftarrow> rs_filesystem S;
     (file_id, fs) \<leftarrow> guac_rdp_fs_open os junk fs path desired_access (sint create_disposition) create_options;
     let S = S\<lparr>rs_filesystem := Some fs\<rparr>;
     if file_id < 0
     then reply S (guac_rdpdr_new_io_completion device completion_id (guac_rdp_fs_get_status file_id) 5 (write_u32 0 @ [0]))
     else do {
       let packet = guac_rdpdr_new_io_completion device completion_id STATUS_SUCCESS 5 (write_u32 (word_of_int file_id) @ [0]);
       if (case guac_rdp_fs_get_file file_id of None \<Rightarrow> False
           | Some k \<Rightarrow> absolute_path (fs_files fs ! k) = Some [CHR 0x5C])
       then do {
         (download_id, fs) \<leftarrow> guac_rdp_fs_open os junk fs (CHR 0x5C # ''Download'') ACCESS_GENERIC_READ DISP_FILE_OPEN_IF FILE_DIRECTORY_FILE;
         fs \<leftarrow> (if 0 \<le> download_id then guac_rdp_fs_close os fs download_id else Some fs);
         reply (S\<lparr>rs_filesystem := Some fs\<rparr>) packet
       }
       else reply S packet
     }
   }"

definition guac_rdpdr_fs_process_read ::
  "('o, 's) fs_os \<Rightarrow> u32 \<Rightarrow> ('o, 's) rdp_session \<Rightarrow> u8 list \<Rightarrow> int \<Rightarrow> u32 \<Rightarrow> ('o, 's) rdpdr_result" where
  "guac_rdpdr_fs_process_read os device S input file_id completion_id = do {
     (len, input) \<leftarrow> read_u32 input;
     (offset, input) \<leftarrow> read_u64 input;
     fs \<leftarrow> rs_filesystem S;
     let len = (if GUAC_RDP_MAX_READ_BUFFER < len then GUAC_RDP_MAX_READ_BUFFER else len);
     let (bytes_read, buffer, fs) = guac_rdp_fs_read os fs file_id (uint offset) (uint len);
     reply (S\<lparr>rs_filesystem := Some fs\<rparr>)
       (if bytes_read < 0
        then guac_rdpdr_new_io_completion device completion_id (guac_rdp_fs_get_status bytes_read) 4 (write_u32 0)
        else guac_rdpdr_new_io_completion device completion_id STATUS_SUCCESS (4 + nat bytes_read)
               (write_u32 (word_of_int bytes_read) @ take (nat bytes_read) buffer))
   }"

definition guac_rdpdr_fs_process_write ::
  "('o, 's) fs_os \<Rightarrow> int \<Rightarrow> u32 \<Rightarrow> ('o, 's) rdp_session \<Rightarrow> u8 list \<Rightarrow> int \<Rightarrow> u32 \<Rightarrow> ('o, 's) rdpdr_result" where
  "guac_rdpdr_fs_process_write os uninitialised device S input file_id completion_id = do {
     (len, input) \<leftarrow> read_u32 input;
     (offset, input) \<leftarrow> read_u64 input;
     input \<leftarrow> seek 20 input;
     fs \<leftarrow> rs_filesystem S;
     if length input < unat len then None
     else do {
       let (written, fs) = guac_rdp_fs_write os uninitialised fs file_id (uint offset) (take (unat len) input);
       reply (S\<lparr>rs_filesystem := Some fs\<rparr>)
         (if written < 0
          then guac_rdpdr_new_io_completion device completion_id (guac_rdp_fs_get_status written) 5 (write_u32 0 @ [0])
          else guac_rdpdr_new_io_completion device completion_id STATUS_SUCCESS 5 (write_u32 (word_of_int written) @ [0]))
     }
   }"

text \<open>
  A file written in the folder \<open>Download\<close> is sent to the owner of the connection and deleted. The path of a file that is
  not open is a null pointer.
\<close>

definition guac_rdpdr_fs_process_close ::
  "('o, 's) fs_os \<Rightarrow> char list \<Rightarrow> bool \<Rightarrow> u32 \<Rightarrow> ('o, 's) rdp_session \<Rightarrow> int \<Rightarrow> u32 \<Rightarrow> ('o, 's) rdpdr_result" where
  "guac_rdpdr_fs_process_close os junk owner_here device S file_id completion_id = do {
     fs \<leftarrow> rs_filesystem S;
     (case guac_rdp_fs_get_file file_id of
        None \<Rightarrow> Some ([], S)
      | Some k \<Rightarrow> do {
          let file = fs_files fs ! k;
          S \<leftarrow> (if 0 < bytes_written file then do {
                   path \<leftarrow> absolute_path file;
                   if take 10 path = DOWNLOAD_FOLDER then do {
                     S \<leftarrow> guac_rdpdr_start_download os junk owner_here S (Some path);
                     fs \<leftarrow> rs_filesystem S;
                     (r, fs) \<leftarrow> guac_rdp_fs_delete os fs file_id;
                     Some (S\<lparr>rs_filesystem := Some fs\<rparr>)
                   }
                   else Some S
                 }
                 else Some S);
          fs \<leftarrow> rs_filesystem S;
          fs \<leftarrow> guac_rdp_fs_close os fs file_id;
          reply (S\<lparr>rs_filesystem := Some fs\<rparr>) (guac_rdpdr_new_io_completion device completion_id STATUS_SUCCESS 4 [0, 0, 0, 0])
        })
   }"


section \<open>Volumes\<close>

definition guac_rdpdr_fs_process_query_volume_info :: "u32 \<Rightarrow> ('o, 's) rdp_session \<Rightarrow> u32 \<Rightarrow> ('o, 's) rdpdr_result" where
  "guac_rdpdr_fs_process_query_volume_info device S completion_id =
     reply S (guac_rdpdr_new_io_completion device completion_id STATUS_SUCCESS (21 + GUAC_FILESYSTEM_LABEL_LENGTH)
       (write_u32 (17 + of_nat GUAC_FILESYSTEM_LABEL_LENGTH) @ write_u64 0 @ write_u32 0
        @ write_u32 (of_nat GUAC_FILESYSTEM_LABEL_LENGTH) @ [0]
        @ take GUAC_FILESYSTEM_LABEL_LENGTH (bytes_of GUAC_FILESYSTEM_LABEL)))"

definition volume_info :: "('o, 's) fs_os \<Rightarrow> ('o, 's) guac_rdp_fs \<Rightarrow> guac_rdp_fs_info" where
  "volume_info os fs = snd (guac_rdp_fs_get_info os fs \<lparr>blocks_available = 0, blocks_total = 0, block_size = 0\<rparr>)"

definition guac_rdpdr_fs_process_query_size_info ::
  "('o, 's) fs_os \<Rightarrow> u32 \<Rightarrow> ('o, 's) rdp_session \<Rightarrow> u32 \<Rightarrow> ('o, 's) rdpdr_result" where
  "guac_rdpdr_fs_process_query_size_info os device S completion_id = do {
     fs \<leftarrow> rs_filesystem S;
     let info = volume_info os fs;
     reply S (guac_rdpdr_new_io_completion device completion_id STATUS_SUCCESS 28
       (write_u32 24 @ write_u64 (word_of_int (blocks_total info)) @ write_u64 (word_of_int (blocks_available info))
        @ write_u32 1 @ write_u32 (word_of_int (block_size info))))
   }"

definition guac_rdpdr_fs_process_query_device_info :: "u32 \<Rightarrow> ('o, 's) rdp_session \<Rightarrow> u32 \<Rightarrow> ('o, 's) rdpdr_result" where
  "guac_rdpdr_fs_process_query_device_info device S completion_id =
     reply S (guac_rdpdr_new_io_completion device completion_id STATUS_SUCCESS 12 (write_u32 8 @ write_u32 FILE_DEVICE_DISK @ write_u32 0))"

definition guac_rdpdr_fs_process_query_attribute_info :: "u32 \<Rightarrow> ('o, 's) rdp_session \<Rightarrow> u32 \<Rightarrow> ('o, 's) rdpdr_result" where
  "guac_rdpdr_fs_process_query_attribute_info device S completion_id =
     reply S (guac_rdpdr_new_io_completion device completion_id STATUS_SUCCESS (16 + GUAC_FILESYSTEM_NAME_LENGTH)
       (write_u32 (12 + of_nat GUAC_FILESYSTEM_NAME_LENGTH)
        @ write_u32 (FILE_UNICODE_ON_DISK OR FILE_CASE_SENSITIVE_SEARCH OR FILE_CASE_PRESERVED_NAMES)
        @ write_u32 (of_nat GUAC_RDP_FS_MAX_PATH) @ write_u32 (of_nat GUAC_FILESYSTEM_NAME_LENGTH)
        @ take GUAC_FILESYSTEM_NAME_LENGTH (bytes_of GUAC_FILESYSTEM_NAME)))"

definition guac_rdpdr_fs_process_query_full_size_info ::
  "('o, 's) fs_os \<Rightarrow> u32 \<Rightarrow> ('o, 's) rdp_session \<Rightarrow> u32 \<Rightarrow> ('o, 's) rdpdr_result" where
  "guac_rdpdr_fs_process_query_full_size_info os device S completion_id = do {
     fs \<leftarrow> rs_filesystem S;
     let info = volume_info os fs;
     reply S (guac_rdpdr_new_io_completion device completion_id STATUS_SUCCESS 36
       (write_u32 32 @ write_u64 (word_of_int (blocks_total info)) @ write_u64 (word_of_int (blocks_available info))
        @ write_u64 (word_of_int (blocks_available info)) @ write_u32 1 @ write_u32 (word_of_int (block_size info))))
   }"

text \<open>An unknown class gets no answer.\<close>

definition guac_rdpdr_fs_process_volume_info ::
  "('o, 's) fs_os \<Rightarrow> u32 \<Rightarrow> ('o, 's) rdp_session \<Rightarrow> u8 list \<Rightarrow> u32 \<Rightarrow> ('o, 's) rdpdr_result" where
  "guac_rdpdr_fs_process_volume_info os device S input completion_id = do {
     (fs_information_class, input) \<leftarrow> read_u32 input;
     if sint fs_information_class = FileFsVolumeInformation then guac_rdpdr_fs_process_query_volume_info device S completion_id
     else if sint fs_information_class = FileFsSizeInformation then guac_rdpdr_fs_process_query_size_info os device S completion_id
     else if sint fs_information_class = FileFsDeviceInformation then guac_rdpdr_fs_process_query_device_info device S completion_id
     else if sint fs_information_class = FileFsAttributeInformation then guac_rdpdr_fs_process_query_attribute_info device S completion_id
     else if sint fs_information_class = FileFsFullSizeInformation then guac_rdpdr_fs_process_query_full_size_info os device S completion_id
     else Some ([], S)
   }"

definition guac_rdpdr_fs_process_set_volume_info :: "u32 \<Rightarrow> ('o, 's) rdp_session \<Rightarrow> u32 \<Rightarrow> ('o, 's) rdpdr_result" where
  "guac_rdpdr_fs_process_set_volume_info device S completion_id =
     reply S (guac_rdpdr_new_io_completion device completion_id STATUS_NOT_SUPPORTED 0 [])"

section \<open>Files\<close>

text \<open>The file of an id; without one nothing is answered.\<close>

definition of_file ::
  "('o, 's) rdp_session \<Rightarrow> int \<Rightarrow> ('s guac_rdp_fs_file \<Rightarrow> ('o, 's) rdpdr_result) \<Rightarrow> ('o, 's) rdpdr_result" where
  "of_file S file_id f = do {
     fs \<leftarrow> rs_filesystem S;
     (case guac_rdp_fs_get_file file_id of None \<Rightarrow> Some ([], S) | Some k \<Rightarrow> f (fs_files fs ! k))
   }"

definition file_times :: "'s guac_rdp_fs_file \<Rightarrow> u8 list" where
  "file_times file = write_u64 (word_of_int (ff_ctime file)) @ write_u64 (word_of_int (ff_atime file))
     @ write_u64 (word_of_int (ff_mtime file)) @ write_u64 (word_of_int (ff_mtime file))"

definition guac_rdpdr_fs_process_query_basic_info :: "u32 \<Rightarrow> ('o, 's) rdp_session \<Rightarrow> int \<Rightarrow> u32 \<Rightarrow> ('o, 's) rdpdr_result" where
  "guac_rdpdr_fs_process_query_basic_info device S file_id completion_id = of_file S file_id (\<lambda>file.
     reply S (guac_rdpdr_new_io_completion device completion_id STATUS_SUCCESS 40
       (write_u32 36 @ file_times file @ write_u32 (word_of_int (ff_attributes file)))))"

definition guac_rdpdr_fs_process_query_standard_info :: "u32 \<Rightarrow> ('o, 's) rdp_session \<Rightarrow> int \<Rightarrow> u32 \<Rightarrow> ('o, 's) rdpdr_result" where
  "guac_rdpdr_fs_process_query_standard_info device S file_id completion_id = of_file S file_id (\<lambda>file.
     let is_directory = (if ff_attributes file AND FILE_ATTRIBUTE_DIRECTORY \<noteq> 0 then 1 else 0) in
     reply S (guac_rdpdr_new_io_completion device completion_id STATUS_SUCCESS 26
       (write_u32 22 @ write_u64 (word_of_int (ff_size file)) @ write_u64 (word_of_int (ff_size file)) @ write_u32 1
        @ [0] @ [is_directory])))"

definition guac_rdpdr_fs_process_query_attribute_tag_info :: "u32 \<Rightarrow> ('o, 's) rdp_session \<Rightarrow> int \<Rightarrow> u32 \<Rightarrow> ('o, 's) rdpdr_result" where
  "guac_rdpdr_fs_process_query_attribute_tag_info device S file_id completion_id = of_file S file_id (\<lambda>file.
     reply S (guac_rdpdr_new_io_completion device completion_id STATUS_SUCCESS 12
       (write_u32 8 @ write_u32 (word_of_int (ff_attributes file)) @ write_u32 0)))"

definition guac_rdpdr_fs_process_file_info ::
  "u32 \<Rightarrow> ('o, 's) rdp_session \<Rightarrow> u8 list \<Rightarrow> int \<Rightarrow> u32 \<Rightarrow> ('o, 's) rdpdr_result" where
  "guac_rdpdr_fs_process_file_info device S input file_id completion_id = do {
     (fs_information_class, input) \<leftarrow> read_u32 input;
     if sint fs_information_class = FileBasicInformation then guac_rdpdr_fs_process_query_basic_info device S file_id completion_id
     else if sint fs_information_class = FileStandardInformation then guac_rdpdr_fs_process_query_standard_info device S file_id completion_id
     else if sint fs_information_class = FileAttributeTagInformation then guac_rdpdr_fs_process_query_attribute_tag_info device S file_id completion_id
     else Some ([], S)
   }"

text \<open>The answer to a change: the status of the result, and the length of the request.\<close>

definition set_reply :: "u32 \<Rightarrow> ('o, 's) rdp_session \<Rightarrow> u32 \<Rightarrow> u32 \<Rightarrow> int \<Rightarrow> ('o, 's) rdpdr_result" where
  "set_reply device S completion_id len result =
     reply S (guac_rdpdr_new_io_completion device completion_id
       (if result < 0 then guac_rdp_fs_get_status result else STATUS_SUCCESS) 4 (write_u32 len))"

definition guac_rdpdr_fs_process_set_rename_info ::
  "('o, 's) fs_os \<Rightarrow> char list \<Rightarrow> bool \<Rightarrow> u32 \<Rightarrow> ('o, 's) rdp_session \<Rightarrow> u8 list \<Rightarrow> int \<Rightarrow> u32 \<Rightarrow> u32 \<Rightarrow> ('o, 's) rdpdr_result" where
  "guac_rdpdr_fs_process_set_rename_info os junk owner_here device S input file_id completion_id len = do {
     input \<leftarrow> seek 1 input;
     input \<leftarrow> seek 1 input;
     (filename_length, input) \<leftarrow> read_u32 input;
     destination_path \<leftarrow> guac_rdp_utf16_to_utf8 input (sint filename_length div 2) (int GUAC_RDP_FS_MAX_PATH);
     fs \<leftarrow> rs_filesystem S;
     if take 10 destination_path = DOWNLOAD_FOLDER then
       (case guac_rdp_fs_get_file file_id of None \<Rightarrow> Some ([], S)
        | Some k \<Rightarrow> do {
            S \<leftarrow> guac_rdpdr_start_download os junk owner_here S (absolute_path (fs_files fs ! k));
            set_reply device S completion_id len 0
          })
     else do {
       (result, fs) \<leftarrow> guac_rdp_fs_rename os junk fs file_id destination_path;
       set_reply device (S\<lparr>rs_filesystem := Some fs\<rparr>) completion_id len result
     }
   }"

definition guac_rdpdr_fs_process_set_allocation_info ::
  "('o, 's) fs_os \<Rightarrow> u32 \<Rightarrow> ('o, 's) rdp_session \<Rightarrow> u8 list \<Rightarrow> int \<Rightarrow> u32 \<Rightarrow> u32 \<Rightarrow> ('o, 's) rdpdr_result" where
  "guac_rdpdr_fs_process_set_allocation_info os device S input file_id completion_id len = do {
     (new_length, input) \<leftarrow> read_u64 input;
     fs \<leftarrow> rs_filesystem S;
     (result, fs) \<leftarrow> guac_rdp_fs_truncate os fs file_id (uint new_length);
     set_reply device (S\<lparr>rs_filesystem := Some fs\<rparr>) completion_id len result
   }"

definition guac_rdpdr_fs_process_set_disposition_info ::
  "('o, 's) fs_os \<Rightarrow> u32 \<Rightarrow> ('o, 's) rdp_session \<Rightarrow> int \<Rightarrow> u32 \<Rightarrow> u32 \<Rightarrow> ('o, 's) rdpdr_result" where
  "guac_rdpdr_fs_process_set_disposition_info os device S file_id completion_id len = do {
     fs \<leftarrow> rs_filesystem S;
     (result, fs) \<leftarrow> guac_rdp_fs_delete os fs file_id;
     set_reply device (S\<lparr>rs_filesystem := Some fs\<rparr>) completion_id len result
   }"

definition guac_rdpdr_fs_process_set_end_of_file_info ::
  "('o, 's) fs_os \<Rightarrow> u32 \<Rightarrow> ('o, 's) rdp_session \<Rightarrow> u8 list \<Rightarrow> int \<Rightarrow> u32 \<Rightarrow> u32 \<Rightarrow> ('o, 's) rdpdr_result" where
  "guac_rdpdr_fs_process_set_end_of_file_info os device S input file_id completion_id len = do {
     (new_length, input) \<leftarrow> read_u64 input;
     fs \<leftarrow> rs_filesystem S;
     (result, fs) \<leftarrow> guac_rdp_fs_truncate os fs file_id (uint new_length);
     set_reply device (S\<lparr>rs_filesystem := Some fs\<rparr>) completion_id len result
   }"

definition guac_rdpdr_fs_process_set_basic_info :: "u32 \<Rightarrow> ('o, 's) rdp_session \<Rightarrow> u32 \<Rightarrow> u32 \<Rightarrow> ('o, 's) rdpdr_result" where
  "guac_rdpdr_fs_process_set_basic_info device S completion_id len = set_reply device S completion_id len 0"

definition guac_rdpdr_fs_process_set_file_info ::
  "('o, 's) fs_os \<Rightarrow> char list \<Rightarrow> bool \<Rightarrow> u32 \<Rightarrow> ('o, 's) rdp_session \<Rightarrow> u8 list \<Rightarrow> int \<Rightarrow> u32 \<Rightarrow> ('o, 's) rdpdr_result" where
  "guac_rdpdr_fs_process_set_file_info os junk owner_here device S input file_id completion_id = do {
     (fs_information_class, input) \<leftarrow> read_u32 input;
     (len, input) \<leftarrow> read_u32 input;
     input \<leftarrow> seek 24 input;
     if sint fs_information_class = FileBasicInformation then guac_rdpdr_fs_process_set_basic_info device S completion_id len
     else if sint fs_information_class = FileEndOfFileInformation
       then guac_rdpdr_fs_process_set_end_of_file_info os device S input file_id completion_id len
     else if sint fs_information_class = FileDispositionInformation
       then guac_rdpdr_fs_process_set_disposition_info os device S file_id completion_id len
     else if sint fs_information_class = FileRenameInformation
       then guac_rdpdr_fs_process_set_rename_info os junk owner_here device S input file_id completion_id len
     else if sint fs_information_class = FileAllocationInformation
       then guac_rdpdr_fs_process_set_allocation_info os device S input file_id completion_id len
     else Some ([], S)
   }"

definition guac_rdpdr_fs_process_device_control :: "u32 \<Rightarrow> ('o, 's) rdp_session \<Rightarrow> u32 \<Rightarrow> ('o, 's) rdpdr_result" where
  "guac_rdpdr_fs_process_device_control device S completion_id =
     reply S (guac_rdpdr_new_io_completion device completion_id STATUS_INVALID_PARAMETER 4 (write_u32 0))"

definition guac_rdpdr_fs_process_notify_change_directory :: "('o, 's) rdp_session \<Rightarrow> ('o, 's) rdpdr_result" where
  "guac_rdpdr_fs_process_notify_change_directory S = Some ([], S)"

definition guac_rdpdr_fs_process_lock_control :: "u32 \<Rightarrow> ('o, 's) rdp_session \<Rightarrow> u32 \<Rightarrow> ('o, 's) rdpdr_result" where
  "guac_rdpdr_fs_process_lock_control device S completion_id =
     reply S (guac_rdpdr_new_io_completion device completion_id STATUS_NOT_SUPPORTED 5 [0, 0, 0, 0, 0])"

section \<open>Directories\<close>

text \<open>
  The name of an entry in UTF-16: \<open>utf16_length\<close> bytes are copied out of an array of 256, so a longer name is a read past
  its end.
\<close>

definition entry_name_utf16 :: "char list \<Rightarrow> u8 list option" where
  "entry_name_utf16 entry_name = do {
     let len = guac_utf8_strlen entry_name;
     name \<leftarrow> guac_rdp_utf8_to_utf16 (entry_name @ [NUL]) len 256;
     if 256 < len * 2 then None else Some (take (len * 2) (utf16_bytes name))
   }"

text \<open>The fields common to the three long forms, after the length, and the name with its terminator.\<close>

definition entry_fields :: "'s guac_rdp_fs_file \<Rightarrow> u8 list \<Rightarrow> u8 list" where
  "entry_fields file name = write_u32 0 @ write_u32 0 @ file_times file
     @ write_u64 (word_of_int (ff_size file)) @ write_u64 (word_of_int (ff_size file))
     @ write_u32 (word_of_int (ff_attributes file)) @ write_u32 (of_nat (length name + 2))"

definition guac_rdpdr_fs_process_query_directory_info ::
  "u32 \<Rightarrow> ('o, 's) rdp_session \<Rightarrow> char list \<Rightarrow> int \<Rightarrow> u32 \<Rightarrow> ('o, 's) rdpdr_result" where
  "guac_rdpdr_fs_process_query_directory_info device S entry_name file_id completion_id = do {
     name \<leftarrow> entry_name_utf16 entry_name;
     of_file S file_id (\<lambda>file.
       reply S (guac_rdpdr_new_io_completion device completion_id STATUS_SUCCESS (4 + 64 + length name + 2)
         (write_u32 (of_nat (64 + length name + 2)) @ entry_fields file name @ name @ [0, 0])))
   }"

definition guac_rdpdr_fs_process_query_full_directory_info ::
  "u32 \<Rightarrow> ('o, 's) rdp_session \<Rightarrow> char list \<Rightarrow> int \<Rightarrow> u32 \<Rightarrow> ('o, 's) rdpdr_result" where
  "guac_rdpdr_fs_process_query_full_directory_info device S entry_name file_id completion_id = do {
     name \<leftarrow> entry_name_utf16 entry_name;
     of_file S file_id (\<lambda>file.
       reply S (guac_rdpdr_new_io_completion device completion_id STATUS_SUCCESS (4 + 68 + length name + 2)
         (write_u32 (of_nat (68 + length name + 2)) @ entry_fields file name @ write_u32 0 @ name @ [0, 0])))
   }"

definition guac_rdpdr_fs_process_query_both_directory_info ::
  "u32 \<Rightarrow> ('o, 's) rdp_session \<Rightarrow> char list \<Rightarrow> int \<Rightarrow> u32 \<Rightarrow> ('o, 's) rdpdr_result" where
  "guac_rdpdr_fs_process_query_both_directory_info device S entry_name file_id completion_id = do {
     name \<leftarrow> entry_name_utf16 entry_name;
     of_file S file_id (\<lambda>file.
       reply S (guac_rdpdr_new_io_completion device completion_id STATUS_SUCCESS (4 + 69 + 24 + length name + 2)
         (write_u32 (of_nat (69 + 24 + length name + 2)) @ entry_fields file name @ write_u32 0 @ [0]
          @ replicate 24 0 @ name @ [0, 0])))
   }"

definition guac_rdpdr_fs_process_query_names_info ::
  "u32 \<Rightarrow> ('o, 's) rdp_session \<Rightarrow> char list \<Rightarrow> int \<Rightarrow> u32 \<Rightarrow> ('o, 's) rdpdr_result" where
  "guac_rdpdr_fs_process_query_names_info device S entry_name file_id completion_id = do {
     name \<leftarrow> entry_name_utf16 entry_name;
     of_file S file_id (\<lambda>file.
       reply S (guac_rdpdr_new_io_completion device completion_id STATUS_SUCCESS (4 + 12 + length name + 2)
         (write_u32 (of_nat (12 + length name + 2)) @ write_u32 0 @ write_u32 0 @ write_u32 (of_nat (length name + 2))
          @ name @ [0, 0])))
   }"

text \<open>
  The loop over the entries, up to the first that matches the pattern and can be opened: its name and id, or \<open>None\<close> at
  the end of the directory. \<open>path_match\<close> is the pattern matcher of the system.
\<close>

definition open_entry ::
  "('o, 's) fs_os \<Rightarrow> char list \<Rightarrow> char list \<Rightarrow> (char list \<Rightarrow> char list \<Rightarrow> bool) \<Rightarrow> int \<Rightarrow> char list \<Rightarrow> ('o, 's) guac_rdp_fs \<Rightarrow>
   (int \<times> ('o, 's) guac_rdp_fs) option" where
  "open_entry os junk junk' path_match file_id entry_name fs = do {
     parent \<leftarrow> absolute_path (fs_files fs ! nat file_id);
     converted \<leftarrow> guac_rdp_fs_convert_path junk junk' parent entry_name;
     (case converted of
        None \<Rightarrow> Some (-1, fs)
      | Some entry_path \<Rightarrow>
          if guac_rdp_fs_matches path_match entry_path (dir_pattern (fs_files fs ! nat file_id)) then Some (-1, fs)
          else guac_rdp_fs_open os junk fs entry_path ACCESS_FILE_READ_DATA DISP_FILE_OPEN 0)
   }"

partial_function (option) find_entry ::
  "('o, 's) fs_os \<Rightarrow> char list \<Rightarrow> char list \<Rightarrow> (char list \<Rightarrow> char list \<Rightarrow> bool) \<Rightarrow> int \<Rightarrow> ('o, 's) guac_rdp_fs \<Rightarrow>
   ((char list \<times> int) option \<times> ('o, 's) guac_rdp_fs) option" where
  "find_entry os junk junk' path_match file_id fs =
     (case guac_rdp_fs_read_dir os fs file_id of None \<Rightarrow> None
      | Some next_entry \<Rightarrow>
          if fst next_entry = None then Some (None, snd next_entry)
          else case open_entry os junk junk' path_match file_id (the (fst next_entry)) (snd next_entry) of None \<Rightarrow> None
            | Some opened \<Rightarrow>
                if 0 \<le> fst opened then Some (Some (the (fst next_entry), fst opened), snd opened)
                else find_entry os junk junk' path_match file_id (snd opened))"

definition guac_rdpdr_fs_process_query_directory ::
  "('o, 's) fs_os \<Rightarrow> char list \<Rightarrow> char list \<Rightarrow> (char list \<Rightarrow> char list \<Rightarrow> bool) \<Rightarrow> u32 \<Rightarrow> ('o, 's) rdp_session \<Rightarrow> u8 list \<Rightarrow> int \<Rightarrow> u32 \<Rightarrow>
   ('o, 's) rdpdr_result" where
  "guac_rdpdr_fs_process_query_directory os junk junk' path_match device S input file_id completion_id = do {
     fs \<leftarrow> rs_filesystem S;
     (case guac_rdp_fs_get_file file_id of
        None \<Rightarrow> Some ([], S)
      | Some k \<Rightarrow> do {
          (fs_information_class, input) \<leftarrow> read_u32 input;
          (initial_query, input) \<leftarrow> read_u8 input;
          (path_length, input) \<leftarrow> read_u32 input;
          fs \<leftarrow> (if initial_query \<noteq> 0 then do {
                    input \<leftarrow> seek 23 input;
                    pattern \<leftarrow> guac_rdp_utf16_to_utf8 input (sint path_length div 2 - 1) (int GUAC_RDP_FS_MAX_PATH);
                    Some (fs\<lparr>fs_files := (fs_files fs)[k := (fs_files fs ! k)\<lparr>dir_pattern := pattern\<rparr>]\<rparr>)
                  }
                  else Some fs);
          (found, fs) \<leftarrow> find_entry os junk junk' path_match file_id fs;
          let S = S\<lparr>rs_filesystem := Some fs\<rparr>;
          (case found of
             None \<Rightarrow> reply S (guac_rdpdr_new_io_completion device completion_id STATUS_NO_MORE_FILES 5 (write_u32 0 @ [0]))
           | Some (entry_name, entry_file_id) \<Rightarrow> do {
               (packets, S) \<leftarrow>
                 (if sint fs_information_class = FileDirectoryInformation
                  then guac_rdpdr_fs_process_query_directory_info device S entry_name entry_file_id completion_id
                  else if sint fs_information_class = FileFullDirectoryInformation
                  then guac_rdpdr_fs_process_query_full_directory_info device S entry_name entry_file_id completion_id
                  else if sint fs_information_class = FileBothDirectoryInformation
                  then guac_rdpdr_fs_process_query_both_directory_info device S entry_name entry_file_id completion_id
                  else if sint fs_information_class = FileNamesInformation
                  then guac_rdpdr_fs_process_query_names_info device S entry_name entry_file_id completion_id
                  else Some ([], S));
               fs \<leftarrow> guac_rdp_fs_close os fs entry_file_id;
               Some (packets, S\<lparr>rs_filesystem := Some fs\<rparr>)
             })
        })
   }"

end
