(* ===== verification/Rdpdr.thy ===== *)
theory Rdpdr
  imports Rdpdr_Fs
begin

text \<open>
  The RDPDR channel: \<open>protocols/rdp/src/guac_rdpdr/rdpdr_service.c\<close>, \<open>rdpdr_messages.c\<close>, \<open>rdpdr_fs_service.c\<close> and the
  announcement of the printer in \<open>rdpdr_printer.c\<close>. A packet of the server is handled by its component, its id and, for an
  input/output request, its device and function. Requests to the printer go to the print job, which is not modelled: they
  are \<open>None\<close>.
\<close>

section \<open>Constants\<close>

definition RDPDR_CTYP_PRN :: u16 where "RDPDR_CTYP_PRN = 0x5052"
definition PAKID_CORE_SERVER_ANNOUNCE :: u16 where "PAKID_CORE_SERVER_ANNOUNCE = 0x496E"
definition PAKID_CORE_CLIENTID_CONFIRM :: u16 where "PAKID_CORE_CLIENTID_CONFIRM = 0x4343"
definition PAKID_CORE_CLIENT_NAME :: u16 where "PAKID_CORE_CLIENT_NAME = 0x434E"
definition PAKID_CORE_DEVICELIST_ANNOUNCE :: u16 where "PAKID_CORE_DEVICELIST_ANNOUNCE = 0x4441"
definition PAKID_CORE_DEVICE_REPLY :: u16 where "PAKID_CORE_DEVICE_REPLY = 0x6472"
definition PAKID_CORE_DEVICE_IOREQUEST :: u16 where "PAKID_CORE_DEVICE_IOREQUEST = 0x4952"
definition PAKID_CORE_SERVER_CAPABILITY :: u16 where "PAKID_CORE_SERVER_CAPABILITY = 0x5350"
definition PAKID_CORE_CLIENT_CAPABILITY :: u16 where "PAKID_CORE_CLIENT_CAPABILITY = 0x4350"
definition PAKID_CORE_USER_LOGGEDON :: u16 where "PAKID_CORE_USER_LOGGEDON = 0x554C"
definition GUAC_OS_TYPE :: u32 where "GUAC_OS_TYPE = 0x43415547"
definition GUAC_PRINTER_DRIVER :: "char list" where
  "GUAC_PRINTER_DRIVER = concat (map (\<lambda>c. [c, NUL]) (''MS Publisher Imagesetter'' @ [NUL]))"
definition GUAC_PRINTER_DRIVER_LENGTH :: nat where "GUAC_PRINTER_DRIVER_LENGTH = 50"
definition GUAC_PRINTER_NAME :: "char list" where
  "GUAC_PRINTER_NAME = concat (map (\<lambda>c. [c, NUL]) (''Guacamole'' @ [NUL]))"
definition GUAC_PRINTER_NAME_LENGTH :: nat where "GUAC_PRINTER_NAME_LENGTH = 20"
definition CAP_GENERAL_TYPE :: u16 where "CAP_GENERAL_TYPE = 1"
definition CAP_PRINTER_TYPE :: u16 where "CAP_PRINTER_TYPE = 2"
definition CAP_DRIVE_TYPE :: u16 where "CAP_DRIVE_TYPE = 4"
definition GENERAL_CAPABILITY_VERSION_02 :: u32 where "GENERAL_CAPABILITY_VERSION_02 = 2"
definition PRINT_CAPABILITY_VERSION_01 :: u32 where "PRINT_CAPABILITY_VERSION_01 = 1"
definition DRIVE_CAPABILITY_VERSION_02 :: u32 where "DRIVE_CAPABILITY_VERSION_02 = 2"
definition RDP_CLIENT_MAJOR_ALL :: u16 where "RDP_CLIENT_MAJOR_ALL = 1"
definition RDP_CLIENT_MINOR_5_2 :: u16 where "RDP_CLIENT_MINOR_5_2 = 0xA"
definition RDPDR_DEVICE_REMOVE_PDUS :: u32 where "RDPDR_DEVICE_REMOVE_PDUS = 1"
definition RDPDR_CLIENT_DISPLAY_NAME :: u32 where "RDPDR_CLIENT_DISPLAY_NAME = 2"
definition RDPDR_USER_LOGGEDON_PDU :: u32 where "RDPDR_USER_LOGGEDON_PDU = 4"
definition RDPDR_DTYP_PRINT :: u32 where "RDPDR_DTYP_PRINT = 4"
definition RDPDR_DTYP_FILESYSTEM :: u32 where "RDPDR_DTYP_FILESYSTEM = 8"
definition RDPDR_PRINTER_ANNOUNCE_FLAG_DEFAULTPRINTER :: u32 where "RDPDR_PRINTER_ANNOUNCE_FLAG_DEFAULTPRINTER = 2"
definition RDPDR_PRINTER_ANNOUNCE_FLAG_NETWORKPRINTER :: u32 where "RDPDR_PRINTER_ANNOUNCE_FLAG_NETWORKPRINTER = 4"
definition IRP_MJ_CREATE :: int where "IRP_MJ_CREATE = 0"
definition IRP_MJ_CLOSE :: int where "IRP_MJ_CLOSE = 2"
definition IRP_MJ_READ :: int where "IRP_MJ_READ = 3"
definition IRP_MJ_WRITE :: int where "IRP_MJ_WRITE = 4"
definition IRP_MJ_DEVICE_CONTROL :: int where "IRP_MJ_DEVICE_CONTROL = 0xE"
definition IRP_MJ_QUERY_VOLUME_INFORMATION :: int where "IRP_MJ_QUERY_VOLUME_INFORMATION = 0xA"
definition IRP_MJ_SET_VOLUME_INFORMATION :: int where "IRP_MJ_SET_VOLUME_INFORMATION = 0xB"
definition IRP_MJ_QUERY_INFORMATION :: int where "IRP_MJ_QUERY_INFORMATION = 5"
definition IRP_MJ_SET_INFORMATION :: int where "IRP_MJ_SET_INFORMATION = 6"
definition IRP_MJ_DIRECTORY_CONTROL :: int where "IRP_MJ_DIRECTORY_CONTROL = 0xC"
definition IRP_MJ_LOCK_CONTROL :: int where "IRP_MJ_LOCK_CONTROL = 0x11"
definition IRP_MN_QUERY_DIRECTORY :: int where "IRP_MN_QUERY_DIRECTORY = 1"
definition IRP_MN_NOTIFY_CHANGE_DIRECTORY :: int where "IRP_MN_NOTIFY_CHANGE_DIRECTORY = 2"

section \<open>What the channel uses of its surroundings\<close>

text \<open>
  The system, the memory found in local arrays (\<open>en_junk\<close>, \<open>en_junk'\<close>) and variables, whether the owner is still
  connected, the pattern matcher and the next random number.
\<close>

record ('o, 's) rdpdr_env =
  en_os :: "('o, 's) fs_os"
  en_junk :: "char list"
  en_junk' :: "char list"
  en_uninitialised :: int
  en_owner_here :: bool
  en_path_match :: "char list \<Rightarrow> char list \<Rightarrow> bool"
  en_random :: u32

section \<open>The drive as a device\<close>

definition guac_rdpdr_device_fs_announce_handler :: "u32 \<Rightarrow> u8 list" where
  "guac_rdpdr_device_fs_announce_handler device_id =
     write_u32 RDPDR_DTYP_FILESYSTEM @ write_u32 device_id @ bytes_of (''GUAC'' @ replicate 4 NUL)
     @ write_u32 (of_nat GUAC_FILESYSTEM_NAME_LENGTH) @ take GUAC_FILESYSTEM_NAME_LENGTH (bytes_of GUAC_FILESYSTEM_NAME)"

definition guac_rdpdr_device_fs_iorequest_handler ::
  "('o, 's) rdpdr_env \<Rightarrow> u32 \<Rightarrow> ('o, 's) rdp_session \<Rightarrow> u8 list \<Rightarrow> int \<Rightarrow> u32 \<Rightarrow> int \<Rightarrow> int \<Rightarrow> ('o, 's) rdpdr_result" where
  "guac_rdpdr_device_fs_iorequest_handler env device S input file_id completion_id major_func minor_func =
     (let os = en_os env; junk = en_junk env; junk' = en_junk' env; here = en_owner_here env in
      if major_func = IRP_MJ_CREATE then guac_rdpdr_fs_process_create os junk device S input completion_id
      else if major_func = IRP_MJ_CLOSE then guac_rdpdr_fs_process_close os junk here device S file_id completion_id
      else if major_func = IRP_MJ_READ then guac_rdpdr_fs_process_read os device S input file_id completion_id
      else if major_func = IRP_MJ_WRITE
        then guac_rdpdr_fs_process_write os (en_uninitialised env) device S input file_id completion_id
      else if major_func = IRP_MJ_DEVICE_CONTROL then guac_rdpdr_fs_process_device_control device S completion_id
      else if major_func = IRP_MJ_QUERY_VOLUME_INFORMATION then guac_rdpdr_fs_process_volume_info os device S input completion_id
      else if major_func = IRP_MJ_SET_VOLUME_INFORMATION then guac_rdpdr_fs_process_set_volume_info device S completion_id
      else if major_func = IRP_MJ_QUERY_INFORMATION then guac_rdpdr_fs_process_file_info device S input file_id completion_id
      else if major_func = IRP_MJ_SET_INFORMATION
        then guac_rdpdr_fs_process_set_file_info os junk here device S input file_id completion_id
      else if major_func = IRP_MJ_DIRECTORY_CONTROL then
        (if minor_func = IRP_MN_QUERY_DIRECTORY
         then guac_rdpdr_fs_process_query_directory os junk junk' (en_path_match env) device S input file_id completion_id
         else if minor_func = IRP_MN_NOTIFY_CHANGE_DIRECTORY then guac_rdpdr_fs_process_notify_change_directory S
         else Some ([], S))
      else if major_func = IRP_MJ_LOCK_CONTROL then guac_rdpdr_fs_process_lock_control device S completion_id
      else Some ([], S))"

section \<open>The plugin and its devices\<close>

text \<open>A device is told by its handlers; its id is its position.\<close>

datatype guac_rdpdr_device = Printer_Device | Filesystem_Device

record ('o, 's) guac_rdpdrPlugin =
  rp_devices :: "guac_rdpdr_device list"
  rp_session :: "('o, 's) rdp_session"

definition guac_rdpdr_device_printer_announce_handler :: "u32 \<Rightarrow> u8 list" where
  "guac_rdpdr_device_printer_announce_handler device_id =
     write_u32 RDPDR_DTYP_PRINT @ write_u32 device_id @ bytes_of (''PRN1'' @ replicate 4 NUL)
     @ write_u32 (of_nat (24 + GUAC_PRINTER_DRIVER_LENGTH + GUAC_PRINTER_NAME_LENGTH))
     @ write_u32 (RDPDR_PRINTER_ANNOUNCE_FLAG_DEFAULTPRINTER OR RDPDR_PRINTER_ANNOUNCE_FLAG_NETWORKPRINTER)
     @ write_u32 0 @ write_u32 0 @ write_u32 (of_nat GUAC_PRINTER_DRIVER_LENGTH)
     @ write_u32 (of_nat GUAC_PRINTER_NAME_LENGTH) @ write_u32 0
     @ take GUAC_PRINTER_DRIVER_LENGTH (bytes_of GUAC_PRINTER_DRIVER) @ take GUAC_PRINTER_NAME_LENGTH (bytes_of GUAC_PRINTER_NAME)"

primrec announce_device :: "guac_rdpdr_device \<Rightarrow> u32 \<Rightarrow> u8 list" where
  "announce_device Printer_Device i = guac_rdpdr_device_printer_announce_handler i"
| "announce_device Filesystem_Device i = guac_rdpdr_device_fs_announce_handler i"

definition guac_rdpdr_register_fs :: "('o, 's) guac_rdpdrPlugin \<Rightarrow> ('o, 's) guac_rdpdrPlugin option" where
  "guac_rdpdr_register_fs rdpdr =
     (if 8 \<le> length (rp_devices rdpdr) then None else Some (rdpdr\<lparr>rp_devices := rp_devices rdpdr @ [Filesystem_Device]\<rparr>))"

definition guac_rdpdr_register_printer :: "('o, 's) guac_rdpdrPlugin \<Rightarrow> ('o, 's) guac_rdpdrPlugin option" where
  "guac_rdpdr_register_printer rdpdr =
     (if 8 \<le> length (rp_devices rdpdr) then None else Some (rdpdr\<lparr>rp_devices := rp_devices rdpdr @ [Printer_Device]\<rparr>))"

definition guac_rdpdr_process_connect ::
  "('o, 's) rdp_session \<Rightarrow> bool \<Rightarrow> bool \<Rightarrow> ('o, 's) guac_rdpdrPlugin option" where
  "guac_rdpdr_process_connect S printing_enabled drive_enabled = do {
     let rdpdr = \<lparr>rp_devices = [], rp_session = S\<rparr>;
     rdpdr \<leftarrow> (if printing_enabled then guac_rdpdr_register_printer rdpdr else Some rdpdr);
     (if drive_enabled then guac_rdpdr_register_fs rdpdr else Some rdpdr)
   }"

section \<open>Messages of the core component\<close>

definition guac_rdpdr_send_client_announce_reply :: "u16 \<Rightarrow> u16 \<Rightarrow> u32 \<Rightarrow> u8 list" where
  "guac_rdpdr_send_client_announce_reply major minor client_id =
     write_u16 RDPDR_CTYP_CORE @ write_u16 PAKID_CORE_CLIENTID_CONFIRM @ write_u16 major @ write_u16 minor @ write_u32 client_id"

definition guac_rdpdr_send_client_name_request :: "char list \<Rightarrow> u8 list" where
  "guac_rdpdr_send_client_name_request name =
     write_u16 RDPDR_CTYP_CORE @ write_u16 PAKID_CORE_CLIENT_NAME @ write_u32 0 @ write_u32 0
     @ write_u32 (of_nat (length name + 1)) @ bytes_of (name @ [NUL])"

definition guac_rdpdr_send_client_capability :: "u8 list" where
  "guac_rdpdr_send_client_capability =
     write_u16 RDPDR_CTYP_CORE @ write_u16 PAKID_CORE_CLIENT_CAPABILITY @ write_u16 3 @ write_u16 0
     @ write_u16 CAP_GENERAL_TYPE @ write_u16 44 @ write_u32 GENERAL_CAPABILITY_VERSION_02
     @ write_u32 GUAC_OS_TYPE @ write_u32 0 @ write_u16 RDP_CLIENT_MAJOR_ALL @ write_u16 RDP_CLIENT_MINOR_5_2
     @ write_u32 0xFFFF @ write_u32 0
     @ write_u32 (RDPDR_DEVICE_REMOVE_PDUS OR RDPDR_CLIENT_DISPLAY_NAME OR RDPDR_USER_LOGGEDON_PDU)
     @ write_u32 0 @ write_u32 0 @ write_u32 0
     @ write_u16 CAP_PRINTER_TYPE @ write_u16 8 @ write_u32 PRINT_CAPABILITY_VERSION_01
     @ write_u16 CAP_DRIVE_TYPE @ write_u16 8 @ write_u32 DRIVE_CAPABILITY_VERSION_02"

text \<open>The list of devices, in a stream of 256 bytes.\<close>

fun announce_devices :: "nat \<Rightarrow> guac_rdpdr_device list \<Rightarrow> u8 list" where
  "announce_devices i [] = []"
| "announce_devices i (d # ds) = announce_device d (of_nat i) @ announce_devices (Suc i) ds"

definition guac_rdpdr_send_client_device_list_announce_request :: "('o, 's) guac_rdpdrPlugin \<Rightarrow> u8 list option" where
  "guac_rdpdr_send_client_device_list_announce_request rdpdr =
     (let packet = write_u16 RDPDR_CTYP_CORE @ write_u16 PAKID_CORE_DEVICELIST_ANNOUNCE
            @ write_u32 (of_nat (length (rp_devices rdpdr))) @ announce_devices 0 (rp_devices rdpdr) in
      if 256 < length packet then None else Some packet)"

type_synonym ('o, 's) plugin_result = "(u8 list list \<times> ('o, 's) guac_rdpdrPlugin) option"

definition guac_rdpdr_process_server_announce ::
  "('o, 's) rdpdr_env \<Rightarrow> ('o, 's) guac_rdpdrPlugin \<Rightarrow> u8 list \<Rightarrow> ('o, 's) plugin_result" where
  "guac_rdpdr_process_server_announce env rdpdr input = do {
     (major, input) \<leftarrow> read_u16 input;
     (minor, input) \<leftarrow> read_u16 input;
     (client_id, input) \<leftarrow> read_u32 input;
     let client_id = (if minor < 12 then en_random env AND 0xFFFF else client_id);
     Some ([guac_rdpdr_send_client_announce_reply major minor client_id, guac_rdpdr_send_client_name_request ''Guacamole RDP''], rdpdr)
   }"

definition guac_rdpdr_process_clientid_confirm :: "('o, 's) guac_rdpdrPlugin \<Rightarrow> ('o, 's) plugin_result" where
  "guac_rdpdr_process_clientid_confirm rdpdr = Some ([], rdpdr)"

text \<open>The reply to the announcement of a device is logged only.\<close>

definition guac_rdpdr_process_device_reply :: "('o, 's) guac_rdpdrPlugin \<Rightarrow> u8 list \<Rightarrow> ('o, 's) plugin_result" where
  "guac_rdpdr_process_device_reply rdpdr input = do {
     (device_id, input) \<leftarrow> read_u32 input;
     (ntstatus, input) \<leftarrow> read_u32 input;
     Some ([], rdpdr)
   }"

definition guac_rdpdr_process_device_iorequest ::
  "('o, 's) rdpdr_env \<Rightarrow> ('o, 's) guac_rdpdrPlugin \<Rightarrow> u8 list \<Rightarrow> ('o, 's) plugin_result" where
  "guac_rdpdr_process_device_iorequest env rdpdr input = do {
     (device_id, input) \<leftarrow> read_u32 input;
     (file_id, input) \<leftarrow> read_u32 input;
     (completion_id, input) \<leftarrow> read_u32 input;
     (major_func, input) \<leftarrow> read_u32 input;
     (minor_func, input) \<leftarrow> read_u32 input;
     if 0 \<le> sint device_id \<and> sint device_id < int (length (rp_devices rdpdr)) then
       (case rp_devices rdpdr ! nat (sint device_id) of
          Printer_Device \<Rightarrow> None
        | Filesystem_Device \<Rightarrow>
            map_option (\<lambda>(packets, S). (packets, rdpdr\<lparr>rp_session := S\<rparr>))
              (guac_rdpdr_device_fs_iorequest_handler env device_id (rp_session rdpdr) input (sint file_id) completion_id
                 (sint major_func) (sint minor_func)))
     else Some ([], rdpdr)
   }"

text \<open>The capability sets are skipped by their lengths; one shorter than its own header moves the pointer back.\<close>

fun skip_capabilities :: "nat \<Rightarrow> u8 list \<Rightarrow> u8 list option" where
  "skip_capabilities 0 input = Some input"
| "skip_capabilities (Suc n) input =
     (case read_u16 input of None \<Rightarrow> None
      | Some (capability_type, rest) \<Rightarrow>
          (case read_u16 rest of None \<Rightarrow> None
           | Some (len, rest') \<Rightarrow>
               if length input < unat len then None else skip_capabilities n (drop (unat len) input)))"

definition guac_rdpdr_process_server_capability :: "('o, 's) guac_rdpdrPlugin \<Rightarrow> u8 list \<Rightarrow> ('o, 's) plugin_result" where
  "guac_rdpdr_process_server_capability rdpdr input = do {
     (count, input) \<leftarrow> read_u16 input;
     input \<leftarrow> seek 2 input;
     input \<leftarrow> skip_capabilities (unat count) input;
     Some ([guac_rdpdr_send_client_capability], rdpdr)
   }"

definition guac_rdpdr_process_user_loggedon :: "('o, 's) guac_rdpdrPlugin \<Rightarrow> ('o, 's) plugin_result" where
  "guac_rdpdr_process_user_loggedon rdpdr =
     map_option (\<lambda>packet. ([packet], rdpdr)) (guac_rdpdr_send_client_device_list_announce_request rdpdr)"

section \<open>Receiving a packet\<close>

text \<open>The packets of the printer component are logged only, as are unknown ones.\<close>

definition guac_rdpdr_process_receive ::
  "('o, 's) rdpdr_env \<Rightarrow> ('o, 's) guac_rdpdrPlugin \<Rightarrow> u8 list \<Rightarrow> ('o, 's) plugin_result" where
  "guac_rdpdr_process_receive env rdpdr input = do {
     (component_type, input) \<leftarrow> read_u16 input;
     (packet_id, input) \<leftarrow> read_u16 input;
     if component_type = RDPDR_CTYP_CORE then
       (if packet_id = PAKID_CORE_SERVER_ANNOUNCE then guac_rdpdr_process_server_announce env rdpdr input
        else if packet_id = PAKID_CORE_CLIENTID_CONFIRM then guac_rdpdr_process_clientid_confirm rdpdr
        else if packet_id = PAKID_CORE_DEVICE_REPLY then guac_rdpdr_process_device_reply rdpdr input
        else if packet_id = PAKID_CORE_DEVICE_IOREQUEST then guac_rdpdr_process_device_iorequest env rdpdr input
        else if packet_id = PAKID_CORE_SERVER_CAPABILITY then guac_rdpdr_process_server_capability rdpdr input
        else if packet_id = PAKID_CORE_USER_LOGGEDON then guac_rdpdr_process_user_loggedon rdpdr
        else Some ([], rdpdr))
     else Some ([], rdpdr)
   }"

text \<open>Packets in the order they arrive, and all that is sent in answer.\<close>

fun rdpdr_session :: "('o, 's) rdpdr_env \<Rightarrow> ('o, 's) guac_rdpdrPlugin \<Rightarrow> u8 list list \<Rightarrow> ('o, 's) plugin_result" where
  "rdpdr_session env rdpdr [] = Some ([], rdpdr)"
| "rdpdr_session env rdpdr (input # inputs) = do {
     (packets, rdpdr) \<leftarrow> guac_rdpdr_process_receive env rdpdr input;
     (rest, rdpdr) \<leftarrow> rdpdr_session env rdpdr inputs;
     Some (packets @ rest, rdpdr)
   }"

end
