(* ===== verification/Rdpdr_Drive.thy ===== *)
theory Rdpdr_Drive
  imports Rdpdr
begin

text \<open>
  What the RDPDR channel makes of the drive: the file written by one sequence of requests is the file read by another,
  each request is answered at most once, and what becomes of a file written into the folder \<open>Download\<close>.
\<close>

section \<open>Files that are held open\<close>

text \<open>Any path of proper components, opened with any access that comes to the same flags.\<close>

lemma open_components:
  assumes "comps \<noteq> []" and "\<forall>n \<in> set comps. proper n" and "NUL \<notin> set (path_text comps)" and "length comps \<le> 64"
    and "length junk = 4096" and "length (drive_path fs) + length (path_text comps) \<le> 4095" and "open_files fs < 128"
    and "create_options AND 1 = 0"
  shows "guac_rdp_fs_open os junk fs (path_text comps) acc DISP_FILE_OVERWRITE_IF create_options
      = open_with_id os fs (path_text comps) (drive_path fs @ concat (map (Cons CHR ''/'') comps))
          (access_flags acc OR ios_trunc) False False True"
    "guac_rdp_fs_open os junk fs (path_text comps) acc DISP_FILE_OPEN create_options
      = open_with_id os fs (path_text comps) (drive_path fs @ concat (map (Cons CHR ''/'') comps)) (access_flags acc) False False True"
proof -
  obtain cs where cs: "path_text comps = CHR 0x5C # cs" using path_text_hd [of comps] by (cases "path_text comps") auto
  have parts: "path_parts [] cs = comps" using path_parts_text [OF assms(2)] assms(1) cs by simp
  have "length (filter named comps) \<le> 64" using assms(4) length_filter_le [of named comps] by linarith
  then have "guac_rdp_fs_normalize_path junk (CHR 0x5C # cs) = Some (Some (path_text comps))"
    using normalize_path_ok [of cs junk "CHR 0x5C"] assms(1-6) cs resolve_id [OF assms(2), of "[]"]
    by (simp add: parts is_separator_def path_text_def)
  then have n: "guac_rdp_fs_normalize_path junk (path_text comps) = Some (Some (path_text comps))" by (simp add: cs)
  have t: "guac_rdp_fs_translate_path (drive_path fs) (path_text comps) = drive_path fs @ concat (map (Cons CHR ''/'') comps)"
    using translate_text [OF assms(2,6)] assms(1) by simp
  have h: "path_text comps \<noteq> []" "is_separator (hd (path_text comps))" using path_text_hd [of comps] by (simp_all add: is_separator_def)
  note o = guac_rdp_fs_open_def GUAC_RDP_FS_MAX_FILES_def Let_def disposition_def
  show "guac_rdp_fs_open os junk fs (path_text comps) acc DISP_FILE_OVERWRITE_IF create_options
      = open_with_id os fs (path_text comps) (drive_path fs @ concat (map (Cons CHR ''/'') comps))
          (access_flags acc OR ios_trunc) False False True"
    using assms(7,8) n h by (simp add: o DISP_FILE_OVERWRITE_IF_def t)
  show "guac_rdp_fs_open os junk fs (path_text comps) acc DISP_FILE_OPEN create_options
      = open_with_id os fs (path_text comps) (drive_path fs @ concat (map (Cons CHR ''/'') comps)) (access_flags acc) False False True"
    using assms(7,8) n h by (simp add: o DISP_FILE_OPEN_def t)
qed

text \<open>File \<open>v\<close>, opened beside those of \<open>ids\<close>, is \<open>p\<close> under the name \<open>n\<close> and contains \<open>file\<close>.\<close>

definition held ::
  "('o, 's) fs_os \<Rightarrow> ('o \<Rightarrow> 's \<Rightarrow> char list) \<Rightarrow> ('o \<Rightarrow> char list \<Rightarrow> u8 list) \<Rightarrow> int set \<Rightarrow> int set \<Rightarrow> char list \<Rightarrow> char list \<Rightarrow> char list \<Rightarrow>
   nat \<Rightarrow> 's \<Rightarrow> u8 list \<Rightarrow> ('o, 's) guac_rdp_fs \<Rightarrow> bool" where
  "held os target content L ids dir n p v s file fs \<longleftrightarrow>
     fs_ok fs L \<and> int v \<notin> ids \<and> v < 128 \<and> open_ids fs = insert (int v) ids \<and> file_stream (fs_files fs ! v) = Some s
     \<and> os_is_open os (fs_os_state fs) s \<and> target (fs_os_state fs) s = p \<and> content (fs_os_state fs) p = file
     \<and> absolute_path (fs_files fs ! v) = Some n \<and> real_path (fs_files fs ! v) = Some p \<and> drive_path fs = dir"

lemma opened_held:
  assumes "fs_ok fs L" and "open_ids fs \<union> L \<noteq> {0..<128}"
    and st: "open_stream os (fs_os_state fs) p fl False True = Inr (Some s, w)"
    and "os_is_open os w s" "target w s = p" "content w p = file"
  obtains v fs' where "open_with_id os fs n p fl False False True = Some (int v, fs')"
    "held os target content L (open_ids fs) (drive_path fs) n p v s file fs'" "fs_os_state fs' = w"
    "bytes_written (fs_files fs' ! v) = 0"
  using assms(1)
proof (cases rule: open_with_id_cases [where os = os and n = n and p = p and fl = fl and d = False
      and fails = False and c = True])
  case full
  with assms(2) show ?thesis by blast
next
  case (opened v fs')
  have len: "length (fs_files fs) = 128" using assms(1) by (simp add: fs_ok_def)
  note os' = opened_stream [OF opened(1) st len]
  have new: "bytes_written (fs_files fs' ! v) = 0"
    using opened(1) st len
    by (auto simp: open_with_id_def Let_def file_info_def split: option.splits if_splits prod.splits)
  show ?thesis using opened os' assms new by (intro that [OF opened(1)]) (simp_all add: held_def)
qed simp

text \<open>The status of a file does not depend on its being written or closed.\<close>

definition keeps_files :: "('o, 's) fs_os \<Rightarrow> bool" where
  "keeps_files os \<longleftrightarrow>
     (\<forall>w p s w'. os_open os w p (ios_out OR ios_trunc) = (s, w') \<and> \<not> os_is_directory os w p \<longrightarrow>
        os_exists os w' p \<and> \<not> os_is_directory os w' p)
   \<and> (\<forall>w s i d p. os_exists os (os_write os w s i d) p = os_exists os w p
        \<and> os_is_directory os (os_write os w s i d) p = os_is_directory os w p)
   \<and> (\<forall>w s p. os_exists os (os_close os w s) p = os_exists os w p
        \<and> os_is_directory os (os_close os w s) p = os_is_directory os w p)"

definition is_file :: "('o, 's) fs_os \<Rightarrow> 'o \<Rightarrow> char list \<Rightarrow> bool" where
  "is_file os w p \<longleftrightarrow> os_exists os w p \<and> \<not> os_is_directory os w p"

lemma open_to_write:
  assumes laws: "stores_files os target content" "keeps_files os" and fs: "fs_ok fs L" "open_ids fs \<union> L \<noteq> {0..<128}"
    and dir: "\<not> os_is_directory os (fs_os_state fs) p"
  obtains v s fs' where "open_with_id os fs n p (ios_out OR ios_trunc) False False True = Some (int v, fs')"
    "held os target content L (open_ids fs) (drive_path fs) n p v s [] fs'" "is_file os (fs_os_state fs') p"
    "bytes_written (fs_files fs' ! v) = 0"
proof -
  let ?w = "fs_os_state fs" and ?fl = "ios_out OR ios_trunc"
  define w0 where "w0 = (if os_exists os ?w p then ?w else os_create os ?w p)"
  have dir0: "\<not> os_is_directory os w0 p" using laws(1) dir by (simp add: stores_files_def w0_def)
  obtain s w1 where s: "os_open os w0 p ?fl = (s, w1)" by (cases "os_open os w0 p ?fl")
  have law: "os_is_open os w1 s" "target w1 s = p" "content w1 p = []"
    using laws(1) s dir0 unfolding stores_files_def by (metis (no_types))+
  have there: "is_file os w1 p" using laws(2) s dir0 unfolding keeps_files_def is_file_def by blast
  have "open_stream os ?w p ?fl False True = Inr (Some s, w1)"
    using s dir by (auto simp: open_stream_def w0_def split: if_splits)
  then obtain v fs' where "open_with_id os fs n p ?fl False False True = Some (int v, fs')"
    "held os target content L (open_ids fs) (drive_path fs) n p v s [] fs'" "fs_os_state fs' = w1"
    "bytes_written (fs_files fs' ! v) = 0"
    by (rule opened_held [where target = target and content = content, OF fs _ law])
  then show ?thesis using that there by simp
qed

lemma open_to_read:
  assumes laws: "stores_files os target content" and fs: "fs_ok fs L" "open_ids fs \<union> L \<noteq> {0..<128}"
    and there: "os_exists os (fs_os_state fs) p" "\<not> os_is_directory os (fs_os_state fs) p"
  obtains v s fs' where "open_with_id os fs n p ios_in False False True = Some (int v, fs')"
    "held os target content L (open_ids fs) (drive_path fs) n p v s (content (fs_os_state fs) p) fs'"
proof -
  let ?w = "fs_os_state fs"
  obtain s w1 where s: "os_open os ?w p ios_in = (s, w1)" by (cases "os_open os ?w p ios_in")
  have law: "os_is_open os w1 s" "target w1 s = p" "content w1 p = content ?w p"
    using laws s there unfolding stores_files_def by (metis (no_types))+
  have "open_stream os ?w p ios_in False True = Inr (Some s, w1)" using s there by (simp add: open_stream_def)
  then show ?thesis by (rule opened_held [where target = target and content = content, OF fs _ law]) (rule that)
qed

lemma held_write:
  assumes laws: "stores_files os target content" and h: "held os target content L ids dir n p v s file fs"
  obtains fs' where
    "guac_rdp_fs_write os uninitialised fs (int v) (int (length file)) data = (int (length data), fs')"
    "held os target content L ids dir n p v s (file @ data) fs'"
    "fs_os_state fs' = os_write os (fs_os_state fs) s (int (length file)) data"
    "bytes_written (fs_files fs' ! v) = bytes_written (fs_files fs ! v) + int (length data)"
proof -
  let ?f = "fs_files fs ! v"
  note u = h [unfolded held_def]
  define w where "w = os_write os (fs_os_state fs) s (int (length file)) data"
  define fs' where "fs' = fs\<lparr>fs_os_state := w, fs_files := (fs_files fs)[v := ?f\<lparr>bytes_written := bytes_written ?f + int (length data)\<rparr>]\<rparr>"
  have run: "guac_rdp_fs_write os uninitialised fs (int v) (int (length file)) data = (int (length data), fs')"
    using u by (simp add: guac_rdp_fs_write_def guac_rdp_fs_get_file_def GUAC_RDP_FS_MAX_FILES_def open_file_stream_def
        fs'_def w_def Let_def)
  have ok: "fs_ok fs L" using u by simp
  then have len: "length (fs_files fs) = 128" by (simp add: fs_ok_def)
  have ids: "open_ids fs' = open_ids fs"
    using open_ids_update [of fs' fs v "?f\<lparr>bytes_written := bytes_written ?f + int (length data)\<rparr>"] u len
    by (auto simp: fs'_def)
  then have "fs_ok fs' L" using ok by (simp add: fs_ok_def) (simp add: fs'_def)
  moreover have "os_is_open os w s \<and> target w s = p \<and> content w p = file @ data"
    using laws u unfolding stores_files_def w_def by metis
  ultimately have "held os target content L ids dir n p v s (file @ data) fs'"
    using ids u len by (auto simp: held_def fs'_def)
  then show ?thesis using that [OF run] u len by (simp add: fs'_def w_def)
qed

lemma held_read:
  assumes laws: "stores_files os target content" and h: "held os target content L ids dir n p v s file fs" and "0 \<le> i" "0 \<le> k"
  obtains fs' where "guac_rdp_fs_read os fs (int v) i k
      = (int (length (take (nat k) (drop (nat i) file))), take (nat k) (drop (nat i) file), fs')"
    "held os target content L ids dir n p v s file fs'"
proof -
  let ?w = "fs_os_state fs"
  note u = h [unfolded held_def]
  obtain d w' where r: "os_read os ?w s i k = (d, w')" by (cases "os_read os ?w s i k")
  have l: "\<forall>w s i n d w'. os_is_open os w s \<and> 0 \<le> i \<and> 0 \<le> n \<and> os_read os w s i n = (d, w') \<longrightarrow>
        d = take (nat n) (drop (nat i) (content w (target w s)))
        \<and> os_is_open os w' s \<and> target w' s = target w s \<and> content w' (target w s) = content w (target w s)"
    using laws unfolding stores_files_def by blast
  have law: "d = take (nat k) (drop (nat i) file)" "os_is_open os w' s" "target w' s = p" "content w' p = file"
    using l [rule_format, of ?w s i k d w'] u assms(3,4) r by auto
  let ?fs = "fs\<lparr>fs_os_state := w'\<rparr>"
  have "open_ids ?fs = open_ids fs" "fs_ok ?fs L"
    using u open_ids_cong [of ?fs fs] fs_ok_cong [of ?fs fs] by simp_all
  then have "held os target content L ids dir n p v s file ?fs" using u law by (simp add: held_def)
  moreover have "guac_rdp_fs_read os fs (int v) i k = (int (length d), d, ?fs)"
    using u r by (simp add: guac_rdp_fs_read_def guac_rdp_fs_get_file_def GUAC_RDP_FS_MAX_FILES_def open_file_stream_def)
  ultimately show ?thesis using that law(1) by simp
qed

lemma held_close:
  assumes laws: "stores_files os target content" and h: "held os target content L ids dir n p v s file fs"
  obtains fs' where "guac_rdp_fs_close os fs (int v) = Some fs'" "fs_ok fs' L" "open_ids fs' = ids"
    "content (fs_os_state fs') p = file" "drive_path fs' = dir" "fs_os_state fs' = os_close os (fs_os_state fs) s"
proof -
  note u = h [unfolded held_def]
  obtain fs' where f: "guac_rdp_fs_close os fs (int v) = Some fs'" "fs_ok fs' L" "open_ids fs' = ids"
    using close_open_id [of fs L v os] u by auto
  have c: "fs_os_state fs' = os_close os (fs_os_state fs) s"
    using closed_file [OF f(1)] u by simp
  have "drive_path fs' = dir" using f(1) u by (auto simp: guac_rdp_fs_close_def Let_def split: option.splits prod.splits)
  moreover have "content (fs_os_state fs') p = file" using c laws u unfolding stores_files_def by simp
  ultimately show ?thesis using that f c by blast
qed

section \<open>Requests and replies\<close>

definition iorequest :: "u32 \<Rightarrow> u32 \<Rightarrow> u32 \<Rightarrow> int \<Rightarrow> int \<Rightarrow> u8 list \<Rightarrow> u8 list" where
  "iorequest device file_id completion_id major minor payload =
     write_u16 RDPDR_CTYP_CORE @ write_u16 PAKID_CORE_DEVICE_IOREQUEST @ write_u32 device @ write_u32 file_id
     @ write_u32 completion_id @ write_u32 (word_of_int major) @ write_u32 (word_of_int minor) @ payload"

definition create_request :: "u32 \<Rightarrow> int \<Rightarrow> u32 \<Rightarrow> u16 list \<Rightarrow> u8 list" where
  "create_request acc disp opts cs = write_u32 acc @ write_u64 0 @ write_u32 0 @ write_u32 0 @ write_u32 (word_of_int disp)
     @ write_u32 opts @ write_u32 (of_nat (2 * (length cs + 1))) @ utf16_bytes cs @ write_u16 0"

definition read_request :: "u32 \<Rightarrow> u64 \<Rightarrow> u8 list" where
  "read_request len offset = write_u32 len @ write_u64 offset @ replicate 20 0"

definition write_request :: "u64 \<Rightarrow> u8 list \<Rightarrow> u8 list" where
  "write_request offset data = write_u32 (of_nat (length data)) @ write_u64 offset @ replicate 20 0 @ data"

definition completion :: "u32 \<Rightarrow> u32 \<Rightarrow> u32 \<Rightarrow> u8 list \<Rightarrow> u8 list" where
  "completion device completion_id status content =
     write_u16 RDPDR_CTYP_CORE @ write_u16 PAKID_CORE_DEVICE_IOCOMPLETION
     @ write_u32 device @ write_u32 completion_id @ write_u32 status @ content"

lemma new_io_completion_fits [simp]:
  "length content \<le> room \<Longrightarrow> guac_rdpdr_new_io_completion device completion_id status room content
     = Some (completion device completion_id status content)"
  by (simp add: guac_rdpdr_new_io_completion_def completion_def)

lemma sint_u32: "0 \<le> x \<Longrightarrow> x < 2 ^ 31 \<Longrightarrow> sint (word_of_int x :: u32) = x"
  by (simp add: signed_take_bit_int_eq_self sint_sbintrunc')

lemma uint_u64: "n < 2 ^ 31 \<Longrightarrow> uint (of_nat n :: u64) = int n"
  by (simp add: unsigned_of_nat take_bit_nat_eq_self_iff)

lemma seek_writes [simp]:
  "seek 4 (write_u32 x @ rest) = Some rest" "seek 8 (write_u64 y @ rest) = Some rest"
  using seek_append [of "write_u32 x" rest] seek_append [of "write_u64 y" rest] by simp_all

definition drive_at :: "('o, 's) guac_rdpdrPlugin \<Rightarrow> u32 \<Rightarrow> bool" where
  "drive_at rdpdr device \<longleftrightarrow> 0 \<le> sint device \<and> sint device < int (length (rp_devices rdpdr))
     \<and> rp_devices rdpdr ! nat (sint device) = Filesystem_Device"

lemma receive_request:
  assumes "drive_at rdpdr device" and "0 \<le> major" "major < 2 ^ 31" "0 \<le> minor" "minor < 2 ^ 31"
  shows "guac_rdpdr_process_receive env rdpdr (iorequest device file_id completion_id major minor payload)
     = map_option (\<lambda>(packets, S). (packets, rdpdr\<lparr>rp_session := S\<rparr>))
         (guac_rdpdr_device_fs_iorequest_handler env device (rp_session rdpdr) payload (sint file_id) completion_id major minor)"
  using assms
  by (simp add: guac_rdpdr_process_receive_def iorequest_def guac_rdpdr_process_device_iorequest_def drive_at_def sint_u32
      RDPDR_CTYP_CORE_def PAKID_CORE_DEVICE_IOREQUEST_def PAKID_CORE_SERVER_ANNOUNCE_def PAKID_CORE_CLIENTID_CONFIRM_def
      PAKID_CORE_DEVICE_REPLY_def)

lemma length_utf8_text: "length cs \<le> length (utf8_text cs)"
proof (induction cs)
  case (Cons c cs)
  have "1 \<le> length (utf8_encode (uint c))" by (simp add: length_utf8_encode utf8_size_def)
  then show ?case using Cons by (simp add: utf8_text_def)
qed simp

lemma process_create_opened:
  assumes "0 \<notin> set cs" "utf8_text cs = n" "length n \<le> 4095" and "0 \<le> disp" "disp < 2 ^ 31"
    and "rs_filesystem S = Some fs" "guac_rdp_fs_open os junk fs n acc disp opts = Some (int v, fs')"
    and "v < 128" "absolute_path (fs_files fs' ! v) = Some m" "m \<noteq> [CHR 0x5C]"
  shows "guac_rdpdr_fs_process_create os junk device S (create_request acc disp opts cs) completion_id
     = Some ([completion device completion_id STATUS_SUCCESS (write_u32 (word_of_int (int v)) @ [0])], S\<lparr>rs_filesystem := Some fs'\<rparr>)"
proof -
  have l: "length cs \<le> 4095" using length_utf8_text [of cs] assms(2,3) by simp
  define path_length :: u32 where "path_length = of_nat (2 * (length cs + 1))"
  have "sint path_length = int (2 * (length cs + 1))"
    using sint_u32 [of "int (2 * (length cs + 1))"] l by (simp add: path_length_def)
  then have p: "sint path_length div 2 - 1 = int (length cs)" by simp
  have u: "guac_rdp_utf16_to_utf8 (utf16_bytes cs @ write_u16 0) (int (length cs)) (int GUAC_RDP_FS_MAX_PATH) = Some n"
    using utf16_to_utf8_ok [OF assms(1), of "int GUAC_RDP_FS_MAX_PATH" "write_u16 0"] assms(2,3)
    by (simp add: GUAC_RDP_FS_MAX_PATH_def)
  have a: "(case guac_rdp_fs_get_file (int v) of None \<Rightarrow> False
       | Some k \<Rightarrow> absolute_path (fs_files fs' ! k) = Some [CHR 0x5C]) = False"
    using assms(8-10) by (simp add: guac_rdp_fs_get_file_def GUAC_RDP_FS_MAX_FILES_def)
  show ?thesis
    using assms(4-7) a u
    unfolding create_request_def path_length_def [symmetric]
    by (simp add: guac_rdpdr_fs_process_create_def p sint_u32 reply_def Let_def)
qed

lemma process_write_done:
  assumes "rs_filesystem S = Some fs" "length data < 2 ^ 31"
    and "guac_rdp_fs_write os uninitialised fs file_id (uint offset) data = (int (length data), fs')"
  shows "guac_rdpdr_fs_process_write os uninitialised device S (write_request offset data) file_id completion_id
     = Some ([completion device completion_id STATUS_SUCCESS (write_u32 (of_nat (length data)) @ [0])], S\<lparr>rs_filesystem := Some fs'\<rparr>)"
proof -
  define len :: u32 where "len = of_nat (length data)"
  have l: "unat len = length data" using assms(2) by (simp add: len_def unat_of_nat take_bit_nat_eq_self_iff)
  have s: "seek 20 (replicate 20 0 @ data) = Some data" using seek_append [of "replicate 20 0" data] by simp
  show ?thesis
    using assms(1,3) l unfolding write_request_def len_def [symmetric]
    by (simp add: guac_rdpdr_fs_process_write_def s reply_def Let_def del: replicate.simps replicate_Suc) (simp add: len_def)
qed

lemma process_read_done:
  fixes len :: u32 and data :: "u8 list"
  assumes "rs_filesystem S = Some fs" and "len \<le> GUAC_RDP_MAX_READ_BUFFER"
    and "guac_rdp_fs_read os fs file_id (uint offset) (uint len) = (int (length data), data, fs')"
  shows "guac_rdpdr_fs_process_read os device S (read_request len offset) file_id completion_id
     = Some ([completion device completion_id STATUS_SUCCESS (write_u32 (of_nat (length data)) @ data)], S\<lparr>rs_filesystem := Some fs'\<rparr>)"
proof -
  have "\<not> GUAC_RDP_MAX_READ_BUFFER < len" using assms(2) by simp
  then show ?thesis using assms(1,3)
    by (simp add: guac_rdpdr_fs_process_read_def read_request_def reply_def Let_def)
qed

lemma process_close_done:
  assumes "rs_filesystem S = Some fs" and "v < 128" and "absolute_path (fs_files fs ! v) = Some n" "take 10 n \<noteq> DOWNLOAD_FOLDER"
    and "guac_rdp_fs_close os fs (int v) = Some fs'"
  shows "guac_rdpdr_fs_process_close os junk owner_here device S (int v) completion_id
     = Some ([completion device completion_id STATUS_SUCCESS [0, 0, 0, 0]], S\<lparr>rs_filesystem := Some fs'\<rparr>)"
  using assms by (simp add: guac_rdpdr_fs_process_close_def guac_rdp_fs_get_file_def GUAC_RDP_FS_MAX_FILES_def reply_def Let_def)

section \<open>A file written and read back\<close>

lemma session_append:
  "rdpdr_session env rdpdr xs = Some (ps, rdpdr') \<Longrightarrow> rdpdr_session env rdpdr' ys = Some (qs, rdpdr'') \<Longrightarrow>
     rdpdr_session env rdpdr (xs @ ys) = Some (ps @ qs, rdpdr'')"
proof (induction xs arbitrary: rdpdr ps)
  case (Cons x xs)
  then obtain p r q where "guac_rdpdr_process_receive env rdpdr x = Some (p, r)" "rdpdr_session env r xs = Some (q, rdpdr')" "ps = p @ q"
    by (auto split: bind_splits)
  with Cons.IH [of r q] Cons.prems(2) show ?case by simp
qed simp

text \<open>The writes of \<open>pieces\<close> at consecutive offsets, and their answers. Each piece has a request id.\<close>

fun write_requests :: "u32 \<Rightarrow> u32 \<Rightarrow> nat \<Rightarrow> (u32 \<times> u8 list) list \<Rightarrow> u8 list list" where
  "write_requests device v offset [] = []"
| "write_requests device v offset ((c, data) # pieces) =
     iorequest device v c IRP_MJ_WRITE 0 (write_request (of_nat offset) data) # write_requests device v (offset + length data) pieces"

definition write_answers :: "u32 \<Rightarrow> (u32 \<times> u8 list) list \<Rightarrow> u8 list list" where
  "write_answers device pieces =
     map (\<lambda>(c, data). completion device c STATUS_SUCCESS (write_u32 (of_nat (length data)) @ [0])) pieces"

lemma drive_at_session [simp]: "drive_at (rdpdr\<lparr>rp_session := S\<rparr>) device = drive_at rdpdr device"
  by (simp add: drive_at_def)

lemma small_id: "v < 128 \<Longrightarrow> sint (of_nat v :: u32) = int v"
  using sint_u32 [of "int v"] by simp

lemmas io_functions = IRP_MJ_CREATE_def IRP_MJ_CLOSE_def IRP_MJ_READ_def IRP_MJ_WRITE_def

lemma receives:
  assumes "drive_at rdpdr device"
  shows "guac_rdpdr_fs_process_create (en_os env) (en_junk env) device (rp_session rdpdr) payload c = Some (ps, S) \<Longrightarrow>
      guac_rdpdr_process_receive env rdpdr (iorequest device f c IRP_MJ_CREATE 0 payload) = Some (ps, rdpdr\<lparr>rp_session := S\<rparr>)"
    "guac_rdpdr_fs_process_close (en_os env) (en_junk env) (en_owner_here env) device (rp_session rdpdr) (sint f) c = Some (ps, S) \<Longrightarrow>
      guac_rdpdr_process_receive env rdpdr (iorequest device f c IRP_MJ_CLOSE 0 payload) = Some (ps, rdpdr\<lparr>rp_session := S\<rparr>)"
    "guac_rdpdr_fs_process_read (en_os env) device (rp_session rdpdr) payload (sint f) c = Some (ps, S) \<Longrightarrow>
      guac_rdpdr_process_receive env rdpdr (iorequest device f c IRP_MJ_READ 0 payload) = Some (ps, rdpdr\<lparr>rp_session := S\<rparr>)"
    "guac_rdpdr_fs_process_write (en_os env) (en_uninitialised env) device (rp_session rdpdr) payload (sint f) c = Some (ps, S) \<Longrightarrow>
      guac_rdpdr_process_receive env rdpdr (iorequest device f c IRP_MJ_WRITE 0 payload) = Some (ps, rdpdr\<lparr>rp_session := S\<rparr>)"
  using assms
  by (simp_all add: receive_request io_functions guac_rdpdr_device_fs_iorequest_handler_def Let_def)

lemma written_pieces:
  assumes laws: "stores_files os target content" "keeps_files os" and os: "en_os env = os" and dev: "drive_at rdpdr device"
    and h: "held os target content L ids dir n p v s file fs" "is_file os (fs_os_state fs) p"
      "rs_filesystem (rp_session rdpdr) = Some fs"
    and len: "length file + length (concat (map snd pieces)) < 2 ^ 31"
  shows "\<exists>rdpdr' fs'. rdpdr_session env rdpdr (write_requests device (of_nat v) (length file) pieces)
      = Some (write_answers device pieces, rdpdr')
    \<and> drive_at rdpdr' device \<and> held os target content L ids dir n p v s (file @ concat (map snd pieces)) fs'
    \<and> is_file os (fs_os_state fs') p \<and> rs_filesystem (rp_session rdpdr') = Some fs'"
  using dev h len
proof (induction pieces arbitrary: rdpdr "file" fs)
  case (Cons piece pieces)
  obtain c data where piece: "piece = (c, data)" by fastforce
  obtain fs1 where w: "guac_rdp_fs_write os (en_uninitialised env) fs (int v) (int (length file)) data = (int (length data), fs1)"
    "held os target content L ids dir n p v s (file @ data) fs1" "fs_os_state fs1 = os_write os (fs_os_state fs) s (int (length file)) data"
    by (rule held_write [OF laws(1) Cons.prems(2)])
  have "uint (of_nat (length file) :: u64) = int (length file)"
    using Cons.prems(5) by (intro uint_u64) simp
  then have pw: "guac_rdpdr_fs_process_write os (en_uninitialised env) device (rp_session rdpdr) (write_request (of_nat (length file)) data) (int v) c
      = Some ([completion device c STATUS_SUCCESS (write_u32 (of_nat (length data)) @ [0])], (rp_session rdpdr)\<lparr>rs_filesystem := Some fs1\<rparr>)"
    using process_write_done [OF Cons.prems(4), of data os _ "int v" "of_nat (length file)" fs1] w(1) Cons.prems(5) piece by simp
  have v: "v < 128" using Cons.prems(2) by (simp add: held_def)
  let ?r = "rdpdr\<lparr>rp_session := (rp_session rdpdr)\<lparr>rs_filesystem := Some fs1\<rparr>\<rparr>"
  have r: "guac_rdpdr_process_receive env rdpdr (iorequest device (of_nat v) c IRP_MJ_WRITE 0 (write_request (of_nat (length file)) data))
      = Some ([completion device c STATUS_SUCCESS (write_u32 (of_nat (length data)) @ [0])], ?r)"
    using pw os by (intro receives(4) [OF Cons.prems(1)]) (simp add: small_id [OF v])
  have "is_file os (fs_os_state fs1) p" using laws(2) Cons.prems(3) w(3) by (simp add: keeps_files_def is_file_def)
  from Cons.IH [OF _ w(2) this, of ?r] Cons.prems(1,5) piece r show ?case
    by (force simp: write_answers_def)
qed (auto simp: write_answers_def)


section \<open>The folder Download\<close>

lemma opened_output:
  assumes ok: "user_ok (rs_user S)" and free: "\<exists>i < 64. output_indices (rs_user S) ! i = -1"
  obtains k S' where "open_output S d h = Some (k, length (rs_streams S), S')" "k < 64" "output_indices (rs_user S) ! k = -1"
    "user_ok (rs_user S')" "output_indices (rs_user S') = (output_indices (rs_user S))[k := int k * 2]"
    "st_index (output_stream S' k) = int k * 2" "stream_data S' (output_stream S' k) = Some (length (rs_streams S), d)"
    "rs_filesystem S' = rs_filesystem S" "u_sent (rs_user S') = u_sent (rs_user S)"
proof -
  have nfull: "\<not> (\<forall>i < 64. output_indices (rs_user S) ! i \<noteq> -1)" using free by blast
  obtain k u where k: "guac_user_alloc_stream (rs_user S) = Some (Some k, u)" "k < 64" "output_indices (rs_user S) ! k = -1"
    "output_indices u = (output_indices (rs_user S))[k := int k * 2]" "user_ok u" "u_sent u = u_sent (rs_user S)"
    by (rule alloc_stream_ok [OF ok nfull]) blast
  let ?a = "length (rs_streams S)"
  let ?u = "u\<lparr>u_output_streams := (u_output_streams u)[k := (u_output_streams u ! k)\<lparr>st_data := Some ?a, st_ack_handler := Some h\<rparr>]\<rparr>"
  let ?S = "S\<lparr>rs_streams := rs_streams S @ [Some d], rs_user := ?u\<rparr>"
  have lu: "length (u_output_streams u) = 64" using user_okD(1) [OF k(5)] .
  have oi: "output_indices ?u = output_indices u" "input_indices ?u = input_indices u" "object_indices ?u = object_indices u"
    using k(2) lu by (simp_all add: output_indices_def input_indices_def object_indices_def map_update list_update_same_conv)
  then have uok: "user_ok ?u" using k(5) by (simp add: user_ok_def)
  have l64: "length (output_indices (rs_user S)) = 64" using user_okD(1) [OF ok] by (simp add: output_indices_def)
  have "st_index (output_stream ?S k) = int k * 2" using output_index [of ?S k] uok oi(1) k(2,4) l64 by simp
  moreover have "stream_data ?S (output_stream ?S k) = Some (?a, d)"
    using k(2) lu by (simp add: output_stream_def) (simp add: stream_data_def)
  moreover have "open_output S d h = Some (k, ?a, ?S)" using k(1) by (simp add: open_output_def new_stream_def)
  ultimately show ?thesis using that [of k ?S] k uok oi by simp
qed

text \<open>Closing a stream opens no other.\<close>

definition close_opens_nothing :: "('o, 's) fs_os \<Rightarrow> bool" where
  "close_opens_nothing os \<longleftrightarrow> (\<forall>w s s'. os_is_open os (os_close os w s) s' \<longrightarrow> os_is_open os w s')"

definition dead :: "('o, 's) fs_os \<Rightarrow> ('o, 's) guac_rdp_fs \<Rightarrow> nat \<Rightarrow> bool" where
  "dead os fs j \<longleftrightarrow> open_file_stream os (fs_os_state fs) (fs_files fs ! j) = None"

lemma close_effect:
  assumes "guac_rdp_fs_close os fs (int i) = Some fs'" and "close_opens_nothing os" and "length (fs_files fs) = 128"
  shows "length (fs_files fs') = 128" "\<forall>j. j \<noteq> i \<longrightarrow> fs_files fs' ! j = fs_files fs ! j" "drive_path fs' = drive_path fs"
    "\<exists>ss. fs_os_state fs' = foldl (os_close os) (fs_os_state fs) ss"
    "dead os fs j \<or> j = i \<and> i < 128 \<Longrightarrow> dead os fs' j"
proof -
  show "length (fs_files fs') = 128" "\<forall>j. j \<noteq> i \<longrightarrow> fs_files fs' ! j = fs_files fs ! j" "drive_path fs' = drive_path fs"
    using assms(1,3) by (auto simp: guac_rdp_fs_close_def guac_rdp_fs_get_file_def Let_def split: if_splits prod.splits)
  have "fs_os_state fs' = fs_os_state fs \<or> (\<exists>s. fs_os_state fs' = os_close os (fs_os_state fs) s)"
    using assms(1) by (auto simp: guac_rdp_fs_close_def guac_rdp_fs_get_file_def Let_def split: if_splits option.splits)
  then show "\<exists>ss. fs_os_state fs' = foldl (os_close os) (fs_os_state fs) ss"
    by (metis foldl_Nil foldl_Cons)
  show "dead os fs j \<or> j = i \<and> i < 128 \<Longrightarrow> dead os fs' j"
    using assms
    by (cases "j = i") (auto simp: dead_def guac_rdp_fs_close_def guac_rdp_fs_get_file_def GUAC_RDP_FS_MAX_FILES_def
        open_file_stream_def close_opens_nothing_def Let_def split: if_splits option.splits)
qed

lemma close_others_effect:
  assumes "close_others os x p is fs = Some fs'" and "close_opens_nothing os" and "length (fs_files fs) = 128" and "set is \<subseteq> {..<128}"
  shows "length (fs_files fs') = 128 \<and> (int v = x \<longrightarrow> fs_files fs' ! v = fs_files fs ! v) \<and> drive_path fs' = drive_path fs
    \<and> (\<exists>ss. fs_os_state fs' = foldl (os_close os) (fs_os_state fs) ss)
    \<and> (dead os fs j \<or> j \<in> set is \<and> int j \<noteq> x \<and> real_path (fs_files fs ! j) = Some p \<longrightarrow> dead os fs' j)"
  using assms(1,3,4)
proof (induction "is" arbitrary: fs)
  case (Cons i "is")
  show ?case
  proof (cases "int i \<noteq> x \<and> real_path (fs_files fs ! i) = Some p")
    case True
    then obtain fs1 where f: "guac_rdp_fs_close os fs (int i) = Some fs1" "close_others os x p is fs1 = Some fs'"
      using Cons.prems(1) by (auto split: option.splits)
    note e = close_effect [OF f(1) assms(2) Cons.prems(2)]
    note ih = Cons.IH [OF f(2) e(1)]
    obtain ss where ss: "fs_os_state fs1 = foldl (os_close os) (fs_os_state fs) ss" using e(4) by blast
    obtain ss' where ss': "fs_os_state fs' = foldl (os_close os) (fs_os_state fs1) ss'" using ih Cons.prems(3) by auto
    have "fs_os_state fs' = foldl (os_close os) (fs_os_state fs) (ss @ ss')" using ss ss' by simp
    moreover have "dead os fs' j" if "dead os fs j \<or> j \<in> set (i # is) \<and> int j \<noteq> x \<and> real_path (fs_files fs ! j) = Some p"
    proof (cases "dead os fs j \<or> j = i")
      case True
      then have "dead os fs1 j" using e(5) [of j] Cons.prems(3) by auto
      then show ?thesis using ih Cons.prems(3) by simp
    next
      case False
      then have "j \<in> set is" "fs_files fs1 ! j = fs_files fs ! j" using that e(2) by auto
      then show ?thesis using ih Cons.prems(3) that False by simp
    qed
    moreover have "int v = x \<longrightarrow> fs_files fs1 ! v = fs_files fs ! v" using True e(2) by auto
    ultimately show ?thesis using ih e(3) Cons.prems(3) by (intro conjI exI [of _ "ss @ ss'"]) auto
  next
    case False
    then have "close_others os x p is fs = Some fs'" using Cons.prems(1) False by (auto split: if_splits)
    from Cons.IH [OF this Cons.prems(2)] Cons.prems(3) False show ?thesis by auto
  qed
qed (auto intro: exI [of _ "[]"])

lemma read_dead:
  "dead os fs j \<Longrightarrow> j < 128 \<Longrightarrow> guac_rdp_fs_read os fs (int j) offset len = (0, [], fs)"
  by (simp add: dead_def guac_rdp_fs_read_def guac_rdp_fs_get_file_def GUAC_RDP_FS_MAX_FILES_def)

lemma basename_file: "list_all (\<lambda>c. \<not> is_separator c) n \<Longrightarrow> path_basename base n = base"
  by (induction n arbitrary: base) (simp_all add: is_separator_def)

lemma download_path:
  assumes "proper n"
  shows "path_basename b (path_text [''Download'', n]) = n" "take 10 (path_text [''Download'', n]) = DOWNLOAD_FOLDER"
proof -
  have "list_all (\<lambda>c. \<not> is_separator c) n" using assms by (simp add: proper_def list_all_iff list_ex_iff)
  then show "path_basename b (path_text [''Download'', n]) = n" by (simp add: path_text_def join_components_def basename_file)
  show "take 10 (path_text [''Download'', n]) = DOWNLOAD_FOLDER" by (simp add: path_text_def join_components_def DOWNLOAD_FOLDER_def)
qed

lemma download_started:
  assumes fs: "rs_filesystem S = Some fs" "fs_ok fs L" "open_ids fs \<union> L \<noteq> {0..<128}"
    and ok: "user_ok (rs_user S)" "\<exists>i < 64. output_indices (rs_user S) ! i = -1"
    and n: "proper n" "NUL \<notin> set n" "length (drive_path fs) + length n \<le> 4085" and junk: "length junk = 4096"
  obtains S' k w fs' a where "guac_rdpdr_start_download os junk True S (Some (path_text [''Download'', n])) = Some S'"
    "u_sent (rs_user S') = u_sent (rs_user S) @ [Stream_Message (Send_file (int k * 2) ''application/octet-stream'' n)]"
    "rs_filesystem S' = Some fs'" "fs_ok fs' L" "w < 128" "int w \<notin> open_ids fs"
    "real_path (fs_files fs' ! w) = Some (drive_path fs @ ''/Download/'' @ n)" "\<forall>j. j \<noteq> w \<longrightarrow> fs_files fs' ! j = fs_files fs ! j"
    "stream_data S' (output_stream S' k) = Some (a, Download_Stream (int w) 0)"
    "user_ok (rs_user S')" "k < 64" "output_indices (rs_user S') ! k = int k * 2"
proof -
  let ?n = "path_text [''Download'', n]" and ?p = "drive_path fs @ ''/Download/'' @ n"
  have r: "access_flags ACCESS_FILE_READ_DATA = ios_in"
    by (simp add: access_flags_def ACCESS_GENERIC_WRITE_def ACCESS_GENERIC_READ_def ACCESS_GENERIC_ALL_def
        ACCESS_FILE_WRITE_DATA_def ACCESS_FILE_READ_DATA_def ACCESS_FILE_APPEND_DATA_def)
  have c: "\<forall>m \<in> set [''Download'', n]. proper m" using n(1) by (simp add: proper_def is_separator_def)
  have t: "NUL \<notin> set ?n" "length (drive_path fs) + length ?n \<le> 4095" using n by (auto simp: path_text_def join_components_def)
  have "guac_rdp_fs_open os junk fs ?n ACCESS_FILE_READ_DATA DISP_FILE_OPEN 0 = open_with_id os fs ?n ?p ios_in False False True"
    using open_components(2) [OF _ c t(1) _ junk t(2) room_left [OF fs(2,3)], of 0 os ACCESS_FILE_READ_DATA] by (simp add: r)
  moreover obtain w fs1 where w: "open_with_id os fs ?n ?p ios_in False False True = Some (int w, fs1)" "w < 128" "fs_ok fs1 L"
    "int w \<notin> open_ids fs" "real_path (fs_files fs1 ! w) = Some ?p" "\<forall>j. j \<noteq> w \<longrightarrow> fs_files fs1 ! j = fs_files fs ! j"
    using fs(2)
  proof (cases rule: open_with_id_cases [where os = os and n = ?n and p = ?p and fl = ios_in and d = False
        and fails = False and c = True])
    case full
    with fs(3) show ?thesis by blast
  next
    case (opened v fs')
    with that show ?thesis by blast
  qed simp
  moreover obtain k S' where k: "open_output (S\<lparr>rs_filesystem := Some fs1\<rparr>) (Download_Stream (int w) 0) Download_Ack
      = Some (k, length (rs_streams S), S')" "k < 64"
    "user_ok (rs_user S')" "output_indices (rs_user S') = (output_indices (rs_user S))[k := int k * 2]"
    "st_index (output_stream S' k) = int k * 2" "stream_data S' (output_stream S' k) = Some (length (rs_streams S), Download_Stream (int w) 0)"
    "rs_filesystem S' = Some fs1" "u_sent (rs_user S') = u_sent (rs_user S)"
    by (rule opened_output [of "S\<lparr>rs_filesystem := Some fs1\<rparr>" "Download_Stream (int w) 0" Download_Ack]) (use ok in simp_all)
  ultimately have "guac_rdpdr_start_download os junk True S (Some ?n)
      = Some (tell S' (Send_file (int k * 2) ''application/octet-stream'' n))"
    using fs(1) by (simp add: guac_rdpdr_start_download_def guac_rdpdr_download_to_owner_def download_path(1) [OF n(1)])
  moreover have "length (output_indices (rs_user S)) = 64" using user_okD(1) [OF ok(1)] by (simp add: output_indices_def)
  ultimately show ?thesis using that k w by simp
qed

text \<open>
  C30. Closing a file that was written in the folder \<open>Download\<close> announces it to the owner of the connection, with an open
  file behind the stream; but deleting the file then closes every other id of its path, the one of the stream included.
  The file is removed, and the first acknowledgement of the owner ends the stream: he gets no byte of it.
\<close>

theorem download_folder_loses_file:
  assumes fs: "rs_filesystem S = Some fs" "fs_ok fs L" "open_ids fs \<union> L \<noteq> {0..<128}"
    and ok: "user_ok (rs_user S)" "\<exists>i < 64. output_indices (rs_user S) ! i = -1"
    and n: "proper n" "NUL \<notin> set n" "length (drive_path fs) + length n \<le> 4085" and junk: "length junk = 4096"
    and v: "v < 128" "absolute_path (fs_files fs ! v) = Some (path_text [''Download'', n])"
      "p = drive_path fs @ ''/Download/'' @ n" "real_path (fs_files fs ! v) = Some p" "0 < bytes_written (fs_files fs ! v)"
    and law: "close_opens_nothing os"
  shows "\<exists>S' S'' fs' k. guac_rdpdr_fs_process_close os junk True device S (int v) completion_id
      = Some ([completion device completion_id STATUS_SUCCESS [0, 0, 0, 0]], S')
    \<and> u_sent (rs_user S') = u_sent (rs_user S) @ [Stream_Message (Send_file (int k * 2) ''application/octet-stream'' n)]
    \<and> rs_filesystem S' = Some fs' \<and> fs_ok fs' L
    \<and> open_ids fs' = {int j | j. int j \<in> open_ids fs \<and> real_path (fs_files fs ! j) \<noteq> Some p}
    \<and> (\<exists>w0 ss. fs_os_state fs' = foldl (os_close os) (os_remove os w0 p) ss)
    \<and> guac_rdp_download_ack_handler os S' k msg 0 = Some S''
    \<and> u_sent (rs_user S'') = u_sent (rs_user S') @ [Stream_Message (Send_end (int k * 2))]"
proof -
  let ?n = "path_text [''Download'', n]"
  have vo: "int v \<in> open_ids fs" using v(1,4) fs(2) by (simp add: open_ids_iff fs_ok_def)
  obtain S1 k w fs1 a where s: "guac_rdpdr_start_download os junk True S (Some ?n) = Some S1"
    "u_sent (rs_user S1) = u_sent (rs_user S) @ [Stream_Message (Send_file (int k * 2) ''application/octet-stream'' n)]"
    "rs_filesystem S1 = Some fs1" "fs_ok fs1 L" "w < 128" "int w \<notin> open_ids fs" "real_path (fs_files fs1 ! w) = Some p"
    "\<forall>j. j \<noteq> w \<longrightarrow> fs_files fs1 ! j = fs_files fs ! j"
    "stream_data S1 (output_stream S1 k) = Some (a, Download_Stream (int w) 0)"
    "user_ok (rs_user S1)" "k < 64" "output_indices (rs_user S1) ! k = int k * 2"
    using download_started [OF fs ok n junk] unfolding v(3) by metis
  have ne: "w \<noteq> v" using s(6) vo by auto
  have v1: "real_path (fs_files fs1 ! v) = Some p" using s(8) ne v(4) by simp
  define w0 where "w0 = (case file_stream (fs_files fs1 ! v) of None \<Rightarrow> fs_os_state fs1
      | Some s \<Rightarrow> os_close os (fs_os_state fs1) s)"
  obtain fs2 where d: "guac_rdp_fs_delete os fs1 (int v) = Some (0, fs2)" "fs_ok fs2 L"
    "\<forall>j < 128. real_path (fs_files fs2 ! j)
          = (if j \<noteq> v \<and> real_path (fs_files fs1 ! j) = Some p then None else real_path (fs_files fs1 ! j))"
    using delete_closes_path [OF s(4) v(1) v1, of os] by blast
  obtain js where js: "js = [0..<128::nat]" by blast
  then have sj: "set js = {..<128}" by auto
  have c: "close_others os (int v) p js (fs1\<lparr>fs_os_state := os_remove os w0 p\<rparr>) = Some fs2"
    using d(1) v(1) v1
    by (simp add: guac_rdp_fs_delete_def guac_rdp_fs_get_file_def GUAC_RDP_FS_MAX_FILES_def Let_def w0_def js
        del: upt.simps upt_Suc upt_rec_numeral close_others.simps)
  have len: "length (fs_files fs1) = 128" "length (fs_files fs2) = 128" "length (fs_files fs) = 128"
    using s(4) d(2) fs(2) by (simp_all add: fs_ok_def)
  note e = close_others_effect [OF c law, of v w, unfolded sj]
  obtain ss where ss: "fs_os_state fs2 = foldl (os_close os) (os_remove os w0 p) ss" using e len(1) by auto
  have dead2: "dead os fs2 w" using e len(1) s(5,7) ne by simp
  have rp: "real_path (fs_files fs2 ! j)
      = (if j \<noteq> v \<and> real_path (fs_files fs1 ! j) = Some p then None else real_path (fs_files fs1 ! j))" if "j < 128" for j
    using d(3) that by blast
  have "int v \<in> open_ids fs2" using rp [OF v(1)] v1 v(1) len(2) by (simp add: open_ids_iff)
  then obtain fs3 where f: "guac_rdp_fs_close os fs2 (int v) = Some fs3" "fs_ok fs3 L"
    "open_ids fs3 = open_ids fs2 - {int v}"
    by (rule close_open_id [OF d(2), where os = os]) (rule that)
  note e3 = close_effect [OF f(1) law len(2)]
  obtain ss' where "fs_os_state fs3 = foldl (os_close os) (fs_os_state fs2) ss'" using e3(4) by blast
  then have state: "fs_os_state fs3 = foldl (os_close os) (os_remove os w0 p) (ss @ ss')" using ss by simp
  have dead3: "dead os fs3 w" using e3(5) [of w] dead2 by simp
  let ?S2 = "S1\<lparr>rs_filesystem := Some fs3\<rparr>"
  have run: "guac_rdpdr_fs_process_close os junk True device S (int v) completion_id
      = Some ([completion device completion_id STATUS_SUCCESS [0, 0, 0, 0]], ?S2)"
    using fs(1) v(1,2,5) s(1,3) d(1) f(1) download_path(2) [OF n(1)]
    by (simp add: guac_rdpdr_fs_process_close_def guac_rdp_fs_get_file_def GUAC_RDP_FS_MAX_FILES_def reply_def Let_def)
  have ids: "open_ids fs3 = {int j | j. int j \<in> open_ids fs \<and> real_path (fs_files fs ! j) \<noteq> Some p}"
  proof (rule set_eqI)
    fix x
    have low: "\<exists>j. x = int j" if "x \<in> open_ids g" for g :: "('a, 'b) guac_rdp_fs" using that by (auto simp: open_ids_def)
    have wn: "real_path (fs_files fs ! w) = None" using s(5,6) len(3) by (simp add: open_ids_iff)
    have "int j \<in> open_ids fs3 \<longleftrightarrow> int j \<in> open_ids fs \<and> real_path (fs_files fs ! j) \<noteq> Some p" for j
    proof -
      have "real_path (fs_files fs1 ! j) = (if j = w then Some p else real_path (fs_files fs ! j))" using s(7,8) by simp
      then show ?thesis using rp [of j] v(4) wn len ne unfolding f(3) by (cases "j < 128") (auto simp: open_ids_iff)
    qed
    then show "x \<in> open_ids fs3 \<longleftrightarrow> x \<in> {int j | j. int j \<in> open_ids fs \<and> real_path (fs_files fs ! j) \<noteq> Some p}"
      using low [of fs3] by auto
  qed
  let ?S3 = "tell ?S2 (Send_end (int k * 2))"
  have ok1: "user_ok (rs_user ?S3)" "output_indices (rs_user ?S3) ! k \<noteq> -1" using s(10-12) by simp_all
  obtain u where u: "guac_user_free_stream (rs_user ?S3) k = Some u" "u_sent u = u_sent (rs_user ?S3)"
    by (rule free_stream_ok [OF ok1(1) s(11) ok1(2)])
  have x: "st_index (output_stream S1 k) = int k * 2" using output_index [OF s(10,11)] s(12) by simp
  have "guac_rdp_download_ack_handler os ?S2 k msg 0 = Some (set_stream a None (?S3\<lparr>rs_user := u\<rparr>))"
    using s(9) u(1) x read_dead [OF dead3 s(5)]
    by (simp add: guac_rdp_download_ack_handler_def GUAC_PROTOCOL_STATUS_SUCCESS_def end_output_def free_stream_def)
  moreover have "\<exists>w0 ss. fs_os_state fs3 = foldl (os_close os) (os_remove os w0 p) ss" using state by blast
  ultimately show ?thesis using run s(2) f(2) ids u(2)
    by (intro exI [of _ ?S2] exI [of _ "set_stream a None (?S3\<lparr>rs_user := u\<rparr>)"] exI [of _ fs3] exI [of _ k]) simp
qed

section \<open>Answers\<close>

text \<open>Whatever the request, at most one packet is sent; and one is, if \<open>must\<close>.\<close>

definition answers :: "u32 \<Rightarrow> u32 \<Rightarrow> bool \<Rightarrow> ('o, 's) rdpdr_result \<Rightarrow> bool" where
  "answers device completion_id must r \<longleftrightarrow> (\<forall>packets S. r = Some (packets, S) \<longrightarrow>
     (\<exists>status content. packets = [completion device completion_id status content]) \<or> \<not> must \<and> packets = [])"

lemma answers_reply:
  "x = guac_rdpdr_new_io_completion d c status room content \<Longrightarrow> answers d c must (reply S x)"
  "answers d c must (reply S (if b then guac_rdpdr_new_io_completion d c status room content
     else guac_rdpdr_new_io_completion d c status' room' content'))"
  "answers d c must (set_reply d S c len result)" "answers d c must None" "\<not> must \<Longrightarrow> answers d c must (Some ([], S))"
  by (auto simp: answers_def reply_def set_reply_def guac_rdpdr_new_io_completion_def completion_def)

lemma answers_let: "answers d c must (f x) \<Longrightarrow> answers d c must (Let x f)"
  by simp

lemma answers_bind: "(\<And>x. answers d c must (f x)) \<Longrightarrow> answers d c must (Option.bind m f)"
  by (cases m) (simp_all add: answers_def)

lemma answers_bind_some: "(\<And>x. m = Some x \<Longrightarrow> answers d c must (f x)) \<Longrightarrow> answers d c must (Option.bind m f)"
  by (cases m) (simp_all add: answers_def)

lemma answers_cases:
  "(b \<Longrightarrow> answers d c must x) \<Longrightarrow> (\<not> b \<Longrightarrow> answers d c must y) \<Longrightarrow> answers d c must (if b then x else y)"
  "(m = None \<Longrightarrow> answers d c must x) \<Longrightarrow> (\<And>k. m = Some k \<Longrightarrow> answers d c must (g k)) \<Longrightarrow>
     answers d c must (case m of None \<Rightarrow> x | Some k \<Rightarrow> g k)"
  "(\<And>a b. q = (a, b) \<Longrightarrow> answers d c must (h a b)) \<Longrightarrow> answers d c must (case q of (a, b) \<Rightarrow> h a b)"
  by (auto split: option.split prod.split)

lemma answers_keep:
  "answers d c must r \<Longrightarrow> answers d c must (Option.bind r (\<lambda>(packets, S). Option.bind (g packets S) (\<lambda>x. Some (packets, h S x))))"
  by (auto simp: answers_def split: bind_splits)

lemma answers_of_file:
  "(guac_rdp_fs_get_file file_id = None \<Longrightarrow> \<not> must) \<Longrightarrow> (\<And>file. answers d c must (f file)) \<Longrightarrow> answers d c must (of_file S file_id f)"
  unfolding of_file_def by (intro answers_bind answers_cases) (auto simp: answers_reply answers_def)

lemmas answers_rules = answers_reply(2-4) answers_cases answers_let answers_bind answers_reply(1) [OF refl]

lemma answers_always:
  "answers d c must (guac_rdpdr_fs_process_create os junk d S input c)"
  "answers d c must (guac_rdpdr_fs_process_read os d S input file_id c)"
  "answers d c must (guac_rdpdr_fs_process_write os u d S input file_id c)"
  "answers d c must (guac_rdpdr_fs_process_device_control d S c)"
  "answers d c must (guac_rdpdr_fs_process_set_volume_info d S c)"
  "answers d c must (guac_rdpdr_fs_process_lock_control d S c)"
  unfolding guac_rdpdr_fs_process_create_def guac_rdpdr_fs_process_read_def guac_rdpdr_fs_process_write_def
      guac_rdpdr_fs_process_device_control_def guac_rdpdr_fs_process_set_volume_info_def
      guac_rdpdr_fs_process_lock_control_def
  by (intro answers_rules)+


lemma answers_close: "(guac_rdp_fs_get_file file_id = None \<Longrightarrow> \<not> must) \<Longrightarrow>
    answers d c must (guac_rdpdr_fs_process_close os junk here d S file_id c)"
  unfolding guac_rdpdr_fs_process_close_def by (intro answers_rules answers_reply(5)) simp_all

text \<open>The class of an information request.\<close>

definition class_in :: "int set \<Rightarrow> u8 list \<Rightarrow> bool" where
  "class_in known input \<longleftrightarrow> (\<forall>cls rest. read_u32 input = Some (cls, rest) \<longrightarrow> sint cls \<in> known)"

lemma class_inD: "class_in known input \<Longrightarrow> read_u32 input = Some (cls, rest) \<Longrightarrow> sint cls \<in> known"
  by (simp add: class_in_def)

definition volume_classes :: "int set" where
  "volume_classes = {FileFsVolumeInformation, FileFsSizeInformation, FileFsDeviceInformation, FileFsAttributeInformation,
     FileFsFullSizeInformation}"

definition file_classes :: "int set" where
  "file_classes = {FileBasicInformation, FileStandardInformation, FileAttributeTagInformation}"

definition settable_classes :: "int set" where
  "settable_classes = {FileBasicInformation, FileEndOfFileInformation, FileDispositionInformation, FileRenameInformation,
     FileAllocationInformation}"

definition directory_classes :: "int set" where
  "directory_classes = {FileDirectoryInformation, FileFullDirectoryInformation, FileBothDirectoryInformation, FileNamesInformation}"

lemma answers_volume:
  "(\<not> class_in volume_classes input \<Longrightarrow> \<not> must) \<Longrightarrow> answers d c must (guac_rdpdr_fs_process_volume_info os d S input c)"
  unfolding guac_rdpdr_fs_process_volume_info_def guac_rdpdr_fs_process_query_volume_info_def guac_rdpdr_fs_process_query_size_info_def
    guac_rdpdr_fs_process_query_device_info_def guac_rdpdr_fs_process_query_attribute_info_def
    guac_rdpdr_fs_process_query_full_size_info_def
  by (rule answers_bind_some, intro answers_rules answers_reply(5)) (auto simp: volume_classes_def dest: class_inD)

lemma answers_file:
  "(\<not> class_in file_classes input \<or> guac_rdp_fs_get_file file_id = None \<Longrightarrow> \<not> must) \<Longrightarrow>
     answers d c must (guac_rdpdr_fs_process_file_info d S input file_id c)"
  unfolding guac_rdpdr_fs_process_file_info_def guac_rdpdr_fs_process_query_basic_info_def
    guac_rdpdr_fs_process_query_standard_info_def guac_rdpdr_fs_process_query_attribute_tag_info_def
  by (rule answers_bind_some, intro answers_of_file answers_rules answers_reply(5)) (auto simp: file_classes_def dest: class_inD)

lemma answers_set:
  "(\<not> class_in settable_classes input \<or> guac_rdp_fs_get_file file_id = None \<Longrightarrow> \<not> must) \<Longrightarrow>
     answers d c must (guac_rdpdr_fs_process_set_file_info os junk here d S input file_id c)"
  unfolding guac_rdpdr_fs_process_set_file_info_def guac_rdpdr_fs_process_set_rename_info_def
    guac_rdpdr_fs_process_set_allocation_info_def guac_rdpdr_fs_process_set_disposition_info_def
    guac_rdpdr_fs_process_set_end_of_file_info_def guac_rdpdr_fs_process_set_basic_info_def
  by (rule answers_bind_some, intro answers_rules answers_reply(5)) (auto simp: settable_classes_def dest: class_inD)

lemma answers_entry:
  "answers d c must (guac_rdpdr_fs_process_query_directory_info d S e file_id c)"
  "answers d c must (guac_rdpdr_fs_process_query_full_directory_info d S e file_id c)"
  "answers d c must (guac_rdpdr_fs_process_query_both_directory_info d S e file_id c)"
  "answers d c must (guac_rdpdr_fs_process_query_names_info d S e file_id c)"
  if "guac_rdp_fs_get_file file_id = None \<Longrightarrow> \<not> must"
  unfolding guac_rdpdr_fs_process_query_directory_info_def guac_rdpdr_fs_process_query_full_directory_info_def
    guac_rdpdr_fs_process_query_both_directory_info_def guac_rdpdr_fs_process_query_names_info_def
  by (intro answers_of_file answers_rules that; assumption)+


lemma errorcode_below: "guac_rdp_fs_get_errorcode e < int n" "guac_rdp_fs_get_errorcode e < 128"
  using errorcode_negative [of e] by simp_all

lemma open_stream_failure: "open_stream os w p fl fails c = Inl e \<Longrightarrow> e < int n"
  using open_stream_error errorcode_below(1) by metis

lemma open_with_id_bounds:
  assumes "open_with_id os fs n p fl d fails c = Some (i, fs')"
  shows "length (fs_files fs') = length (fs_files fs) \<and> i < int (length (fs_files fs))"
proof -
  obtain j pool where j: "guac_pool_next_int (file_id_pool fs) = Some (j, pool)" "0 \<le> j" "nat j < length (fs_files fs)"
    using assms by (cases "guac_pool_next_int (file_id_pool fs)")
      (auto simp: open_with_id_def Let_def not_less not_le simp del: nat_less_iff split: if_splits)
  have "j < int (length (fs_files fs))" using j(2,3) by simp
  then show ?thesis
    using assms j
    by (cases "open_stream os (fs_os_state fs) p fl fails c") (auto simp: open_with_id_def Let_def open_stream_failure split: if_splits)
qed

lemma open_bounds:
  "guac_rdp_fs_open os junk fs path acc disp opts = Some (i, fs') \<Longrightarrow> length (fs_files fs) = 128 \<Longrightarrow>
     length (fs_files fs') = 128 \<and> i < 128"
  unfolding guac_rdp_fs_open_def
  by (auto simp: fs_codes Let_def errorcode_below split: option.splits if_splits prod.splits dest!: open_with_id_bounds)

lemma open_entry_bounds:
  "open_entry os junk junk' path_match file_id e fs = Some (i, fs') \<Longrightarrow> length (fs_files fs) = 128 \<Longrightarrow>
     length (fs_files fs') = 128 \<and> i < 128"
  by (auto simp: open_entry_def split: bind_splits option.splits if_splits dest!: open_bounds)

lemma find_entry_bounds:
  "find_entry os junk junk' path_match file_id fs = Some r \<Longrightarrow> length (fs_files fs) = 128 \<longrightarrow>
     (\<forall>e i. fst r = Some (e, i) \<longrightarrow> 0 \<le> i \<and> i < 128)"
proof (induction rule: find_entry.raw_induct [rotated 1, consumes 1])
  case (1 find os junk junk' path_match file_id fs r)
  have rd: "length (fs_files (snd x)) = length (fs_files fs)" if "guac_rdp_fs_read_dir os fs file_id = Some x" for x
    using that by (auto simp: guac_rdp_fs_read_dir_def Let_def split: if_splits option.splits list.splits)
  show ?case
    using 1(2) rd
    by (auto split: option.splits if_splits dest!: 1(1) dest: open_entry_bounds)
qed


lemma answers_directory:
  assumes "\<not> class_in directory_classes (input :: u8 list) \<or> guac_rdp_fs_get_file file_id = None \<Longrightarrow> \<not> must"
    and "\<And>fs. rs_filesystem S = Some fs \<Longrightarrow> length (fs_files fs) = 128"
  shows "answers d c must (guac_rdpdr_fs_process_query_directory os junk junk' path_match d S input file_id c)"
proof -
  have known: "\<not> must" if "read_u32 input = Some (cls, rest)" "sint cls \<noteq> FileDirectoryInformation" "sint cls \<noteq> FileFullDirectoryInformation"
    "sint cls \<noteq> FileBothDirectoryInformation" "sint cls \<noteq> FileNamesInformation" for cls rest
    using assms(1) class_inD [of directory_classes input cls rest] that by (auto simp: directory_classes_def)
  have found: "guac_rdp_fs_get_file i \<noteq> None" if "find_entry os junk junk' path_match file_id fs = Some (Some (e, i), fs')"
    "length (fs_files fs) = 128" for fs e i fs'
    using find_entry_bounds [OF that(1)] that(2) by (simp add: guac_rdp_fs_get_file_def GUAC_RDP_FS_MAX_FILES_def)
  show ?thesis
    unfolding guac_rdpdr_fs_process_query_directory_def
  proof (rule answers_bind_some, rule answers_cases(2), goal_cases)
    case (1 fs)
    then show ?case using assms(1) by (intro answers_reply(5)) simp
  next
    case (2 fs k)
    note len = assms(2) [OF 2(1)]
    show ?case
    proof (rule answers_bind_some, rule answers_cases(3), rule answers_bind_some, rule answers_cases(3),
        rule answers_bind_some, rule answers_cases(3), rule answers_bind_some, rule answers_bind_some, rule answers_cases(3),
        rule answers_let, goal_cases)
      case (1 x cls rest y iq rest' z pl rest'' fs1 r found' fs2)
      have len1: "length (fs_files fs1) = 128" using 1(7) len by (auto split: if_splits bind_splits)
      show ?case
      proof (cases found')
        case (Some entry)
        obtain e i where e: "entry = (e, i)" by fastforce
        have "guac_rdp_fs_get_file i \<noteq> None" using found [OF _ len1] 1(8,9) Some e by blast
        then have n: "guac_rdp_fs_get_file i = None \<Longrightarrow> \<not> must" by blast
        have k: "read_u32 input = Some (cls, rest)" using 1(1,2) by simp
        show ?thesis unfolding Some e option.case prod.case
          by (rule answers_keep [of d c must _ "\<lambda>packets S. guac_rdp_fs_close os fs2 i" "\<lambda>S x. S\<lparr>rs_filesystem := Some x\<rparr>"],
              intro answers_cases answers_entry [OF n] answers_reply(5)) (use known [OF k] in auto)
      next
        case None
        show ?thesis unfolding None option.case by (rule answers_reply(1) [OF refl])
      qed
    qed
  qed
qed


text \<open>The requests that get no answer at all.\<close>

definition unanswered :: "int \<Rightarrow> int \<Rightarrow> int \<Rightarrow> u8 list \<Rightarrow> bool" where
  "unanswered major minor file_id input \<longleftrightarrow>
     (let bad_file = guac_rdp_fs_get_file file_id = None in
      if major = IRP_MJ_CLOSE then bad_file
      else if major = IRP_MJ_QUERY_VOLUME_INFORMATION then \<not> class_in volume_classes input
      else if major = IRP_MJ_QUERY_INFORMATION then bad_file \<or> \<not> class_in file_classes input
      else if major = IRP_MJ_SET_INFORMATION then bad_file \<or> \<not> class_in settable_classes input
      else if major = IRP_MJ_DIRECTORY_CONTROL then minor \<noteq> IRP_MN_QUERY_DIRECTORY \<or> bad_file \<or> \<not> class_in directory_classes input
      else major \<notin> {IRP_MJ_CREATE, IRP_MJ_READ, IRP_MJ_WRITE, IRP_MJ_DEVICE_CONTROL, IRP_MJ_SET_VOLUME_INFORMATION, IRP_MJ_LOCK_CONTROL})"

text \<open>
  C31. Each request to the drive gets at most one answer, and it is a completion that carries the id of the device and of
  the request. A request that gets none is for an unknown function or information class, for a file id outside the
  table, or for a change notification.
\<close>

theorem request_answered_once:
  assumes "guac_rdpdr_device_fs_iorequest_handler env device S input file_id completion_id major minor = Some (packets, S')"
    and "\<And>fs. rs_filesystem S = Some fs \<Longrightarrow> length (fs_files fs) = 128"
  shows "(\<exists>status content. packets = [completion device completion_id status content])
    \<or> packets = [] \<and> unanswered major minor file_id input"
proof -
  let ?must = "\<not> unanswered major minor file_id input"
  note codes = io_functions IRP_MJ_DEVICE_CONTROL_def IRP_MJ_QUERY_VOLUME_INFORMATION_def IRP_MJ_SET_VOLUME_INFORMATION_def
    IRP_MJ_QUERY_INFORMATION_def IRP_MJ_SET_INFORMATION_def IRP_MJ_DIRECTORY_CONTROL_def IRP_MJ_LOCK_CONTROL_def
    IRP_MN_QUERY_DIRECTORY_def IRP_MN_NOTIFY_CHANGE_DIRECTORY_def
  have "answers device completion_id ?must (guac_rdpdr_device_fs_iorequest_handler env device S input file_id completion_id major minor)"
    unfolding guac_rdpdr_device_fs_iorequest_handler_def guac_rdpdr_fs_process_notify_change_directory_def Let_def
    by (intro answers_cases answers_always answers_close answers_volume answers_file answers_set answers_directory answers_reply(5)
        assms(2)) (auto simp: unanswered_def codes Let_def)
  then show ?thesis using assms(1) by (auto simp: answers_def)
qed


section \<open>The announcements\<close>

text \<open>A capability set of the server: its type, its length with the header, and its body.\<close>

definition capability_set :: "u16 \<times> u8 list \<Rightarrow> u8 list" where
  "capability_set s = write_u16 (fst s) @ write_u16 (of_nat (4 + length (snd s))) @ snd s"

definition core_packet :: "u16 \<Rightarrow> u8 list \<Rightarrow> u8 list" where
  "core_packet packet_id content = write_u16 RDPDR_CTYP_CORE @ write_u16 packet_id @ content"

lemma skip_capability_sets:
  "\<forall>s \<in> set sets. length (snd s) < 2 ^ 16 - 4 \<Longrightarrow>
     skip_capabilities (length sets) (concat (map capability_set sets) @ rest) = Some rest"
proof (induction sets)
  case (Cons s sets)
  define len :: u16 where "len = of_nat (4 + length (snd s))"
  have l: "unat len = 4 + length (snd s)"
    using Cons.prems by (simp add: len_def unat_of_nat take_bit_nat_eq_self_iff del: of_nat_add)
  have h: "capability_set s = write_u16 (fst s) @ write_u16 len @ snd s" "length (capability_set s) = unat len"
    using l by (simp_all add: capability_set_def len_def del: of_nat_add)
  then show ?case using Cons by simp
qed simp

lemma device_list_length: "length (announce_devices i ds) \<le> 114 * length ds"
proof (induction ds arbitrary: i)
  case (Cons d ds)
  have "length (announce_device d (of_nat i)) \<le> 114"
    by (cases d) (simp_all add: guac_rdpdr_device_printer_announce_handler_def guac_rdpdr_device_fs_announce_handler_def
        bytes_of_def GUAC_PRINTER_DRIVER_LENGTH_def GUAC_PRINTER_NAME_LENGTH_def GUAC_FILESYSTEM_NAME_LENGTH_def min_def)
  then show ?case using Cons [of "Suc i"] by simp
qed simp



section \<open>The properties on a system in memory\<close>

definition memory_env :: "(char list \<Rightarrow> u8 list, char list) rdpdr_env" where
  "memory_env = \<lparr>en_os = memory_os, en_junk = replicate 4096 NUL, en_junk' = replicate 4096 NUL, en_uninitialised = 0,
     en_owner_here = True, en_path_match = (=), en_random = 0\<rparr>"

definition memory_plugin :: "(char list \<Rightarrow> u8 list, char list) guac_rdpdrPlugin" where
  "memory_plugin = \<lparr>rp_devices = [Printer_Device, Filesystem_Device], rp_session = memory_session (\<lambda>_. [])\<rparr>"

lemma memory_laws: "keeps_files memory_os" "close_opens_nothing memory_os"
  by (simp_all add: keeps_files_def close_opens_nothing_def memory_os_def)

lemma access_memory: "access_flags ACCESS_GENERIC_WRITE = ios_out" "access_flags ACCESS_GENERIC_READ = ios_in"
  by (simp_all add: access_flags_def ACCESS_GENERIC_WRITE_def ACCESS_GENERIC_READ_def ACCESS_GENERIC_ALL_def
      ACCESS_FILE_WRITE_DATA_def ACCESS_FILE_READ_DATA_def ACCESS_FILE_APPEND_DATA_def)


theorem request_answered_once_witness:
  "\<exists>S' status content. guac_rdpdr_device_fs_iorequest_handler memory_env 1 (rp_session memory_plugin) [] 5 9 IRP_MJ_DEVICE_CONTROL 0
     = Some ([completion 1 9 status content], S')"
proof -
  let ?S = "rp_session memory_plugin"
  have r: "guac_rdpdr_device_fs_iorequest_handler memory_env 1 ?S [] 5 9 IRP_MJ_DEVICE_CONTROL 0
      = Some ([completion 1 9 STATUS_INVALID_PARAMETER (write_u32 0)], ?S)"
    by (simp add: guac_rdpdr_device_fs_iorequest_handler_def io_functions IRP_MJ_DEVICE_CONTROL_def
        guac_rdpdr_fs_process_device_control_def reply_def Let_def)
  moreover have "length (fs_files fs) = 128" if "rs_filesystem ?S = Some fs" for fs
    using that memory_fs_ok(1) [of "\<lambda>_. []"] by (simp add: memory_plugin_def memory_session_def fs_ok_def)
  ultimately show ?thesis using request_answered_once [OF r] by (fastforce simp: unanswered_def IRP_MJ_DEVICE_CONTROL_def)
qed


lemma path_text_two: "path_text [a, b] = CHR 0x5C # a @ CHR 0x5C # b"
  by (simp add: path_text_def join_components_def)

theorem download_folder_loses_file_witness:
  "\<exists>(S :: (char list \<Rightarrow> u8 list, char list) rdp_session) S' S'' fs fs' v k.
     fs_os_state fs ''/drive/Download/x'' = [1, 2, 3] \<and> rs_filesystem S = Some fs
   \<and> guac_rdpdr_fs_process_close memory_os (replicate 4096 NUL) True 1 S (int v) 9
       = Some ([completion 1 9 STATUS_SUCCESS [0, 0, 0, 0]], S')
   \<and> u_sent (rs_user S') = u_sent (rs_user S) @ [Stream_Message (Send_file (int k * 2) ''application/octet-stream'' ''x'')]
   \<and> rs_filesystem S' = Some fs' \<and> open_ids fs' = {}
   \<and> guac_rdp_download_ack_handler memory_os S' k ''OK'' 0 = Some S''
   \<and> u_sent (rs_user S'') = u_sent (rs_user S') @ [Stream_Message (Send_end (int k * 2))]"
proof -
  let ?fs = "memory_fs (\<lambda>_. [])" and ?p = "''/drive/Download/x''" and ?n = "path_text [''Download'', ''x'']"
  have r: "open_ids ?fs \<union> {} \<noteq> {0..<128}" "\<not> os_is_directory memory_os (fs_os_state ?fs) ?p"
    by (simp_all add: memory_fs_ok memory_os_def)
  obtain v s fs1 where 1: "held memory_os (\<lambda>w s. s) (\<lambda>w p. w p) {} (open_ids ?fs) (drive_path ?fs) ?n ?p v s [] fs1"
    "bytes_written (fs_files fs1 ! v) = 0"
    using open_to_write [OF memory_stores memory_laws(1) memory_fs_ok(1) r] by metis
  obtain fs2 where 2: "held memory_os (\<lambda>w s. s) (\<lambda>w p. w p) {} (open_ids ?fs) (drive_path ?fs) ?n ?p v s ([] @ [1, 2, 3]) fs2"
    "bytes_written (fs_files fs2 ! v) = bytes_written (fs_files fs1 ! v) + int (length [1, 2, 3 :: u8])"
    by (rule held_write [OF memory_stores 1(1)])
  note h = 2(1) [unfolded held_def memory_fs_ok]
  define S where "S = memory_session (\<lambda>_. []) \<lparr>rs_filesystem := Some fs2\<rparr>"
  have S: "rs_filesystem S = Some fs2" "user_ok (rs_user S)" "\<exists>i < 64. output_indices (rs_user S) ! i = -1"
    using user_reach_ok [OF fresh_user_reach] by (auto simp: S_def memory_session_def fresh_user_closed intro: exI [of _ 0])
  have "card (open_ids fs2 \<union> {}) \<noteq> card {0..<128::int}" using h by simp
  then have room: "open_ids fs2 \<union> {} \<noteq> {0..<128}" by metis
  have x: "proper ''x''" "NUL \<notin> set ''x''" "length (drive_path fs2) + length ''x'' \<le> 4085"
    "''/drive/Download/x'' = drive_path fs2 @ ''/Download/'' @ ''x''" "0 < bytes_written (fs_files fs2 ! v)"
    using h 1(2) 2(2) by (simp_all add: proper_def is_separator_def)
  have v: "fs_ok fs2 {}" "v < 128" "absolute_path (fs_files fs2 ! v) = Some ?n" "real_path (fs_files fs2 ! v) = Some ?p"
    "open_ids fs2 = {int v}" "fs_os_state fs2 ?p = [1, 2, 3]" using h by simp_all
  have j: "length (replicate 4096 NUL) = (4096 :: nat)" by (rule length_replicate)
  from download_folder_loses_file [OF S(1) v(1) room S(2,3) x(1-3) j v(2,3) x(4) v(4) x(5) memory_laws(2), of 1 9 "''OK''"]
  obtain S' S'' fs' k where "guac_rdpdr_fs_process_close memory_os (replicate 4096 NUL) True 1 S (int v) 9
       = Some ([completion 1 9 STATUS_SUCCESS [0, 0, 0, 0]], S')"
    "u_sent (rs_user S') = u_sent (rs_user S) @ [Stream_Message (Send_file (int k * 2) ''application/octet-stream'' ''x'')]"
    "rs_filesystem S' = Some fs'" "open_ids fs' = {int j | j. int j \<in> open_ids fs2 \<and> real_path (fs_files fs2 ! j) \<noteq> Some ?p}"
    "guac_rdp_download_ack_handler memory_os S' k ''OK'' 0 = Some S''"
    "u_sent (rs_user S'') = u_sent (rs_user S') @ [Stream_Message (Send_end (int k * 2))]" by blast
  moreover have "{int j | j. int j \<in> open_ids fs2 \<and> real_path (fs_files fs2 ! j) \<noteq> Some ?p} = {}" using v(4,5) by auto
  ultimately show ?thesis using S(1) v(6)
    by (intro exI [of _ S] exI [of _ S'] exI [of _ S''] exI [of _ fs2] exI [of _ fs'] exI [of _ v] exI [of _ k]) simp
qed

section \<open>Names of directory entries\<close>

text \<open>
  C33. The name of a directory entry is sent as the UTF-16 of its text when it has at most 128 characters. A longer one is
  copied from an array that holds 128: its tail is read past the end of the array.
\<close>

theorem entry_name_limit:
  assumes "0 \<notin> set cs"
  shows "entry_name_utf16 (utf8_text cs) = (if length cs \<le> 128 then Some (utf16_bytes cs) else None)"
proof -
  have l: "guac_utf8_strlen (utf8_text cs) = length cs" by (rule utf8_text_props(2) [OF assms])
  show ?thesis
  proof (cases "length cs \<le> 128")
    case True
    then have "guac_rdp_utf8_to_utf16 (utf8_text cs @ [NUL]) (length cs) 256 = Some cs" by (intro utf8_to_utf16_ok) simp
    then show ?thesis using True l by (simp add: entry_name_utf16_def Let_def)
  next
    case False
    then show ?thesis using l by (cases "guac_rdp_utf8_to_utf16 (utf8_text cs @ [NUL]) (length cs) 256")
        (simp_all add: entry_name_utf16_def Let_def)
  qed
qed

theorem entry_name_limit_witness:
  "entry_name_utf16 (utf8_text [0xE9, 0x78]) = Some [0xE9, 0, 0x78, 0] \<and> entry_name_utf16 (utf8_text (replicate 129 0x78)) = None"
proof -
  have w: "utf16_bytes [0xE9, 0x78] = [0xE9, 0, 0x78, 0]" by (simp add: write_u16_def)
  have "0 \<notin> set (replicate 129 (0x78 :: u16))" by (simp del: replicate.simps)
  from entry_name_limit [OF this] have "entry_name_utf16 (utf8_text (replicate 129 0x78)) = None"
    by (simp only: length_replicate) simp
  then show ?thesis using entry_name_limit [of "[0xE9, 0x78]"] w by simp
qed

end
