(* ===== verification/Audio.thy ===== *)
theory Audio
  imports Client "HOL-Library.Monad_Syntax"
begin

text \<open>
  \<open>libguac/src/audio.c\<close> and \<open>raw_encoder.c\<close>: sound for the users of a client. An audio stream buffers PCM in its encoder
  and sends it in blobs over the socket of the client. Functions yield the messages they send. A stream of the client is
  known by its index, which it keeps while it is allocated; nothing frees that of an audio stream.
\<close>

section \<open>State\<close>

text \<open>The encoders are two static structures with the same handlers, which differ in their mimetype only.\<close>

datatype guac_audio_encoder = Raw8_Encoder | Raw16_Encoder

primrec encoder_mimetype :: "guac_audio_encoder \<Rightarrow> char list" where
  "encoder_mimetype Raw8_Encoder = ''audio/L8''"
| "encoder_mimetype Raw16_Encoder = ''audio/L16''"

record raw_encoder_state =
  re_buffer :: "u8 list"
  re_length :: int
  re_written :: int

record guac_audio_stream =
  au_encoder :: "guac_audio_encoder option"
  au_stream :: "int option"
  au_rate :: int
  au_channels :: int
  au_bps :: int
  au_data :: "raw_encoder_state option"

text \<open>A call yields the audio stream and what it sends; \<open>None\<close> is undefined behaviour, or no return.\<close>

type_synonym audio_result = "(guac_audio_stream \<times> message list) option"

definition GUAC_RAW_ENCODER_BUFFER_SIZE :: int where "GUAC_RAW_ENCODER_BUFFER_SIZE = 250"

section \<open>The raw encoder\<close>

text \<open>The instruction that announces the stream.\<close>

definition raw_encoder_send_audio :: "guac_audio_stream \<Rightarrow> message list option" where
  "raw_encoder_send_audio audio =
     map_option (\<lambda>stream. [Stream_Message (Send_audio stream (''audio/L'' @ format_int (au_bps audio)
         @ '';rate='' @ format_int (au_rate audio) @ '',channels='' @ format_int (au_channels audio)))])
       (au_stream audio)"

text \<open>
  The products are of \<open>int\<close>, so an overflow is undefined. \<open>malloc n\<close> is the memory the allocator gives for \<open>n\<close> bytes; a
  negative size is a huge one, and the result a null pointer.
\<close>

definition raw_encoder_begin_handler :: "(int \<Rightarrow> u8 list) \<Rightarrow> guac_audio_stream \<Rightarrow> audio_result" where
  "raw_encoder_begin_handler malloc audio = do {
     messages \<leftarrow> raw_encoder_send_audio audio;
     let a = GUAC_RAW_ENCODER_BUFFER_SIZE * au_rate audio;
     let b = a * au_channels audio;
     let c = b * au_bps audio;
     if in_int a \<and> in_int b \<and> in_int c
     then let len = c sdiv 8 sdiv 1000 in
       Some (audio\<lparr>au_data := Some \<lparr>re_buffer = (if 0 \<le> len then malloc len else []), re_length = len, re_written = 0\<rparr>\<rparr>, messages)
     else None
   }"

definition raw_encoder_join_handler :: "guac_audio_stream \<Rightarrow> message list option" where
  "raw_encoder_join_handler audio = raw_encoder_send_audio audio"

definition raw_encoder_end_handler :: "guac_audio_stream \<Rightarrow> audio_result" where
  "raw_encoder_end_handler audio = do {
     state \<leftarrow> au_data audio;
     stream \<leftarrow> au_stream audio;
     Some (audio\<lparr>au_data := None\<rparr>, [Stream_Message (Send_end stream)])
   }"

text \<open>The blobs of a flush.\<close>

function raw_blobs :: "u8 list \<Rightarrow> u8 list list" where
  "raw_blobs current = (if current = [] then [] else take 6048 current # raw_blobs (drop 6048 current))"
  by pat_completeness auto
termination by (relation "measure length") auto

declare raw_blobs.simps [simp del]

lemma raw_blobs_Nil [simp]: "raw_blobs [] = []"
  by (simp add: raw_blobs.simps)

definition raw_encoder_flush_handler :: "guac_audio_stream \<Rightarrow> audio_result" where
  "raw_encoder_flush_handler audio = do {
     state \<leftarrow> au_data audio;
     if int (length (re_buffer state)) < re_written state then None
     else do {
       messages \<leftarrow> (if 0 < re_written state
         then map_option (\<lambda>stream. map (\<lambda>blob. Stream_Message (Send_blob stream blob))
                (raw_blobs (take (nat (re_written state)) (re_buffer state)))) (au_stream audio)
         else Some []);
       Some (audio\<lparr>au_data := Some (state\<lparr>re_written := 0\<rparr>)\<rparr>, messages)
     }
   }"

definition guac_audio_stream_flush :: "guac_audio_stream \<Rightarrow> audio_result" where
  "guac_audio_stream_flush audio =
     (if au_encoder audio \<noteq> None then raw_encoder_flush_handler audio else Some (audio, []))"

text \<open>
  One round of the loop of \<open>raw_encoder_write_handler\<close>: a flush when no space remains, else a copy of what fits, out of
  and into memory that must be there. \<open>pcm_data\<close> is what is left of the data.
\<close>

definition write_round :: "guac_audio_stream \<Rightarrow> u8 list \<Rightarrow> (u8 list \<times> guac_audio_stream \<times> message list) option" where
  "write_round audio pcm_data = do {
     state \<leftarrow> au_data audio;
     let space = re_length state - re_written state;
     if space = 0 then map_option (Pair pcm_data) (guac_audio_stream_flush audio)
     else let chunk_size = (if int (length pcm_data) < space then int (length pcm_data) else space) in
       if chunk_size < 0 \<or> int (length (re_buffer state)) < re_written state + chunk_size then None
       else Some (drop (nat chunk_size) pcm_data,
         audio\<lparr>au_data := Some (state\<lparr>re_buffer := take (nat (re_written state)) (re_buffer state)
             @ take (nat chunk_size) pcm_data @ drop (nat (re_written state + chunk_size)) (re_buffer state),
           re_written := re_written state + chunk_size\<rparr>)\<rparr>, [])
   }"

partial_function (option) raw_write_loop ::
  "guac_audio_stream \<Rightarrow> u8 list \<Rightarrow> message list \<Rightarrow> (guac_audio_stream \<times> message list) option" where
  "raw_write_loop audio pcm_data out =
     (if pcm_data = [] then Some (audio, out)
      else case write_round audio pcm_data of None \<Rightarrow> None
      | Some r \<Rightarrow> raw_write_loop (fst (snd r)) (fst r) (out @ snd (snd r)))"

definition raw_encoder_write_handler :: "guac_audio_stream \<Rightarrow> u8 list \<Rightarrow> audio_result" where
  "raw_encoder_write_handler audio pcm_data = raw_write_loop audio pcm_data []"

section \<open>Audio streams\<close>

definition guac_audio_stream_set_encoder :: "(int \<Rightarrow> u8 list) \<Rightarrow> guac_audio_stream \<Rightarrow> guac_audio_encoder option \<Rightarrow> audio_result" where
  "guac_audio_stream_set_encoder malloc audio encoder = do {
     (audio, messages) \<leftarrow> (if encoder \<noteq> None then raw_encoder_begin_handler malloc audio else Some (audio, []));
     Some (audio\<lparr>au_encoder := encoder\<rparr>, messages)
   }"

text \<open>The encoder for the first mimetype that has one.\<close>

definition encoder_for :: "int \<Rightarrow> char list \<Rightarrow> guac_audio_encoder option" where
  "encoder_for bps mimetype =
     (if bps = 16 \<and> mimetype = encoder_mimetype Raw16_Encoder then Some Raw16_Encoder
      else if bps = 8 \<and> mimetype = encoder_mimetype Raw8_Encoder then Some Raw8_Encoder
      else None)"

fun assign_loop :: "(int \<Rightarrow> u8 list) \<Rightarrow> guac_audio_stream \<Rightarrow> int \<Rightarrow> char list list \<Rightarrow> audio_result" where
  "assign_loop malloc audio bps [] = Some (audio, [])"
| "assign_loop malloc audio bps (mimetype # mimetypes) =
     (if encoder_for bps mimetype \<noteq> None then guac_audio_stream_set_encoder malloc audio (encoder_for bps mimetype)
      else assign_loop malloc audio bps mimetypes)"

text \<open>The user is \<open>None\<close> for the null pointer. The result of the callback, the encoder assigned, is used by none.\<close>

definition guac_audio_assign_encoder :: "(int \<Rightarrow> u8 list) \<Rightarrow> 'h guac_user option \<Rightarrow> guac_audio_stream \<Rightarrow> audio_result" where
  "guac_audio_assign_encoder malloc user audio =
     (case user of None \<Rightarrow> Some (audio, [])
      | Some user \<Rightarrow>
          if au_encoder audio \<noteq> None then Some (audio, [])
          else assign_loop malloc audio (au_bps audio) (audio_mimetypes (u_info user)))"

text \<open>The callback for every user: what has been sent so far is passed along with the audio stream.\<close>

definition assign_to_user ::
  "(int \<Rightarrow> u8 list) \<Rightarrow> 'h guac_user \<Rightarrow> audio_result \<Rightarrow> 'h guac_user \<times> audio_result" where
  "assign_to_user malloc user data =
     (user, do {
        (audio, before) \<leftarrow> data;
        (audio, messages) \<leftarrow> guac_audio_assign_encoder malloc (Some user) audio;
        Some (audio, before @ messages)
      })"

definition broadcast :: "'h guac_client \<Rightarrow> message list \<Rightarrow> 'h guac_client" where
  "broadcast c messages = c\<lparr>c_sent := c_sent c @ messages\<rparr>"

definition guac_audio_stream_alloc ::
  "(int \<Rightarrow> u8 list) \<Rightarrow> 'h guac_client \<Rightarrow> guac_audio_encoder option \<Rightarrow> int \<Rightarrow> int \<Rightarrow> int \<Rightarrow> (guac_audio_stream \<times> 'h guac_client) option" where
  "guac_audio_stream_alloc malloc c encoder rate channels bps = do {
     (stream, c) \<leftarrow> guac_client_alloc_stream c;
     let audio = \<lparr>au_encoder = None, au_stream = map_option (\<lambda>k. st_index (c_output_streams c ! k)) stream,
       au_rate = rate, au_channels = channels, au_bps = bps, au_data = None\<rparr>;
     (audio, messages) \<leftarrow> (if encoder \<noteq> None then guac_audio_stream_set_encoder malloc audio encoder else Some (audio, []));
     let c = broadcast c messages;
     (audio, messages) \<leftarrow> (if au_encoder audio = None
       then guac_client_for_owner c (\<lambda>a c. guac_audio_assign_encoder malloc (map_option (user_at c) a) audio)
       else Some (audio, []));
     let c = broadcast c messages;
     if au_encoder audio = None then do {
       (c, r) \<leftarrow> guac_client_foreach_user c (\<lambda>_. assign_to_user malloc) (Some (audio, []));
       (audio, messages) \<leftarrow> r;
       Some (audio, broadcast c messages)
     }
     else Some (audio, c)
   }"

definition guac_audio_stream_reset ::
  "(int \<Rightarrow> u8 list) \<Rightarrow> guac_audio_stream \<Rightarrow> guac_audio_encoder option \<Rightarrow> int \<Rightarrow> int \<Rightarrow> int \<Rightarrow> audio_result" where
  "guac_audio_stream_reset malloc audio encoder rate channels bps =
     (let encoder = (if encoder = None then au_encoder audio else encoder) in
      if encoder = au_encoder audio \<and> rate = au_rate audio \<and> channels = au_channels audio \<and> bps = au_bps audio
      then Some (audio, [])
      else do {
        (audio, ended) \<leftarrow> (if au_encoder audio \<noteq> None then raw_encoder_end_handler audio else Some (audio, []));
        let audio = audio\<lparr>au_rate := rate, au_channels := channels, au_bps := bps\<rparr>;
        (audio, begun) \<leftarrow> guac_audio_stream_set_encoder malloc audio encoder;
        Some (audio, ended @ begun)
      })"

text \<open>The messages to all, and those to the user who joins.\<close>

definition guac_audio_stream_add_user ::
  "(int \<Rightarrow> u8 list) \<Rightarrow> guac_audio_stream \<Rightarrow> 'h guac_user \<Rightarrow> (guac_audio_stream \<times> message list \<times> 'h guac_user) option" where
  "guac_audio_stream_add_user malloc audio user = do {
     (audio, messages) \<leftarrow> (if au_encoder audio = None then guac_audio_assign_encoder malloc (Some user) audio else Some (audio, []));
     joined \<leftarrow> (if au_encoder audio \<noteq> None then raw_encoder_join_handler audio else Some []);
     Some (audio, messages, foldl send_to_user user joined)
   }"

definition guac_audio_stream_write_pcm :: "guac_audio_stream \<Rightarrow> u8 list \<Rightarrow> audio_result" where
  "guac_audio_stream_write_pcm audio data =
     (if au_encoder audio \<noteq> None then raw_encoder_write_handler audio data else Some (audio, []))"

text \<open>The stream structure is freed; the result is what is sent before.\<close>

definition guac_audio_stream_free :: "guac_audio_stream \<Rightarrow> message list option" where
  "guac_audio_stream_free audio = do {
     (audio, flushed) \<leftarrow> guac_audio_stream_flush audio;
     (audio, ended) \<leftarrow> (if au_encoder audio \<noteq> None then raw_encoder_end_handler audio else Some (audio, []));
     Some (flushed @ ended)
   }"

section \<open>What is sent\<close>

text \<open>The stream has an encoder whose buffer is in order; what it holds; the blobs of a stream.\<close>

definition raw_ok :: "guac_audio_stream \<Rightarrow> bool" where
  "raw_ok audio \<longleftrightarrow> au_encoder audio \<noteq> None \<and> au_stream audio \<noteq> None
     \<and> (\<exists>st. au_data audio = Some st \<and> 0 \<le> re_written st \<and> re_written st \<le> re_length st \<and> int (length (re_buffer st)) = re_length st)"

definition buffered :: "guac_audio_stream \<Rightarrow> u8 list" where
  "buffered audio = (case au_data audio of None \<Rightarrow> [] | Some st \<Rightarrow> take (nat (re_written st)) (re_buffer st))"

definition buffer_size :: "guac_audio_stream \<Rightarrow> int" where
  "buffer_size audio = (case au_data audio of None \<Rightarrow> 0 | Some st \<Rightarrow> re_length st)"

definition audio_blobs :: "guac_audio_stream \<Rightarrow> u8 list list \<Rightarrow> message list" where
  "audio_blobs audio bs = map (\<lambda>b. Stream_Message (Send_blob (the (au_stream audio)) b)) bs"

text \<open>Nothing but the encoder's buffer has changed.\<close>

definition same_audio :: "guac_audio_stream \<Rightarrow> guac_audio_stream \<Rightarrow> bool" where
  "same_audio audio audio' \<longleftrightarrow> audio' = audio\<lparr>au_data := au_data audio'\<rparr> \<and> buffer_size audio' = buffer_size audio"

lemma same_audio_simps:
  "same_audio audio audio"
  "same_audio a b \<Longrightarrow> same_audio b c \<Longrightarrow> same_audio a c"
  "same_audio a b \<Longrightarrow> audio_blobs b bs = audio_blobs a bs"
  "same_audio a b \<Longrightarrow> au_encoder b = au_encoder a" "same_audio a b \<Longrightarrow> au_stream b = au_stream a"
  "same_audio a b \<Longrightarrow> buffer_size b = buffer_size a"
proof -
  assume "same_audio a b"
  then have e: "b = a\<lparr>au_data := au_data b\<rparr>" and s: "buffer_size b = buffer_size a" by (simp_all add: same_audio_def)
  show "au_encoder b = au_encoder a" "au_stream b = au_stream a" by (subst e, simp)+
  then show "audio_blobs b bs = audio_blobs a bs" by (simp add: audio_blobs_def)
  show "buffer_size b = buffer_size a" by (rule s)
  assume "same_audio b c"
  then have "c = b\<lparr>au_data := au_data c\<rparr>" "buffer_size c = buffer_size b" by (simp_all add: same_audio_def)
  moreover have "b\<lparr>au_data := au_data c\<rparr> = a\<lparr>au_data := au_data c\<rparr>" by (subst e) simp
  ultimately show "same_audio a c" using s by (simp add: same_audio_def)
qed (simp add: same_audio_def)

definition proper_blobs :: "u8 list list \<Rightarrow> bool" where
  "proper_blobs bs \<longleftrightarrow> (\<forall>b \<in> set bs. b \<noteq> [] \<and> length b \<le> 6048)"

lemma raw_blobs_ok: "concat (raw_blobs xs) = xs \<and> proper_blobs (raw_blobs xs)"
proof (induction xs rule: raw_blobs.induct)
  case (1 xs)
  show ?case
  proof (cases "xs = []")
    case False
    then have "raw_blobs xs = take 6048 xs # raw_blobs (drop 6048 xs)" by (subst raw_blobs.simps) simp
    then show ?thesis using 1 [OF False] False by (simp add: proper_blobs_def)
  qed (simp add: proper_blobs_def)
qed

lemma flush_ok:
  assumes "raw_ok audio"
  obtains audio' bs where "guac_audio_stream_flush audio = Some (audio', audio_blobs audio bs)" "same_audio audio audio'" "raw_ok audio'"
    "buffered audio' = []" "concat bs = buffered audio" "proper_blobs bs"
proof -
  obtain st where st: "au_data audio = Some st" "0 \<le> re_written st" "re_written st \<le> re_length st"
    "int (length (re_buffer st)) = re_length st" and s: "au_encoder audio \<noteq> None" "au_stream audio \<noteq> None"
    using assms by (auto simp: raw_ok_def)
  let ?a = "audio\<lparr>au_data := Some (st\<lparr>re_written := 0\<rparr>)\<rparr>" and ?bs = "raw_blobs (buffered audio)"
  have b: "buffered audio = take (nat (re_written st)) (re_buffer st)" using st(1) by (simp add: buffered_def)
  have "buffered audio = [] \<longleftrightarrow> re_written st = 0" using st by (auto simp: b)
  then have "guac_audio_stream_flush audio = Some (?a, audio_blobs audio ?bs)"
    using st s b by (cases "re_written st = 0")
      (auto simp: guac_audio_stream_flush_def raw_encoder_flush_handler_def audio_blobs_def)
  moreover have "same_audio audio ?a" "raw_ok ?a" "buffered ?a = []"
    using st s by (simp_all add: same_audio_def buffer_size_def raw_ok_def buffered_def)
  ultimately show ?thesis using that raw_blobs_ok [of "buffered audio"] by blast
qed

lemma raw_write_loop_ok:
  assumes "raw_ok audio" and "0 < buffer_size audio"
  shows "\<exists>audio' bs. raw_write_loop audio data out = Some (audio', out @ audio_blobs audio bs) \<and> same_audio audio audio'
    \<and> raw_ok audio' \<and> concat bs @ buffered audio' = buffered audio @ data \<and> proper_blobs bs"
  using assms
proof (induction "2 * length data + (if int (length (buffered audio)) = buffer_size audio then 1 else 0)" arbitrary: audio data out
    rule: less_induct)
  case less
  show ?case
  proof (cases "data = []")
    case True
    then show ?thesis using less.prems
      by (intro exI [of _ audio] exI [of _ "[]"]) (simp add: raw_write_loop.simps audio_blobs_def same_audio_simps(1) proper_blobs_def)
  next
    case False
    obtain st where st: "au_data audio = Some st" "0 \<le> re_written st" "re_written st \<le> re_length st"
      "int (length (re_buffer st)) = re_length st" and s: "au_encoder audio \<noteq> None" "au_stream audio \<noteq> None"
      using less.prems(1) by (auto simp: raw_ok_def)
    have b: "buffered audio = take (nat (re_written st)) (re_buffer st)" "buffer_size audio = re_length st"
      "int (length (buffered audio)) = re_written st" using st by (simp_all add: buffered_def buffer_size_def)
    have step: "\<exists>audio1 data1 bs1. write_round audio data = Some (data1, audio1, audio_blobs audio bs1) \<and> same_audio audio audio1
        \<and> raw_ok audio1 \<and> concat bs1 @ buffered audio1 @ data1 = buffered audio @ data \<and> proper_blobs bs1
        \<and> 2 * length data1 + (if int (length (buffered audio1)) = buffer_size audio1 then 1 else 0)
          < 2 * length data + (if int (length (buffered audio)) = buffer_size audio then 1 else 0)"
    proof (cases "re_length st = re_written st")
      case True
      obtain audio1 bs where f: "guac_audio_stream_flush audio = Some (audio1, audio_blobs audio bs)" "same_audio audio audio1" "raw_ok audio1"
        "buffered audio1 = []" "concat bs = buffered audio" "proper_blobs bs" by (rule flush_ok [OF less.prems(1)])
      have "write_round audio data = Some (data, audio1, audio_blobs audio bs)"
        using st(1) f(1) True by (simp add: write_round_def)
      then show ?thesis using f same_audio_simps(6) [OF f(2)] b True less.prems(2)
        by (intro exI [of _ audio1] exI [of _ data] exI [of _ bs]) simp
    next
      case full: False
      define n where "n = min (length data) (nat (re_length st - re_written st))"
      have n: "0 < n" "n \<le> length data" "int n \<le> re_length st - re_written st" using False full st(3) by (auto simp: n_def)
      have chunk: "(if int (length data) < re_length st - re_written st then int (length data) else re_length st - re_written st) = int n"
        using full st(3) by (auto simp: n_def min_def)
      let ?buf = "take (nat (re_written st)) (re_buffer st) @ take n data @ drop (nat (re_written st + int n)) (re_buffer st)"
      let ?st = "st\<lparr>re_buffer := ?buf, re_written := re_written st + int n\<rparr>"
      let ?a = "audio\<lparr>au_data := Some ?st\<rparr>"
      have r: "write_round audio data = Some (drop n data, ?a, [])"
        using st full n chunk by (simp add: write_round_def Let_def)
      have len: "int (length ?buf) = re_length st" using st n by simp
      have "raw_ok ?a" using st s n len by (simp add: raw_ok_def)
      moreover have ba: "buffered ?a = buffered audio @ take n data"
        using st n by (simp add: buffered_def nat_add_distrib)
      moreover have "same_audio audio ?a" using st(1) by (simp add: same_audio_def buffer_size_def)
      ultimately show ?thesis using r n
        by (intro exI [of _ ?a] exI [of _ "drop n data"] exI [of _ "[]"]) (auto simp: audio_blobs_def proper_blobs_def)
    qed
    then obtain audio1 data1 bs1 where r: "write_round audio data = Some (data1, audio1, audio_blobs audio bs1)" "same_audio audio audio1"
      "raw_ok audio1" "concat bs1 @ buffered audio1 @ data1 = buffered audio @ data" "proper_blobs bs1"
      "2 * length data1 + (if int (length (buffered audio1)) = buffer_size audio1 then 1 else 0)
          < 2 * length data + (if int (length (buffered audio)) = buffer_size audio then 1 else 0)" by blast
    have "0 < buffer_size audio1" using same_audio_simps(6) [OF r(2)] less.prems(2) by simp
    from less.hyps [OF r(6,3) this, of "out @ audio_blobs audio bs1"] obtain audio2 bs2 where
      h: "raw_write_loop audio1 data1 (out @ audio_blobs audio bs1) = Some (audio2, (out @ audio_blobs audio bs1) @ audio_blobs audio1 bs2)"
        "same_audio audio1 audio2" "raw_ok audio2" "concat bs2 @ buffered audio2 = buffered audio1 @ data1" "proper_blobs bs2" by blast
    have "raw_write_loop audio data out = Some (audio2, out @ audio_blobs audio (bs1 @ bs2))"
      using h(1) r(1) False same_audio_simps(3) [OF r(2)] by (subst raw_write_loop.simps) (simp add: audio_blobs_def)
    then show ?thesis using h(2-5) r(2,4,5) same_audio_simps(2) [OF r(2) h(2)]
      by (intro exI [of _ audio2] exI [of _ "bs1 @ bs2"]) (auto simp: proper_blobs_def)
  qed
qed

section \<open>Properties\<close>

text \<open>Writes and flushes in any order.\<close>

fun audio_run :: "u8 list option list \<Rightarrow> guac_audio_stream \<Rightarrow> audio_result" where
  "audio_run [] audio = Some (audio, [])"
| "audio_run (op # ops) audio = do {
     (audio, sent) \<leftarrow> (case op of Some data \<Rightarrow> guac_audio_stream_write_pcm audio data | None \<Rightarrow> guac_audio_stream_flush audio);
     (audio, rest) \<leftarrow> audio_run ops audio;
     Some (audio, sent @ rest)
   }"

lemma write_pcm_ok:
  assumes "raw_ok audio" and "0 < buffer_size audio"
  obtains audio' bs where "guac_audio_stream_write_pcm audio data = Some (audio', audio_blobs audio bs)" "same_audio audio audio'"
    "raw_ok audio'" "concat bs @ buffered audio' = buffered audio @ data" "proper_blobs bs"
proof -
  obtain audio' bs where "raw_write_loop audio data [] = Some (audio', [] @ audio_blobs audio bs)" "same_audio audio audio'"
    "raw_ok audio'" "concat bs @ buffered audio' = buffered audio @ data" "proper_blobs bs"
    using raw_write_loop_ok [OF assms, of data "[]"] by blast
  moreover have "au_encoder audio \<noteq> None" using assms(1) by (simp add: raw_ok_def)
  ultimately show ?thesis using that by (simp add: guac_audio_stream_write_pcm_def raw_encoder_write_handler_def)
qed

lemma proper_blobs_append: "proper_blobs (xs @ ys) \<longleftrightarrow> proper_blobs xs \<and> proper_blobs ys"
  by (auto simp: proper_blobs_def)

lemma audio_run_ok:
  "raw_ok audio \<Longrightarrow> 0 < buffer_size audio \<Longrightarrow>
     \<exists>audio' bs. audio_run ops audio = Some (audio', audio_blobs audio bs) \<and> same_audio audio audio' \<and> raw_ok audio'
       \<and> concat bs @ buffered audio' = buffered audio @ concat (map (\<lambda>op. case op of Some d \<Rightarrow> d | None \<Rightarrow> []) ops) \<and> proper_blobs bs"
proof (induction ops arbitrary: audio)
  case Nil
  then show ?case by (intro exI [of _ audio] exI [of _ "[]"]) (simp add: audio_blobs_def same_audio_simps(1) proper_blobs_def)
next
  case (Cons op ops)
  let ?d = "case op of Some d \<Rightarrow> d | None \<Rightarrow> []"
  obtain audio1 bs1 where s: "(case op of Some data \<Rightarrow> guac_audio_stream_write_pcm audio data | None \<Rightarrow> guac_audio_stream_flush audio)
      = Some (audio1, audio_blobs audio bs1)" "same_audio audio audio1" "raw_ok audio1"
    "concat bs1 @ buffered audio1 = buffered audio @ ?d" "proper_blobs bs1"
  proof (cases op)
    case None
    show ?thesis by (rule flush_ok [OF Cons.prems(1)]) (rule that, simp_all add: None)
  next
    case (Some d)
    show ?thesis by (rule write_pcm_ok [OF Cons.prems, of d]) (rule that, simp_all add: Some)
  qed
  have "0 < buffer_size audio1" using Cons.prems(2) same_audio_simps(6) [OF s(2)] by simp
  from Cons.IH [OF s(3) this] obtain audio2 bs2 where h: "audio_run ops audio1 = Some (audio2, audio_blobs audio1 bs2)"
    "same_audio audio1 audio2" "raw_ok audio2"
    "concat bs2 @ buffered audio2 = buffered audio1 @ concat (map (\<lambda>op. case op of Some d \<Rightarrow> d | None \<Rightarrow> []) ops)" "proper_blobs bs2"
    by blast
  have "concat (bs1 @ bs2) @ buffered audio2
      = buffered audio @ ?d @ concat (map (\<lambda>op. case op of Some d \<Rightarrow> d | None \<Rightarrow> []) ops)"
    using h(4) s(4) by simp
  moreover have "audio_run (op # ops) audio = Some (audio2, audio_blobs audio (bs1 @ bs2))"
    using s(1) h(1) same_audio_simps(3) [OF s(2), of bs2] by (simp add: audio_blobs_def)
  ultimately show ?case using h(3,5) s(5) same_audio_simps(2) [OF s(2) h(2)]
    by (intro exI [of _ audio2] exI [of _ "bs1 @ bs2"]) (simp add: proper_blobs_append)
qed

text \<open>
  C36. Sound arrives as it was written: whatever writes and flushes there are, and in whatever pieces, the blobs up to the end
  of the stream carry the bytes written, in order, in blobs that are not empty and have at most 6048 bytes.
\<close>

theorem audio_sent_in_order:
  assumes "raw_ok audio" and "0 < buffer_size audio" and "buffered audio = []"
  shows "\<exists>audio' bs bs'. audio_run ops audio = Some (audio', audio_blobs audio bs)
    \<and> guac_audio_stream_free audio' = Some (audio_blobs audio bs' @ [Stream_Message (Send_end (the (au_stream audio)))])
    \<and> concat (bs @ bs') = concat (map (\<lambda>op. case op of Some d \<Rightarrow> d | None \<Rightarrow> []) ops)
    \<and> (\<forall>b \<in> set (bs @ bs'). b \<noteq> [] \<and> length b \<le> 6048)"
proof -
  obtain audio1 bs where r: "audio_run ops audio = Some (audio1, audio_blobs audio bs)" "same_audio audio audio1" "raw_ok audio1"
    "concat bs @ buffered audio1 = concat (map (\<lambda>op. case op of Some d \<Rightarrow> d | None \<Rightarrow> []) ops)" "proper_blobs bs"
    using audio_run_ok [OF assms(1,2), of ops] assms(3) by auto
  obtain audio2 bs' where f: "guac_audio_stream_flush audio1 = Some (audio2, audio_blobs audio1 bs')" "same_audio audio1 audio2" "raw_ok audio2"
    "concat bs' = buffered audio1" "proper_blobs bs'" by (rule flush_ok [OF r(3)])
  obtain st where "au_data audio2 = Some st" "au_encoder audio2 \<noteq> None" "au_stream audio2 \<noteq> None" using f(3) by (auto simp: raw_ok_def)
  then have "guac_audio_stream_free audio1 = Some (audio_blobs audio bs' @ [Stream_Message (Send_end (the (au_stream audio)))])"
    using f(1) same_audio_simps(3,5) [OF r(2)] same_audio_simps(5) [OF f(2)]
    by (auto simp: guac_audio_stream_free_def raw_encoder_end_handler_def)
  then show ?thesis using r f(4,5)
    by (intro exI [of _ audio1] exI [of _ bs] exI [of _ bs']) (auto simp: proper_blobs_def)
qed

lemma empty_buffer_loops:
  "raw_write_loop audio data out = Some r \<Longrightarrow> raw_ok audio \<and> buffer_size audio = 0 \<and> data \<noteq> [] \<longrightarrow> False"
proof (induction rule: raw_write_loop.raw_induct [rotated 1, consumes 1])
  case (1 loop audio data out r)
  show ?case
  proof (intro impI, elim conjE)
    assume a: "raw_ok audio" "buffer_size audio = 0" "data \<noteq> []"
    then obtain st where st: "au_data audio = Some st" "re_length st - re_written st = 0"
      by (auto simp: raw_ok_def buffer_size_def)
    obtain audio1 bs where f: "guac_audio_stream_flush audio = Some (audio1, audio_blobs audio bs)" "same_audio audio audio1" "raw_ok audio1"
      by (rule flush_ok [OF a(1)])
    have "write_round audio data = Some (data, audio1, audio_blobs audio bs)" using st f(1) by (simp add: write_round_def)
    then have "loop audio1 data (out @ audio_blobs audio bs) = Some r" using 1(2) a(3) by simp
    from 1(1) [OF this] f(3) a(2,3) same_audio_simps(6) [OF f(2)] show False by simp
  qed
qed

text \<open>
  C37. A write of sound returns exactly when the buffer of the encoder has room for a byte: with the rates for which a quarter
  of a second takes none, the loop flushes and tries again for ever.
\<close>

theorem audio_write_returns:
  assumes "raw_ok audio" and "data \<noteq> []"
  shows "guac_audio_stream_write_pcm audio data \<noteq> None \<longleftrightarrow> 0 < buffer_size audio"
proof (cases "0 < buffer_size audio")
  case True
  obtain audio' bs where "guac_audio_stream_write_pcm audio data = Some (audio', audio_blobs audio bs)"
    by (rule write_pcm_ok [OF assms(1) True])
  then show ?thesis using True by simp
next
  case False
  then have z: "buffer_size audio = 0" using assms(1) by (auto simp: raw_ok_def buffer_size_def)
  have "raw_write_loop audio data [] \<noteq> Some r" for r
    using empty_buffer_loops [of audio data "[]" r] assms z by blast
  then have "raw_write_loop audio data [] = None" by (cases "raw_write_loop audio data []") auto
  then show ?thesis using False assms(1) by (simp add: guac_audio_stream_write_pcm_def raw_encoder_write_handler_def raw_ok_def)
qed

text \<open>The encoder once begun.\<close>

lemma begin_ok:
  assumes "au_stream audio = Some stream" "au_encoder audio = Some e" "\<forall>n \<ge> 0. int (length (malloc n)) = n"
    and "raw_encoder_begin_handler malloc audio = Some (audio', messages)" "0 \<le> buffer_size audio'"
  shows "raw_ok audio'" "buffered audio' = []"
    "messages = [Stream_Message (Send_audio stream (''audio/L'' @ format_int (au_bps audio)
         @ '';rate='' @ format_int (au_rate audio) @ '',channels='' @ format_int (au_channels audio)))]"
  using assms
  by (auto simp: raw_encoder_begin_handler_def raw_encoder_send_audio_def raw_ok_def buffered_def buffer_size_def Let_def
      split: bind_splits if_splits)

definition sample_malloc :: "int \<Rightarrow> u8 list" where
  "sample_malloc n = replicate (nat n) 0"

text \<open>A stream of eight-bit sound at the given rate, as \<open>raw_encoder_begin_handler\<close> leaves it.\<close>

definition sample_audio :: "int \<Rightarrow> guac_audio_stream" where
  "sample_audio rate = fst (the (raw_encoder_begin_handler sample_malloc
     \<lparr>au_encoder = Some Raw8_Encoder, au_stream = Some 1, au_rate = rate, au_channels = 1, au_bps = 8, au_data = None\<rparr>))"

lemma sample_audio_ok:
  "raw_ok (sample_audio 16)" "buffer_size (sample_audio 16) = 4" "buffered (sample_audio 16) = []" "au_stream (sample_audio 16) = Some 1"
  "raw_ok (sample_audio 0)" "buffer_size (sample_audio 0) = 0"
  by (simp_all add: sample_audio_def raw_encoder_begin_handler_def raw_encoder_send_audio_def GUAC_RAW_ENCODER_BUFFER_SIZE_def
      in_int_def sample_malloc_def raw_ok_def buffer_size_def buffered_def Let_def signed_divide_int_def)

theorem audio_sent_in_order_witness:
  "\<exists>audio' bs bs'. audio_run [Some [1, 2, 3], None, Some [4, 5, 6, 7, 8]] (sample_audio 16) = Some (audio', audio_blobs (sample_audio 16) bs)
    \<and> guac_audio_stream_free audio' = Some (audio_blobs (sample_audio 16) bs' @ [Stream_Message (Send_end 1)])
    \<and> concat (bs @ bs') = [1, 2, 3, 4, 5, 6, 7, 8]"
  using audio_sent_in_order [of "sample_audio 16" "[Some [1, 2, 3], None, Some [4, 5, 6, 7, 8]]"]
  by (fastforce simp: sample_audio_ok)

theorem audio_write_returns_witness:
  "guac_audio_stream_write_pcm (sample_audio 16) [1] \<noteq> None \<and> guac_audio_stream_write_pcm (sample_audio 0) [1] = None"
  using audio_write_returns [of "sample_audio 16" "[1]"] audio_write_returns [of "sample_audio 0" "[1]"]
  by (simp add: sample_audio_ok del: not_None_eq not_Some_eq)

end
