(* ===== verification/Rdpsnd.thy ===== *)
theory Rdpsnd
  imports Audio Winpr_Stream
begin

text \<open>
  The RDPSND channel: \<open>protocols/rdp/src/guac_rdpsnd/rdpsnd_messages.c\<close> and the dispatcher of \<open>rdpsnd_service.c\<close>. The
  sound of the remote desktop comes in waves of two packets and goes to the audio stream of the client, which is none
  when sound is disabled. A packet is the list of its bytes; no length is checked, so a read past its end is \<open>None\<close>.
\<close>

definition SNDC_CLOSE :: u8 where "SNDC_CLOSE = 1"
definition SNDC_WAVE :: u8 where "SNDC_WAVE = 2"
definition SNDC_WAVECONFIRM :: u8 where "SNDC_WAVECONFIRM = 5"
definition SNDC_TRAINING :: u8 where "SNDC_TRAINING = 6"
definition SNDC_FORMATS :: u8 where "SNDC_FORMATS = 7"
definition SNDC_QUALITYMODE :: u8 where "SNDC_QUALITYMODE = 12"
definition HIGH_QUALITY :: u16 where "HIGH_QUALITY = 2"
definition TSSNDCAPS_ALIVE :: u32 where "TSSNDCAPS_ALIVE = 1"
definition WAVE_FORMAT_PCM :: u16 where "WAVE_FORMAT_PCM = 1"
definition GUAC_RDP_MAX_FORMATS :: nat where "GUAC_RDP_MAX_FORMATS = 16"

lemmas sndc = SNDC_CLOSE_def SNDC_WAVE_def SNDC_WAVECONFIRM_def SNDC_TRAINING_def SNDC_FORMATS_def SNDC_QUALITYMODE_def

record guac_pcm_format =
  pf_rate :: int
  pf_channels :: int
  pf_bps :: int

record guac_rdpsndPlugin =
  waveinfo_block_number :: u8
  next_pdu_is_wave :: bool
  initial_wave_data :: "u8 list"
  incoming_wave_size :: int
  server_timestamp :: u16
  sn_formats :: "guac_pcm_format list"
  format_count :: nat

text \<open>The packets sent to the server, the messages to the client, and the state after.\<close>

type_synonym rdpsnd_result = "(u8 list list \<times> message list \<times> guac_rdpsndPlugin \<times> guac_audio_stream option) option"

section \<open>Formats\<close>

text \<open>
  The loop over the formats of the server: the plugin and the audio stream after it, the formats copied into the answer,
  and what is sent to the client. A format is 18 bytes and its extra data.
\<close>

fun formats_loop ::
  "(int \<Rightarrow> u8 list) \<Rightarrow> nat \<Rightarrow> u8 list \<Rightarrow> guac_rdpsndPlugin \<Rightarrow> guac_audio_stream \<Rightarrow>
   (guac_rdpsndPlugin \<times> guac_audio_stream \<times> u8 list \<times> message list) option" where
  "formats_loop malloc 0 format_start rdpsnd audio = Some (rdpsnd, audio, [], [])"
| "formats_loop malloc (Suc n) format_start rdpsnd audio = do {
     (format_tag, input) \<leftarrow> read_u16 format_start;
     (channels, input) \<leftarrow> read_u16 input;
     (rate, input) \<leftarrow> read_u32 input;
     input \<leftarrow> seek 4 input;
     input \<leftarrow> seek 2 input;
     (bps, input) \<leftarrow> read_u16 input;
     (body_size, input) \<leftarrow> read_u16 input;
     input \<leftarrow> seek (unat body_size) input;
     if format_tag = WAVE_FORMAT_PCM \<and> format_count rdpsnd < GUAC_RDP_MAX_FORMATS then do {
       let current = format_count rdpsnd;
       let rdpsnd = rdpsnd\<lparr>format_count := current + 1, sn_formats := (sn_formats rdpsnd)[current :=
         \<lparr>pf_rate = sint rate, pf_channels = uint channels, pf_bps = uint bps\<rparr>]\<rparr>;
       (audio, messages) \<leftarrow> guac_audio_stream_reset malloc audio None (sint rate) (uint channels) (uint bps);
       (rdpsnd, audio, accepted, later) \<leftarrow> formats_loop malloc n input rdpsnd audio;
       Some (rdpsnd, audio, take (18 + unat body_size) format_start @ accepted, messages @ later)
     }
     else formats_loop malloc n input rdpsnd audio
   }"

definition formats_packet :: "nat \<Rightarrow> u8 list \<Rightarrow> u8 list" where
  "formats_packet count accepted =
     [SNDC_FORMATS, 0] @ write_u16 (of_nat (20 + length accepted)) @ write_u32 TSSNDCAPS_ALIVE @ write_u32 0 @ write_u32 0
     @ write_u16 0 @ write_u16 (of_nat count) @ [0] @ write_u16 6 @ [0] @ accepted"

definition quality_packet :: "u8 list" where
  "quality_packet = [SNDC_QUALITYMODE, 0] @ write_u16 4 @ write_u16 HIGH_QUALITY @ write_u16 0"

definition guac_rdpsnd_formats_handler ::
  "(int \<Rightarrow> u8 list) \<Rightarrow> guac_rdpsndPlugin \<Rightarrow> guac_audio_stream option \<Rightarrow> u8 list \<Rightarrow> rdpsnd_result" where
  "guac_rdpsnd_formats_handler malloc rdpsnd audio input = do {
     input \<leftarrow> seek 14 input;
     (server_format_count, input) \<leftarrow> read_u16 input;
     input \<leftarrow> seek 1 input;
     (server_version, input) \<leftarrow> read_u16 input;
     input \<leftarrow> seek 1 input;
     (rdpsnd, audio, accepted, messages) \<leftarrow> (case audio of
         None \<Rightarrow> Some (rdpsnd, None, [], [])
       | Some audio \<Rightarrow> map_option (\<lambda>(rdpsnd, audio, r). (rdpsnd, Some audio, r))
           (formats_loop malloc (unat server_format_count) input rdpsnd audio));
     Some (formats_packet (format_count rdpsnd) accepted # (if 6 \<le> server_version then [quality_packet] else []), messages, rdpsnd, audio)
   }"

section \<open>Training and waves\<close>

definition guac_rdpsnd_training_handler :: "guac_rdpsndPlugin \<Rightarrow> guac_audio_stream option \<Rightarrow> u8 list \<Rightarrow> rdpsnd_result" where
  "guac_rdpsnd_training_handler rdpsnd audio input = do {
     (timestamp, input) \<leftarrow> read_u16 input;
     (data_size, input) \<leftarrow> read_u16 input;
     Some ([[SNDC_TRAINING, 0] @ write_u16 4 @ write_u16 timestamp @ write_u16 data_size], [],
       rdpsnd\<lparr>server_timestamp := timestamp\<rparr>, audio)
   }"

text \<open>The format is an index into the table of formats, which has \<open>GUAC_RDP_MAX_FORMATS\<close> entries; it is not checked.\<close>

definition guac_rdpsnd_wave_info_handler ::
  "(int \<Rightarrow> u8 list) \<Rightarrow> guac_rdpsndPlugin \<Rightarrow> guac_audio_stream option \<Rightarrow> u16 \<Rightarrow> u8 list \<Rightarrow> rdpsnd_result" where
  "guac_rdpsnd_wave_info_handler malloc rdpsnd audio body_size input = do {
     (timestamp, input) \<leftarrow> read_u16 input;
     (format, input) \<leftarrow> read_u16 input;
     (block_number, input) \<leftarrow> read_u8 input;
     input \<leftarrow> seek 3 input;
     rest \<leftarrow> seek 4 input;
     let rdpsnd = rdpsnd\<lparr>server_timestamp := timestamp, waveinfo_block_number := block_number, initial_wave_data := take 4 input,
       incoming_wave_size := uint body_size - 12, next_pdu_is_wave := True\<rparr>;
     (case audio of
        None \<Rightarrow> Some ([], [], rdpsnd, None)
      | Some audio \<Rightarrow>
          if length (sn_formats rdpsnd) \<le> unat format then None
          else do {
            let f = sn_formats rdpsnd ! unat format;
            (audio, messages) \<leftarrow> guac_audio_stream_reset malloc audio None (pf_rate f) (pf_channels f) (pf_bps f);
            Some ([], messages, rdpsnd, Some audio)
          })
   }"

text \<open>The wave data replaces the header: the whole packet is its buffer.\<close>

definition guac_rdpsnd_wave_handler :: "guac_rdpsndPlugin \<Rightarrow> guac_audio_stream option \<Rightarrow> u8 list \<Rightarrow> rdpsnd_result" where
  "guac_rdpsnd_wave_handler rdpsnd audio packet =
     (let buffer = initial_wave_data rdpsnd @ drop 4 packet;
          size = incoming_wave_size rdpsnd + 4;
          confirm = [SNDC_WAVECONFIRM, 0] @ write_u16 4 @ write_u16 (server_timestamp rdpsnd) @ [waveinfo_block_number rdpsnd, 0];
          rdpsnd = rdpsnd\<lparr>next_pdu_is_wave := False\<rparr> in
      case audio of
        None \<Rightarrow> Some ([confirm], [], rdpsnd, None)
      | Some audio \<Rightarrow>
          if int (length buffer) < size then None
          else do {
            (audio, written) \<leftarrow> guac_audio_stream_write_pcm audio (take (nat size) buffer);
            (audio, flushed) \<leftarrow> guac_audio_stream_flush audio;
            Some ([confirm], written @ flushed, rdpsnd, Some audio)
          })"

definition guac_rdpsnd_close_handler :: "guac_rdpsndPlugin \<Rightarrow> guac_audio_stream option \<Rightarrow> rdpsnd_result" where
  "guac_rdpsnd_close_handler rdpsnd audio = Some ([], [], rdpsnd, audio)"

definition guac_rdpsnd_process_receive ::
  "(int \<Rightarrow> u8 list) \<Rightarrow> guac_rdpsndPlugin \<Rightarrow> guac_audio_stream option \<Rightarrow> u8 list \<Rightarrow> rdpsnd_result" where
  "guac_rdpsnd_process_receive malloc rdpsnd audio packet = do {
     (message_type, input) \<leftarrow> read_u8 packet;
     input \<leftarrow> seek 1 input;
     (body_size, input) \<leftarrow> read_u16 input;
     if next_pdu_is_wave rdpsnd then guac_rdpsnd_wave_handler rdpsnd audio packet
     else if message_type = SNDC_FORMATS then guac_rdpsnd_formats_handler malloc rdpsnd audio input
     else if message_type = SNDC_TRAINING then guac_rdpsnd_training_handler rdpsnd audio input
     else if message_type = SNDC_WAVE then guac_rdpsnd_wave_info_handler malloc rdpsnd audio body_size input
     else if message_type = SNDC_CLOSE then guac_rdpsnd_close_handler rdpsnd audio
     else Some ([], [], rdpsnd, audio)
   }"

text \<open>Packets in the order they arrive.\<close>

fun rdpsnd_run ::
  "(int \<Rightarrow> u8 list) \<Rightarrow> u8 list list \<Rightarrow> guac_rdpsndPlugin \<Rightarrow> guac_audio_stream option \<Rightarrow> rdpsnd_result" where
  "rdpsnd_run malloc [] rdpsnd audio = Some ([], [], rdpsnd, audio)"
| "rdpsnd_run malloc (packet # packets) rdpsnd audio = do {
     (sent, messages, rdpsnd, audio) \<leftarrow> guac_rdpsnd_process_receive malloc rdpsnd audio packet;
     (sent', messages', rdpsnd, audio) \<leftarrow> rdpsnd_run malloc packets rdpsnd audio;
     Some (sent @ sent', messages @ messages', rdpsnd, audio)
   }"

section \<open>A stream that is ready\<close>

definition sound_ready :: "guac_audio_stream \<Rightarrow> bool" where
  "sound_ready audio \<longleftrightarrow> raw_ok audio \<and> buffered audio = [] \<and> 0 < buffer_size audio"

definition buffer_bytes :: "guac_pcm_format \<Rightarrow> int" where
  "buffer_bytes f = GUAC_RAW_ENCODER_BUFFER_SIZE * pf_rate f * pf_channels f * pf_bps f sdiv 8 sdiv 1000"

text \<open>A format for which the buffer of the encoder has a size, and it is not zero.\<close>

definition playable :: "guac_pcm_format \<Rightarrow> bool" where
  "playable f \<longleftrightarrow> in_int (GUAC_RAW_ENCODER_BUFFER_SIZE * pf_rate f) \<and> in_int (GUAC_RAW_ENCODER_BUFFER_SIZE * pf_rate f * pf_channels f)
     \<and> in_int (GUAC_RAW_ENCODER_BUFFER_SIZE * pf_rate f * pf_channels f * pf_bps f) \<and> 0 < buffer_bytes f"

definition allocates :: "(int \<Rightarrow> u8 list) \<Rightarrow> bool" where
  "allocates malloc \<longleftrightarrow> (\<forall>n \<ge> 0. int (length (malloc n)) = n)"

fun payload :: "message \<Rightarrow> u8 list" where
  "payload (Stream_Message (Send_blob i d)) = d"
| "payload m = []"

definition sound_of :: "message list \<Rightarrow> u8 list" where
  "sound_of messages = concat (map payload messages)"

text \<open>The blobs among the messages are of the stream and not too long.\<close>

definition blobs_on :: "int \<Rightarrow> message list \<Rightarrow> bool" where
  "blobs_on stream messages \<longleftrightarrow> (\<forall>i d. Stream_Message (Send_blob i d) \<in> set messages \<longrightarrow> i = stream \<and> length d \<le> 6048)"

lemma sound_of_simps [simp]: "sound_of [] = []" "sound_of (xs @ ys) = sound_of xs @ sound_of ys"
  by (simp_all add: sound_of_def)

lemma blobs_on_simps [simp]: "blobs_on i []" "blobs_on i (xs @ ys) \<longleftrightarrow> blobs_on i xs \<and> blobs_on i ys"
  by (auto simp: blobs_on_def)

lemma audio_blobs_sound: "sound_of (audio_blobs audio bs) = concat bs"
  "proper_blobs bs \<Longrightarrow> blobs_on (the (au_stream audio)) (audio_blobs audio bs)"
  by (induction bs) (auto simp: audio_blobs_def sound_of_def blobs_on_def proper_blobs_def)

lemma reset_ready:
  assumes "sound_ready audio" and "playable f" and "allocates malloc"
  obtains audio' messages where
    "guac_audio_stream_reset malloc audio None (pf_rate f) (pf_channels f) (pf_bps f) = Some (audio', messages)"
    "sound_ready audio'" "au_stream audio' = au_stream audio" "sound_of messages = []" "blobs_on (the (au_stream audio)) messages"
proof (cases "pf_rate f = au_rate audio \<and> pf_channels f = au_channels audio \<and> pf_bps f = au_bps audio")
  case True
  then show ?thesis using that [of audio "[]"] assms(1) by (simp add: guac_audio_stream_reset_def)
next
  case False
  obtain e stream st where a: "au_encoder audio = Some e" "au_stream audio = Some stream" "au_data audio = Some st"
    using assms(1) by (auto simp: sound_ready_def raw_ok_def)
  let ?n = "buffer_bytes f"
  let ?audio = "audio\<lparr>au_data := Some \<lparr>re_buffer = malloc ?n, re_length = ?n, re_written = 0\<rparr>, au_rate := pf_rate f,
      au_channels := pf_channels f, au_bps := pf_bps f\<rparr>"
  let ?m = "[Stream_Message (Send_end stream), Stream_Message (Send_audio stream (''audio/L'' @ format_int (pf_bps f)
         @ '';rate='' @ format_int (pf_rate f) @ '',channels='' @ format_int (pf_channels f)))]"
  have "guac_audio_stream_reset malloc audio None (pf_rate f) (pf_channels f) (pf_bps f) = Some (?audio, ?m)"
    using False a assms(2)
    by (auto simp: guac_audio_stream_reset_def raw_encoder_end_handler_def guac_audio_stream_set_encoder_def
        raw_encoder_begin_handler_def raw_encoder_send_audio_def playable_def buffer_bytes_def Let_def)
  moreover have "sound_ready ?audio"
    using a assms(2,3) by (simp add: sound_ready_def raw_ok_def buffered_def buffer_size_def playable_def allocates_def)
  ultimately show ?thesis using that a(2) by (simp add: sound_of_def blobs_on_def)
qed

section \<open>Waves\<close>

type_synonym wave = "u16 \<times> u16 \<times> u8 \<times> u8 list"

text \<open>The two packets of a wave (its format, timestamp, block and data), and the confirmation.\<close>

fun wave_packets :: "wave \<Rightarrow> u8 list list" where
  "wave_packets (format, timestamp, block, data) =
     [[SNDC_WAVE, 0] @ write_u16 (of_nat (8 + length data)) @ write_u16 timestamp @ write_u16 format @ [block] @ replicate 3 0 @ take 4 data,
      replicate 4 0 @ drop 4 data]"

fun wave_confirmation :: "wave \<Rightarrow> u8 list" where
  "wave_confirmation (format, timestamp, block, data) = [SNDC_WAVECONFIRM, 0] @ write_u16 4 @ write_u16 timestamp @ [block, 0]"

fun wave_ok :: "guac_pcm_format list \<Rightarrow> wave \<Rightarrow> bool" where
  "wave_ok formats (format, timestamp, block, data) \<longleftrightarrow>
     unat format < length formats \<and> playable (formats ! unat format) \<and> 4 \<le> length data \<and> length data < 2 ^ 16 - 8"

fun wave_data :: "wave \<Rightarrow> u8 list" where
  "wave_data (format, timestamp, block, data) = data"

lemma uint_u16_nat: "n < 2 ^ 16 \<Longrightarrow> uint (of_nat n :: u16) = int n"
  by (simp add: unsigned_of_nat take_bit_nat_eq_self_iff)

lemma wave_received:
  assumes "wave_ok (sn_formats rdpsnd) w" and "sound_ready audio" "allocates malloc" "\<not> next_pdu_is_wave rdpsnd"
  obtains rdpsnd' audio' messages where
    "rdpsnd_run malloc (wave_packets w) rdpsnd (Some audio) = Some ([wave_confirmation w], messages, rdpsnd', Some audio')"
    "sound_of messages = wave_data w" "blobs_on (the (au_stream audio)) messages" "sound_ready audio'" "au_stream audio' = au_stream audio"
    "\<not> next_pdu_is_wave rdpsnd'" "sn_formats rdpsnd' = sn_formats rdpsnd"
proof -
  obtain format timestamp block data where w: "w = (format, timestamp, block, data)" by (rule prod_cases4)
  let ?f = "sn_formats rdpsnd ! unat format"
  have d: "unat format < length (sn_formats rdpsnd)" "playable ?f" "4 \<le> length data" "length data < 2 ^ 16 - 8"
    using assms(1) by (simp_all add: w)
  obtain audio1 m1 where r: "guac_audio_stream_reset malloc audio None (pf_rate ?f) (pf_channels ?f) (pf_bps ?f) = Some (audio1, m1)"
    "sound_ready audio1" "au_stream audio1 = au_stream audio" "sound_of m1 = []" "blobs_on (the (au_stream audio)) m1"
    by (rule reset_ready [OF assms(2) d(2) assms(3)])
  obtain audio2 bs where p: "guac_audio_stream_write_pcm audio1 data = Some (audio2, audio_blobs audio1 bs)" "same_audio audio1 audio2"
    "raw_ok audio2" "concat bs @ buffered audio2 = buffered audio1 @ data" "proper_blobs bs"
    using write_pcm_ok [of audio1 data] r(2) unfolding sound_ready_def by metis
  obtain audio3 bs' where f: "guac_audio_stream_flush audio2 = Some (audio3, audio_blobs audio2 bs')" "same_audio audio2 audio3" "raw_ok audio3"
    "buffered audio3 = []" "concat bs' = buffered audio2" "proper_blobs bs'" by (rule flush_ok [OF p(3)])
  define body_size :: u16 where "body_size = of_nat (8 + length data)"
  have size: "uint body_size = 8 + int (length data)"
    using uint_u16_nat [of "8 + length data"] d(4) by (simp add: body_size_def)
  let ?r1 = "rdpsnd\<lparr>server_timestamp := timestamp, waveinfo_block_number := block, initial_wave_data := take 4 data,
       incoming_wave_size := int (length data) - 4, next_pdu_is_wave := True\<rparr>"
  have s3: "seek 3 (0 # 0 # 0 # xs) = Some xs" for xs :: "u8 list" by (simp add: seek_def)
  have s4: "seek 4 (take 4 data) = Some []" using seek_append [of "take 4 data" "[]"] d(3) by simp
  have s1: "seek 1 (0 # xs) = Some xs" for xs :: "u8 list" using seek_append [of "[0]" xs] by simp
  have i: "guac_rdpsnd_process_receive malloc rdpsnd (Some audio) ([SNDC_WAVE, 0] @ write_u16 body_size @ write_u16 timestamp
      @ write_u16 format @ [block] @ replicate 3 0 @ take 4 data) = Some ([], m1, ?r1, Some audio1)"
    using assms(4) d(1) r(1) s3 s4 s1 size
    by (simp add: guac_rdpsnd_process_receive_def guac_rdpsnd_wave_info_handler_def numeral_3_eq_3 Let_def) (simp add: sndc)
  have "take 4 data @ drop 4 data = data" by simp
  moreover have "\<exists>x y. read_u16 ([0, 0] @ drop 4 data) = Some (x, y)"
    using read_write_u16 [of 0 "drop 4 data"] by (simp add: write_u16_def)
  ultimately have v: "guac_rdpsnd_process_receive malloc ?r1 (Some audio1) (replicate 4 0 @ drop 4 data)
      = Some ([wave_confirmation w], audio_blobs audio1 bs @ audio_blobs audio2 bs', ?r1\<lparr>next_pdu_is_wave := False\<rparr>, Some audio3)"
    using p(1) f(1) s1
    by (auto simp: guac_rdpsnd_process_receive_def guac_rdpsnd_wave_handler_def w numeral_eq_Suc Let_def)
  have "rdpsnd_run malloc (wave_packets w) rdpsnd (Some audio)
      = Some ([wave_confirmation w], m1 @ audio_blobs audio1 bs @ audio_blobs audio2 bs', ?r1\<lparr>next_pdu_is_wave := False\<rparr>, Some audio3)"
    using i v by (simp add: w body_size_def)
  moreover have "sound_of (m1 @ audio_blobs audio1 bs @ audio_blobs audio2 bs') = data"
    using r(2,4) p(4) f(5) by (simp add: audio_blobs_sound sound_ready_def)
  moreover have "blobs_on (the (au_stream audio)) (m1 @ audio_blobs audio1 bs @ audio_blobs audio2 bs')"
    using r(3,5) audio_blobs_sound(2) [OF p(5), of audio1] audio_blobs_sound(2) [OF f(6), of audio2] same_audio_simps(5) [OF p(2)] by simp
  moreover have "sound_ready audio3" "au_stream audio3 = au_stream audio"
    using f(3,4) r(2,3) same_audio_simps(5,6) [OF p(2)] same_audio_simps(5,6) [OF f(2)] by (simp_all add: sound_ready_def)
  ultimately show ?thesis using that by (simp add: w)
qed

lemma rdpsnd_run_append:
  "rdpsnd_run malloc xs rdpsnd audio = Some (p, m, rdpsnd', audio') \<Longrightarrow>
     rdpsnd_run malloc ys rdpsnd' audio' = Some (q, k, rdpsnd'', audio'') \<Longrightarrow>
     rdpsnd_run malloc (xs @ ys) rdpsnd audio = Some (p @ q, m @ k, rdpsnd'', audio'')"
  by (induction xs arbitrary: rdpsnd audio p m) (auto split: bind_splits)

text \<open>
  C0. Waves of sound, each with any of the negotiated formats, reach the users as they are: the blobs sent carry the bytes of
  all waves in order, on the stream of the client, and each wave is confirmed with its timestamp and block.
\<close>

theorem waves_delivered:
  assumes "\<forall>w \<in> set ws. wave_ok (sn_formats rdpsnd) w" and "sound_ready audio" and "allocates malloc" and "\<not> next_pdu_is_wave rdpsnd"
  shows "\<exists>messages rdpsnd' audio'. rdpsnd_run malloc (concat (map wave_packets ws)) rdpsnd (Some audio)
      = Some (map wave_confirmation ws, messages, rdpsnd', Some audio')
    \<and> sound_of messages = concat (map wave_data ws) \<and> blobs_on (the (au_stream audio)) messages
    \<and> sound_ready audio' \<and> \<not> next_pdu_is_wave rdpsnd'"
  using assms(1,2,4)
proof (induction ws arbitrary: rdpsnd audio)
  case (Cons w ws)
  have "wave_ok (sn_formats rdpsnd) w" using Cons.prems(1) by simp
  then obtain rdpsnd1 audio1 m1 where r: "rdpsnd_run malloc (wave_packets w) rdpsnd (Some audio) = Some ([wave_confirmation w], m1, rdpsnd1, Some audio1)"
    "sound_of m1 = wave_data w" "blobs_on (the (au_stream audio)) m1" "sound_ready audio1" "au_stream audio1 = au_stream audio"
    "\<not> next_pdu_is_wave rdpsnd1" "sn_formats rdpsnd1 = sn_formats rdpsnd"
    by (rule wave_received [OF _ Cons.prems(2) assms(3) Cons.prems(3)])
  have "\<forall>w \<in> set ws. wave_ok (sn_formats rdpsnd1) w" using Cons.prems(1) r(7) by simp
  from Cons.IH [OF this r(4,6)] obtain m2 rdpsnd2 audio2 where h:
    "rdpsnd_run malloc (concat (map wave_packets ws)) rdpsnd1 (Some audio1) = Some (map wave_confirmation ws, m2, rdpsnd2, Some audio2)"
    "sound_of m2 = concat (map wave_data ws)" "blobs_on (the (au_stream audio1)) m2" "sound_ready audio2" "\<not> next_pdu_is_wave rdpsnd2"
    by blast
  from rdpsnd_run_append [OF r(1) h(1)] h(2-5) r(2,3,5) show ?case
    by (intro exI [of _ "m1 @ m2"] exI [of _ rdpsnd2] exI [of _ audio2]) simp
qed simp

section \<open>The announcement of formats\<close>

record server_format =
  sf_tag :: u16
  sf_channels :: u16
  sf_rate :: u32
  sf_average :: u32
  sf_align :: u16
  sf_bps :: u16
  sf_extra :: "u8 list"

definition format_bytes :: "server_format \<Rightarrow> u8 list" where
  "format_bytes f = write_u16 (sf_tag f) @ write_u16 (sf_channels f) @ write_u32 (sf_rate f) @ write_u32 (sf_average f)
     @ write_u16 (sf_align f) @ write_u16 (sf_bps f) @ write_u16 (of_nat (length (sf_extra f))) @ sf_extra f"

definition pcm_format :: "server_format \<Rightarrow> guac_pcm_format" where
  "pcm_format f = \<lparr>pf_rate = sint (sf_rate f), pf_channels = uint (sf_channels f), pf_bps = uint (sf_bps f)\<rparr>"

definition is_pcm :: "server_format \<Rightarrow> bool" where
  "is_pcm f \<longleftrightarrow> sf_tag f = WAVE_FORMAT_PCM"

lemma formats_loop_ok:
  assumes "allocates malloc" and "\<forall>f \<in> set fs. length (sf_extra f) < 2 ^ 16 \<and> (is_pcm f \<longrightarrow> playable (pcm_format f))"
    and "sound_ready audio" and "length (sn_formats rdpsnd) = 16" and "format_count rdpsnd \<le> 16"
  defines "acc \<equiv> take (16 - format_count rdpsnd) (filter is_pcm fs)"
  shows "\<exists>audio' messages. formats_loop malloc (length fs) (concat (map format_bytes fs) @ rest) rdpsnd audio
      = Some (rdpsnd\<lparr>format_count := format_count rdpsnd + length acc, sn_formats := take (format_count rdpsnd) (sn_formats rdpsnd)
          @ map pcm_format acc @ drop (format_count rdpsnd + length acc) (sn_formats rdpsnd)\<rparr>,
          audio', concat (map format_bytes acc), messages)
    \<and> sound_ready audio' \<and> au_stream audio' = au_stream audio \<and> sound_of messages = []"
  using assms(2-5) unfolding acc_def
proof (induction fs arbitrary: audio rdpsnd)
  case Nil
  then show ?case by simp
next
  case (Cons f fs)
  let ?k = "format_count rdpsnd" and ?rest = "concat (map format_bytes fs) @ rest"
  define len :: u16 where "len = of_nat (length (sf_extra f))"
  have l: "unat len = length (sf_extra f)"
    using Cons.prems(1) by (simp add: len_def unat_of_nat take_bit_nat_eq_self_iff)
  have b: "format_bytes f = write_u16 (sf_tag f) @ write_u16 (sf_channels f) @ write_u32 (sf_rate f) @ write_u32 (sf_average f)
     @ write_u16 (sf_align f) @ write_u16 (sf_bps f) @ write_u16 len @ sf_extra f" by (simp add: format_bytes_def len_def)
  have lb: "length (format_bytes f) = 18 + unat len" by (simp add: b l)
  have s: "seek 4 (write_u32 x @ xs) = Some xs" "seek 2 (write_u16 y @ xs) = Some xs" "seek (unat len) (sf_extra f @ xs) = Some xs" for x y xs
    using seek_append [of "write_u32 x" xs] seek_append [of "write_u16 y" xs] seek_append [of "sf_extra f" xs] by (simp_all add: l)
  have t: "take (18 + unat len) (format_bytes f @ ?rest) = format_bytes f" using lb by simp
  show ?case
  proof (cases "is_pcm f \<and> ?k < 16")
    case False
    then have "formats_loop malloc (length (f # fs)) (concat (map format_bytes (f # fs)) @ rest) rdpsnd audio
        = formats_loop malloc (length fs) ?rest rdpsnd audio"
      by (auto simp: b s is_pcm_def GUAC_RDP_MAX_FORMATS_def)
    moreover have "take (16 - ?k) (filter is_pcm (f # fs)) = take (16 - ?k) (filter is_pcm fs)"
      using False Cons.prems(4) by (cases "is_pcm f") auto
    ultimately show ?thesis using Cons.IH [of audio rdpsnd] Cons.prems by simp
  next
    case True
    let ?r = "rdpsnd\<lparr>format_count := ?k + 1, sn_formats := (sn_formats rdpsnd)[?k := pcm_format f]\<rparr>"
    have pl: "playable (pcm_format f)" using Cons.prems(1) True by simp
    obtain audio1 m1 where r: "guac_audio_stream_reset malloc audio None (sint (sf_rate f)) (uint (sf_channels f)) (uint (sf_bps f)) = Some (audio1, m1)"
      "sound_ready audio1" "au_stream audio1 = au_stream audio" "sound_of m1 = []"
      by (rule reset_ready [OF Cons.prems(2) pl assms(1), unfolded pcm_format_def guac_pcm_format.select_convs]) (rule that)
    let ?acc = "take (15 - ?k) (filter is_pcm fs)"
    have a: "take (16 - ?k) (filter is_pcm (f # fs)) = f # ?acc"
      using True by (simp add: take_Cons' Suc_diff_Suc)
    obtain audio2 m2 where h: "formats_loop malloc (length fs) ?rest ?r audio1
        = Some (?r\<lparr>format_count := ?k + 1 + length ?acc, sn_formats := take (?k + 1) (sn_formats ?r)
          @ map pcm_format ?acc @ drop (?k + 1 + length ?acc) (sn_formats ?r)\<rparr>, audio2, concat (map format_bytes ?acc), m2)"
      "sound_ready audio2" "au_stream audio2 = au_stream audio1" "sound_of m2 = []"
      using Cons.IH [of audio1 ?r] Cons.prems True r(2) by auto
    have table: "take (?k + 1) (sn_formats ?r) @ map pcm_format ?acc @ drop (?k + 1 + length ?acc) (sn_formats ?r)
        = take ?k (sn_formats rdpsnd) @ map pcm_format (f # ?acc) @ drop (?k + length (f # ?acc)) (sn_formats rdpsnd)"
      using True Cons.prems(3) by (simp add: take_Suc_conv_app_nth)
    have "formats_loop malloc (length (f # fs)) (concat (map format_bytes (f # fs)) @ rest) rdpsnd audio
        = Some (?r\<lparr>format_count := ?k + 1 + length ?acc, sn_formats := take (?k + 1) (sn_formats ?r)
          @ map pcm_format ?acc @ drop (?k + 1 + length ?acc) (sn_formats ?r)\<rparr>, audio2,
          format_bytes f @ concat (map format_bytes ?acc), m1 @ m2)"
    proof -
      have "formats_loop malloc (Suc (length fs)) (format_bytes f @ ?rest) rdpsnd audio = do {
          (audio, messages) \<leftarrow> guac_audio_stream_reset malloc audio None (sint (sf_rate f)) (uint (sf_channels f)) (uint (sf_bps f));
          (rdpsnd, audio, accepted, later) \<leftarrow> formats_loop malloc (length fs) ?rest ?r audio;
          Some (rdpsnd, audio, take (18 + unat len) (format_bytes f @ ?rest) @ accepted, messages @ later) }"
        unfolding formats_loop.simps(2) using True
        by (subst b, simp add: s is_pcm_def GUAC_RDP_MAX_FORMATS_def pcm_format_def Let_def)
      then show ?thesis using r(1) h(1) t by simp
    qed
    then show ?thesis unfolding a table using h(2-4) r(3,4) by simp
  qed
qed


definition announcement :: "u8 list \<Rightarrow> u16 \<Rightarrow> server_format list \<Rightarrow> u8 list" where
  "announcement head version fs = [SNDC_FORMATS, 0] @ write_u16 (of_nat (20 + length (concat (map format_bytes fs)))) @ head
     @ write_u16 (of_nat (length fs)) @ [0] @ write_u16 version @ [0] @ concat (map format_bytes fs)"

lemma announcement_received:
  assumes "allocates malloc" and "\<forall>f \<in> set fs. length (sf_extra f) < 2 ^ 16 \<and> (is_pcm f \<longrightarrow> playable (pcm_format f))"
    and "sound_ready audio" and "length (sn_formats rdpsnd) = 16" and "format_count rdpsnd \<le> 16"
    and "length fs < 2 ^ 16" "length head = 14" "\<not> next_pdu_is_wave rdpsnd"
  defines "acc \<equiv> take (16 - format_count rdpsnd) (filter is_pcm fs)"
  shows "\<exists>audio' messages. guac_rdpsnd_process_receive malloc rdpsnd (Some audio) (announcement head version fs)
      = Some (formats_packet (format_count rdpsnd + length acc) (concat (map format_bytes acc)) # (if 6 \<le> version then [quality_packet] else []),
          messages, rdpsnd\<lparr>format_count := format_count rdpsnd + length acc, sn_formats := take (format_count rdpsnd) (sn_formats rdpsnd)
          @ map pcm_format acc @ drop (format_count rdpsnd + length acc) (sn_formats rdpsnd)\<rparr>, Some audio')
    \<and> sound_ready audio' \<and> au_stream audio' = au_stream audio \<and> sound_of messages = []"
proof -
  obtain audio' messages where l: "formats_loop malloc (length fs) (concat (map format_bytes fs) @ []) rdpsnd audio
      = Some (rdpsnd\<lparr>format_count := format_count rdpsnd + length acc, sn_formats := take (format_count rdpsnd) (sn_formats rdpsnd)
          @ map pcm_format acc @ drop (format_count rdpsnd + length acc) (sn_formats rdpsnd)\<rparr>, audio', concat (map format_bytes acc), messages)"
    "sound_ready audio'" "au_stream audio' = au_stream audio" "sound_of messages = []"
    using formats_loop_ok [OF assms(1-5), of "[]"] unfolding acc_def by blast
  have n: "unat (of_nat (length fs) :: u16) = length fs"
    using assms(6) by (simp add: unat_of_nat take_bit_nat_eq_self_iff)
  have s: "seek (Suc 0) (0 # xs) = Some xs" "seek 14 (head @ xs) = Some xs" for xs
    using seek_append [of "[0]" xs] seek_append [of head xs] assms(7) by simp_all
  show ?thesis using l assms(8)
    by (simp add: guac_rdpsnd_process_receive_def announcement_def guac_rdpsnd_formats_handler_def s n sndc)
qed

text \<open>The plugin as it is allocated, all zero.\<close>

definition fresh_rdpsnd :: guac_rdpsndPlugin where
  "fresh_rdpsnd = \<lparr>waveinfo_block_number = 0, next_pdu_is_wave = False, initial_wave_data = [0, 0, 0, 0], incoming_wave_size = 0,
     server_timestamp = 0, sn_formats = replicate 16 \<lparr>pf_rate = 0, pf_channels = 0, pf_bps = 0\<rparr>, format_count = 0\<rparr>"



definition cd_format :: server_format where
  "cd_format = \<lparr>sf_tag = 1, sf_channels = 2, sf_rate = 44100, sf_average = 176400, sf_align = 4, sf_bps = 16, sf_extra = []\<rparr>"

lemma cd_playable: "is_pcm cd_format" "playable (pcm_format cd_format)" "sf_extra cd_format = []"
proof -
  have "sint (44100 :: u32) = 44100" by simp
  then show "playable (pcm_format cd_format)"
    by (simp add: playable_def pcm_format_def cd_format_def buffer_bytes_def in_int_def GUAC_RAW_ENCODER_BUFFER_SIZE_def signed_divide_int_def)
qed (simp_all add: is_pcm_def cd_format_def WAVE_FORMAT_PCM_def)

lemma sample_sound: "allocates sample_malloc" "sound_ready (sample_audio 16)"
  by (simp_all add: allocates_def sample_malloc_def sound_ready_def sample_audio_ok)



end
