(* ===== verification/Iconv.thy ===== *)
theory Iconv
  imports Rdp_Unicode
begin

text \<open>
  \<open>common/src/iconv.c\<close>: conversion between the encodings of the clipboard. A reader takes the bytes that remain and yields a
  code point and what remains after it; a writer takes the room and a code point and yields the bytes it stores.
\<close>

section \<open>Readers and writers\<close>

definition GUAC_RDP_CP1252_CODEPOINT :: "int list" where
  "GUAC_RDP_CP1252_CODEPOINT =
     [0x20AC, 0xFFFD, 0x201A, 0x0192, 0x201E, 0x2026, 0x2020, 0x2021, 0x02C6, 0x2030, 0x0160, 0x2039, 0x0152, 0xFFFD, 0x017D, 0xFFFD,
      0xFFFD, 0x2018, 0x2019, 0x201C, 0x201D, 0x2022, 0x2013, 0x2014, 0x02DC, 0x2122, 0x0161, 0x203A, 0x0153, 0xFFFD, 0x017E, 0x0178]"

type_synonym iconv_reader = "char list \<Rightarrow> (int \<times> char list) option"
type_synonym iconv_writer = "int \<Rightarrow> int \<Rightarrow> char list"

text \<open>
  A character that is cut short at the end of the input leaves \<open>value\<close> without a value, which is then used: \<open>None\<close>.
\<close>

definition GUAC_READ_UTF8 :: iconv_reader where
  "GUAC_READ_UTF8 input =
     (case guac_utf8_read input of (bytes, value) \<Rightarrow> map_option (\<lambda>value. (value, drop bytes input)) value)"

definition GUAC_READ_UTF16 :: iconv_reader where
  "GUAC_READ_UTF16 input =
     (case input of b0 # b1 # rest \<Rightarrow> Some (of_char b0 + 256 * of_char b1, rest) | _ \<Rightarrow> Some (0, input))"

definition GUAC_READ_CP1252 :: iconv_reader where
  "GUAC_READ_CP1252 input =
     (case input of [] \<Rightarrow> None
      | c # rest \<Rightarrow>
          let value = of_char c in
          Some (if 0x80 \<le> value \<and> value \<le> 0x9F then GUAC_RDP_CP1252_CODEPOINT ! nat (value - 0x80) else value, rest))"

definition GUAC_READ_ISO8859_1 :: iconv_reader where
  "GUAC_READ_ISO8859_1 input = (case input of [] \<Rightarrow> None | c # rest \<Rightarrow> Some (of_char c, rest))"

definition GUAC_WRITE_UTF8 :: iconv_writer where
  "GUAC_WRITE_UTF8 room value = guac_utf8_write value room"

definition GUAC_WRITE_UTF16 :: iconv_writer where
  "GUAC_WRITE_UTF16 room value =
     (if room < 2 then [] else [char_of (value mod 256), char_of (value div 256 mod 256)])"

text \<open>The search of the table; \<open>i\<close> is the byte of its first entry.\<close>

fun cp1252_byte :: "int \<Rightarrow> int list \<Rightarrow> int \<Rightarrow> int" where
  "cp1252_byte i [] value = 63"
| "cp1252_byte i (codepoint # codepoints) value = (if codepoint = value then i else cp1252_byte (i + 1) codepoints value)"

definition GUAC_WRITE_CP1252 :: iconv_writer where
  "GUAC_WRITE_CP1252 room value =
     [char_of (if 0x80 \<le> value \<and> value \<le> 0x9F \<or> value > 0xFF then cp1252_byte 0x80 GUAC_RDP_CP1252_CODEPOINT value else value)]"

definition GUAC_WRITE_ISO8859_1 :: iconv_writer where
  "GUAC_WRITE_ISO8859_1 room value = [char_of (if value > 0xFF then 63 else value)]"

text \<open>The result of \<open>guac_iconv\<close>, whether the terminator was reached, with the input that is left and the bytes stored.\<close>

partial_function (option) iconv_loop ::
  "iconv_reader \<Rightarrow> char list \<Rightarrow> iconv_writer \<Rightarrow> int \<Rightarrow> char list \<Rightarrow> (bool \<times> char list \<times> char list) option" where
  "iconv_loop reader input writer room stored =
     (if input = [] \<or> room \<le> 0 then Some (False, input, stored)
      else case reader input of None \<Rightarrow> None
      | Some r \<Rightarrow>
          if fst r = 0 then Some (True, snd r, stored @ writer room (fst r))
          else iconv_loop reader (snd r) writer (room - int (length (writer room (fst r)))) (stored @ writer room (fst r)))"

definition guac_iconv ::
  "iconv_reader \<Rightarrow> char list \<Rightarrow> iconv_writer \<Rightarrow> int \<Rightarrow> (bool \<times> char list \<times> char list) option" where
  "guac_iconv reader input writer room = iconv_loop reader input writer room []"

section \<open>Pairs of encodings\<close>

text \<open>A text in one encoding and the same text in the other. The terminator is a code point that both encode.\<close>

locale transcoding =
  fixes reader :: iconv_reader and writer :: iconv_writer
    and source target :: "int \<Rightarrow> char list" and valid :: "int \<Rightarrow> bool"
  assumes reads: "valid cp \<Longrightarrow> reader (source cp @ rest) = Some (cp, rest)"
    and writes: "valid cp \<Longrightarrow> int (length (target cp)) \<le> room \<Longrightarrow> writer room cp = target cp"
    and not_empty: "valid cp \<Longrightarrow> source cp \<noteq> [] \<and> target cp \<noteq> []"
    and terminator: "valid 0"
begin

text \<open>Code points that are not the terminator, with room for them and for at least \<open>spare\<close> bytes more.\<close>

lemma loop_consumes:
  assumes "\<forall>cp \<in> set cps. valid cp \<and> cp \<noteq> 0" and "int (length (concat (map target cps))) + spare \<le> room" and "0 \<le> spare"
  shows "iconv_loop reader (concat (map source cps) @ rest) writer room stored
    = iconv_loop reader rest writer (room - int (length (concat (map target cps)))) (stored @ concat (map target cps))"
  using assms
proof (induction cps arbitrary: room stored)
  case (Cons cp cps)
  have v: "valid cp" "cp \<noteq> 0" using Cons.prems(1) by simp_all
  have r: "reader (source cp @ concat (map source cps) @ rest) = Some (cp, concat (map source cps) @ rest)" using v(1) by (rule reads)
  have w: "writer room cp = target cp" using v(1) Cons.prems(2,3) by (intro writes) simp_all
  have p: "0 < room" using not_empty [OF v(1)] Cons.prems(2,3) by (cases "target cp") simp_all
  have "iconv_loop reader (concat (map source (cp # cps)) @ rest) writer room stored
      = iconv_loop reader (concat (map source cps) @ rest) writer (room - int (length (target cp))) (stored @ target cp)"
    using r w p v not_empty [OF v(1)] by (subst iconv_loop.simps) simp
  also have "\<dots> = iconv_loop reader rest writer (room - int (length (target cp)) - int (length (concat (map target cps))))
      ((stored @ target cp) @ concat (map target cps))"
    using Cons.prems by (intro Cons.IH) simp_all
  finally show ?case by (simp add: algebra_simps)
qed simp

lemma converts_terminated:
  assumes "\<forall>cp \<in> set cps. valid cp \<and> cp \<noteq> 0" and "int (length (concat (map target (cps @ [0])))) \<le> room"
  shows "guac_iconv reader (concat (map source (cps @ [0])) @ rest) writer room = Some (True, rest, concat (map target (cps @ [0])))"
proof -
  let ?room = "room - int (length (concat (map target cps)))"
  have t: "int (length (target 0)) \<le> ?room" "0 < length (target 0)" "source 0 \<noteq> []"
    using assms(2) not_empty [OF terminator] by simp_all
  have p: "0 < ?room" using t(1,2) by linarith
  have "guac_iconv reader (concat (map source cps) @ source 0 @ rest) writer room
      = iconv_loop reader (source 0 @ rest) writer ?room ([] @ concat (map target cps))"
    unfolding guac_iconv_def using assms(1) by (rule loop_consumes [where spare = "int (length (target 0))"]) (use assms(2) in simp_all)
  also have "\<dots> = Some (True, rest, concat (map target cps) @ target 0)"
    using t(3) p reads [OF terminator] writes [OF terminator t(1)] by (subst iconv_loop.simps) simp
  finally show ?thesis by simp
qed

lemma converts_unterminated:
  assumes "\<forall>cp \<in> set cps. valid cp \<and> cp \<noteq> 0" and "int (length (concat (map target cps))) \<le> room"
  shows "guac_iconv reader (concat (map source cps)) writer room = Some (False, [], concat (map target cps))"
proof -
  have "guac_iconv reader (concat (map source cps) @ []) writer room
      = iconv_loop reader [] writer (room - int (length (concat (map target cps)))) ([] @ concat (map target cps))"
    unfolding guac_iconv_def using assms(1) by (rule loop_consumes [where spare = 0]) (use assms(2) in simp_all)
  then show ?thesis by (simp add: iconv_loop.simps)
qed

end

section \<open>The encodings of the clipboard\<close>

definition bmp :: "int \<Rightarrow> bool" where
  "bmp cp \<longleftrightarrow> 0 \<le> cp \<and> cp \<le> 0xFFFF"

definition utf16_encode :: "int \<Rightarrow> char list" where
  "utf16_encode cp = [char_of (cp mod 256), char_of (cp div 256)]"

text \<open>The code points that have a byte in the code page 1252.\<close>

definition in_cp1252 :: "int \<Rightarrow> bool" where
  "in_cp1252 cp \<longleftrightarrow> 0 \<le> cp \<and> cp < 0x80 \<or> 0xA0 \<le> cp \<and> cp \<le> 0xFF \<or> cp \<in> set GUAC_RDP_CP1252_CODEPOINT \<and> cp \<noteq> 0xFFFD"

definition cp1252_encode :: "int \<Rightarrow> char list" where
  "cp1252_encode cp = GUAC_WRITE_CP1252 1 cp"

lemma of_char_char_of: "0 \<le> x \<Longrightarrow> x < 256 \<Longrightarrow> of_char (char_of x :: char) = (x :: int)"
  by simp

lemma char_of_NUL: "0 < x \<Longrightarrow> x < 256 \<Longrightarrow> char_of (x :: int) \<noteq> NUL"
proof
  assume b: "0 < x" "x < 256" and "char_of x = NUL"
  then have "(of_char (char_of x :: char) :: int) = of_char NUL" by simp
  then show False using b by simp
qed

lemma read_utf16: "bmp cp \<Longrightarrow> GUAC_READ_UTF16 (utf16_encode cp @ rest) = Some (cp, rest)"
proof -
  assume "bmp cp"
  then have "0 \<le> cp div 256" "cp div 256 < 256" unfolding bmp_def by presburger+
  then show ?thesis by (simp add: GUAC_READ_UTF16_def utf16_encode_def)
qed

lemma write_utf16: "bmp cp \<Longrightarrow> int (length (utf16_encode cp)) \<le> room \<Longrightarrow> GUAC_WRITE_UTF16 room cp = utf16_encode cp"
proof -
  assume "bmp cp" "int (length (utf16_encode cp)) \<le> room"
  moreover from this have "0 \<le> cp div 256" "cp div 256 < 256" unfolding bmp_def by presburger+
  ultimately show ?thesis by (simp add: GUAC_WRITE_UTF16_def utf16_encode_def)
qed

lemma read_utf8: "0 \<le> cp \<Longrightarrow> cp \<le> 0x1FFFFF \<Longrightarrow> GUAC_READ_UTF8 (utf8_encode cp @ rest) = Some (cp, rest)"
  using read_encode [of cp rest] length_utf8_encode [of cp] by (simp add: GUAC_READ_UTF8_def)

lemma write_utf8: "0 \<le> cp \<Longrightarrow> cp \<le> 0x1FFFFF \<Longrightarrow> int (utf8_size cp) \<le> room \<Longrightarrow> GUAC_WRITE_UTF8 room cp = utf8_encode cp"
  by (simp add: GUAC_WRITE_UTF8_def write_encode)

text \<open>A character that is cut has no value.\<close>

lemma read_cut:
  assumes "0 \<le> cp" and "cp \<le> 0x1FFFFF" and "0 < n" and "n < utf8_size cp"
  shows "guac_utf8_read (take n (utf8_encode cp)) = (0, None)"
proof -
  consider "cp < 0x80" | "0x80 \<le> cp" "cp < 0x800" | "0x800 \<le> cp" "cp < 0x10000" | "0x10000 \<le> cp" by linarith
  then show ?thesis
  proof cases
    case 1
    then show ?thesis using assms by (simp add: utf8_size_def)
  next
    case 2
    then have "0 \<le> cp div 64" "cp div 64 < 32" by simp_all
    then show ?thesis using 2 assms
      by (cases n) (simp_all add: utf8_size_def utf8_encode_def read_ranges digit_bytes)
  next
    case 3
    then have "0 \<le> cp div 64 div 64" "cp div 64 div 64 < 16" by simp_all
    then show ?thesis using 3 assms
      by (cases n) (simp_all add: utf8_size_def utf8_encode_def read_ranges digit_bytes)
  next
    case 4
    then have "0 \<le> cp div 64 div 64 div 64" "cp div 64 div 64 div 64 < 8" using assms(2) by simp_all
    then show ?thesis using 4 assms
      by (cases n) (simp_all add: utf8_size_def utf8_encode_def read_ranges digit_bytes)
  qed
qed

lemma in_cp1252_bmp: "in_cp1252 cp \<Longrightarrow> bmp cp"
  by (auto simp: in_cp1252_def bmp_def GUAC_RDP_CP1252_CODEPOINT_def)

lemma read_cp1252:
  assumes "in_cp1252 cp"
  shows "GUAC_READ_CP1252 (cp1252_encode cp @ rest) = Some (cp, rest)"
proof (cases "cp \<in> set GUAC_RDP_CP1252_CODEPOINT")
  case True
  then have "cp \<noteq> 0xFFFD" using assms by (auto simp: in_cp1252_def)
  with True show ?thesis
    by (auto simp: GUAC_RDP_CP1252_CODEPOINT_def cp1252_encode_def GUAC_WRITE_CP1252_def GUAC_READ_CP1252_def)
next
  case False
  then show ?thesis using assms
    by (auto simp: in_cp1252_def cp1252_encode_def GUAC_WRITE_CP1252_def GUAC_READ_CP1252_def)
qed

lemma write_cp1252: "GUAC_WRITE_CP1252 room cp = cp1252_encode cp"
  by (simp add: cp1252_encode_def GUAC_WRITE_CP1252_def)

lemmas encodings = read_utf16 write_utf16 read_utf8 write_utf8 read_cp1252 write_cp1252 length_utf8_encode

lemma encodings_not_empty: "utf16_encode cp \<noteq> []" "utf8_encode cp \<noteq> []" "cp1252_encode cp \<noteq> []"
  by (simp_all add: utf16_encode_def utf8_encode_def cp1252_encode_def GUAC_WRITE_CP1252_def)

interpretation paste_unicode: transcoding GUAC_READ_UTF8 GUAC_WRITE_UTF16 utf8_encode utf16_encode bmp
  by unfold_locales (simp add: bmp_def read_utf8, rule write_utf16, simp_all add: encodings_not_empty, simp add: bmp_def)

interpretation copy_unicode: transcoding GUAC_READ_UTF16 GUAC_WRITE_UTF8 utf16_encode utf8_encode bmp
  by unfold_locales (auto simp: encodings encodings_not_empty bmp_def)

interpretation paste_text: transcoding GUAC_READ_UTF8 GUAC_WRITE_CP1252 utf8_encode cp1252_encode in_cp1252
  by unfold_locales (auto simp: encodings encodings_not_empty dest!: in_cp1252_bmp simp: bmp_def, simp add: in_cp1252_def)

interpretation copy_text: transcoding GUAC_READ_CP1252 GUAC_WRITE_UTF8 cp1252_encode utf8_encode in_cp1252
  by unfold_locales (auto simp: encodings encodings_not_empty dest!: in_cp1252_bmp simp: bmp_def, simp add: in_cp1252_def)

end
