(* ===== verification/Cliprdr.thy ===== *)
theory Cliprdr
  imports Iconv Rdp_Stream Client
begin

text \<open>
  \<open>protocols/rdp/src/rdp_cliprdr.c\<close>: the clipboard channel, by which the server asks for what a user has pasted and gives
  what has been copied on the desktop, which goes to all users. Events of FreeRDP are a datatype; the functions yield the
  events they send. The broadcast of \<open>common/src/clipboard.c\<close>, which needs the list of users, is here too.
\<close>

section \<open>The broadcast of a clipboard\<close>

text \<open>The walk passes along whether the sending to the users so far has a result.\<close>

definition send_clipboard_callback :: "guac_common_clipboard \<Rightarrow> 'h guac_user \<Rightarrow> bool \<Rightarrow> 'h guac_user \<times> bool" where
  "send_clipboard_callback clip u defined =
     (case send_user_clipboard clip u of None \<Rightarrow> (u, False) | Some u \<Rightarrow> (u, defined))"

definition guac_common_clipboard_send :: "guac_common_clipboard \<Rightarrow> 'h guac_client \<Rightarrow> 'h guac_client option" where
  "guac_common_clipboard_send clip c =
     (case guac_client_foreach_user c (\<lambda>_. send_clipboard_callback clip) True of
        Some (c, True) \<Rightarrow> Some c | _ \<Rightarrow> None)"

section \<open>The channel\<close>

datatype cliprdr_event =
    Monitor_Ready
  | Cb_Format_List "int list"
  | Cb_Data_Request int
  | Cb_Data_Response "char list"
  | Cb_Unknown int

record 'h cliprdr_client =
  cr_client :: "'h guac_client"
  cr_clipboard :: guac_common_clipboard
  requested_clipboard_format :: int

type_synonym 'h cliprdr_result = "('h cliprdr_client \<times> cliprdr_event list) option"

definition GUAC_RDP_CLIPBOARD_MAX_LENGTH :: int where "GUAC_RDP_CLIPBOARD_MAX_LENGTH = 262144"
definition GUAC_RDP_CLIPBOARD_FORMAT_CP1252 :: int where "GUAC_RDP_CLIPBOARD_FORMAT_CP1252 = 1"
definition GUAC_RDP_CLIPBOARD_FORMAT_UTF16 :: int where "GUAC_RDP_CLIPBOARD_FORMAT_UTF16 = 2"

definition guac_rdp_process_cb_monitor_ready :: "'h cliprdr_client \<Rightarrow> 'h cliprdr_result" where
  "guac_rdp_process_cb_monitor_ready S = Some (S, [Cb_Format_List [CB_FORMAT_TEXT, CB_FORMAT_UNICODETEXT]])"

definition guac_rdp_cb_request_format :: "'h cliprdr_client \<Rightarrow> int \<Rightarrow> 'h cliprdr_result" where
  "guac_rdp_cb_request_format S format = Some (S\<lparr>requested_clipboard_format := format\<rparr>, [Cb_Data_Request format])"

text \<open>The formats of the loop, a set of bits.\<close>

fun cb_formats :: "int list \<Rightarrow> int \<Rightarrow> int" where
  "cb_formats [] formats = formats"
| "cb_formats (f # fs) formats =
     cb_formats fs (if f = CB_FORMAT_TEXT then formats OR GUAC_RDP_CLIPBOARD_FORMAT_CP1252
       else if f = CB_FORMAT_UNICODETEXT then formats OR GUAC_RDP_CLIPBOARD_FORMAT_UTF16
       else formats)"

definition guac_rdp_process_cb_format_list :: "'h cliprdr_client \<Rightarrow> int list \<Rightarrow> 'h cliprdr_result" where
  "guac_rdp_process_cb_format_list S fs =
     (let formats = cb_formats fs 0 in
      if formats AND GUAC_RDP_CLIPBOARD_FORMAT_UTF16 \<noteq> 0 then guac_rdp_cb_request_format S CB_FORMAT_UNICODETEXT
      else if formats AND GUAC_RDP_CLIPBOARD_FORMAT_CP1252 \<noteq> 0 then guac_rdp_cb_request_format S CB_FORMAT_TEXT
      else Some (S, []))"

definition guac_rdp_process_cb_data_request :: "'h cliprdr_client \<Rightarrow> int \<Rightarrow> 'h cliprdr_result" where
  "guac_rdp_process_cb_data_request S format =
     (let clip = cr_clipboard S;
          input = take (cb_length clip) (cb_buffer clip);
          answer = (\<lambda>writer. map_option (\<lambda>(_, _, bytes). (S, [Cb_Data_Response bytes]))
            (guac_iconv GUAC_READ_UTF8 input writer GUAC_RDP_CLIPBOARD_MAX_LENGTH)) in
      if format = CB_FORMAT_TEXT then answer GUAC_WRITE_CP1252
      else if format = CB_FORMAT_UNICODETEXT then answer GUAC_WRITE_UTF16
      else Some (S, []))"

text \<open>What is received is the array up to its terminator, which the conversion has written when it says so.\<close>

definition guac_rdp_process_cb_data_response :: "'h cliprdr_client \<Rightarrow> char list \<Rightarrow> 'h cliprdr_result" where
  "guac_rdp_process_cb_data_response S data =
     (let receive = (\<lambda>reader.
        (case guac_iconv reader data GUAC_WRITE_UTF8 GUAC_RDP_CLIPBOARD_MAX_LENGTH of
           None \<Rightarrow> None
         | Some (False, _) \<Rightarrow> Some (S, [])
         | Some (True, _, received_data) \<Rightarrow>
             let clip = guac_common_clipboard_append (guac_common_clipboard_reset (cr_clipboard S) ''text/plain'') (c_string received_data) in
             map_option (\<lambda>c. (S\<lparr>cr_clipboard := clip, cr_client := c\<rparr>, [])) (guac_common_clipboard_send clip (cr_client S)))) in
      if requested_clipboard_format S = CB_FORMAT_TEXT then receive GUAC_READ_CP1252
      else if requested_clipboard_format S = CB_FORMAT_UNICODETEXT then receive GUAC_READ_UTF16
      else Some (S, []))"

definition guac_rdp_process_cliprdr_event :: "'h cliprdr_client \<Rightarrow> cliprdr_event \<Rightarrow> 'h cliprdr_result" where
  "guac_rdp_process_cliprdr_event S event =
     (case event of
        Monitor_Ready \<Rightarrow> guac_rdp_process_cb_monitor_ready S
      | Cb_Format_List fs \<Rightarrow> guac_rdp_process_cb_format_list S fs
      | Cb_Data_Request format \<Rightarrow> guac_rdp_process_cb_data_request S format
      | Cb_Data_Response data \<Rightarrow> guac_rdp_process_cb_data_response S data
      | Cb_Unknown _ \<Rightarrow> Some (S, []))"

fun cliprdr_run :: "'h cliprdr_client \<Rightarrow> cliprdr_event list \<Rightarrow> 'h cliprdr_result" where
  "cliprdr_run S [] = Some (S, [])"
| "cliprdr_run S (e # es) =
     (case guac_rdp_process_cliprdr_event S e of None \<Rightarrow> None
      | Some (S, out) \<Rightarrow> map_option (\<lambda>(S, out'). (S, out @ out')) (cliprdr_run S es))"

section \<open>Formats\<close>

lemma format_bits:
  "cb_formats fs b AND 2 \<noteq> 0 \<longleftrightarrow> CB_FORMAT_UNICODETEXT \<in> set fs \<or> b AND 2 \<noteq> 0"
  "cb_formats fs b AND 1 \<noteq> 0 \<longleftrightarrow> CB_FORMAT_TEXT \<in> set fs \<or> b AND 1 \<noteq> 0"
proof -
  have b: "(x OR 1) AND 2 = x AND (2 :: int)" "(x OR 2) AND 1 = x AND (1 :: int)" "(x OR 2) AND 2 = (2 :: int)" "(x OR 1) AND 1 = (1 :: int)" for x
    by (rule bit_eqI, auto simp: bit_and_iff bit_or_iff bit_simps)+
  show "cb_formats fs b AND 2 \<noteq> 0 \<longleftrightarrow> CB_FORMAT_UNICODETEXT \<in> set fs \<or> b AND 2 \<noteq> 0"
    "cb_formats fs b AND 1 \<noteq> 0 \<longleftrightarrow> CB_FORMAT_TEXT \<in> set fs \<or> b AND 1 \<noteq> 0"
    by (induction fs b rule: cb_formats.induct)
      (auto simp: b GUAC_RDP_CLIPBOARD_FORMAT_CP1252_def GUAC_RDP_CLIPBOARD_FORMAT_UTF16_def CB_FORMAT_TEXT_def CB_FORMAT_UNICODETEXT_def)
qed

text \<open>The format asked for when these are offered; its encoding and the code points it has.\<close>

definition preferred :: "int list \<Rightarrow> int \<Rightarrow> bool" where
  "preferred fs format \<longleftrightarrow> (if CB_FORMAT_UNICODETEXT \<in> set fs then format = CB_FORMAT_UNICODETEXT
     else format = CB_FORMAT_TEXT \<and> CB_FORMAT_TEXT \<in> set fs)"

definition format_encode :: "int \<Rightarrow> int \<Rightarrow> char list" where
  "format_encode format = (if format = CB_FORMAT_TEXT then cp1252_encode else utf16_encode)"

definition format_has :: "int \<Rightarrow> int \<Rightarrow> bool" where
  "format_has format cp \<longleftrightarrow> cp \<noteq> 0 \<and> (if format = CB_FORMAT_TEXT then in_cp1252 cp else bmp cp)"

definition text_bytes :: "(int \<Rightarrow> char list) \<Rightarrow> int list \<Rightarrow> char list" where
  "text_bytes encode cps = concat (map encode cps)"

lemma text_bytes_append [simp]: "text_bytes e (xs @ ys) = text_bytes e xs @ text_bytes e ys"
  by (simp add: text_bytes_def)

lemma formats_differ: "CB_FORMAT_TEXT \<noteq> CB_FORMAT_UNICODETEXT"
  by (simp add: CB_FORMAT_TEXT_def CB_FORMAT_UNICODETEXT_def)

lemma format_list_ok:
  "preferred fs format \<Longrightarrow> guac_rdp_process_cb_format_list S fs = Some (S\<lparr>requested_clipboard_format := format\<rparr>, [Cb_Data_Request format])"
  using format_bits(1) [of fs 0] format_bits(2) [of fs 0]
  by (auto simp: guac_rdp_process_cb_format_list_def preferred_def guac_rdp_cb_request_format_def
      GUAC_RDP_CLIPBOARD_FORMAT_CP1252_def GUAC_RDP_CLIPBOARD_FORMAT_UTF16_def split: if_splits)

text \<open>What the channel answers with, for a text with and without terminator.\<close>

lemma data_request_ok:
  assumes "format \<in> {CB_FORMAT_TEXT, CB_FORMAT_UNICODETEXT}" and "\<forall>cp \<in> set cps. format_has format cp"
    and "take (cb_length (cr_clipboard S)) (cb_buffer (cr_clipboard S)) = text_bytes utf8_encode (cps @ stop)" and "stop \<in> {[], [0]}"
    and "length (text_bytes (format_encode format) (cps @ stop)) \<le> 262144"
  shows "guac_rdp_process_cb_data_request S format = Some (S, [Cb_Data_Response (text_bytes (format_encode format) (cps @ stop))])"
proof -
  have v: "format = CB_FORMAT_TEXT \<Longrightarrow> \<forall>cp \<in> set cps. in_cp1252 cp \<and> cp \<noteq> 0"
    "format \<noteq> CB_FORMAT_TEXT \<Longrightarrow> \<forall>cp \<in> set cps. bmp cp \<and> cp \<noteq> 0" using assms(2) by (auto simp: format_has_def)
  consider "format = CB_FORMAT_TEXT" "stop = []" | "format = CB_FORMAT_TEXT" "stop = [0]"
    | "format = CB_FORMAT_UNICODETEXT" "stop = []" | "format = CB_FORMAT_UNICODETEXT" "stop = [0]" using assms(1,4) by blast
  then show ?thesis
  proof cases
    case 1
    then show ?thesis using paste_text.converts_unterminated [of cps 262144] v assms(3,5)
      by (simp add: guac_rdp_process_cb_data_request_def Let_def text_bytes_def format_encode_def GUAC_RDP_CLIPBOARD_MAX_LENGTH_def)
  next
    case 2
    then show ?thesis using paste_text.converts_terminated [of cps 262144 "[]"] v assms(3,5)
      by (simp add: guac_rdp_process_cb_data_request_def Let_def text_bytes_def format_encode_def GUAC_RDP_CLIPBOARD_MAX_LENGTH_def)
  next
    case 3
    then show ?thesis using paste_unicode.converts_unterminated [of cps 262144] v assms(3,5) formats_differ
      by (simp add: guac_rdp_process_cb_data_request_def Let_def text_bytes_def format_encode_def GUAC_RDP_CLIPBOARD_MAX_LENGTH_def)
  next
    case 4
    then show ?thesis using paste_unicode.converts_terminated [of cps 262144 "[]"] v assms(3,5) formats_differ
      by (simp add: guac_rdp_process_cb_data_request_def Let_def text_bytes_def format_encode_def GUAC_RDP_CLIPBOARD_MAX_LENGTH_def)
  qed
qed

lemma has_bmp: "format_has format cp \<Longrightarrow> bmp cp \<and> cp \<noteq> 0"
  using in_cp1252_bmp by (auto simp: format_has_def split: if_splits)

lemma utf8_text_no_NUL: "\<forall>cp \<in> set cps. bmp cp \<and> cp \<noteq> 0 \<Longrightarrow> NUL \<notin> set (text_bytes utf8_encode cps)"
  using encode_wf by (fastforce simp: text_bytes_def bmp_def)

section \<open>The broadcast\<close>

lemma clipboard_send_ok:
  assumes "client_reach c as" and "\<forall>a \<in> set as. user_ok (user_at c a) \<and> \<not> (\<forall>i < 64. output_indices (user_at c a) ! i \<noteq> -1)"
    and "cb_mimetype clip = mimetype @ NUL # rest" and "NUL \<notin> set mimetype"
  obtains c' where "guac_common_clipboard_send clip c = Some c'"
    "\<forall>a \<in> set as. got_clipboard mimetype (take (cb_length clip) (cb_buffer clip)) (user_at c a) (user_at c' a)"
proof -
  let ?P = "got_clipboard mimetype (take (cb_length clip) (cb_buffer clip))"
  have s: "\<exists>u'. send_user_clipboard clip (user_at c a) = Some u' \<and> ?P (user_at c a) u'" if "a \<in> set as" for a
    using assms(2) that by (intro send_user_clipboard_ok [OF _ _ assms(3,4)]) blast+
  define g where "g a = the (send_user_clipboard clip (user_at c a))" for a
  have g: "send_user_clipboard clip (user_at c a) = Some (g a)" "?P (user_at c a) (g a)" if "a \<in> set as" for a
    using s [OF that] by (auto simp: g_def)
  have "\<forall>a \<in> set as. send_clipboard_callback clip (user_at c a) True = (g a, True)"
    using g by (simp add: send_clipboard_callback_def)
  then obtain c' where "guac_client_foreach_user c (\<lambda>_. send_clipboard_callback clip) True = Some (c', True)"
    "\<forall>a \<in> set as. user_at c' a = g a" using foreach_each [OF assms(1), of "\<lambda>_. send_clipboard_callback clip" True g] by blast
  then show ?thesis using g(2) that [of c'] by (simp add: guac_common_clipboard_send_def)
qed

section \<open>Pasting\<close>

lemma bytes_chars: "map char_of_byte (concat ds) = concat (map (map char_of_byte) ds)"
  by (simp add: map_concat)

text \<open>The clipboard after a user has pasted; \<open>ds\<close> are the blobs.\<close>

definition pasted :: "('o, 's) rdp_session \<Rightarrow> nat \<Rightarrow> char list \<Rightarrow> u8 list list \<Rightarrow> ('o, 's) rdp_session" where
  "pasted S k mimetype ds = guac_rdp_clipboard_end_handler
     (fold (\<lambda>d S. guac_rdp_clipboard_blob_handler S k d) ds (guac_rdp_clipboard_handler S k mimetype)) k"

lemma blobs_appended:
  "rs_clipboard (fold (\<lambda>d S. guac_rdp_clipboard_blob_handler S k d) ds S)
     = fold (\<lambda>d c. guac_common_clipboard_append c d) (map (map char_of_byte) ds) (rs_clipboard S)"
  "rs_channel (fold (\<lambda>d S. guac_rdp_clipboard_blob_handler S k d) ds S) = rs_channel S"
  "rs_connected (fold (\<lambda>d S. guac_rdp_clipboard_blob_handler S k d) ds S) = rs_connected S"
  by (induction ds arbitrary: S) (simp_all add: guac_rdp_clipboard_blob_handler_def)

lemma reset_ok: "clipboard_ok clip \<Longrightarrow> clipboard_ok (guac_common_clipboard_reset clip mimetype)"
  "cb_length (guac_common_clipboard_reset clip mimetype) = 0"
  "cb_available (guac_common_clipboard_reset clip mimetype) = cb_available clip"
  by (auto simp: clipboard_ok_def guac_common_clipboard_reset_def strncpy_def)

lemma pasted_ok:
  assumes "clipboard_ok (rs_clipboard S)"
  shows "(let clip = rs_clipboard (pasted S k mimetype ds) in
      take (cb_length clip) (cb_buffer clip) = take (cb_available (rs_clipboard S)) (map char_of_byte (concat ds) @ [NUL]))"
    "rs_connected S \<Longrightarrow> rs_channel (pasted S k mimetype ds) = rs_channel S @ [Format_List [CB_FORMAT_TEXT, CB_FORMAT_UNICODETEXT]]"
proof -
  let ?clip = "guac_common_clipboard_reset (rs_clipboard S) mimetype"
  have h: "rs_clipboard (guac_rdp_clipboard_handler S k mimetype) = ?clip" "rs_channel (guac_rdp_clipboard_handler S k mimetype) = rs_channel S"
    "rs_connected (guac_rdp_clipboard_handler S k mimetype) = rs_connected S"
    by (simp_all add: guac_rdp_clipboard_handler_def new_stream_def set_input_stream_def Let_def)
  have e: "rs_clipboard (guac_rdp_clipboard_end_handler S k) = guac_common_clipboard_append (rs_clipboard S) [NUL]" for S :: "('o, 's) rdp_session"
    by (simp add: guac_rdp_clipboard_end_handler_def Let_def)
  have "rs_clipboard (pasted S k mimetype ds) = fold (\<lambda>d c. guac_common_clipboard_append c d) (map (map char_of_byte) ds @ [[NUL]]) ?clip"
    by (simp add: pasted_def e blobs_appended(1) h(1))
  moreover note clipboard_appends_ok [OF reset_ok(1) [OF assms], of "map (map char_of_byte) ds @ [[NUL]]" mimetype]
  ultimately show "let clip = rs_clipboard (pasted S k mimetype ds) in
      take (cb_length clip) (cb_buffer clip) = take (cb_available (rs_clipboard S)) (map char_of_byte (concat ds) @ [NUL])"
    by (simp add: Let_def reset_ok bytes_chars)
  show "rs_channel (pasted S k mimetype ds) = rs_channel S @ [Format_List [CB_FORMAT_TEXT, CB_FORMAT_UNICODETEXT]]" if "rs_connected S"
    using that by (simp add: pasted_def guac_rdp_clipboard_end_handler_def Let_def blobs_appended h)
qed

lemma utf8_terminator: "utf8_encode 0 = [NUL]"
  by (simp add: utf8_encode_def char_of_def)

lemma iconv_loop_cut: "reader input = None \<Longrightarrow> input \<noteq> [] \<Longrightarrow> 0 < room \<Longrightarrow> iconv_loop reader input writer room bytes = None"
  by (simp add: iconv_loop.simps)



section \<open>Copying\<close>

lemma plain_mimetype:
  "\<exists>rest. cb_mimetype (guac_common_clipboard_append (guac_common_clipboard_reset clip ''text/plain'') data) = ''text/plain'' @ NUL # rest"
proof -
  have "replicate 255 NUL = NUL # replicate 254 NUL" using replicate_Suc [of 254 NUL] by (simp del: replicate_Suc)
  then show ?thesis by (simp add: guac_common_clipboard_append_def guac_common_clipboard_reset_def strncpy_def Let_def del: replicate.simps)
qed

lemma data_response_ok:
  assumes "requested_clipboard_format R = format" and "format \<in> {CB_FORMAT_TEXT, CB_FORMAT_UNICODETEXT}"
    and "\<forall>cp \<in> set cps. format_has format cp" and "length (text_bytes utf8_encode cps) < 262144"
    and "length (text_bytes utf8_encode cps) \<le> cb_available (cr_clipboard R)" and "clipboard_ok (cr_clipboard R)"
    and "client_reach (cr_client R) as"
    and "\<forall>a \<in> set as. user_ok (user_at (cr_client R) a) \<and> \<not> (\<forall>i < 64. output_indices (user_at (cr_client R) a) ! i \<noteq> -1)"
  obtains R' where "guac_rdp_process_cb_data_response R (text_bytes (format_encode format) (cps @ [0]) @ rest) = Some (R', [])"
    "take (cb_length (cr_clipboard R')) (cb_buffer (cr_clipboard R')) = text_bytes utf8_encode cps"
    "\<forall>a \<in> set as. got_clipboard ''text/plain'' (text_bytes utf8_encode cps) (user_at (cr_client R) a) (user_at (cr_client R') a)"
proof -
  let ?text = "text_bytes utf8_encode cps"
  have v: "\<forall>cp \<in> set cps. bmp cp \<and> cp \<noteq> 0" using assms(3) has_bmp by blast
  have r: "length (concat (map utf8_encode (cps @ [0]))) \<le> 262144" using assms(4) by (simp add: text_bytes_def utf8_terminator)
  have "guac_iconv (if format = CB_FORMAT_TEXT then GUAC_READ_CP1252 else GUAC_READ_UTF16)
      (text_bytes (format_encode format) (cps @ [0]) @ rest) GUAC_WRITE_UTF8 262144 = Some (True, rest, ?text @ [NUL])"
    using copy_text.converts_terminated [of cps 262144 rest] copy_unicode.converts_terminated [of cps 262144 rest] assms(3) r
    by (auto simp: format_has_def format_encode_def text_bytes_def utf8_terminator split: if_splits)
  moreover define clip where "clip = guac_common_clipboard_append (guac_common_clipboard_reset (cr_clipboard R) ''text/plain'') ?text"
  moreover have "c_string (?text @ [NUL]) = ?text" using utf8_text_no_NUL [OF v] by simp
  moreover have b: "take (cb_length clip) (cb_buffer clip) = ?text"
    using clipboard_append_ok(4) [OF reset_ok(1) [OF assms(6)], of "''text/plain''" ?text] assms(5)
    by (simp add: clip_def reset_ok)
  obtain more where "cb_mimetype clip = ''text/plain'' @ NUL # more" using plain_mimetype unfolding clip_def by blast
  from clipboard_send_ok [OF assms(7,8) this] b obtain c' where c': "guac_common_clipboard_send clip (cr_client R) = Some c'"
    "\<forall>a \<in> set as. got_clipboard ''text/plain'' ?text (user_at (cr_client R) a) (user_at c' a)" by auto
  ultimately have "guac_rdp_process_cb_data_response R (text_bytes (format_encode format) (cps @ [0]) @ rest)
      = Some (R\<lparr>cr_clipboard := clip, cr_client := c'\<rparr>, [])"
    using assms(1,2) formats_differ
    by (auto simp: guac_rdp_process_cb_data_response_def Let_def GUAC_RDP_CLIPBOARD_MAX_LENGTH_def)
  then show ?thesis using b c'(2) that [of "R\<lparr>cr_clipboard := clip, cr_client := c'\<rparr>"] by simp
qed


text \<open>
  Samples: the word "no" with a euro sign, and a paste of which the clipboard holds the first byte of a character.
\<close>

definition sample_clipboard :: "nat \<Rightarrow> guac_common_clipboard" where
  "sample_clipboard n = guac_common_clipboard_alloc (replicate 256 NUL) (replicate n NUL)"

definition sample_paste :: "nat \<Rightarrow> (unit, unit) rdp_session" where
  "sample_paste n = \<lparr>rs_user = fresh_user, rs_filesystem = None, rs_streams = [], rs_svcs = [], rs_clipboard = sample_clipboard n,
     rs_connected = True, rs_channel = []\<rparr>"

lemma sample_clipboard_ok: "clipboard_ok (sample_clipboard n)" "cb_available (sample_clipboard n) = n"
  by (simp_all add: sample_clipboard_def clipboard_ok_def guac_common_clipboard_alloc_def)

lemma euro: "format_has CB_FORMAT_TEXT 0x20AC" "format_has CB_FORMAT_UNICODETEXT 0x20AC" "cp1252_encode 0x20AC = [CHR 0x80]"
  "utf16_encode 0x20AC = [CHR 0xAC, CHR 0x20]" "utf8_encode 0x20AC = [CHR 0xE2, CHR 0x82, CHR 0xAC]"
  "cp1252_encode 0 = [NUL]" "utf16_encode 0 = [NUL, NUL]"
  using formats_differ
  by (simp_all add: format_has_def in_cp1252_def bmp_def GUAC_RDP_CP1252_CODEPOINT_def cp1252_encode_def GUAC_WRITE_CP1252_def utf16_encode_def
      utf8_encode_def char_of_def)




end
