(* ===== verification/Spec2Isabelle.thy ===== *)
theory Spec2Isabelle
  imports Guac_Prelude Pool Unicode Socket Transports Protocol Parser Rect Common_List Str Json
    Slots User User_Handlers Client Clipboard Rdp_Paths Rdp_Fs Surface_Pixels Surface
    Surface_Sync Surface_Ops Surface_Run Winpr_Stream Audio_Input Ai_Messages Keyboard
    Rdp_Stream Shared_Memory Rdp_Unicode Rdpdr_Fs Rdpdr Rdpdr_Drive Audio Rdpsnd Iconv Cliprdr
begin

text \<open>
  A verification library for guacamole-server-windows, a port to Windows of the Guacamole proxy: users connect with a
  browser, speak the Guacamole protocol to this program, and the program speaks RDP for them to a remote desktop.
  The library models the program's own C code, function by function, and proves what it promises, or what it fails to
  keep.

  \<^bold>\<open>The parts of the program and the theories that model them\<close>

  \<^item> Instructions of the Guacamole protocol are written and read by \<^verbatim>\<open>libguac/src\<close>. \<open>Socket\<close> is \<^verbatim>\<open>socket.c\<close>: a record of
    optional handlers and the loops over them. \<open>Transports\<close> gives two of its providers, \<^verbatim>\<open>socket-boost-tcp.c\<close> and
    \<^verbatim>\<open>socket-tee.c\<close>, and \<open>Shared_Memory\<close> a third, \<^verbatim>\<open>socket-shared-memory.c\<close>, two rings of packets in a segment that the
    service and the process of a connection share. \<open>Protocol\<close> is \<^verbatim>\<open>protocol.c\<close>, a message per send function, and
    \<open>Parser\<close> is \<^verbatim>\<open>parser.c\<close>. \<open>Unicode\<close> is \<^verbatim>\<open>unicode.c\<close>, whose counting of characters both sides rely on.
  \<^item> What is connected. \<open>Pool\<close> is \<^verbatim>\<open>pool.c\<close>, the source of all indices; \<open>Slots\<close> the pattern of a table with indices from
    a pool; \<open>User\<close> and \<open>User_Handlers\<close> are \<^verbatim>\<open>user.c\<close> and \<^verbatim>\<open>user-handlers.c\<close>, a connected user, its streams and
    objects, and what it does with each instruction it receives; \<open>Client\<close> is \<^verbatim>\<open>client.c\<close>, a connection with its layers,
    streams and list of users; \<open>Audio\<close> is \<^verbatim>\<open>audio.c\<close> with \<^verbatim>\<open>raw_encoder.c\<close>, sound for its users.
  \<^item> What the protocols share, \<^verbatim>\<open>common/src\<close>: \<open>Rect\<close>, \<open>Common_List\<close>, \<open>Str\<close>, \<open>Json\<close>, \<open>Clipboard\<close>, \<open>Iconv\<close> are \<^verbatim>\<open>rect.c\<close>,
    \<^verbatim>\<open>list.c\<close>, \<^verbatim>\<open>string.c\<close>, \<^verbatim>\<open>json.c\<close>, \<^verbatim>\<open>clipboard.c\<close> (its broadcast is in \<open>Cliprdr\<close>) and \<^verbatim>\<open>iconv.c\<close>. \<^verbatim>\<open>surface.c\<close>, the drawing surface that sends a remote screen in pieces, is in
    \<open>Surface_Pixels\<close> (rectangles and pixel loops) and \<open>Surface\<close> (heat map, queue of updates, flushing, operations).
  \<^item> RDP, \<^verbatim>\<open>protocols/rdp/src\<close>. \<open>Rdp_Paths\<close> and \<open>Rdp_Fs\<close> are \<^verbatim>\<open>rdp_fs.c\<close>, the shared drive; \<open>Rdp_Stream\<close> is
    \<^verbatim>\<open>rdp_stream.c\<close> with \<^verbatim>\<open>rdp_svc.c\<close>, by which a user loads files from and into the drive; \<open>Rdp_Unicode\<close>,
    \<open>Rdpdr_Fs\<close> and \<open>Rdpdr\<close> are \<^verbatim>\<open>unicode.c\<close> and \<^verbatim>\<open>guac_rdpdr\<close>, by which the RDP server uses the same drive as a device.
    \<open>Audio_Input\<close> and \<open>Ai_Messages\<close> are \<^verbatim>\<open>audio_input.c\<close> and \<^verbatim>\<open>guac_ai\<close>, the microphone of a user. \<open>Rdpsnd\<close> is
    \<^verbatim>\<open>guac_rdpsnd\<close>, the sound of the desktop, and \<open>Cliprdr\<close> \<^verbatim>\<open>rdp_cliprdr.c\<close>, its clipboard. \<open>Keyboard\<close> is
    \<^verbatim>\<open>keyboard.c\<close> with the keymaps. \<open>Winpr_Stream\<close> holds the macros by which the channels read and write packets.

  They interact as the code does: a send function of \<open>Protocol\<close> calls the write functions of \<open>Socket\<close>, which call the
  handlers of a transport; the parser reads through the read handler of one; \<open>User_Handlers\<close> dispatches parsed
  instructions to the callbacks of a user, among them the handlers of \<open>Rdp_Stream\<close>; these and the requests of \<open>Rdpdr\<close>
  operate on one drive; surfaces send their updates as messages of \<open>Protocol\<close>.

  \<^bold>\<open>How code becomes definitions\<close>

  A function of the source is a definition of its name, with its guards, returns and calls in their order; loops are
  recursive functions of their own, named after the function. A struct is a record, an enum a datatype, an array a list
  of fixed length. The state a function changes is an argument and a result. Words of C are words of their width where
  their wrap-around matters (\<open>Winpr_Stream\<close>, \<open>Surface_Pixels\<close>, the maps of \<open>Keyboard\<close>), and \<open>int\<close> where the values are
  bounded by what the theorems assume. Memory that the code finds uninitialised is an argument (\<open>junk\<close>, \<open>uninitialised\<close>,
  \<open>malloc\<close>).
  A result in \<open>option\<close> is \<open>None\<close> where the code has no defined result: a null pointer or an index outside an array is used, a
  loop does not end, an exception leaves the function. Error codes, null results and early returns are ordinary values.
  Loops that may not end are \<open>partial_function (option)\<close>; theorems that they do end say so as \<open>= Some\<close>.
  Files, sockets, clocks and the pixel composition of the browser are parameters, with what is used of them as named
  hypotheses (\<open>stores_files\<close>, \<open>keeps_files\<close>, \<open>close_opens_nothing\<close>, \<open>fault\<close>, the laws of \<open>compositing\<close>).

  \<^bold>\<open>Interfaces\<close>

  \<^item> \<open>int_pool\<close> and \<open>bounded_pool\<close>: a source of numbers that are not in use, and one with a high-water mark; interpreted
    by \<open>gp\<close> and \<open>gb\<close> on the functions of \<open>Pool\<close>. \<open>slot_table\<close> extends the second to tables, interpreted for the streams of
    a user (\<open>ut\<close>), its objects (\<open>ot\<close>) and the streams of a client (\<open>ct\<close>). The open files of the drive use \<open>gb\<close>.
  \<^item> \<open>byte_sink\<close>: a transport that delivers what is written; everything \<open>Protocol\<close> sends is proved for it. Interpreted on
    TCP (\<open>tcp\<close>); \<open>tee_pair\<close> shows that a tee of two sinks is a sink twice (\<open>sublocale\<close>), interpreted on two TCP sockets
    (\<open>tcp_tee\<close>).
  \<^item> \<open>byte_source\<close>: a transport that can be read to its end; the parser is proved for it. Interpreted on TCP (\<open>tcp_in\<close>)
    and on the end of a shared memory channel (\<open>shm_in\<close>).
  \<^item> \<open>compositing\<close>: what a picture does with pixels drawn over it; interpreted by \<open>blending\<close> on the rule the surface itself
    applies to its buffer.
  \<^item> \<open>transcoding\<close>: a reader and a writer of two encodings of a text; interpreted for both directions of the clipboard and
    both of its formats (\<open>paste_unicode\<close>, \<open>paste_text\<close>, \<open>copy_unicode\<close>, \<open>copy_text\<close>).
  \<^item> \<open>rate_scale\<close>: the arithmetic of the resampler; interpreted by \<open>exact\<close> where the rates divide without rounding.

  \<^bold>\<open>What is proved\<close>

  The properties are marked C1, C2, \<open>\<dots>\<close> where they stand.

  \<^item> Protocol: what is sent over a working transport is what the parser reads, however it is segmented, and no input
    makes the parser leave its buffer. Base64, UTF-8 and JSON are read back as what was written.
  \<^item> Resources: indices handed out are fresh, tables stay in order, lists of users and of elements refine sequences; a layer
    that is freed while it is in use can be handed out again.
  \<^item> Instructions of a user refine an abstract table of streams; the error paths answer as they must.
  \<^item> Surfaces: the abstract state is the picture of the client. Every operation keeps it in step outside the dirty region,
    a flush makes it equal, a change of size keeps what is common. Pixel loops are equal to one simultaneous assignment.
  \<^item> The drive: no path of a request leaves the shared directory; opening leaves the table in order; an upload is stored and
    a download delivered as they are; requests of the server round-trip through the drive and each is answered at most
    once. Where the code loses data or ids the theorem says which.
  \<^item> The shared memory channel refines two bounded queues without streamlining, and fails as stated with it. Text
    copied on the desktop reaches every user and is what the server reads back, text pasted by a user reaches the server. The
    sound of the desktop reaches the users byte for byte and in order, and its writes return exactly when the buffer of
    the encoder has room. The resampler is equal to its specification, the keyboard sends each key under the modifiers its keymap asks for.

  Witnesses follow the properties they instantiate; the file system of \<open>memory_os\<close> in \<open>Rdp_Stream\<close> and the sockets
  built in \<open>Transports\<close> serve only them.

  \<^bold>\<open>Bounds\<close>

  Taken from the source: 128 open files, paths of 4096 bytes with 64 components, 64 streams and objects per user,
  8 devices, a parser buffer of 32768 bytes for instructions of at most 8192 with 64 elements, JSON and file blobs of 4096 bytes, audio blobs of 6048, 262144 bytes of clipboard text,
  16 formats of sound. Theorems
  carry them as hypotheses only where the code does not check them; where it checks, the other side is covered as well.
  No definition of the program has fuel. Two readers that only the statements use have it (\<open>walk_from\<close> over a linked list,
  \<open>read_json_members\<close> over a text); the lemmas about them give the length of the list or the number of members as enough.

  \<^bold>\<open>Not modelled\<close>

  Image encoders, thin wrappers of system calls (\<^verbatim>\<open>socket-fd.c\<close>, \<^verbatim>\<open>socket-named-pipe.c\<close>, recordings), logging, threads,
  and the callbacks by which FreeRDP is set up and decodes graphics: their content is the library called. A handler that holds
  a lock is one step; interleavings inside a handler that does not are not modelled. The C++ service (\<^verbatim>\<open>guacservice\<close>) is processes, acceptors and timeouts around the modelled parts.
  Vendored headers are not code of this program; the constants and macros in use are translated where they are used.
  The five variants of \<^verbatim>\<open>socket-shared-memory.c\<close> that the preprocessor excludes are not part of the program.
\<close>

section \<open>From the send functions to the parser\<close>

text \<open>Sending several instructions; \<open>None\<close> when one of them fails.\<close>

fun send_all ::
  "('d \<Rightarrow> char list) \<Rightarrow> 's guac_socket \<Rightarrow> 'd guac_message list \<Rightarrow> 's guac_socket option" where
  "send_all fmt s [] = Some s"
| "send_all fmt s (m # ms) =
     (case send_message fmt s m of None \<Rightarrow> None
      | Some (r, s') \<Rightarrow> if r \<noteq> 0 then None else send_all fmt s' ms)"

lemma tcp_send_all:
  "tcp.is_wired s \<Longrightarrow> tcp_up (sk_data s) \<Longrightarrow> ready s = 0 \<Longrightarrow> \<not> socket_mutex (sk_data s) \<Longrightarrow>
     \<exists>s'. send_all fmt s ms = Some s'
       \<and> tcp_sent (sk_data s') = tcp_sent (sk_data s)
            @ concat (map (\<lambda>m. encode_instruction (message_elements fmt m)) ms)"
proof (induction ms arbitrary: s)
  case (Cons m ms)
  from tcp.send_message_ok [of fmt m] Cons.prems obtain s1 where
    "send_message fmt s m = Some (0, s1)" "tcp.is_wired s1" "tcp_up (sk_data s1)" "ready s1 = 0"
    "\<not> socket_mutex (sk_data s1)"
    "tcp_sent (sk_data s1) = tcp_sent (sk_data s) @ encode_instruction (message_elements fmt m)"
    unfolding sends_def by blast
  with Cons.IH [of s1] show ?case by auto
qed simp

text \<open>
  C1. End to end: what the send functions write on one end is what the parser reads on the other.
  For any list of messages that fit, sending them over a working TCP socket succeeds, and a fresh
  parser to which the bytes arrive in any segments reads the opcode and the arguments of each
  message, in order.
\<close>

theorem end_to_end:
  assumes "\<forall>n \<ge> calls c. fault c n = None" and "sent c = []"
    and "\<forall>m \<in> set ms. fits (message_elements fmt m)"
    and "length junk = 32768" and "length ptrs = 64"
  shows "\<exists>s'. send_all fmt (guac_socket_boost_tcp_socket c ssl waits clk) ms = Some s'
     \<and> (\<forall>d. [] \<notin> set (arriving d) \<and> concat (arriving d) = tcp_sent (sk_data s') \<longrightarrow>
          parser_read_many (length ms) (guac_parser_alloc junk ptrs)
            (guac_socket_boost_tcp_socket d ssl' (\<lambda>_. Wait_Ready) clk') usec_timeout
          = Some (map (\<lambda>m. (hd (message_elements fmt m), tl (message_elements fmt m))) ms))"
proof -
  let ?ess = "map (message_elements fmt) ms"
  have "tcp_up (sk_data (guac_socket_boost_tcp_socket c ssl waits clk))"
    "tcp_sent (sk_data (guac_socket_boost_tcp_socket c ssl waits clk)) = []"
    using assms(1,2) tcp_socket_wired(4) [of c ssl waits clk] by (auto simp: tcp_up_def tcp_sent_def)
  from tcp_send_all [OF tcp_socket_wired(1) this(1) tcp_socket_wired(2,3), of fmt ms] this(2)
  obtain s' where s': "send_all fmt (guac_socket_boost_tcp_socket c ssl waits clk) ms = Some s'"
    "tcp_sent (sk_data s') = concat (map encode_instruction ?ess)" by (auto simp: comp_def)
  have "parser_read_many (length ms) (guac_parser_alloc junk ptrs)
          (guac_socket_boost_tcp_socket d ssl' (\<lambda>_. Wait_Ready) clk') usec_timeout
        = Some (map (\<lambda>m. (hd (message_elements fmt m), tl (message_elements fmt m))) ms)"
    if "[] \<notin> set (arriving d)" "concat (arriving d) = tcp_sent (sk_data s')" for d
  proof -
    let ?s = "guac_socket_boost_tcp_socket d ssl' (\<lambda>_. Wait_Ready) clk'"
    have "tcp_live (sk_data ?s)" "tcp_pending (sk_data ?s) = concat (map encode_instruction ?ess)"
      using that s'(2) by (simp_all add: tcp_live_def tcp_pending_def tcp_socket_readable(2)
          tcp_stream_def)
    then show ?thesis
      using tcp_in.read_many_ok [of "guac_parser_alloc junk ptrs" ?ess ?s usec_timeout]
        parser_alloc_idle [OF assms(4,5)] tcp_socket_readable(1) assms(3) by (simp add: comp_def)
  qed
  then show ?thesis using s'(1) by blast
qed

theorem end_to_end_witness:
  "\<exists>s'. send_all (\<lambda>_ :: unit. []) (guac_socket_boost_tcp_socket idle_stream False
          (\<lambda>_. Wait_Ready) (\<lambda>_. 0))
       [Control_Message Send_nop, Control_Message (Send_name ''lab'')] = Some s'
     \<and> (\<forall>d. [] \<notin> set (arriving d) \<and> concat (arriving d) = tcp_sent (sk_data s') \<longrightarrow>
          parser_read_many 2 (guac_parser_alloc (replicate 32768 NUL) (replicate 64 0))
            (guac_socket_boost_tcp_socket d False (\<lambda>_. Wait_Ready) (\<lambda>_. 0)) 0
          = Some [(''nop'', []), (''name'', [''lab''])])"
proof -
  have e: "encode_element ''lab'' = ''3.lab''" by (simp add: opcode digits_of_nat.simps digit_chars)
  have f: "fits [''nop'']" "fits [''name'', ''lab'']"
    by (rule plain_fits; simp add: e wire_simps)+
  have i: "\<forall>n \<ge> calls idle_stream. fault idle_stream n = None" "sent idle_stream = []"
    by (simp_all add: idle_stream_def)
  show ?thesis
    using end_to_end [OF i, of "[Control_Message Send_nop, Control_Message (Send_name ''lab'')]"
        "\<lambda>_ :: unit. []" "replicate 32768 NUL" "replicate 64 0" False "\<lambda>_. Wait_Ready" "\<lambda>_. 0"
        False "\<lambda>_. 0" 0] f
    by (simp add: numeral_2_eq_2)
qed

end
